(* ===== verification/Prelude.thy ===== *)
theory Prelude
  imports Main "HOL-Library.Word" "HOL-Library.AList" "HOL-Library.Multiset"
    "HOL-Library.List_Lexorder" "HOL-Library.Char_ord" "HOL-Library.Signed_Division"
begin

unbundle bit_operations_syntax

text \<open>
  Shared vocabulary of the development: the machine integers of the Go code, the model of
  \<^verbatim>\<open>time.Time\<close> and \<^verbatim>\<open>time.Duration\<close>, Go maps as association lists with distinct keys,
  hexadecimal text, and the generic lemmas the component theories share.

  Conventions used throughout:
  \<^item> a Go \<^verbatim>\<open>[]byte\<close> or \<^verbatim>\<open>[n]byte\<close> is a list of 8-bit words; \<^verbatim>\<open>bytes.Compare\<close> is the
    lexicographic order of \<^verbatim>\<open>List_Lexorder\<close>;
  \<^item> a Go \<^verbatim>\<open>string\<close> is a \<open>string\<close> (a list of byte-valued characters), ordered the same way;
  \<^item> an instant \<^verbatim>\<open>time.Time\<close> is the integer number of nanoseconds since the Unix epoch; the
    zero value \<^verbatim>\<open>time.Time{}\<close> (January 1, year 1 UTC) is the instant \<open>time_zero\<close>;
  \<^item> a Go map is a list of key/value pairs with distinct keys whose order is the order a
    \<^verbatim>\<open>range\<close> over that map visits; Go leaves that order open, so theorems about a \<^verbatim>\<open>range\<close>
    hold for every order of the list;
  \<^item> Go integers that only count or index are \<open>nat\<close> or \<open>int\<close>; those whose width the code
    relies on are words.
\<close>

section \<open>Collections of facts\<close>

named_theorems go_time \<open>unfolding rules for the model of package time\<close>
named_theorems gomap_simps \<open>rewrite rules for Go maps as association lists\<close>
named_theorems inv_intros \<open>preservation lemmas of the component invariants\<close>

section \<open>Machine integers and byte strings\<close>

type_synonym byte = "8 word"
type_synonym u16 = "16 word"
type_synonym u32 = "32 word"
type_synonym u64 = "64 word"

abbreviation max_int64 :: int where
  "max_int64 \<equiv> 9223372036854775807"

abbreviation min_int64 :: int where
  "min_int64 \<equiv> - 9223372036854775808"

section \<open>Package time\<close>

type_synonym gotime = int
type_synonym duration = int

definition second :: duration where
  "second = 1000000000"

definition minute :: duration where
  "minute = 60 * second"

definition hour :: duration where
  "hour = 60 * minute"

definition time_zero :: gotime where
  "time_zero = - 62135596800 * 1000000000"

definition time_IsZero :: "gotime \<Rightarrow> bool" where
  "time_IsZero t \<longleftrightarrow> t = time_zero"

text \<open>\<^verbatim>\<open>t.Sub(u)\<close> saturates at the ends of the 64-bit \<^verbatim>\<open>Duration\<close>.\<close>

definition time_Sub :: "gotime \<Rightarrow> gotime \<Rightarrow> duration" where
  "time_Sub t u = max min_int64 (min max_int64 (t - u))"

definition time_Add :: "gotime \<Rightarrow> duration \<Rightarrow> gotime" where
  "time_Add t d = t + d"

text \<open>\<^verbatim>\<open>t.Unix()\<close> is the whole number of seconds, rounded down; \<^verbatim>\<open>time.Unix(v, 0)\<close> inverts it.\<close>

definition time_Unix :: "gotime \<Rightarrow> int" where
  "time_Unix t = t div 1000000000"

definition unix_time :: "int \<Rightarrow> gotime" where
  "unix_time v = v * 1000000000"

section \<open>Go maps\<close>

type_synonym ('k, 'v) gomap = "('k \<times> 'v) list"

definition gomap_ok :: "('k, 'v) gomap \<Rightarrow> bool" where
  "gomap_ok m \<longleftrightarrow> distinct (map fst m)"

text \<open>The number of entries whose value satisfies a predicate.\<close>

definition count_vals :: "('v \<Rightarrow> bool) \<Rightarrow> ('k, 'v) gomap \<Rightarrow> nat" where
  "count_vals P m = length (filter (\<lambda>kv. P (snd kv)) m)"

section \<open>Hexadecimal text (package encoding/hex)\<close>

definition hex_digit :: "nat \<Rightarrow> char" where
  "hex_digit d = ''0123456789abcdef'' ! d"

definition hex_byte :: "byte \<Rightarrow> string" where
  "hex_byte b = [hex_digit (unat b div 16), hex_digit (unat b mod 16)]"

definition hex_EncodeToString :: "byte list \<Rightarrow> string" where
  "hex_EncodeToString bs = concat (map hex_byte bs)"

text \<open>\<^verbatim>\<open>hex.DecodeString\<close> accepts both cases of the letters.\<close>

definition from_hex_digit :: "char \<Rightarrow> nat option" where
  "from_hex_digit c =
     (let n = of_char c :: nat in
      if 48 \<le> n \<and> n \<le> 57 then Some (n - 48)
      else if 97 \<le> n \<and> n \<le> 102 then Some (n - 87)
      else if 65 \<le> n \<and> n \<le> 70 then Some (n - 55)
      else None)"

fun hex_DecodeString :: "string \<Rightarrow> byte list option" where
  "hex_DecodeString [] = Some []"
| "hex_DecodeString [c] = None"
| "hex_DecodeString (c # d # s) =
     (case (from_hex_digit c, from_hex_digit d) of
        (Some a, Some b) \<Rightarrow> map_option (\<lambda>bs. of_nat (16 * a + b) # bs) (hex_DecodeString s)
      | _ \<Rightarrow> None)"

section \<open>Package encoding/binary\<close>

fun le_digits :: "nat \<Rightarrow> nat \<Rightarrow> byte list" where
  "le_digits 0 n = []"
| "le_digits (Suc k) n = of_nat n # le_digits k (n div 256)"

fun le_value :: "byte list \<Rightarrow> nat" where
  "le_value [] = 0"
| "le_value (b # bs) = unat b + 256 * le_value bs"

definition LittleEndian_Uint64 :: "byte list \<Rightarrow> u64" where
  "LittleEndian_Uint64 bs = of_nat (le_value bs)"

definition LittleEndian_PutUint64 :: "u64 \<Rightarrow> byte list" where
  "LittleEndian_PutUint64 v = le_digits 8 (unat v)"

definition BigEndian_Uint64 :: "byte list \<Rightarrow> u64" where
  "BigEndian_Uint64 bs = of_nat (le_value (rev bs))"

definition BigEndian_PutUint64 :: "u64 \<Rightarrow> byte list" where
  "BigEndian_PutUint64 v = rev (le_digits 8 (unat v))"

definition BigEndian_PutUint32 :: "u32 \<Rightarrow> byte list" where
  "BigEndian_PutUint32 v = rev (le_digits 4 (unat v))"

section \<open>Facts about time\<close>

lemmas time_defs [go_time] =
  time_IsZero_def time_Sub_def time_Add_def time_Unix_def unix_time_def
  second_def minute_def hour_def

lemma time_Unix_unix_time [simp]: "time_Unix (unix_time v) = v"
  by (simp add: go_time)

lemma unix_time_le: "unix_time (time_Unix t) \<le> t"
  by (simp add: go_time)

lemma unix_time_mono: "v \<le> w \<Longrightarrow> unix_time v \<le> unix_time w"
  by (simp add: go_time)

lemma time_Unix_mono: "t \<le> u \<Longrightarrow> time_Unix t \<le> time_Unix u"
  by (simp add: go_time zdiv_mono1)

lemma time_Sub_ge_iff:
  "min_int64 < d \<Longrightarrow> d \<le> max_int64 \<Longrightarrow> d \<le> time_Sub t u \<longleftrightarrow> d \<le> t - u"
  by (auto simp: time_Sub_def)

lemma time_Sub_less_iff:
  "min_int64 < d \<Longrightarrow> d \<le> max_int64 \<Longrightarrow> time_Sub t u < d \<longleftrightarrow> t - u < d"
  by (auto simp: time_Sub_def)

section \<open>Facts about Go maps\<close>

lemma gomap_ok_Nil [simp]: "gomap_ok []"
  by (simp add: gomap_ok_def)

lemma gomap_ok_update [gomap_simps, intro]: "gomap_ok m \<Longrightarrow> gomap_ok (AList.update k v m)"
  by (simp add: gomap_ok_def distinct_update)

lemma gomap_ok_delete [gomap_simps, intro]: "gomap_ok m \<Longrightarrow> gomap_ok (AList.delete k m)"
  by (simp add: gomap_ok_def distinct_delete)

lemma gomap_ok_Cons: "gomap_ok ((k, v) # m) \<longleftrightarrow> map_of m k = None \<and> gomap_ok m"
  by (auto simp: gomap_ok_def map_of_eq_None_iff)

lemma map_of_update [gomap_simps]:
  "map_of (AList.update k v m) k' = (if k' = k then Some v else map_of m k')"
  by (simp add: update_conv')

lemma map_of_delete [gomap_simps]:
  "map_of (AList.delete k m) k' = (if k' = k then None else map_of m k')"
  by (simp add: delete_conv')

lemma gomap_in_set_iff: "gomap_ok m \<Longrightarrow> (k, v) \<in> set m \<longleftrightarrow> map_of m k = Some v"
  by (auto simp: gomap_ok_def map_of_eq_Some_iff)

lemma length_gomap_update:
  "length (AList.update k v m) = (if map_of m k = None then Suc (length m) else length m)"
  by (induction m) auto

lemma length_gomap_delete:
  "gomap_ok m \<Longrightarrow> length (AList.delete k m) = (if map_of m k = None then length m else length m - 1)"
proof (induction m)
  case (Cons kv m)
  then show ?case
    by (cases kv) (auto simp: gomap_ok_Cons length_Suc_conv delete_idem map_of_eq_None_iff
        dest!: length_pos_if_in_set)
qed simp

lemma length_gomap_delete_le: "length (AList.delete k m) \<le> length m"
  by (induction m) auto

lemma count_vals_Nil [simp]: "count_vals P [] = 0"
  by (simp add: count_vals_def)

lemma count_vals_Cons [simp]: "count_vals P ((k, v) # m) = of_bool (P v) + count_vals P m"
  by (simp add: count_vals_def)

lemma count_vals_update:
  "int (count_vals P (AList.update k v m)) =
     int (count_vals P m) + of_bool (P v) -
     (case map_of m k of None \<Rightarrow> 0 | Some w \<Rightarrow> of_bool (P w))"
  by (induction m) (auto split: option.splits)

lemma count_vals_delete:
  "gomap_ok m \<Longrightarrow> int (count_vals P (AList.delete k m)) =
     int (count_vals P m) - (case map_of m k of None \<Rightarrow> 0 | Some w \<Rightarrow> of_bool (P w))"
proof (induction m)
  case (Cons kv m)
  then show ?case
    by (cases kv) (auto simp: gomap_ok_Cons delete_idem map_of_eq_None_iff split: option.splits)
qed simp

lemma count_vals_perm: "mset m = mset m' \<Longrightarrow> count_vals P m = count_vals P m'"
  by (metis count_vals_def mset_filter size_mset)

lemma map_of_eqI_mset: "distinct (map fst m) \<Longrightarrow> mset m' = mset m \<Longrightarrow> map_of m' = map_of m"
  by (metis map_of_inject_set mset_eq_setD mset_eq_imp_distinct_iff mset_map)

section \<open>Facts about hexadecimal text\<close>

lemma from_hex_digit_hex_digit: "d < 16 \<Longrightarrow> from_hex_digit (hex_digit d) = Some d"
  by (auto simp: less_Suc_eq numeral_eq_Suc hex_digit_def from_hex_digit_def)

lemma hex_byte_decode:
  "hex_DecodeString (hex_byte b @ s) = map_option (\<lambda>bs. b # bs) (hex_DecodeString s)"
proof -
  have "unat b < 256" using unsigned_less [of b, where ?'a = nat] by simp
  then have d: "unat b div 16 < 16" and m: "unat b mod 16 < 16" by auto
  have "(of_nat (16 * (unat b div 16) + unat b mod 16) :: byte) = b"
    by (simp add: mult.commute [of 16])
  then show ?thesis
    by (simp add: hex_byte_def from_hex_digit_hex_digit [OF d] from_hex_digit_hex_digit [OF m])
qed

theorem hex_roundtrip [simp]: "hex_DecodeString (hex_EncodeToString bs) = Some bs"
  unfolding hex_EncodeToString_def by (induction bs) (simp_all add: hex_byte_decode)

lemma hex_EncodeToString_inj: "hex_EncodeToString xs = hex_EncodeToString ys \<Longrightarrow> xs = ys"
  by (metis hex_roundtrip option.inject)

lemma hex_DecodeString_length: "hex_DecodeString s = Some bs \<Longrightarrow> length s = 2 * length bs"
  by (induction s arbitrary: bs rule: hex_DecodeString.induct) (auto split: option.splits)

section \<open>Facts about byte order\<close>

lemma length_le_digits [simp]: "length (le_digits k n) = k"
  by (induction k arbitrary: n) auto

lemma le_value_le_digits: "le_value (le_digits k n) = n mod 256 ^ k"
proof (induction k arbitrary: n)
  case (Suc k)
  have "n mod 256 ^ Suc k = 256 * ((n div 256) mod 256 ^ k) + n mod 256"
    by (simp add: mod_mult2_eq)
  with Suc show ?case by (simp add: unat_of_nat)
qed simp

lemma byte_256: "(256 :: byte) = 0"
  by simp

lemma le_digits_le_value: "le_digits (length bs) (le_value bs) = bs"
proof (induction bs)
  case (Cons b bs)
  have "unat b < 256" using unsigned_less [of b, where ?'a = nat] by simp
  with Cons show ?case by (simp add: byte_256)
qed simp

lemma le_value_less: "le_value bs < 256 ^ length bs"
  by (metis le_digits_le_value le_value_le_digits mod_less_divisor zero_less_numeral zero_less_power)

theorem LittleEndian_roundtrip [simp]: "LittleEndian_Uint64 (LittleEndian_PutUint64 v) = v"
  using unsigned_less [of v, where ?'a = nat]
  by (simp add: LittleEndian_Uint64_def LittleEndian_PutUint64_def le_value_le_digits)

theorem LittleEndian_roundtrip_bytes:
  "length bs = 8 \<Longrightarrow> LittleEndian_PutUint64 (LittleEndian_Uint64 bs) = bs"
  using le_value_less [of bs] le_digits_le_value [of bs]
  by (simp add: LittleEndian_Uint64_def LittleEndian_PutUint64_def unat_of_nat)

lemma length_PutUint64 [simp]:
  "length (LittleEndian_PutUint64 v) = 8" "length (BigEndian_PutUint64 v) = 8"
  by (simp_all add: LittleEndian_PutUint64_def BigEndian_PutUint64_def)

end
