(* ===== verification/GoHeap.thy ===== *)
theory GoHeap
  imports Prelude
begin

text \<open>
  Go's \<^verbatim>\<open>container/heap\<close> on a slice (\<open>heap_up\<close>, \<open>heap_down\<close>, \<open>heap_Push\<close>, \<open>heap_Pop\<close>,
  \<open>heap_Fix\<close>, \<open>heap_Init\<close>) and the bounded selection \<^verbatim>\<open>topK\<close> of
  \<^verbatim>\<open>internal/nodeset/nodeset.go\<close> built on it. The heap is the slice itself; the ordering the
  client supplies (\<^verbatim>\<open>Less\<close> of the interface) is the argument \<open>lt\<close>.

  The locale \<open>strict_weak\<close> states what a client promises of its ordering. Inside it the heap
  operations are proved to keep the heap shape and the multiset of elements and to deliver a
  least element, and \<open>topK\<close> to retain the best \<open>limit\<close> of the values offered, in whatever
  order they are offered.
\<close>

section \<open>Package container/heap\<close>

definition swap :: "'a list \<Rightarrow> nat \<Rightarrow> nat \<Rightarrow> 'a list" where
  "swap h i j = h[i := h ! j, j := h ! i]"

definition parent :: "nat \<Rightarrow> nat" where
  "parent j = (j - 1) div 2"

lemma parent_0 [simp]: "parent 0 = 0"
  by (simp add: parent_def)

lemma parent_less [simp]: "0 < j \<Longrightarrow> parent j < j"
  by (auto simp: parent_def div_less_iff_less_mult)

lemma parent_eq_self_iff [simp]: "parent j = j \<longleftrightarrow> j = 0"
  by (metis less_irrefl not_gr0 parent_0 parent_less)

lemma parent_bound [simp]: "j < n \<Longrightarrow> parent j < n"
  by (metis less_trans not_gr0 parent_0 parent_less)

lemma parent_eq_iff: "0 < k \<Longrightarrow> parent k = i \<longleftrightarrow> k = 2 * i + 1 \<or> k = 2 * i + 2"
  by (auto simp: parent_def)

function heap_up :: "('a \<Rightarrow> 'a \<Rightarrow> bool) \<Rightarrow> 'a list \<Rightarrow> nat \<Rightarrow> 'a list" where
  "heap_up lt h j =
     (if parent j = j \<or> \<not> lt (h ! j) (h ! parent j) then h
      else heap_up lt (swap h (parent j) j) (parent j))"
  by pat_completeness auto
termination
  by (relation "measure (\<lambda>(lt, h, j). j)") auto

definition lesser_child :: "('a \<Rightarrow> 'a \<Rightarrow> bool) \<Rightarrow> 'a list \<Rightarrow> nat \<Rightarrow> nat \<Rightarrow> nat" where
  "lesser_child lt h i n =
     (if 2 * i + 2 < n \<and> lt (h ! (2 * i + 2)) (h ! (2 * i + 1)) then 2 * i + 2 else 2 * i + 1)"

function heap_down :: "('a \<Rightarrow> 'a \<Rightarrow> bool) \<Rightarrow> 'a list \<Rightarrow> nat \<Rightarrow> nat \<Rightarrow> 'a list \<times> nat" where
  "heap_down lt h i n =
     (if n \<le> 2 * i + 1 then (h, i)
      else if \<not> lt (h ! lesser_child lt h i n) (h ! i) then (h, i)
      else heap_down lt (swap h i (lesser_child lt h i n)) (lesser_child lt h i n) n)"
  by pat_completeness auto
termination
  by (relation "measure (\<lambda>(lt, h, i, n). n - i)") (auto simp: lesser_child_def)

definition heap_Push :: "('a \<Rightarrow> 'a \<Rightarrow> bool) \<Rightarrow> 'a list \<Rightarrow> 'a \<Rightarrow> 'a list" where
  "heap_Push lt h x = heap_up lt (h @ [x]) (length h)"

text \<open>\<^verbatim>\<open>Pop\<close> panics on an empty heap; every caller checks the length first.\<close>

definition heap_Pop :: "('a \<Rightarrow> 'a \<Rightarrow> bool) \<Rightarrow> 'a list \<Rightarrow> ('a \<times> 'a list) option" where
  "heap_Pop lt h =
     (if h = [] then None
      else let n = length h - 1; h' = fst (heap_down lt (swap h 0 n) 0 n)
           in Some (h' ! n, take n h'))"

definition heap_Fix :: "('a \<Rightarrow> 'a \<Rightarrow> bool) \<Rightarrow> 'a list \<Rightarrow> nat \<Rightarrow> 'a list" where
  "heap_Fix lt h i =
     (let (h', i') = heap_down lt h i (length h)
      in if i < i' then h' else heap_up lt h' i)"

fun heap_Init_from :: "('a \<Rightarrow> 'a \<Rightarrow> bool) \<Rightarrow> 'a list \<Rightarrow> nat \<Rightarrow> 'a list" where
  "heap_Init_from lt h 0 = h"
| "heap_Init_from lt h (Suc i) = heap_Init_from lt (fst (heap_down lt h i (length h))) i"

definition heap_Init :: "('a \<Rightarrow> 'a \<Rightarrow> bool) \<Rightarrow> 'a list \<Rightarrow> 'a list" where
  "heap_Init lt h = heap_Init_from lt h (length h div 2)"

text \<open>The heap shape: no element is less than its parent.\<close>

definition heap_ok :: "('a \<Rightarrow> 'a \<Rightarrow> bool) \<Rightarrow> 'a list \<Rightarrow> bool" where
  "heap_ok lt h \<longleftrightarrow> (\<forall>k < length h. 0 < k \<longrightarrow> \<not> lt (h ! k) (h ! parent k))"

section \<open>The bounded selection topK\<close>

record 'a topK =
  items :: "'a list"
  limit :: nat
  better :: "'a \<Rightarrow> 'a \<Rightarrow> bool"

definition newTopK :: "int \<Rightarrow> ('a \<Rightarrow> 'a \<Rightarrow> bool) \<Rightarrow> 'a topK" where
  "newTopK lim bet = \<lparr>items = [], limit = nat (max lim 0), better = bet\<rparr>"

text \<open>\<^verbatim>\<open>Less(i, j)\<close> compares \<open>items[j]\<close> with \<open>items[i]\<close>, so the worst retained value is at the root.\<close>

definition topK_Less :: "'a topK \<Rightarrow> 'a \<Rightarrow> 'a \<Rightarrow> bool" where
  "topK_Less h a b = better h b a"

definition offer :: "'a topK \<Rightarrow> 'a \<Rightarrow> 'a topK" where
  "offer h v =
     (if limit h \<le> 0 then h
      else if length (items h) < limit h then h\<lparr>items := heap_Push (topK_Less h) (items h) v\<rparr>
      else if better h v (items h ! 0)
           then h\<lparr>items := heap_Fix (topK_Less h) ((items h)[0 := v]) 0\<rparr>
      else h)"

definition offer_all :: "'a topK \<Rightarrow> 'a list \<Rightarrow> 'a topK" where
  "offer_all h vs = foldl offer h vs"

text \<open>
  \<^verbatim>\<open>sort.Slice\<close> with a comparison, as an insertion sort. Go leaves the order of incomparable
  elements open; \<open>sort_Slice_unique\<close> shows that the result does not depend on the algorithm
  where the comparison decides every pair. The sort below is stable, so it also models
  \<^verbatim>\<open>sort.SliceStable\<close> and \<^verbatim>\<open>slices.SortStableFunc\<close>.
\<close>

fun insert_by :: "('a \<Rightarrow> 'a \<Rightarrow> bool) \<Rightarrow> 'a \<Rightarrow> 'a list \<Rightarrow> 'a list" where
  "insert_by lt x [] = [x]"
| "insert_by lt x (y # ys) = (if lt y x then y # insert_by lt x ys else x # y # ys)"

definition sort_Slice :: "('a \<Rightarrow> 'a \<Rightarrow> bool) \<Rightarrow> 'a list \<Rightarrow> 'a list" where
  "sort_Slice lt xs = foldr (insert_by lt) xs []"

text \<open>
  What a bounded selection promises: \<open>R\<close> holds \<open>k\<close> of the values (all of them when there are
  fewer), and no value left out is better than one retained.
\<close>

definition best_of :: "('a \<Rightarrow> 'a \<Rightarrow> bool) \<Rightarrow> nat \<Rightarrow> 'a multiset \<Rightarrow> 'a multiset \<Rightarrow> bool" where
  "best_of bet k M R \<longleftrightarrow>
     R \<subseteq># M \<and> size R = min k (size M) \<and> (\<forall>a \<in># R. \<forall>b \<in># M - R. \<not> bet b a)"

section \<open>Elements are only moved\<close>

declare heap_up.simps [simp del] heap_down.simps [simp del]

lemma length_swap [simp]: "length (swap h i j) = length h"
  by (simp add: swap_def)

lemma nth_swap:
  "i < length h \<Longrightarrow> j < length h \<Longrightarrow> k < length h \<Longrightarrow>
     swap h i j ! k = (if k = j then h ! i else if k = i then h ! j else h ! k)"
  by (simp add: swap_def nth_list_update)

lemma mset_swap_eq [simp]: "i < length h \<Longrightarrow> j < length h \<Longrightarrow> mset (swap h i j) = mset h"
  unfolding swap_def by (metis list_update_swap mset_swap)

lemma lesser_child_bounds:
  "2 * i + 1 < n \<Longrightarrow> i < lesser_child lt h i n \<and> lesser_child lt h i n < n \<and>
     parent (lesser_child lt h i n) = i"
  by (auto simp: lesser_child_def parent_def)

lemma heap_up_mset: "j < length h \<Longrightarrow> mset (heap_up lt h j) = mset h"
proof (induction lt h j rule: heap_up.induct)
  case (1 lt h j)
  have "parent j < length h" using "1.prems" by simp
  with 1 show ?case by (simp add: heap_up.simps [of lt h j])
qed

lemma heap_down_mset: "n \<le> length h \<Longrightarrow> mset (fst (heap_down lt h i n)) = mset h"
proof (induction lt h i n rule: heap_down.induct)
  case (1 lt h i n)
  show ?case
  proof (cases "n \<le> 2 * i + 1")
    case True
    then show ?thesis by (simp add: heap_down.simps [of lt h i n])
  next
    case False
    with "1.prems" have "i < length h" "lesser_child lt h i n < length h"
      using lesser_child_bounds [of i n lt h] by auto
    with False "1.prems" "1.IH" show ?thesis
      by (simp add: heap_down.simps [of lt h i n])
  qed
qed

lemma heap_up_length [simp]: "j < length h \<Longrightarrow> length (heap_up lt h j) = length h"
  by (metis heap_up_mset size_mset)

lemma heap_down_length [simp]: "n \<le> length h \<Longrightarrow> length (fst (heap_down lt h i n)) = length h"
  by (metis heap_down_mset size_mset)

lemma heap_down_idx_ge: "i \<le> snd (heap_down lt h i n)"
proof (induction lt h i n rule: heap_down.induct)
  case (1 lt h i n)
  show ?case
  proof (cases "n \<le> 2 * i + 1 \<or> \<not> lt (h ! lesser_child lt h i n) (h ! i)")
    case True
    then show ?thesis by (auto simp: heap_down.simps [of lt h i n])
  next
    case False
    then have "i < lesser_child lt h i n" using lesser_child_bounds [of i n lt h] by simp
    with False 1 show ?thesis by (simp add: heap_down.simps [of lt h i n])
  qed
qed

text \<open>\<^verbatim>\<open>down\<close> above the bound leaves positions beyond it alone.\<close>

lemma heap_down_frame:
  "n \<le> length h \<Longrightarrow> n \<le> k \<Longrightarrow> k < length h \<Longrightarrow> fst (heap_down lt h i n) ! k = h ! k"
proof (induction lt h i n rule: heap_down.induct)
  case (1 lt h i n)
  show ?case
  proof (cases "n \<le> 2 * i + 1 \<or> \<not> lt (h ! lesser_child lt h i n) (h ! i)")
    case True
    then show ?thesis by (auto simp: heap_down.simps [of lt h i n])
  next
    case False
    then have c: "lesser_child lt h i n < n" "i < n"
      using lesser_child_bounds [of i n lt h] by auto
    with 1 False show ?thesis
      by (simp add: heap_down.simps [of lt h i n] nth_swap)
  qed
qed

lemma heap_down_unmoved: "snd (heap_down lt h i n) = i \<Longrightarrow> fst (heap_down lt h i n) = h"
proof -
  assume eq: "snd (heap_down lt h i n) = i"
  show ?thesis
  proof (cases "n \<le> 2 * i + 1 \<or> \<not> lt (h ! lesser_child lt h i n) (h ! i)")
    case True
    then show ?thesis by (auto simp: heap_down.simps [of lt h i n])
  next
    case False
    then have "i < lesser_child lt h i n" using lesser_child_bounds [of i n lt h] by simp
    also have "\<dots> \<le> snd (heap_down lt h i n)"
      using False heap_down_idx_ge by (simp add: heap_down.simps [of lt h i n])
    finally show ?thesis using eq by simp
  qed
qed

lemma heap_Push_mset [simp]: "mset (heap_Push lt h x) = add_mset x (mset h)"
  by (simp add: heap_Push_def heap_up_mset)

lemma heap_Fix_0: "h \<noteq> [] \<Longrightarrow> heap_Fix lt h 0 = fst (heap_down lt h 0 (length h))"
  using heap_down_unmoved [of lt h 0 "length h"]
  by (auto simp: heap_Fix_def Let_def heap_up.simps [of lt _ 0] split: prod.splits)

lemma heap_Fix_0_mset: "h \<noteq> [] \<Longrightarrow> mset (heap_Fix lt h 0) = mset h"
  by (simp add: heap_Fix_0 heap_down_mset)

lemma heap_Init_from_mset: "mset (heap_Init_from lt h i) = mset h"
  by (induction lt h i rule: heap_Init_from.induct) (simp_all add: heap_down_mset)

lemma heap_Init_mset [simp]: "mset (heap_Init lt h) = mset h"
  by (simp add: heap_Init_def heap_Init_from_mset)

section \<open>Orderings a heap client may supply\<close>

locale strict_weak =
  fixes lt :: "'a \<Rightarrow> 'a \<Rightarrow> bool"
  assumes asym: "lt a b \<Longrightarrow> \<not> lt b a"
    and negtrans: "\<not> lt a b \<Longrightarrow> \<not> lt b c \<Longrightarrow> \<not> lt a c"
begin

lemma irrefl: "\<not> lt a a"
  using asym by blast

lemma less_trans: "lt a b \<Longrightarrow> lt b c \<Longrightarrow> lt a c"
  using asym negtrans by blast

lemma less_le_trans: "lt a b \<Longrightarrow> \<not> lt c b \<Longrightarrow> lt a c"
  using asym negtrans by blast

subsection \<open>Sifting up\<close>

text \<open>The heap shape with a possible violation between \<open>j\<close> and its parent only.\<close>

definition heap_but_up :: "'a list \<Rightarrow> nat \<Rightarrow> bool" where
  "heap_but_up h j \<longleftrightarrow>
     (\<forall>k < length h. 0 < k \<longrightarrow> k \<noteq> j \<longrightarrow> \<not> lt (h ! k) (h ! parent k)) \<and>
     (\<forall>k < length h. 0 < k \<longrightarrow> parent k = j \<longrightarrow> 0 < j \<longrightarrow> \<not> lt (h ! k) (h ! parent j))"

lemma heap_but_up_swap:
  assumes ok: "heap_but_up h j" and j: "j < length h" "0 < j" and l: "lt (h ! j) (h ! parent j)"
  shows "heap_but_up (swap h (parent j) j) (parent j)"
proof -
  let ?i = "parent j" and ?h = "swap h (parent j) j"
  have i: "?i < length h" "?i < j" using j by auto
  note sw = nth_swap [OF i(1) j(1)]
  have par: "k \<noteq> j \<Longrightarrow> k < length h \<Longrightarrow> 0 < k \<Longrightarrow> \<not> lt (h ! k) (h ! parent k)" for k
    using ok by (simp add: heap_but_up_def)
  have gp: "k < length h \<Longrightarrow> 0 < k \<Longrightarrow> parent k = j \<Longrightarrow> \<not> lt (h ! k) (h ! ?i)" for k
    using ok j by (simp add: heap_but_up_def)
  have 1: "\<not> lt (?h ! k) (?h ! parent k)" if k: "k < length h" "0 < k" "k \<noteq> ?i" for k
  proof (cases "k = j")
    case True then show ?thesis using i j asym [OF l] by (simp add: sw less_imp_neq)
  next
    case False
    have "\<not> lt (h ! k) (h ! j)" if "parent k = ?i"
      using par [OF False k(1,2)] that l less_trans by metis
    then show ?thesis using False i k gp [OF k(1,2)] par [OF False k(1,2)]
      by (simp add: sw)
  qed
  have 2: "\<not> lt (?h ! k) (?h ! parent ?i)"
    if k: "k < length h" "0 < k" "parent k = ?i" "0 < ?i" for k
  proof -
    have gpi: "\<not> lt (h ! ?i) (h ! parent ?i)" using par [of ?i] k i by simp
    have pp: "parent ?i < ?i" "parent ?i < length h" using k i by auto
    have "\<not> lt (h ! k) (h ! parent ?i)" if "k \<noteq> j"
      using par [OF that k(1,2)] gpi k(3) negtrans by metis
    moreover have "k \<noteq> ?i" "parent ?i \<noteq> j" using k pp i by auto
    ultimately show ?thesis using gpi i j k pp by (cases "k = j") (simp_all add: sw less_imp_neq)
  qed
  from 1 2 show ?thesis by (simp add: heap_but_up_def)
qed

lemma heap_up_ok: "heap_but_up h j \<Longrightarrow> j < length h \<Longrightarrow> heap_ok lt (heap_up lt h j)"
proof (induction j arbitrary: h rule: less_induct)
  case (less j)
  show ?case
  proof (cases "j = 0 \<or> \<not> lt (h ! j) (h ! parent j)")
    case True
    then have "heap_ok lt h" using less.prems by (auto simp: heap_ok_def heap_but_up_def)
    with True show ?thesis by (auto simp: heap_up.simps [of lt h j])
  next
    case False
    then have "heap_but_up (swap h (parent j) j) (parent j)"
      using less.prems by (intro heap_but_up_swap) auto
    moreover have "parent j < j" "parent j < length h"
      using False less.prems by auto
    ultimately have "heap_ok lt (heap_up lt (swap h (parent j) j) (parent j))"
      using less.IH by simp
    with False show ?thesis by (simp add: heap_up.simps [of lt h j])
  qed
qed

lemma heap_Push_ok: "heap_ok lt h \<Longrightarrow> heap_ok lt (heap_Push lt h x)"
proof -
  assume ok: "heap_ok lt h"
  have "parent k \<noteq> length h" if "k < Suc (length h)" "0 < k" for k
    using that parent_less [of k] by linarith
  then have "heap_but_up (h @ [x]) (length h)"
    using ok by (auto simp: heap_but_up_def heap_ok_def nth_append less_Suc_eq)
  then show ?thesis by (simp add: heap_Push_def heap_up_ok)
qed

subsection \<open>Sifting down\<close>

text \<open>
  The heap shape of the first \<open>n\<close> elements below position \<open>lo\<close>, and the same with a possible
  violation between \<open>i\<close> and its children only.
\<close>

definition heap_from :: "nat \<Rightarrow> 'a list \<Rightarrow> nat \<Rightarrow> bool" where
  "heap_from lo h n \<longleftrightarrow>
     (\<forall>k < n. 0 < k \<longrightarrow> lo \<le> parent k \<longrightarrow> \<not> lt (h ! k) (h ! parent k))"

definition heap_but_down :: "nat \<Rightarrow> 'a list \<Rightarrow> nat \<Rightarrow> nat \<Rightarrow> bool" where
  "heap_but_down lo h i n \<longleftrightarrow>
     (\<forall>k < n. 0 < k \<longrightarrow> lo \<le> parent k \<longrightarrow> parent k \<noteq> i \<longrightarrow> \<not> lt (h ! k) (h ! parent k)) \<and>
     (\<forall>k < n. 0 < k \<longrightarrow> parent k = i \<longrightarrow> 0 < i \<longrightarrow> lo \<le> parent i \<longrightarrow> \<not> lt (h ! k) (h ! parent i))"

lemma lesser_child_least:
  "k < n \<Longrightarrow> 0 < k \<Longrightarrow> parent k = i \<Longrightarrow> \<not> lt (h ! k) (h ! lesser_child lt h i n)"
  using asym irrefl by (auto simp: parent_eq_iff lesser_child_def)

lemma heap_but_down_swap:
  assumes ok: "heap_but_down lo h i n" and n: "2 * i + 1 < n" "n \<le> length h" and lo: "lo \<le> i"
    and l: "lt (h ! lesser_child lt h i n) (h ! i)"
  shows "heap_but_down lo (swap h i (lesser_child lt h i n)) (lesser_child lt h i n) n"
proof -
  let ?c = "lesser_child lt h i n"
  have c: "i < ?c" "?c < n" "parent ?c = i" using lesser_child_bounds [OF n(1)] by auto
  then have il: "i < length h" "?c < length h" using n by auto
  note sw = nth_swap [OF il]
  have pk: "k < n \<Longrightarrow> parent k < length h" for k
    using n by simp
  have 1: "\<not> lt (swap h i ?c ! k) (swap h i ?c ! parent k)"
    if k: "k < n" "0 < k" "lo \<le> parent k" "parent k \<noteq> ?c" for k
  proof -
    have par: "parent k \<noteq> i \<Longrightarrow> \<not> lt (h ! k) (h ! parent k)"
      using ok k by (simp add: heap_but_down_def)
    have gp: "k = i \<Longrightarrow> \<not> lt (h ! ?c) (h ! parent k)"
      using ok c k by (simp add: heap_but_down_def)
    show ?thesis
      using k c n asym [OF l] lesser_child_least [OF k(1,2)] par gp pk [OF k(1)] parent_less [OF k(2)]
      by (auto simp: sw)
  qed
  have 2: "\<not> lt (swap h i ?c ! k) (swap h i ?c ! parent ?c)"
    if k: "k < n" "0 < k" "parent k = ?c" for k
  proof -
    have "\<not> lt (h ! k) (h ! parent k)"
      using ok k c lo unfolding heap_but_down_def by (metis less_imp_le nat_neq_iff order.trans)
    moreover have "k \<noteq> ?c" "k \<noteq> i" using k c parent_less [OF k(2)] by auto
    ultimately show ?thesis using k c n il by (simp add: sw less_imp_neq)
  qed
  from 1 2 show ?thesis by (simp add: heap_but_down_def)
qed

lemma heap_down_ok:
  "heap_but_down lo h i n \<Longrightarrow> n \<le> length h \<Longrightarrow> lo \<le> i \<Longrightarrow> heap_from lo (fst (heap_down lt h i n)) n"
proof (induction "n - i" arbitrary: h i rule: less_induct)
  case less
  let ?c = "lesser_child lt h i n"
  consider "n \<le> 2 * i + 1" | "2 * i + 1 < n" "\<not> lt (h ! ?c) (h ! i)" | "2 * i + 1 < n" "lt (h ! ?c) (h ! i)"
    by fastforce
  then show ?case
  proof cases
    case 1
    then have "parent k \<noteq> i" if "k < n" "0 < k" for k using that by (simp add: parent_eq_iff)
    with 1 less.prems show ?thesis
      by (auto simp: heap_down.simps [of lt h i n] heap_from_def heap_but_down_def)
  next
    case 2
    then have "\<not> lt (h ! k) (h ! i)" if "k < n" "0 < k" "parent k = i" for k
      using lesser_child_least [OF that] negtrans by blast
    with 2 less.prems show ?thesis
      by (auto simp: heap_down.simps [of lt h i n] heap_from_def heap_but_down_def)
  next
    case 3
    then have c: "i < ?c" "?c < n" using lesser_child_bounds by auto
    with 3 less.prems have "heap_but_down lo (swap h i ?c) ?c n" by (intro heap_but_down_swap) auto
    moreover have "n - ?c < n - i" using c by auto
    ultimately have "heap_from lo (fst (heap_down lt (swap h i ?c) ?c n)) n"
      using less.hyps less.prems c by simp
    with 3 show ?thesis by (simp add: heap_down.simps [of lt h i n])
  qed
qed

lemma heap_from_0_iff: "heap_from 0 h (length h) \<longleftrightarrow> heap_ok lt h"
  by (simp add: heap_from_def heap_ok_def)

lemma heap_root_least: "heap_ok lt h \<Longrightarrow> k < length h \<Longrightarrow> \<not> lt (h ! k) (h ! 0)"
proof (induction k rule: less_induct)
  case (less k)
  show ?case
  proof (cases "k = 0")
    case True
    then show ?thesis by (simp add: irrefl)
  next
    case False
    then have p: "parent k < k" "parent k < length h" using less.prems by auto
    have "\<not> lt (h ! k) (h ! parent k)" using less.prems False by (simp add: heap_ok_def)
    moreover have "\<not> lt (h ! parent k) (h ! 0)" using less p by blast
    ultimately show ?thesis using negtrans by blast
  qed
qed

lemma heap_Fix_0_ok:
  assumes "heap_ok lt h" "h \<noteq> []"
  shows "heap_ok lt (heap_Fix lt (h[0 := x]) 0)"
proof -
  have "heap_but_down 0 (h[0 := x]) 0 (length h)"
    using assms by (simp add: heap_but_down_def heap_ok_def nth_list_update)
  then have "heap_from 0 (fst (heap_down lt (h[0 := x]) 0 (length h))) (length h)"
    by (intro heap_down_ok) auto
  then show ?thesis using assms by (simp add: heap_Fix_0 heap_from_0_iff [symmetric])
qed

theorem heap_Pop_correct:
  assumes ok: "heap_ok lt h" and ne: "h \<noteq> []"
  obtains x h' where "heap_Pop lt h = Some (x, h')" and "mset h = add_mset x (mset h')"
    and "heap_ok lt h'" and "\<And>y. y \<in># mset h \<Longrightarrow> \<not> lt y x"
proof -
  define n where "n = length h - 1"
  define d where "d = fst (heap_down lt (swap h 0 n) 0 n)"
  have n: "n < length h" "length h = Suc n" using ne by (auto simp: n_def)
  have ld: "length d = length h" and md: "mset d = mset h" using n by (auto simp: d_def heap_down_mset)
  have "heap_but_down 0 (swap h 0 n) 0 n"
    using ok n by (simp add: heap_but_down_def heap_ok_def nth_swap less_imp_neq)
  then have "heap_from 0 d n" unfolding d_def by (rule heap_down_ok) (use n in auto)
  then have ok': "heap_ok lt (take n d)"
    using n ld by (simp add: heap_ok_def heap_from_def)
  have "d ! n = h ! 0" unfolding d_def using n by (simp add: heap_down_frame nth_swap)
  moreover have "mset h = add_mset (d ! n) (mset (take n d))"
    using md n ld take_Suc_conv_app_nth [of n d]
    by (metis add_mset_add_single lessI mset.simps(1,2) mset_append order_refl take_all)
  moreover have "heap_Pop lt h = Some (d ! n, take n d)"
    using ne by (simp add: heap_Pop_def n_def d_def Let_def)
  moreover have "\<not> lt y (h ! 0)" if "y \<in># mset h" for y
    using heap_root_least [OF ok] that by (metis in_set_conv_nth set_mset_mset)
  ultimately show ?thesis using that ok' by metis
qed

lemma heap_Init_from_ok:
  "heap_from i h (length h) \<Longrightarrow> heap_ok lt (heap_Init_from lt h i)"
proof (induction i arbitrary: h)
  case 0
  then show ?case by (simp add: heap_from_0_iff)
next
  case (Suc i)
  have "heap_but_down i h i (length h)"
    using Suc.prems parent_less [of i]
    unfolding heap_but_down_def heap_from_def by (metis Suc_leI le_neq_implies_less linorder_not_less)
  then have "heap_from i (fst (heap_down lt h i (length h))) (length h)"
    by (rule heap_down_ok) auto
  then show ?case using Suc.IH by simp
qed

lemma heap_Init_ok: "heap_ok lt (heap_Init lt h)"
proof -
  have "heap_from (length h div 2) h (length h)"
    by (auto simp: heap_from_def parent_def)
  then show ?thesis by (simp add: heap_Init_def heap_Init_from_ok)
qed

end

section \<open>The selection retains the best values\<close>

lemma best_of_empty [simp]: "best_of bet k {#} {#}"
  by (simp add: best_of_def)

lemma best_of_all: "best_of bet k M R \<Longrightarrow> size R < k \<Longrightarrow> R = M"
  by (metis best_of_def less_irrefl min_def mset_subset_size subset_mset.less_le)

lemma best_of_unique:
  assumes "best_of bet k M R" and "best_of bet k M S"
    and total: "\<And>a b. a \<in># M \<Longrightarrow> b \<in># M \<Longrightarrow> a \<noteq> b \<Longrightarrow> bet a b \<or> bet b a"
  shows "R = S"
proof (rule ccontr)
  assume "R \<noteq> S"
  have sz: "size R = size S" and sub: "R \<subseteq># M" "S \<subseteq># M"
    using assms(1,2) by (auto simp: best_of_def)
  have "\<not> R \<subseteq># S" "\<not> S \<subseteq># R"
    using \<open>R \<noteq> S\<close> sz by (metis less_irrefl mset_subset_size subset_mset.less_le)+
  then obtain a b where a: "count S a < count R a" and b: "count R b < count S b"
    by (auto simp: subseteq_mset_def not_le)
  have cnt: "count R x \<le> count M x" "count S x \<le> count M x" for x
    using sub by (auto simp: subseteq_mset_def)
  have "a \<in># R" "a \<in># M - S" "b \<in># S" "b \<in># M - R"
    using a b cnt [of a] cnt [of b] by (auto simp: in_diff_count simp flip: count_greater_zero_iff)
  then have "\<not> bet b a" "\<not> bet a b" using assms(1,2) by (auto simp: best_of_def)
  moreover have "a \<noteq> b" using a b by auto
  moreover have "a \<in># M" "b \<in># M"
    using \<open>a \<in># R\<close> \<open>b \<in># S\<close> sub by (meson mset_subset_eqD)+
  ultimately show False using total by blast
qed

lemma mset_insert_by [simp]: "mset (insert_by lt x xs) = add_mset x (mset xs)"
  by (induction xs) auto

lemma mset_sort_Slice [simp]: "mset (sort_Slice lt xs) = mset xs"
  unfolding sort_Slice_def by (induction xs) auto

lemma set_sort_Slice [simp]: "set (sort_Slice lt xs) = set xs"
  using mset_sort_Slice by (metis set_mset_mset)

lemma length_sort_Slice [simp]: "length (sort_Slice lt xs) = length xs"
  using mset_sort_Slice by (metis size_mset)

lemma newTopK_simps [simp]:
  "items (newTopK lim bet) = []" "limit (newTopK lim bet) = nat lim" "better (newTopK lim bet) = bet"
  by (auto simp: newTopK_def max_def)

lemma topK_Less_items [simp]: "topK_Less (h\<lparr>items := xs\<rparr>) = topK_Less h"
  by (simp add: topK_Less_def fun_eq_iff)

lemma offer_frame [simp]: "limit (offer h v) = limit h" "better (offer h v) = better h"
  by (simp_all add: offer_def)

context strict_weak begin

lemma strict_weak_rev: "strict_weak (\<lambda>a b. lt b a)"
  by unfold_locales (auto dest: asym negtrans)

lemma best_of_replace:
  assumes best: "best_of lt k M R" and full: "size R = k" and r: "r \<in># R"
    and worst: "\<And>x. x \<in># R \<Longrightarrow> \<not> lt r x" and v: "lt v r"
  shows "best_of lt k (add_mset v M) (add_mset v (R - {#r#}))"
proof -
  have sub: "R \<subseteq># M" and out: "\<And>a b. a \<in># R \<Longrightarrow> b \<in># M - R \<Longrightarrow> \<not> lt b a"
    using best by (auto simp: best_of_def)
  have diff: "add_mset v M - add_mset v (R - {#r#}) = add_mset r (M - R)"
    using r sub by (simp add: multiset_eq_iff subseteq_mset_def)
      (metis Suc_diff_le add_diff_cancel_left' count_greater_zero_iff le_add_diff_inverse2 diff_Suc_1 not_less_eq_eq)
  have "\<not> lt b a" if a: "a \<in># add_mset v (R - {#r#})" and b: "b \<in># add_mset r (M - R)" for a b
  proof -
    have "\<not> lt b r" using b out [OF r] irrefl by auto
    moreover have "\<not> lt b a" if "a \<in># R" using that b worst out by auto
    ultimately show ?thesis using a v less_trans by (auto dest: in_diffD)
  qed
  moreover have "add_mset v (R - {#r#}) \<subseteq># add_mset v M"
    using sub by (meson diff_subset_eq_self mset_subset_eq_add_mset_cancel subset_mset.order_trans)
  moreover have "size (add_mset v (R - {#r#})) = min k (size (add_mset v M))"
  proof -
    have "size (add_mset v (R - {#r#})) = size R" using r by (simp add: size_Suc_Diff1)
    moreover have "k \<le> size M" using best full by (metis best_of_def min.cobounded2)
    ultimately show ?thesis using full by simp
  qed
  ultimately show ?thesis using diff by (simp add: best_of_def)
qed

lemma best_of_skip:
  assumes best: "best_of lt k M R" and full: "size R = k" and worse: "\<And>x. x \<in># R \<Longrightarrow> \<not> lt v x"
  shows "best_of lt k (add_mset v M) R"
proof -
  have sub: "R \<subseteq># M" using best by (simp add: best_of_def)
  then have "add_mset v M - R = add_mset v (M - R)"
    by (metis add_mset_add_single subset_mset.diff_add_assoc2 union_commute)
  moreover have "R \<subseteq># add_mset v M" using sub by (simp add: subset_mset.add_increasing2
        subset_mset.order_trans mset_subset_eq_multiset_union_diff_commute)
  ultimately show ?thesis using best full worse by (auto simp: best_of_def)
qed

lemma offer_best:
  assumes b: "better h = lt" and ok: "heap_ok (topK_Less h) (items h)"
    and best: "best_of lt (limit h) M (mset (items h))"
  shows "heap_ok (topK_Less (offer h v)) (items (offer h v)) \<and>
         best_of lt (limit h) (add_mset v M) (mset (items (offer h v)))"
proof -
  have L: "topK_Less h = (\<lambda>a b. lt b a)"
    using b by (simp add: topK_Less_def fun_eq_iff)
  have le: "length (items h) \<le> limit h" using best by (auto simp: best_of_def)
  note ok = ok [unfolded L]
  consider "limit h = 0" | "length (items h) < limit h"
    | "0 < limit h" "length (items h) = limit h" "lt v (items h ! 0)"
    | "0 < limit h" "length (items h) = limit h" "\<not> lt v (items h ! 0)"
    using le by linarith
  then show ?thesis
  proof cases
    case 1
    then show ?thesis using ok best by (simp add: offer_def L best_of_def)
  next
    case 2
    then have "mset (items h) = M" using best by (intro best_of_all [OF best]) simp
    with 2 show ?thesis
      using ok strict_weak.heap_Push_ok [OF strict_weak_rev ok, of v]
      by (auto simp: offer_def L best_of_def)
  next
    case 3
    then have ne: "items h \<noteq> []" by auto
    let ?r = "items h ! 0"
    have r: "?r \<in># mset (items h)" using ne by simp
    have w: "\<And>x. x \<in># mset (items h) \<Longrightarrow> \<not> lt ?r x"
      using strict_weak.heap_root_least [OF strict_weak_rev ok] by (metis in_set_conv_nth set_mset_mset)
    have "mset ((items h)[0 := v]) = add_mset v (mset (items h) - {#?r#})"
      using ne by (simp add: mset_update)
    then show ?thesis
      using 3 ne b strict_weak.heap_Fix_0_ok [OF strict_weak_rev ok ne, of v]
        best_of_replace [OF best _ r w, of v]
      by (simp add: offer_def L heap_Fix_0_mset)
  next
    case 4
    then have ne: "items h \<noteq> []" by auto
    have "\<not> lt v x" if "x \<in># mset (items h)" for x
      using strict_weak.heap_root_least [OF strict_weak_rev ok] 4 that negtrans
      by (metis in_set_conv_nth set_mset_mset)
    with 4 show ?thesis using ok b best_of_skip [OF best] by (simp add: offer_def L)
  qed
qed

lemma offer_all_best_from:
  assumes "better h = lt" and "heap_ok (topK_Less h) (items h)"
    and "best_of lt (limit h) M (mset (items h))"
  shows "best_of lt (limit h) (M + mset vs) (mset (items (offer_all h vs)))"
  using assms
proof (induction vs arbitrary: h M)
  case (Cons v vs)
  have "best_of lt (limit (offer h v)) (add_mset v M + mset vs) (mset (items (offer_all (offer h v) vs)))"
    using offer_best [OF Cons.prems] Cons.prems by (intro Cons.IH) auto
  then show ?case by (simp add: offer_all_def)
qed (simp add: offer_all_def)

theorem offer_all_best:
  "best_of lt (nat k) (mset vs) (mset (items (offer_all (newTopK k lt) vs)))"
  using offer_all_best_from [of "newTopK k lt" "{#}" vs] by (simp add: heap_ok_def)

text \<open>Whatever order the values are offered in, the same ones are retained.\<close>

theorem offer_all_order_free:
  assumes "mset vs = mset ws"
    and "\<And>a b. a \<in> set vs \<Longrightarrow> b \<in> set vs \<Longrightarrow> a \<noteq> b \<Longrightarrow> lt a b \<or> lt b a"
  shows "mset (items (offer_all (newTopK k lt) vs)) = mset (items (offer_all (newTopK k lt) ws))"
proof (rule best_of_unique [of lt "nat k" "mset vs"])
  show "best_of lt (nat k) (mset vs) (mset (items (offer_all (newTopK k lt) ws)))"
    using offer_all_best [of k ws] assms(1) by simp
qed (use assms(2) offer_all_best in simp_all)

lemma sorted_insert_by:
  "sorted_wrt (\<lambda>a b. \<not> lt b a) xs \<Longrightarrow> sorted_wrt (\<lambda>a b. \<not> lt b a) (insert_by lt x xs)"
proof (induction xs)
  case (Cons y ys)
  have "set (insert_by lt x ys) = insert x (set ys)"
    by (metis mset_insert_by set_mset_add_mset_insert set_mset_mset)
  with Cons.IH Cons.prems show ?case
    by (cases "lt y x") (auto dest: asym negtrans)
qed simp

lemma sort_Slice_sorted: "sorted_wrt (\<lambda>a b. \<not> lt b a) (sort_Slice lt xs)"
  unfolding sort_Slice_def by (induction xs) (auto intro: sorted_insert_by)

theorem sort_Slice_unique:
  assumes "mset ys = mset xs" and "sorted_wrt (\<lambda>a b. \<not> lt b a) ys"
    and "\<And>a b. a \<in> set xs \<Longrightarrow> b \<in> set xs \<Longrightarrow> a \<noteq> b \<Longrightarrow> lt a b \<or> lt b a"
  shows "ys = sort_Slice lt xs"
proof -
  have "ys = zs" if "mset ys = mset zs" "set ys \<subseteq> set xs"
    "sorted_wrt (\<lambda>a b. \<not> lt b a) ys" "sorted_wrt (\<lambda>a b. \<not> lt b a) zs" for ys zs
    using that
  proof (induction ys arbitrary: zs)
    case (Cons y ys)
    then obtain z zs' where zs: "zs = z # zs'" by (cases zs) auto
    have "y = z"
    proof (rule ccontr)
      assume "y \<noteq> z"
      then have "z \<in> set ys" "y \<in> set zs'"
        using Cons.prems(1) zs by (metis list.set_intros(1) set_ConsD set_mset_mset)+
      then show False using Cons.prems zs \<open>y \<noteq> z\<close> assms(3) [of y z] by auto
    qed
    with Cons zs show ?case by auto
  qed simp
  then show ?thesis using assms sort_Slice_sorted by (metis mset_sort_Slice mset_eq_setD order_refl)
qed

end

end
