(* ===== verification/NetPolicy.thy ===== *)
theory NetPolicy
  imports Prelude
begin

text \<open>
  IP addresses and the address admission policy of \<^verbatim>\<open>internal/netpolicy/netpolicy.go\<close>.
  A \<^verbatim>\<open>net.IP\<close> is a byte slice: empty for \<^verbatim>\<open>nil\<close>, of length 4 or 16 otherwise. The predicates
  of package \<^verbatim>\<open>net\<close> and its text conversions (\<^verbatim>\<open>IP.String\<close>, \<^verbatim>\<open>ParseIP\<close>) are modelled as the
  standard library defines them. go-ethereum's \<^verbatim>\<open>netutil.IsSpecialNetwork\<close> is a parameter.
\<close>

section \<open>Package net\<close>

type_synonym net_IP = "byte list"

definition v4InV6Prefix :: "byte list" where
  "v4InV6Prefix = [0, 0, 0, 0, 0, 0, 0, 0, 0, 0, 255, 255]"

definition ip_To4 :: "net_IP \<Rightarrow> net_IP option" where
  "ip_To4 ip =
     (if length ip = 4 then Some ip
      else if length ip = 16 \<and> take 12 ip = v4InV6Prefix then Some (drop 12 ip)
      else None)"

definition ip_Equal :: "net_IP \<Rightarrow> net_IP \<Rightarrow> bool" where
  "ip_Equal ip x =
     (if length ip = length x then ip = x
      else if length ip = 4 \<and> length x = 16 then take 12 x = v4InV6Prefix \<and> ip = drop 12 x
      else if length ip = 16 \<and> length x = 4 then take 12 ip = v4InV6Prefix \<and> drop 12 ip = x
      else False)"

definition IPv4zero :: net_IP where
  "IPv4zero = v4InV6Prefix @ [0, 0, 0, 0]"

definition IPv6unspecified :: net_IP where
  "IPv6unspecified = replicate 16 0"

definition IPv6loopback :: net_IP where
  "IPv6loopback = replicate 15 0 @ [1]"

definition ip_IsUnspecified :: "net_IP \<Rightarrow> bool" where
  "ip_IsUnspecified ip \<longleftrightarrow> ip_Equal ip IPv4zero \<or> ip_Equal ip IPv6unspecified"

definition ip_IsLoopback :: "net_IP \<Rightarrow> bool" where
  "ip_IsLoopback ip =
     (case ip_To4 ip of Some v4 \<Rightarrow> v4 ! 0 = 127 | None \<Rightarrow> ip_Equal ip IPv6loopback)"

definition ip_IsMulticast :: "net_IP \<Rightarrow> bool" where
  "ip_IsMulticast ip =
     (case ip_To4 ip of Some v4 \<Rightarrow> v4 ! 0 AND 240 = 224 | None \<Rightarrow> length ip = 16 \<and> ip ! 0 = 255)"

definition ip_IsLinkLocalUnicast :: "net_IP \<Rightarrow> bool" where
  "ip_IsLinkLocalUnicast ip =
     (case ip_To4 ip of
        Some v4 \<Rightarrow> v4 ! 0 = 169 \<and> v4 ! 1 = 254
      | None \<Rightarrow> length ip = 16 \<and> ip ! 0 = 254 \<and> ip ! 1 AND 192 = 128)"

definition ip_IsLinkLocalMulticast :: "net_IP \<Rightarrow> bool" where
  "ip_IsLinkLocalMulticast ip =
     (case ip_To4 ip of
        Some v4 \<Rightarrow> v4 ! 0 = 224 \<and> v4 ! 1 = 0 \<and> v4 ! 2 = 0
      | None \<Rightarrow> length ip = 16 \<and> ip ! 0 = 255 \<and> ip ! 1 AND 15 = 2)"

definition ip_IsPrivate :: "net_IP \<Rightarrow> bool" where
  "ip_IsPrivate ip =
     (case ip_To4 ip of
        Some v4 \<Rightarrow> v4 ! 0 = 10 \<or> v4 ! 0 = 172 \<and> v4 ! 1 AND 240 = 16 \<or> v4 ! 0 = 192 \<and> v4 ! 1 = 168
      | None \<Rightarrow> length ip = 16 \<and> ip ! 0 AND 254 = 252)"

text \<open>\<^verbatim>\<open>IPNet.Contains\<close> for an IPv4 network given by its number and mask.\<close>

definition net4_Contains :: "byte list \<Rightarrow> byte list \<Rightarrow> net_IP \<Rightarrow> bool" where
  "net4_Contains nn msk ip =
     (let x = (case ip_To4 ip of Some v4 \<Rightarrow> v4 | None \<Rightarrow> ip)
      in length x = length nn \<and>
         map (\<lambda>(a, m). a AND m) (zip nn msk) = map (\<lambda>(a, m). a AND m) (zip x msk))"

section \<open>The admission policy\<close>

definition cgnat :: "net_IP \<Rightarrow> bool" where
  "cgnat = net4_Contains [100, 64, 0, 0] [255, 192, 0, 0]"

definition classE :: "net_IP \<Rightarrow> bool" where
  "classE = net4_Contains [240, 0, 0, 0] [240, 0, 0, 0]"

definition Usable :: "(net_IP \<Rightarrow> bool) \<Rightarrow> net_IP \<Rightarrow> bool \<Rightarrow> bool" where
  "Usable isSpecialNetwork ip allowPrivate =
     (if ip = [] \<or> ip_IsUnspecified ip \<or> ip_IsLoopback ip \<or> ip_IsMulticast ip \<or>
         ip_IsLinkLocalUnicast ip \<or> ip_IsLinkLocalMulticast ip then False
      else if ip_IsPrivate ip then allowPrivate
      else if cgnat ip \<or> classE ip then False
      else \<not> isSpecialNetwork ip)"

section \<open>Addresses as text\<close>

definition dec_digit :: "nat \<Rightarrow> char" where
  "dec_digit d = ''0123456789'' ! d"

fun nat_dec :: "nat \<Rightarrow> string" where
  "nat_dec n = (if n < 10 then [dec_digit n] else nat_dec (n div 10) @ [dec_digit (n mod 10)])"

fun nat_hex :: "nat \<Rightarrow> string" where
  "nat_hex n = (if n < 16 then [hex_digit n] else nat_hex (n div 16) @ [hex_digit (n mod 16)])"

declare nat_dec.simps [simp del] nat_hex.simps [simp del]

fun intercalate :: "string \<Rightarrow> string list \<Rightarrow> string" where
  "intercalate sep [] = []"
| "intercalate sep [x] = x"
| "intercalate sep (x # y # ys) = x @ sep @ intercalate sep (y # ys)"

fun split_on :: "char \<Rightarrow> string \<Rightarrow> string list" where
  "split_on c [] = [[]]"
| "split_on c (x # xs) =
     (if x = c then [] # split_on c xs
      else (case split_on c xs of [] \<Rightarrow> [[x]] | y # ys \<Rightarrow> (x # y) # ys))"

definition ip4_String :: "net_IP \<Rightarrow> string" where
  "ip4_String v4 = intercalate ''.'' (map (\<lambda>b. nat_dec (unat b)) v4)"

fun v6groups :: "net_IP \<Rightarrow> nat list" where
  "v6groups (a # b # r) = (256 * unat a + unat b) # v6groups r"
| "v6groups _ = []"

text \<open>The leftmost longest run of at least two zero groups, as its start and end.\<close>

definition zero_run :: "nat list \<Rightarrow> nat \<Rightarrow> nat" where
  "zero_run gs i = length (takeWhile (\<lambda>g. g = 0) (drop i gs))"

definition longest_zeros :: "nat list \<Rightarrow> (nat \<times> nat) option" where
  "longest_zeros gs =
     foldl (\<lambda>acc i. let l = zero_run gs i;
                        best = (case acc of None \<Rightarrow> 0 | Some (s, e) \<Rightarrow> e - s)
                    in if 2 \<le> l \<and> best < l then Some (i, i + l) else acc)
       None [0..<length gs]"

definition ip6_String :: "net_IP \<Rightarrow> string" where
  "ip6_String ip =
     (let gs = v6groups ip
      in case longest_zeros gs of
           None \<Rightarrow> intercalate '':'' (map nat_hex gs)
         | Some (s, e) \<Rightarrow> intercalate '':'' (map nat_hex (take s gs)) @ ''::'' @
                          intercalate '':'' (map nat_hex (drop e gs)))"

definition ip_String :: "net_IP \<Rightarrow> string" where
  "ip_String ip =
     (if ip = [] then ''<nil>''
      else case ip_To4 ip of
             Some v4 \<Rightarrow> ip4_String v4
           | None \<Rightarrow> if length ip = 16 then ip6_String ip else ''?'' @ hex_EncodeToString ip)"

definition from_dec_digit :: "char \<Rightarrow> nat option" where
  "from_dec_digit c = (let n = of_char c :: nat in if 48 \<le> n \<and> n \<le> 57 then Some (n - 48) else None)"

fun dec_value :: "nat \<Rightarrow> string \<Rightarrow> nat option" where
  "dec_value acc [] = Some acc"
| "dec_value acc (c # s) =
     (case from_dec_digit c of None \<Rightarrow> None | Some d \<Rightarrow> dec_value (10 * acc + d) s)"

text \<open>One field of dotted decimal: digits only, no leading zero, at most 255.\<close>

definition parse_octet :: "string \<Rightarrow> byte option" where
  "parse_octet s =
     (if s = [] \<or> (1 < length s \<and> hd s = CHR ''0'') then None
      else case dec_value 0 s of
             None \<Rightarrow> None
           | Some v \<Rightarrow> if v \<le> 255 then Some (of_nat v) else None)"

fun parse_octets :: "string list \<Rightarrow> byte list option" where
  "parse_octets [] = Some []"
| "parse_octets (f # fs) =
     (case (parse_octet f, parse_octets fs) of (Some b, Some bs) \<Rightarrow> Some (b # bs) | _ \<Rightarrow> None)"

definition parseIPv4 :: "string \<Rightarrow> byte list option" where
  "parseIPv4 s = (let fs = split_on CHR ''.'' s in if length fs = 4 then parse_octets fs else None)"

text \<open>The leading hexadecimal digits of a group and their value.\<close>

fun hex_prefix :: "nat \<Rightarrow> nat \<Rightarrow> string \<Rightarrow> nat \<times> nat \<times> string" where
  "hex_prefix off acc [] = (off, acc, [])"
| "hex_prefix off acc (c # s) =
     (case from_hex_digit c of
        None \<Rightarrow> (off, acc, c # s)
      | Some d \<Rightarrow> hex_prefix (Suc off) (16 * acc + d) s)"

lemma hex_prefix_length: "hex_prefix off acc s = (off', acc', r) \<Longrightarrow> length r + off' = length s + off"
  by (induction off acc s rule: hex_prefix.induct) (auto split: option.splits)

text \<open>
  The group loop of \<^verbatim>\<open>netip.parseIPv6\<close>: \<open>ip\<close> holds the bytes read so far, \<open>ell\<close> the position of
  the ellipsis, and the result is the bytes, the ellipsis and the unread text.
\<close>

function parse6_loop :: "byte list \<Rightarrow> nat option \<Rightarrow> string \<Rightarrow> (byte list \<times> nat option \<times> string) option" where
  "parse6_loop ip ell s =
     (if 16 \<le> length ip then Some (ip, ell, s)
      else case hex_prefix 0 0 s of (off, acc, r) \<Rightarrow>
        if off = 0 \<or> 4 < off then None
        else if r \<noteq> [] \<and> hd r = CHR ''.'' then
          (if (ell = None \<and> length ip \<noteq> 12) \<or> 16 < length ip + 4 then None
           else case parseIPv4 s of None \<Rightarrow> None | Some v4 \<Rightarrow> Some (ip @ v4, ell, []))
        else
          let ip' = ip @ [of_nat (acc div 256), of_nat (acc mod 256)]
          in if r = [] then Some (ip', ell, [])
             else if hd r \<noteq> CHR '':'' \<or> tl r = [] then None
             else if hd (tl r) = CHR '':'' then
               (if ell \<noteq> None then None
                else if tl (tl r) = [] then Some (ip', Some (length ip'), [])
                else parse6_loop ip' (Some (length ip')) (tl (tl r)))
             else parse6_loop ip' ell (tl r))"
  by pat_completeness auto
termination
  by (relation "measure (\<lambda>(ip, ell, s). length s)")
    (auto dest!: hex_prefix_length [OF sym] simp: neq_Nil_conv)

declare parse6_loop.simps [simp del]

definition parseIPv6 :: "string \<Rightarrow> byte list option" where
  "parseIPv6 s =
     (if CHR ''%'' \<in> set s then None
      else
        let lead = (take 2 s = ''::'');
            body = (if lead then drop 2 s else s);
            ell = (if lead then Some 0 else None)
        in if lead \<and> body = [] then Some (replicate 16 0)
           else case parse6_loop [] ell body of
                  None \<Rightarrow> None
                | Some (ip, e, rest) \<Rightarrow>
                    if rest \<noteq> [] then None
                    else if length ip < 16 then
                      (case e of
                         None \<Rightarrow> None
                       | Some p \<Rightarrow> Some (take p ip @ replicate (16 - length ip) 0 @ drop p ip))
                    else if e \<noteq> None then None
                    else Some ip)"

text \<open>
  \<^verbatim>\<open>net.ParseIP\<close>: the first of \<^verbatim>\<open>'.'\<close>, \<^verbatim>\<open>':'\<close>, \<^verbatim>\<open>'%'\<close> in the text selects the form; a zone is
  refused; the result is always in 16-byte form.
\<close>

definition net_ParseIP :: "string \<Rightarrow> net_IP option" where
  "net_ParseIP s =
     (case filter (\<lambda>c. c \<in> set ''.:%'') s of
        [] \<Rightarrow> None
      | c # _ \<Rightarrow>
          if c = CHR ''.'' then map_option (\<lambda>v4. v4InV6Prefix @ v4) (parseIPv4 s)
          else if c = CHR '':'' then parseIPv6 s
          else None)"

section \<open>The two forms of an IPv4 address\<close>

lemmas ip_pred_defs =
  ip_IsUnspecified_def ip_IsLoopback_def ip_IsMulticast_def ip_IsLinkLocalUnicast_def
  ip_IsLinkLocalMulticast_def ip_IsPrivate_def

lemma length_v4InV6Prefix [simp]: "length v4InV6Prefix = 12"
  by (simp add: v4InV6Prefix_def)

lemma ip_To4_v4 [simp]: "length v4 = 4 \<Longrightarrow> ip_To4 v4 = Some v4"
  by (simp add: ip_To4_def)

lemma ip_To4_mapped [simp]: "length v4 = 4 \<Longrightarrow> ip_To4 (v4InV6Prefix @ v4) = Some v4"
  by (simp add: ip_To4_def)

lemma ip_Equal_mapped: "length v4 = 4 \<Longrightarrow> length x = 16 \<Longrightarrow> ip_Equal (v4InV6Prefix @ v4) x = ip_Equal v4 x"
  by (simp add: ip_Equal_def) (metis append_eq_conv_conj append_take_drop_id length_v4InV6Prefix)

lemma IPv4zero_length [simp]: "length IPv4zero = 16"
  by (simp add: IPv4zero_def)

lemma IPv6unspecified_length [simp]: "length IPv6unspecified = 16"
  by (simp add: IPv6unspecified_def)

lemma net4_Contains_mapped:
  "length v4 = 4 \<Longrightarrow> net4_Contains nn m (v4InV6Prefix @ v4) = net4_Contains nn m v4"
  by (simp add: net4_Contains_def)

lemma ip_pred_mapped:
  assumes "length v4 = 4"
  shows "ip_IsUnspecified (v4InV6Prefix @ v4) = ip_IsUnspecified v4"
    and "ip_IsLoopback (v4InV6Prefix @ v4) = ip_IsLoopback v4"
    and "ip_IsMulticast (v4InV6Prefix @ v4) = ip_IsMulticast v4"
    and "ip_IsLinkLocalUnicast (v4InV6Prefix @ v4) = ip_IsLinkLocalUnicast v4"
    and "ip_IsLinkLocalMulticast (v4InV6Prefix @ v4) = ip_IsLinkLocalMulticast v4"
    and "ip_IsPrivate (v4InV6Prefix @ v4) = ip_IsPrivate v4"
    and "cgnat (v4InV6Prefix @ v4) = cgnat v4"
    and "classE (v4InV6Prefix @ v4) = classE v4"
  using assms
  by (simp_all add: ip_pred_defs ip_Equal_mapped cgnat_def classE_def net4_Contains_mapped)

lemma Usable_mapped:
  assumes "length v4 = 4" and "isSpecial (v4InV6Prefix @ v4) = isSpecial v4"
  shows "Usable isSpecial (v4InV6Prefix @ v4) allow = Usable isSpecial v4 allow"
proof -
  have "v4 \<noteq> []" using assms by auto
  then show ?thesis unfolding Usable_def ip_pred_mapped [OF assms(1)] assms(2) by simp
qed

text \<open>What the policy admits: never a special-use address; a private one only when asked to.\<close>

lemma Usable_iff:
  "Usable isSpecial ip allow \<longleftrightarrow>
     ip \<noteq> [] \<and> \<not> ip_IsUnspecified ip \<and> \<not> ip_IsLoopback ip \<and> \<not> ip_IsMulticast ip \<and>
     \<not> ip_IsLinkLocalUnicast ip \<and> \<not> ip_IsLinkLocalMulticast ip \<and>
     (if ip_IsPrivate ip then allow else \<not> cgnat ip \<and> \<not> classE ip \<and> \<not> isSpecial ip)"
  by (simp add: Usable_def)

lemma Usable_mono: "Usable isSpecial ip False \<Longrightarrow> Usable isSpecial ip allow"
  by (auto simp: Usable_iff split: if_splits)

section \<open>Text round trip\<close>

lemma split_on_append:
  "c \<notin> set xs \<Longrightarrow> split_on c (xs @ c # ys) = xs # split_on c ys"
  by (induction xs) auto

lemma split_on_free: "c \<notin> set xs \<Longrightarrow> split_on c xs = [xs]"
  by (induction xs) auto

lemma split_on_intercalate:
  "fs \<noteq> [] \<Longrightarrow> \<forall>f \<in> set fs. c \<notin> set f \<Longrightarrow> split_on c (intercalate [c] fs) = fs"
  by (induction "[c]" fs rule: intercalate.induct) (auto simp: split_on_append split_on_free)

lemma nat_dec_digits: "set (nat_dec n) \<subseteq> set ''0123456789''"
proof (induction n rule: nat_dec.induct)
  case (1 n)
  have "dec_digit d \<in> set ''0123456789''" if "d < 10" for d
    unfolding dec_digit_def using that by (intro nth_mem) simp
  with 1 show ?case by (subst nat_dec.simps) auto
qed

lemma from_dec_digit_dec_digit: "d < 10 \<Longrightarrow> from_dec_digit (dec_digit d) = Some d"
  by (auto simp: less_Suc_eq numeral_eq_Suc dec_digit_def from_dec_digit_def)

lemma dec_digit_eq_0: "d < 10 \<Longrightarrow> dec_digit d = CHR ''0'' \<longleftrightarrow> d = 0"
  by (auto simp: less_Suc_eq numeral_eq_Suc dec_digit_def)

lemma nat_dec_ne [simp]: "nat_dec n \<noteq> []"
  by (subst nat_dec.simps) simp

lemma dec_value_append:
  "dec_value acc (s @ t) = (case dec_value acc s of None \<Rightarrow> None | Some v \<Rightarrow> dec_value v t)"
  by (induction acc s rule: dec_value.induct) (auto split: option.splits)

lemma dec_value_nat_dec: "dec_value 0 (nat_dec n) = Some n"
  by (induction n rule: nat_dec.induct)
    (subst nat_dec.simps, auto simp: dec_value_append from_dec_digit_dec_digit)

lemma hd_nat_dec: "1 < length (nat_dec n) \<Longrightarrow> hd (nat_dec n) \<noteq> CHR ''0''"
proof (induction n rule: nat_dec.induct)
  case (1 n)
  show ?case
  proof (cases "n < 10")
    case True
    with "1.prems" show ?thesis by (simp add: nat_dec.simps [of n])
  next
    case False
    have "hd (nat_dec (n div 10)) \<noteq> CHR ''0''"
    proof (cases "1 < length (nat_dec (n div 10))")
      case True
      with "1.IH" False show ?thesis by simp
    next
      case short: False
      then have "n div 10 < 10" by (rule contrapos_np) (simp add: nat_dec.simps [of "n div 10"])
      with False show ?thesis by (simp add: nat_dec.simps [of "n div 10"] dec_digit_eq_0)
    qed
    with False show ?thesis by (simp add: nat_dec.simps [of n])
  qed
qed

lemma parse_octet_nat_dec: "parse_octet (nat_dec (unat b)) = Some b"
proof -
  have "unat b \<le> 255" using unsigned_less [of b, where ?'a = nat] by simp
  then show ?thesis using hd_nat_dec [of "unat b"] by (simp add: parse_octet_def dec_value_nat_dec)
qed

lemma parse_octets_nat_dec: "parse_octets (map (\<lambda>b. nat_dec (unat b)) bs) = Some bs"
  by (induction bs) (simp_all add: parse_octet_nat_dec)

lemma nat_dec_no_sep: "CHR ''.'' \<notin> set (nat_dec n)" "filter (\<lambda>c. c \<in> set ''.:%'') (nat_dec n) = []"
  using nat_dec_digits [of n] by (auto simp: filter_empty_conv)

lemma parseIPv4_String: "length v4 = 4 \<Longrightarrow> parseIPv4 (ip4_String v4) = Some v4"
  unfolding parseIPv4_def ip4_String_def
  by (subst split_on_intercalate) (auto simp: nat_dec_no_sep parse_octets_nat_dec)

theorem ParseIP_String_v4:
  assumes "length v4 = 4"
  shows "net_ParseIP (ip_String v4) = Some (v4InV6Prefix @ v4)"
proof -
  obtain a b c d where v4: "v4 = [a, b, c, d]"
    using assms by (auto simp: numeral_eq_Suc length_Suc_conv)
  have "filter (\<lambda>c. c \<in> set ''.:%'') (ip4_String v4) = ''...''"
    using nat_dec_no_sep(2) by (simp add: ip4_String_def v4)
  moreover have "ip_String v4 = ip4_String v4" using assms v4 by (simp add: ip_String_def)
  ultimately show ?thesis by (simp add: net_ParseIP_def parseIPv4_String [OF assms])
qed

end
