(* ===== verification/ClientName.thy ===== *)
theory ClientName
  imports Prelude
begin

text \<open>
  Client name normalization, \<^verbatim>\<open>internal/clientname/clientname.go\<close>. Strings are ASCII here:
  \<^verbatim>\<open>strings.TrimSpace\<close> and \<^verbatim>\<open>strings.ToLower\<close> act on the ASCII spaces and letters. The regular
  expression \<^verbatim>\<open>opGethVersion\<close> is written out as a matcher.
\<close>

section \<open>Package strings on ASCII text\<close>

definition is_space :: "char \<Rightarrow> bool" where
  "is_space c \<longleftrightarrow> (of_char c :: nat) \<in> {9, 10, 11, 12, 13, 32}"

definition strings_TrimSpace :: "string \<Rightarrow> string" where
  "strings_TrimSpace s = rev (dropWhile is_space (rev (dropWhile is_space s)))"

definition lower_char :: "char \<Rightarrow> char" where
  "lower_char c = (let n = of_char c :: nat in if 65 \<le> n \<and> n \<le> 90 then char_of (n + 32) else c)"

definition upper_char :: "char \<Rightarrow> char" where
  "upper_char c = (let n = of_char c :: nat in if 97 \<le> n \<and> n \<le> 122 then char_of (n - 32) else c)"

definition strings_ToLower :: "string \<Rightarrow> string" where
  "strings_ToLower s = map lower_char s"

definition strings_EqualFold :: "string \<Rightarrow> string \<Rightarrow> bool" where
  "strings_EqualFold s t \<longleftrightarrow> strings_ToLower s = strings_ToLower t"

fun is_prefix :: "string \<Rightarrow> string \<Rightarrow> bool" where
  "is_prefix [] s = True"
| "is_prefix (c # p) [] = False"
| "is_prefix (c # p) (d # s) = (c = d \<and> is_prefix p s)"

definition strings_TrimPrefix :: "string \<Rightarrow> string \<Rightarrow> string" where
  "strings_TrimPrefix s p = (if is_prefix p s then drop (length p) s else s)"

definition is_digit :: "char \<Rightarrow> bool" where
  "is_digit c \<longleftrightarrow> 48 \<le> (of_char c :: nat) \<and> (of_char c :: nat) \<le> 57"

section \<open>Canonical names\<close>

text \<open>\<^verbatim>\<open>(?i)^v?1\.10[0-9]{4}\.[0-9]+(?:$|[-+])\<close>\<close>

definition opGethVersion :: "string \<Rightarrow> bool" where
  "opGethVersion v =
     (let s = (if v \<noteq> [] \<and> lower_char (hd v) = CHR ''v'' then tl v else v);
          r = drop 4 s;
          t = drop 5 r;
          rest = dropWhile is_digit t
      in is_prefix ''1.10'' s \<and> 4 < length r \<and> (\<forall>c \<in> set (take 4 r). is_digit c) \<and>
         r ! 4 = CHR ''.'' \<and> t \<noteq> [] \<and> is_digit (hd t) \<and>
         (rest = [] \<or> hd rest \<in> {CHR ''-'', CHR ''+''}))"

definition ExecutionVersion :: "string \<Rightarrow> string \<Rightarrow> string" where
  "ExecutionVersion name0 version =
     (let name = strings_TrimSpace name0; l = strings_ToLower name
      in if l \<in> {''geth'', ''go-ethereum''} then
           (if opGethVersion (strings_TrimSpace version) then ''OP-Geth'' else ''Geth'')
         else if l \<in> {''op-geth'', ''opgeth''} then ''OP-Geth''
         else if l = ''nethermind'' then ''Nethermind''
         else if l = ''besu'' then ''Besu''
         else if l = ''erigon'' then ''Erigon''
         else if l = ''reth'' then ''Reth''
         else if l = ''ethrex'' then ''Ethrex''
         else if l = ''ethereumjs'' then ''EthereumJS''
         else if l \<in> {''nimbus'', ''nimbus-eth1'', ''nimbusexecutionclient''} then ''Nimbus''
         else name)"

definition Consensus :: "string \<Rightarrow> string" where
  "Consensus name0 =
     (let name = strings_TrimSpace name0; l = strings_ToLower name
      in if l = ''lighthouse'' then ''Lighthouse''
         else if l = ''prysm'' then ''Prysm''
         else if l = ''nimbus'' then ''Nimbus''
         else if l = ''lodestar'' then ''Lodestar''
         else if l = ''grandine'' then ''Grandine''
         else if l \<in> {''caplin'', ''erigon''} then ''Caplin''
         else if l = ''teku'' then ''Teku''
         else if l = ''nethermind'' then ''Nethermind''
         else if l = ''ethlambda'' then ''Ethlambda''
         else name)"

definition CanonicalVersion :: "string \<Rightarrow> string \<Rightarrow> string \<Rightarrow> string" where
  "CanonicalVersion layer name version =
     (if layer = ''el'' then ExecutionVersion name version
      else if layer = ''cl'' then Consensus name
      else strings_TrimSpace name)"

definition Canonical :: "string \<Rightarrow> string \<Rightarrow> string" where
  "Canonical layer name = CanonicalVersion layer name []"

definition ConsensusAgentHasNestedVersion :: "string \<Rightarrow> string \<Rightarrow> bool" where
  "ConsensusAgentHasNestedVersion client0 second0 =
     (let client = strings_ToLower (strings_TrimSpace client0);
          snd = strings_ToLower (strings_TrimSpace second0)
      in (client \<in> {''erigon'', ''caplin''} \<and> snd = ''caplin'') \<or>
         (client = ''teku'' \<and> snd = ''teku''))"

definition recognizedEL :: "string list" where
  "recognizedEL =
     [''Geth'', ''Nethermind'', ''Besu'', ''Erigon'', ''Reth'', ''Ethrex'', ''EthereumJS'', ''Nimbus'']"

definition recognizedCL :: "string list" where
  "recognizedCL =
     [''Lighthouse'', ''Prysm'', ''Teku'', ''Nimbus'', ''Lodestar'', ''Grandine'', ''Caplin'',
      ''Nethermind'', ''Ethlambda'']"

definition Recognized :: "string \<Rightarrow> string \<Rightarrow> bool" where
  "Recognized layer name =
     (strings_TrimSpace name \<in> set (if layer = ''el'' then recognizedEL
                                  else if layer = ''cl'' then recognizedCL else []))"

definition ChartMaxFingerprintAge :: duration where
  "ChartMaxFingerprintAge = 7 * 24 * hour"

definition Charted :: "string \<Rightarrow> int \<Rightarrow> gotime \<Rightarrow> bool" where
  "Charted fpStatus fpAt at =
     ((fpStatus = ''ok'' \<or> fpStatus = ''stale'') \<and>
      time_Unix (time_Add at (- ChartMaxFingerprintAge)) \<le> fpAt)"

section \<open>Facts\<close>

lemma dropWhile_rev_idem:
  "dropWhile P (rev (dropWhile P (rev (dropWhile P s)))) = rev (dropWhile P (rev (dropWhile P s)))"
proof (cases "dropWhile P s")
  case (Cons x xs)
  then have "\<not> P x" by (metis hd_dropWhile list.distinct(1) list.sel(1))
  then have "dropWhile P (rev xs @ [x]) \<noteq> []" by auto
  moreover have "last (dropWhile P (rev xs @ [x])) = x"
    using \<open>\<not> P x\<close> by (simp add: dropWhile_append)
  ultimately have "hd (rev (dropWhile P (rev xs @ [x]))) = x" by (simp add: hd_rev)
  then show ?thesis using Cons \<open>\<not> P x\<close>
    by (cases "rev (dropWhile P (rev xs @ [x]))") auto
next
  case Nil
  then show ?thesis by (simp only: rev.simps dropWhile.simps)
qed

lemma TrimSpace_idem [simp]: "strings_TrimSpace (strings_TrimSpace s) = strings_TrimSpace s"
  unfolding strings_TrimSpace_def by (simp add: dropWhile_rev_idem)

lemma EqualFold_refl [simp]: "strings_EqualFold s s"
  by (simp add: strings_EqualFold_def)

lemma EqualFold_sym: "strings_EqualFold s t \<Longrightarrow> strings_EqualFold t s"
  by (simp add: strings_EqualFold_def)

lemma EqualFold_trans: "strings_EqualFold s t \<Longrightarrow> strings_EqualFold t u \<Longrightarrow> strings_EqualFold s u"
  by (simp add: strings_EqualFold_def)

lemma Consensus_TrimSpace: "Consensus (strings_TrimSpace n) = Consensus n"
  by (simp add: Consensus_def)

lemma ExecutionVersion_TrimSpace: "ExecutionVersion (strings_TrimSpace n) v = ExecutionVersion n v"
  by (simp add: ExecutionVersion_def)

lemma Consensus_range: "Consensus n \<in> insert (strings_TrimSpace n) (set recognizedCL)"
  by (simp add: Consensus_def recognizedCL_def Let_def)

lemma ExecutionVersion_range:
  "ExecutionVersion n v \<in> insert (strings_TrimSpace n) (insert ''OP-Geth'' (set recognizedEL))"
  by (simp add: ExecutionVersion_def recognizedEL_def Let_def)

lemma recognizedCL_fixed: "\<forall>n \<in> set recognizedCL. Consensus n = n"
  by code_simp

lemma recognizedEL_fixed: "\<forall>n \<in> set (''OP-Geth'' # recognizedEL). ExecutionVersion n [] = n"
  by code_simp

lemma ExecutionVersion_Nil:
  "strings_ToLower (strings_TrimSpace n) \<notin> {''geth'', ''go-ethereum''} \<Longrightarrow>
     ExecutionVersion n v = ExecutionVersion n []"
  by (simp add: ExecutionVersion_def Let_def)

lemma not_geth:
  "\<forall>n \<in> set (''OP-Geth'' # tl recognizedEL). strings_ToLower (strings_TrimSpace n) \<notin> {''geth'', ''go-ethereum''}"
  by code_simp

lemma Consensus_idem: "Consensus (Consensus n) = Consensus n"
  using Consensus_range [of n] recognizedCL_fixed Consensus_TrimSpace [of n] by auto

lemma ExecutionVersion_named:
  "n \<in> set (''OP-Geth'' # tl recognizedEL) \<Longrightarrow> ExecutionVersion n v = n"
  using ExecutionVersion_Nil [of n v] not_geth recognizedEL_fixed
  by (metis list.set_intros(2) list.set_sel(2) recognizedEL_def set_ConsD list.distinct(1) list.set_intros(1))

lemma ExecutionVersion_idem: "ExecutionVersion (ExecutionVersion n v) v = ExecutionVersion n v"
proof -
  have "set recognizedEL = insert ''Geth'' (set (tl recognizedEL))" by (simp add: recognizedEL_def)
  then consider "ExecutionVersion n v = strings_TrimSpace n"
    | "ExecutionVersion n v \<in> set (''OP-Geth'' # tl recognizedEL)" | "ExecutionVersion n v = ''Geth''"
    using ExecutionVersion_range [of n v] by auto
  then show ?thesis
  proof cases
    case 1
    then show ?thesis by (metis ExecutionVersion_TrimSpace)
  next
    case 2
    then show ?thesis by (rule ExecutionVersion_named)
  next
    case 3
    then have "\<not> opGethVersion (strings_TrimSpace v) \<or> strings_TrimSpace n = ''Geth''"
      by (simp add: ExecutionVersion_def Let_def split: if_splits)
    then show ?thesis
    proof
      assume "\<not> opGethVersion (strings_TrimSpace v)"
      then have "ExecutionVersion ''Geth'' v = ExecutionVersion ''Geth'' []"
        by (simp add: ExecutionVersion_def Let_def) code_simp
      moreover have "ExecutionVersion ''Geth'' [] = ''Geth''"
        using recognizedEL_fixed by (simp add: recognizedEL_def)
      ultimately show ?thesis using 3 by simp
    next
      assume "strings_TrimSpace n = ''Geth''"
      then show ?thesis using 3 by (metis ExecutionVersion_TrimSpace)
    qed
  qed
qed

text \<open>Normalizing is idempotent, and every recognized name is its own canonical form.\<close>

theorem CanonicalVersion_idem:
  "CanonicalVersion layer (CanonicalVersion layer n v) v = CanonicalVersion layer n v"
  by (simp add: CanonicalVersion_def Consensus_idem ExecutionVersion_idem)

lemma Recognized_Canonical: "Recognized layer n \<Longrightarrow> Canonical layer n = strings_TrimSpace n"
  using recognizedCL_fixed recognizedEL_fixed
  by (auto simp: Recognized_def Canonical_def CanonicalVersion_def split: if_splits
      intro: Consensus_TrimSpace [symmetric, THEN trans] ExecutionVersion_TrimSpace [symmetric, THEN trans])

end
