(* ===== verification/NodeModel.thy ===== *)
theory NodeModel
  imports GoHeap NetPolicy ClientName
begin

text \<open>
  The data of \<^verbatim>\<open>internal/nodeset/nodeset.go\<close>: the tracked identity \<^verbatim>\<open>Node\<close> (fields prefixed
  \<open>n_\<close>), the snapshot \<^verbatim>\<open>Row\<close> (\<open>r_\<close>), the record contents \<^verbatim>\<open>extracted\<close> (\<open>x_\<close>), the result
  \<^verbatim>\<open>Observation\<close> (\<open>o_\<close>), and every method and function on them that does not touch the set.

  go-ethereum's \<^verbatim>\<open>enode.Node\<close> is outside the repository. What the code reads of one is the
  record \<open>enode\<close>: its identity, sequence number, URL form and RLP encoding, and for each entry
  the code loads the decoded value, or \<open>None\<close> where \<^verbatim>\<open>Load\<close> fails. The parsers
  \<^verbatim>\<open>enode.Parse\<close> and \<^verbatim>\<open>enode.ParseV4\<close> are parameters of the functions that call them. The
  classification functions of package \<^verbatim>\<open>netconf\<close> and go-ethereum's \<^verbatim>\<open>IsSpecialNetwork\<close> are the
  fields of \<open>nsenv\<close>.
\<close>

section \<open>Constants\<close>

definition scoreCap :: int where "scoreCap = 10"
definition scoreInit :: int where "scoreInit = 1"
definition dropBelow :: int where "dropBelow = 0"
definition penaltyStep :: int where "penaltyStep = 2"
definition fpFailedAfter :: nat where "fpFailedAfter = 3"
definition fpRefreshAge :: duration where "fpRefreshAge = 24 * hour"
definition statusReverifyGap :: duration where "statusReverifyGap = 30 * minute"

definition fpRetrySchedule :: "duration list" where
  "fpRetrySchedule = [1 * minute, 5 * minute, 15 * minute, 1 * hour, 3 * hour, 6 * hour]"

section \<open>Data\<close>

type_synonym node_id = "byte list"

record forkid =
  fid_Hash :: "byte list"
  fid_Next :: u64

record ENRForkSchedule =
  sch_Digest :: string
  sch_NextVersion :: string
  sch_NextEpoch :: u64

definition zeroSchedule :: ENRForkSchedule where
  "zeroSchedule = \<lparr>sch_Digest = [], sch_NextVersion = [], sch_NextEpoch = 0\<rparr>"

record enode =
  en_ID :: node_id
  en_Seq :: u64
  en_URLv4 :: string
  en_rlp :: "byte list option"
  en_ip :: "byte list option"
  en_ip6 :: "byte list option"
  en_tcp :: "u16 option"
  en_udp :: "u16 option"
  en_tcp6 :: "u16 option"
  en_udp6 :: "u16 option"
  en_quic :: "u16 option"
  en_quic6 :: "u16 option"
  en_eth :: "forkid option"
  en_eth2 :: "byte list option"
  en_attnets :: "byte list option"
  en_cgc :: "byte list option"
  en_client :: "string list option"

record nsenv =
  allowPrivateIPs :: bool
  isSpecialNetwork :: "net_IP \<Rightarrow> bool"
  classify :: "forkid \<Rightarrow> string"
  classifyCL :: "byte list \<Rightarrow> string"

text \<open>Latitude and longitude are copied, never computed with: their IEEE 754 bit patterns.\<close>

record node =
  n_ID :: node_id
  n_Enode :: string
  n_ENR :: string
  n_Seq :: u64
  n_IP :: string
  n_IP6 :: string
  n_TCP :: int
  n_UDP :: int
  n_TCP6 :: int
  n_UDP6 :: int
  n_QUIC :: int
  n_QUIC6 :: int
  n_Network :: string
  n_ForkHash :: string
  n_ForkNext :: u64
  n_Layer :: string
  n_CGC :: u32
  n_CGCKnown :: bool
  n_HasV4 :: bool
  n_HasV5 :: bool
  n_Score :: int
  n_FirstSeen :: gotime
  n_LastSeen :: gotime
  n_LastCheck :: gotime
  n_LastResolved :: gotime
  n_ENRSchedule :: ENRForkSchedule
  n_Head :: u64
  n_HeadObservedAt :: gotime
  n_Client :: string
  n_ClientVersion :: string
  n_OS :: string
  n_Lang :: string
  n_Capabilities :: string
  n_MembershipSource :: string
  n_MembershipVerifiedAt :: gotime
  n_ForkSource :: string
  n_ForkObservedAt :: gotime
  n_FPDirection :: string
  n_Country :: string
  n_City :: string
  n_Subdivision :: string
  n_Lat :: u64
  n_Lon :: u64
  n_ASN :: u64
  n_Org :: string
  n_Hosting :: bool
  n_HostingKnown :: bool
  n_Geolocated :: bool
  n_GeoAccuracyRadiusKM :: u16
  n_fpAttempts :: nat
  n_fpInFlight :: bool
  n_fpDone :: bool
  n_fpRefreshDue :: bool
  n_fpRefresh :: bool
  n_fpAt :: gotime
  n_fpNext :: gotime
  n_pinned :: bool
  n_statusCreditAt :: gotime

text \<open>The zero value \<^verbatim>\<open>Node{}\<close>.\<close>

definition zeroNode :: node where
  "zeroNode =
     \<lparr>n_ID = replicate 32 0, n_Enode = [], n_ENR = [], n_Seq = 0, n_IP = [], n_IP6 = [],
      n_TCP = 0, n_UDP = 0, n_TCP6 = 0, n_UDP6 = 0, n_QUIC = 0, n_QUIC6 = 0,
      n_Network = [], n_ForkHash = [], n_ForkNext = 0, n_Layer = [], n_CGC = 0, n_CGCKnown = False,
      n_HasV4 = False, n_HasV5 = False, n_Score = 0,
      n_FirstSeen = time_zero, n_LastSeen = time_zero, n_LastCheck = time_zero,
      n_LastResolved = time_zero, n_ENRSchedule = zeroSchedule, n_Head = 0,
      n_HeadObservedAt = time_zero, n_Client = [], n_ClientVersion = [], n_OS = [], n_Lang = [],
      n_Capabilities = [], n_MembershipSource = [], n_MembershipVerifiedAt = time_zero,
      n_ForkSource = [], n_ForkObservedAt = time_zero, n_FPDirection = [], n_Country = [],
      n_City = [], n_Subdivision = [], n_Lat = 0, n_Lon = 0, n_ASN = 0, n_Org = [],
      n_Hosting = False, n_HostingKnown = False, n_Geolocated = False, n_GeoAccuracyRadiusKM = 0,
      n_fpAttempts = 0, n_fpInFlight = False, n_fpDone = False, n_fpRefreshDue = False,
      n_fpRefresh = False, n_fpAt = time_zero, n_fpNext = time_zero, n_pinned = False,
      n_statusCreditAt = time_zero\<rparr>"

record Observation =
  o_Accepted :: bool
  o_Applied :: bool
  o_Changed :: bool
  o_New :: bool
  o_Reject :: string
  o_Evicted :: nat
  o_EvictedClass :: string

definition zeroObservation :: Observation where
  "zeroObservation =
     \<lparr>o_Accepted = False, o_Applied = False, o_Changed = False, o_New = False, o_Reject = [],
      o_Evicted = 0, o_EvictedClass = []\<rparr>"

definition rejected :: "string \<Rightarrow> Observation" where
  "rejected why = zeroObservation\<lparr>o_Reject := why\<rparr>"

definition accepted :: Observation where
  "accepted = zeroObservation\<lparr>o_Accepted := True\<rparr>"

record FingerprintRetry =
  fr_Attempts :: nat
  fr_RetryAt :: gotime
  fr_BecameFailed :: bool
  fr_Refresh :: bool

definition zeroRetry :: FingerprintRetry where
  "zeroRetry = \<lparr>fr_Attempts = 0, fr_RetryAt = time_zero, fr_BecameFailed = False, fr_Refresh = False\<rparr>"

record Fingerprint =
  fp_Client :: string
  fp_Version :: string
  fp_OS :: string
  fp_Lang :: string
  fp_Caps :: string

record FingerprintClaim =
  fc_Layer :: string
  fc_Network :: string
  fc_IP :: "net_IP option"

record extracted =
  x_enode :: string
  x_enr :: string
  x_seq :: u64
  x_ip :: string
  x_ip6 :: string
  x_tcp :: int
  x_udp :: int
  x_tcp6 :: int
  x_udp6 :: int
  x_quic :: int
  x_quic6 :: int
  x_network :: string
  x_forkHash :: string
  x_forkNext :: u64
  x_layer :: string
  x_cgc :: u32
  x_cgcKnown :: bool
  x_client :: string
  x_version :: string
  x_schedule :: ENRForkSchedule

record Row =
  r_ID :: string
  r_Enode :: string
  r_ENR :: string
  r_Seq :: u64
  r_IP :: string
  r_IP6 :: string
  r_TCP :: int
  r_UDP :: int
  r_TCP6 :: int
  r_UDP6 :: int
  r_QUIC :: int
  r_QUIC6 :: int
  r_Network :: string
  r_ForkHash :: string
  r_ForkNext :: u64
  r_Layer :: string
  r_CGC :: u32
  r_CGCKnown :: bool
  r_HasV4 :: bool
  r_HasV5 :: bool
  r_Score :: int
  r_FirstSeen :: int
  r_LastSeen :: int
  r_LastCheck :: int
  r_LastResolved :: int
  r_Client :: string
  r_Version :: string
  r_OS :: string
  r_Lang :: string
  r_Caps :: string
  r_Country :: string
  r_City :: string
  r_Subdivision :: string
  r_Lat :: u64
  r_Lon :: u64
  r_ASN :: u32
  r_Org :: string
  r_Hosting :: bool
  r_HostingKnown :: bool
  r_Geolocated :: bool
  r_GeoAccuracyRadiusKM :: u16
  r_FPStatus :: string
  r_FPAttempts :: int
  r_FPAt :: int
  r_FPNext :: int
  r_MembershipSource :: string
  r_MembershipVerifiedAt :: int
  r_ForkSource :: string
  r_ForkObservedAt :: int
  r_FPDirection :: string
  r_Pinned :: bool
  r_Head :: u64
  r_HeadObservedAt :: int
  r_ENRForkDigest :: string
  r_ENRNextForkVersion :: string
  r_ENRNextForkEpoch :: u64

section \<open>Node state\<close>

definition isELCandidate :: "node \<Rightarrow> bool" where
  "isELCandidate n \<longleftrightarrow> n_Layer n = ''el'' \<and> n_Network n = []"

definition clearFingerprintLocked :: "node \<Rightarrow> node" where
  "clearFingerprintLocked n =
     (let n = n\<lparr>n_Client := [], n_ClientVersion := [], n_OS := [], n_Lang := [],
                n_Capabilities := [], n_FPDirection := [], n_fpAt := time_zero,
                n_fpDone := False, n_fpRefreshDue := False, n_fpAttempts := 0,
                n_fpNext := time_zero\<rparr>
      in if n_fpInFlight n then n\<lparr>n_fpRefresh := True\<rparr> else n)"

definition capacityClassNames :: "string list" where
  "capacityClassNames = [''verified'', ''classified'', ''unclassified'', ''fallback'']"

definition capacityClass :: "node \<Rightarrow> nat" where
  "capacityClass n =
     (if n_fpDone n \<or> n_pinned n then 0
      else if n_Score n \<le> dropBelow then 3
      else if n_Network n \<noteq> [] then 1
      else 2)"

definition evictBefore :: "node \<Rightarrow> node \<Rightarrow> bool" where
  "evictBefore a b =
     (if n_Score a \<noteq> n_Score b then n_Score a < n_Score b
      else if n_LastResolved a \<noteq> n_LastResolved b then n_LastResolved a < n_LastResolved b
      else if n_LastSeen a \<noteq> n_LastSeen b then n_LastSeen a < n_LastSeen b
      else n_ID a < n_ID b)"

text \<open>
  \<^verbatim>\<open>penalizeLocked\<close> and \<^verbatim>\<open>touchObservationLocked\<close> report whether the node is to be deleted, and
  update it.
\<close>

definition penalizeLocked :: "node \<Rightarrow> bool \<times> node" where
  "penalizeLocked cur =
     (let cur = cur\<lparr>n_Score := n_Score cur sdiv 2 - penaltyStep\<rparr>
      in if dropBelow < n_Score cur then (False, cur)
         else if \<not> n_fpDone cur \<and> n_fpAttempts cur = 0 \<and> \<not> n_fpInFlight cur then (True, cur)
         else (False, cur\<lparr>n_Score := dropBelow\<rparr>))"

definition touchObservationLocked ::
    "node \<Rightarrow> string \<Rightarrow> gotime \<Rightarrow> bool \<Rightarrow> bool \<Rightarrow> bool \<Rightarrow> bool \<times> node" where
  "touchObservationLocked cur via now existed failedResolution pin =
     (let (del, cur) =
        (if existed \<and> failedResolution \<and> \<not> n_pinned cur then penalizeLocked cur
         else if existed \<and> \<not> failedResolution \<and> n_Score cur < scoreCap
              then (False, cur\<lparr>n_Score := n_Score cur + 1\<rparr>)
         else (False, cur))
      in if del then (True, cur)
         else
           let cur = (if pin then cur\<lparr>n_Score := scoreCap, n_pinned := True\<rparr> else cur);
               cur = cur\<lparr>n_LastSeen := now, n_LastCheck := now\<rparr>;
               cur = (if \<not> failedResolution \<and> (via = ''v4'' \<or> via = ''v5'')
                      then cur\<lparr>n_LastResolved := now\<rparr> else cur);
               cur = (if via = ''v4'' then cur\<lparr>n_HasV4 := True\<rparr>
                      else if via = ''v5'' then cur\<lparr>n_HasV5 := True\<rparr> else cur)
           in (False, cur))"

definition fingerprintRefreshReasons :: "node \<Rightarrow> extracted \<Rightarrow> gotime \<Rightarrow> bool \<times> bool" where
  "fingerprintRefreshReasons cur nxt now =
     (let endpointChanged = (x_ip nxt \<noteq> n_IP cur \<or> x_ip6 nxt \<noteq> n_IP6 cur \<or> x_tcp nxt \<noteq> n_TCP cur \<or>
            x_tcp6 nxt \<noteq> n_TCP6 cur \<or> x_quic nxt \<noteq> n_QUIC cur \<or> x_quic6 nxt \<noteq> n_QUIC6 cur);
          clientChanged = (n_Client cur \<noteq> [] \<and> x_client nxt \<noteq> [] \<and> x_client nxt \<noteq> n_Client cur);
          expired = (n_fpDone cur \<and> \<not> n_fpRefreshDue cur \<and>
            (time_IsZero (n_fpAt cur) \<or> fpRefreshAge \<le> time_Sub now (n_fpAt cur)))
      in (endpointChanged \<or> clientChanged, expired))"

definition fingerprintable :: "node \<Rightarrow> bool" where
  "fingerprintable n =
     (if n_Layer n = ''el'' then
        (n_IP n \<noteq> [] \<and> n_TCP n \<noteq> 0) \<or> (n_IP6 n \<noteq> [] \<and> (n_TCP6 n \<noteq> 0 \<or> n_TCP n \<noteq> 0))
      else if n_Layer n = ''cl'' then
        (n_IP n \<noteq> [] \<and> (n_TCP n \<noteq> 0 \<or> n_QUIC n \<noteq> 0)) \<or>
        (n_IP6 n \<noteq> [] \<and> (n_TCP6 n \<noteq> 0 \<or> n_TCP n \<noteq> 0 \<or> n_QUIC6 n \<noteq> 0 \<or> n_QUIC n \<noteq> 0))
      else False)"

definition fingerprintDue :: "node \<Rightarrow> gotime \<Rightarrow> bool" where
  "fingerprintDue n now =
     (if n_fpDone n \<and> \<not> n_fpRefreshDue n then False
      else if n_fpInFlight n then False
      else if \<not> fingerprintable n then False
      else time_IsZero (n_fpNext n) \<or> \<not> now < n_fpNext n)"

definition fpStatus :: "node \<Rightarrow> string" where
  "fpStatus n =
     (if n_fpDone n \<and> n_fpRefreshDue n then ''stale''
      else if n_fpDone n then ''ok''
      else if \<not> fingerprintable n then ''n/a''
      else if fpFailedAfter \<le> n_fpAttempts n then ''failed''
      else ''pending'')"

definition geoAddrIs :: "node \<Rightarrow> net_IP \<Rightarrow> bool" where
  "geoAddrIs n ip =
     (if ip = [] then False
      else
        let preferred = (if n_IP n = [] then n_IP6 n else n_IP n)
        in preferred \<noteq> [] \<and>
           (case net_ParseIP preferred of None \<Rightarrow> ip_Equal [] ip | Some p \<Rightarrow> ip_Equal p ip))"

definition dialIP :: "node \<Rightarrow> net_IP option" where
  "dialIP n = (if n_IP n \<noteq> [] then net_ParseIP (n_IP n) else net_ParseIP (n_IP6 n))"

definition clearHeadOnNetworkChangeLocked :: "node \<Rightarrow> string \<Rightarrow> node" where
  "clearHeadOnNetworkChangeLocked n network =
     (if n_Network n \<noteq> network then n\<lparr>n_Head := 0, n_HeadObservedAt := time_zero\<rparr> else n)"

definition creditStatusSightingLocked :: "node \<Rightarrow> string \<Rightarrow> gotime \<Rightarrow> node" where
  "creditStatusSightingLocked n network now =
     (let n = (if n_MembershipSource n = ''status'' \<and> n_Network n = network \<and>
                  \<not> time_IsZero (n_statusCreditAt n) \<and>
                  statusReverifyGap \<le> time_Sub now (n_statusCreditAt n)
               then (let n = (if n_Score n < scoreCap then n\<lparr>n_Score := n_Score n + 1\<rparr> else n)
                     in n\<lparr>n_statusCreditAt := now\<rparr>)
               else n)
      in if time_IsZero (n_statusCreditAt n) \<or> n_Network n \<noteq> network
         then n\<lparr>n_statusCreditAt := now\<rparr> else n)"

definition fingerprintRetryDelay :: "node_id \<Rightarrow> nat \<Rightarrow> duration" where
  "fingerprintRetryDelay nid attempt0 =
     (let attempt = max attempt0 1;
          i = min (attempt - 1) (length fpRetrySchedule - 1);
          base = fpRetrySchedule ! i;
          b = nid ! ((attempt - 1) mod 32);
          permille = 900 + uint b * 200 div 255
      in base * permille div 1000)"

definition snapshotEligible :: "node \<Rightarrow> bool" where
  "snapshotEligible n =
     (if n_Layer n \<noteq> ''el'' \<and> n_Layer n \<noteq> ''cl'' then False
      else if n_ENR n = [] \<and> \<not> n_HasV4 n \<and> \<not> n_HasV5 n \<and> \<not> n_pinned n \<and> n_Score n \<le> scoreInit
           then False
      else dropBelow < n_Score n \<or> n_fpDone n \<or> n_pinned n)"

section \<open>Rows\<close>

text \<open>The conversions \<^verbatim>\<open>int32(x)\<close> and \<^verbatim>\<open>uint32(x)\<close> keep the low 32 bits.\<close>

definition int32 :: "int \<Rightarrow> int" where
  "int32 x = (x + 2147483648) mod 4294967296 - 2147483648"

definition unixOrZero :: "gotime \<Rightarrow> int" where
  "unixOrZero t = (if time_IsZero t then 0 else time_Unix t)"

definition timeOrZero :: "int \<Rightarrow> gotime" where
  "timeOrZero v = (if v = 0 then time_zero else unix_time v)"

definition rowAttempts :: "node \<Rightarrow> nat" where
  "rowAttempts n =
     (if n_fpInFlight n \<and> 0 < n_fpAttempts n then n_fpAttempts n - 1 else n_fpAttempts n)"

definition row :: "node \<Rightarrow> Row" where
  "row n =
     \<lparr>r_ID = hex_EncodeToString (n_ID n), r_Enode = n_Enode n, r_ENR = n_ENR n, r_Seq = n_Seq n,
      r_IP = n_IP n, r_IP6 = n_IP6 n, r_TCP = int32 (n_TCP n), r_UDP = int32 (n_UDP n),
      r_TCP6 = int32 (n_TCP6 n), r_UDP6 = int32 (n_UDP6 n),
      r_QUIC = int32 (n_QUIC n), r_QUIC6 = int32 (n_QUIC6 n),
      r_Network = n_Network n, r_ForkHash = n_ForkHash n, r_ForkNext = n_ForkNext n,
      r_Layer = n_Layer n, r_CGC = n_CGC n, r_CGCKnown = n_CGCKnown n,
      r_HasV4 = n_HasV4 n, r_HasV5 = n_HasV5 n, r_Score = int32 (n_Score n),
      r_FirstSeen = time_Unix (n_FirstSeen n), r_LastSeen = time_Unix (n_LastSeen n),
      r_LastCheck = time_Unix (n_LastCheck n), r_LastResolved = unixOrZero (n_LastResolved n),
      r_Client = n_Client n, r_Version = n_ClientVersion n, r_OS = n_OS n, r_Lang = n_Lang n,
      r_Caps = n_Capabilities n, r_Country = n_Country n, r_City = n_City n,
      r_Subdivision = n_Subdivision n, r_Lat = n_Lat n, r_Lon = n_Lon n, r_ASN = ucast (n_ASN n),
      r_Org = n_Org n, r_Hosting = n_Hosting n, r_HostingKnown = n_HostingKnown n,
      r_Geolocated = n_Geolocated n, r_GeoAccuracyRadiusKM = n_GeoAccuracyRadiusKM n,
      r_FPStatus = fpStatus n, r_FPAttempts = int32 (int (rowAttempts n)),
      r_FPAt = unixOrZero (n_fpAt n), r_FPNext = unixOrZero (n_fpNext n),
      r_MembershipSource = n_MembershipSource n,
      r_MembershipVerifiedAt = unixOrZero (n_MembershipVerifiedAt n),
      r_ForkSource = n_ForkSource n, r_ForkObservedAt = unixOrZero (n_ForkObservedAt n),
      r_FPDirection = n_FPDirection n, r_Pinned = n_pinned n, r_Head = n_Head n,
      r_HeadObservedAt = unixOrZero (n_HeadObservedAt n),
      r_ENRForkDigest = sch_Digest (n_ENRSchedule n),
      r_ENRNextForkVersion = sch_NextVersion (n_ENRSchedule n),
      r_ENRNextForkEpoch = sch_NextEpoch (n_ENRSchedule n)\<rparr>"

definition restoredAttempts :: "Row \<Rightarrow> nat" where
  "restoredAttempts r = (if r_FPAttempts r < 0 then 0 else nat (r_FPAttempts r))"

definition DialableV6 :: "Row \<Rightarrow> bool" where
  "DialableV6 r \<longleftrightarrow> r_IP6 r \<noteq> [] \<and> (r_TCP6 r \<noteq> 0 \<or> r_TCP r \<noteq> 0 \<or> r_QUIC6 r \<noteq> 0 \<or> r_QUIC r \<noteq> 0)"

definition Dialable :: "Row \<Rightarrow> bool" where
  "Dialable r \<longleftrightarrow> (r_IP r \<noteq> [] \<and> (r_TCP r \<noteq> 0 \<or> r_QUIC r \<noteq> 0)) \<or> DialableV6 r"

text \<open>The node \<^verbatim>\<open>Ingest\<close> builds from a row.\<close>

definition verifiedFingerprint :: "Row \<Rightarrow> bool" where
  "verifiedFingerprint r \<longleftrightarrow> r_FPStatus r = ''ok'' \<or> r_FPStatus r = ''stale''"

definition nodeOfRow :: "node_id \<Rightarrow> Row \<Rightarrow> node" where
  "nodeOfRow nid r =
     \<lparr>n_ID = nid, n_Enode = r_Enode r, n_ENR = r_ENR r, n_Seq = r_Seq r,
      n_IP = r_IP r, n_IP6 = r_IP6 r, n_TCP = r_TCP r, n_UDP = r_UDP r, n_TCP6 = r_TCP6 r,
      n_UDP6 = r_UDP6 r, n_QUIC = r_QUIC r, n_QUIC6 = r_QUIC6 r,
      n_Network = r_Network r, n_ForkHash = r_ForkHash r, n_ForkNext = r_ForkNext r,
      n_Layer = r_Layer r, n_CGC = r_CGC r, n_CGCKnown = r_CGCKnown r,
      n_HasV4 = r_HasV4 r, n_HasV5 = r_HasV5 r, n_Score = r_Score r,
      n_FirstSeen = unix_time (r_FirstSeen r), n_LastSeen = unix_time (r_LastSeen r),
      n_LastCheck = unix_time (r_LastCheck r), n_LastResolved = timeOrZero (r_LastResolved r),
      n_ENRSchedule = \<lparr>sch_Digest = r_ENRForkDigest r, sch_NextVersion = r_ENRNextForkVersion r,
                       sch_NextEpoch = r_ENRNextForkEpoch r\<rparr>,
      n_Head = r_Head r, n_HeadObservedAt = timeOrZero (r_HeadObservedAt r),
      n_Client = r_Client r, n_ClientVersion = r_Version r, n_OS = r_OS r, n_Lang = r_Lang r,
      n_Capabilities = r_Caps r, n_MembershipSource = r_MembershipSource r,
      n_MembershipVerifiedAt = timeOrZero (r_MembershipVerifiedAt r),
      n_ForkSource = r_ForkSource r, n_ForkObservedAt = timeOrZero (r_ForkObservedAt r),
      n_FPDirection = r_FPDirection r, n_Country = r_Country r, n_City = r_City r,
      n_Subdivision = r_Subdivision r, n_Lat = r_Lat r, n_Lon = r_Lon r,
      n_ASN = ucast (r_ASN r), n_Org = r_Org r, n_Hosting = r_Hosting r,
      n_HostingKnown = r_HostingKnown r, n_Geolocated = r_Geolocated r,
      n_GeoAccuracyRadiusKM = r_GeoAccuracyRadiusKM r,
      n_fpAttempts = restoredAttempts r, n_fpInFlight = False,
      n_fpDone = verifiedFingerprint r,
      n_fpRefreshDue = (verifiedFingerprint r \<and> r_FPStatus r = ''stale''),
      n_fpRefresh = False, n_fpAt = timeOrZero (r_FPAt r), n_fpNext = timeOrZero (r_FPNext r),
      n_pinned = r_Pinned r, n_statusCreditAt = time_zero\<rparr>"

definition candidateOfRow :: "node_id \<Rightarrow> Row \<Rightarrow> node" where
  "candidateOfRow nid r =
     (let candidate = nodeOfRow nid r
      in if r_Layer r = ''cl'' \<and> r_Caps r \<noteq> [] then clearFingerprintLocked candidate else candidate)"

section \<open>Records\<close>

text \<open>\<^verbatim>\<open>CGCEntry.Uint32\<close> of \<^verbatim>\<open>internal/netconf/netconf.go\<close>: big-endian, leading zeros tolerated.\<close>

definition CGC_Uint32 :: "byte list \<Rightarrow> u32 \<times> bool" where
  "CGC_Uint32 e =
     (let b = dropWhile (\<lambda>c. c = 0) e
      in if 4 < length b then (0, False)
         else (foldl (\<lambda>v c. push_bit 8 v OR ucast c) 0 b, True))"

definition clForkSchedule :: "byte list \<Rightarrow> ENRForkSchedule" where
  "clForkSchedule eth2 =
     (if length eth2 < 16 then zeroSchedule
      else \<lparr>sch_Digest = hex_EncodeToString (take 4 eth2),
            sch_NextVersion = hex_EncodeToString (take 4 (drop 4 eth2)),
            sch_NextEpoch = LittleEndian_Uint64 (take 8 (drop 8 eth2))\<rparr>)"

definition CLForkScheduleOf :: "enode \<Rightarrow> ENRForkSchedule" where
  "CLForkScheduleOf n = (case en_eth2 n of None \<Rightarrow> zeroSchedule | Some e \<Rightarrow> clForkSchedule e)"

text \<open>\<^verbatim>\<open>base64.RawURLEncoding\<close>\<close>

definition b64_char :: "nat \<Rightarrow> char" where
  "b64_char d = ''ABCDEFGHIJKLMNOPQRSTUVWXYZabcdefghijklmnopqrstuvwxyz0123456789-_'' ! (d mod 64)"

fun base64_RawURL :: "byte list \<Rightarrow> string" where
  "base64_RawURL [] = []"
| "base64_RawURL [a] = [b64_char (unat a div 4), b64_char (unat a mod 4 * 16)]"
| "base64_RawURL [a, b] =
     [b64_char (unat a div 4), b64_char (unat a mod 4 * 16 + unat b div 16),
      b64_char (unat b mod 16 * 4)]"
| "base64_RawURL (a # b # c # r) =
     [b64_char (unat a div 4), b64_char (unat a mod 4 * 16 + unat b div 16),
      b64_char (unat b mod 16 * 4 + unat c div 64), b64_char (unat c mod 64)] @ base64_RawURL r"

definition enrText :: "enode \<Rightarrow> string" where
  "enrText n = (case en_rlp n of None \<Rightarrow> [] | Some b \<Rightarrow> ''enr:'' @ base64_RawURL b)"

definition usableIP :: "nsenv \<Rightarrow> net_IP \<Rightarrow> string" where
  "usableIP env ip =
     (if \<not> Usable (isSpecialNetwork env) ip (allowPrivateIPs env) then [] else ip_String ip)"

definition addressReject :: "nsenv \<Rightarrow> enode \<Rightarrow> string" where
  "addressReject env n =
     (let addrs = (case en_ip n of None \<Rightarrow> [] | Some ip \<Rightarrow> [ip]) @
                  (case en_ip6 n of None \<Rightarrow> [] | Some ip \<Rightarrow> [ip]);
          present = length addrs;
          usable = length (filter (\<lambda>ip. Usable (isSpecialNetwork env) ip (allowPrivateIPs env)) addrs)
      in if present = 0 then ''no_address''
         else if usable = present then []
         else if 0 < usable then ''mixed_address''
         else ''address_policy'')"

definition port :: "u16 option \<Rightarrow> int" where
  "port p = (case p of None \<Rightarrow> 0 | Some v \<Rightarrow> uint v)"

definition extractNode :: "nsenv \<Rightarrow> enode \<Rightarrow> extracted" where
  "extractNode env n =
     (let e0 = \<lparr>x_enode = en_URLv4 n, x_enr = enrText n, x_seq = en_Seq n,
                x_ip = (case en_ip n of None \<Rightarrow> [] | Some ip \<Rightarrow> usableIP env ip),
                x_ip6 = (case en_ip6 n of None \<Rightarrow> [] | Some ip \<Rightarrow> usableIP env ip),
                x_tcp = port (en_tcp n), x_udp = port (en_udp n),
                x_tcp6 = port (en_tcp6 n), x_udp6 = port (en_udp6 n),
                x_quic = port (en_quic n), x_quic6 = port (en_quic6 n),
                x_network = [], x_forkHash = [], x_forkNext = 0, x_layer = ''unknown'',
                x_cgc = 0, x_cgcKnown = False, x_client = [], x_version = [],
                x_schedule = zeroSchedule\<rparr>;
          e1 = (case en_eth n of
                  Some eth \<Rightarrow> e0\<lparr>x_forkHash := hex_EncodeToString (fid_Hash eth),
                                x_forkNext := fid_Next eth, x_network := classify env eth,
                                x_layer := ''el''\<rparr>
                | None \<Rightarrow>
                    if en_eth2 n \<noteq> None \<or> en_attnets n \<noteq> None then
                      let e = e0\<lparr>x_layer := ''cl'', x_enode := []\<rparr>;
                          e = (case en_cgc n of
                                 None \<Rightarrow> e
                               | Some c \<Rightarrow> e\<lparr>x_cgc := fst (CGC_Uint32 c), x_cgcKnown := snd (CGC_Uint32 c)\<rparr>)
                      in (case en_eth2 n of
                            None \<Rightarrow> e
                          | Some eth2 \<Rightarrow>
                              if 4 \<le> length eth2 then
                                e\<lparr>x_forkHash := hex_EncodeToString (take 4 eth2),
                                  x_schedule := clForkSchedule eth2,
                                  x_forkNext := sch_NextEpoch (clForkSchedule eth2),
                                  x_network := classifyCL env (take 4 eth2)\<rparr>
                              else e)
                    else e0)
      in case en_client n of
           Some (c # cs) \<Rightarrow>
             let v = (case cs of [] \<Rightarrow> [] | v # _ \<Rightarrow> v)
             in e1\<lparr>x_version := v, x_client := CanonicalVersion (x_layer e1) c v\<rparr>
         | _ \<Rightarrow> e1)"

definition HasExecutionTCP :: "enode \<Rightarrow> bool" where
  "HasExecutionTCP n =
     ((case en_tcp n of None \<Rightarrow> False | Some t \<Rightarrow> t \<noteq> 0) \<or>
      (case en_tcp6 n of None \<Rightarrow> False | Some t \<Rightarrow> t \<noteq> 0))"

definition Inspect :: "nsenv \<Rightarrow> enode \<Rightarrow> string \<times> string \<times> bool" where
  "Inspect env n =
     (if addressReject env n \<noteq> [] then (''unknown'', [], False)
      else let e = extractNode env n in (x_layer e, x_network e, x_ip e \<noteq> [] \<or> x_ip6 e \<noteq> []))"

definition InspectDevnet :: "nsenv \<Rightarrow> enode \<Rightarrow> string \<times> string \<times> bool" where
  "InspectDevnet env n =
     (case Inspect env n of (layer, network, routable) \<Rightarrow>
        (if routable \<and> layer = ''unknown'' \<and> HasExecutionTCP n then ''el'' else layer,
         network, routable))"

definition rowAddressesUsable :: "nsenv \<Rightarrow> Row \<Rightarrow> bool" where
  "rowAddressesUsable env r =
     (let addrs = filter (\<lambda>s. s \<noteq> []) [r_IP r, r_IP6 r];
          usable = (\<lambda>s. case net_ParseIP s of None \<Rightarrow> False | Some ip \<Rightarrow> usableIP env ip \<noteq> [])
      in list_all usable addrs \<and> addrs \<noteq> [])"

text \<open>
  \<^verbatim>\<open>nodeRecordToEnode\<close> with go-ethereum's \<^verbatim>\<open>enode.Parse(ValidSchemes, _)\<close> and \<^verbatim>\<open>enode.ParseV4\<close> as
  parameters; a parse error is \<open>None\<close>.
\<close>

definition nodeRecordToEnode ::
    "(string \<Rightarrow> enode option) \<Rightarrow> (string \<Rightarrow> enode option) \<Rightarrow> string \<Rightarrow> string \<Rightarrow> enode option" where
  "nodeRecordToEnode parse parseV4 enrStr enodeURL =
     (case (if enrStr \<noteq> [] then parse enrStr else None) of
        Some n \<Rightarrow> Some n
      | None \<Rightarrow> if enodeURL \<noteq> [] then parseV4 enodeURL else None)"

end
