(* ===== verification/NodeSet.thy ===== *)
theory NodeSet
  imports NodeModel
begin

text \<open>
  The tracked set of \<^verbatim>\<open>internal/nodeset/nodeset.go\<close>: the type \<^verbatim>\<open>Set\<close> (record \<open>nset\<close>) and every
  method of it. A method is a function of its arguments and the state that returns its result
  and the new state; methods that take \<^verbatim>\<open>time.Now()\<close> take the instant as an argument.

  Each definition is one critical section of the lock \<^verbatim>\<open>s.mu\<close>. \<^verbatim>\<open>observe\<close> takes the lock twice (the
  check for a stale record, then the update), and the \<^verbatim>\<open>ObserveAuthenticated\<close> methods take it a
  third time; these sections are the separate definitions \<open>observe_stale\<close>, \<open>observe_locked\<close>,
  \<open>authenticatedEL_locked\<close> and \<open>authenticatedCL_locked\<close>, so that the step relation of theory
  \<open>NodeSetInv\<close> can interleave other operations between them.
\<close>

section \<open>The state\<close>

record nset =
  s_m :: "(node_id, node) gomap"
  s_max :: int
  s_candidates :: int

definition NewWithLimit :: "int \<Rightarrow> nset" where
  "NewWithLimit mx = \<lparr>s_m = [], s_max = mx, s_candidates = 0\<rparr>"

definition lookup :: "nset \<Rightarrow> node_id \<Rightarrow> node option" where
  "lookup s i = map_of (s_m s) i"

text \<open>Writing through the pointer \<^verbatim>\<open>s.m[id]\<close>, or inserting it.\<close>

definition put :: "node_id \<Rightarrow> node \<Rightarrow> nset \<Rightarrow> nset" where
  "put i n s = s\<lparr>s_m := AList.update i n (s_m s)\<rparr>"

definition Len :: "nset \<Rightarrow> int" where
  "Len s = int (length (s_m s))"

definition full :: "nset \<Rightarrow> bool" where
  "full s \<longleftrightarrow> 0 < s_max s \<and> s_max s \<le> Len s"

definition trackCandidateLocked :: "bool \<Rightarrow> bool \<Rightarrow> nset \<Rightarrow> nset" where
  "trackCandidateLocked was is s =
     (if is \<and> \<not> was then s\<lparr>s_candidates := s_candidates s + 1\<rparr>
      else if was \<and> \<not> is then s\<lparr>s_candidates := s_candidates s - 1\<rparr>
      else s)"

definition deleteLocked :: "node_id \<Rightarrow> nset \<Rightarrow> nset" where
  "deleteLocked i s =
     (case lookup s i of
        None \<Rightarrow> s
      | Some n \<Rightarrow>
          let s = trackCandidateLocked (isELCandidate n) False s
          in s\<lparr>s_m := AList.delete i (s_m s)\<rparr>)"

section \<open>Eviction\<close>

definition evict_scan :: "nat \<Rightarrow> nat \<times> node topK \<Rightarrow> node \<Rightarrow> nat \<times> node topK" where
  "evict_scan candClass acc n =
     (let (worst, victims) = acc; c = capacityClass n
      in if c \<le> candClass \<or> c < worst \<or> n_pinned n then (worst, victims)
         else
           let (worst, victims) =
             (if worst < c then (c, victims\<lparr>items := []\<rparr>) else (worst, victims))
           in (worst, offer victims n))"

definition evict_batch :: "nset \<Rightarrow> int" where
  "evict_batch s = max 64 (s_max s sdiv 1000)"

definition evict_select :: "nat \<Rightarrow> nset \<Rightarrow> nat \<times> node topK" where
  "evict_select candClass s =
     foldl (evict_scan candClass) (candClass, newTopK (evict_batch s) evictBefore) (map snd (s_m s))"

definition evictForLocked :: "nat \<Rightarrow> nset \<Rightarrow> (nat \<times> string) \<times> nset" where
  "evictForLocked candClass s =
     (let (worst, victims) = evict_select candClass s
      in if items victims = [] then ((0, []), s)
         else ((length (items victims), capacityClassNames ! worst),
               foldl (\<lambda>s v. deleteLocked (n_ID v) s) s (items victims)))"

section \<open>Observing a record\<close>

definition observe_stale ::
    "enode \<Rightarrow> string \<Rightarrow> gotime \<Rightarrow> bool \<Rightarrow> bool \<Rightarrow> nset \<Rightarrow> (Observation \<times> nset) option" where
  "observe_stale n via now failedResolution pin s =
     (case lookup s (en_ID n) of
        None \<Rightarrow> None
      | Some cur \<Rightarrow>
          if en_Seq n < n_Seq cur then
            let (del, cur) = touchObservationLocked cur via now True failedResolution pin;
                s = put (en_ID n) cur s;
                s = (if del then deleteLocked (en_ID n) s else s)
            in Some (accepted, s)
          else None)"

definition force_extracted :: "string \<Rightarrow> string \<Rightarrow> extracted \<Rightarrow> extracted" where
  "force_extracted forceNetwork forceLayer e =
     (if forceNetwork \<noteq> [] then
        let e = e\<lparr>x_network := forceNetwork\<rparr>
        in if forceLayer \<noteq> [] then e\<lparr>x_layer := forceLayer\<rparr>
           else if x_layer e = ''unknown'' \<and> (x_tcp e \<noteq> 0 \<or> x_tcp6 e \<noteq> 0) then e\<lparr>x_layer := ''el''\<rparr>
           else e
      else e)"

text \<open>A known record changed or its fingerprint expired: what happens to the fingerprint.\<close>

definition refresh_on_change :: "node \<Rightarrow> extracted \<Rightarrow> gotime \<Rightarrow> node" where
  "refresh_on_change cur e now =
     (let (recordChanged, expired) = fingerprintRefreshReasons cur e now
      in if recordChanged \<or> expired then
           let cur = (if n_fpDone cur then cur\<lparr>n_fpRefreshDue := True\<rparr>
                      else cur\<lparr>n_Client := [], n_ClientVersion := [], n_OS := [], n_Lang := [],
                               n_Capabilities := [], n_fpAt := time_zero\<rparr>)
           in if recordChanged \<and> n_fpInFlight cur then cur\<lparr>n_fpRefresh := True\<rparr>
              else if \<not> n_fpInFlight cur \<and> (recordChanged \<or> expired)
                   then cur\<lparr>n_fpAttempts := 0, n_fpNext := time_zero\<rparr>
              else cur
         else cur)"

definition apply_endpoint :: "node \<Rightarrow> extracted \<Rightarrow> node" where
  "apply_endpoint cur e =
     cur\<lparr>n_IP := x_ip e, n_IP6 := x_ip6 e, n_TCP := x_tcp e, n_UDP := x_udp e,
         n_TCP6 := x_tcp6 e, n_UDP6 := x_udp6 e, n_QUIC := x_quic e, n_QUIC6 := x_quic6 e\<rparr>"

definition apply_fork :: "node \<Rightarrow> extracted \<Rightarrow> gotime \<Rightarrow> bool \<Rightarrow> node" where
  "apply_fork cur e now sameRecordAsStatus =
     (if x_forkHash e \<noteq> [] \<and> \<not> sameRecordAsStatus \<and>
         (n_ForkHash cur \<noteq> x_forkHash e \<or> n_ForkNext cur \<noteq> x_forkNext e \<or> n_ForkSource cur = [])
      then cur\<lparr>n_ForkHash := x_forkHash e, n_ForkNext := x_forkNext e, n_ForkSource := ''enr'',
               n_ForkObservedAt := now\<rparr>
      else cur)"

definition apply_network :: "node \<Rightarrow> extracted \<Rightarrow> node" where
  "apply_network cur e =
     (if x_network e \<noteq> [] then
        let cur = (if n_Network cur \<noteq> x_network e
                   then cur\<lparr>n_MembershipSource := ''enr'', n_MembershipVerifiedAt := time_zero,
                            n_Head := 0, n_HeadObservedAt := time_zero\<rparr>
                   else cur);
            cur = cur\<lparr>n_Network := x_network e\<rparr>
        in if n_MembershipSource cur = [] then cur\<lparr>n_MembershipSource := ''enr''\<rparr> else cur
      else cur)"

definition apply_layer :: "node \<Rightarrow> extracted \<Rightarrow> node" where
  "apply_layer cur e =
     (if x_layer e \<noteq> ''unknown'' then
        let cur = (if n_Layer cur \<noteq> x_layer e then
                     let cur = cur\<lparr>n_Head := 0, n_HeadObservedAt := time_zero\<rparr>
                     in if n_Layer cur \<noteq> [] then clearFingerprintLocked cur else cur
                   else cur)
        in cur\<lparr>n_Layer := x_layer e\<rparr>
      else cur)"

definition apply_client :: "node \<Rightarrow> extracted \<Rightarrow> node" where
  "apply_client cur e =
     (if n_Client cur = [] \<and> x_client e \<noteq> []
      then cur\<lparr>n_Client := x_client e, n_ClientVersion := x_version e\<rparr> else cur)"

definition apply_record :: "node \<Rightarrow> extracted \<Rightarrow> gotime \<Rightarrow> bool \<Rightarrow> node" where
  "apply_record cur e now ok =
     (let cur = (if ok then refresh_on_change cur e now else cur);
          sameRecordAsStatus =
            (ok \<and> n_ForkSource cur = ''status'' \<and> x_seq e = n_Seq cur \<and> x_enr e = n_ENR cur \<and>
             x_network e = n_Network cur \<and> x_layer e = n_Layer cur);
          cur = cur\<lparr>n_Enode := x_enode e, n_ENR := x_enr e, n_Seq := x_seq e\<rparr>;
          cur = apply_endpoint cur e;
          cur = cur\<lparr>n_CGC := x_cgc e, n_CGCKnown := x_cgcKnown e, n_ENRSchedule := x_schedule e\<rparr>;
          cur = apply_fork cur e now sameRecordAsStatus;
          cur = apply_network cur e;
          cur = apply_layer cur e
      in apply_client cur e)"

text \<open>The capacity class a new record is admitted with.\<close>

definition admit_class :: "extracted \<Rightarrow> bool \<Rightarrow> bool \<Rightarrow> nat" where
  "admit_class e failedResolution pin =
     (if pin then 0 else if failedResolution then 3 else if x_network e \<noteq> [] then 1 else 2)"

definition observe_locked ::
    "node_id \<Rightarrow> extracted \<Rightarrow> string \<Rightarrow> gotime \<Rightarrow> bool \<Rightarrow> bool \<Rightarrow> nset \<Rightarrow> Observation \<times> nset" where
  "observe_locked i e via now failedResolution pin s =
     (let found = lookup s i;
          ok = (found \<noteq> None);
          wasCandidate = (case found of None \<Rightarrow> False | Some cur \<Rightarrow> isELCandidate cur);
          ((evicted, evictedClass), s1) =
            (if \<not> ok \<and> full s then evictForLocked (admit_class e failedResolution pin) s
             else ((0, []), s))
      in if \<not> ok \<and> full s \<and> evicted = 0 then (rejected ''capacity'', s1)
         else
           let cur = (case found of
                        Some cur \<Rightarrow> cur
                      | None \<Rightarrow> zeroNode\<lparr>n_ID := i, n_FirstSeen := now,
                          n_Score := (if failedResolution then dropBelow else scoreInit)\<rparr>);
               (del, cur) = touchObservationLocked cur via now ok failedResolution pin;
               s2 = put i cur s1;
               obs = accepted\<lparr>o_Evicted := evicted, o_EvictedClass := evictedClass\<rparr>
           in if del then (obs, deleteLocked i s2)
              else if ok \<and> x_seq e < n_Seq cur then (obs, s2)
              else
                let changed = (\<not> ok \<or> x_seq e \<noteq> n_Seq cur \<or> x_enr e \<noteq> n_ENR cur \<or>
                               x_enode e \<noteq> n_Enode cur);
                    cur = apply_record cur e now ok;
                    s3 = trackCandidateLocked wasCandidate (isELCandidate cur) (put i cur s2)
                in (obs\<lparr>o_Applied := True, o_Changed := changed, o_New := \<not> ok\<rparr>, s3))"

definition observe ::
    "nsenv \<Rightarrow> enode \<Rightarrow> string \<Rightarrow> gotime \<Rightarrow> string \<Rightarrow> string \<Rightarrow> bool \<Rightarrow> bool \<Rightarrow> nset \<Rightarrow> Observation \<times> nset" where
  "observe env n via now forceNetwork forceLayer failedResolution pin s =
     (if addressReject env n \<noteq> [] then (rejected (addressReject env n), s)
      else case observe_stale n via now failedResolution pin s of
             Some r \<Rightarrow> r
           | None \<Rightarrow>
               let e = extractNode env n
               in if x_ip e = [] \<and> x_ip6 e = [] then (rejected ''no_address'', s)
                  else observe_locked (en_ID n) (force_extracted forceNetwork forceLayer e)
                         via now failedResolution pin s)"

definition ObserveResult :: "nsenv \<Rightarrow> enode \<Rightarrow> string \<Rightarrow> gotime \<Rightarrow> nset \<Rightarrow> Observation \<times> nset" where
  "ObserveResult env n via now = observe env n via now [] [] False False"

definition Observe :: "nsenv \<Rightarrow> enode \<Rightarrow> string \<Rightarrow> gotime \<Rightarrow> nset \<Rightarrow> bool \<times> nset" where
  "Observe env n via now s = (let (r, s') = ObserveResult env n via now s in (o_Accepted r, s'))"

definition ObserveFallbackResult :: "nsenv \<Rightarrow> enode \<Rightarrow> string \<Rightarrow> gotime \<Rightarrow> nset \<Rightarrow> Observation \<times> nset" where
  "ObserveFallbackResult env n via now = observe env n via now [] [] True False"

definition ObserveSeedResult :: "nsenv \<Rightarrow> enode \<Rightarrow> string \<Rightarrow> gotime \<Rightarrow> nset \<Rightarrow> Observation \<times> nset" where
  "ObserveSeedResult env n network now = observe env n ''seed'' now network [] False True"

definition ObserveDevnetResult :: "nsenv \<Rightarrow> enode \<Rightarrow> string \<Rightarrow> gotime \<Rightarrow> nset \<Rightarrow> Observation \<times> nset" where
  "ObserveDevnetResult env n via now = observe env n via now ''devnet'' [] False False"

definition ObserveDevnetFallbackResult ::
    "nsenv \<Rightarrow> enode \<Rightarrow> string \<Rightarrow> gotime \<Rightarrow> nset \<Rightarrow> Observation \<times> nset" where
  "ObserveDevnetFallbackResult env n via now = observe env n via now ''devnet'' [] True False"

definition authenticate :: "string \<Rightarrow> u64 \<Rightarrow> gotime \<Rightarrow> node \<Rightarrow> node" where
  "authenticate forkHash forkNext now cur =
     (let cur = cur\<lparr>n_MembershipSource := ''status'', n_MembershipVerifiedAt := now,
                    n_LastResolved := now, n_ForkHash := forkHash, n_ForkNext := forkNext,
                    n_ForkSource := ''status'', n_ForkObservedAt := now\<rparr>;
          cur = (if time_IsZero (n_statusCreditAt cur) then cur\<lparr>n_statusCreditAt := now\<rparr> else cur)
      in if n_Seq cur = 0 then cur\<lparr>n_ENR := [], n_ENRSchedule := zeroSchedule\<rparr> else cur)"

definition authenticatedEL_locked ::
    "node_id \<Rightarrow> string \<Rightarrow> string \<Rightarrow> u64 \<Rightarrow> gotime \<Rightarrow> nset \<Rightarrow> nset" where
  "authenticatedEL_locked i network forkHash forkNext now s =
     (case lookup s i of
        None \<Rightarrow> s
      | Some cur \<Rightarrow>
          if n_Layer cur = ''el'' \<and> n_Network cur = network \<and> \<not> now < n_ForkObservedAt cur
          then put i (authenticate forkHash forkNext now cur) s else s)"

definition authenticatedCL_locked ::
    "node_id \<Rightarrow> string \<Rightarrow> string \<Rightarrow> gotime \<Rightarrow> nset \<Rightarrow> nset" where
  "authenticatedCL_locked i network forkHash now s =
     (case lookup s i of
        None \<Rightarrow> s
      | Some cur \<Rightarrow>
          if n_Layer cur = ''cl'' \<and> n_Network cur = network \<and> \<not> now < n_ForkObservedAt cur
          then put i (authenticate forkHash 0 now cur) s else s)"

definition ObserveAuthenticatedEL ::
    "nsenv \<Rightarrow> enode \<Rightarrow> string \<Rightarrow> string \<Rightarrow> string \<Rightarrow> u64 \<Rightarrow> gotime \<Rightarrow> nset \<Rightarrow> Observation \<times> nset" where
  "ObserveAuthenticatedEL env n via network forkHash forkNext now s =
     (let (observed, s) = observe env n via now network ''el'' False False s
      in if \<not> o_Applied observed then (observed, s)
         else (observed, authenticatedEL_locked (en_ID n) network forkHash forkNext now s))"

definition ObserveAuthenticatedCL ::
    "nsenv \<Rightarrow> enode \<Rightarrow> string \<Rightarrow> string \<Rightarrow> gotime \<Rightarrow> nset \<Rightarrow> Observation \<times> nset" where
  "ObserveAuthenticatedCL env n network forkHash now s =
     (let (observed, s) = observe env n ''inbound'' now network ''cl'' False False s
      in if \<not> o_Applied observed then (observed, s)
         else (observed, authenticatedCL_locked (en_ID n) network forkHash now s))"

section \<open>Execution candidates\<close>

text \<open>A sighting of an endpoint already tracked.\<close>

definition candidate_seen :: "node \<Rightarrow> extracted \<Rightarrow> gotime \<Rightarrow> Observation \<times> node" where
  "candidate_seen cur e now =
     (let cur = cur\<lparr>n_LastSeen := now, n_LastCheck := now\<rparr>;
          cur = (if n_fpDone cur \<and> \<not> n_fpRefreshDue cur \<and>
                    (time_IsZero (n_fpAt cur) \<or> fpRefreshAge \<le> time_Sub now (n_fpAt cur))
                 then cur\<lparr>n_fpRefreshDue := True\<rparr> else cur);
          unsigned = (n_Seq cur = 0 \<and> n_ENR cur = []);
          recordChanged = fst (fingerprintRefreshReasons cur e now)
      in if \<not> isELCandidate cur
         then (accepted\<lparr>o_Changed := unsigned \<and> recordChanged\<rparr>, cur)
         else
           let cur = (if unsigned then
                        let cur = (if recordChanged \<and> n_fpInFlight cur
                                   then cur\<lparr>n_fpRefresh := True\<rparr> else cur);
                            cur = cur\<lparr>n_Enode := x_enode e\<rparr>
                        in apply_endpoint cur e
                      else cur)
           in (accepted\<lparr>o_Applied := True\<rparr>, cur))"

definition new_candidate :: "node_id \<Rightarrow> extracted \<Rightarrow> gotime \<Rightarrow> node" where
  "new_candidate i e now =
     apply_endpoint
       (zeroNode\<lparr>n_ID := i, n_FirstSeen := now, n_LastSeen := now, n_LastCheck := now,
                 n_Score := scoreInit, n_Layer := ''el'', n_Enode := x_enode e, n_Seq := x_seq e\<rparr>) e"

definition candidate_locked ::
    "node_id \<Rightarrow> extracted \<Rightarrow> gotime \<Rightarrow> int \<Rightarrow> nset \<Rightarrow> Observation \<times> nset" where
  "candidate_locked i e now lim s =
     (case lookup s i of
        Some cur \<Rightarrow> let (obs, cur) = candidate_seen cur e now in (obs, put i cur s)
      | None \<Rightarrow>
          if full s then (rejected ''capacity'', s)
          else if 0 < lim \<and> lim \<le> s_candidates s then (rejected ''candidate_cap'', s)
          else
            let cur = new_candidate i e now
            in if \<not> fingerprintable cur then (rejected ''no_address'', s)
               else
                 let s = put i cur s
                 in (accepted\<lparr>o_Applied := True, o_New := True\<rparr>,
                     s\<lparr>s_candidates := s_candidates s + 1\<rparr>))"

definition ObserveCandidateEL :: "nsenv \<Rightarrow> enode \<Rightarrow> gotime \<Rightarrow> int \<Rightarrow> nset \<Rightarrow> Observation \<times> nset" where
  "ObserveCandidateEL env n now lim s =
     (if addressReject env n \<noteq> [] then (rejected (addressReject env n), s)
      else
        let e = extractNode env n
        in if x_ip e = [] \<and> x_ip6 e = [] then (rejected ''no_address'', s)
           else candidate_locked (en_ID n) e now lim s)"

definition SetExecutionCandidateLayer :: "node_id \<Rightarrow> int \<Rightarrow> nset \<Rightarrow> bool \<times> nset" where
  "SetExecutionCandidateLayer i lim s =
     (case lookup s i of
        None \<Rightarrow> (False, s)
      | Some n \<Rightarrow>
          if n_Layer n \<noteq> [] then (False, s)
          else if 0 < lim \<and> lim \<le> s_candidates s \<and> n_Network n = [] then (False, s)
          else
            let n = n\<lparr>n_Layer := ''el''\<rparr>
            in if \<not> fingerprintable n then (False, put i (n\<lparr>n_Layer := []\<rparr>) s)
               else (True, trackCandidateLocked False (isELCandidate n) (put i n s)))"

definition SetCandidateClient :: "node_id \<Rightarrow> Fingerprint \<Rightarrow> string \<Rightarrow> nset \<Rightarrow> bool \<times> nset" where
  "SetCandidateClient i fp direction s =
     (case lookup s i of
        None \<Rightarrow> (False, s)
      | Some n \<Rightarrow>
          if \<not> isELCandidate n then (False, s)
          else (True, put i (n\<lparr>n_Client := fp_Client fp, n_ClientVersion := fp_Version fp,
                  n_OS := fp_OS fp, n_Lang := fp_Lang fp, n_Capabilities := fp_Caps fp,
                  n_FPDirection := direction\<rparr>) s))"

definition CountELCandidates :: "nset \<Rightarrow> int" where
  "CountELCandidates s = s_candidates s"

section \<open>Statistics\<close>

record FingerprintState =
  fs_Status :: string
  fs_Attempts :: int

record Stats =
  st_Len :: int
  st_Unclassified :: nat
  st_ELCandidates :: int
  st_Classes :: "nat list"
  st_Candidates :: "FingerprintState list"

definition stats_step :: "Stats \<Rightarrow> node \<Rightarrow> Stats" where
  "stats_step st n =
     (let c = capacityClass n;
          st = st\<lparr>st_Classes := (st_Classes st)[c := st_Classes st ! c + 1]\<rparr>;
          st = (if n_Network n = [] then st\<lparr>st_Unclassified := st_Unclassified st + 1\<rparr> else st)
      in if \<not> isELCandidate n then st
         else st\<lparr>st_Candidates := st_Candidates st @
                  [\<lparr>fs_Status = fpStatus n, fs_Attempts = int32 (int (rowAttempts n))\<rparr>]\<rparr>)"

definition Stats_of :: "nset \<Rightarrow> Stats" where
  "Stats_of s =
     foldl stats_step
       \<lparr>st_Len = Len s, st_Unclassified = 0, st_ELCandidates = s_candidates s,
        st_Classes = [0, 0, 0, 0], st_Candidates = []\<rparr>
       (map snd (s_m s))"

section \<open>Fingerprint probes\<close>

definition ClaimFingerprintInfo ::
    "node_id \<Rightarrow> gotime \<Rightarrow> nset \<Rightarrow> (FingerprintClaim \<times> bool) \<times> nset" where
  "ClaimFingerprintInfo i now s =
     (case lookup s i of
        None \<Rightarrow> ((\<lparr>fc_Layer = [], fc_Network = [], fc_IP = None\<rparr>, False), s)
      | Some n \<Rightarrow>
          if \<not> fingerprintDue n now
          then ((\<lparr>fc_Layer = [], fc_Network = [], fc_IP = None\<rparr>, False), s)
          else
            let n = n\<lparr>n_fpAttempts := n_fpAttempts n + 1, n_fpInFlight := True\<rparr>
            in ((\<lparr>fc_Layer = n_Layer n, fc_Network = n_Network n, fc_IP = dialIP n\<rparr>, True), put i n s))"

definition ClaimFingerprintAt :: "node_id \<Rightarrow> gotime \<Rightarrow> nset \<Rightarrow> bool \<times> nset" where
  "ClaimFingerprintAt i now s = (let ((_, ok), s) = ClaimFingerprintInfo i now s in (ok, s))"

record fingerprintCandidate =
  c_enr :: string
  c_enode :: string
  c_due :: gotime
  c_score :: int
  c_id :: node_id
  c_unpromoted :: bool

definition fingerprintCandidateBetter ::
    "fingerprintCandidate \<Rightarrow> fingerprintCandidate \<Rightarrow> bool" where
  "fingerprintCandidateBetter a b =
     (if c_due a \<noteq> c_due b then c_due a < c_due b
      else if c_score a \<noteq> c_score b then c_score b < c_score a
      else c_id a < c_id b)"

definition candidate_of :: "node \<Rightarrow> fingerprintCandidate" where
  "candidate_of n =
     \<lparr>c_enr = n_ENR n, c_enode = n_Enode n,
      c_due = (if time_IsZero (n_fpNext n) then n_FirstSeen n else n_fpNext n),
      c_score = n_Score n, c_id = n_ID n, c_unpromoted = isELCandidate n\<rparr>"

definition candidates_step ::
    "gotime \<Rightarrow> fingerprintCandidate topK \<times> fingerprintCandidate topK \<Rightarrow> node \<Rightarrow>
     fingerprintCandidate topK \<times> fingerprintCandidate topK" where
  "candidates_step now acc n =
     (let (selected, unpromoted) = acc; candidate = candidate_of n
      in if \<not> fingerprintDue n now then (selected, unpromoted)
         else if c_unpromoted candidate then (selected, offer unpromoted candidate)
         else (offer selected candidate, unpromoted))"

definition select_candidates :: "gotime \<Rightarrow> int \<Rightarrow> int \<Rightarrow> nset \<Rightarrow> fingerprintCandidate list" where
  "select_candidates now lim unpromotedLimit s =
     (let (selected, unpromoted) =
        foldl (candidates_step now)
          (newTopK lim fingerprintCandidateBetter, newTopK unpromotedLimit fingerprintCandidateBetter)
          (map snd (s_m s));
          raw = sort_Slice fingerprintCandidateBetter (items selected @ items unpromoted)
      in take (nat lim) raw)"

definition FingerprintCandidates ::
    "(string \<Rightarrow> enode option) \<Rightarrow> (string \<Rightarrow> enode option) \<Rightarrow>
     gotime \<Rightarrow> int \<Rightarrow> int \<Rightarrow> nset \<Rightarrow> enode list" where
  "FingerprintCandidates parse parseV4 now lim unpromotedLimit s =
     (if lim \<le> 0 then []
      else List.map_filter (\<lambda>c. nodeRecordToEnode parse parseV4 (c_enr c) (c_enode c))
             (select_candidates now lim unpromotedLimit s))"

definition CurrentNode ::
    "(string \<Rightarrow> enode option) \<Rightarrow> (string \<Rightarrow> enode option) \<Rightarrow> node_id \<Rightarrow> nset \<Rightarrow> enode option" where
  "CurrentNode parse parseV4 i s =
     (case lookup s i of
        None \<Rightarrow> None
      | Some n \<Rightarrow> nodeRecordToEnode parse parseV4 (n_ENR n) (n_Enode n))"

definition LayerOf :: "node_id \<Rightarrow> nset \<Rightarrow> string" where
  "LayerOf i s = (case lookup s i of None \<Rightarrow> [] | Some n \<Rightarrow> n_Layer n)"

definition NetworkOf :: "node_id \<Rightarrow> nset \<Rightarrow> string" where
  "NetworkOf i s = (case lookup s i of None \<Rightarrow> [] | Some n \<Rightarrow> n_Network n)"

definition IPOf :: "node_id \<Rightarrow> nset \<Rightarrow> net_IP option" where
  "IPOf i s = (case lookup s i of None \<Rightarrow> None | Some n \<Rightarrow> dialIP n)"

definition UnclaimFingerprint :: "node_id \<Rightarrow> nset \<Rightarrow> nset" where
  "UnclaimFingerprint i s =
     (case lookup s i of
        None \<Rightarrow> s
      | Some n \<Rightarrow>
          if n_fpInFlight n then
            let n = n\<lparr>n_fpAttempts := n_fpAttempts n - 1, n_fpInFlight := False\<rparr>;
                n = (if n_fpRefresh n then n\<lparr>n_fpAttempts := 0, n_fpRefresh := False\<rparr> else n)
            in put i n s
          else s)"

definition FingerprintFailed :: "node_id \<Rightarrow> gotime \<Rightarrow> nset \<Rightarrow> FingerprintRetry \<times> nset" where
  "FingerprintFailed i now s =
     (case lookup s i of
        None \<Rightarrow> (zeroRetry, s)
      | Some n \<Rightarrow>
          let refresh = (n_fpDone n \<and> n_fpRefreshDue n);
              n = n\<lparr>n_fpInFlight := False\<rparr>
          in if n_fpDone n \<and> \<not> n_fpRefreshDue n
             then (zeroRetry, put i (n\<lparr>n_fpRefresh := False\<rparr>) s)
             else if n_fpRefresh n
             then (zeroRetry\<lparr>fr_Refresh := refresh\<rparr>,
                   put i (n\<lparr>n_fpAttempts := 0, n_fpRefresh := False, n_fpNext := time_zero\<rparr>) s)
             else
               let n = n\<lparr>n_fpNext := time_Add now (fingerprintRetryDelay i (n_fpAttempts n))\<rparr>
               in (\<lparr>fr_Attempts = n_fpAttempts n, fr_RetryAt = n_fpNext n,
                    fr_BecameFailed = (n_fpAttempts n = fpFailedAfter), fr_Refresh = refresh\<rparr>,
                   put i n s))"

definition setFingerprint ::
    "node_id \<Rightarrow> string \<Rightarrow> Fingerprint \<Rightarrow> string \<Rightarrow> bool \<Rightarrow> gotime \<Rightarrow> nset \<Rightarrow> (nat \<times> bool) \<times> nset" where
  "setFingerprint i layer fp direction claimed now s =
     (case lookup s i of
        None \<Rightarrow> ((0, False), s)
      | Some n \<Rightarrow>
          if n_Layer n \<noteq> layer \<and> \<not> claimed then ((0, False), s)
          else if claimed \<and> (n_fpRefresh n \<or> n_Layer n \<noteq> layer)
          then ((0, False),
                put i (n\<lparr>n_fpAttempts := 0, n_fpInFlight := False, n_fpRefresh := False,
                         n_fpNext := time_zero\<rparr>) s)
          else
            let failures = (if n_fpInFlight n \<and> 0 < n_fpAttempts n then n_fpAttempts n - 1
                            else n_fpAttempts n);
                n = n\<lparr>n_Client := fp_Client fp, n_ClientVersion := fp_Version fp, n_OS := fp_OS fp,
                      n_Lang := fp_Lang fp, n_Capabilities := fp_Caps fp, n_FPDirection := direction\<rparr>;
                n = (if claimed then n\<lparr>n_fpInFlight := False\<rparr> else n);
                n = n\<lparr>n_fpDone := True, n_fpRefreshDue := False, n_fpAt := now,
                      n_LastResolved := now, n_fpAttempts := 0, n_fpNext := time_zero\<rparr>
            in ((failures, True), put i n s))"

definition SetFingerprintAt ::
    "node_id \<Rightarrow> string \<Rightarrow> Fingerprint \<Rightarrow> string \<Rightarrow> gotime \<Rightarrow> nset \<Rightarrow> nat \<times> nset" where
  "SetFingerprintAt i layer fp direction now s =
     (let ((failures, _), s) = setFingerprint i layer fp direction False now s in (failures, s))"

definition SetClaimedFingerprintAt ::
    "node_id \<Rightarrow> string \<Rightarrow> Fingerprint \<Rightarrow> string \<Rightarrow> gotime \<Rightarrow> nset \<Rightarrow> (nat \<times> bool) \<times> nset" where
  "SetClaimedFingerprintAt i layer fp direction now = setFingerprint i layer fp direction True now"

section \<open>Status, geolocation, decay\<close>

definition SetExecutionStatusAt ::
    "node_id \<Rightarrow> string \<Rightarrow> forkid \<Rightarrow> gotime \<Rightarrow> nset \<Rightarrow> bool \<times> nset" where
  "SetExecutionStatusAt i network fork now s =
     (case lookup s i of
        None \<Rightarrow> (False, s)
      | Some n \<Rightarrow>
          if n_Layer n \<noteq> ''el'' \<or> network = [] then (False, s)
          else
            let n = creditStatusSightingLocked n network now;
                s = trackCandidateLocked (isELCandidate n) False s;
                n = clearHeadOnNetworkChangeLocked n network;
                n = n\<lparr>n_Network := network, n_ForkHash := hex_EncodeToString (fid_Hash fork),
                      n_ForkNext := fid_Next fork, n_MembershipSource := ''status'',
                      n_MembershipVerifiedAt := now, n_ForkSource := ''status'',
                      n_ForkObservedAt := now, n_LastResolved := now\<rparr>
            in (True, put i n s))"

definition SetHead :: "node_id \<Rightarrow> string \<Rightarrow> string \<Rightarrow> u64 \<Rightarrow> gotime \<Rightarrow> nset \<Rightarrow> nset" where
  "SetHead i layer network head observedAt s =
     (case lookup s i of
        None \<Rightarrow> s
      | Some n \<Rightarrow>
          if n_Layer n \<noteq> layer \<or> n_Network n \<noteq> network then s
          else
            let n = n\<lparr>n_Head := head, n_HeadObservedAt := time_zero\<rparr>;
                n = (if 0 < head then n\<lparr>n_HeadObservedAt := observedAt\<rparr> else n)
            in put i n s)"

definition SetConsensusStatus :: "node_id \<Rightarrow> string \<Rightarrow> string \<Rightarrow> gotime \<Rightarrow> nset \<Rightarrow> bool \<times> nset" where
  "SetConsensusStatus i network forkHash now s =
     (case lookup s i of
        None \<Rightarrow> (False, s)
      | Some n \<Rightarrow>
          if n_Layer n \<noteq> ''cl'' \<or> network = [] then (False, s)
          else
            let n = creditStatusSightingLocked n network now;
                n = clearHeadOnNetworkChangeLocked n network;
                n = n\<lparr>n_Network := network\<rparr>;
                n = (if forkHash \<noteq> [] then n\<lparr>n_ForkHash := forkHash\<rparr> else n);
                n = n\<lparr>n_MembershipSource := ''status'', n_MembershipVerifiedAt := now,
                      n_ForkSource := ''status'', n_ForkObservedAt := now, n_LastResolved := now\<rparr>
            in (True, put i n s))"

record geo =
  g_country :: string
  g_city :: string
  g_subdivision :: string
  g_lat :: u64
  g_lon :: u64
  g_asn :: u64
  g_org :: string
  g_hosting :: bool
  g_hostingKnown :: bool
  g_geolocated :: bool
  g_accuracyRadiusKM :: u16

definition SetGeo :: "node_id \<Rightarrow> net_IP \<Rightarrow> geo \<Rightarrow> nset \<Rightarrow> nset" where
  "SetGeo i lookedUp g s =
     (case lookup s i of
        None \<Rightarrow> s
      | Some n \<Rightarrow>
          if \<not> geoAddrIs n lookedUp then s
          else
            let n = (if g_geolocated g
                     then n\<lparr>n_Country := g_country g, n_City := g_city g,
                            n_Subdivision := g_subdivision g, n_Lat := g_lat g, n_Lon := g_lon g,
                            n_Geolocated := True, n_GeoAccuracyRadiusKM := g_accuracyRadiusKM g\<rparr>
                     else n);
                n = (if g_asn g \<noteq> 0 \<or> g_org g \<noteq> []
                     then n\<lparr>n_ASN := g_asn g, n_Org := g_org g, n_Hosting := g_hosting g,
                            n_HostingKnown := g_hostingKnown g\<rparr>
                     else n)
            in put i n s)"

definition Penalize :: "node_id \<Rightarrow> gotime \<Rightarrow> nset \<Rightarrow> nset" where
  "Penalize i now s =
     (case lookup s i of
        None \<Rightarrow> s
      | Some cur \<Rightarrow>
          let cur = cur\<lparr>n_LastCheck := now\<rparr>
          in if n_pinned cur then put i cur s
             else
               let (del, cur) = penalizeLocked cur; s = put i cur s
               in if del then deleteLocked i s else s)"

definition prune_stale :: "gotime \<Rightarrow> gotime \<Rightarrow> node \<Rightarrow> bool" where
  "prune_stale cutoff verifiedCutoff n =
     (let stale = (if n_fpDone n
                   then \<not> time_IsZero verifiedCutoff \<and>
                        (time_IsZero (n_LastResolved n) \<or> n_LastResolved n < verifiedCutoff)
                   else n_LastSeen n < cutoff)
      in \<not> n_pinned n \<and> stale)"

definition prune_step :: "gotime \<Rightarrow> gotime \<Rightarrow> nat \<times> nset \<Rightarrow> node_id \<times> node \<Rightarrow> nat \<times> nset" where
  "prune_step cutoff verifiedCutoff acc entry =
     (let (removed, s) = acc; (i, n) = entry
      in if prune_stale cutoff verifiedCutoff n then (removed + 1, deleteLocked i s)
         else (removed, s))"

definition PruneStaleWithVerified :: "gotime \<Rightarrow> gotime \<Rightarrow> nset \<Rightarrow> nat \<times> nset" where
  "PruneStaleWithVerified cutoff verifiedCutoff s =
     foldl (prune_step cutoff verifiedCutoff) (0, s) (s_m s)"

section \<open>Snapshots\<close>

definition rows :: "string \<Rightarrow> nset \<Rightarrow> Row list" where
  "rows network s =
     map row (filter (\<lambda>n. network = [] \<or> n_Network n = network) (map snd (s_m s)))"

definition ParquetForNetwork :: "(Row list \<Rightarrow> 'b) \<Rightarrow> string \<Rightarrow> nset \<Rightarrow> 'b" where
  "ParquetForNetwork parquetFromRows network s =
     parquetFromRows
       (map row (filter (\<lambda>n. (network = [] \<or> n_Network n = network) \<and> snapshotEligible n)
                   (map snd (s_m s))))"

definition snapshot_step ::
    "string list \<Rightarrow> (string, Row list) gomap \<Rightarrow> node \<Rightarrow> (string, Row list) gomap" where
  "snapshot_step networks byNet n =
     (if n_Network n \<in> set networks \<and> snapshotEligible n
      then AList.update (n_Network n)
             ((case map_of byNet (n_Network n) of None \<Rightarrow> [] | Some rs \<Rightarrow> rs) @ [row n]) byNet
      else byNet)"

definition SnapshotNetworks :: "string list \<Rightarrow> nset \<Rightarrow> (string, Row list) gomap" where
  "SnapshotNetworks networks s = foldl (snapshot_step networks) [] (map snd (s_m s))"

definition ingest_row :: "nsenv \<Rightarrow> (nat \<times> nat) \<times> nset \<Rightarrow> Row \<Rightarrow> (nat \<times> nat) \<times> nset" where
  "ingest_row env acc r =
     (let ((dropped, evicted), s) = acc
      in case hex_DecodeString (r_ID r) of
           None \<Rightarrow> ((dropped + 1, evicted), s)
         | Some i \<Rightarrow>
             if length i \<noteq> 32 then ((dropped + 1, evicted), s)
             else if \<not> rowAddressesUsable env r then ((dropped + 1, evicted), s)
             else
               let candidate = candidateOfRow i r;
                   ((k, _), s') = (if lookup s i = None \<and> full s
                                   then evictForLocked (capacityClass candidate) s else ((0, []), s))
               in if lookup s i = None \<and> full s \<and> k = 0 then ((dropped + 1, evicted), s')
                  else
                    let was = (case lookup s' i of None \<Rightarrow> False | Some prev \<Rightarrow> isELCandidate prev);
                        s'' = trackCandidateLocked was (isELCandidate candidate) s'
                    in ((dropped, evicted + k), put i candidate s''))"

definition Ingest :: "nsenv \<Rightarrow> Row list \<Rightarrow> nset \<Rightarrow> (nat \<times> nat) \<times> nset" where
  "Ingest env rs s = foldl (ingest_row env) ((0, 0), s) rs"

end
