(* ===== verification/NodeSetInv.thy ===== *)
theory NodeSetInv
  imports NodeSet
begin

text \<open>
  The tracked set keeps its invariant under every interleaving of its operations.

  \<open>effect\<close> is the abstract specification of what one critical section may do to the set: remove
  unpinned nodes, let one tracked node evolve, or add one node where there is room, each with
  the candidate counter kept in step. Every critical section of \<open>NodeSet\<close> refines it (the
  \<open>_refines\<close> lemmas here and in \<open>NodeSetSteps\<close>). The invariant \<open>nset_ok\<close> and the history
  properties (no pinned node is lost, a sequence number never goes back, a classification is
  never lost) are proved for \<open>effect\<close> once and transferred.
\<close>

section \<open>The invariant\<close>

definition layers :: "string list" where
  "layers = [[], ''el'', ''cl'']"

definition node_ok :: "node \<Rightarrow> bool" where
  "node_ok n \<longleftrightarrow>
     length (n_ID n) = 32 \<and> 0 \<le> n_Score n \<and> n_Score n \<le> scoreCap \<and>
     (n_Head n = 0 \<longrightarrow> n_HeadObservedAt n = time_zero) \<and>
     (n_fpRefresh n \<longrightarrow> n_fpInFlight n) \<and> (n_fpRefreshDue n \<longrightarrow> n_fpDone n) \<and>
     n_Layer n \<in> set layers"

definition nset_ok :: "nset \<Rightarrow> bool" where
  "nset_ok s \<longleftrightarrow>
     gomap_ok (s_m s) \<and>
     (\<forall>(i, n) \<in> set (s_m s). n_ID n = i \<and> node_ok n) \<and>
     s_candidates s = int (count_vals isELCandidate (s_m s)) \<and>
     (0 < s_max s \<longrightarrow> Len s \<le> s_max s)"

text \<open>
  The part of the invariant that says nothing of the contents of a node: it also survives the
  restoring of rows that no check has looked at.
\<close>

definition nset_shape :: "nset \<Rightarrow> bool" where
  "nset_shape s \<longleftrightarrow>
     gomap_ok (s_m s) \<and>
     (\<forall>(i, n) \<in> set (s_m s). n_ID n = i \<and> length i = 32) \<and>
     s_candidates s = int (count_vals isELCandidate (s_m s)) \<and>
     (0 < s_max s \<longrightarrow> Len s \<le> s_max s)"

text \<open>
  What one update may do to a tracked node: it keeps its identity, first sighting, pin and
  classification, never goes back to an older record, never forgets a discovery protocol it was
  seen on, and drops the head whenever the network or the layer the head belongs to changes.
\<close>

definition evolves :: "node \<Rightarrow> node \<Rightarrow> bool" where
  "evolves n n' \<longleftrightarrow>
     n_ID n' = n_ID n \<and> n_FirstSeen n' = n_FirstSeen n \<and>
     (n_pinned n \<longrightarrow> n_pinned n') \<and> n_Seq n \<le> n_Seq n' \<and>
     (n_HasV4 n \<longrightarrow> n_HasV4 n') \<and> (n_HasV5 n \<longrightarrow> n_HasV5 n') \<and>
     (n_Network n \<noteq> [] \<longrightarrow> n_Network n' \<noteq> []) \<and> (n_Layer n \<noteq> [] \<longrightarrow> n_Layer n' \<noteq> []) \<and>
     (n_Network n' \<noteq> n_Network n \<longrightarrow> n_Head n' = 0) \<and>
     (n_Layer n \<noteq> [] \<and> n_Layer n' \<noteq> n_Layer n \<longrightarrow> n_Head n' = 0) \<and>
     (node_ok n \<longrightarrow> node_ok n')"

text \<open>
  The effect of one critical section: unpinned nodes are removed, or one tracked node evolves, or
  unpinned nodes are removed and one new node is added where there is room.
\<close>

inductive removal :: "nset \<Rightarrow> nset \<Rightarrow> bool" where
  removalI: "lookup s i = Some n \<Longrightarrow> \<not> n_pinned n \<Longrightarrow> removal s (deleteLocked i s)"

inductive effect :: "nset \<Rightarrow> nset \<Rightarrow> bool" where
  eff_remove: "removal\<^sup>*\<^sup>* s t \<Longrightarrow> effect s t"
| eff_update: "lookup s i = Some n \<Longrightarrow> evolves n n' \<Longrightarrow>
     effect s (trackCandidateLocked (isELCandidate n) (isELCandidate n') (put i n' s))"
| eff_insert: "removal\<^sup>*\<^sup>* s t \<Longrightarrow> lookup s i = None \<Longrightarrow> \<not> full t \<Longrightarrow> n_ID n = i \<Longrightarrow> node_ok n \<Longrightarrow>
     effect s (trackCandidateLocked False (isELCandidate n) (put i n t))"

inductive_simps removal_simps: "removal s t"
inductive_cases effectE: "effect s s'"

section \<open>The state after one write\<close>

lemma put_simps [simp]:
  "s_max (put i n s) = s_max s" "s_candidates (put i n s) = s_candidates s"
  "s_m (put i n s) = AList.update i n (s_m s)"
  by (simp_all add: put_def)

lemma track_simps [simp]:
  "s_max (trackCandidateLocked w v s) = s_max s" "s_m (trackCandidateLocked w v s) = s_m s"
  "s_candidates (trackCandidateLocked w v s) = s_candidates s + of_bool v - of_bool w"
  by (simp_all add: trackCandidateLocked_def)

lemma track_same [simp]: "trackCandidateLocked b b s = s"
  by (simp add: trackCandidateLocked_def)

lemma lookup_simps [simp]:
  "lookup (put i n s) j = (if j = i then Some n else lookup s j)"
  "lookup (trackCandidateLocked w v s) j = lookup s j"
  "lookup (s\<lparr>s_candidates := c\<rparr>) j = lookup s j"
  by (simp_all add: lookup_def map_of_update)

lemma put_put [simp]: "put i a (put i b s) = put i a s"
proof -
  have "AList.update i a (AList.update i b m) = AList.update i a m" for m :: "(node_id, node) gomap"
    by (induction m) auto
  then show ?thesis by (simp add: put_def)
qed

lemma track_put: "trackCandidateLocked w v (put i n s) = put i n (trackCandidateLocked w v s)"
  by (simp add: trackCandidateLocked_def put_def)

lemma put_lookup: "lookup s i = Some n \<Longrightarrow> put i n s = s"
proof -
  have "map_of m i = Some n \<Longrightarrow> AList.update i n m = m" for m :: "(node_id, node) gomap"
    by (induction m) auto
  then show "lookup s i = Some n \<Longrightarrow> put i n s = s" by (simp add: put_def lookup_def)
qed

lemma lookup_delete [simp]:
  "lookup (deleteLocked i s) j = (if j = i then None else lookup s j)"
  by (auto simp: deleteLocked_def lookup_def map_of_delete split: option.splits)

lemma delete_frame [simp]: "s_max (deleteLocked i s) = s_max s"
  by (auto simp: deleteLocked_def split: option.splits)

lemma delete_put: "deleteLocked i (put i n' s) = deleteLocked i s"
  if "lookup s i = Some n" "isELCandidate n' = isELCandidate n"
proof -
  have "AList.delete i (AList.update i n' m) = AList.delete i m" for m :: "(node_id, node) gomap"
    by (induction m) auto
  with that show ?thesis by (simp add: deleteLocked_def put_def trackCandidateLocked_def lookup_def map_of_update)
qed

lemma node_in_set: "gomap_ok (s_m s) \<Longrightarrow> (i, n) \<in> set (s_m s) \<longleftrightarrow> lookup s i = Some n"
  by (simp add: lookup_def gomap_in_set_iff)

lemma nset_shapeI:
  assumes "gomap_ok (s_m s)" and "\<And>i n. lookup s i = Some n \<Longrightarrow> n_ID n = i \<and> length i = 32"
    and "s_candidates s = int (count_vals isELCandidate (s_m s))"
    and "0 < s_max s \<Longrightarrow> Len s \<le> s_max s"
  shows "nset_shape s"
  using assms by (auto simp: nset_shape_def node_in_set)

lemma nset_shapeD:
  assumes "nset_shape s"
  shows "gomap_ok (s_m s)" and "lookup s i = Some n \<Longrightarrow> n_ID n = i" and "lookup s i = Some n \<Longrightarrow> length i = 32"
    and "s_candidates s = int (count_vals isELCandidate (s_m s))" and "0 < s_max s \<Longrightarrow> Len s \<le> s_max s"
  using assms node_in_set [of s i n] by (auto simp: nset_shape_def)

lemma nset_ok_iff: "nset_ok s \<longleftrightarrow> nset_shape s \<and> (\<forall>i n. lookup s i = Some n \<longrightarrow> node_ok n)"
proof (cases "gomap_ok (s_m s)")
  case True
  then show ?thesis using node_in_set [OF True] by (fastforce simp: nset_ok_def nset_shape_def node_ok_def)
qed (simp add: nset_ok_def nset_shape_def)

lemma nset_ok_shape: "nset_ok s \<Longrightarrow> nset_shape s"
  by (simp add: nset_ok_iff)

lemma nset_okD:
  assumes "nset_ok s"
  shows "gomap_ok (s_m s)" and "lookup s i = Some n \<Longrightarrow> n_ID n = i" and "lookup s i = Some n \<Longrightarrow> node_ok n"
    and "s_candidates s = int (count_vals isELCandidate (s_m s))" and "0 < s_max s \<Longrightarrow> Len s \<le> s_max s"
  using assms nset_shapeD [of s] by (auto simp: nset_ok_iff)

lemma nset_shape_delete [inv_intros]: "nset_shape s \<Longrightarrow> nset_shape (deleteLocked i s)"
proof (rule nset_shapeI)
  assume ok: "nset_shape s"
  note d = nset_shapeD [OF ok]
  show "gomap_ok (s_m (deleteLocked i s))"
    using d(1) by (auto simp: deleteLocked_def split: option.splits)
  show "n_ID n = j \<and> length j = 32" if "lookup (deleteLocked i s) j = Some n" for j n
    using that d by (auto split: if_splits)
  show "s_candidates (deleteLocked i s) = int (count_vals isELCandidate (s_m (deleteLocked i s)))"
    using d(1,4) by (auto simp: deleteLocked_def lookup_def count_vals_delete split: option.splits)
  show "Len (deleteLocked i s) \<le> s_max (deleteLocked i s)" if "0 < s_max (deleteLocked i s)"
    using that d(1,5)
    by (auto simp: deleteLocked_def Len_def lookup_def length_gomap_delete split: option.splits)
qed

lemma nset_ok_delete [inv_intros]: "nset_ok s \<Longrightarrow> nset_ok (deleteLocked i s)"
  by (auto simp: nset_ok_iff nset_shape_delete split: if_splits)

lemma Len_put: "Len (put i n s) = (if lookup s i = None then Len s + 1 else Len s)"
  by (simp add: Len_def lookup_def length_gomap_update)

lemma nset_shape_put:
  assumes ok: "nset_shape s" and n: "n_ID n = i" "length i = 32"
    and room: "lookup s i = None \<Longrightarrow> \<not> full s"
    and was: "was = (case lookup s i of None \<Rightarrow> False | Some c \<Rightarrow> isELCandidate c)"
  shows "nset_shape (trackCandidateLocked was (isELCandidate n) (put i n s))" (is "nset_shape ?s")
proof (rule nset_shapeI)
  note d = nset_shapeD [OF ok]
  show "gomap_ok (s_m ?s)" using d(1) by auto
  show "n_ID c = j \<and> length j = 32" if "lookup ?s j = Some c" for j c
    using that n d by (auto split: if_splits)
  show "s_candidates ?s = int (count_vals isELCandidate (s_m ?s))"
    using d(4) was by (auto simp: count_vals_update lookup_def split: option.splits)
  show "Len ?s \<le> s_max ?s" if "0 < s_max ?s"
    using that d(5) room Len_put [of i n s] by (auto simp: full_def Len_def split: if_splits)
qed

section \<open>Effects keep the invariant\<close>

lemma evolves_refl [simp]: "evolves n n"
  by (simp add: evolves_def)

lemma removals_shape: "removal\<^sup>*\<^sup>* s t \<Longrightarrow> nset_shape s \<Longrightarrow> nset_shape t"
  by (induction rule: rtranclp_induct) (auto simp: removal_simps intro: nset_shape_delete)

lemma removals_max: "removal\<^sup>*\<^sup>* s t \<Longrightarrow> s_max t = s_max s"
  by (induction rule: rtranclp_induct) (auto simp: removal_simps)

lemma removals_lookup: "removal\<^sup>*\<^sup>* s t \<Longrightarrow> lookup t i = Some n \<Longrightarrow> lookup s i = Some n"
  by (induction rule: rtranclp_induct) (auto simp: removal_simps split: if_splits)

lemma removals_pinned: "removal\<^sup>*\<^sup>* s t \<Longrightarrow> lookup s i = Some n \<Longrightarrow> n_pinned n \<Longrightarrow> lookup t i = Some n"
  by (induction rule: rtranclp_induct) (auto simp: removal_simps)

lemma effect_refl [simp]: "effect s s"
  by (simp add: eff_remove)

lemma effect_shape: "effect s s' \<Longrightarrow> nset_shape s \<Longrightarrow> nset_shape s'"
proof (induction rule: effect.induct)
  case (eff_update s i n n')
  then have "n_ID n' = i" "length i = 32" by (auto simp: evolves_def nset_shapeD)
  with eff_update show ?case by (intro nset_shape_put) auto
next
  case (eff_insert s t i n)
  then have "lookup t i = None" using removals_lookup [of s t i] by (cases "lookup t i") auto
  with eff_insert show ?case by (intro nset_shape_put) (auto simp: node_ok_def intro: removals_shape)
qed (rule removals_shape)

lemma effect_nodes:
  "effect s s' \<Longrightarrow> lookup s' i = Some n \<Longrightarrow> node_ok n \<or> (\<exists>m. lookup s i = Some m \<and> (node_ok m \<longrightarrow> node_ok n))"
  by (induction rule: effect.induct) (auto simp: evolves_def dest: removals_lookup split: if_splits)

lemma effect_ok: "effect s s' \<Longrightarrow> nset_ok s \<Longrightarrow> nset_ok s'"
  using effect_shape [of s s'] effect_nodes [of s s'] unfolding nset_ok_iff by blast

lemma effect_max: "effect s s' \<Longrightarrow> s_max s' = s_max s"
  by (induction rule: effect.induct) (auto dest: removals_max)

lemma effect_pinned:
  assumes "effect s s'" "lookup s i = Some n" "n_pinned n"
  shows "\<exists>n'. lookup s' i = Some n' \<and> n_pinned n'"
  using assms
  by (induction rule: effect.induct) (auto simp: evolves_def dest: removals_pinned)

text \<open>A node tracked before and after a section is the same, or evolved.\<close>

lemma effect_evolves:
  assumes "effect s s'" and "lookup s i = Some n" and "lookup s' i = Some n'"
  shows "evolves n n'"
  using assms(1)
proof cases
  case (eff_update j c c')
  with assms(2,3) show ?thesis by (cases "i = j") auto
next
  case eff_remove
  with assms(2,3) show ?thesis using removals_lookup [of s s' i n'] by simp
next
  case (eff_insert t j c)
  with assms(2,3) show ?thesis using removals_lookup [of s t i n'] by (auto split: if_splits)
qed

section \<open>How the node-level functions evolve a node\<close>

text \<open>An evolution that sets no new head; unlike \<open>evolves\<close> it composes.\<close>

definition revises :: "node \<Rightarrow> node \<Rightarrow> bool" where
  "revises n n' \<longleftrightarrow> evolves n n' \<and> (n_Head n' = n_Head n \<or> n_Head n' = 0)"

lemma revises_refl [simp]: "revises n n"
  by (simp add: revises_def)

lemma revises_trans [trans]: "revises a b \<Longrightarrow> revises b c \<Longrightarrow> revises a c"
  unfolding revises_def evolves_def by (intro conjI; (elim conjE)?; force)

lemma revises_evolves: "revises n n' \<Longrightarrow> evolves n n'"
  by (simp add: revises_def)

lemma score_consts [simp]: "scoreCap = 10" "scoreInit = 1" "dropBelow = 0" "penaltyStep = 2"
  by (simp_all add: scoreCap_def scoreInit_def dropBelow_def penaltyStep_def)

lemma sdiv_two: "0 \<le> (x :: int) \<Longrightarrow> x sdiv 2 = x div 2"
  by (cases "x = 0") (auto simp: signed_divide_int_def)

lemma revises_score: "(node_ok n \<Longrightarrow> 0 \<le> x \<and> x \<le> 10) \<Longrightarrow> revises n (n\<lparr>n_Score := x\<rparr>)"
  by (simp add: revises_def evolves_def node_ok_def)

lemma penalize_revises:
  assumes "penalizeLocked n = (False, n')"
  shows "revises n n'"
proof (cases "0 < n_Score n sdiv 2 - 2")
  case True
  then have "n' = n\<lparr>n_Score := n_Score n sdiv 2 - 2\<rparr>"
    using assms by (simp add: penalizeLocked_def Let_def)
  moreover have "n_Score n sdiv 2 - 2 \<le> 10" if "node_ok n"
    using that sdiv_two [of "n_Score n"] unfolding node_ok_def score_consts by linarith
  ultimately show ?thesis using True by (simp add: revises_score)
next
  case False
  then have "n' = n\<lparr>n_Score := 0\<rparr>"
    using assms by (simp add: penalizeLocked_def Let_def split: if_split_asm)
  then show ?thesis by (simp add: revises_score)
qed

lemma penalize_class:
  assumes "penalizeLocked n = (d, n')"
  shows "isELCandidate n' = isELCandidate n" "n_ID n' = n_ID n" "n_Seq n' = n_Seq n"
  using assms by (auto simp: penalizeLocked_def Let_def isELCandidate_def split: if_splits)

lemma touch_del:
  assumes "touchObservationLocked n via now ex fr pin = (True, n')"
  shows "ex" "fr" "\<not> n_pinned n" "isELCandidate n' = isELCandidate n"
  using assms
  by (auto simp: touchObservationLocked_def penalize_class Let_def split: if_splits prod.splits)

lemma touch_keep:
  assumes "touchObservationLocked n via now ex fr pin = (False, n')"
  shows touch_revises: "revises n n'" and touch_class: "isELCandidate n' = isELCandidate n"
    and touch_seq: "n_Seq n' = n_Seq n"
proof -
  obtain d n1 where n1: "(if ex \<and> fr \<and> \<not> n_pinned n then penalizeLocked n
         else if ex \<and> \<not> fr \<and> n_Score n < scoreCap then (False, n\<lparr>n_Score := n_Score n + 1\<rparr>)
         else (False, n)) = (d, n1)" by (metis surj_pair)
  with assms have d: "\<not> d" by (auto simp: touchObservationLocked_def split: if_splits)
  have 1: "revises n n1"
    using n1 d by (auto simp: revises_def evolves_def node_ok_def
        dest: penalize_revises split: if_splits)
  have c: "isELCandidate n1 = isELCandidate n" "n_Seq n1 = n_Seq n"
    using n1 by (auto simp: isELCandidate_def dest: penalize_class split: if_splits)
  have "n' = (let cur = (if pin then n1\<lparr>n_Score := scoreCap, n_pinned := True\<rparr> else n1);
               cur = cur\<lparr>n_LastSeen := now, n_LastCheck := now\<rparr>;
               cur = (if \<not> fr \<and> (via = ''v4'' \<or> via = ''v5'')
                      then cur\<lparr>n_LastResolved := now\<rparr> else cur)
             in (if via = ''v4'' then cur\<lparr>n_HasV4 := True\<rparr>
                      else if via = ''v5'' then cur\<lparr>n_HasV5 := True\<rparr> else cur))"
    using assms n1 d by (simp add: touchObservationLocked_def Let_def)
  then have 2: "revises n1 n'" "isELCandidate n' = isELCandidate n1" "n_Seq n' = n_Seq n1"
    by (simp_all add: revises_def evolves_def node_ok_def isELCandidate_def Let_def)
  show "revises n n'" using 1 2(1) by (rule revises_trans)
  show "isELCandidate n' = isELCandidate n" "n_Seq n' = n_Seq n" using c 2 by auto
qed

lemma clearFingerprint_revises: "revises n (clearFingerprintLocked n)"
  by (simp add: clearFingerprintLocked_def revises_def evolves_def node_ok_def Let_def)

lemma refresh_on_change_revises: "revises n (refresh_on_change n e now)"
  by (simp add: refresh_on_change_def revises_def evolves_def node_ok_def Let_def split: prod.splits)

lemma apply_endpoint_revises: "revises n (apply_endpoint n e)"
  by (simp add: apply_endpoint_def revises_def evolves_def node_ok_def)

lemma apply_fork_revises: "revises n (apply_fork n e now b)"
  by (simp add: apply_fork_def revises_def evolves_def node_ok_def)

lemma apply_network_revises: "revises n (apply_network n e)"
  by (simp add: apply_network_def revises_def evolves_def node_ok_def Let_def)

lemma apply_layer_revises: "x_layer e \<in> {''el'', ''cl'', ''unknown''} \<Longrightarrow> revises n (apply_layer n e)"
  by (auto simp: apply_layer_def revises_def evolves_def node_ok_def layers_def
      clearFingerprintLocked_def Let_def)

lemma apply_client_revises: "revises n (apply_client n e)"
  by (simp add: apply_client_def revises_def evolves_def node_ok_def)

lemma apply_seq: "n_Seq (apply_endpoint n e) = n_Seq n" "n_Seq (refresh_on_change n e now) = n_Seq n"
  by (simp_all add: apply_endpoint_def refresh_on_change_def Let_def split: prod.splits)

lemma apply_record_revises:
  assumes "x_layer e \<in> {''el'', ''cl'', ''unknown''}" and "n_Seq n \<le> x_seq e"
  shows "revises n (apply_record n e now ok)"
proof -
  let ?n1 = "if ok then refresh_on_change n e now else n"
  let ?n2 = "?n1\<lparr>n_Enode := x_enode e, n_ENR := x_enr e, n_Seq := x_seq e\<rparr>"
  let ?n3 = "apply_endpoint ?n2 e"
  let ?n4 = "?n3\<lparr>n_CGC := x_cgc e, n_CGCKnown := x_cgcKnown e, n_ENRSchedule := x_schedule e\<rparr>"
  have "revises n ?n1" by (simp add: refresh_on_change_revises)
  also have "revises ?n1 ?n2"
    using assms(2) by (simp add: revises_def evolves_def node_ok_def apply_seq)
  also have "revises ?n2 ?n3" by (rule apply_endpoint_revises)
  also have "revises ?n3 ?n4" by (simp add: revises_def evolves_def node_ok_def)
  also have "revises ?n4 (apply_record n e now ok)"
    unfolding apply_record_def Let_def
    by (meson assms(1) apply_fork_revises apply_network_revises apply_layer_revises
        apply_client_revises revises_trans)
  finally show ?thesis .
qed

lemma authenticate_evolves: "evolves n (authenticate fh fn now n)"
  by (simp add: authenticate_def evolves_def node_ok_def Let_def)

lemma authenticate_class: "isELCandidate (authenticate fh fn now n) = isELCandidate n"
  by (simp add: authenticate_def isELCandidate_def Let_def)

lemma candidate_seen_revises: "revises n (snd (candidate_seen n e now))"
  by (simp add: candidate_seen_def apply_endpoint_def revises_def evolves_def node_ok_def Let_def)

lemma candidate_seen_class: "isELCandidate (snd (candidate_seen n e now)) = isELCandidate n"
  by (simp add: candidate_seen_def apply_endpoint_def isELCandidate_def Let_def)

lemma credit_revises: "revises n (creditStatusSightingLocked n network now)"
  by (simp add: creditStatusSightingLocked_def revises_def evolves_def node_ok_def Let_def)

lemma credit_class: "isELCandidate (creditStatusSightingLocked n network now) = isELCandidate n"
  by (simp add: creditStatusSightingLocked_def isELCandidate_def Let_def)


section \<open>Eviction\<close>

text \<open>Both orderings of the package satisfy the contract of the selection \<open>topK\<close>.\<close>

interpretation evict: strict_weak evictBefore
proof
  show "\<not> evictBefore b a" if "evictBefore a b" for a b
    using that by (auto simp: evictBefore_def split: if_splits)
  show "\<not> evictBefore a c" if "\<not> evictBefore a b" "\<not> evictBefore b c" for a b c
    using that by (auto simp: evictBefore_def split: if_splits)
qed

interpretation due: strict_weak fingerprintCandidateBetter
proof
  show "\<not> fingerprintCandidateBetter b a" if "fingerprintCandidateBetter a b" for a b
    using that by (auto simp: fingerprintCandidateBetter_def split: if_splits)
  show "\<not> fingerprintCandidateBetter a c"
    if "\<not> fingerprintCandidateBetter a b" "\<not> fingerprintCandidateBetter b c" for a b c
    using that by (auto simp: fingerprintCandidateBetter_def split: if_splits)
qed

lemma evictBefore_total: "n_ID a \<noteq> n_ID b \<Longrightarrow> evictBefore a b \<or> evictBefore b a"
  by (auto simp: evictBefore_def)

lemma fingerprintCandidateBetter_total:
  "c_id a \<noteq> c_id b \<Longrightarrow> fingerprintCandidateBetter a b \<or> fingerprintCandidateBetter b a"
  by (auto simp: fingerprintCandidateBetter_def)

definition evictable :: "nat \<Rightarrow> node \<Rightarrow> bool" where
  "evictable candClass n \<longleftrightarrow> candClass < capacityClass n \<and> \<not> n_pinned n"

definition worst_class :: "nat \<Rightarrow> node list \<Rightarrow> nat" where
  "worst_class candClass ns = foldl max candClass (map capacityClass (filter (evictable candClass) ns))"

definition worst_nodes :: "nat \<Rightarrow> node list \<Rightarrow> node list" where
  "worst_nodes candClass ns =
     filter (\<lambda>n. evictable candClass n \<and> capacityClass n = worst_class candClass ns) ns"

lemma offer_all_simps [simp]:
  "offer_all h [] = h" "offer_all h (v # vs) = offer_all (offer h v) vs"
  by (simp_all add: offer_all_def)

lemma offer_all_snoc: "offer_all h (vs @ [v]) = offer (offer_all h vs) v"
  by (simp add: offer_all_def)

lemma offer_all_frame [simp]:
  "limit (offer_all h vs) = limit h" "better (offer_all h vs) = better h"
  unfolding offer_all_def by (induction vs arbitrary: h) auto

lemma offer_all_reset: "(offer_all (newTopK k lt) vs)\<lparr>items := []\<rparr> = newTopK k lt"
  by (rule topK.equality) simp_all

lemma foldl_max_ge: "(k :: nat) \<le> foldl max k xs \<and> (\<forall>x \<in> set xs. x \<le> foldl max k xs)"
proof (induction xs arbitrary: k)
  case (Cons x xs)
  then show ?case using Cons.IH [of "max k x"] by (auto dest: max.boundedE)
qed simp

lemma worst_class_ge:
  "candClass \<le> worst_class candClass ns"
  "n \<in> set ns \<Longrightarrow> evictable candClass n \<Longrightarrow> capacityClass n \<le> worst_class candClass ns"
  using foldl_max_ge [of candClass "map capacityClass (filter (evictable candClass) ns)"]
  by (auto simp: worst_class_def)

lemma worst_class_snoc:
  "worst_class candClass (ns @ [n]) =
     (if evictable candClass n then max (worst_class candClass ns) (capacityClass n)
      else worst_class candClass ns)"
  by (simp add: worst_class_def)

lemma evict_scan_fold:
  "foldl (evict_scan candClass) (candClass, newTopK b evictBefore) ns =
     (worst_class candClass ns, offer_all (newTopK b evictBefore) (worst_nodes candClass ns))"
proof (induction ns rule: rev_induct)
  case Nil
  then show ?case by (simp add: worst_class_def worst_nodes_def offer_all_def)
next
  case (snoc n ns)
  let ?w = "worst_class candClass ns" and ?c = "capacityClass n"
  consider (skip) "\<not> evictable candClass n" | (better) "evictable candClass n" "?c < ?w"
    | (same) "evictable candClass n" "?c = ?w" | (worse) "evictable candClass n" "?w < ?c"
    by fastforce
  then show ?case
  proof cases
    case skip
    then have "?c \<le> candClass \<or> ?c < ?w \<or> n_pinned n" by (auto simp: evictable_def)
    with skip snoc show ?thesis
      by (simp add: evict_scan_def worst_class_snoc worst_nodes_def)
  next
    case better
    with snoc show ?thesis
      by (simp add: evict_scan_def worst_class_snoc worst_nodes_def max_def)
  next
    case same
    then have "\<not> (?c \<le> candClass \<or> ?c < ?w \<or> n_pinned n)" by (auto simp: evictable_def)
    with same snoc show ?thesis
      by (simp add: evict_scan_def worst_class_snoc worst_nodes_def offer_all_snoc Let_def)
  next
    case worse
    then have "\<not> (?c \<le> candClass \<or> ?c < ?w \<or> n_pinned n)" by (auto simp: evictable_def)
    moreover have "filter (\<lambda>x. evictable candClass x \<and> capacityClass x = ?c) ns = []"
      using worst_class_ge(2) [of _ ns candClass] worse by (fastforce simp: filter_empty_conv)
    ultimately show ?thesis
      using worse snoc
      by (simp add: evict_scan_def worst_class_snoc worst_nodes_def offer_all_reset max_def)
  qed
qed

lemma evict_select_eq:
  "evict_select candClass s =
     (worst_class candClass (map snd (s_m s)),
      offer_all (newTopK (evict_batch s) evictBefore) (worst_nodes candClass (map snd (s_m s))))"
  by (simp add: evict_select_def evict_scan_fold)

definition victims :: "nat \<Rightarrow> nset \<Rightarrow> node list" where
  "victims candClass s = items (snd (evict_select candClass s))"

lemma victims_best:
  "best_of evictBefore (nat (evict_batch s)) (mset (worst_nodes candClass (map snd (s_m s))))
     (mset (victims candClass s))"
  unfolding victims_def by (simp add: evict_select_eq evict.offer_all_best)

lemma victims_evictable:
  assumes "v \<in> set (victims candClass s)"
  shows "v \<in> snd ` set (s_m s)" and "evictable candClass v"
    and "capacityClass v = worst_class candClass (map snd (s_m s))"
proof -
  have "mset (victims candClass s) \<subseteq># mset (worst_nodes candClass (map snd (s_m s)))"
    using victims_best by (simp add: best_of_def)
  with assms have "v \<in> set (worst_nodes candClass (map snd (s_m s)))"
    by (metis mset_subset_eqD set_mset_mset)
  then show "v \<in> snd ` set (s_m s)" "evictable candClass v"
    "capacityClass v = worst_class candClass (map snd (s_m s))"
    by (auto simp: worst_nodes_def)
qed

lemma evictForLocked_eq:
  "evictForLocked candClass s =
     (if victims candClass s = [] then ((0, []), s)
      else ((length (victims candClass s), capacityClassNames ! worst_class candClass (map snd (s_m s))),
            foldl (\<lambda>s v. deleteLocked (n_ID v) s) s (victims candClass s)))"
  by (simp add: evictForLocked_def victims_def evict_select_eq)

lemma lookup_delete_all:
  "lookup (foldl (\<lambda>s v. deleteLocked (n_ID v) s) s vs) j =
     (if j \<in> n_ID ` set vs then None else lookup s j)"
  by (induction vs arbitrary: s) auto

lemma delete_absent: "lookup s i = None \<Longrightarrow> deleteLocked i s = s"
  by (simp add: deleteLocked_def)

lemma delete_all_removals:
  assumes "\<And>v n. v \<in> set vs \<Longrightarrow> lookup s (n_ID v) = Some n \<Longrightarrow> \<not> n_pinned n"
  shows "removal\<^sup>*\<^sup>* s (foldl (\<lambda>s v. deleteLocked (n_ID v) s) s vs)"
  using assms
proof (induction vs arbitrary: s)
  case (Cons v vs)
  have "removal\<^sup>*\<^sup>* s (deleteLocked (n_ID v) s)"
  proof (cases "lookup s (n_ID v)")
    case (Some n)
    with Cons.prems show ?thesis by (auto intro: removalI)
  qed (simp add: delete_absent)
  moreover have "removal\<^sup>*\<^sup>* (deleteLocked (n_ID v) s)
      (foldl (\<lambda>s v. deleteLocked (n_ID v) s) (deleteLocked (n_ID v) s) vs)"
    using Cons.prems by (intro Cons.IH) (auto split: if_splits)
  ultimately show ?case by simp
qed simp

lemma victim_tracked: "nset_shape s \<Longrightarrow> v \<in> set (victims candClass s) \<Longrightarrow> lookup s (n_ID v) = Some v"
  using victims_evictable(1) [of v candClass s]
  by (auto simp: nset_shapeD(1) node_in_set nset_shapeD(2))

lemma evict_removals: "nset_shape s \<Longrightarrow> removal\<^sup>*\<^sup>* s (snd (evictForLocked candClass s))"
  using victims_evictable(2) victim_tracked
  by (fastforce simp: evictForLocked_eq evictable_def intro: delete_all_removals)

lemma evict_frame: "s_max (snd (evictForLocked candClass s)) = s_max s"
proof -
  have "s_max (foldl (\<lambda>s v. deleteLocked (n_ID v) s) s vs) = s_max s" for vs :: "node list"
    by (induction vs arbitrary: s) auto
  then show ?thesis by (simp add: evictForLocked_eq)
qed

lemma Len_delete: "nset_shape s \<Longrightarrow> Len (deleteLocked i s) = (if lookup s i = None then Len s else Len s - 1)"
proof (cases "lookup s i")
  case (Some n)
  assume ok: "nset_shape s"
  then have "s_m s \<noteq> []" using Some by (auto simp: lookup_def)
  with ok Some show ?thesis
    by (simp add: deleteLocked_def Len_def lookup_def length_gomap_delete nset_shapeD of_nat_diff Suc_leI)
qed (simp add: delete_absent)

lemma Len_delete_all: "nset_shape s \<Longrightarrow> Len (foldl (\<lambda>s v. deleteLocked (n_ID v) s) s vs) \<le> Len s"
proof (induction vs arbitrary: s)
  case (Cons v vs)
  then have "Len (foldl (\<lambda>s v. deleteLocked (n_ID v) s) (deleteLocked (n_ID v) s) vs)
     \<le> Len (deleteLocked (n_ID v) s)" by (simp add: nset_shape_delete)
  also have "\<dots> \<le> Len s" using Cons.prems by (simp add: Len_delete)
  finally show ?case by simp
qed simp

lemma evict_room:
  assumes ok: "nset_shape s" and k: "fst (fst (evictForLocked candClass s)) \<noteq> 0"
  shows "\<not> full (snd (evictForLocked candClass s))"
proof -
  obtain v vs where v: "victims candClass s = v # vs"
    using k by (cases "victims candClass s") (auto simp: evictForLocked_eq)
  then have "lookup s (n_ID v) = Some v" using victim_tracked [OF ok, of v candClass] by simp
  then have "Len (deleteLocked (n_ID v) s) = Len s - 1" using ok by (simp add: Len_delete)
  moreover have "Len (foldl (\<lambda>s v. deleteLocked (n_ID v) s) (deleteLocked (n_ID v) s) vs)
     \<le> Len (deleteLocked (n_ID v) s)" by (rule Len_delete_all) (rule nset_shape_delete [OF ok])
  ultimately show ?thesis
    using v nset_shapeD(5) [OF ok] evict_frame [of candClass s] by (auto simp: full_def evictForLocked_eq)
qed


section \<open>Every critical section refines an effect\<close>

lemma update_refines:
  "lookup s i = Some n \<Longrightarrow> evolves n n' \<Longrightarrow> isELCandidate n' = isELCandidate n \<Longrightarrow> effect s (put i n' s)"
  using eff_update [of s i n n'] by auto

lemma delete_put_refines:
  assumes "lookup s i = Some n" "isELCandidate n' = isELCandidate n" "\<not> n_pinned n"
  shows "effect s (deleteLocked i (put i n' s))"
  using assms removalI [of s i n] by (auto simp: delete_put intro: eff_remove)

lemma observe_stale_refines:
  assumes "observe_stale n via now fr pin s = Some (r, s')"
  shows "effect s s'"
proof -
  obtain cur where cur: "lookup s (en_ID n) = Some cur"
    using assms by (auto simp: observe_stale_def split: option.splits)
  obtain d c where t: "touchObservationLocked cur via now True fr pin = (d, c)" by fastforce
  have "s' = (if d then deleteLocked (en_ID n) (put (en_ID n) c s) else put (en_ID n) c s)"
    using assms cur t by (auto simp: observe_stale_def split: if_splits)
  then show ?thesis
    using t touch_del [of cur via now True fr pin c] touch_keep [of cur via now True fr pin c]
    by (cases d) (auto intro: cur update_refines delete_put_refines revises_evolves)
qed

lemma extractNode_layer: "x_layer (extractNode env n) \<in> {''el'', ''cl'', ''unknown''}"
proof -
  have "x_layer (extractNode env n) =
      (if en_eth n \<noteq> None then ''el'' else if en_eth2 n \<noteq> None \<or> en_attnets n \<noteq> None then ''cl'' else ''unknown'')"
    unfolding extractNode_def Let_def
    by (cases "en_client n"; cases "the (en_client n)"; cases "en_eth n"; cases "en_eth2 n"; cases "en_cgc n"; simp)
  then show ?thesis by simp
qed

lemma force_extracted_layer:
  "x_layer e \<in> {''el'', ''cl'', ''unknown''} \<Longrightarrow> fl \<in> {[], ''el'', ''cl''} \<Longrightarrow>
     x_layer (force_extracted fn fl e) \<in> {''el'', ''cl'', ''unknown''}"
  by (auto simp: force_extracted_def Let_def)

lemma zeroNode_ok: "length i = 32 \<Longrightarrow> 0 \<le> sc \<Longrightarrow> sc \<le> 10 \<Longrightarrow>
    node_ok (zeroNode\<lparr>n_ID := i, n_FirstSeen := now, n_Score := sc\<rparr>)"
  by (simp add: node_ok_def zeroNode_def layers_def)

lemma revises_ok: "revises n n' \<Longrightarrow> node_ok n \<Longrightarrow> node_ok n'" "revises n n' \<Longrightarrow> n_ID n' = n_ID n"
  by (auto simp: revises_def evolves_def)

lemma observe_known_refines:
  assumes cur: "lookup s i = Some cur" and l: "x_layer e \<in> {''el'', ''cl'', ''unknown''}"
  shows "effect s (snd (observe_locked i e via now fr pin s))"
proof -
  obtain d c where t: "touchObservationLocked cur via now True fr pin = (d, c)" by fastforce
  consider "d" | "\<not> d" "x_seq e < n_Seq c" | "\<not> d" "n_Seq c \<le> x_seq e" by fastforce
  then show ?thesis
  proof cases
    case 1
    then show ?thesis using t cur touch_del [of cur via now True fr pin c]
      by (auto simp: observe_locked_def Let_def intro: delete_put_refines)
  next
    case 2
    then show ?thesis using t cur touch_keep [of cur via now True fr pin c]
      by (auto simp: observe_locked_def Let_def intro: update_refines revises_evolves)
  next
    case 3
    let ?n = "apply_record c e now True"
    have "revises cur c" using t 3(1) touch_keep(1) [of cur via now True fr pin c] by simp
    then have "revises cur ?n" using apply_record_revises [OF l 3(2)] by (rule revises_trans)
    then have "effect s (trackCandidateLocked (isELCandidate cur) (isELCandidate ?n) (put i ?n s))"
      by (intro eff_update [OF cur] revises_evolves)
    with 3 t cur show ?thesis by (auto simp: observe_locked_def Let_def)
  qed
qed

lemma admit_refines:
  assumes m: "removal\<^sup>*\<^sup>* s s1" and new: "lookup s i = None" and room: "\<not> full s1" and i: "length i = 32"
    and l: "x_layer e \<in> {''el'', ''cl'', ''unknown''}" and sc: "0 \<le> sc" "sc \<le> 10"
    and t: "touchObservationLocked (zeroNode\<lparr>n_ID := i, n_FirstSeen := now, n_Score := sc\<rparr>)
              via now False fr pin = (d, c)"
  shows "\<not> d" and "effect s
     (trackCandidateLocked False (isELCandidate (apply_record c e now False)) (put i (apply_record c e now False) s1))"
proof -
  let ?z = "zeroNode\<lparr>n_ID := i, n_FirstSeen := now, n_Score := sc\<rparr>"
  show d: "\<not> d" using t touch_del(1) by auto
  then have c: "revises ?z c" "n_Seq c = 0" using t touch_keep by (fastforce simp: zeroNode_def)+
  then have "revises ?z (apply_record c e now False)"
    using apply_record_revises [OF l, of c now False] revises_trans [OF c(1)] by simp
  moreover have "node_ok ?z" by (rule zeroNode_ok [OF i sc])
  moreover have "n_ID ?z = i" by simp
  ultimately show "effect s (trackCandidateLocked False (isELCandidate (apply_record c e now False))
      (put i (apply_record c e now False) s1))"
    using m new room revises_ok by (intro eff_insert) auto
qed

lemma observe_new_refines:
  assumes ok: "nset_shape s" and new: "lookup s i = None" and i: "length i = 32"
    and l: "x_layer e \<in> {''el'', ''cl'', ''unknown''}"
  shows "effect s (snd (observe_locked i e via now fr pin s))"
proof -
  let ?sc = "if fr then dropBelow else scoreInit"
  obtain k cls s1 where ev: "(if full s then evictForLocked (admit_class e fr pin) s else ((0, []), s))
      = ((k, cls), s1)" by (metis surj_pair)
  have m: "removal\<^sup>*\<^sup>* s s1"
    using ev evict_removals [OF ok, of "admit_class e fr pin"] by (auto split: if_splits)
  obtain d c where t: "touchObservationLocked (zeroNode\<lparr>n_ID := i, n_FirstSeen := now, n_Score := ?sc\<rparr>)
      via now False fr pin = (d, c)" by fastforce
  show ?thesis
  proof (cases "full s \<and> k = 0")
    case True
    then show ?thesis using m new ev by (simp add: observe_locked_def eff_remove)
  next
    case False
    have room: "\<not> full s1"
      using False ev evict_room [OF ok, of "admit_class e fr pin"] by (auto split: if_splits)
    have sc: "0 \<le> ?sc" "?sc \<le> 10" by auto
    note adm = admit_refines [OF m new room i l sc t]
    have "snd (observe_locked i e via now fr pin s) = trackCandidateLocked False
      (isELCandidate (apply_record c e now False)) (put i (apply_record c e now False) s1)"
      using False adm(1) new ev t
      by (cases "full s") (simp_all add: observe_locked_def Let_def split del: if_split)
    with adm(2) show ?thesis by simp
  qed
qed

lemma observe_locked_refines:
  assumes "nset_shape s" and "length i = 32" and "x_layer e \<in> {''el'', ''cl'', ''unknown''}"
  shows "effect s (snd (observe_locked i e via now fr pin s))"
  using assms observe_known_refines observe_new_refines by (cases "lookup s i") auto

end
