(* ===== verification/NodeSetSteps.thy ===== *)
theory NodeSetSteps
  imports NodeSetInv
begin

text \<open>
  The step relation of the tracked set, one rule per critical section of a running crawler, the section
  that restores rows (\<open>Ingest\<close>, which the crawler calls once before it starts) with its own
  specification \<open>restores\<close>, and the reachable states of both.
  Between the sections of one method any other section may run, so the relation covers every
  interleaving of concurrent callers. \<open>nset_step_refines\<close> reduces each rule to an effect;
  \<open>observe_steps\<close> and its companions show that the methods that take the lock several times
  are runs of it.
\<close>

section \<open>The remaining critical sections refine effects\<close>

lemmas evolve_defs = evolves_def node_ok_def isELCandidate_def

lemma authenticatedEL_refines: "effect s (authenticatedEL_locked i network fh fn now s)"
  by (auto simp: authenticatedEL_locked_def authenticate_class split: option.splits
      intro: update_refines authenticate_evolves)

lemma authenticatedCL_refines: "effect s (authenticatedCL_locked i network fh now s)"
  by (auto simp: authenticatedCL_locked_def authenticate_class split: option.splits
      intro: update_refines authenticate_evolves)

lemma new_candidate_ok:
  "length i = 32 \<Longrightarrow> node_ok (new_candidate i e now)" "n_ID (new_candidate i e now) = i"
  "isELCandidate (new_candidate i e now)"
  by (simp_all add: new_candidate_def apply_endpoint_def evolve_defs zeroNode_def layers_def)

lemma candidate_locked_refines:
  assumes "length i = 32"
  shows "effect s (snd (candidate_locked i e now lim s))"
proof (cases "lookup s i")
  case None
  let ?n = "new_candidate i e now"
  have "effect s (trackCandidateLocked False (isELCandidate ?n) (put i ?n s))" if "\<not> full s"
    using None that assms by (intro eff_insert) (auto simp: new_candidate_ok)
  then show ?thesis
    using None by (auto simp: candidate_locked_def Let_def new_candidate_ok trackCandidateLocked_def)
next
  case (Some n)
  then have "effect s (put i (snd (candidate_seen n e now)) s)"
    by (intro update_refines) (auto simp: candidate_seen_class intro: candidate_seen_revises revises_evolves)
  with Some show ?thesis by (simp add: candidate_locked_def split_beta)
qed

lemma candidate_layer_refines: "effect s (snd (SetExecutionCandidateLayer i lim s))"
proof (cases "lookup s i")
  case (Some n)
  show ?thesis
  proof (cases "n_Layer n = []")
    case True
    let ?n = "n\<lparr>n_Layer := ''el''\<rparr>"
    have "evolves n ?n" using True by (simp add: evolves_def node_ok_def layers_def)
    then have "effect s (trackCandidateLocked False (isELCandidate ?n) (put i ?n s))"
      using eff_update [OF Some, of ?n] True by (simp add: isELCandidate_def)
    moreover have "?n\<lparr>n_Layer := []\<rparr> = n" using True by (intro node.equality) simp_all
    then have "put i (?n\<lparr>n_Layer := []\<rparr>) s = s" by (simp only: put_lookup [OF Some])
    ultimately show ?thesis
      using Some True by (simp add: SetExecutionCandidateLayer_def Let_def r_into_rtranclp)
  next
    case False
    with Some show ?thesis by (simp add: SetExecutionCandidateLayer_def)
  qed
qed (simp add: SetExecutionCandidateLayer_def)

lemma candidate_client_refines: "effect s (snd (SetCandidateClient i fp dir s))"
  by (auto simp: SetCandidateClient_def evolve_defs split: option.splits intro!: update_refines)

lemma claim_refines: "effect s (snd (ClaimFingerprintInfo i now s))"
  by (auto simp: ClaimFingerprintInfo_def Let_def evolve_defs split: option.splits intro!: update_refines)

lemma unclaim_refines: "effect s (UnclaimFingerprint i s)"
  by (auto simp: UnclaimFingerprint_def Let_def evolve_defs split: option.splits intro!: update_refines)

lemma failed_refines: "effect s (snd (FingerprintFailed i now s))"
proof (cases "lookup s i")
  case (Some n)
  then show ?thesis
    by (simp add: FingerprintFailed_def Let_def) (intro conjI impI update_refines [OF Some]; simp add: evolve_defs)
qed (simp add: FingerprintFailed_def)

lemma setFingerprint_refines: "effect s (snd (setFingerprint i layer fp dir claimed now s))"
proof (cases "lookup s i")
  case (Some n)
  then show ?thesis
    by (simp add: setFingerprint_def Let_def)
      (intro conjI impI rtranclp.rtrancl_refl update_refines [OF Some]; simp add: evolve_defs)
qed (simp add: setFingerprint_def)

lemma head_clear_revises: "revises n ((clearHeadOnNetworkChangeLocked n network)\<lparr>n_Network := network\<rparr>)"
  if "network \<noteq> []"
  using that by (simp add: clearHeadOnNetworkChangeLocked_def revises_def evolves_def node_ok_def)

lemma execution_status_refines: "effect s (snd (SetExecutionStatusAt i network fork now s))"
proof (cases "lookup s i")
  case (Some n)
  let ?c = "creditStatusSightingLocked n network now"
  let ?h = "(clearHeadOnNetworkChangeLocked ?c network)\<lparr>n_Network := network\<rparr>"
  let ?n = "?h\<lparr>n_ForkHash := hex_EncodeToString (fid_Hash fork), n_ForkNext := fid_Next fork,
      n_MembershipSource := ''status'', n_MembershipVerifiedAt := now, n_ForkSource := ''status'',
      n_ForkObservedAt := now, n_LastResolved := now\<rparr>"
  have "effect s (trackCandidateLocked (isELCandidate n) False (put i ?n s))" if "network \<noteq> []"
  proof -
    have "revises n ?h" using credit_revises head_clear_revises [OF that] by (rule revises_trans)
    then have "evolves n ?n" by (simp add: revises_def evolves_def node_ok_def)
    moreover have "\<not> isELCandidate ?n" using that by (simp add: isELCandidate_def)
    ultimately show ?thesis using eff_update [OF Some, of ?n] by simp
  qed
  with Some show ?thesis
    by (auto simp: SetExecutionStatusAt_def Let_def credit_class track_put)
qed (simp add: SetExecutionStatusAt_def)

lemma consensus_status_refines: "effect s (snd (SetConsensusStatus i network fh now s))"
proof (cases "lookup s i")
  case (Some n)
  let ?c = "creditStatusSightingLocked n network now"
  let ?h = "(clearHeadOnNetworkChangeLocked ?c network)\<lparr>n_Network := network\<rparr>"
  let ?f = "if fh \<noteq> [] then ?h\<lparr>n_ForkHash := fh\<rparr> else ?h"
  let ?n = "?f\<lparr>n_MembershipSource := ''status'', n_MembershipVerifiedAt := now,
                n_ForkSource := ''status'', n_ForkObservedAt := now, n_LastResolved := now\<rparr>"
  have "effect s (put i ?n s)" if "network \<noteq> []" and "n_Layer n = ''cl''"
  proof -
    have r: "revises n ?h" using credit_revises head_clear_revises [OF that(1)] by (rule revises_trans)
    then have "evolves n ?n" by (simp add: revises_def evolves_def node_ok_def)
    moreover have "isELCandidate ?n = isELCandidate n"
      using that by (simp add: isELCandidate_def)
    ultimately show ?thesis using update_refines [OF Some] by blast
  qed
  with Some show ?thesis by (auto simp: SetConsensusStatus_def Let_def)
qed (simp add: SetConsensusStatus_def)

lemma head_refines: "effect s (SetHead i layer network h t s)"
  by (auto simp: SetHead_def Let_def evolve_defs word_gt_0 split: option.splits intro!: update_refines)

lemma geo_refines: "effect s (SetGeo i ip g s)"
proof (cases "lookup s i")
  case (Some n)
  then show ?thesis
    by (simp add: SetGeo_def Let_def)
      (intro conjI impI rtranclp.rtrancl_refl update_refines [OF Some]; simp add: evolve_defs)
qed (simp add: SetGeo_def)

lemma penalize_refines: "effect s (Penalize i now s)"
proof (cases "lookup s i")
  case (Some n)
  let ?n = "n\<lparr>n_LastCheck := now\<rparr>"
  obtain d c where p: "penalizeLocked ?n = (d, c)" by fastforce
  have cls: "isELCandidate c = isELCandidate n"
    using penalize_class(1) [OF p] by (simp add: isELCandidate_def)
  have "effect s (put i ?n s)"
    by (rule update_refines [OF Some]) (simp_all add: evolve_defs)
  moreover have "effect s (put i c s)" if "\<not> d"
  proof -
    have "revises n ?n" by (simp add: revises_def evolves_def node_ok_def)
    then have "revises n c" using p that penalize_revises by (auto intro: revises_trans)
    then show ?thesis using cls by (intro update_refines [OF Some]) (auto intro: revises_evolves)
  qed
  ultimately show ?thesis
    using Some p delete_put_refines [OF Some cls] by (auto simp: Penalize_def Let_def)
qed (simp add: Penalize_def)

lemma prune_fold_removals:
  assumes "\<And>i n c. (i, n) \<in> set es \<Longrightarrow> lookup s i = Some c \<Longrightarrow> n_pinned c \<longrightarrow> n_pinned n"
  shows "removal\<^sup>*\<^sup>* s (snd (foldl (prune_step cutoff vcut) (k, s) es))"
  using assms
proof (induction es arbitrary: k s)
  case (Cons e es)
  obtain i n where e: "e = (i, n)" by fastforce
  let ?s = "if prune_stale cutoff vcut n then deleteLocked i s else s"
  have "removal\<^sup>*\<^sup>* s ?s"
  proof (cases "lookup s i")
    case (Some c)
    have "n_pinned c \<longrightarrow> n_pinned n" using Cons.prems Some e by auto
    then show ?thesis
      using removalI [OF Some] by (auto simp: prune_stale_def)
  qed (simp add: delete_absent)
  moreover have "removal\<^sup>*\<^sup>* ?s (snd (foldl (prune_step cutoff vcut) (k', ?s) es))" for k'
    using Cons.prems by (intro Cons.IH) (auto split: if_splits)
  moreover have "prune_step cutoff vcut (k, s) e = (if prune_stale cutoff vcut n then k + 1 else k, ?s)"
    by (simp add: prune_step_def e)
  ultimately show ?case by (metis foldl_Cons rtranclp_trans)
qed simp

lemma prune_refines: "nset_shape s \<Longrightarrow> effect s (snd (PruneStaleWithVerified cutoff vcut s))"
  unfolding PruneStaleWithVerified_def
  by (rule eff_remove, rule prune_fold_removals) (auto simp: nset_shapeD(1) node_in_set)


section \<open>The step relation\<close>

text \<open>
  A node identity \<^verbatim>\<open>enode.ID\<close> is an array of 32 bytes, and the layer a method forces is empty, \<^verbatim>\<open>el\<close>
  or \<^verbatim>\<open>cl\<close>: these are the premises of the rules.
\<close>

inductive nset_step :: "nsenv \<Rightarrow> nset \<Rightarrow> nset \<Rightarrow> bool" for env where
  st_stale: "observe_stale n via now fr pin s = Some (r, s') \<Longrightarrow> nset_step env s s'"
| st_observe: "length (en_ID n) = 32 \<Longrightarrow> fl \<in> {[], ''el'', ''cl''} \<Longrightarrow>
     nset_step env s (snd (observe_locked (en_ID n) (force_extracted fn fl (extractNode env n))
       via now fr pin s))"
| st_authEL: "nset_step env s (authenticatedEL_locked i network fh fnx now s)"
| st_authCL: "nset_step env s (authenticatedCL_locked i network fh now s)"
| st_candidate: "length (en_ID n) = 32 \<Longrightarrow>
     nset_step env s (snd (candidate_locked (en_ID n) (extractNode env n) now lim s))"
| st_layer: "nset_step env s (snd (SetExecutionCandidateLayer i lim s))"
| st_client: "nset_step env s (snd (SetCandidateClient i fp dir s))"
| st_claim: "nset_step env s (snd (ClaimFingerprintInfo i now s))"
| st_unclaim: "nset_step env s (UnclaimFingerprint i s)"
| st_failed: "nset_step env s (snd (FingerprintFailed i now s))"
| st_fingerprint: "nset_step env s (snd (setFingerprint i layer fp dir claimed now s))"
| st_statusEL: "nset_step env s (snd (SetExecutionStatusAt i network fork now s))"
| st_statusCL: "nset_step env s (snd (SetConsensusStatus i network fh now s))"
| st_head: "nset_step env s (SetHead i layer network h t s)"
| st_geo: "nset_step env s (SetGeo i ip g s)"
| st_penalize: "nset_step env s (Penalize i now s)"
| st_prune: "nset_step env s (snd (PruneStaleWithVerified cutoff vcut s))"

lemma nset_step_refines: "nset_step env s s' \<Longrightarrow> nset_shape s \<Longrightarrow> effect s s'"
proof (induction rule: nset_step.induct)
  case (st_observe n fl s fn via now fr pin)
  then show ?case
    by (intro observe_locked_refines force_extracted_layer extractNode_layer) auto
qed (auto intro: observe_stale_refines authenticatedEL_refines authenticatedCL_refines
    candidate_locked_refines candidate_layer_refines candidate_client_refines claim_refines
    unclaim_refines failed_refines setFingerprint_refines execution_status_refines
    consensus_status_refines head_refines geo_refines penalize_refines prune_refines)

lemma nset_step_ok: "nset_step env s s' \<Longrightarrow> nset_ok s \<Longrightarrow> nset_ok s'"
  using nset_step_refines nset_ok_shape effect_ok by blast

lemma nset_steps_ok: "(nset_step env)\<^sup>*\<^sup>* s s' \<Longrightarrow> nset_ok s \<Longrightarrow> nset_ok s'"
  by (induction rule: rtranclp_induct) (auto intro: nset_step_ok)

section \<open>The methods are runs of the step relation\<close>

lemma observe_steps:
  assumes "length (en_ID n) = 32" and "fl \<in> {[], ''el'', ''cl''}"
  shows "(nset_step env)\<^sup>*\<^sup>* s (snd (observe env n via now fn fl fr pin s))"
proof (cases "observe_stale n via now fr pin s")
  case None
  then show ?thesis
    using st_observe [OF assms, of env s fn via now fr pin]
    by (auto simp: observe_def Let_def)
next
  case (Some r)
  then show ?thesis
    using st_stale [of n via now fr pin s "fst r" "snd r" env] by (auto simp: observe_def)
qed

lemma observe_methods_steps:
  assumes "length (en_ID n) = 32"
  shows "(nset_step env)\<^sup>*\<^sup>* s (snd (ObserveResult env n via now s))"
    and "(nset_step env)\<^sup>*\<^sup>* s (snd (ObserveFallbackResult env n via now s))"
    and "(nset_step env)\<^sup>*\<^sup>* s (snd (ObserveSeedResult env n network now s))"
    and "(nset_step env)\<^sup>*\<^sup>* s (snd (ObserveDevnetResult env n via now s))"
    and "(nset_step env)\<^sup>*\<^sup>* s (snd (ObserveDevnetFallbackResult env n via now s))"
  using observe_steps [OF assms]
  by (simp_all add: ObserveResult_def ObserveFallbackResult_def ObserveSeedResult_def
      ObserveDevnetResult_def ObserveDevnetFallbackResult_def)

lemma authenticated_steps:
  assumes "length (en_ID n) = 32"
  shows "(nset_step env)\<^sup>*\<^sup>* s (snd (ObserveAuthenticatedEL env n via network fh fnx now s))"
    and "(nset_step env)\<^sup>*\<^sup>* s (snd (ObserveAuthenticatedCL env n network fh now s))"
proof -
  obtain r t where o: "observe env n via now network ''el'' False False s = (r, t)" by fastforce
  have "(nset_step env)\<^sup>*\<^sup>* s t" using observe_steps [OF assms, of "''el''" env s via now network False False] o by simp
  then show "(nset_step env)\<^sup>*\<^sup>* s (snd (ObserveAuthenticatedEL env n via network fh fnx now s))"
    using st_authEL [of env t] by (auto simp: ObserveAuthenticatedEL_def o intro: rtranclp.rtrancl_into_rtrancl)
  obtain r t where o: "observe env n ''inbound'' now network ''cl'' False False s = (r, t)" by fastforce
  have "(nset_step env)\<^sup>*\<^sup>* s t" using observe_steps [OF assms, of "''cl''" env s "''inbound''" now network False False] o by simp
  then show "(nset_step env)\<^sup>*\<^sup>* s (snd (ObserveAuthenticatedCL env n network fh now s))"
    using st_authCL [of env t] by (auto simp: ObserveAuthenticatedCL_def o intro: rtranclp.rtrancl_into_rtrancl)
qed

lemma candidate_steps:
  "length (en_ID n) = 32 \<Longrightarrow> (nset_step env)\<^sup>*\<^sup>* s (snd (ObserveCandidateEL env n now lim s))"
  using st_candidate [of n env s now lim] by (auto simp: ObserveCandidateEL_def Let_def)

section \<open>Restoring a snapshot\<close>

text \<open>
  The abstract specification of the one section that restores rows. A row is dropped, or it takes its
  key, evicting unpinned nodes when there is no room: the node there, pinned or newer as it may be, is
  overwritten by the node of the row.
\<close>

inductive restores :: "Row list \<Rightarrow> nset \<Rightarrow> nset \<Rightarrow> bool" where
  res_done: "restores [] s s"
| res_drop: "restores rs s s' \<Longrightarrow> restores (r # rs) s s'"
| res_take: "hex_DecodeString (r_ID r) = Some i \<Longrightarrow> length i = 32 \<Longrightarrow> removal\<^sup>*\<^sup>* s t \<Longrightarrow>
     (lookup t i = None \<Longrightarrow> \<not> full t) \<Longrightarrow> was = (case lookup t i of None \<Rightarrow> False | Some c \<Rightarrow> isELCandidate c) \<Longrightarrow>
     restores rs (trackCandidateLocked was (isELCandidate (candidateOfRow i r)) (put i (candidateOfRow i r) t)) s' \<Longrightarrow>
     restores (r # rs) s s'"

lemma candidateOfRow_ID [simp]: "n_ID (candidateOfRow i r) = i"
  by (simp add: candidateOfRow_def nodeOfRow_def clearFingerprintLocked_def Let_def)

lemma restores_shape: "restores rs s s' \<Longrightarrow> nset_shape s \<Longrightarrow> nset_shape s'"
proof (induction rule: restores.induct)
  case (res_take r i s t was rs s')
  then show ?case by (intro res_take.IH nset_shape_put) (auto intro: removals_shape)
qed simp_all

lemma restores_max: "restores rs s s' \<Longrightarrow> s_max s' = s_max s"
  by (induction rule: restores.induct) (auto dest: removals_max)

text \<open>One row, and the rows of a snapshot under the one lock.\<close>

lemma ingest_row_restores:
  assumes ok: "nset_shape s"
    and rest: "restores rs (snd (ingest_row env (acc, s) r)) s'"
  shows "restores (r # rs) s s'"
proof -
  obtain dr ev where acc: "acc = (dr, ev)" by fastforce
  show ?thesis
  proof (cases "hex_DecodeString (r_ID r)")
    case None
    then show ?thesis using rest acc by (simp add: ingest_row_def res_drop)
  next
    case (Some i)
    show ?thesis
    proof (cases "length i = 32 \<and> rowAddressesUsable env r")
      case False
      then have "snd (ingest_row env (acc, s) r) = s" using acc Some by (simp add: ingest_row_def)
      then show ?thesis using rest by (simp add: res_drop)
    next
      case True
      let ?c = "candidateOfRow i r"
      obtain k cls s1 where e: "(if lookup s i = None \<and> full s then evictForLocked (capacityClass ?c) s
          else ((0, []), s)) = ((k, cls), s1)" by (metis surj_pair)
      have m: "removal\<^sup>*\<^sup>* s s1"
        using e evict_removals [OF ok, of "capacityClass ?c"] by (auto split: if_splits)
      show ?thesis
      proof (cases "lookup s i = None \<and> full s \<and> k = 0")
        case dropped: True
        then have "s1 = s" using e by (auto simp: evictForLocked_eq split: if_splits)
        then show ?thesis using rest dropped Some True acc e by (auto simp: ingest_row_def Let_def intro: res_drop)
      next
        case taken: False
        have "\<not> full s1" if "lookup s1 i = None"
          using that taken e evict_room [OF ok, of "capacityClass ?c"] by (auto split: if_splits)
        moreover have "restores rs (trackCandidateLocked (case lookup s1 i of None \<Rightarrow> False | Some p \<Rightarrow> isELCandidate p)
            (isELCandidate ?c) (put i ?c s1)) s'"
          using rest taken Some True acc e by (simp add: ingest_row_def Let_def track_put split del: if_split)
        ultimately show ?thesis using Some True m by (intro res_take) auto
      qed
    qed
  qed
qed

lemma ingest_row_shape: "nset_shape s \<Longrightarrow> nset_shape (snd (ingest_row env (acc, s) r))"
  using ingest_row_restores [OF _ res_done] restores_shape by blast

lemma Ingest_restores:
  assumes "nset_shape s"
  shows "restores rs s (snd (Ingest env rs s))"
proof -
  have "nset_shape u \<Longrightarrow> restores rs u (snd (foldl (ingest_row env) (acc, u) rs))" for acc u
  proof (induction rs arbitrary: acc u)
    case (Cons r rs)
    obtain acc' u' where r: "ingest_row env (acc, u) r = (acc', u')" by fastforce
    have "nset_shape u'" using ingest_row_shape [OF Cons.prems, of env acc r] r by simp
    then show ?case using ingest_row_restores [OF Cons.prems, of rs env acc r] Cons.IH r by simp
  qed (simp add: res_done)
  with assms show ?thesis by (simp add: Ingest_def)
qed

text \<open>What the rows of a well-formed set satisfy. Neither the loading of a snapshot nor \<^verbatim>\<open>Ingest\<close> checks it.\<close>

definition row_ok :: "Row \<Rightarrow> bool" where
  "row_ok r \<longleftrightarrow> 0 \<le> r_Score r \<and> r_Score r \<le> scoreCap \<and> r_Layer r \<in> set layers \<and>
     (r_Head r = 0 \<longrightarrow> r_HeadObservedAt r = 0)"

lemma candidateOfRow_ok:
  assumes "length i = 32" and "row_ok r"
  shows "node_ok (candidateOfRow i r)"
  using assms
  by (simp_all add: candidateOfRow_def nodeOfRow_def clearFingerprintLocked_def node_ok_def row_ok_def
      timeOrZero_def layers_def Let_def)

lemma restores_nodes:
  "restores rs s s' \<Longrightarrow> list_all row_ok rs \<Longrightarrow> (\<And>i n. lookup s i = Some n \<Longrightarrow> node_ok n) \<Longrightarrow>
     lookup s' i = Some n \<Longrightarrow> node_ok n"
proof (induction rule: restores.induct)
  case (res_take r j s t was rs s')
  have "node_ok c" if "lookup (trackCandidateLocked was (isELCandidate (candidateOfRow j r)) (put j (candidateOfRow j r) t)) k = Some c" for k c
    using that res_take.hyps(2,3) res_take.prems(1,2) candidateOfRow_ok [of j r] removals_lookup [of s t k c]
    by (auto split: if_splits)
  then show ?case using res_take.IH res_take.prems(1,3) by auto
qed simp_all

lemma Ingest_ok: "nset_ok s \<Longrightarrow> list_all row_ok rs \<Longrightarrow> nset_ok (snd (Ingest env rs s))"
  using Ingest_restores [of s rs env] restores_shape restores_nodes unfolding nset_ok_iff by blast

text \<open>Every section that takes the write lock.\<close>

inductive nset_section :: "nsenv \<Rightarrow> nset \<Rightarrow> nset \<Rightarrow> bool" for env where
  sec_step: "nset_step env s s' \<Longrightarrow> nset_section env s s'"
| sec_ingest: "nset_section env s (snd (Ingest env rs s))"

section \<open>Reachable states\<close>

text \<open>The states of a program that restores only rows that satisfy \<open>P\<close>.\<close>

inductive nset_reachable :: "nsenv \<Rightarrow> int \<Rightarrow> (Row \<Rightarrow> bool) \<Rightarrow> nset \<Rightarrow> bool" for env mx P where
  reach_init: "nset_reachable env mx P (NewWithLimit mx)"
| reach_ingest: "nset_reachable env mx P s \<Longrightarrow> list_all P rs \<Longrightarrow>
     nset_reachable env mx P (snd (Ingest env rs s))"
| reach_step: "nset_reachable env mx P s \<Longrightarrow> nset_step env s s' \<Longrightarrow> nset_reachable env mx P s'"

lemma NewWithLimit_ok [simp]: "nset_ok (NewWithLimit mx)"
  by (simp add: nset_ok_def NewWithLimit_def Len_def)

lemma reachable_shape: "nset_reachable env mx P s \<Longrightarrow> nset_shape s"
proof (induction rule: nset_reachable.induct)
  case (reach_step s s')
  then show ?case using nset_step_refines effect_shape by blast
qed (auto intro: nset_ok_shape restores_shape Ingest_restores)

lemma reachable_ok: "nset_reachable env mx P s \<Longrightarrow> (\<And>r. P r \<Longrightarrow> row_ok r) \<Longrightarrow> nset_ok s"
proof (induction rule: nset_reachable.induct)
  case (reach_step s s')
  then show ?case using nset_step_ok by blast
qed (auto intro!: Ingest_ok simp: list_all_iff)

end
