(* ===== verification/NodeSetProps.thy ===== *)
theory NodeSetProps
  imports NodeSetSteps
begin

text \<open>
  The properties of the tracked set, stated over its methods and over the runs of its step
  relation, with a small concrete set on which each of them is applied.
\<close>

section \<open>A concrete set\<close>

definition sample_env :: nsenv where
  "sample_env = \<lparr>allowPrivateIPs = False, isSpecialNetwork = (\<lambda>_. False),
     classify = (\<lambda>f. if fid_Next f = 7 then ''mainnet'' else []), classifyCL = (\<lambda>_. [])\<rparr>"

definition sample_enode :: "byte \<Rightarrow> u64 \<Rightarrow> u64 \<Rightarrow> enode" where
  "sample_enode k seq nxt =
     \<lparr>en_ID = replicate 32 k, en_Seq = seq, en_URLv4 = ''enode'', en_rlp = Some [1, 2, 3],
      en_ip = Some [8, 8, 8, k], en_ip6 = None, en_tcp = Some 30303, en_udp = Some 30303,
      en_tcp6 = None, en_udp6 = None, en_quic = None, en_quic6 = None,
      en_eth = Some \<lparr>fid_Hash = [1, 2, 3, 4], fid_Next = nxt\<rparr>, en_eth2 = None, en_attnets = None,
      en_cgc = None, en_client = None\<rparr>"

definition sample_rec :: "byte \<Rightarrow> u64 \<Rightarrow> u64 \<Rightarrow> extracted" where
  "sample_rec k seq nxt = force_extracted [] [] (extractNode sample_env (sample_enode k seq nxt))"

text \<open>One node observed over discovery v5 in an empty set.\<close>

definition sample_set :: nset where
  "sample_set = snd (observe_locked (replicate 32 1) (sample_rec 1 5 7) ''v5'' 1000 False False (NewWithLimit 3))"

lemma sample_enode_simps [simp]:
  "en_ID (sample_enode k seq nxt) = replicate 32 k" "en_Seq (sample_enode k seq nxt) = seq"
  by (simp_all add: sample_enode_def)

lemma sample_set_reachable: "nset_reachable sample_env 3 (\<lambda>_. False) sample_set"
  using st_observe [of "sample_enode 1 5 7" "[]" sample_env "NewWithLimit 3" "[]" "''v5''" 1000 False False]
  by (auto simp: sample_set_def sample_rec_def intro: reach_step reach_init)


definition sample_node :: "byte \<Rightarrow> node" where
  "sample_node k = zeroNode\<lparr>n_ID := replicate 32 k, n_Enode := ''enode'', n_ENR := ''enr:AQID'',
     n_Seq := 5, n_IP := ''8.8.8.1'', n_TCP := 30303, n_UDP := 30303, n_Network := ''mainnet'',
     n_Layer := ''el'', n_Score := 4, n_FirstSeen := 1000, n_LastSeen := 1000, n_LastCheck := 1000,
     n_LastResolved := 1000\<rparr>"

definition sample_of :: "node list \<Rightarrow> nset" where
  "sample_of ns = \<lparr>s_m = map (\<lambda>n. (n_ID n, n)) ns, s_max = int (length ns),
                   s_candidates = int (length (filter isELCandidate ns))\<rparr>"

lemmas sample_simps = sample_node_def sample_of_def zeroNode_def nset_ok_def node_ok_def layers_def
  gomap_ok_def isELCandidate_def Len_def lookup_def

section \<open>Runs\<close>

lemma evict_max: "evictForLocked c s = (r, s') \<Longrightarrow> s_max s' = s_max s"
  by (metis evict_frame snd_conv)

lemma reachable_max: "nset_reachable env mx P s \<Longrightarrow> s_max s = mx"
proof (induction rule: nset_reachable.induct)
  case (reach_ingest s rs)
  then show ?case using restores_max [OF Ingest_restores [OF reachable_shape]] by metis
next
  case (reach_step s s')
  then show ?case using nset_step_refines reachable_shape effect_max by metis
qed (simp add: NewWithLimit_def)

text \<open>
  C1: in every state the set can reach, by any interleaving of its critical sections and with any
  snapshots restored in between, whatever their rows hold, each identity occurs once and is filed
  under its own key of 32 bytes, the candidate counter is exact, and the configured capacity is
  respected. When moreover every restored row has a score between 0 and the cap, a known layer and no
  head time without a head (which no code checks; \<open>P\<close> is whatever is known of the rows), every node
  is well formed.
\<close>

theorem reachable_invariant:
  assumes "nset_reachable env mx P s"
  shows "distinct (map fst (s_m s)) \<and>
         (\<forall>(i, n) \<in> set (s_m s). n_ID n = i \<and> length i = 32) \<and>
         CountELCandidates s = int (length (filter isELCandidate (map snd (s_m s)))) \<and>
         (0 < mx \<longrightarrow> Len s \<le> mx) \<and>
         ((\<forall>r. P r \<longrightarrow> 0 \<le> r_Score r \<and> r_Score r \<le> scoreCap \<and> r_Layer r \<in> {[], ''el'', ''cl''} \<and>
             (r_Head r = 0 \<longrightarrow> r_HeadObservedAt r = 0)) \<longrightarrow>
           (\<forall>(i, n) \<in> set (s_m s). node_ok n))"
proof -
  have c: "count_vals isELCandidate m = length (filter isELCandidate (map snd m))" for m :: "(node_id, node) gomap"
    by (simp add: count_vals_def filter_map comp_def)
  have "\<forall>(i, n) \<in> set (s_m s). node_ok n"
    if "\<forall>r. P r \<longrightarrow> 0 \<le> r_Score r \<and> r_Score r \<le> scoreCap \<and> r_Layer r \<in> {[], ''el'', ''cl''} \<and> (r_Head r = 0 \<longrightarrow> r_HeadObservedAt r = 0)"
    using reachable_ok [OF assms] that by (auto simp: row_ok_def layers_def nset_ok_def)
  moreover have "distinct (map fst (s_m s)) \<and> (\<forall>(i, n) \<in> set (s_m s). n_ID n = i \<and> length i = 32) \<and>
      CountELCandidates s = int (length (filter isELCandidate (map snd (s_m s)))) \<and> (0 < mx \<longrightarrow> Len s \<le> mx)"
    using reachable_shape [OF assms] reachable_max [OF assms]
    by (auto simp: c nset_shape_def gomap_ok_def CountELCandidates_def)
  ultimately show ?thesis by blast
qed

theorem reachable_invariant_witness:
  "distinct (map fst (s_m sample_set)) \<and> Len sample_set \<le> 3 \<and> s_m sample_set \<noteq> [] \<and>
   CountELCandidates sample_set = int (length (filter isELCandidate (map snd (s_m sample_set)))) \<and>
   node_ok (snd (hd (s_m sample_set)))"
proof -
  have ne: "s_m sample_set \<noteq> []" by code_simp
  then have "hd (s_m sample_set) \<in> set (s_m sample_set)" by simp
  then show ?thesis using ne reachable_invariant [OF sample_set_reachable] by (auto simp: case_prod_beta)
qed

text \<open>
  C2: every critical section of the set that takes the write lock, whatever its arguments, does no
  more than its abstract specification allows. A section of the running crawler removes unpinned
  nodes, lets one tracked node evolve, or makes room for and adds one well-formed node; the section
  that restores a snapshot drops each row or gives it its key, overwriting the node there and
  evicting only unpinned nodes for a new key. Either way the set keeps its shape, and a section of
  the running crawler also keeps its nodes well formed.
\<close>

theorem sections_refine_effect:
  assumes "nset_section env s s'" and "nset_shape s"
  shows "(effect s s' \<or> (\<exists>rs. s' = snd (Ingest env rs s) \<and> restores rs s s')) \<and> nset_shape s' \<and>
    (nset_step env s s' \<longrightarrow> effect s s' \<and> (nset_ok s \<longrightarrow> nset_ok s'))"
  using assms
proof cases
  case sec_step
  then show ?thesis
    using assms(2) nset_step_refines [of env s s'] effect_shape [of s s'] effect_ok [of s s'] by blast
next
  case (sec_ingest rs)
  then show ?thesis
    using assms(2) Ingest_restores [of s rs env] restores_shape [of rs s s'] nset_step_refines [of env s s'] effect_ok [of s s'] by blast
qed

theorem sections_refine_effect_witness:
  "effect (sample_of [sample_node 1]) (Penalize (replicate 32 1) 2000 (sample_of [sample_node 1])) \<and>
   nset_ok (Penalize (replicate 32 1) 2000 (sample_of [sample_node 1]))"
proof -
  have ok: "nset_ok (sample_of [sample_node 1])" by (simp add: sample_simps)
  have st: "nset_step sample_env (sample_of [sample_node 1]) (Penalize (replicate 32 1) 2000 (sample_of [sample_node 1]))"
    by (rule st_penalize)
  show ?thesis
    using sections_refine_effect [OF sec_step [OF st] nset_ok_shape [OF ok]] st ok by simp
qed

text \<open>
  C10: no run of the set, however its operations interleave, loses a pinned node (a configured
  devnet seed): it stays tracked and pinned.
\<close>

theorem run_keeps_pinned:
  assumes "(nset_step env)\<^sup>*\<^sup>* s s'" and "nset_ok s" and "lookup s i = Some n" and "n_pinned n"
  shows "\<exists>n'. lookup s' i = Some n' \<and> n_pinned n'"
  using assms(1)
proof (induction rule: rtranclp_induct)
  case (step t u)
  then have "effect t u" using nset_steps_ok assms(2) nset_step_refines nset_ok_shape by metis
  with step show ?case using effect_pinned by metis
qed (use assms in simp)

theorem run_keeps_pinned_witness:
  "\<exists>n'. lookup (snd (PruneStaleWithVerified 5000 5000
            (Penalize (replicate 32 1) 2000 (sample_of [(sample_node 1)\<lparr>n_pinned := True\<rparr>]))))
          (replicate 32 1) = Some n' \<and> n_pinned n'"
proof (rule run_keeps_pinned)
  let ?s = "sample_of [(sample_node 1)\<lparr>n_pinned := True\<rparr>]"
  show "nset_ok ?s" by (simp add: sample_simps)
  show "lookup ?s (replicate 32 1) = Some ((sample_node 1)\<lparr>n_pinned := True\<rparr>)"
    by (simp add: sample_simps)
  show "(nset_step sample_env)\<^sup>*\<^sup>* ?s
    (snd (PruneStaleWithVerified 5000 5000 (Penalize (replicate 32 1) 2000 ?s)))"
    by (meson st_penalize st_prune r_into_rtranclp rtranclp.rtrancl_into_rtrancl)
qed simp

definition keeps :: "node \<Rightarrow> node \<Rightarrow> bool" where
  "keeps n n' \<longleftrightarrow> n_Seq n \<le> n_Seq n' \<and> n_FirstSeen n' = n_FirstSeen n \<and>
     (n_Network n \<noteq> [] \<longrightarrow> n_Network n' \<noteq> []) \<and> (n_Layer n \<noteq> [] \<longrightarrow> n_Layer n' \<noteq> [])"

text \<open>
  C11: while a node stays tracked, no run takes it back to a record with a lower sequence number,
  loses its network classification or its layer, or forgets when it was first seen.
\<close>

theorem run_never_rolls_back:
  assumes "(\<lambda>t u. nset_step env t u \<and> lookup u i \<noteq> None)\<^sup>*\<^sup>* s s'"
    and "nset_ok s" and "lookup s i = Some n" and "lookup s' i = Some n'"
  shows "n_Seq n \<le> n_Seq n' \<and> n_FirstSeen n' = n_FirstSeen n \<and>
         (n_Network n \<noteq> [] \<longrightarrow> n_Network n' \<noteq> []) \<and> (n_Layer n \<noteq> [] \<longrightarrow> n_Layer n' \<noteq> [])"
proof -
  have "nset_ok s' \<and> (\<exists>n'. lookup s' i = Some n' \<and> keeps n n')"
    using assms(1)
  proof (induction rule: rtranclp_induct)
    case base
    then show ?case using assms by (simp add: keeps_def)
  next
    case (step t u)
    from step.IH obtain m where t: "nset_ok t" and m: "lookup t i = Some m" "keeps n m" by blast
    from step.hyps(2) obtain k where u: "nset_step env t u" and k: "lookup u i = Some k" by blast
    have "effect t u" and ok: "nset_ok u" using nset_step_refines [OF u nset_ok_shape [OF t]] nset_step_ok [OF u t] by auto
    then have "evolves m k" using m(1) k by (intro effect_evolves)
    then have "keeps m k" by (simp add: evolves_def keeps_def)
    with m(2) have "keeps n k" unfolding keeps_def by (metis order.trans)
    with k ok show ?case by blast
  qed
  with assms(4) show ?thesis by (simp add: keeps_def)
qed

theorem run_never_rolls_back_witness:
  "n_Seq (sample_node 1) \<le> n_Seq (the (lookup (Penalize (replicate 32 1) 2000
     (sample_of [(sample_node 1)\<lparr>n_fpAttempts := 1\<rparr>])) (replicate 32 1)))"
proof -
  let ?n = "(sample_node 1)\<lparr>n_fpAttempts := 1\<rparr>"
  let ?s = "sample_of [?n]" and ?i = "replicate 32 1 :: byte list"
  have ok: "nset_ok ?s" by (simp add: sample_simps)
  have l: "lookup ?s ?i = Some ?n" by (simp add: sample_simps)
  have p: "lookup (Penalize ?i 2000 ?s) ?i = Some (?n\<lparr>n_LastCheck := 2000, n_Score := 0\<rparr>)"
    using l by (simp add: Penalize_def penalizeLocked_def Let_def sample_node_def zeroNode_def sdiv_two)
  have "(\<lambda>t u. nset_step sample_env t u \<and> lookup u ?i \<noteq> None)\<^sup>*\<^sup>* ?s (Penalize ?i 2000 ?s)"
    using p by (intro r_into_rtranclp) (auto intro: st_penalize)
  from run_never_rolls_back [OF this ok l p] p show ?thesis by simp
qed

text \<open>
  C12: a chain head never outlives the network or the layer it belongs to: a section that moves
  a node to another network or layer leaves no head, and no head is ever kept without the
  instant it was observed being cleared with it.
\<close>

theorem head_follows_network:
  assumes "nset_step env s s'" and "nset_ok s" and "lookup s i = Some n" and "lookup s' i = Some n'"
  shows "(n_Network n' \<noteq> n_Network n \<longrightarrow> n_Head n' = 0) \<and>
         (n_Layer n \<noteq> [] \<and> n_Layer n' \<noteq> n_Layer n \<longrightarrow> n_Head n' = 0) \<and>
         (n_Head n' = 0 \<longrightarrow> n_HeadObservedAt n' = time_zero)"
proof -
  have "evolves n n'" using assms nset_step_refines nset_ok_shape effect_evolves by metis
  moreover have "node_ok n'" using assms nset_step_ok nset_okD(3) by metis
  ultimately show ?thesis by (simp add: evolves_def node_ok_def)
qed

theorem head_follows_network_witness:
  "n_Head (case lookup (snd (SetExecutionStatusAt (replicate 32 1) ''hoodi'' \<lparr>fid_Hash = [1, 2, 3, 4], fid_Next = 0\<rparr>
      2000 (sample_of [(sample_node 1)\<lparr>n_Head := 99, n_HeadObservedAt := 1500\<rparr>]))) (replicate 32 1)
     of Some n \<Rightarrow> n) = 0"
proof -
  let ?n = "(sample_node 1)\<lparr>n_Head := 99, n_HeadObservedAt := 1500\<rparr>"
  let ?s = "sample_of [?n]" and ?i = "replicate 32 1 :: byte list"
  let ?t = "snd (SetExecutionStatusAt ?i ''hoodi'' \<lparr>fid_Hash = [1, 2, 3, 4], fid_Next = 0\<rparr> 2000 ?s)"
  have ok: "nset_ok ?s" by (simp add: sample_simps)
  have l: "lookup ?s ?i = Some ?n" by (simp add: sample_simps)
  obtain n' where n': "lookup ?t ?i = Some n'" "n_Network n' = ''hoodi''"
    using l by (simp add: SetExecutionStatusAt_def Let_def creditStatusSightingLocked_def sample_node_def)
  from head_follows_network [OF st_statusEL ok l n'(1)] n' show ?thesis
    by (simp add: sample_node_def)
qed

end
