(* ===== verification/EvictionProps.thy ===== *)
theory EvictionProps
  imports NodeSetProps
begin

text \<open>
  Capacity: what an eviction removes, that the outcome does not depend on the order in which Go
  iterates over the map, what a stale record and a penalty may change, the candidate cap, and
  what pruning removes.
\<close>

section \<open>Eviction\<close>

lemma nodes_of_set:
  assumes "nset_ok s"
  shows "n \<in> snd ` set (s_m s) \<longleftrightarrow> lookup s (n_ID n) = Some n"
proof -
  have "n \<in> snd ` set (s_m s) \<longleftrightarrow> (\<exists>i. (i, n) \<in> set (s_m s))" by force
  then show ?thesis using node_in_set [OF nset_okD(1) [OF assms]] nset_okD(2) [OF assms] by metis
qed

lemma distinct_nodes:
  assumes "nset_ok s"
  shows "distinct (map n_ID (map snd (s_m s)))"
proof -
  have "map n_ID (map snd (s_m s)) = map fst (s_m s)" using assms by (auto simp: nset_ok_def)
  moreover have "distinct (map fst (s_m s))" using assms by (simp add: nset_ok_def gomap_ok_def)
  ultimately show ?thesis by (simp only:)
qed

lemma victims_length:
  "length (victims c s) = min (nat (evict_batch s)) (length (worst_nodes c (map snd (s_m s))))"
  using victims_best [of s c] by (simp add: best_of_def)

lemma victims_mem: "v \<in> set (victims c s) \<Longrightarrow> v \<in> set (worst_nodes c (map snd (s_m s)))"
  using victims_evictable [of v c s] by (auto simp: worst_nodes_def)

text \<open>A node of the worst class that is spared comes later in the eviction order.\<close>

lemma spared_later:
  assumes "v \<in> set (victims c s)" and "n \<in> set (worst_nodes c (map snd (s_m s)))"
    and "n \<notin> set (victims c s)"
  shows "\<not> evictBefore n v"
proof -
  have "n \<in># mset (worst_nodes c (map snd (s_m s))) - mset (victims c s)"
    using assms(2,3) by (metis count_eq_zero_iff count_greater_zero_iff diff_zero in_diff_count set_mset_mset)
  then show ?thesis using victims_best [of s c] assms(1) by (auto simp: best_of_def)
qed

lemma victims_distinct:
  assumes "nset_ok s"
  shows "distinct (map n_ID (victims c s))"
proof -
  let ?w = "worst_nodes c (map snd (s_m s))"
  have sub: "mset (victims c s) \<subseteq># mset ?w" using victims_best by (simp add: best_of_def)
  have dw: "distinct (map n_ID ?w)"
    using distinct_nodes [OF assms] by (simp add: worst_nodes_def distinct_map_filter)
  have "mset (map n_ID (victims c s)) \<subseteq># mset (map n_ID ?w)"
    using image_mset_subseteq_mono [OF sub] by simp
  then have "count (mset (map n_ID (victims c s))) x \<le> 1" for x
    using dw by (metis count_mset_0_iff distinct_count_atmost_1 le_zero_eq mset_subset_eq_count order.trans zero_le_one order_refl)
  then show ?thesis by (metis distinct_count_atmost_1 le_antisym count_greater_eq_one_iff count_mset_0_iff not_in_iff set_mset_mset)
qed

lemma foldl_max_mem: "foldl max (k :: nat) xs = k \<or> foldl max k xs \<in> set xs"
proof (induction xs arbitrary: k)
  case (Cons x xs)
  then show ?case using Cons.IH [of "max k x"] by (auto simp: max_def)
qed simp

lemma worst_class_attained:
  assumes "n \<in> set ns" and "evictable c n"
  shows "\<exists>m \<in> set ns. evictable c m \<and> capacityClass m = worst_class c ns"
proof -
  have "worst_class c ns \<noteq> c" using worst_class_ge(2) [OF assms] assms(2) by (auto simp: evictable_def)
  then have "worst_class c ns \<in> set (map capacityClass (filter (evictable c) ns))"
    using foldl_max_mem unfolding worst_class_def by metis
  then show ?thesis by auto
qed

lemma victims_empty_iff:
  assumes "nset_ok s"
  shows "victims c s = [] \<longleftrightarrow> (\<forall>n \<in> snd ` set (s_m s). \<not> evictable c n)"
proof -
  let ?ns = "map snd (s_m s)"
  have "0 < nat (evict_batch s)" by (simp add: evict_batch_def)
  then have "victims c s = [] \<longleftrightarrow> worst_nodes c ?ns = []"
    using victims_length [of c s] by (metis length_0_conv less_numeral_extra(3) min_0R min_def)
  also have "\<dots> \<longleftrightarrow> (\<forall>n \<in> set ?ns. \<not> evictable c n)"
    using worst_class_attained [of _ ?ns c] by (auto simp: worst_nodes_def filter_empty_conv)
  finally show ?thesis by simp
qed


text \<open>
  C13: an eviction on behalf of a record of a given capacity class fails exactly when no unpinned
  node has a strictly lower priority. Otherwise it removes a batch of at most
  \<open>max 64 (limit/1000)\<close> nodes, all unpinned, all of one class of strictly lower priority, and
  every unpinned node that stays is of a class at least as good and, within that class, comes
  later in the eviction order. All other nodes are untouched.
\<close>

theorem eviction_correct:
  assumes "nset_ok s" and "evictForLocked c s = ((k, cls), s')"
  shows "(k = 0 \<longleftrightarrow> (\<forall>(i, n) \<in> set (s_m s). n_pinned n \<or> capacityClass n \<le> c)) \<and>
         (\<exists>vs. length vs = k \<and> distinct (map n_ID vs) \<and> int k \<le> max 64 (s_max s sdiv 1000) \<and>
            (\<forall>j. lookup s' j = (if j \<in> n_ID ` set vs then None else lookup s j)) \<and>
            (\<forall>v \<in> set vs. lookup s (n_ID v) = Some v \<and> \<not> n_pinned v \<and> c < capacityClass v \<and>
               cls = capacityClassNames ! capacityClass v \<and>
               (\<forall>j n. lookup s' j = Some n \<and> \<not> n_pinned n \<longrightarrow>
                  capacityClass n < capacityClass v \<or> capacityClass n = capacityClass v \<and> evictBefore v n)))"
proof -
  let ?vs = "victims c s" and ?ns = "map snd (s_m s)"
  let ?w = "worst_nodes c ?ns"
  have res: "k = length ?vs" "\<And>j. lookup s' j = (if j \<in> n_ID ` set ?vs then None else lookup s j)"
    "?vs \<noteq> [] \<Longrightarrow> cls = capacityClassNames ! worst_class c ?ns"
    using assms(2) by (auto simp: evictForLocked_eq lookup_delete_all split: if_splits)
  have zero: "k = 0 \<longleftrightarrow> (\<forall>(i, n) \<in> set (s_m s). n_pinned n \<or> capacityClass n \<le> c)"
    using res(1) victims_empty_iff [OF assms(1), of c] by (auto simp: evictable_def)
  have batch: "int k \<le> max 64 (s_max s sdiv 1000)"
    using victims_length [of c s] res(1) unfolding evict_batch_def by linarith
  have later: "capacityClass n < capacityClass v \<or> capacityClass n = capacityClass v \<and> evictBefore v n"
    if v: "v \<in> set ?vs" and n: "lookup s' j = Some n" "\<not> n_pinned n" for v j n
  proof -
    have nj: "lookup s j = Some n" "n_ID n = j" "n \<notin> set ?vs" "n_ID n \<noteq> n_ID v"
      using n res(2) [of j] nset_okD(2) [OF assms(1)] v by (auto split: if_splits)
    have ns: "n \<in> set ?ns" using nj nodes_of_set [OF assms(1), of n] by auto
    note vv = victims_evictable [OF v]
    show ?thesis
    proof (cases "evictable c n \<and> capacityClass n = worst_class c ?ns")
      case True
      then have "n \<in> set ?w" using ns by (simp add: worst_nodes_def)
      then have "\<not> evictBefore n v" using spared_later [OF v _ nj(3)] by blast
      then show ?thesis using evictBefore_total [OF nj(4)] True vv(3) by auto
    next
      case False
      then show ?thesis
        using vv worst_class_ge(2) [OF ns, of c] n(2) by (auto simp: evictable_def)
    qed
  qed
  have v: "lookup s (n_ID v) = Some v \<and> \<not> n_pinned v \<and> c < capacityClass v \<and>
      cls = capacityClassNames ! capacityClass v" if "v \<in> set ?vs" for v
  proof -
    have "?vs \<noteq> []" using that by auto
    then show ?thesis
      using victim_tracked [OF nset_ok_shape [OF assms(1)] that] victims_evictable [OF that] res(3) by (simp add: evictable_def)
  qed
  have "\<exists>vs. length vs = k \<and> distinct (map n_ID vs) \<and> int k \<le> max 64 (s_max s sdiv 1000) \<and>
      (\<forall>j. lookup s' j = (if j \<in> n_ID ` set vs then None else lookup s j)) \<and>
      (\<forall>v \<in> set vs. lookup s (n_ID v) = Some v \<and> \<not> n_pinned v \<and> c < capacityClass v \<and>
         cls = capacityClassNames ! capacityClass v \<and>
         (\<forall>j n. lookup s' j = Some n \<and> \<not> n_pinned n \<longrightarrow>
            capacityClass n < capacityClass v \<or> capacityClass n = capacityClass v \<and> evictBefore v n))"
    using res(1,2) batch victims_distinct [OF assms(1), of c] v later
    by (intro exI [of _ ?vs] conjI ballI allI impI) blast+
  with zero show ?thesis by blast
qed


definition sample_full :: nset where
  "sample_full = sample_of [sample_node 1, (sample_node 2)\<lparr>n_Network := []\<rparr>,
                            (sample_node 3)\<lparr>n_Network := [], n_pinned := True\<rparr>]"

lemma sample_full_ok: "nset_ok sample_full"
  by (simp add: sample_full_def sample_simps)

theorem eviction_correct_witness:
  "\<exists>v. lookup sample_full (n_ID v) = Some v \<and> \<not> n_pinned v \<and> 1 < capacityClass v \<and>
       lookup (snd (evictForLocked 1 sample_full)) (n_ID v) = None"
proof -
  have k: "fst (fst (evictForLocked 1 sample_full)) = 1" by code_simp
  obtain x cls s' where e: "evictForLocked 1 sample_full = ((x, cls), s')" by (metis surj_pair)
  with k have e1: "evictForLocked 1 sample_full = ((1, cls), s')" by simp
  from eviction_correct [OF sample_full_ok e1] obtain vs where vs: "length vs = 1"
    "\<forall>j. lookup s' j = (if j \<in> n_ID ` set vs then None else lookup sample_full j)"
    "\<forall>v \<in> set vs. lookup sample_full (n_ID v) = Some v \<and> \<not> n_pinned v \<and> 1 < capacityClass v" by blast
  then obtain v where "v \<in> set vs" by (cases vs) auto
  with vs e1 show ?thesis by (intro exI [of _ v]) auto
qed

lemma evict_batch_eq: "s_max s' = s_max s \<Longrightarrow> evict_batch s' = evict_batch s"
  by (simp add: evict_batch_def)

lemma foldl_max_mset: "mset xs = mset ys \<Longrightarrow> foldl max (k :: nat) xs = foldl max k ys"
proof -
  have "foldl max k xs = Max (insert k (set xs))" for xs :: "nat list"
  proof (induction xs arbitrary: k)
    case (Cons x xs)
    show ?case using Cons.IH [of "max k x"] by (cases "set xs = {}") (simp_all add: ac_simps)
  qed simp
  then show "mset xs = mset ys \<Longrightarrow> foldl max k xs = foldl max k ys" by (metis set_mset_mset)
qed

lemma worst_nodes_perm:
  assumes "mset ns = mset ms"
  shows "worst_class c ns = worst_class c ms" and "mset (worst_nodes c ns) = mset (worst_nodes c ms)"
proof -
  have "mset (map capacityClass (filter (evictable c) ns)) = mset (map capacityClass (filter (evictable c) ms))"
    using assms by simp
  then show w: "worst_class c ns = worst_class c ms"
    unfolding worst_class_def by (rule foldl_max_mset)
  show "mset (worst_nodes c ns) = mset (worst_nodes c ms)"
    using assms by (simp add: worst_nodes_def w)
qed

text \<open>
  C14: the outcome of an eviction does not depend on the order in which the map is iterated: any
  order of the same entries gives the same count, the same class name and the same survivors.
\<close>

theorem eviction_order_free:
  assumes "nset_ok s" and "mset (s_m t) = mset (s_m s)" and "s_max t = s_max s"
  shows "fst (evictForLocked c t) = fst (evictForLocked c s) \<and>
         (\<forall>j. lookup (snd (evictForLocked c t)) j = lookup (snd (evictForLocked c s)) j)"
proof -
  let ?ns = "map snd (s_m s)" and ?ms = "map snd (s_m t)"
  have p: "mset ?ms = mset ?ns" using assms(2) by simp
  have tot: "evictBefore a b \<or> evictBefore b a"
    if "a \<in> set (worst_nodes c ?ns)" "b \<in> set (worst_nodes c ?ns)" "a \<noteq> b" for a b
  proof -
    have "a \<in> set ?ns" "b \<in> set ?ns" using that by (auto simp: worst_nodes_def)
    then have "n_ID a \<noteq> n_ID b" using nodes_of_set [OF assms(1)] that(3) by fastforce
    then show ?thesis by (rule evictBefore_total)
  qed
  have v: "mset (victims c t) = mset (victims c s)"
  proof (rule best_of_unique)
    show "best_of evictBefore (nat (evict_batch s)) (mset (worst_nodes c ?ns)) (mset (victims c t))"
      using victims_best [of t c] worst_nodes_perm(2) [OF p] evict_batch_eq [OF assms(3)] by metis
    show "best_of evictBefore (nat (evict_batch s)) (mset (worst_nodes c ?ns)) (mset (victims c s))"
      by (rule victims_best)
  qed (use tot in simp)
  have l: "lookup t j = lookup s j" for j
    using assms(1,2) unfolding lookup_def nset_ok_def gomap_ok_def by (metis map_of_eqI_mset)
  have "set (victims c t) = set (victims c s)" "length (victims c t) = length (victims c s)"
    using v by (metis set_mset_mset, metis size_mset)
  then show ?thesis
    using worst_nodes_perm(1) [OF p] l by (auto simp: evictForLocked_eq lookup_delete_all)
qed


theorem eviction_order_free_witness:
  "fst (evictForLocked 1 (sample_full\<lparr>s_m := rev (s_m sample_full)\<rparr>)) = fst (evictForLocked 1 sample_full)"
  using eviction_order_free [OF sample_full_ok, of "sample_full\<lparr>s_m := rev (s_m sample_full)\<rparr>" 1] by simp

section \<open>Records that are not newer, and failed resolutions\<close>

text \<open>A node without its liveness: score, sightings and pin.\<close>

definition record_part :: "node \<Rightarrow> node" where
  "record_part n = n\<lparr>n_Score := 0, n_HasV4 := False, n_HasV5 := False, n_LastSeen := 0, n_LastCheck := 0,
                     n_LastResolved := 0, n_pinned := False\<rparr>"

lemma penalize_record_part:
  assumes "penalizeLocked n = (d, n')"
  shows "record_part n' = record_part n" "n_pinned n' = n_pinned n"
  using assms by (auto simp: penalizeLocked_def record_part_def Let_def split: if_splits)

lemma penalize_del:
  assumes "penalizeLocked n = (True, n')"
  shows "\<not> n_fpDone n" "n_fpAttempts n = 0" "\<not> n_fpInFlight n"
  using assms by (auto simp: penalizeLocked_def Let_def split: if_splits)

lemma touch_record_part:
  assumes "touchObservationLocked n via now ex fr pin = (False, n')"
  shows "record_part n' = record_part n" "n_LastSeen n' = now" "n_LastCheck n' = now"
    "n_pinned n' \<longleftrightarrow> n_pinned n \<or> pin"
proof -
  obtain d n1 where n1: "(if ex \<and> fr \<and> \<not> n_pinned n then penalizeLocked n
         else if ex \<and> \<not> fr \<and> n_Score n < scoreCap then (False, n\<lparr>n_Score := n_Score n + 1\<rparr>)
         else (False, n)) = (d, n1)" by (metis surj_pair)
  then have p: "record_part n1 = record_part n" "n_pinned n1 = n_pinned n"
    using penalize_record_part [of n d n1] by (auto simp: record_part_def split: if_splits)
  have "\<not> d" using assms n1 by (auto simp: touchObservationLocked_def split: if_splits)
  then have n': "n' = (let cur = (if pin then n1\<lparr>n_Score := scoreCap, n_pinned := True\<rparr> else n1);
               cur = cur\<lparr>n_LastSeen := now, n_LastCheck := now\<rparr>;
               cur = (if \<not> fr \<and> (via = ''v4'' \<or> via = ''v5'')
                      then cur\<lparr>n_LastResolved := now\<rparr> else cur)
             in (if via = ''v4'' then cur\<lparr>n_HasV4 := True\<rparr>
                      else if via = ''v5'' then cur\<lparr>n_HasV5 := True\<rparr> else cur))"
    using assms n1 by (simp add: touchObservationLocked_def Let_def)
  have "record_part n' = record_part n1" by (simp add: n' Let_def record_part_def)
  with p show "record_part n' = record_part n" by simp
  show "n_LastSeen n' = now" "n_LastCheck n' = now" "n_pinned n' \<longleftrightarrow> n_pinned n \<or> pin"
    using p(2) by (simp_all add: n' Let_def)
qed

lemma touch_del_unverified:
  assumes "touchObservationLocked n via now ex fr pin = (True, n')"
  shows "\<not> n_fpDone n"
proof -
  have "ex" "fr" "\<not> n_pinned n" using touch_del [OF assms] by auto
  then have "fst (penalizeLocked n)"
    using assms by (auto simp: touchObservationLocked_def Let_def split: prod.splits if_splits)
  then show ?thesis using penalize_del(1) [of n "snd (penalizeLocked n)"] by (metis prod.collapse)
qed

text \<open>
  A record whose sequence number is lower than the one held is accepted as a sighting but
  changes nothing of the node except its liveness: score, protocol flags, last sighting, last
  check, last resolution and the pin. At most it is dropped, by the decay of a failed
  resolution, when it is neither pinned nor verified. Every other node is untouched.
\<close>

theorem stale_record_only_liveness:
  assumes "addressReject env n = []" and "lookup s (en_ID n) = Some cur" and "en_Seq n < n_Seq cur"
    and "observe env n via now forceNetwork forceLayer fr pin s = (r, s')"
  shows "r = accepted \<and> (\<forall>j. j \<noteq> en_ID n \<longrightarrow> lookup s' j = lookup s j) \<and>
         (case lookup s' (en_ID n) of
            None \<Rightarrow> fr \<and> \<not> n_pinned cur \<and> \<not> n_fpDone cur
          | Some n' \<Rightarrow> record_part n' = record_part cur \<and> n_LastSeen n' = now \<and> n_LastCheck n' = now \<and>
                       (n_pinned n' \<longleftrightarrow> n_pinned cur \<or> pin))"
proof -
  obtain d c where t: "touchObservationLocked cur via now True fr pin = (d, c)" by fastforce
  have r: "r = accepted" and s': "s' = (if d then deleteLocked (en_ID n) (put (en_ID n) c s) else put (en_ID n) c s)"
    using assms t by (auto simp: observe_def observe_stale_def Let_def)
  show ?thesis
  proof (cases d)
    case True
    then show ?thesis
      using r s' t touch_del [of cur via now True fr pin c] touch_del_unverified [of cur via now True fr pin c]
      by simp
  next
    case False
    then show ?thesis using r s' t touch_record_part [of cur via now True fr pin c] by simp
  qed
qed

theorem stale_record_only_liveness_witness:
  "let s' = snd (observe sample_env (sample_enode 1 3 7) ''v4'' 9000 [] [] False False sample_full)
   in map_option record_part (lookup s' (replicate 32 1)) = Some (record_part (sample_node 1)) \<and>
      lookup s' (replicate 32 2) = lookup sample_full (replicate 32 2)"
proof -
  have a: "addressReject sample_env (sample_enode 1 3 7) = []" by code_simp
  have l: "lookup sample_full (en_ID (sample_enode 1 3 7)) = Some (sample_node 1)"
    by (simp add: sample_full_def sample_simps)
  have q: "en_Seq (sample_enode 1 3 7) < n_Seq (sample_node 1)" by (simp add: sample_simps)
  have n: "(replicate 32 2 :: byte list) \<noteq> replicate 32 1" by simp
  obtain r s' where o: "observe sample_env (sample_enode 1 3 7) ''v4'' 9000 [] [] False False sample_full = (r, s')"
    by fastforce
  from stale_record_only_liveness [OF a l q o] n show ?thesis
    by (auto simp: o Let_def split: option.splits)
qed


section \<open>Candidate cap, decay and pruning\<close>

text \<open>
  With a positive limit, neither admitting an unsigned execution endpoint nor converting a
  layerless record takes the number of retained candidates above that limit.
\<close>

theorem candidate_cap:
  assumes "0 < lim"
  shows "CountELCandidates (snd (ObserveCandidateEL env n now lim s)) \<le> max lim (CountELCandidates s) \<and>
         CountELCandidates (snd (SetExecutionCandidateLayer i lim s)) \<le> max lim (CountELCandidates s)"
  using assms
  by (auto simp: CountELCandidates_def ObserveCandidateEL_def candidate_locked_def Let_def
      SetExecutionCandidateLayer_def isELCandidate_def split: option.splits prod.splits)

theorem candidate_cap_witness:
  "CountELCandidates (snd (ObserveCandidateEL sample_env (sample_enode 9 1 0) 50 1
     (sample_of [(sample_node 2)\<lparr>n_Network := []\<rparr>]))) \<le> 1"
  using candidate_cap [of 1 sample_env "sample_enode 9 1 0" 50 "sample_of [(sample_node 2)\<lparr>n_Network := []\<rparr>]" "[]"]
  by (simp add: CountELCandidates_def sample_simps)

text \<open>
  A node that never cost a fingerprint connection is dropped after at most two consecutive
  penalties, whatever score it had; a pinned node, or one with a fingerprint or an attempt behind
  it, survives every penalty with a score that is never negative.
\<close>

theorem penalty_decay:
  assumes "nset_ok s" and "lookup s i = Some n"
  shows "(if n_pinned n \<or> n_fpDone n \<or> n_fpAttempts n \<noteq> 0 \<or> n_fpInFlight n
          then \<exists>n'. lookup (Penalize i t s) i = Some n' \<and> 0 \<le> n_Score n' \<and> n_Score n' \<le> n_Score n
          else lookup (Penalize i t' (Penalize i t s)) i = None)"
proof -
  have sc: "0 \<le> n_Score n" "n_Score n \<le> 10" using nset_okD(3) [OF assms] by (auto simp: node_ok_def)
  show ?thesis
  proof (cases "n_pinned n \<or> n_fpDone n \<or> n_fpAttempts n \<noteq> 0 \<or> n_fpInFlight n")
    case True
    have "n_Score n div 2 - 2 \<le> n_Score n" using sc by linarith
    with True show ?thesis
      using assms(2) sc by (auto simp: Penalize_def penalizeLocked_def Let_def sdiv_two)
  next
    case False
    have "n_Score n div 2 - 2 \<le> 0 \<or> (n_Score n div 2 - 2) div 2 - 2 \<le> 0 \<and> 0 \<le> n_Score n div 2 - 2"
      using sc by linarith
    then show ?thesis
      using assms(2) sc False by (auto simp: Penalize_def penalizeLocked_def Let_def sdiv_two)
  qed
qed

theorem penalty_decay_witness:
  "lookup (Penalize (replicate 32 1) 3000 (Penalize (replicate 32 1) 2000 sample_full)) (replicate 32 1) = None"
proof -
  have "lookup sample_full (replicate 32 1) = Some (sample_node 1)" by (simp add: sample_full_def sample_simps)
  from penalty_decay [OF sample_full_ok this, of 2000 3000] show ?thesis
    by (simp add: sample_node_def zeroNode_def)
qed

lemma prune_fold:
  assumes "nset_ok s" and "distinct (map fst es)" and "\<And>i n. (i, n) \<in> set es \<Longrightarrow> lookup s i = Some n"
  shows "(\<forall>j. lookup (snd (foldl (prune_step c v) (k, s) es)) j =
            (case map_of es j of Some n \<Rightarrow> if prune_stale c v n then None else lookup s j | None \<Rightarrow> lookup s j)) \<and>
         int (fst (foldl (prune_step c v) (k, s) es)) + Len (snd (foldl (prune_step c v) (k, s) es)) =
           int k + Len s"
  using assms
proof (induction es arbitrary: k s)
  case (Cons e es)
  obtain i n where e: "e = (i, n)" by fastforce
  have li: "lookup s i = Some n" using Cons.prems e by simp
  have ni: "map_of es i = None" using Cons.prems e by (simp add: map_of_eq_None_iff)
  let ?s = "if prune_stale c v n then deleteLocked i s else s"
  have st: "prune_step c v (k, s) e = (if prune_stale c v n then k + 1 else k, ?s)"
    by (simp add: prune_step_def e)
  have "nset_ok ?s" using Cons.prems by (simp add: nset_ok_delete)
  moreover have "lookup ?s j = Some m" if "(j, m) \<in> set es" for j m
    using that Cons.prems e by (auto simp: image_iff)
  moreover have "int (if prune_stale c v n then k + 1 else k) + Len ?s = int k + Len s"
    using li Cons.prems(1) by (simp add: Len_delete nset_ok_shape)
  ultimately show ?case
    using Cons.IH [of ?s "if prune_stale c v n then k + 1 else k"] Cons.prems e ni li
    unfolding foldl_Cons st by (auto split: option.splits)
qed simp

text \<open>
  Pruning removes exactly the unpinned nodes that are too old, and reports how many: an
  unverified node by its last sighting, a verified one by its last authenticated contact, which
  a zero cutoff disables.
\<close>

theorem prune_exact:
  assumes "nset_ok s" and "PruneStaleWithVerified cutoff verifiedCutoff s = (k, s')"
  shows "(\<forall>j n. lookup s' j = Some n \<longleftrightarrow> lookup s j = Some n \<and>
            (n_pinned n \<or>
             (if n_fpDone n
              then verifiedCutoff = time_zero \<or> n_LastResolved n \<noteq> time_zero \<and> verifiedCutoff \<le> n_LastResolved n
              else cutoff \<le> n_LastSeen n))) \<and>
         int k = Len s - Len s'"
proof -
  have "distinct (map fst (s_m s))" using assms(1) by (simp add: nset_ok_def gomap_ok_def)
  from prune_fold [OF assms(1) this, of cutoff verifiedCutoff 0] assms(2)
  have p: "lookup s' j = (case lookup s j of Some n \<Rightarrow> if prune_stale cutoff verifiedCutoff n then None else lookup s j
      | None \<Rightarrow> lookup s j)" and k: "int k + Len s' = Len s" for j
    using node_in_set [OF nset_okD(1) [OF assms(1)]]
    by (auto simp: PruneStaleWithVerified_def lookup_def)
  show ?thesis
    using k by (auto simp: p prune_stale_def time_IsZero_def split: option.splits if_splits)
qed

theorem prune_exact_witness:
  "lookup (snd (PruneStaleWithVerified 5000 5000 sample_full)) (replicate 32 1) = None \<and>
   lookup (snd (PruneStaleWithVerified 5000 5000 sample_full)) (replicate 32 3) \<noteq> None"
proof -
  have 1: "lookup sample_full (replicate 32 1) = Some (sample_node 1)"
    and 3: "lookup sample_full (replicate 32 3) = Some ((sample_node 3)\<lparr>n_Network := [], n_pinned := True\<rparr>)"
    by (simp_all add: sample_full_def sample_simps)
  obtain k s' where e: "PruneStaleWithVerified 5000 5000 sample_full = (k, s')" by fastforce
  note p = prune_exact [OF sample_full_ok e, THEN conjunct1, rule_format]
  have "lookup s' (replicate 32 1) \<noteq> Some n" for n
    using p [of "replicate 32 1" n] 1 by (auto simp: sample_node_def zeroNode_def)
  moreover have "lookup s' (replicate 32 3) \<noteq> None" using p [of "replicate 32 3"] 3 by auto
  ultimately show ?thesis by (auto simp: e)
qed

end
