(* ===== verification/FingerprintProps.thy ===== *)
theory FingerprintProps
  imports EvictionProps
begin

text \<open>
  Fingerprint probes: which nodes a batch selects, that a claim is exclusive until its owner
  completes it, how retries are spaced, and when the result of a probe is discarded.
\<close>

section \<open>Selecting a batch\<close>

definition due_primary :: "gotime \<Rightarrow> nset \<Rightarrow> node list" where
  "due_primary now s = filter (\<lambda>n. fingerprintDue n now \<and> \<not> isELCandidate n) (map snd (s_m s))"

definition due_unpromoted :: "gotime \<Rightarrow> nset \<Rightarrow> node list" where
  "due_unpromoted now s = filter (\<lambda>n. fingerprintDue n now \<and> isELCandidate n) (map snd (s_m s))"

lemma candidate_of_simps [simp]:
  "c_unpromoted (candidate_of n) = isELCandidate n" "c_id (candidate_of n) = n_ID n"
  by (simp_all add: candidate_of_def)

lemma candidates_fold:
  "foldl (candidates_step now) (A, B) ns =
     (offer_all A (map candidate_of (filter (\<lambda>n. fingerprintDue n now \<and> \<not> isELCandidate n) ns)),
      offer_all B (map candidate_of (filter (\<lambda>n. fingerprintDue n now \<and> isELCandidate n) ns)))"
  by (induction ns arbitrary: A B) (simp_all add: candidates_step_def)

definition batch :: "gotime \<Rightarrow> int \<Rightarrow> int \<Rightarrow> nset \<Rightarrow> fingerprintCandidate list" where
  "batch now lim ulim s =
     items (offer_all (newTopK lim fingerprintCandidateBetter) (map candidate_of (due_primary now s))) @
     items (offer_all (newTopK ulim fingerprintCandidateBetter) (map candidate_of (due_unpromoted now s)))"

lemma select_candidates_eq:
  "select_candidates now lim ulim s =
     take (nat lim) (sort_Slice fingerprintCandidateBetter (batch now lim ulim s))"
  by (simp add: select_candidates_def candidates_fold batch_def due_primary_def due_unpromoted_def)

lemma offered_subset:
  "set (items (offer_all (newTopK k fingerprintCandidateBetter) vs)) \<subseteq> set vs"
  "length (items (offer_all (newTopK k fingerprintCandidateBetter) vs)) = min (nat k) (length vs)"
proof -
  have b: "best_of fingerprintCandidateBetter (nat k) (mset vs)
      (mset (items (offer_all (newTopK k fingerprintCandidateBetter) vs)))"
    by (rule due.offer_all_best)
  then show "set (items (offer_all (newTopK k fingerprintCandidateBetter) vs)) \<subseteq> set vs"
    unfolding best_of_def by (metis set_mset_mono set_mset_mset)
  show "length (items (offer_all (newTopK k fingerprintCandidateBetter) vs)) = min (nat k) (length vs)"
    using b by (simp add: best_of_def)
qed

lemma filter_take_bound: "length (filter P xs) \<le> length (filter P (take k xs)) + (length xs - k)"
proof -
  have "filter P xs = filter P (take k xs) @ filter P (drop k xs)"
    by (metis append_take_drop_id filter_append)
  then show ?thesis using length_filter_le [of P "drop k xs"] by simp
qed

lemma filter_take_le: "length (filter P (take k xs)) \<le> length (filter P xs)"
proof -
  have "filter P xs = filter P (take k xs) @ filter P (drop k xs)"
    by (metis append_take_drop_id filter_append)
  then show ?thesis by simp
qed

lemma length_filter_sort: "length (filter P (sort_Slice lt xs)) = length (filter P xs)"
  by (metis mset_filter mset_sort_Slice size_mset)

lemma batch_counts:
  "length (filter c_unpromoted (batch now lim ulim s)) = min (nat ulim) (length (due_unpromoted now s))"
  "length (filter (\<lambda>c. \<not> c_unpromoted c) (batch now lim ulim s)) = min (nat lim) (length (due_primary now s))"
proof -
  let ?A = "items (offer_all (newTopK lim fingerprintCandidateBetter) (map candidate_of (due_primary now s)))"
  let ?B = "items (offer_all (newTopK ulim fingerprintCandidateBetter) (map candidate_of (due_unpromoted now s)))"
  have "\<forall>c \<in> set ?A. \<not> c_unpromoted c" "\<forall>c \<in> set ?B. c_unpromoted c"
    using offered_subset(1) [of lim "map candidate_of (due_primary now s)"]
      offered_subset(1) [of ulim "map candidate_of (due_unpromoted now s)"]
    by (auto simp: due_primary_def due_unpromoted_def)
  then have "filter c_unpromoted ?A = []" "filter c_unpromoted ?B = ?B"
    "filter (\<lambda>c. \<not> c_unpromoted c) ?A = ?A" "filter (\<lambda>c. \<not> c_unpromoted c) ?B = []"
    by (auto simp: filter_empty_conv filter_id_conv)
  then show "length (filter c_unpromoted (batch now lim ulim s)) = min (nat ulim) (length (due_unpromoted now s))"
    "length (filter (\<lambda>c. \<not> c_unpromoted c) (batch now lim ulim s)) = min (nat lim) (length (due_primary now s))"
    by (simp_all add: batch_def offered_subset(2))
qed

lemma selected_due:
  assumes "nset_ok s" and "c \<in> set (select_candidates now lim ulim s)"
  shows "\<exists>n. lookup s (c_id c) = Some n \<and> fingerprintDue n now \<and> c = candidate_of n"
proof -
  have "c \<in> set (batch now lim ulim s)"
    using assms(2) in_set_takeD unfolding select_candidates_eq by (metis set_sort_Slice)
  then have "c \<in> candidate_of ` set (due_primary now s) \<union> candidate_of ` set (due_unpromoted now s)"
    using offered_subset(1) unfolding batch_def by fastforce
  then obtain n where n: "n \<in> set (map snd (s_m s))" "fingerprintDue n now" "c = candidate_of n"
    by (auto simp: due_primary_def due_unpromoted_def)
  then have "lookup s (n_ID n) = Some n" using nodes_of_set [OF assms(1), of n] by simp
  with n show ?thesis by auto
qed

lemma claim_iff:
  "fst (ClaimFingerprintAt i now s) \<longleftrightarrow> (\<exists>n. lookup s i = Some n \<and> fingerprintDue n now)"
  by (auto simp: ClaimFingerprintAt_def ClaimFingerprintInfo_def Let_def split: option.splits)

text \<open>
  C15: a batch of probe candidates agrees with the claim: every selected node can be claimed at
  the same instant, no more are selected than asked for, no more unclassified candidates than
  their own limit, and the batch is in the order of the due time, score and identity.
\<close>

theorem candidates_agree_with_claim:
  assumes "nset_ok s" and "cs = select_candidates now lim ulim s"
  shows "(\<forall>c \<in> set cs. fst (ClaimFingerprintAt (c_id c) now s)) \<and>
         length cs \<le> nat lim \<and> length (filter c_unpromoted cs) \<le> nat ulim \<and>
         sorted_wrt (\<lambda>a b. \<not> fingerprintCandidateBetter b a) cs"
proof (intro conjI ballI)
  fix c assume "c \<in> set cs"
  then show "fst (ClaimFingerprintAt (c_id c) now s)"
    using selected_due [OF assms(1), of c now lim ulim] assms(2) by (auto simp: claim_iff)
next
  show "length (filter c_unpromoted cs) \<le> nat ulim"
    using filter_take_le [of c_unpromoted "nat lim" "sort_Slice fingerprintCandidateBetter (batch now lim ulim s)"]
    by (simp add: assms(2) select_candidates_eq length_filter_sort batch_counts)
next
  show "sorted_wrt (\<lambda>a b. \<not> fingerprintCandidateBetter b a) cs"
    unfolding assms(2) select_candidates_eq by (intro sorted_wrt_take due.sort_Slice_sorted)
qed (simp add: assms(2) select_candidates_eq)

text \<open>
  A backlog of unclassified execution candidates cannot starve the primary path: at least
  \<open>min (due primary nodes) (limit - unpromotedLimit)\<close> primary nodes are in every batch.
\<close>

theorem primary_not_starved:
  "min (int (length (due_primary now s))) (lim - max 0 ulim)
     \<le> int (length (filter (\<lambda>c. \<not> c_unpromoted c) (select_candidates now lim ulim s)))"
proof -
  let ?raw = "sort_Slice fingerprintCandidateBetter (batch now lim ulim s)"
  let ?p = "\<lambda>c. \<not> c_unpromoted c"
  have len: "length ?raw = length (filter ?p (batch now lim ulim s)) + length (filter c_unpromoted (batch now lim ulim s))"
    using sum_length_filter_compl [of c_unpromoted "batch now lim ulim s"] by simp
  have "length (filter ?p ?raw) \<le> length (filter ?p (select_candidates now lim ulim s)) + (length ?raw - nat lim)"
    using filter_take_bound [of ?p ?raw "nat lim"] by (simp add: select_candidates_eq)
  then show ?thesis
    using len batch_counts [of now lim ulim s] length_filter_sort [of ?p fingerprintCandidateBetter "batch now lim ulim s"]
    by linarith
qed


theorem candidates_agree_with_claim_witness:
  "length (select_candidates 2000 5 1 sample_full) = 2 \<and>
   fst (ClaimFingerprintAt (c_id (hd (select_candidates 2000 5 1 sample_full))) 2000 sample_full)"
proof -
  have l: "length (select_candidates 2000 5 1 sample_full) = 2" by code_simp
  then have "hd (select_candidates 2000 5 1 sample_full) \<in> set (select_candidates 2000 5 1 sample_full)"
    by (intro hd_in_set) auto
  with l show ?thesis using candidates_agree_with_claim [OF sample_full_ok refl] by blast
qed

section \<open>A claim is exclusive until it is completed\<close>

lemma in_flight_not_due: "n_fpInFlight n \<Longrightarrow> \<not> fingerprintDue n t"
  by (simp add: fingerprintDue_def)

lemma penalize_in_flight: "penalizeLocked n = (d, n') \<Longrightarrow> n_fpInFlight n' = n_fpInFlight n"
  by (auto simp: penalizeLocked_def Let_def split: if_splits)

lemma touch_in_flight:
  assumes "touchObservationLocked n via now ex fr pin = (False, n')"
  shows "n_fpInFlight n' = n_fpInFlight n"
proof -
  have "n_fpInFlight (record_part n') = n_fpInFlight (record_part n)"
    using touch_record_part(1) [OF assms] by simp
  then show ?thesis by (simp add: record_part_def)
qed

lemma apply_in_flight [simp]:
  "n_fpInFlight (refresh_on_change n e now) = n_fpInFlight n"
  "n_fpInFlight (apply_endpoint n e) = n_fpInFlight n"
  "n_fpInFlight (apply_fork n e now b) = n_fpInFlight n"
  "n_fpInFlight (apply_network n e) = n_fpInFlight n"
  "n_fpInFlight (apply_layer n e) = n_fpInFlight n"
  "n_fpInFlight (apply_client n e) = n_fpInFlight n"
  by (simp_all add: refresh_on_change_def apply_endpoint_def apply_fork_def apply_network_def
      apply_layer_def apply_client_def clearFingerprintLocked_def Let_def split: prod.splits)

lemma apply_record_in_flight: "n_fpInFlight (apply_record n e now ok) = n_fpInFlight n"
  by (simp add: apply_record_def Let_def)

lemma evict_lookup: "evictForLocked k s = (r, t) \<Longrightarrow> lookup t i = Some c \<Longrightarrow> lookup s i = Some c"
  by (auto simp: evictForLocked_eq lookup_delete_all split: if_splits)

lemma prune_lookup:
  "lookup (snd (foldl (prune_step c v) acc es)) i = Some n \<Longrightarrow> lookup (snd acc) i = Some n"
proof (induction es arbitrary: acc)
  case (Cons e es)
  then have "lookup (snd (prune_step c v acc e)) i = Some n" by simp
  then show ?case by (cases acc; cases e) (auto simp: prune_step_def split: if_splits)
qed simp

lemma observe_stale_in_flight:
  assumes "observe_stale n via now fr pin s = Some (r, s')" and "lookup s i = Some c" and "lookup s' i = Some c'"
  shows "n_fpInFlight c' = n_fpInFlight c"
  using assms
  by (auto simp: observe_stale_def Let_def touch_in_flight split: option.splits if_splits prod.splits)

lemma observe_locked_in_flight:
  assumes "lookup s i = Some c" and "lookup (snd (observe_locked j e via now fr pin s)) i = Some c'"
  shows "n_fpInFlight c' = n_fpInFlight c"
proof (cases "lookup s j")
  case None
  then have "j \<noteq> i" using assms(1) by auto
  then have "lookup s i = Some c'"
    using assms(2) None
    by (auto simp: observe_locked_def Let_def dest: evict_lookup split: if_splits prod.splits)
  with assms(1) show ?thesis by simp
next
  case (Some cur)
  then show ?thesis
    using assms by (cases "j = i")
      (auto simp: observe_locked_def Let_def touch_in_flight apply_record_in_flight
        split: if_splits prod.splits)
qed

text \<open>The sections that only touch other fields.\<close>

lemma update_in_flight:
  assumes "lookup s i = Some c" and "lookup (put j m s) i = Some c'"
    and "\<And>n. lookup s j = Some n \<Longrightarrow> n_fpInFlight m = n_fpInFlight n"
  shows "n_fpInFlight c' = n_fpInFlight c"
  using assms by (cases "i = j") auto

lemma credit_in_flight [simp]:
  "n_fpInFlight (creditStatusSightingLocked n network now) = n_fpInFlight n"
  "n_fpInFlight (clearHeadOnNetworkChangeLocked n network) = n_fpInFlight n"
  "n_fpInFlight (authenticate fh fnx now n) = n_fpInFlight n"
  by (simp_all add: creditStatusSightingLocked_def clearHeadOnNetworkChangeLocked_def authenticate_def Let_def)

lemma in_flight_frame:
  assumes "lookup s i = Some c"
  shows "lookup (authenticatedEL_locked j network fh fnx now s) i = Some c' \<Longrightarrow> n_fpInFlight c' = n_fpInFlight c"
    and "lookup (authenticatedCL_locked j network fh now s) i = Some c' \<Longrightarrow> n_fpInFlight c' = n_fpInFlight c"
    and "lookup (snd (SetExecutionCandidateLayer j lim s)) i = Some c' \<Longrightarrow> n_fpInFlight c' = n_fpInFlight c"
    and "lookup (snd (SetCandidateClient j fp dir s)) i = Some c' \<Longrightarrow> n_fpInFlight c' = n_fpInFlight c"
    and "lookup (snd (SetExecutionStatusAt j network fork now s)) i = Some c' \<Longrightarrow> n_fpInFlight c' = n_fpInFlight c"
    and "lookup (snd (SetConsensusStatus j network fh now s)) i = Some c' \<Longrightarrow> n_fpInFlight c' = n_fpInFlight c"
    and "lookup (SetHead j layer network h tm s) i = Some c' \<Longrightarrow> n_fpInFlight c' = n_fpInFlight c"
    and "lookup (SetGeo j ip g s) i = Some c' \<Longrightarrow> n_fpInFlight c' = n_fpInFlight c"
  subgoal using assms by (auto simp: authenticatedEL_locked_def split: option.splits if_splits)
  subgoal using assms by (auto simp: authenticatedCL_locked_def split: option.splits if_splits)
  subgoal using assms by (auto simp: SetExecutionCandidateLayer_def Let_def split: option.splits if_splits)
  subgoal using assms by (auto simp: SetCandidateClient_def split: option.splits if_splits)
  subgoal using assms by (auto simp: SetExecutionStatusAt_def Let_def split: option.splits if_splits)
  subgoal using assms by (auto simp: SetConsensusStatus_def Let_def split: option.splits if_splits)
  subgoal using assms by (auto simp: SetHead_def Let_def split: option.splits if_splits)
  subgoal using assms by (auto simp: SetGeo_def Let_def split: option.splits if_splits)
  done

lemma penalize_frame:
  assumes "lookup s i = Some c" and "lookup (Penalize j now s) i = Some c'"
  shows "n_fpInFlight c' = n_fpInFlight c"
  using assms
  by (auto simp: Penalize_def Let_def split: option.splits if_splits prod.splits dest!: penalize_in_flight)

text \<open>The completions of a probe of node \<open>i\<close>: giving the claim back, failing, or succeeding.\<close>

definition completes :: "node_id \<Rightarrow> nset \<Rightarrow> nset \<Rightarrow> bool" where
  "completes i s s' \<longleftrightarrow> s' = UnclaimFingerprint i s \<or> (\<exists>now. s' = snd (FingerprintFailed i now s)) \<or>
     (\<exists>layer fp dir now. s' = snd (SetClaimedFingerprintAt i layer fp dir now s))"

lemma step_in_flight:
  assumes "nset_step env s s'" and "\<not> completes i s s'" and "lookup s i = Some c" and "n_fpInFlight c"
    and "lookup s' i = Some c'"
  shows "n_fpInFlight c'"
  using assms
proof cases
  case (st_stale n via now fr pin r)
  then show ?thesis using assms(3-5) observe_stale_in_flight by metis
next
  case (st_observe n fl fn via now fr pin)
  then show ?thesis using assms(3-5) observe_locked_in_flight by metis
next
  case (st_candidate n now lim)
  then show ?thesis using assms(3-5)
    by (auto simp: candidate_locked_def candidate_seen_def apply_endpoint_def Let_def
        split: option.splits if_splits)
next
  case (st_prune cutoff vcut)
  then have "lookup s i = Some c'"
    using assms(5) prune_lookup [of cutoff vcut "(0, s)" "s_m s" i c'] by (simp add: PruneStaleWithVerified_def)
  then show ?thesis using assms(3,4) by simp
next
  case (st_claim j now)
  then show ?thesis using assms(3-5)
    by (auto simp: ClaimFingerprintInfo_def Let_def split: option.splits if_splits)
next
  case (st_unclaim j)
  then show ?thesis using assms(2-5)
    by (auto simp: UnclaimFingerprint_def completes_def Let_def split: option.splits if_splits)
next
  case (st_failed j now)
  then have "j \<noteq> i" using assms(2) by (auto simp: completes_def)
  then show ?thesis using st_failed assms(3-5)
    by (auto simp: FingerprintFailed_def Let_def split: option.splits if_splits)
next
  case (st_fingerprint j layer fp dir claimed now)
  then have "j \<noteq> i \<or> \<not> claimed"
    using assms(2) unfolding completes_def SetClaimedFingerprintAt_def by metis
  then show ?thesis using st_fingerprint assms(3-5)
    by (auto simp: setFingerprint_def Let_def split: option.splits if_splits)
qed (use assms(3-5) in_flight_frame [OF assms(3)] penalize_frame [OF assms(3)] in \<open>metis+\<close>)


text \<open>
  C16: a granted claim is exclusive. In every run after it in which the node stays tracked and no
  completion of its probe occurs, however other operations interleave, no second claim of the
  node is granted at any instant, and no batch offers it.
\<close>

theorem claim_exclusive:
  assumes "nset_ok s" and "ClaimFingerprintAt i now s = (True, s')"
    and "(\<lambda>u v. nset_step env u v \<and> \<not> completes i u v \<and> lookup v i \<noteq> None)\<^sup>*\<^sup>* s' t"
  shows "\<not> fst (ClaimFingerprintAt i later t) \<and>
         i \<notin> c_id ` set (select_candidates later lim ulim t)"
proof -
  obtain n where n: "lookup s i = Some n" "s' = put i (n\<lparr>n_fpAttempts := n_fpAttempts n + 1, n_fpInFlight := True\<rparr>) s"
    using assms(2) by (auto simp: ClaimFingerprintAt_def ClaimFingerprintInfo_def Let_def split: option.splits if_splits)
  have "nset_ok s'"
    using assms(1,2) claim_refines [of s i now] effect_ok
    by (auto simp: ClaimFingerprintAt_def split: prod.splits)
  have "nset_ok t \<and> (\<exists>c. lookup t i = Some c \<and> n_fpInFlight c)"
    using assms(3)
  proof (induction rule: rtranclp_induct)
    case base
    then show ?case using n \<open>nset_ok s'\<close> by simp
  next
    case (step u v)
    from step.IH obtain c where u: "nset_ok u" "lookup u i = Some c" "n_fpInFlight c" by blast
    from step.hyps(2) obtain c' where v: "nset_step env u v" "\<not> completes i u v" "lookup v i = Some c'" by blast
    have "n_fpInFlight c'" using step_in_flight v u by metis
    moreover have "nset_ok v" using nset_step_ok v(1) u(1) by blast
    ultimately show ?case using v(3) by blast
  qed
  then obtain c where t: "nset_ok t" "lookup t i = Some c" "n_fpInFlight c" by blast
  have "\<not> fst (ClaimFingerprintAt i later t)" using t by (simp add: claim_iff in_flight_not_due)
  moreover have "c_id k \<noteq> i" if "k \<in> set (select_candidates later lim ulim t)" for k
    using selected_due [OF t(1) that] t in_flight_not_due by force
  ultimately show ?thesis by auto
qed

lemma SetFingerprintAt_snd:
  "snd (SetFingerprintAt i layer fp dir now s) = snd (setFingerprint i layer fp dir False now s)"
  by (simp add: SetFingerprintAt_def split_beta)

theorem claim_exclusive_witness:
  "\<not> fst (ClaimFingerprintAt (replicate 32 1) 9000
     (snd (SetFingerprintAt (replicate 32 1) ''el'' \<lparr>fp_Client = ''Geth'', fp_Version = [], fp_OS = [], fp_Lang = [],
        fp_Caps = []\<rparr> ''in'' 2500 (snd (ClaimFingerprintAt (replicate 32 1) 2000 sample_full)))))"
proof -
  let ?i = "replicate 32 1 :: byte list"
  let ?f = "\<lparr>fp_Client = ''Geth'', fp_Version = [], fp_OS = [], fp_Lang = [], fp_Caps = []\<rparr>"
  let ?n = "(sample_node 1)\<lparr>n_fpAttempts := 1, n_fpInFlight := True\<rparr>"
  have l: "lookup sample_full ?i = Some (sample_node 1)" by (simp add: sample_full_def sample_simps)
  have d: "fingerprintDue (sample_node 1) 2000" by code_simp
  have c: "ClaimFingerprintAt ?i 2000 sample_full = (True, put ?i ?n sample_full)"
    using l d by (simp add: ClaimFingerprintAt_def ClaimFingerprintInfo_def Let_def sample_node_def zeroNode_def)
  let ?s = "put ?i ?n sample_full"
  let ?t = "snd (setFingerprint ?i ''el'' ?f ''in'' False 2500 ?s)"
  have lt: "lookup ?t ?i \<noteq> None \<and> n_fpInFlight (the (lookup ?t ?i))"
    by (simp add: setFingerprint_def Let_def sample_node_def)
  moreover have "\<not> completes ?i ?s ?t"
  proof -
    have "n_fpInFlight m \<longrightarrow> False" if "lookup u ?i = Some m" "u = UnclaimFingerprint ?i ?s" for u m
      using that by (auto simp: UnclaimFingerprint_def Let_def split: if_splits)
    moreover have "n_fpInFlight m \<longrightarrow> False" if "lookup u ?i = Some m" "u = snd (FingerprintFailed ?i k ?s)" for u m k
      using that by (auto simp: FingerprintFailed_def Let_def split: if_splits)
    moreover have "n_fpInFlight m \<longrightarrow> False"
      if "lookup u ?i = Some m" "u = snd (SetClaimedFingerprintAt ?i l f dd k ?s)" for u m l f dd k
      using that by (auto simp: SetClaimedFingerprintAt_def setFingerprint_def Let_def split: if_splits)
    ultimately show ?thesis using lt unfolding completes_def by (metis option.collapse)
  qed
  ultimately have "(\<lambda>u v. nset_step sample_env u v \<and> \<not> completes ?i u v \<and> lookup v ?i \<noteq> None)\<^sup>*\<^sup>* ?s ?t"
    by (intro r_into_rtranclp) (auto intro: st_fingerprint)
  from claim_exclusive [OF sample_full_ok c this] show ?thesis
    by (simp add: c SetFingerprintAt_snd)
qed


section \<open>Retries\<close>

lemma schedule_pos: "k < length fpRetrySchedule \<Longrightarrow> 60000000000 \<le> fpRetrySchedule ! k \<and> fpRetrySchedule ! k \<le> 21600000000000
    \<and> fpRetrySchedule ! k mod 1000 = 0"
  by (auto simp: fpRetrySchedule_def less_Suc_eq go_time)

text \<open>
  The delay before a retry is within ten per cent of the scheduled interval of the attempt,
  the last interval being reused for every later one; it is never below 54 seconds and never
  above 6 hours 36 minutes.
\<close>

theorem retry_delay_bounds:
  "let base = fpRetrySchedule ! min (max attempt 1 - 1) (length fpRetrySchedule - 1);
       d = fingerprintRetryDelay i attempt
   in 9 * base \<le> 10 * d \<and> 10 * d \<le> 11 * base \<and> 54 * second \<le> d \<and> d \<le> 6 * hour + 36 * minute"
proof -
  define k where "k = min (max attempt 1 - 1) (length fpRetrySchedule - 1)"
  define base where "base = fpRetrySchedule ! k"
  define b where "b = i ! ((max attempt 1 - 1) mod 32)"
  define pm where "pm = 900 + uint b * 200 div 255"
  have "k < length fpRetrySchedule" by (auto simp: k_def fpRetrySchedule_def)
  note sp = schedule_pos [OF this, folded base_def]
  then obtain q where q: "base = 1000 * q" by (metis mod_0_imp_dvd dvdE)
  have "uint b < 256" using unsigned_less [of b, where ?'a = int] by simp
  then have "uint b * 200 div 255 \<le> 51000 div 255" by (intro zdiv_mono1) auto
  moreover have "0 \<le> uint b * 200 div 255" by (intro pos_imp_zdiv_nonneg_iff [THEN iffD2]) auto
  ultimately have pm: "900 \<le> pm" "pm \<le> 1100" unfolding pm_def by simp_all
  have d: "fingerprintRetryDelay i attempt = q * pm"
    unfolding fingerprintRetryDelay_def Let_def b_def [symmetric] pm_def [symmetric] k_def [symmetric]
      base_def [symmetric] by (simp add: q)
  have "0 \<le> q" using sp q by simp
  then have "q * 900 \<le> q * pm" "q * pm \<le> q * 1100" using pm by (auto intro: mult_left_mono)
  then show ?thesis
    using sp q unfolding Let_def k_def [symmetric] base_def [symmetric] d second_def minute_def hour_def
    by (intro conjI) linarith+
qed

lemma fingerprintable_frame [simp]:
  "fingerprintable (n\<lparr>n_fpInFlight := a\<rparr>) = fingerprintable n"
  "fingerprintable (n\<lparr>n_fpNext := x\<rparr>) = fingerprintable n"
  "fingerprintable (n\<lparr>n_fpAttempts := k\<rparr>) = fingerprintable n"
  "fingerprintable (n\<lparr>n_fpRefresh := b\<rparr>) = fingerprintable n"
  by (simp_all add: fingerprintable_def)

text \<open>
  C17: when a node can be claimed for a probe after one has failed, on every branch of the failure.
  In the state right after the failure a claim at an instant \<open>t\<close> is granted exactly when the node has
  a dialable endpoint, is not already verified (or is due for a refresh), and either its record
  changed while the probe was out, which re-arms it at once, or the retry delay has passed. That
  delay is between 54 seconds and 6 hours 36 minutes, so a failure never retries at once and never
  gives up for good.
\<close>

theorem retry_spacing:
  assumes "lookup s i = Some n" and "FingerprintFailed i now s = (r, s')" and "time_zero < now"
  shows "\<exists>d. 54 * second \<le> d \<and> d \<le> 6 * hour + 36 * minute \<and>
    (\<forall>t. fst (ClaimFingerprintAt i t s') \<longleftrightarrow>
       fingerprintable n \<and> (n_fpDone n \<longrightarrow> n_fpRefreshDue n) \<and> (n_fpRefresh n \<or> now + d \<le> t))"
proof -
  let ?d = "fingerprintRetryDelay i (n_fpAttempts n)"
  have d: "54 * second \<le> ?d" "?d \<le> 6 * hour + 36 * minute"
    using retry_delay_bounds [of "n_fpAttempts n" i] by (auto simp: Let_def)
  have z: "now + ?d \<noteq> time_zero" using d(1) assms(3) by (simp add: go_time)
  consider "n_fpDone n \<and> \<not> n_fpRefreshDue n" | "n_fpDone n \<longrightarrow> n_fpRefreshDue n" "n_fpRefresh n"
    | "n_fpDone n \<longrightarrow> n_fpRefreshDue n" "\<not> n_fpRefresh n" by blast
  then have "fst (ClaimFingerprintAt i t s') \<longleftrightarrow>
      fingerprintable n \<and> (n_fpDone n \<longrightarrow> n_fpRefreshDue n) \<and> (n_fpRefresh n \<or> now + ?d \<le> t)" for t
  proof cases
    case 1
    then have "lookup s' i = Some (n\<lparr>n_fpInFlight := False, n_fpRefresh := False\<rparr>)"
      using assms(1,2) by (auto simp: FingerprintFailed_def Let_def)
    with 1 show ?thesis by (auto simp: claim_iff fingerprintDue_def)
  next
    case 2
    then have "lookup s' i = Some (n\<lparr>n_fpInFlight := False, n_fpAttempts := 0, n_fpRefresh := False, n_fpNext := time_zero\<rparr>)"
      using assms(1,2) by (auto simp: FingerprintFailed_def Let_def)
    with 2 show ?thesis by (auto simp: claim_iff fingerprintDue_def time_IsZero_def)
  next
    case 3
    then have "lookup s' i = Some (n\<lparr>n_fpInFlight := False, n_fpNext := now + ?d\<rparr>)"
      using assms(1,2) by (auto simp: FingerprintFailed_def Let_def time_Add_def)
    with 3 z show ?thesis by (auto simp: claim_iff fingerprintDue_def time_IsZero_def)
  qed
  with d show ?thesis by blast
qed

definition retry_sample :: nset where
  "retry_sample = sample_of [(sample_node 1)\<lparr>n_fpInFlight := True, n_fpAttempts := 1\<rparr>]"

theorem retry_spacing_witness:
  "\<not> fst (ClaimFingerprintAt (replicate 32 1) 2000 (snd (FingerprintFailed (replicate 32 1) 1000 retry_sample))) \<and>
   fst (ClaimFingerprintAt (replicate 32 1) (1000 + 7 * hour) (snd (FingerprintFailed (replicate 32 1) 1000 retry_sample)))"
proof -
  let ?n = "(sample_node 1)\<lparr>n_fpInFlight := True, n_fpAttempts := 1\<rparr>"
  have l: "lookup retry_sample (replicate 32 1) = Some ?n"
    by (simp add: retry_sample_def sample_simps)
  have z: "time_zero < 1000" by (simp add: time_zero_def)
  have f: "fingerprintable ?n" by code_simp
  have "\<not> n_fpRefresh ?n" "\<not> n_fpDone ?n" by (simp_all add: sample_node_def zeroNode_def)
  note facts = this
  from retry_spacing [OF l surjective_pairing z] obtain d where
    d: "54 * second \<le> d" "d \<le> 6 * hour + 36 * minute" and
    c: "\<And>t. fst (ClaimFingerprintAt (replicate 32 1) t (snd (FingerprintFailed (replicate 32 1) 1000 retry_sample))) \<longleftrightarrow> 1000 + d \<le> t"
    using f facts by auto
  have "\<not> 1000 + d \<le> 2000" "1000 + d \<le> 1000 + 7 * hour" using d by (simp_all add: go_time)
  then show ?thesis by (simp only: c simp_thms)
qed

text \<open>
  A probe that fails after the node was verified by another connection leaves that success
  alone: it schedules nothing, reports nothing and only gives the claim back.
\<close>

theorem late_failure_ignored:
  assumes "lookup s i = Some n" and "n_fpDone n" and "\<not> n_fpRefreshDue n"
  shows "FingerprintFailed i now s = (zeroRetry, put i (n\<lparr>n_fpInFlight := False, n_fpRefresh := False\<rparr>) s)"
  using assms by (simp add: FingerprintFailed_def Let_def)

theorem late_failure_ignored_witness:
  "fst (FingerprintFailed (replicate 32 1) 5000 (sample_of [(sample_node 1)\<lparr>n_fpDone := True\<rparr>])) = zeroRetry"
  using late_failure_ignored [of "sample_of [(sample_node 1)\<lparr>n_fpDone := True\<rparr>]" "replicate 32 1"
      "(sample_node 1)\<lparr>n_fpDone := True\<rparr>" 5000]
  by (simp add: sample_simps)

section \<open>A record that changes under a probe\<close>

lemma apply_refresh [simp]:
  "n_fpRefresh (apply_endpoint n e) = n_fpRefresh n"
  "n_fpRefresh (apply_fork n e now b) = n_fpRefresh n"
  "n_fpRefresh (apply_network n e) = n_fpRefresh n"
  "n_fpRefresh n \<Longrightarrow> n_fpRefresh (apply_layer n e)"
  "n_fpRefresh (apply_client n e) = n_fpRefresh n"
  by (simp_all add: apply_endpoint_def apply_fork_def apply_network_def apply_layer_def apply_client_def
      clearFingerprintLocked_def Let_def)

lemma apply_record_refresh:
  assumes "n_fpInFlight n" and "fst (fingerprintRefreshReasons n e now)"
  shows "n_fpRefresh (apply_record n e now True)"
proof -
  have "n_fpRefresh (refresh_on_change n e now)"
    using assms by (simp add: refresh_on_change_def Let_def split_beta)
  then show ?thesis by (simp add: apply_record_def Let_def)
qed

lemma touch_reasons:
  assumes "touchObservationLocked n via now ex fr pin = (False, n')"
  shows "fst (fingerprintRefreshReasons n' e now) = fst (fingerprintRefreshReasons n e now)"
proof -
  have "fst (fingerprintRefreshReasons m e now) = fst (fingerprintRefreshReasons (record_part m) e now)" for m
    by (simp add: fingerprintRefreshReasons_def record_part_def Let_def)
  then show ?thesis using touch_record_part(1) [OF assms] by metis
qed

text \<open>
  When the endpoint or the client name of a record changes while a probe of it is out, the
  result of that probe is discarded: it reports no success and leaves the client identity and
  the verified flag as the new record left them, and the node is released for a fresh probe.
\<close>

theorem changed_record_discards_probe:
  assumes "lookup s i = Some cur" and "n_fpInFlight cur" and "fst (fingerprintRefreshReasons cur e now)"
    and "observe_locked i e via now fr pin s = (obs, s1)" and "o_Applied obs" and "lookup s1 i = Some n1"
    and "SetClaimedFingerprintAt i layer fp dir later s1 = (res, s2)"
  shows "res = (0, False) \<and>
         lookup s2 i = Some (n1\<lparr>n_fpAttempts := 0, n_fpInFlight := False, n_fpRefresh := False, n_fpNext := time_zero\<rparr>)"
proof -
  obtain d c where t: "touchObservationLocked cur via now True fr pin = (d, c)" by fastforce
  have o: "\<not> d" "n1 = apply_record c e now True"
    using assms(1,4,5,6) t by (auto simp: observe_locked_def Let_def accepted_def zeroObservation_def split: if_splits)
  with t have t: "touchObservationLocked cur via now True fr pin = (False, c)" by simp
  have "n_fpRefresh n1"
    unfolding o(2) by (rule apply_record_refresh) (use assms(2,3) touch_in_flight [OF t] touch_reasons [OF t] in auto)
  then show ?thesis
    using assms(6,7) by (auto simp: SetClaimedFingerprintAt_def setFingerprint_def)
qed

theorem changed_record_discards_probe_witness:
  "fst (SetClaimedFingerprintAt (replicate 32 1) ''el'' \<lparr>fp_Client = ''Geth'', fp_Version = [], fp_OS = [], fp_Lang = [],
      fp_Caps = []\<rparr> ''out'' 9000 (snd (observe_locked (replicate 32 1) (sample_rec 4 6 7) ''v5'' 8000 False False retry_sample)))
   = (0, False)"
proof -
  let ?n = "(sample_node 1)\<lparr>n_fpInFlight := True, n_fpAttempts := 1\<rparr>"
  let ?o = "observe_locked (replicate 32 1) (sample_rec 4 6 7) ''v5'' 8000 False False retry_sample"
  have l: "lookup retry_sample (replicate 32 1) = Some ?n" by (simp add: retry_sample_def sample_simps)
  have f: "n_fpInFlight ?n" by simp
  have r: "fst (fingerprintRefreshReasons ?n (sample_rec 4 6 7) 8000)" by code_simp
  have a: "o_Applied (fst ?o)" by code_simp
  have "lookup (snd ?o) (replicate 32 1) \<noteq> None" by code_simp
  then obtain n1 where n1: "lookup (snd ?o) (replicate 32 1) = Some n1" by blast
  from changed_record_discards_probe [OF l f r surjective_pairing a n1 surjective_pairing] show ?thesis by blast
qed

end
