(* ===== verification/SnapshotProps.thy ===== *)
theory SnapshotProps
  imports FingerprintProps
begin

text \<open>
  Snapshots: what is published, that restoring a published snapshot gives back the set that
  published it, that unsigned sightings cannot make a node publishable, and the statistics.
\<close>

section \<open>Rows\<close>

definition is_port :: "int \<Rightarrow> bool" where
  "is_port p \<longleftrightarrow> 0 \<le> p \<and> p < 65536"

definition storable_time :: "gotime \<Rightarrow> bool" where
  "storable_time t \<longleftrightarrow> t = time_zero \<or> 0 \<le> t"

text \<open>
  The nodes a row describes completely: no probe is in flight, ports and attempts are in range,
  optional instants are absent or after 1970, and no consensus node carries execution
  capabilities (such a fingerprint is deliberately dropped on restore).
\<close>

definition restorable :: "node \<Rightarrow> bool" where
  "restorable n \<longleftrightarrow> node_ok n \<and> \<not> n_fpInFlight n \<and> n_fpAttempts n < 2147483648 \<and>
     list_all is_port [n_TCP n, n_UDP n, n_TCP6 n, n_UDP6 n, n_QUIC n, n_QUIC6 n] \<and>
     list_all storable_time [n_LastResolved n, n_fpAt n, n_fpNext n, n_MembershipVerifiedAt n,
                             n_ForkObservedAt n, n_HeadObservedAt n] \<and>
     \<not> (n_Layer n = ''cl'' \<and> n_Capabilities n \<noteq> [])"

lemma int32_id: "- 2147483648 \<le> x \<Longrightarrow> x < 2147483648 \<Longrightarrow> int32 x = x"
  by (simp add: int32_def)

lemma stored_time: "storable_time t \<Longrightarrow> unixOrZero (timeOrZero (unixOrZero t)) = unixOrZero t"
proof -
  assume t: "storable_time t"
  have "time_Unix t * 1000000000 \<noteq> time_zero" if "0 \<le> t"
  proof -
    have "0 \<le> time_Unix t" using that by (simp add: time_Unix_def)
    then show ?thesis by (simp add: time_zero_def)
  qed
  then show ?thesis
    using t by (auto simp: storable_time_def unixOrZero_def timeOrZero_def time_IsZero_def unix_time_def time_Unix_def)
qed

lemma asn_narrow: "(ucast (ucast (x :: u32) :: u64) :: u32) = x"
  by (rule bit_word_eqI) (simp add: bit_simps)

lemma restored_node: "restorable n \<Longrightarrow> candidateOfRow i (row n) = nodeOfRow i (row n)"
  by (auto simp: candidateOfRow_def restorable_def row_def)

lemma restored_fields:
  assumes "restorable n"
  shows "n_fpAttempts (nodeOfRow i (row n)) = n_fpAttempts n" and "n_fpDone (nodeOfRow i (row n)) = n_fpDone n"
    and "n_fpRefreshDue (nodeOfRow i (row n)) = n_fpRefreshDue n"
    and "fingerprintable (nodeOfRow i (row n)) = fingerprintable n"
    and "n_fpInFlight (nodeOfRow i (row n)) = n_fpInFlight n"
proof -
  have p: "int32 (n_TCP n) = n_TCP n" "int32 (n_TCP6 n) = n_TCP6 n" "int32 (n_QUIC n) = n_QUIC n"
    "int32 (n_QUIC6 n) = n_QUIC6 n" "int32 (int (n_fpAttempts n)) = int (n_fpAttempts n)"
    using assms by (auto simp: restorable_def is_port_def int32_id)
  have a: "rowAttempts n = n_fpAttempts n" "n_fpRefreshDue n \<longrightarrow> n_fpDone n" "\<not> n_fpInFlight n"
    using assms by (auto simp: restorable_def rowAttempts_def node_ok_def)
  show "n_fpAttempts (nodeOfRow i (row n)) = n_fpAttempts n"
    by (simp add: nodeOfRow_def restoredAttempts_def row_def a p)
  show "n_fpDone (nodeOfRow i (row n)) = n_fpDone n"
    by (simp add: nodeOfRow_def verifiedFingerprint_def row_def fpStatus_def)
  show "n_fpRefreshDue (nodeOfRow i (row n)) = n_fpRefreshDue n"
    using a(2) by (auto simp: nodeOfRow_def verifiedFingerprint_def row_def fpStatus_def)
  show "fingerprintable (nodeOfRow i (row n)) = fingerprintable n"
    by (simp add: nodeOfRow_def row_def p fingerprintable_def)
  show "n_fpInFlight (nodeOfRow i (row n)) = n_fpInFlight n"
    by (simp add: nodeOfRow_def a)
qed

lemma row_roundtrip_lemma:
  assumes "restorable n"
  shows "row (candidateOfRow (n_ID n) (row n)) = row n"
proof -
  have st: "fpStatus (nodeOfRow (n_ID n) (row n)) = fpStatus n"
    "rowAttempts (nodeOfRow (n_ID n) (row n)) = rowAttempts n"
    by (simp_all add: fpStatus_def rowAttempts_def restored_fields [OF assms])
  have ports: "int32 (int32 p) = int32 p" for p by (simp add: int32_def)
  have tm: "storable_time (n_LastResolved n)" "storable_time (n_fpAt n)" "storable_time (n_fpNext n)"
    "storable_time (n_MembershipVerifiedAt n)" "storable_time (n_ForkObservedAt n)" "storable_time (n_HeadObservedAt n)"
    using assms by (auto simp: restorable_def)
  show ?thesis
    unfolding restored_node [OF assms] row_def [of "nodeOfRow (n_ID n) (row n)"] st
    by (simp add: nodeOfRow_def row_def ports asn_narrow tm [THEN stored_time])
qed

text \<open>
  A published row survives a restart: the node restored from it publishes the same row
  again, field for field.
\<close>

theorem row_roundtrip:
  assumes "restorable n"
  shows "row (candidateOfRow (n_ID n) (row n)) = row n"
  by (rule row_roundtrip_lemma [OF assms])

theorem row_roundtrip_witness:
  "row (candidateOfRow (replicate 32 1) (row (sample_node 1))) = row (sample_node 1)"
proof -
  have "restorable (sample_node 1)" by (simp add: restorable_def sample_simps is_port_def storable_time_def)
  from row_roundtrip [OF this] show ?thesis by (simp add: sample_node_def)
qed


text \<open>Restoring where there is room never evicts, so the fold only inserts.\<close>

definition room_for :: "nat \<Rightarrow> nset \<Rightarrow> bool" where
  "room_for k s \<longleftrightarrow> s_max s \<le> 0 \<or> Len s + int k \<le> s_max s"

lemma ingest_row_room:
  assumes "room_for (Suc k) s" and "length (n_ID n) = 32" and "rowAddressesUsable env (row n)"
  shows "ingest_row env ((d, v), s) (row n) =
           ((d, v), put (n_ID n) (candidateOfRow (n_ID n) (row n))
              (trackCandidateLocked (case lookup s (n_ID n) of None \<Rightarrow> False | Some p \<Rightarrow> isELCandidate p)
                 (isELCandidate (candidateOfRow (n_ID n) (row n))) s))"
proof -
  have "r_ID (row n) = hex_EncodeToString (n_ID n)" by (simp add: row_def)
  moreover have "\<not> full s" using assms(1) by (auto simp: room_for_def full_def)
  ultimately show ?thesis using assms by (simp add: ingest_row_def Let_def)
qed

lemma ingest_fold:
  assumes "room_for (length ns) s" and "\<And>n. n \<in> set ns \<Longrightarrow> length (n_ID n) = 32 \<and> rowAddressesUsable env (row n)"
    and "distinct (map n_ID ns)"
  shows "\<exists>s'. foldl (ingest_row env) ((d, v), s) (map row ns) = ((d, v), s') \<and>
     (\<forall>k. room_for (k + length ns) s \<longrightarrow> room_for k s') \<and>
     (\<forall>i. lookup s' i = (case find (\<lambda>n. n_ID n = i) ns of
                            Some n \<Rightarrow> Some (candidateOfRow i (row n)) | None \<Rightarrow> lookup s i))"
  using assms
proof (induction ns arbitrary: s)
  case (Cons n ns)
  let ?s = "put (n_ID n) (candidateOfRow (n_ID n) (row n))
      (trackCandidateLocked (case lookup s (n_ID n) of None \<Rightarrow> False | Some p \<Rightarrow> isELCandidate p)
         (isELCandidate (candidateOfRow (n_ID n) (row n))) s)"
  have st: "ingest_row env ((d, v), s) (row n) = ((d, v), ?s)"
    using Cons.prems by (intro ingest_row_room [of "length ns"]) auto
  have room: "room_for k ?s" if "room_for (Suc k) s" for k
    using that Len_put [of "n_ID n" "candidateOfRow (n_ID n) (row n)" "trackCandidateLocked (case lookup s (n_ID n) of None \<Rightarrow> False | Some p \<Rightarrow> isELCandidate p)
         (isELCandidate (candidateOfRow (n_ID n) (row n))) s"]
    by (auto simp: room_for_def Len_def split: if_splits)
  obtain s' where s': "foldl (ingest_row env) ((d, v), ?s) (map row ns) = ((d, v), s')"
    "\<forall>k. room_for (k + length ns) ?s \<longrightarrow> room_for k s'"
    "\<forall>i. lookup s' i = (case find (\<lambda>n. n_ID n = i) ns of
         Some n \<Rightarrow> Some (candidateOfRow i (row n)) | None \<Rightarrow> lookup ?s i)"
    using Cons.IH [of ?s] Cons.prems room by auto
  have "find (\<lambda>m. n_ID m = n_ID n) ns = None"
    using Cons.prems(3) by (auto simp: find_None_iff image_iff)
  then show ?case using s' st room by (intro exI [of _ s']) (auto split: option.splits)
qed simp

lemma find_node:
  assumes "nset_ok s"
  shows "find (\<lambda>n. n_ID n = i) (map snd (s_m s)) = lookup s i"
proof (cases "lookup s i")
  case None
  have "n_ID n \<noteq> i" if "n \<in> set (map snd (s_m s))" for n
    using that None nodes_of_set [OF assms, of n] by auto
  then show ?thesis using None by (simp add: find_None_iff image_iff) fastforce
next
  case (Some n)
  obtain m where m: "find (\<lambda>n. n_ID n = i) (map snd (s_m s)) = Some m"
  proof (cases "find (\<lambda>n. n_ID n = i) (map snd (s_m s))")
    case None
    then show ?thesis
      using Some nset_okD(1,2) [OF assms] node_in_set [of s i n] unfolding find_None_iff by force
  qed
  then have "m \<in> set (map snd (s_m s))" "n_ID m = i"
    by (auto simp: find_Some_iff)
  then show ?thesis using m Some nodes_of_set [OF assms, of m] by simp
qed

text \<open>The published nodes of a list of networks, network by network.\<close>

definition published_nodes :: "string list \<Rightarrow> nset \<Rightarrow> node list" where
  "published_nodes nets s =
     concat (map (\<lambda>w. filter (\<lambda>n. n_Network n = w \<and> snapshotEligible n) (map snd (s_m s))) nets)"

text \<open>A restart reads the rows of each network of a snapshot and restores them, one network after the other.\<close>

definition restore_step ::
  "nsenv \<Rightarrow> (string, Row list) gomap \<Rightarrow> (nat \<times> nat) list \<times> nset \<Rightarrow> string \<Rightarrow> (nat \<times> nat) list \<times> nset"
where
  "restore_step env snap = (\<lambda>(cs, u) w.
     case Ingest env (case map_of snap w of None \<Rightarrow> [] | Some rs \<Rightarrow> rs) u of (c, u') \<Rightarrow> (cs @ [c], u'))"

definition restore_networks :: "nsenv \<Rightarrow> string list \<Rightarrow> (string, Row list) gomap \<Rightarrow> nset \<Rightarrow> (nat \<times> nat) list \<times> nset" where
  "restore_networks env nets snap s =
     foldl (restore_step env snap) ([], s) nets"

lemma snapshot_fold:
  "map_of (foldl (snapshot_step nets) acc ns) w =
     (let rs = map row (filter (\<lambda>n. n_Network n = w \<and> snapshotEligible n) ns)
      in if w \<in> set nets \<and> rs \<noteq> [] then Some ((case map_of acc w of None \<Rightarrow> [] | Some xs \<Rightarrow> xs) @ rs)
         else map_of acc w)"
proof (induction ns arbitrary: acc)
  case (Cons n ns)
  show ?case
    unfolding foldl_Cons Cons.IH
    by (auto simp: snapshot_step_def map_of_update Let_def split: option.splits)
qed simp

lemma snapshot_rows:
  assumes "w \<in> set nets"
  shows "(case map_of (SnapshotNetworks nets s) w of None \<Rightarrow> [] | Some rs \<Rightarrow> rs) =
    map row (filter (\<lambda>n. n_Network n = w \<and> snapshotEligible n) (map snd (s_m s)))"
  using assms unfolding SnapshotNetworks_def snapshot_fold Let_def by (auto simp: filter_empty_conv)

lemma published_nodes_set:
  "set (published_nodes nets s) = {n \<in> snd ` set (s_m s). n_Network n \<in> set nets \<and> snapshotEligible n}"
  by (auto simp: published_nodes_def)

lemma network_nodes_apart:
  assumes "nset_ok s" and "n \<in> snd ` set (s_m s)" and "m \<in> snd ` set (s_m s)" and "n_Network n \<noteq> n_Network m"
  shows "n_ID n \<noteq> n_ID m"
proof
  assume e: "n_ID n = n_ID m"
  have n: "lookup s (n_ID n) = Some n" by (rule iffD1 [OF nodes_of_set [OF assms(1), of n] assms(2)])
  have m: "lookup s (n_ID m) = Some m" by (rule iffD1 [OF nodes_of_set [OF assms(1), of m] assms(3)])
  have "Some n = Some m" by (rule trans [OF n [unfolded e, symmetric] m])
  then have "n = m" by (rule option.inject [THEN iffD1])
  then have "n_Network n = n_Network m" by (rule arg_cong)
  with assms(4) show False by (rule notE)
qed

lemma published_nodes_Cons:
  "published_nodes (w # nets) s = filter (\<lambda>n. n_Network n = w \<and> snapshotEligible n) (map snd (s_m s)) @ published_nodes nets s"
  by (simp only: published_nodes_def list.map concat.simps)

lemma published_nodes_distinct:
  assumes "nset_ok s" and "distinct nets"
  shows "distinct (map n_ID (published_nodes nets s))"
  using assms(2)
proof (induction nets)
  case (Cons w nets)
  let ?ns = "filter (\<lambda>n. n_Network n = w \<and> snapshotEligible n) (map snd (s_m s))"
  have "n_ID n \<noteq> n_ID m" if n: "n \<in> set ?ns" and m: "m \<in> set (published_nodes nets s)" for n m
  proof (rule network_nodes_apart [OF assms(1)])
    show "n \<in> snd ` set (s_m s)" using n by simp
    show "m \<in> snd ` set (s_m s)" using m by (simp add: published_nodes_set)
    have "n_Network n = w" "n_Network m \<in> set nets" using n m by (simp_all add: published_nodes_set)
    then show "n_Network n \<noteq> n_Network m" using Cons.prems by auto
  qed
  then have "set (map n_ID ?ns) \<inter> set (map n_ID (published_nodes nets s)) = {}" unfolding set_map by blast
  moreover have "distinct (map n_ID ?ns)" by (rule distinct_map_filter) (rule distinct_nodes [OF assms(1)])
  moreover have "distinct (map n_ID (published_nodes nets s))" using Cons.IH Cons.prems by simp
  ultimately show ?case unfolding published_nodes_Cons map_append distinct_append by blast
qed (simp add: published_nodes_def)

lemma found: "find P xs = Some x \<Longrightarrow> x \<in> set xs" "find P xs = Some x \<Longrightarrow> P x"
  by (auto simp: find_Some_iff)

lemma find_append_case: "find P (xs @ ys) = (case find P xs of Some x \<Rightarrow> Some x | None \<Rightarrow> find P ys)"
  by (induction xs) auto

lemma restore_fold:
  assumes "room_for (length (published_nodes nets s)) u" and "distinct (map n_ID (published_nodes nets s))"
    and "\<And>n. n \<in> set (published_nodes nets s) \<Longrightarrow> length (n_ID n) = 32 \<and> rowAddressesUsable env (row n)"
    and "set nets \<subseteq> set all"
  shows "\<exists>s'. foldl (restore_step env (SnapshotNetworks all s))
       (cs, u) nets = (cs @ replicate (length nets) (0, 0), s') \<and>
     (\<forall>i. lookup s' i = (case find (\<lambda>n. n_ID n = i) (published_nodes nets s) of
                            Some n \<Rightarrow> Some (candidateOfRow i (row n)) | None \<Rightarrow> lookup u i))"
  using assms
proof (induction nets arbitrary: cs u)
  case (Cons w nets)
  let ?ns = "filter (\<lambda>n. n_Network n = w \<and> snapshotEligible n) (map snd (s_m s))"
  have p: "published_nodes (w # nets) s = ?ns @ published_nodes nets s" by (simp add: published_nodes_def)
  have r: "(case map_of (SnapshotNetworks all s) w of None \<Rightarrow> [] | Some rs \<Rightarrow> rs) = map row ?ns"
    using snapshot_rows [of w all s] Cons.prems(4) by simp
  have "room_for (length ?ns) u" using Cons.prems(1) unfolding p by (auto simp: room_for_def)
  then obtain v where v: "foldl (ingest_row env) ((0, 0), u) (map row ?ns) = ((0, 0), v)"
      "\<forall>k. room_for (k + length ?ns) u \<longrightarrow> room_for k v"
      "\<forall>i. lookup v i = (case find (\<lambda>n. n_ID n = i) ?ns of Some n \<Rightarrow> Some (candidateOfRow i (row n)) | None \<Rightarrow> lookup u i)"
    using ingest_fold [of ?ns u env 0 0] Cons.prems(2,3) unfolding p by fastforce
  have "room_for (length (published_nodes nets s)) v" using v(2) Cons.prems(1) unfolding p by (simp add: add.commute)
  then obtain s' where s': "foldl (restore_step env (SnapshotNetworks all s))
       (cs @ [(0, 0)], v) nets = ((cs @ [(0, 0)]) @ replicate (length nets) (0, 0), s')"
     "\<forall>i. lookup s' i = (case find (\<lambda>n. n_ID n = i) (published_nodes nets s) of
                            Some n \<Rightarrow> Some (candidateOfRow i (row n)) | None \<Rightarrow> lookup v i)"
    using Cons.IH [of v "cs @ [(0, 0)]"] Cons.prems(2-4) unfolding p by auto
  have later: "find (\<lambda>n. n_ID n = i) (published_nodes nets s) = None" if "find (\<lambda>n. n_ID n = i) ?ns = Some n" for i n
  proof -
    have "n \<in> set ?ns" "n_ID n = i" using found [OF that] by simp_all
    then have "i \<in> n_ID ` set ?ns" by blast
    moreover have "n_ID ` set ?ns \<inter> n_ID ` set (published_nodes nets s) = {}" using Cons.prems(2) unfolding p by auto
    ultimately show ?thesis unfolding find_None_iff by blast
  qed
  have "Ingest env (map row ?ns) u = ((0, 0), v)" using v(1) by (simp add: Ingest_def)
  then show ?case
    using s' v(3) later unfolding p find_append_case by (auto simp: r restore_step_def split: option.splits)
qed (simp add: published_nodes_def)

lemma find_published:
  assumes "nset_ok s" and "distinct nets"
  shows "find (\<lambda>n. n_ID n = i) (published_nodes nets s) =
    (case lookup s i of Some n \<Rightarrow> if n_Network n \<in> set nets \<and> snapshotEligible n then Some n else None | None \<Rightarrow> None)"
proof (cases "find (\<lambda>n. n_ID n = i) (published_nodes nets s)")
  case None
  have "\<not> (n_Network n \<in> set nets \<and> snapshotEligible n)" if "lookup s i = Some n" for n
  proof
    assume "n_Network n \<in> set nets \<and> snapshotEligible n"
    moreover have "n_ID n = i" "n \<in> snd ` set (s_m s)"
      using that nset_okD(2) [OF assms(1) that] nodes_of_set [OF assms(1), of n] by auto
    ultimately have "n \<in> set (published_nodes nets s)" by (simp add: published_nodes_set)
    then show False using None \<open>n_ID n = i\<close> unfolding find_None_iff by blast
  qed
  then show ?thesis using None by (cases "lookup s i") auto
next
  case (Some n)
  then have "n \<in> set (published_nodes nets s)" "n_ID n = i" using found [OF Some] by simp_all
  then show ?thesis using Some nodes_of_set [OF assms(1), of n] by (auto simp: published_nodes_set)
qed

text \<open>
  C18: a restart restores what was published. The rows of a snapshot of some networks, restored
  network by network into an empty set that is unbounded or has room for all of them, are neither
  dropped nor evict anything; afterwards the set is well formed, tracks exactly the published nodes,
  and gives each of them the row it was published with. The published nodes must be restorable (no
  probe in flight, ports and instants that a row can hold, no execution capabilities on a consensus
  node) and pass the address policy.
\<close>

theorem restart_restores_set:
  assumes "nset_ok s" and "distinct nets"
    and "\<forall>n \<in> set (published_nodes nets s). restorable n \<and> rowAddressesUsable env (row n)"
    and "mx \<le> 0 \<or> int (length (published_nodes nets s)) \<le> mx"
    and "restore_networks env nets (SnapshotNetworks nets s) (NewWithLimit mx) = (counts, s')"
  shows "counts = replicate (length nets) (0, 0) \<and> nset_ok s' \<and>
    (\<forall>i. map_option row (lookup s' i) =
       (case lookup s i of Some n \<Rightarrow> if n_Network n \<in> set nets \<and> snapshotEligible n then Some (row n) else None | None \<Rightarrow> None))"
proof -
  let ?ns = "published_nodes nets s"
  have room: "room_for (length ?ns) (NewWithLimit mx)" using assms(4) by (auto simp: room_for_def NewWithLimit_def Len_def)
  have prem: "length (n_ID n) = 32 \<and> rowAddressesUsable env (row n)" if "n \<in> set ?ns" for n
    using that assms(3) by (auto simp: restorable_def node_ok_def)
  have empty: "lookup (NewWithLimit mx) i = None" for i by (simp add: NewWithLimit_def lookup_def)
  from restore_fold [OF room published_nodes_distinct [OF assms(1,2)] prem subset_refl, of "[]"] obtain s1 where
    s1: "restore_networks env nets (SnapshotNetworks nets s) (NewWithLimit mx) = (replicate (length nets) (0, 0), s1)"
      "\<And>i. lookup s1 i = (case find (\<lambda>n. n_ID n = i) ?ns of Some n \<Rightarrow> Some (candidateOfRow i (row n)) | None \<Rightarrow> None)"
    unfolding restore_networks_def empty by (metis append_Nil)
  have c: "counts = replicate (length nets) (0, 0)" and e: "s1 = s'" using s1(1) assms(5) by simp_all
  note l = s1(2) [unfolded e]
  have rk: "list_all row_ok (case map_of (SnapshotNetworks nets s) w of None \<Rightarrow> [] | Some rs \<Rightarrow> rs)" if w: "w \<in> set nets" for w
  proof -
    have "row_ok (row n)" if "n \<in> set ?ns" for n
    proof -
      have "node_ok n" using that assms(3) by (simp add: restorable_def)
      then show ?thesis by (auto simp: node_ok_def row_ok_def row_def int32_id unixOrZero_def time_IsZero_def)
    qed
    then show ?thesis using w unfolding snapshot_rows [OF w] by (auto simp: list_all_iff published_nodes_set)
  qed
  have "nset_ok u \<Longrightarrow> set ws \<subseteq> set nets \<Longrightarrow> nset_ok (snd (foldl (restore_step env (SnapshotNetworks nets s)) (cs, u) ws))" for u ws cs
  proof (induction ws arbitrary: cs u)
    case (Cons w ws)
    obtain c v where v: "Ingest env (case map_of (SnapshotNetworks nets s) w of None \<Rightarrow> [] | Some rs \<Rightarrow> rs) u = (c, v)" by fastforce
    have "nset_ok v" using Ingest_ok [OF Cons.prems(1) rk, of w env] Cons.prems(2) v by simp
    then show ?case using Cons.IH [of v "cs @ [c]"] Cons.prems(2) by (simp add: restore_step_def v)
  qed simp
  from this [of "NewWithLimit mx" nets "[]"] have ok: "nset_ok s'" using assms(5) by (simp add: restore_networks_def)
  have "map_option row (lookup s' i) =
      (case find (\<lambda>n. n_ID n = i) ?ns of Some n \<Rightarrow> Some (row n) | None \<Rightarrow> None)" for i
  proof (cases "find (\<lambda>n. n_ID n = i) ?ns")
    case (Some n)
    then have "restorable n" "n_ID n = i" using found [OF Some] assms(3) by auto
    then show ?thesis using Some row_roundtrip_lemma [of n] by (simp add: l)
  qed (simp add: l)
  then have "map_option row (lookup s' i) =
      (case lookup s i of Some n \<Rightarrow> if n_Network n \<in> set nets \<and> snapshotEligible n then Some (row n) else None | None \<Rightarrow> None)" for i
    unfolding find_published [OF assms(1,2)] by (simp split: option.split)
  with c ok show ?thesis by blast
qed

theorem restart_restores_set_witness:
  "fst (restore_networks sample_env [''mainnet''] (SnapshotNetworks [''mainnet''] (sample_of [sample_node 1])) (NewWithLimit 2)) = [(0, 0)] \<and>
   map_option row (lookup (snd (restore_networks sample_env [''mainnet'']
       (SnapshotNetworks [''mainnet''] (sample_of [sample_node 1])) (NewWithLimit 2))) (replicate 32 1))
     = Some (row (sample_node 1))"
proof -
  let ?s = "sample_of [sample_node 1]"
  have ok: "nset_ok ?s" by (simp add: sample_simps)
  have e: "snapshotEligible (sample_node 1)" "n_Network (sample_node 1) = ''mainnet''" by code_simp+
  then have p: "published_nodes [''mainnet''] ?s = [sample_node 1]" by (simp add: published_nodes_def sample_of_def)
  have "rowAddressesUsable sample_env (row (sample_node 1))" by code_simp
  moreover have "restorable (sample_node 1)" by (simp add: restorable_def sample_simps is_port_def storable_time_def)
  ultimately have r: "\<forall>n \<in> set (published_nodes [''mainnet''] ?s). restorable n \<and> rowAddressesUsable sample_env (row n)"
    unfolding p by simp
  have d: "distinct [''mainnet'']" by simp
  have m: "(2::int) \<le> 0 \<or> int (length (published_nodes [''mainnet''] ?s)) \<le> 2" unfolding p by simp
  have "lookup ?s (replicate 32 1) = Some (sample_node 1)" by (simp add: sample_simps)
  with restart_restores_set [OF ok d r m surjective_pairing] e show ?thesis by simp
qed

section \<open>What is published\<close>

text \<open>
  A snapshot holds, for each listed network, exactly the rows of its publishable nodes, in
  the order the set is iterated and each once; nothing of another network, and every row belongs
  to the execution or the consensus layer, so that the total is the sum of the two.
\<close>

theorem snapshot_exact:
  "let rs = map row (filter (\<lambda>n. n_Network n = w \<and> snapshotEligible n) (map snd (s_m s)))
   in map_of (SnapshotNetworks nets s) w = (if w \<in> set nets \<and> rs \<noteq> [] then Some rs else None) \<and>
      length rs = length (filter (\<lambda>r. r_Layer r = ''el'') rs) + length (filter (\<lambda>r. r_Layer r = ''cl'') rs)"
proof -
  have "length (map row (filter (\<lambda>n. n_Network n = w \<and> snapshotEligible n) ns)) =
      length (filter (\<lambda>r. r_Layer r = ''el'') (map row (filter (\<lambda>n. n_Network n = w \<and> snapshotEligible n) ns))) +
      length (filter (\<lambda>r. r_Layer r = ''cl'') (map row (filter (\<lambda>n. n_Network n = w \<and> snapshotEligible n) ns)))" for ns
    by (induction ns) (auto simp: snapshotEligible_def row_def split: if_splits)
  then show ?thesis by (simp add: SnapshotNetworks_def snapshot_fold Let_def)
qed

lemma new_candidate_hidden: "\<not> snapshotEligible (new_candidate i e now)"
  by (simp add: snapshotEligible_def new_candidate_def apply_endpoint_def zeroNode_def)

lemma candidate_seen_eligible: "snapshotEligible (snd (candidate_seen n e now)) = snapshotEligible n"
proof -
  let ?c = "snd (candidate_seen n e now)"
  have "n_Layer ?c = n_Layer n" "n_ENR ?c = n_ENR n" "n_HasV4 ?c = n_HasV4 n" "n_HasV5 ?c = n_HasV5 n"
    "n_pinned ?c = n_pinned n" "n_Score ?c = n_Score n" "n_fpDone ?c = n_fpDone n"
    by (simp_all add: candidate_seen_def apply_endpoint_def Let_def)
  then show ?thesis by (simp only: snapshotEligible_def)
qed

text \<open>
  Unsigned sightings never publish anything: after an unsigned endpoint is observed, every
  publishable node was publishable before. In particular a freshly retained candidate is not.
\<close>

theorem unsigned_never_published:
  assumes "lookup (snd (ObserveCandidateEL env n now lim s)) i = Some m" and "snapshotEligible m"
  shows "\<exists>m'. lookup s i = Some m' \<and> snapshotEligible m'"
proof (cases "i = en_ID n")
  case True
  show ?thesis
  proof (cases "lookup s i")
    case None
    then show ?thesis
      using assms True new_candidate_hidden [of i "extractNode env n" now]
      by (auto simp: ObserveCandidateEL_def candidate_locked_def Let_def split: if_splits)
  next
    case (Some c)
    then show ?thesis
      using assms True candidate_seen_eligible [of c "extractNode env n" now]
      by (auto simp: ObserveCandidateEL_def candidate_locked_def Let_def split_beta split: if_splits)
  qed
next
  case False
  then have "lookup s i = Some m"
    using assms(1) by (auto simp: ObserveCandidateEL_def candidate_locked_def Let_def split: if_splits option.splits prod.splits)
  with assms(2) show ?thesis by blast
qed

theorem unsigned_never_published_witness:
  "\<exists>m'. lookup (sample_of [sample_node 1]) (replicate 32 1) = Some m' \<and> snapshotEligible m'"
proof (rule unsigned_never_published)
  show "lookup (snd (ObserveCandidateEL sample_env (sample_enode 9 1 0) 50 1 (sample_of [sample_node 1]))) (replicate 32 1) =
     Some (sample_node 1)" by code_simp
  show "snapshotEligible (sample_node 1)" by code_simp
qed

section \<open>Statistics\<close>

lemma capacityClass_less: "capacityClass n < 4"
  by (simp add: capacityClass_def)

lemma stats_fold:
  assumes "length (st_Classes st) = 4"
  shows "sum_list (st_Classes (foldl stats_step st ns)) = sum_list (st_Classes st) + length ns \<and>
         length (st_Classes (foldl stats_step st ns)) = 4 \<and>
         length (st_Candidates (foldl stats_step st ns)) = length (st_Candidates st) + length (filter isELCandidate ns) \<and>
         st_Unclassified (foldl stats_step st ns) = st_Unclassified st + length (filter (\<lambda>n. n_Network n = []) ns) \<and>
         st_Len (foldl stats_step st ns) = st_Len st \<and> st_ELCandidates (foldl stats_step st ns) = st_ELCandidates st"
  using assms
proof (induction ns arbitrary: st)
  case (Cons n ns)
  let ?c = "capacityClass n"
  have c: "?c < length (st_Classes st)" using Cons.prems capacityClass_less by simp
  have "sum_list ((st_Classes st)[?c := st_Classes st ! ?c + 1]) = Suc (sum_list (st_Classes st))"
    using c by (simp add: sum_list_update)
  moreover have "length (st_Classes (stats_step st n)) = 4"
    using Cons.prems by (simp add: stats_step_def Let_def)
  ultimately show ?case
    using Cons.IH [of "stats_step st n"] by (auto simp: stats_step_def Let_def)
qed simp

text \<open>
  The statistics gathered in one pass agree with the set: the capacity classes add up to the
  number of nodes, and the maintained candidate counter is the number of candidate states listed.
\<close>

theorem stats_consistent:
  assumes "nset_ok s"
  shows "int (sum_list (st_Classes (Stats_of s))) = st_Len (Stats_of s) \<and>
         st_ELCandidates (Stats_of s) = int (length (st_Candidates (Stats_of s))) \<and>
         length (st_Candidates (Stats_of s)) \<le> st_Unclassified (Stats_of s)"
proof -
  define ns where "ns = map snd (s_m s)"
  have c: "s_candidates s = int (length (filter isELCandidate ns))"
    using nset_okD(4) [OF assms] by (simp add: count_vals_def filter_map comp_def ns_def)
  have u: "length (filter isELCandidate ns) \<le> length (filter (\<lambda>n. n_Network n = []) ns)" for ns
    by (induction ns) (auto simp: isELCandidate_def)
  have "Len s = int (length ns)" by (simp add: Len_def ns_def)
  then show ?thesis
    using c u [of ns] stats_fold [of "\<lparr>st_Len = Len s, st_Unclassified = 0, st_ELCandidates = s_candidates s,
        st_Classes = [0, 0, 0, 0], st_Candidates = []\<rparr>" ns]
    unfolding Stats_of_def ns_def [symmetric] by simp
qed

theorem stats_consistent_witness:
  "int (sum_list (st_Classes (Stats_of sample_full))) = st_Len (Stats_of sample_full)"
  using stats_consistent [OF sample_full_ok] by blast

end
