(* ===== verification/ExpiringMap.thy ===== *)
theory ExpiringMap
  imports NodeModel
begin

text \<open>
  The expiring map of \<^verbatim>\<open>cmd/crawler/pending_fingerprints.go\<close>: a bounded map whose entries live for
  one \<^verbatim>\<open>ttl\<close>, with a heap of expiry items that may outlive the entries they were pushed for. The
  heap is the one of theory \<open>GoHeap\<close>, ordered by \<open>pendingExpiry_Less\<close>. The counter \<^verbatim>\<open>seq\<close>, a
  \<^verbatim>\<open>uint64\<close> incremented once per insertion, is a natural number.

  \<open>live\<close> is the abstract view: what the map holds at an instant. The locale \<open>expiring_store\<close>
  states the contract the two wrappers \<^verbatim>\<open>pendingFingerprints\<close> and \<^verbatim>\<open>pendingLegacyNodes\<close> rely on, and
  is interpreted on the operations below.
\<close>

section \<open>Operations\<close>

record pendingExpiry =
  pe_id :: node_id
  pe_at :: gotime
  pe_seq :: nat

definition pendingExpiry_Less :: "pendingExpiry \<Rightarrow> pendingExpiry \<Rightarrow> bool" where
  "pendingExpiry_Less a b \<longleftrightarrow> pe_at a < pe_at b"

record 'v expiringEntry =
  ee_value :: 'v
  ee_at :: gotime
  ee_seq :: nat

record 'v expiringMap =
  em_entries :: "(node_id, 'v expiringEntry) gomap"
  em_ttl :: duration
  em_max :: int
  em_seq :: nat
  em_expiry :: "pendingExpiry list"

definition newExpiringMap :: "duration \<Rightarrow> int \<Rightarrow> 'v expiringMap" where
  "newExpiringMap ttl mx = \<lparr>em_entries = [], em_ttl = ttl, em_max = mx, em_seq = 0, em_expiry = []\<rparr>"

definition em_get :: "'v expiringMap \<Rightarrow> node_id \<Rightarrow> 'v expiringEntry option" where
  "em_get p i = map_of (em_entries p) i"

definition em_delete :: "node_id \<Rightarrow> 'v expiringMap \<Rightarrow> 'v expiringMap" where
  "em_delete i p = p\<lparr>em_entries := AList.delete i (em_entries p)\<rparr>"

text \<open>The entry an expiry item was pushed for, if it is still the current one of its key.\<close>

definition em_current :: "'v expiringMap \<Rightarrow> pendingExpiry \<Rightarrow> bool" where
  "em_current p item =
     (case em_get p (pe_id item) of None \<Rightarrow> False | Some e \<Rightarrow> ee_seq e = pe_seq item)"

definition em_drop :: "pendingExpiry \<Rightarrow> 'v expiringMap \<Rightarrow> 'v expiringMap" where
  "em_drop item p = (if em_current p item then em_delete (pe_id item) p else p)"

lemma heap_Pop_length: "heap_Pop lt h = Some (x, h') \<Longrightarrow> length h' < length h"
  by (auto simp: heap_Pop_def Let_def split: if_splits)

lemma em_drop_expiry [simp]: "em_expiry (em_drop item p) = em_expiry p"
  by (simp add: em_drop_def em_delete_def)

function em_prune :: "gotime \<Rightarrow> 'v expiringMap \<Rightarrow> 'v expiringMap" where
  "em_prune now p =
     (if em_expiry p = [] \<or> now < time_Add (pe_at (em_expiry p ! 0)) (em_ttl p) then p
      else case heap_Pop pendingExpiry_Less (em_expiry p) of
             None \<Rightarrow> p
           | Some (item, h) \<Rightarrow> em_prune now (em_drop item (p\<lparr>em_expiry := h\<rparr>)))"
  by pat_completeness auto
termination
  by (relation "measure (\<lambda>(now, p). length (em_expiry p))") (auto dest: heap_Pop_length)

function evictOldest :: "'v expiringMap \<Rightarrow> 'v expiringMap" where
  "evictOldest p =
     (case heap_Pop pendingExpiry_Less (em_expiry p) of
        None \<Rightarrow> p
      | Some (item, h) \<Rightarrow>
          if em_current p item then em_delete (pe_id item) (p\<lparr>em_expiry := h\<rparr>)
          else evictOldest (p\<lparr>em_expiry := h\<rparr>))"
  by pat_completeness auto
termination
  by (relation "measure (\<lambda>p. length (em_expiry p))") (auto dest: heap_Pop_length)

declare em_prune.simps [simp del] evictOldest.simps [simp del]

definition expiry_item :: "node_id \<times> 'v expiringEntry \<Rightarrow> pendingExpiry" where
  "expiry_item kv = \<lparr>pe_id = fst kv, pe_at = ee_at (snd kv), pe_seq = ee_seq (snd kv)\<rparr>"

definition compact :: "'v expiringMap \<Rightarrow> 'v expiringMap" where
  "compact p = p\<lparr>em_expiry := heap_Init pendingExpiry_Less (map expiry_item (em_entries p))\<rparr>"

definition putLocked :: "node_id \<Rightarrow> 'v \<Rightarrow> gotime \<Rightarrow> 'v expiringMap \<Rightarrow> 'v expiringMap" where
  "putLocked i v now p =
     (let p = (if em_get p i = None \<and> em_max p \<le> int (length (em_entries p)) then evictOldest p else p);
          p = p\<lparr>em_seq := em_seq p + 1\<rparr>;
          p = p\<lparr>em_entries := AList.update i \<lparr>ee_value = v, ee_at = now, ee_seq = em_seq p\<rparr> (em_entries p),
                em_expiry := heap_Push pendingExpiry_Less (em_expiry p)
                               \<lparr>pe_id = i, pe_at = now, pe_seq = em_seq p\<rparr>\<rparr>
      in if 2 * em_max p < int (length (em_expiry p)) then compact p else p)"

definition em_Put :: "node_id \<Rightarrow> 'v \<Rightarrow> gotime \<Rightarrow> 'v expiringMap \<Rightarrow> 'v expiringMap" where
  "em_Put i v now p = putLocked i v now (em_prune now p)"

definition Allow :: "'v \<Rightarrow> node_id \<Rightarrow> gotime \<Rightarrow> 'v expiringMap \<Rightarrow> bool \<times> 'v expiringMap" where
  "Allow zero i now p =
     (let p = em_prune now p
      in if em_get p i \<noteq> None then (False, p) else (True, putLocked i zero now p))"

definition em_Take :: "node_id \<Rightarrow> gotime \<Rightarrow> 'v expiringMap \<Rightarrow> 'v option \<times> 'v expiringMap" where
  "em_Take i now p =
     (let p = em_prune now p
      in case em_get p i of None \<Rightarrow> (None, p) | Some e \<Rightarrow> (Some (ee_value e), em_delete i p))"

definition TakeIf ::
    "node_id \<Rightarrow> gotime \<Rightarrow> ('v \<Rightarrow> bool) \<Rightarrow> 'v expiringMap \<Rightarrow> 'v option \<times> 'v expiringMap" where
  "TakeIf i now accept p =
     (let p = em_prune now p
      in case em_get p i of
           None \<Rightarrow> (None, p)
         | Some e \<Rightarrow> if \<not> accept (ee_value e) then (None, p) else (Some (ee_value e), em_delete i p))"

definition Drain ::
    "gotime \<Rightarrow> (node_id \<Rightarrow> 'v \<Rightarrow> bool) \<Rightarrow> 'v expiringMap \<Rightarrow> node_id list \<times> 'v expiringMap" where
  "Drain now accept p =
     (let p = em_prune now p
      in foldl (\<lambda>(out, p) (i, e). if \<not> accept i (ee_value e) then (out, p) else (out @ [i], em_delete i p))
           ([], p) (em_entries p))"

section \<open>The two wrappers\<close>

record pendingFingerprint =
  pf_layer :: string
  pf_value :: Fingerprint

definition pending_Put ::
    "node_id \<Rightarrow> string \<Rightarrow> Fingerprint \<Rightarrow> gotime \<Rightarrow> pendingFingerprint expiringMap \<Rightarrow>
     pendingFingerprint expiringMap" where
  "pending_Put i layer v now p =
     (if i = replicate 32 0 then p else em_Put i \<lparr>pf_layer = layer, pf_value = v\<rparr> now p)"

definition pending_Take ::
    "node_id \<Rightarrow> string \<Rightarrow> gotime \<Rightarrow> pendingFingerprint expiringMap \<Rightarrow>
     Fingerprint option \<times> pendingFingerprint expiringMap" where
  "pending_Take i layer now p =
     (let (r, p) = TakeIf i now (\<lambda>e. pf_layer e = layer) p in (map_option pf_value r, p))"

record identifiedFingerprint =
  if_id :: node_id
  if_layer :: string
  if_value :: Fingerprint

text \<open>
  The closure passed to \<^verbatim>\<open>Drain\<close> appends what it accepts; the drained entries in the order of the
  iteration are the same list.
\<close>

definition DrainKnown ::
    "gotime \<Rightarrow> (node_id \<Rightarrow> string) \<Rightarrow> pendingFingerprint expiringMap \<Rightarrow>
     identifiedFingerprint list \<times> pendingFingerprint expiringMap" where
  "DrainKnown now layerOf p =
     (let accept = (\<lambda>i e. layerOf i = pf_layer e);
          known = filter (\<lambda>(i, e). accept i (ee_value e)) (em_entries (em_prune now p))
      in (map (\<lambda>(i, e). \<lparr>if_id = i, if_layer = pf_layer (ee_value e), if_value = pf_value (ee_value e)\<rparr>) known,
          snd (Drain now accept p)))"

record pendingLegacyNode =
  pl_node :: enode
  pl_via :: string

definition legacy_Put ::
    "enode option \<Rightarrow> string \<Rightarrow> gotime \<Rightarrow> pendingLegacyNode expiringMap \<Rightarrow> pendingLegacyNode expiringMap" where
  "legacy_Put n via now p =
     (case n of None \<Rightarrow> p | Some n \<Rightarrow> em_Put (en_ID n) \<lparr>pl_node = n, pl_via = via\<rparr> now p)"

section \<open>The invariant\<close>

text \<open>
  Every entry has its item in the heap, an item that carries the sequence number of the entry of
  its key also carries its instant, and the counter is above every number in use.
\<close>

definition em_ok :: "'v expiringMap \<Rightarrow> bool" where
  "em_ok p \<longleftrightarrow>
     gomap_ok (em_entries p) \<and> heap_ok pendingExpiry_Less (em_expiry p) \<and>
     (\<forall>kv \<in> set (em_entries p). expiry_item kv \<in> set (em_expiry p)) \<and>
     (\<forall>item \<in> set (em_expiry p). pe_seq item \<le> em_seq p \<and>
        (\<forall>e. em_get p (pe_id item) = Some e \<and> ee_seq e = pe_seq item \<longrightarrow> pe_at item = ee_at e)) \<and>
     1 \<le> em_max p \<and> int (length (em_entries p)) \<le> em_max p \<and>
     int (length (em_expiry p)) \<le> 2 * em_max p"

text \<open>What the map holds at an instant.\<close>

definition live :: "'v expiringMap \<Rightarrow> gotime \<Rightarrow> node_id \<Rightarrow> 'v option" where
  "live p now i =
     (case em_get p i of
        None \<Rightarrow> None
      | Some e \<Rightarrow> if now < ee_at e + em_ttl p then Some (ee_value e) else None)"

interpretation expiry: strict_weak pendingExpiry_Less
  by unfold_locales (auto simp: pendingExpiry_Less_def)


section \<open>Removing expired and old entries\<close>

lemma em_get_simps [simp]:
  "em_get (p\<lparr>em_expiry := h\<rparr>) i = em_get p i" "em_get (p\<lparr>em_seq := k\<rparr>) i = em_get p i"
  "em_get (em_delete j p) i = (if i = j then None else em_get p i)"
  by (simp_all add: em_get_def em_delete_def map_of_delete)

lemma em_delete_frame [simp]:
  "em_ttl (em_delete i p) = em_ttl p" "em_max (em_delete i p) = em_max p" "em_seq (em_delete i p) = em_seq p"
  "em_expiry (em_delete i p) = em_expiry p"
  by (simp_all add: em_delete_def)

lemma em_in_entries: "gomap_ok (em_entries p) \<Longrightarrow> (i, e) \<in> set (em_entries p) \<longleftrightarrow> em_get p i = Some e"
  by (simp add: em_get_def gomap_in_set_iff)

lemma em_okD:
  assumes "em_ok p"
  shows "gomap_ok (em_entries p)" and "heap_ok pendingExpiry_Less (em_expiry p)"
    and "em_get p i = Some e \<Longrightarrow> \<lparr>pe_id = i, pe_at = ee_at e, pe_seq = ee_seq e\<rparr> \<in> set (em_expiry p)"
    and "item \<in> set (em_expiry p) \<Longrightarrow> pe_seq item \<le> em_seq p"
    and "item \<in> set (em_expiry p) \<Longrightarrow> em_get p (pe_id item) = Some e \<Longrightarrow> ee_seq e = pe_seq item \<Longrightarrow>
           pe_at item = ee_at e"
    and "1 \<le> em_max p" and "int (length (em_entries p)) \<le> em_max p"
    and "int (length (em_expiry p)) \<le> 2 * em_max p"
proof -
  show "em_get p i = Some e \<Longrightarrow> \<lparr>pe_id = i, pe_at = ee_at e, pe_seq = ee_seq e\<rparr> \<in> set (em_expiry p)"
    using assms em_in_entries [of p i e] by (auto simp: em_ok_def expiry_item_def)
qed (use assms in \<open>auto simp: em_ok_def\<close>)

lemma em_okI:
  assumes "gomap_ok (em_entries p)" and "heap_ok pendingExpiry_Less (em_expiry p)"
    and "\<And>i e. em_get p i = Some e \<Longrightarrow> \<lparr>pe_id = i, pe_at = ee_at e, pe_seq = ee_seq e\<rparr> \<in> set (em_expiry p)"
    and "\<And>item. item \<in> set (em_expiry p) \<Longrightarrow> pe_seq item \<le> em_seq p"
    and "\<And>item e. item \<in> set (em_expiry p) \<Longrightarrow> em_get p (pe_id item) = Some e \<Longrightarrow> ee_seq e = pe_seq item \<Longrightarrow>
           pe_at item = ee_at e"
    and "1 \<le> em_max p" and "int (length (em_entries p)) \<le> em_max p"
    and "int (length (em_expiry p)) \<le> 2 * em_max p"
  shows "em_ok p"
  using assms by (auto simp: em_ok_def expiry_item_def em_in_entries)

lemma em_delete_ok [inv_intros]: "em_ok p \<Longrightarrow> em_ok (em_delete i p)"
proof -
  assume ok: "em_ok p"
  note d = em_okD [OF ok]
  have l: "length (AList.delete i (em_entries p)) \<le> length (em_entries p)"
    by (simp add: length_gomap_delete_le)
  show "em_ok (em_delete i p)"
  proof (rule em_okI)
    show "gomap_ok (em_entries (em_delete i p))" using d(1) by (simp add: em_delete_def gomap_ok_delete)
    show "int (length (em_entries (em_delete i p))) \<le> em_max (em_delete i p)"
      using d(7) l by (simp add: em_delete_def)
  qed (use d in \<open>auto split: if_splits\<close>)
qed

text \<open>One item taken off the heap, with the entry it stands for.\<close>

lemma pop_item:
  assumes "em_ok p" and "em_expiry p \<noteq> []"
  obtains item h where "heap_Pop pendingExpiry_Less (em_expiry p) = Some (item, h)"
    and "set (em_expiry p) = insert item (set h)" and "heap_ok pendingExpiry_Less h"
    and "length (em_expiry p) = Suc (length h)"
    and "\<And>y. y \<in> set (em_expiry p) \<Longrightarrow> pe_at item \<le> pe_at y" and "pe_at item = pe_at (em_expiry p ! 0)"
proof -
  obtain item h where h: "heap_Pop pendingExpiry_Less (em_expiry p) = Some (item, h)"
    "mset (em_expiry p) = add_mset item (mset h)" "heap_ok pendingExpiry_Less h"
    "\<And>y. y \<in># mset (em_expiry p) \<Longrightarrow> \<not> pendingExpiry_Less y item"
    using expiry.heap_Pop_correct [OF em_okD(2) [OF assms(1)] assms(2)] by metis
  have le: "pe_at item \<le> pe_at y" if "y \<in> set (em_expiry p)" for y
    using h(4) [of y] that by (simp add: pendingExpiry_Less_def)
  have "item \<in># mset (em_expiry p)" using h(2) by simp
  then obtain k where k: "k < length (em_expiry p)" "em_expiry p ! k = item"
    by (auto simp: in_set_conv_nth)
  then have "\<not> pendingExpiry_Less item (em_expiry p ! 0)"
    using expiry.heap_root_least [OF em_okD(2) [OF assms(1)] k(1)] by simp
  moreover have "pe_at item \<le> pe_at (em_expiry p ! 0)" using le assms(2) by simp
  ultimately have "pe_at item = pe_at (em_expiry p ! 0)" by (simp add: pendingExpiry_Less_def)
  moreover have "set (em_expiry p) = insert item (set h)" using h(2) by (metis set_mset_add_mset_insert set_mset_mset)
  moreover have "length (em_expiry p) = Suc (length h)" using h(2) by (metis size_add_mset size_mset)
  ultimately show ?thesis using that h(1,3) le by blast
qed

lemma drop_item_ok:
  assumes ok: "em_ok p" and s: "set (em_expiry p) = insert item (set h)"
    and h: "heap_ok pendingExpiry_Less h" "length (em_expiry p) = Suc (length h)"
  shows "em_ok (em_drop item (p\<lparr>em_expiry := h\<rparr>))"
proof -
  note d = em_okD [OF ok]
  have cur: "em_current p item" if "em_get p i = Some e" "\<lparr>pe_id = i, pe_at = ee_at e, pe_seq = ee_seq e\<rparr> = item" for i e
    using that by (auto simp: em_current_def)
  have c: "em_current (p\<lparr>em_expiry := h\<rparr>) item = em_current p item" by (simp add: em_current_def)
  have l: "length (AList.delete (pe_id item) (em_entries p)) \<le> length (em_entries p)"
    by (simp add: length_gomap_delete_le)
  show ?thesis
  proof (rule em_okI)
    show "gomap_ok (em_entries (em_drop item (p\<lparr>em_expiry := h\<rparr>)))"
      using d(1) by (simp add: em_drop_def em_delete_def gomap_ok_delete)
    show "\<lparr>pe_id = i, pe_at = ee_at e, pe_seq = ee_seq e\<rparr> \<in> set (em_expiry (em_drop item (p\<lparr>em_expiry := h\<rparr>)))"
      if "em_get (em_drop item (p\<lparr>em_expiry := h\<rparr>)) i = Some e" for i e
    proof -
      have g: "em_get p i = Some e" and n: "em_current p item \<longrightarrow> i \<noteq> pe_id item"
        using that by (auto simp: em_drop_def c split: if_splits)
      then have "\<lparr>pe_id = i, pe_at = ee_at e, pe_seq = ee_seq e\<rparr> \<noteq> item" using cur by fastforce
      with d(3) [OF g] s show ?thesis by auto
    qed
    show "int (length (em_entries (em_drop item (p\<lparr>em_expiry := h\<rparr>)))) \<le> em_max (em_drop item (p\<lparr>em_expiry := h\<rparr>))"
      using d(7) l by (simp add: em_drop_def em_delete_def)
  qed (use d s h in \<open>auto simp: em_drop_def split: if_splits\<close>)
qed

lemma em_prune_stop:
  assumes ok: "em_ok p" and stop: "em_expiry p = [] \<or> now < pe_at (em_expiry p ! 0) + em_ttl p"
    and e: "em_get p i = Some e"
  shows "now < ee_at e + em_ttl p"
proof -
  note d = em_okD [OF ok]
  have m: "\<lparr>pe_id = i, pe_at = ee_at e, pe_seq = ee_seq e\<rparr> \<in> set (em_expiry p)" by (rule d(3) [OF e])
  then obtain k where k: "k < length (em_expiry p)" "em_expiry p ! k = \<lparr>pe_id = i, pe_at = ee_at e, pe_seq = ee_seq e\<rparr>"
    by (auto simp: in_set_conv_nth)
  then have "\<not> pendingExpiry_Less (em_expiry p ! k) (em_expiry p ! 0)"
    using expiry.heap_root_least [OF d(2)] by blast
  then have "pe_at (em_expiry p ! 0) \<le> ee_at e" using k(2) by (simp add: pendingExpiry_Less_def)
  moreover have "em_expiry p \<noteq> []" using m by auto
  ultimately show ?thesis using stop by linarith
qed

lemma em_prune_spec:
  assumes "em_ok p"
  shows "em_ok (em_prune now p) \<and> em_ttl (em_prune now p) = em_ttl p \<and> em_max (em_prune now p) = em_max p \<and>
         (\<forall>i. em_get (em_prune now p) i =
            (case em_get p i of None \<Rightarrow> None | Some e \<Rightarrow> if now < ee_at e + em_ttl p then Some e else None))"
  using assms
proof (induction now p rule: em_prune.induct)
  case (1 now p)
  show ?case
  proof (cases "em_expiry p = [] \<or> now < pe_at (em_expiry p ! 0) + em_ttl p")
    case True
    then have "em_prune now p = p" by (simp add: em_prune.simps [of now p] time_Add_def)
    then show ?thesis
      using 1(2) em_prune_stop [OF 1(2) True] by (auto split: option.splits)
  next
    case False
    then have ne: "em_expiry p \<noteq> []" by blast
    obtain item h where h: "heap_Pop pendingExpiry_Less (em_expiry p) = Some (item, h)"
      "set (em_expiry p) = insert item (set h)" "heap_ok pendingExpiry_Less h"
      "length (em_expiry p) = Suc (length h)" "pe_at item = pe_at (em_expiry p ! 0)"
      using pop_item [OF 1(2) ne] by metis
    let ?q = "em_drop item (p\<lparr>em_expiry := h\<rparr>)"
    have c: "em_current (p\<lparr>em_expiry := h\<rparr>) item = em_current p item" by (simp add: em_current_def)
    have f: "em_ttl ?q = em_ttl p" "em_max ?q = em_max p" by (simp_all add: em_drop_def)
    have old: "ee_at e + em_ttl p \<le> now" if "em_current p item" "em_get p (pe_id item) = Some e" for e
      using that em_okD(5) [OF 1(2), of item e] h(2,5) False by (auto simp: em_current_def)
    have g: "em_get ?q i = (if em_current p item \<and> i = pe_id item then None else em_get p i)" for i
      by (simp add: em_drop_def c)
    have IH: "em_ok (em_prune now ?q) \<and> em_ttl (em_prune now ?q) = em_ttl ?q \<and> em_max (em_prune now ?q) = em_max ?q \<and>
       (\<forall>i. em_get (em_prune now ?q) i =
          (case em_get ?q i of None \<Rightarrow> None | Some e \<Rightarrow> if now < ee_at e + em_ttl ?q then Some e else None))"
      using 1(1) [OF _ h(1) refl drop_item_ok [OF 1(2) h(2,3,4)]] False by (simp add: time_Add_def)
    have "em_prune now p = em_prune now ?q"
      using False h(1) by (simp add: em_prune.simps [of now p] time_Add_def)
    then show ?thesis using IH f g old by (auto split: option.splits)
  qed
qed

text \<open>Eviction removes exactly one entry, one that was put first.\<close>

definition evicts_oldest :: "'v expiringMap \<Rightarrow> 'v expiringMap \<Rightarrow> bool" where
  "evicts_oldest p q \<longleftrightarrow>
     (\<exists>i e. em_get p i = Some e \<and> (\<forall>j f. em_get p j = Some f \<longrightarrow> ee_at e \<le> ee_at f) \<and>
        (\<forall>j. em_get q j = (if j = i then None else em_get p j)) \<and>
        em_entries q = AList.delete i (em_entries p))"

lemma evicts_oldest_expiry [simp]: "evicts_oldest (p\<lparr>em_expiry := h\<rparr>) q = evicts_oldest p q"
  by (simp add: evicts_oldest_def cong: if_cong)

lemma evictOldest_spec:
  assumes "em_ok p" and "em_entries p \<noteq> []"
  shows "em_ok (evictOldest p) \<and> em_ttl (evictOldest p) = em_ttl p \<and> em_max (evictOldest p) = em_max p \<and>
         em_seq (evictOldest p) = em_seq p \<and> evicts_oldest p (evictOldest p)"
  using assms
proof (induction p rule: evictOldest.induct)
  case (1 p)
  obtain i0 e0 where "(i0, e0) \<in> set (em_entries p)" using 1(3) by (cases "em_entries p") auto
  then have "em_expiry p \<noteq> []"
    using em_okD(1,3) [OF 1(2)] em_in_entries [of p i0 e0] by fastforce
  then obtain item h where h: "heap_Pop pendingExpiry_Less (em_expiry p) = Some (item, h)"
    "set (em_expiry p) = insert item (set h)" "heap_ok pendingExpiry_Less h"
    "length (em_expiry p) = Suc (length h)" "\<And>y. y \<in> set (em_expiry p) \<Longrightarrow> pe_at item \<le> pe_at y"
    using pop_item [OF 1(2)] by metis
  have c: "em_current (p\<lparr>em_expiry := h\<rparr>) item = em_current p item" by (simp add: em_current_def)
  have ok: "em_ok (em_drop item (p\<lparr>em_expiry := h\<rparr>))" by (rule drop_item_ok [OF 1(2) h(2,3,4)])
  show ?case
  proof (cases "em_current p item")
    case True
    let ?q = "em_delete (pe_id item) (p\<lparr>em_expiry := h\<rparr>)"
    have e: "evictOldest p = ?q" using True h(1) by (simp add: evictOldest.simps [of p])
    obtain e where ge: "em_get p (pe_id item) = Some e" "ee_seq e = pe_seq item"
      using True by (auto simp: em_current_def split: option.splits)
    have "ee_at e \<le> ee_at f" if "em_get p j = Some f" for j f
      using h(5) [OF em_okD(3) [OF 1(2) that]] em_okD(5) [OF 1(2) _ ge] h(2) by simp
    then have "evicts_oldest p ?q"
      unfolding evicts_oldest_def using ge by (intro exI [of _ "pe_id item"] exI [of _ e]) (simp add: em_delete_def em_get_def map_of_delete)
    then show ?thesis using e ok True c by (simp add: em_drop_def)
  next
    case False
    have e: "evictOldest p = evictOldest (p\<lparr>em_expiry := h\<rparr>)" using False h(1) by (simp add: evictOldest.simps [of p])
    have "em_ok (p\<lparr>em_expiry := h\<rparr>)" using ok False c by (simp add: em_drop_def)
    then show ?thesis
      using 1(1) [OF h(1) refl False] 1(3) unfolding e by simp
  qed
qed

section \<open>Inserting an entry\<close>

lemma heap_Push_set: "set (heap_Push lt h x) = insert x (set h)"
  by (metis heap_Push_mset set_mset_add_mset_insert set_mset_mset)

lemma heap_Push_length: "length (heap_Push lt h x) = Suc (length h)"
  by (metis heap_Push_mset size_add_mset size_mset)

lemma heap_Init_set: "set (heap_Init lt h) = set h"
  by (metis heap_Init_mset set_mset_mset)

lemma heap_Init_length: "length (heap_Init lt h) = length h"
  by (metis heap_Init_mset size_mset)

text \<open>The state just before the heap is compacted may exceed the bound of the heap by one.\<close>

definition em_insert :: "node_id \<Rightarrow> 'v \<Rightarrow> gotime \<Rightarrow> 'v expiringMap \<Rightarrow> 'v expiringMap" where
  "em_insert i v now p =
     p\<lparr>em_seq := em_seq p + 1,
       em_entries := AList.update i \<lparr>ee_value = v, ee_at = now, ee_seq = em_seq p + 1\<rparr> (em_entries p),
       em_expiry := heap_Push pendingExpiry_Less (em_expiry p)
                      \<lparr>pe_id = i, pe_at = now, pe_seq = em_seq p + 1\<rparr>\<rparr>"

lemma em_get_insert:
  "em_get (em_insert i v now p) j =
     (if j = i then Some \<lparr>ee_value = v, ee_at = now, ee_seq = em_seq p + 1\<rparr> else em_get p j)"
  by (simp add: em_insert_def em_get_def map_of_update)

lemma em_insert_frame [simp]:
  "em_ttl (em_insert i v now p) = em_ttl p" "em_max (em_insert i v now p) = em_max p"
  "em_seq (em_insert i v now p) = em_seq p + 1"
  by (simp_all add: em_insert_def)

lemma em_insert_expiry:
  "set (em_expiry (em_insert i v now p)) = insert \<lparr>pe_id = i, pe_at = now, pe_seq = em_seq p + 1\<rparr> (set (em_expiry p))"
  "length (em_expiry (em_insert i v now p)) = Suc (length (em_expiry p))"
  by (simp_all add: em_insert_def heap_Push_set heap_Push_length)

lemma em_insert_items:
  assumes ok: "em_ok p"
  shows "em_get (em_insert i v now p) j = Some e \<Longrightarrow>
           \<lparr>pe_id = j, pe_at = ee_at e, pe_seq = ee_seq e\<rparr> \<in> set (em_expiry (em_insert i v now p))"
    and "item \<in> set (em_expiry (em_insert i v now p)) \<Longrightarrow> pe_seq item \<le> em_seq (em_insert i v now p)"
    and "item \<in> set (em_expiry (em_insert i v now p)) \<Longrightarrow> em_get (em_insert i v now p) (pe_id item) = Some e \<Longrightarrow>
           ee_seq e = pe_seq item \<Longrightarrow> pe_at item = ee_at e"
proof -
  note d = em_okD [OF ok]
  show "\<lparr>pe_id = j, pe_at = ee_at e, pe_seq = ee_seq e\<rparr> \<in> set (em_expiry (em_insert i v now p))"
    if "em_get (em_insert i v now p) j = Some e"
    using that d(3) [of j e] by (auto simp: em_get_insert em_insert_expiry split: if_splits)
  show "pe_seq item \<le> em_seq (em_insert i v now p)" if "item \<in> set (em_expiry (em_insert i v now p))"
    using that d(4) [of item] by (auto simp: em_insert_expiry)
  show "pe_at item = ee_at e" if "item \<in> set (em_expiry (em_insert i v now p))"
      "em_get (em_insert i v now p) (pe_id item) = Some e" "ee_seq e = pe_seq item"
  proof (cases "item = \<lparr>pe_id = i, pe_at = now, pe_seq = em_seq p + 1\<rparr>")
    case True
    then show ?thesis using that(2,3) by (auto simp: em_get_insert)
  next
    case False
    then have "item \<in> set (em_expiry p)" using that(1) by (simp add: em_insert_expiry)
    then show ?thesis
      using that(2,3) d(4) [of item] d(5) [of item e] by (auto simp: em_get_insert split: if_splits)
  qed
qed

lemma compact_ok:
  assumes "gomap_ok (em_entries p)" and "1 \<le> em_max p" and "int (length (em_entries p)) \<le> em_max p"
    and "\<And>i e. em_get p i = Some e \<Longrightarrow> ee_seq e \<le> em_seq p"
  shows "em_ok (compact p)"
proof (rule em_okI)
  have s: "set (em_expiry (compact p)) = expiry_item ` set (em_entries p)"
    by (simp add: compact_def heap_Init_set)
  have g: "em_get (compact p) i = em_get p i" for i by (simp add: compact_def)
  show "gomap_ok (em_entries (compact p))" using assms(1) by (simp add: compact_def)
  show "heap_ok pendingExpiry_Less (em_expiry (compact p))" by (simp add: compact_def expiry.heap_Init_ok)
  show "\<lparr>pe_id = i, pe_at = ee_at e, pe_seq = ee_seq e\<rparr> \<in> set (em_expiry (compact p))" if "em_get (compact p) i = Some e" for i e
    using that em_in_entries [OF assms(1), of i e] unfolding s g by (force simp: expiry_item_def image_iff)
  show "pe_seq item \<le> em_seq (compact p)" if "item \<in> set (em_expiry (compact p))" for item
    using that assms(4) em_in_entries [OF assms(1)] unfolding s by (auto simp: expiry_item_def compact_def)
  show "pe_at item = ee_at e" if "item \<in> set (em_expiry (compact p))" "em_get (compact p) (pe_id item) = Some e" for item e
    using that em_in_entries [OF assms(1)] unfolding s g by (auto simp: expiry_item_def)
  show "1 \<le> em_max (compact p)" "int (length (em_entries (compact p))) \<le> em_max (compact p)"
    "int (length (em_expiry (compact p))) \<le> 2 * em_max (compact p)"
    using assms(2,3) by (simp_all add: compact_def heap_Init_length)
qed

lemma putLocked_eq:
  "putLocked i v now p =
     (let q = em_insert i v now (if em_get p i = None \<and> em_max p \<le> int (length (em_entries p)) then evictOldest p else p)
      in if 2 * em_max q < int (length (em_expiry q)) then compact q else q)"
  by (simp add: putLocked_def em_insert_def Let_def)

lemma em_insert_ok:
  assumes ok: "em_ok p" and room: "em_get p i = None \<Longrightarrow> int (length (em_entries p)) < em_max p"
    and q: "q = em_insert i v now p"
  shows "em_ok (if 2 * em_max q < int (length (em_expiry q)) then compact q else q)"
proof -
  note d = em_okD [OF ok] and it = em_insert_items [OF ok, where i = i and v = v and now = now, folded q]
  have g: "gomap_ok (em_entries q)" using d(1) by (simp add: q em_insert_def gomap_ok_update)
  have l: "int (length (em_entries q)) \<le> em_max q"
    using room d(7) by (auto simp: q em_insert_def length_gomap_update em_get_def)
  have h: "heap_ok pendingExpiry_Less (em_expiry q)" using d(2) by (simp add: q em_insert_def expiry.heap_Push_ok)
  have m: "1 \<le> em_max q" using d(6) by (simp add: q)
  show ?thesis
  proof (cases "2 * em_max q < int (length (em_expiry q))")
    case True
    have "ee_seq e \<le> em_seq q" if "em_get q j = Some e" for j e
      using it(2) [OF it(1) [OF that]] by simp
    with True show ?thesis using compact_ok [OF g m l] by simp
  next
    case False
    have "em_ok q"
    proof (rule em_okI)
      show "int (length (em_expiry q)) \<le> 2 * em_max q" using False by simp
    qed (fact g h it(1) it(2) it(3) m l)+
    with False show ?thesis by simp
  qed
qed

lemma make_room:
  assumes ok: "em_ok p"
    and q: "q = (if em_get p i = None \<and> em_max p \<le> int (length (em_entries p)) then evictOldest p else p)"
  shows "em_ok q" and "em_get q i = None \<Longrightarrow> int (length (em_entries q)) < em_max q"
    and "em_ttl q = em_ttl p" and "em_max q = em_max p"
    and "q = p \<or> evicts_oldest p q \<and> int (length (em_entries p)) = em_max p \<and> em_get p i = None"
proof -
  note d = em_okD [OF ok]
  have full: "int (length (em_entries p)) = em_max p \<and> em_entries p \<noteq> []" if "em_max p \<le> int (length (em_entries p))"
    using that d(6,7) by auto
  note ev = evictOldest_spec [OF ok]
  show "em_ok q" "em_ttl q = em_ttl p" "em_max q = em_max p" using ok ev full by (auto simp: q)
  show "q = p \<or> evicts_oldest p q \<and> int (length (em_entries p)) = em_max p \<and> em_get p i = None"
    using ev full by (auto simp: q)
  show "int (length (em_entries q)) < em_max q" if "em_get q i = None"
  proof (cases "em_get p i = None \<and> em_max p \<le> int (length (em_entries p))")
    case True
    then obtain j e where j: "em_get p j = Some e" "em_entries q = AList.delete j (em_entries p)" "em_max q = em_max p"
      using ev full by (auto simp: q evicts_oldest_def)
    then have "length (em_entries q) = length (em_entries p) - 1"
      using length_gomap_delete [OF d(1), of j] by (auto simp: em_get_def)
    moreover have "em_entries p \<noteq> []" using j(1) by (auto simp: em_get_def)
    ultimately show ?thesis using True full j(3) by (cases "em_entries p") auto
  next
    case False
    then show ?thesis using that by (auto simp: q)
  qed
qed

lemma putLocked_spec:
  assumes ok: "em_ok p"
  shows "em_ok (putLocked i v now p)" and "em_ttl (putLocked i v now p) = em_ttl p"
    and "em_max (putLocked i v now p) = em_max p"
    and "\<exists>k. em_get (putLocked i v now p) i = Some \<lparr>ee_value = v, ee_at = now, ee_seq = k\<rparr>"
    and "(\<forall>j. j \<noteq> i \<longrightarrow> em_get (putLocked i v now p) j = em_get p j) \<or>
         em_get p i = None \<and> int (length (em_entries p)) = em_max p \<and>
         (\<exists>k e. em_get p k = Some e \<and> (\<forall>j f. em_get p j = Some f \<longrightarrow> ee_at e \<le> ee_at f) \<and>
            (\<forall>j. j \<noteq> i \<longrightarrow> em_get (putLocked i v now p) j = (if j = k then None else em_get p j)))"
proof -
  define q where "q = (if em_get p i = None \<and> em_max p \<le> int (length (em_entries p)) then evictOldest p else p)"
  note r = make_room [OF ok q_def]
  define w where "w = em_insert i v now q"
  have e: "putLocked i v now p = (if 2 * em_max w < int (length (em_expiry w)) then compact w else w)"
    by (simp add: putLocked_eq Let_def q_def w_def)
  have g: "em_get (putLocked i v now p) j = em_get w j" for j by (simp add: e compact_def)
  show "em_ok (putLocked i v now p)" unfolding e by (rule em_insert_ok [OF r(1,2) w_def])
  show "em_ttl (putLocked i v now p) = em_ttl p" "em_max (putLocked i v now p) = em_max p"
    using r(3,4) by (simp_all add: e w_def compact_def)
  show "\<exists>k. em_get (putLocked i v now p) i = Some \<lparr>ee_value = v, ee_at = now, ee_seq = k\<rparr>"
    unfolding g by (simp add: w_def em_get_insert)
  show "(\<forall>j. j \<noteq> i \<longrightarrow> em_get (putLocked i v now p) j = em_get p j) \<or>
         em_get p i = None \<and> int (length (em_entries p)) = em_max p \<and>
         (\<exists>k e. em_get p k = Some e \<and> (\<forall>j f. em_get p j = Some f \<longrightarrow> ee_at e \<le> ee_at f) \<and>
            (\<forall>j. j \<noteq> i \<longrightarrow> em_get (putLocked i v now p) j = (if j = k then None else em_get p j)))"
    using r(5) unfolding g evicts_oldest_def by (auto simp: w_def em_get_insert)
qed

section \<open>The operations against the abstract view\<close>

lemma live_prune: "em_ok p \<Longrightarrow> live (em_prune now p) t i = (if live p now i = None then None else live p t i)"
  using em_prune_spec [of p now] by (auto simp: live_def split: option.splits)

lemma get_prune: "em_ok p \<Longrightarrow> em_get (em_prune now p) i = None \<longleftrightarrow> live p now i = None"
  using em_prune_spec [of p now] by (auto simp: live_def split: option.splits)

lemma get_prune_value:
  "em_ok p \<Longrightarrow> live p now i = map_option ee_value (em_get (em_prune now p) i)"
  using em_prune_spec [of p now] by (auto simp: live_def split: option.splits)

lemma em_Put_ok [inv_intros]: "em_ok p \<Longrightarrow> em_ok (em_Put i v now p)"
  by (simp add: em_Put_def putLocked_spec em_prune_spec)

lemma live_putLocked:
  assumes "em_ok p"
  shows "live (putLocked i v now p) t i = (if t < now + em_ttl p then Some v else None)"
  using putLocked_spec(2,4) [OF assms, of i v now] by (auto simp: live_def)

lemma live_Put:
  assumes "em_ok p"
  shows "live (em_Put i v now p) t i = (if t < now + em_ttl p then Some v else None)"
  using live_putLocked [of "em_prune now p"] em_prune_spec [OF assms, of now] by (simp add: em_Put_def)

lemma TakeIf_ok [inv_intros]: "em_ok p \<Longrightarrow> em_ok (snd (TakeIf i now acc p))"
  by (auto simp: TakeIf_def Let_def em_prune_spec em_delete_ok split: option.splits)

lemma TakeIf_result:
  "em_ok p \<Longrightarrow> fst (TakeIf i now acc p) =
     (case live p now i of None \<Rightarrow> None | Some v \<Rightarrow> if acc v then Some v else None)"
  by (auto simp: TakeIf_def Let_def get_prune_value split: option.splits)

lemma TakeIf_gone: "fst (TakeIf i now acc p) \<noteq> None \<Longrightarrow> live (snd (TakeIf i now acc p)) t i = None"
  by (auto simp: TakeIf_def Let_def live_def split: option.splits if_splits)

lemma em_Take_ok [inv_intros]: "em_ok p \<Longrightarrow> em_ok (snd (em_Take i now p))"
  by (auto simp: em_Take_def Let_def em_prune_spec em_delete_ok split: option.splits)

lemma Allow_ok [inv_intros]: "em_ok p \<Longrightarrow> em_ok (snd (Allow z i now p))"
  by (auto simp: Allow_def Let_def em_prune_spec putLocked_spec)

lemma Drain_fold_ok:
  "em_ok (snd acc) \<Longrightarrow> em_ok (snd (foldl (\<lambda>(out, p) (i, e).
      if \<not> accept i (ee_value e) then (out, p) else (out @ [i], em_delete i p)) acc es))"
proof (induction es arbitrary: acc)
  case (Cons e es)
  obtain out q where acc: "acc = (out, q)" by fastforce
  show ?case using Cons by (cases e) (simp add: acc em_delete_ok)
qed simp

lemma Drain_ok [inv_intros]: "em_ok p \<Longrightarrow> em_ok (snd (Drain now accept p))"
  unfolding Drain_def Let_def by (rule Drain_fold_ok) (simp add: em_prune_spec)

lemma newExpiringMap_ok: "1 \<le> mx \<Longrightarrow> em_ok (newExpiringMap ttl mx)"
  by (simp add: em_ok_def newExpiringMap_def heap_ok_def)

section \<open>The contract of the store\<close>

text \<open>
  What a client relies on: a value put is there for one ttl, a conditional take returns exactly
  the live value it accepts, and what was taken is gone.
\<close>

locale expiring_store =
  fixes inv :: "'s \<Rightarrow> bool" and view :: "'s \<Rightarrow> gotime \<Rightarrow> node_id \<Rightarrow> 'v option" and ttl :: "'s \<Rightarrow> duration"
    and put_value :: "node_id \<Rightarrow> 'v \<Rightarrow> gotime \<Rightarrow> 's \<Rightarrow> 's"
    and take_value :: "node_id \<Rightarrow> gotime \<Rightarrow> ('v \<Rightarrow> bool) \<Rightarrow> 's \<Rightarrow> 'v option \<times> 's"
  assumes inv_put: "inv s \<Longrightarrow> inv (put_value i v now s)"
    and inv_take: "inv s \<Longrightarrow> inv (snd (take_value i now acc s))"
    and view_put: "inv s \<Longrightarrow> view (put_value i v now s) t i = (if t < now + ttl s then Some v else None)"
    and take_view: "inv s \<Longrightarrow> fst (take_value i now acc s) =
           (case view s now i of None \<Rightarrow> None | Some v \<Rightarrow> if acc v then Some v else None)"
    and take_gone: "fst (take_value i now acc s) \<noteq> None \<Longrightarrow> view (snd (take_value i now acc s)) t i = None"
begin

lemma put_then_take:
  "inv s \<Longrightarrow> fst (take_value i t acc (put_value i v now s)) = (if t < now + ttl s \<and> acc v then Some v else None)"
  by (simp add: take_view inv_put view_put)

lemma taken_once:
  assumes "inv s" and "fst (take_value i t acc s) \<noteq> None"
  shows "fst (take_value i t' acc' (snd (take_value i t acc s))) = None"
  using assms by (simp add: take_view inv_take take_gone)

end

interpretation store: expiring_store em_ok live em_ttl em_Put TakeIf
  by unfold_locales (auto simp: em_Put_ok TakeIf_ok live_Put TakeIf_result TakeIf_gone)

section \<open>Properties\<close>

inductive em_reach :: "duration \<Rightarrow> int \<Rightarrow> 'v \<Rightarrow> 'v expiringMap \<Rightarrow> bool" for ttl mx z where
  er_new: "em_reach ttl mx z (newExpiringMap ttl mx)"
| er_put: "em_reach ttl mx z p \<Longrightarrow> em_reach ttl mx z (em_Put i v now p)"
| er_allow: "em_reach ttl mx z p \<Longrightarrow> em_reach ttl mx z (snd (Allow z i now p))"
| er_take: "em_reach ttl mx z p \<Longrightarrow> em_reach ttl mx z (snd (em_Take i now p))"
| er_takeif: "em_reach ttl mx z p \<Longrightarrow> em_reach ttl mx z (snd (TakeIf i now acc p))"
| er_drain: "em_reach ttl mx z p \<Longrightarrow> em_reach ttl mx z (snd (Drain now accept p))"

lemma em_reach_ok: "em_reach ttl mx z p \<Longrightarrow> 1 \<le> mx \<Longrightarrow> em_ok p"
  by (induction rule: em_reach.induct) (auto intro: inv_intros newExpiringMap_ok)

lemma prune_frame: "em_max (em_prune now p) = em_max p \<and> em_ttl (em_prune now p) = em_ttl p" if "em_ok p"
  using em_prune_spec [OF that] by simp

lemma Drain_fold_frame:
  "em_max (snd (foldl (\<lambda>(out, p) (i, e). if \<not> accept i (ee_value e) then (out, p) else (out @ [i], em_delete i p)) acc es))
     = em_max (snd acc)"
proof (induction es arbitrary: acc)
  case (Cons e es)
  show ?case using Cons.IH by (cases acc; cases e) simp
qed simp

lemma em_reach_max: "em_reach ttl mx z p \<Longrightarrow> 1 \<le> mx \<Longrightarrow> em_max p = mx"
proof (induction rule: em_reach.induct)
  case (er_drain p now accept)
  have "em_ok p" using em_reach_ok [OF er_drain.hyps(1) er_drain.prems] .
  then show ?case using er_drain.IH er_drain.prems prune_frame [of p now] by (simp add: Drain_def Let_def Drain_fold_frame)
next
  case (er_allow p i now)
  have "em_ok p" using em_reach_ok [OF er_allow.hyps(1) er_allow.prems] .
  then show ?case using er_allow.IH er_allow.prems prune_frame [of p now] putLocked_spec(3) [of "em_prune now p"] em_prune_spec [of p now]
    by (simp add: Allow_def Let_def)
next
  case (er_put p i v now)
  have "em_ok p" using em_reach_ok [OF er_put.hyps(1) er_put.prems] .
  then show ?case using er_put.IH er_put.prems prune_frame [of p now] putLocked_spec(3) [of "em_prune now p"] em_prune_spec [of p now]
    by (simp add: em_Put_def)
qed (auto simp: newExpiringMap_def em_Take_def TakeIf_def Let_def prune_frame em_reach_ok split: option.splits)

text \<open>
  C21: an expiring map with a positive limit never holds more entries than the limit, whatever
  sequence of operations it went through, and its expiry heap, which outlives removed entries,
  never grows beyond twice the limit and keeps the heap order.
\<close>

theorem expiring_map_bounded:
  assumes "em_reach ttl mx z p" and "1 \<le> mx"
  shows "int (length (em_entries p)) \<le> mx \<and> int (length (em_expiry p)) \<le> 2 * mx \<and>
         distinct (map fst (em_entries p)) \<and> heap_ok pendingExpiry_Less (em_expiry p)"
  using em_okD(1,2,7,8) [OF em_reach_ok [OF assms]] em_reach_max [OF assms] by (simp add: gomap_ok_def)

theorem expiring_map_bounded_witness:
  "int (length (em_entries (em_Put [1] () 30 (em_Put [2] () 20 (newExpiringMap 100 1))))) \<le> 1"
  by (rule expiring_map_bounded [of 100 _ "()", THEN conjunct1]) (auto intro: em_reach.intros)

text \<open>
  \<^verbatim>\<open>Allow\<close> grants a node at most once per window. It grants exactly when the node has no
  live reservation; a grant denies every further request before the window of one ttl has
  passed, and grants again from its end on.
\<close>

theorem allow_once_per_window:
  assumes "em_ok p" and "Allow z i now p = (granted, q)"
  shows "(granted \<longleftrightarrow> live p now i = None) \<and>
         (granted \<longrightarrow> (\<forall>t. fst (Allow z i t q) \<longleftrightarrow> now + em_ttl p \<le> t))"
proof -
  have g: "fst (Allow z i t p) \<longleftrightarrow> live p t i = None" if "em_ok p" for t and p :: "'a expiringMap"
    using get_prune [OF that, of t i] by (auto simp: Allow_def Let_def)
  have q: "em_ok q" using Allow_ok [OF assms(1), of z i now] assms(2) by simp
  have "granted \<longleftrightarrow> live p now i = None" using g [OF assms(1), of now] assms(2) by simp
  moreover have "live q t i = None \<longleftrightarrow> now + em_ttl p \<le> t" if "granted" for t
  proof -
    have "q = putLocked i z now (em_prune now p)" using assms(2) that by (auto simp: Allow_def Let_def split: if_splits)
    then show ?thesis
      using live_putLocked [of "em_prune now p" i z now t] em_prune_spec [OF assms(1), of now] by auto
  qed
  ultimately show ?thesis using g [OF q] by simp
qed

theorem allow_once_per_window_witness:
  "\<not> fst (Allow () [7] 500 (snd (Allow () [7] 20 (newExpiringMap 1000 4)))) \<and>
   fst (Allow () [7] 2000 (snd (Allow () [7] 20 (newExpiringMap 1000 4))))"
proof -
  have ok: "em_ok (newExpiringMap 1000 4 :: unit expiringMap)" by (simp add: newExpiringMap_ok)
  have "fst (Allow () [7] 20 (newExpiringMap 1000 4))" by code_simp
  with allow_once_per_window [OF ok surjective_pairing, of "()" "[7]" 20] show ?thesis
    by (simp add: newExpiringMap_def)
qed

text \<open>
  A passive identification is delivered at most once, within its window and to its own
  layer only: after it is put, a take for the same layer before the ttl has passed returns it
  and a second take returns nothing; a take for another layer returns nothing.
\<close>

theorem pending_delivered_once:
  assumes "em_ok p" and "i \<noteq> replicate 32 0" and "t < now + em_ttl p"
  shows "fst (pending_Take i layer t (pending_Put i layer v now p)) = Some v \<and>
         fst (pending_Take i layer t' (snd (pending_Take i layer t (pending_Put i layer v now p)))) = None \<and>
         (other \<noteq> layer \<longrightarrow> fst (pending_Take i other t (pending_Put i layer v now p)) = None)"
proof -
  let ?p = "em_Put i \<lparr>pf_layer = layer, pf_value = v\<rparr> now p"
  have put: "pending_Put i layer v now p = ?p" using assms(2) by (simp add: pending_Put_def)
  have tk: "fst (pending_Take j l u s) = map_option pf_value (fst (TakeIf j u (\<lambda>e. pf_layer e = l) s))"
    "snd (pending_Take j l u s) = snd (TakeIf j u (\<lambda>e. pf_layer e = l) s)" for j l u s
    by (simp_all add: pending_Take_def split_beta)
  have r: "fst (TakeIf i t (\<lambda>e. pf_layer e = layer) ?p) = Some \<lparr>pf_layer = layer, pf_value = v\<rparr>"
    using store.put_then_take [OF assms(1)] assms(3) by simp
  then have "fst (TakeIf i t' (\<lambda>e. pf_layer e = layer) (snd (TakeIf i t (\<lambda>e. pf_layer e = layer) ?p))) = None"
    by (intro store.taken_once em_Put_ok assms(1)) simp
  with r show ?thesis
    unfolding put tk by (simp add: store.put_then_take [OF assms(1)])
qed

theorem pending_delivered_once_witness:
  "fst (pending_Take [9] ''el'' 50 (pending_Put [9] ''el'' \<lparr>fp_Client = ''Geth'', fp_Version = [], fp_OS = [], fp_Lang = [],
      fp_Caps = []\<rparr> 20 (newExpiringMap 1000 4)))
   = Some \<lparr>fp_Client = ''Geth'', fp_Version = [], fp_OS = [], fp_Lang = [], fp_Caps = []\<rparr>"
proof -
  have ok: "em_ok (newExpiringMap 1000 4 :: pendingFingerprint expiringMap)" by (simp add: newExpiringMap_ok)
  have i: "([9] :: byte list) \<noteq> replicate 32 0" by (simp add: numeral_eq_Suc)
  have t: "50 < 20 + em_ttl (newExpiringMap 1000 4 :: pendingFingerprint expiringMap)" by (simp add: newExpiringMap_def)
  show ?thesis by (rule pending_delivered_once [OF ok i t, THEN conjunct1])
qed

end
