(* ===== verification/Hashes.thy ===== *)
theory Hashes
  imports Prelude
begin

text \<open>
  The hash functions of the Go standard library that the fork identifiers are built from:
  \<^verbatim>\<open>hash/crc32\<close> with the IEEE polynomial and \<^verbatim>\<open>crypto/sha256\<close>. Both are executable. The theorems
  of the development need only that they are functions and the length of the results; the
  definitions are here so that no theorem rests on an assumption about them.
\<close>

section \<open>CRC-32 (package hash/crc32, IEEE polynomial, reflected)\<close>

fun crc_bits :: "nat \<Rightarrow> u32 \<Rightarrow> u32" where
  "crc_bits 0 c = c"
| "crc_bits (Suc k) c =
     crc_bits k (if bit c 0 then drop_bit 1 c XOR 0xEDB88320 else drop_bit 1 c)"

definition crc_byte :: "u32 \<Rightarrow> byte \<Rightarrow> u32" where
  "crc_byte c b = crc_bits 8 (c XOR ucast b)"

definition crc32_Update :: "u32 \<Rightarrow> byte list \<Rightarrow> u32" where
  "crc32_Update c bs = NOT (foldl crc_byte (NOT c) bs)"

definition crc32_ChecksumIEEE :: "byte list \<Rightarrow> u32" where
  "crc32_ChecksumIEEE bs = crc32_Update 0 bs"

section \<open>SHA-256 (package crypto/sha256)\<close>

definition sha_k :: "u32 list" where
  "sha_k =
    [1116352408, 1899447441, 3049323471, 3921009573, 961987163, 1508970993, 2453635748, 2870763221,
     3624381080, 310598401, 607225278, 1426881987, 1925078388, 2162078206, 2614888103, 3248222580,
     3835390401, 4022224774, 264347078, 604807628, 770255983, 1249150122, 1555081692, 1996064986,
     2554220882, 2821834349, 2952996808, 3210313671, 3336571891, 3584528711, 113926993, 338241895,
     666307205, 773529912, 1294757372, 1396182291, 1695183700, 1986661051, 2177026350, 2456956037,
     2730485921, 2820302411, 3259730800, 3345764771, 3516065817, 3600352804, 4094571909, 275423344,
     430227734, 506948616, 659060556, 883997877, 958139571, 1322822218, 1537002063, 1747873779,
     1955562222, 2024104815, 2227730452, 2361852424, 2428436474, 2756734187, 3204031479, 3329325298]"

definition sha_init :: "u32 list" where
  "sha_init = [1779033703, 3144134277, 1013904242, 2773480762,
               1359893119, 2600822924, 528734635, 1541459225]"

definition sha_pad :: "byte list \<Rightarrow> byte list" where
  "sha_pad m = m @ 0x80 # replicate ((119 - length m mod 64) mod 64) 0 @
     BigEndian_PutUint64 (of_nat (8 * length m))"

fun be_words :: "byte list \<Rightarrow> u32 list" where
  "be_words (a # b # c # d # r) = of_nat (le_value [d, c, b, a]) # be_words r"
| "be_words _ = []"

definition rotr :: "nat \<Rightarrow> u32 \<Rightarrow> u32" where
  "rotr n x = word_rotr n x"

definition sha_s0 :: "u32 \<Rightarrow> u32" where
  "sha_s0 x = rotr 7 x XOR rotr 18 x XOR drop_bit 3 x"

definition sha_s1 :: "u32 \<Rightarrow> u32" where
  "sha_s1 x = rotr 17 x XOR rotr 19 x XOR drop_bit 10 x"

text \<open>The message schedule: each further word depends on four of the last sixteen.\<close>

fun sha_extend :: "nat \<Rightarrow> u32 list \<Rightarrow> u32 list" where
  "sha_extend 0 w = w"
| "sha_extend (Suc k) w =
     (let t = length w in
      sha_extend k (w @ [sha_s1 (w ! (t - 2)) + w ! (t - 7) + sha_s0 (w ! (t - 15)) + w ! (t - 16)]))"

fun sha_round :: "u32 list \<Rightarrow> u32 \<times> u32 \<Rightarrow> u32 list" where
  "sha_round [a, b, c, d, e, f, g, h] (k, w) =
     (let t1 = h + (rotr 6 e XOR rotr 11 e XOR rotr 25 e) + ((e AND f) XOR (NOT e AND g)) + k + w;
          t2 = (rotr 2 a XOR rotr 13 a XOR rotr 22 a) + ((a AND b) XOR (a AND c) XOR (b AND c))
      in [t1 + t2, a, b, c, d + t1, e, f, g])"
| "sha_round s _ = s"

definition sha_block :: "u32 list \<Rightarrow> byte list \<Rightarrow> u32 list" where
  "sha_block s blk =
     map2 (+) s (foldl sha_round s (zip sha_k (sha_extend 48 (be_words blk))))"

fun sha_blocks :: "nat \<Rightarrow> u32 list \<Rightarrow> byte list \<Rightarrow> u32 list" where
  "sha_blocks 0 s m = s"
| "sha_blocks (Suc n) s m = sha_blocks n (sha_block s (take 64 m)) (drop 64 m)"

definition sha256_Sum256 :: "byte list \<Rightarrow> byte list" where
  "sha256_Sum256 m =
     (let p = sha_pad m in concat (map BigEndian_PutUint32 (sha_blocks (length p div 64) sha_init p)))"

section \<open>Lengths\<close>

lemma length_PutUint32 [simp]: "length (BigEndian_PutUint32 v) = 4"
  by (simp add: BigEndian_PutUint32_def)

lemma length_sha_round [simp]: "length (sha_round s kw) = length s"
  by (cases "(s, kw)" rule: sha_round.cases) (auto simp: Let_def)

lemma length_sha_rounds [simp]: "length (foldl sha_round s kws) = length s"
  by (induction kws arbitrary: s) auto

lemma length_sha_blocks [simp]: "length (sha_blocks n s m) = length s"
  by (induction n arbitrary: s m) (auto simp: sha_block_def)

lemma length_sha256 [simp]: "length (sha256_Sum256 m) = 32"
proof -
  have "length (concat (map BigEndian_PutUint32 xs)) = 4 * length xs" for xs
    by (induction xs) auto
  then show ?thesis by (simp add: sha256_Sum256_def Let_def sha_init_def)
qed

lemma crc32_Update_Nil [simp]: "crc32_Update c [] = c"
  by (simp add: crc32_Update_def)

text \<open>Checksums compose: hashing in pieces is hashing the concatenation.\<close>

lemma crc32_Update_append: "crc32_Update (crc32_Update c xs) ys = crc32_Update c (xs @ ys)"
  by (simp add: crc32_Update_def)

end
