(* ===== verification/ConsensusFork.thy ===== *)
theory ConsensusFork
  imports Hashes NodeModel
begin

text \<open>
  The consensus-layer fork schedule, \<^verbatim>\<open>internal/netconf/consensus.go\<close>: the record \<open>clNetwork\<close>,
  its clock (epochs and wall-clock instants), the fork active at an epoch, the fork digests with
  the blob-parameter mask of EIP-7892, the networking state advertised at an instant with its
  cache, and the compiled networks. Fork versions and digests are lists of four bytes.

  The Go zero instant for an overflowing epoch is modelled with the wrap-around of package
  \<^verbatim>\<open>time\<close>: \<^verbatim>\<open>time.Unix(sec, 0)\<close> stores the 64-bit sum of \<^verbatim>\<open>sec\<close> and the seconds from year 1 to
  1970, and \<^verbatim>\<open>Unix()\<close> subtracts them again.
\<close>

section \<open>Instants from 64-bit seconds\<close>

definition int64 :: "int \<Rightarrow> int" where
  "int64 v = (v + 9223372036854775808) mod 18446744073709551616 - 9223372036854775808"

definition unixToInternal :: int where
  "unixToInternal = 62135596800"

definition unix64 :: "int \<Rightarrow> gotime" where
  "unix64 v = unix_time (int64 (v + unixToInternal) - unixToInternal)"

definition Unix64 :: "gotime \<Rightarrow> int" where
  "Unix64 t = int64 (time_Unix t)"

abbreviation max_uint64 :: u64 where
  "max_uint64 \<equiv> - 1"

section \<open>Data\<close>

datatype neterror =
    NoConsensusSchedule string
  | NoBlobParameters string u64
  | UnknownConsensusNetwork string
  | UnknownNetwork string
  | DuplicateNetwork string
  | NoNetworkListed
  | InvalidForkVersion string
  | CancelError string

type_synonym 'a result = "neterror + 'a"

fun bind_err :: "'e + 'a \<Rightarrow> ('a \<Rightarrow> 'e + 'b) \<Rightarrow> 'e + 'b" where
  "bind_err (Inl e) f = Inl e"
| "bind_err (Inr x) f = f x"

record blobParams =
  bp_epoch :: u64
  maxBlobs :: u64

record clFork =
  cf_name :: string
  cf_epoch :: u64
  cf_version :: "byte list"

record CLForkState =
  cs_Digest :: "byte list"
  cs_CurrentVersion :: "byte list"
  cs_NextForkVersion :: "byte list"
  cs_NextForkEpoch :: u64
  cs_NextDigest :: "byte list"
  cs_NextTransition :: gotime

text \<open>
  \<open>cl_digests\<close> is the digest set computed once, \<open>cl_state\<close> the cached state with its epoch;
  \<open>cancelledBPOs\<close> lists the keys of the Go map, whose values are all \<^verbatim>\<open>true\<close>.
\<close>

record clNetwork =
  cl_name :: string
  gvr :: "byte list"
  genesisTime :: u64
  secondsPerSlot :: u64
  slotsPerEpoch :: u64
  cl_forks :: "clFork list"
  fuluEpoch :: u64
  blobSchedule :: "blobParams list"
  cancelledBPOs :: "u64 list"
  cl_digests :: "byte list list option"
  cl_state :: "(u64 \<times> CLForkState) option"

section \<open>The clock\<close>

definition epochDuration :: "clNetwork \<Rightarrow> u64 option" where
  "epochDuration c =
     (if secondsPerSlot c = 0 \<or> max_uint64 div secondsPerSlot c < slotsPerEpoch c then None
      else Some (secondsPerSlot c * slotsPerEpoch c))"

text \<open>Division by a zero \<^verbatim>\<open>slotsPerEpoch\<close> would panic; no constructor of a network allows it.\<close>

definition epochAt :: "clNetwork \<Rightarrow> gotime \<Rightarrow> u64" where
  "epochAt c at =
     (let unix = Unix64 at in
      if unix \<le> 0 \<or> word_of_int unix \<le> genesisTime c then 0
      else case epochDuration c of
             None \<Rightarrow> 0
           | Some d \<Rightarrow> (word_of_int unix - genesisTime c) div d)"

definition timeAtEpoch :: "clNetwork \<Rightarrow> u64 \<Rightarrow> gotime" where
  "timeAtEpoch c epoch =
     (let maxUnix = 0x7FFFFFFFFFFFFFFF in
      case epochDuration c of
        None \<Rightarrow> unix64 max_int64
      | Some d \<Rightarrow>
          if maxUnix < genesisTime c \<or> (maxUnix - genesisTime c) div d < epoch then unix64 max_int64
          else unix64 (sint (genesisTime c + epoch * d)))"

section \<open>Forks and blob parameters\<close>

definition forkDataRoot :: "byte list \<Rightarrow> byte list \<Rightarrow> byte list" where
  "forkDataRoot version root = sha256_Sum256 (take 32 (version @ replicate 32 0) @ root)"

definition decodeVersion :: "string \<Rightarrow> byte list result" where
  "decodeVersion raw =
     (case hex_DecodeString (strings_TrimPrefix (strings_TrimSpace raw) ''0x'') of
        None \<Rightarrow> Inl (InvalidForkVersion raw)
      | Some b \<Rightarrow> if length b \<noteq> 4 then Inl (InvalidForkVersion raw) else Inr b)"

fun forkAt_loop :: "clFork \<Rightarrow> clFork list \<Rightarrow> u64 \<Rightarrow> clFork" where
  "forkAt_loop active [] epoch = active"
| "forkAt_loop active (f # fs) epoch =
     (if epoch < cf_epoch f then active else forkAt_loop f fs epoch)"

definition forkAt :: "clNetwork \<Rightarrow> u64 \<Rightarrow> clFork result" where
  "forkAt c epoch =
     (case cl_forks c of
        [] \<Rightarrow> Inl (NoConsensusSchedule (cl_name c))
      | f # fs \<Rightarrow> Inr (forkAt_loop f fs epoch))"

fun blobAt_loop :: "u64 list \<Rightarrow> blobParams option \<Rightarrow> blobParams list \<Rightarrow> u64 \<Rightarrow> blobParams option" where
  "blobAt_loop cancelled active [] epoch = active"
| "blobAt_loop cancelled active (bp # bps) epoch =
     (if bp_epoch bp \<in> set cancelled then blobAt_loop cancelled active bps epoch
      else if epoch < bp_epoch bp then active
      else blobAt_loop cancelled (Some bp) bps epoch)"

definition blobAt :: "clNetwork \<Rightarrow> u64 \<Rightarrow> blobParams result" where
  "blobAt c epoch =
     (case blobAt_loop (cancelledBPOs c) None (blobSchedule c) epoch of
        None \<Rightarrow> Inl (NoBlobParameters (cl_name c) epoch)
      | Some bp \<Rightarrow> Inr bp)"

fun bpo_loop :: "clNetwork \<Rightarrow> nat \<Rightarrow> blobParams list \<Rightarrow> clFork list result" where
  "bpo_loop c n [] = Inr []"
| "bpo_loop c n (bp # bps) =
     (if bp_epoch bp < fuluEpoch c \<or> bp_epoch bp \<in> set (map cf_epoch (cl_forks c)) then bpo_loop c n bps
      else bind_err (forkAt c (bp_epoch bp)) (\<lambda>fork.
           if bp_epoch bp \<in> set (cancelledBPOs c) then bpo_loop c (Suc n) bps
           else bind_err (bpo_loop c (Suc n) bps) (\<lambda>out.
                Inr (\<lparr>cf_name = ''BPO'' @ nat_dec (Suc n), cf_epoch = bp_epoch bp,
                      cf_version = cf_version fork\<rparr> # out))))"

definition transitions :: "clNetwork \<Rightarrow> clFork list result" where
  "transitions c =
     bind_err (bpo_loop c 0 (blobSchedule c)) (\<lambda>bpos. Inr (sort_key cf_epoch (cl_forks c @ bpos)))"

section \<open>Digests\<close>

definition rawDigest :: "clNetwork \<Rightarrow> byte list \<Rightarrow> byte list" where
  "rawDigest c version = take 4 (forkDataRoot version (gvr c))"

definition blobMask :: "blobParams \<Rightarrow> byte list" where
  "blobMask bp =
     sha256_Sum256 (LittleEndian_PutUint64 (bp_epoch bp) @ LittleEndian_PutUint64 (maxBlobs bp))"

definition digestAt :: "clNetwork \<Rightarrow> u64 \<Rightarrow> (byte list \<times> byte list) result" where
  "digestAt c epoch =
     bind_err (forkAt c epoch) (\<lambda>fork.
       let version = cf_version fork; digest = rawDigest c version in
       if fuluEpoch c \<noteq> max_uint64 \<and> fuluEpoch c \<le> epoch
       then bind_err (blobAt c epoch) (\<lambda>bp.
              Inr (map2 (XOR) digest (take 4 (blobMask bp)), version))
       else Inr (digest, version))"

section \<open>The networking state\<close>

definition nextFork :: "clNetwork \<Rightarrow> u64 \<Rightarrow> clFork option" where
  "nextFork c epoch = find (\<lambda>f. epoch < cf_epoch f) (cl_forks c)"

definition nextBlob :: "clNetwork \<Rightarrow> u64 \<Rightarrow> u64 \<Rightarrow> blobParams option" where
  "nextBlob c epoch nextEpoch =
     find (\<lambda>bp. epoch < bp_epoch bp \<and> bp_epoch bp < nextEpoch \<and> bp_epoch bp \<notin> set (cancelledBPOs c))
       (blobSchedule c)"

definition computeStateAt :: "clNetwork \<Rightarrow> u64 \<Rightarrow> CLForkState result" where
  "computeStateAt c epoch =
     bind_err (digestAt c epoch) (\<lambda>(digest, version).
       let s0 = \<lparr>cs_Digest = digest, cs_CurrentVersion = version, cs_NextForkVersion = version,
                 cs_NextForkEpoch = max_uint64, cs_NextDigest = replicate 4 0,
                 cs_NextTransition = time_zero\<rparr>;
           (s1, next1) =
             (case nextFork c epoch of
                None \<Rightarrow> (s0, max_uint64)
              | Some f \<Rightarrow> (s0\<lparr>cs_NextForkEpoch := cf_epoch f, cs_NextForkVersion := cf_version f\<rparr>, cf_epoch f));
           (s2, next2) =
             (case nextBlob c epoch next1 of
                None \<Rightarrow> (s1, next1)
              | Some bp \<Rightarrow> (s1\<lparr>cs_NextForkEpoch := bp_epoch bp, cs_NextForkVersion := version\<rparr>, bp_epoch bp))
       in if next2 \<noteq> max_uint64
          then bind_err (digestAt c next2) (\<lambda>(d, _).
                 Inr (s2\<lparr>cs_NextDigest := d, cs_NextTransition := timeAtEpoch c next2\<rparr>))
          else Inr s2)"

definition stateAt :: "clNetwork \<Rightarrow> gotime \<Rightarrow> CLForkState result \<times> clNetwork" where
  "stateAt c at =
     (let epoch = epochAt c at in
      case cl_state c of
        Some (e, s) \<Rightarrow> if e = epoch then (Inr s, c)
          else (case computeStateAt c epoch of Inl err \<Rightarrow> (Inl err, c)
                | Inr s' \<Rightarrow> (Inr s', c\<lparr>cl_state := Some (epoch, s')\<rparr>))
      | None \<Rightarrow> (case computeStateAt c epoch of Inl err \<Rightarrow> (Inl err, c)
                | Inr s' \<Rightarrow> (Inr s', c\<lparr>cl_state := Some (epoch, s')\<rparr>)))"

section \<open>The digest set\<close>

definition fork_digest :: "clNetwork \<Rightarrow> clFork \<Rightarrow> byte list option" where
  "fork_digest c f =
     (if fuluEpoch c = max_uint64 \<or> cf_epoch f < fuluEpoch c then Some (rawDigest c (cf_version f))
      else case digestAt c (cf_epoch f) of Inl _ \<Rightarrow> None | Inr (d, _) \<Rightarrow> Some d)"

definition blob_digest :: "clNetwork \<Rightarrow> blobParams \<Rightarrow> byte list option" where
  "blob_digest c bp =
     (if bp_epoch bp < fuluEpoch c \<or> bp_epoch bp \<in> set (cancelledBPOs c) then None
      else case digestAt c (bp_epoch bp) of Inl _ \<Rightarrow> None | Inr (d, _) \<Rightarrow> Some d)"

text \<open>The set is a list of its keys; \<^verbatim>\<open>sync.Once\<close> runs the body on the first call only.\<close>

definition compute :: "clNetwork \<Rightarrow> clNetwork" where
  "compute c =
     (case cl_digests c of
        Some _ \<Rightarrow> c
      | None \<Rightarrow> c\<lparr>cl_digests := Some (List.map_filter (fork_digest c) (cl_forks c) @
                                     List.map_filter (blob_digest c) (blobSchedule c))\<rparr>)"

definition has_digest :: "clNetwork \<Rightarrow> byte list \<Rightarrow> bool" where
  "has_digest c d = (case cl_digests (compute c) of None \<Rightarrow> False | Some ds \<Rightarrow> d \<in> set ds)"

section \<open>The compiled networks\<close>

type_synonym namedFork = "string \<times> u64 \<times> string"

definition electraMaxBlobs :: u64 where
  "electraMaxBlobs = 9"

definition addNamedFork :: "clNetwork \<Rightarrow> namedFork \<Rightarrow> clNetwork option" where
  "addNamedFork c f =
     (case f of (name, epoch, ver) \<Rightarrow>
        case decodeVersion ver of
          Inl _ \<Rightarrow> None
        | Inr version \<Rightarrow>
            let c = c\<lparr>cl_forks := cl_forks c @ [\<lparr>cf_name = name, cf_epoch = epoch, cf_version = version\<rparr>]\<rparr>
            in Some (if name = ''electra''
                     then c\<lparr>blobSchedule := blobSchedule c @ [\<lparr>bp_epoch = epoch, maxBlobs = electraMaxBlobs\<rparr>]\<rparr>
                     else if name = ''fulu'' then c\<lparr>fuluEpoch := epoch\<rparr>
                     else c))"

fun addNamedForks :: "clNetwork \<Rightarrow> namedFork list \<Rightarrow> clNetwork option" where
  "addNamedForks c [] = Some c"
| "addNamedForks c (f # fs) = (case addNamedFork c f of None \<Rightarrow> None | Some c' \<Rightarrow> addNamedForks c' fs)"

text \<open>\<open>None\<close> is the panic of a malformed table.\<close>

definition compiledCL ::
  "string \<Rightarrow> string \<Rightarrow> u64 \<Rightarrow> namedFork list \<Rightarrow> blobParams list \<Rightarrow> clNetwork option" where
  "compiledCL name root genesis named bpos =
     (case hex_DecodeString root of
        None \<Rightarrow> None
      | Some r \<Rightarrow>
          if length r \<noteq> 32 then None
          else map_option (\<lambda>c. c\<lparr>blobSchedule := blobSchedule c @ bpos\<rparr>)
            (addNamedForks
              \<lparr>cl_name = name, gvr = r, genesisTime = genesis, secondsPerSlot = 12, slotsPerEpoch = 32,
               cl_forks = [], fuluEpoch = max_uint64, blobSchedule = [], cancelledBPOs = [],
               cl_digests = None, cl_state = None\<rparr> named))"

abbreviation BPO :: "u64 \<Rightarrow> u64 \<Rightarrow> blobParams" where
  "BPO e n \<equiv> \<lparr>bp_epoch = e, maxBlobs = n\<rparr>"

definition mainnetCL :: "clNetwork option" where
  "mainnetCL = compiledCL ''mainnet''
     ''4b363db94e286120d76eb905340fdd4e54bfe9f06bf33ff6cf5ad27f511bfe95'' 1606824023
     [(''phase0'', 0, ''00000000''), (''altair'', 74240, ''01000000''), (''bellatrix'', 144896, ''02000000''),
      (''capella'', 194048, ''03000000''), (''deneb'', 269568, ''04000000''),
      (''electra'', 364032, ''05000000''), (''fulu'', 411392, ''06000000'')]
     [BPO 412672 15, BPO 419072 21]"

definition hoodiCL :: "clNetwork option" where
  "hoodiCL = compiledCL ''hoodi''
     ''212f13fc4df078b6cb7db228f1c8307566dcecf900867401a92023d7ba99cb5f'' 1742213400
     [(''phase0'', 0, ''10000910''), (''altair'', 0, ''20000910''), (''bellatrix'', 0, ''30000910''),
      (''capella'', 0, ''40000910''), (''deneb'', 0, ''50000910''),
      (''electra'', 2048, ''60000910''), (''fulu'', 50688, ''70000910'')]
     [BPO 52480 15, BPO 54016 21]"

definition sepoliaCL :: "clNetwork option" where
  "sepoliaCL = compiledCL ''sepolia''
     ''d8ea171f3c94aea21ebc42a1ed61052acf3f9209c00e4efbaaddac09ed9b8078'' 1655733600
     [(''phase0'', 0, ''90000069''), (''altair'', 50, ''90000070''), (''bellatrix'', 100, ''90000071''),
      (''capella'', 56832, ''90000072''), (''deneb'', 132608, ''90000073''),
      (''electra'', 222464, ''90000074''), (''fulu'', 272640, ''90000075''), (''gloas'', 353024, ''90000076'')]
     [BPO 274176 15, BPO 275712 21]"

section \<open>The ENR entry\<close>

definition ENRForkID :: "CLForkState \<Rightarrow> byte list" where
  "ENRForkID s = cs_Digest s @ cs_NextForkVersion s @ LittleEndian_PutUint64 (cs_NextForkEpoch s)"

end
