(* ===== verification/NetworkForks.thy ===== *)
theory NetworkForks
  imports ConsensusFork "HOL-Library.Product_Lexorder"
begin

text \<open>
  Execution-layer fork identifiers and the network registry: \<^verbatim>\<open>internal/netconf/forkid.go\<close> and
  \<^verbatim>\<open>internal/netconf/netconf.go\<close>, with the parts of \<^verbatim>\<open>cancel.go\<close> that \<^verbatim>\<open>load\<close> runs.

  go-ethereum is outside the repository. Its \<^verbatim>\<open>params.ChainConfig\<close>, which the code reads by
  reflection, is the list of its field names and values in declaration order, and the genesis
  block built by \<^verbatim>\<open>genesisFn\<close> is its hash, timestamp and difficulty. The package variable
  \<^verbatim>\<open>registry\<close> is an argument. \<^verbatim>\<open>load\<close> fills the derived fields once; methods that call it first
  act on the loaded network. Methods that update a cache return the network with its new cache.
\<close>

section \<open>Data\<close>

definition forkHeadBlock :: u64 where
  "forkHeadBlock = 30000000"

definition timestampThreshold :: u64 where
  "timestampThreshold = 1438269973"

record elForkTime =
  ef_name :: string
  ef_time :: u64

datatype cfg_field = CfgTime "u64 option" | CfgBig "int option" | CfgOther

type_synonym chainConfig = "(string \<times> cfg_field) list"

record cancellation =
  ca_fork :: string
  ca_elName :: string
  ca_elTime :: u64
  ca_clName :: string
  ca_clEpoch :: u64
  ca_clVersion :: "byte list"
  ca_clPreDigest :: "byte list"
  ca_clPostDigest :: "byte list"
  ca_clRemovedFork :: "clFork option"
  ca_clRemovedBlobs :: "blobParams list"
  ca_elPreHash :: string
  ca_elPostHash :: string

definition hasEL :: "cancellation \<Rightarrow> bool" where
  "hasEL c \<longleftrightarrow> ca_elTime c \<noteq> 0"

definition hasCL :: "cancellation \<Rightarrow> bool" where
  "hasCL c \<longleftrightarrow> ca_clName c \<noteq> []"

text \<open>
  \<open>nw_hashes\<close> is the classification window with the instant it was gathered at, \<open>nw_fork\<close> the
  cached fork id with its era, \<open>nw_loaded\<close> the state of \<^verbatim>\<open>sync.Once\<close>.
\<close>

record Network =
  nw_Name :: string
  nw_NetworkID :: u64
  nw_ChainConfig :: chainConfig
  nw_genesisHash :: "byte list"
  nw_genesisTime :: u64
  nw_genesisDifficulty :: int
  nw_cl :: "clNetwork option"
  nw_bootnodes :: "string list"
  nw_clBootnodes :: "string list"
  nw_extraELForks :: "elForkTime list"
  nw_cancellations :: "cancellation list"
  nw_originalCL :: "clNetwork option"
  nw_cancelledHashes :: "(u64 \<times> byte list) list"
  nw_cancelledELHex :: "string list"
  nw_cancelledCLHex :: "string list"
  nw_loaded :: bool
  nw_elForks :: "elForkTime list"
  nw_idBlocks :: "u64 list"
  nw_idTimes :: "u64 list"
  nw_hashes :: "(byte list list \<times> gotime) option"
  nw_fork :: "(int \<times> forkid) option"

section \<open>Fork lists\<close>

definition strings_CutSuffix :: "string \<Rightarrow> string \<Rightarrow> string option" where
  "strings_CutSuffix s suf =
     (if is_prefix (rev suf) (rev s) then Some (take (length s - length suf) s) else None)"

definition forkTimes :: "chainConfig \<Rightarrow> elForkTime list" where
  "forkTimes cfg = List.map_filter (\<lambda>(field, v).
     case (strings_CutSuffix field ''Time'', v) of
       (Some name, CfgTime (Some t)) \<Rightarrow> Some \<lparr>ef_name = name, ef_time = t\<rparr>
     | _ \<Rightarrow> None) cfg"

text \<open>\<^verbatim>\<open>big.Int.Uint64\<close> returns the low 64 bits of the magnitude.\<close>

definition forkBlocks :: "chainConfig \<Rightarrow> u64 list" where
  "forkBlocks cfg =
     (let out = remdups_adj (sort (List.map_filter (\<lambda>(field, v).
           case (strings_CutSuffix field ''Block'', v) of
             (Some _, CfgBig (Some b)) \<Rightarrow> Some (word_of_int \<bar>b\<bar>)
           | _ \<Rightarrow> None) cfg))
      in case out of b # bs \<Rightarrow> if b = 0 then bs else out | [] \<Rightarrow> [])"

definition idForkTimes :: "elForkTime list \<Rightarrow> u64 \<Rightarrow> u64 list" where
  "idForkTimes fs genesis = remdups_adj (sort (map ef_time (filter (\<lambda>f. genesis < ef_time f) fs)))"

definition mergeELForks :: "elForkTime list \<Rightarrow> elForkTime list list \<Rightarrow> elForkTime list" where
  "mergeELForks geth extras =
     sort_key ef_time (geth @ sort_key (\<lambda>f. (ef_time f, ef_name f)) (concat extras))"

definition elScheduleOverrides :: "(string, elForkTime list) gomap" where
  "elScheduleOverrides = []"

definition compiledELForks :: "Network \<Rightarrow> elForkTime list" where
  "compiledELForks n = mergeELForks (forkTimes (nw_ChainConfig n))
     [case map_of elScheduleOverrides (nw_Name n) of None \<Rightarrow> [] | Some fs \<Rightarrow> fs, nw_extraELForks n]"

section \<open>Fork identifiers\<close>

fun checksum_forks :: "u64 \<Rightarrow> u32 \<Rightarrow> u64 list \<Rightarrow> u32 \<times> u64 option" where
  "checksum_forks head acc [] = (acc, None)"
| "checksum_forks head acc (fork # fs) =
     (if head < fork then (acc, Some fork)
      else checksum_forks head (crc32_Update acc (BigEndian_PutUint64 fork)) fs)"

definition checksumBytes :: "u32 \<Rightarrow> byte list" where
  "checksumBytes s = BigEndian_PutUint32 s"

definition forkIDFrom :: "Network \<Rightarrow> u64 list \<Rightarrow> u64 \<Rightarrow> forkid" where
  "forkIDFrom n idts at =
     (case checksum_forks forkHeadBlock (crc32_ChecksumIEEE (nw_genesisHash n)) (nw_idBlocks n) of
        (s, Some fork) \<Rightarrow> \<lparr>fid_Hash = checksumBytes s, fid_Next = fork\<rparr>
      | (s, None) \<Rightarrow>
          (case checksum_forks at s idts of
             (s', Some fork) \<Rightarrow> \<lparr>fid_Hash = checksumBytes s', fid_Next = fork\<rparr>
           | (s', None) \<Rightarrow> \<lparr>fid_Hash = checksumBytes s', fid_Next = 0\<rparr>))"

definition withCancelledTime :: "Network \<Rightarrow> u64 \<Rightarrow> u64 list" where
  "withCancelledTime n cancelled =
     (if nw_genesisTime n < cancelled then remdups_adj (sort (nw_idTimes n @ [cancelled]))
      else nw_idTimes n)"

section \<open>Loading\<close>

definition index_cancellation :: "Network \<Rightarrow> cancellation \<Rightarrow> cancellation" where
  "index_cancellation n c =
     (if \<not> hasEL c then c
      else c\<lparr>ca_elPreHash := hex_EncodeToString (fid_Hash (forkIDFrom n (nw_idTimes n) (ca_elTime c - 1))),
             ca_elPostHash := hex_EncodeToString (fid_Hash (forkIDFrom n (withCancelledTime n (ca_elTime c)) (ca_elTime c)))\<rparr>)"

definition add_cancelled :: "Network \<Rightarrow> forkid \<times> u64 \<Rightarrow> Network \<Rightarrow> Network" where
  "add_cancelled n0 = (\<lambda>(id, at) n.
     if fid_Hash id \<noteq> fid_Hash (forkIDFrom n0 (nw_idTimes n0) at) \<and>
        fid_Hash id \<notin> set (map snd (nw_cancelledHashes n))
     then n\<lparr>nw_cancelledHashes := nw_cancelledHashes n @ [(at, fid_Hash id)],
            nw_cancelledELHex := nw_cancelledELHex n @ [hex_EncodeToString (fid_Hash id)]\<rparr>
     else n)"

definition cancelled_ids :: "Network \<Rightarrow> u64 \<Rightarrow> (forkid \<times> u64) list" where
  "cancelled_ids n first =
     (let original = compiledELForks n; idts = idForkTimes original (nw_genesisTime n) in
      map (\<lambda>f. (forkIDFrom n idts (ef_time f), ef_time f)) (filter (\<lambda>f. first \<le> ef_time f) original) @
      concat (map (\<lambda>c. if \<not> hasEL c then [] else
        (let w = withCancelledTime n (ca_elTime c) in
         (forkIDFrom n w (ca_elTime c), ca_elTime c) #
         map (\<lambda>f. (forkIDFrom n w (ef_time f), ef_time f))
           (filter (\<lambda>f. ca_elTime c < ef_time f) (nw_elForks n)))) (nw_cancellations n)))"

definition indexCancellations :: "Network \<Rightarrow> Network" where
  "indexCancellations n =
     (let first = foldl min max_uint64 (map ca_elTime (filter hasEL (nw_cancellations n)));
          n1 = n\<lparr>nw_cancellations := map (index_cancellation n) (nw_cancellations n)\<rparr>
      in if first = max_uint64 then n1 else fold (add_cancelled n1) (cancelled_ids n1 first) n1)"

definition load :: "Network \<Rightarrow> Network" where
  "load n =
     (if nw_loaded n then n
      else let fs = filter (\<lambda>f. \<not> (\<exists>c\<in>set (nw_cancellations n). ca_elName c = ef_name f \<and> ca_elTime c = ef_time f))
                      (compiledELForks n)
           in indexCancellations
                (n\<lparr>nw_loaded := True, nw_elForks := fs, nw_idBlocks := forkBlocks (nw_ChainConfig n),
                   nw_idTimes := idForkTimes fs (nw_genesisTime n)\<rparr>))"

section \<open>Fork ids at an instant\<close>

definition clampUnix :: "gotime \<Rightarrow> int" where
  "clampUnix at = (if 0 < Unix64 at then Unix64 at else 0)"

definition forkIDAt :: "Network \<Rightarrow> u64 \<Rightarrow> forkid" where
  "forkIDAt n at = (let n = load n in forkIDFrom n (nw_idTimes n) at)"

definition forkEraAt :: "Network \<Rightarrow> gotime \<Rightarrow> int" where
  "forkEraAt n at =
     foldl (\<lambda>era f. let t = sint (ef_time f) in if t \<le> clampUnix at \<and> era < t then t else era) 0 (nw_elForks n)"

definition currentForkIDAt :: "Network \<Rightarrow> gotime \<Rightarrow> forkid" where
  "currentForkIDAt n at = forkIDAt n (word_of_int (clampUnix at))"

definition CurrentForkIDAt :: "Network \<Rightarrow> gotime \<Rightarrow> forkid \<times> Network" where
  "CurrentForkIDAt n0 at =
     (let n = load n0; era = forkEraAt n at; id = currentForkIDAt n at;
          miss = (id, n\<lparr>nw_fork := Some (era, id)\<rparr>)
      in case nw_fork n of Some (e, i) \<Rightarrow> if e = era then (i, n) else miss | None \<Rightarrow> miss)"

definition parseHash4 :: "string \<Rightarrow> byte list option" where
  "parseHash4 raw =
     (case hex_DecodeString (strings_TrimPrefix (strings_ToLower (strings_TrimSpace raw)) ''0x'') of
        None \<Rightarrow> None
      | Some b \<Rightarrow> if length b \<noteq> 4 then None else Some b)"

definition Network_IsCurrentForkAt :: "Network \<Rightarrow> string \<Rightarrow> gotime \<Rightarrow> bool" where
  "Network_IsCurrentForkAt n raw at =
     (case parseHash4 raw of None \<Rightarrow> False | Some got \<Rightarrow> got = fid_Hash (fst (CurrentForkIDAt n at)))"

section \<open>The classification window\<close>

definition cancelledELHashes :: "Network \<Rightarrow> int \<Rightarrow> int \<Rightarrow> byte list list" where
  "cancelledELHashes n0 lo hi =
     (let n = load n0 in
      map snd (filter (\<lambda>(t, h). lo \<le> sint t \<and> sint t \<le> hi) (nw_cancelledHashes n)))"

definition gatherHashes :: "Network \<Rightarrow> gotime \<Rightarrow> byte list list" where
  "gatherHashes n at =
     (let lookback = 730 * 24 * 3600; ahead = 365 * 24 * 3600; now = Unix64 at;
          lb = int64 (now - lookback); hi = int64 (now + ahead);
          start = (if sint (nw_genesisTime n) < lb then lb else sint (nw_genesisTime n))
      in if hi < start then []
         else fid_Hash (forkIDAt n (word_of_int start)) #
              map (\<lambda>f. fid_Hash (forkIDAt n (ef_time f)))
                (filter (\<lambda>f. start \<le> sint (ef_time f) \<and> sint (ef_time f) \<le> hi) (nw_elForks n)) @
              cancelledELHashes n start hi)"

definition RefreshClassifyWindowAt :: "gotime \<Rightarrow> Network \<Rightarrow> Network" where
  "RefreshClassifyWindowAt at n0 =
     (let n = load n0 in n\<lparr>nw_hashes := Some (gatherHashes n at, at)\<rparr>)"

definition Matches :: "gotime \<Rightarrow> Network \<Rightarrow> forkid \<Rightarrow> bool \<times> Network" where
  "Matches now n0 fid =
     (let n = load n0;
          refresh = (case nw_hashes n of None \<Rightarrow> True | Some (_, at) \<Rightarrow> hour \<le> time_Sub now at);
          n' = (if refresh then RefreshClassifyWindowAt now n else n)
      in (case nw_hashes n' of None \<Rightarrow> False | Some (hs, _) \<Rightarrow> fid_Hash fid \<in> set hs, n'))"

section \<open>The registry\<close>

type_synonym registry = "Network list"

definition Get :: "registry \<Rightarrow> string \<Rightarrow> Network result" where
  "Get reg name =
     (case find (\<lambda>n. nw_Name n = name) reg of None \<Rightarrow> Inl (UnknownNetwork name) | Some n \<Rightarrow> Inr n)"

definition Names :: "registry \<Rightarrow> string list" where
  "Names reg = map nw_Name reg"

fun ParseNetworkList_loop :: "registry \<Rightarrow> string list \<Rightarrow> string list \<Rightarrow> string list result" where
  "ParseNetworkList_loop reg [] out = (if out = [] then Inl NoNetworkListed else Inr out)"
| "ParseNetworkList_loop reg (raw # rest) out =
     (let name = strings_TrimSpace raw in
      if name = [] then ParseNetworkList_loop reg rest out
      else bind_err (Get reg name) (\<lambda>_.
           if name \<in> set out then Inl (DuplicateNetwork name)
           else ParseNetworkList_loop reg rest (out @ [name])))"

definition ParseNetworkList :: "registry \<Rightarrow> string \<Rightarrow> string list result" where
  "ParseNetworkList reg csv = ParseNetworkList_loop reg (split_on (CHR '','') csv) []"

fun Classify :: "gotime \<Rightarrow> registry \<Rightarrow> forkid \<Rightarrow> string \<times> registry" where
  "Classify now [] fid = ([], [])"
| "Classify now (n # ns) fid =
     (case Matches now n fid of
        (True, n') \<Rightarrow> (nw_Name n, n' # ns)
      | (False, n') \<Rightarrow> map_prod (\<lambda>x. x) (\<lambda>r. n' # r) (Classify now ns fid))"

definition ClassifyStatus :: "registry \<Rightarrow> u64 \<Rightarrow> byte list \<Rightarrow> string" where
  "ClassifyStatus reg networkID genesis =
     (case find (\<lambda>n. nw_NetworkID n = networkID \<and> nw_genesisHash n = genesis) reg of
        None \<Rightarrow> [] | Some n \<Rightarrow> nw_Name n)"

definition cancelledCLDigest :: "Network \<Rightarrow> byte list \<Rightarrow> bool" where
  "cancelledCLDigest n d =
     ((case nw_originalCL n of None \<Rightarrow> False | Some c \<Rightarrow> has_digest c d) \<or>
      (\<exists>c\<in>set (nw_cancellations n). hasCL c \<and> ca_clPostDigest c = d))"

definition ClassifyCL :: "registry \<Rightarrow> byte list \<Rightarrow> string" where
  "ClassifyCL reg d =
     (case find (\<lambda>n. case nw_cl n of None \<Rightarrow> False | Some c \<Rightarrow> has_digest c d \<or> cancelledCLDigest n d) reg of
        None \<Rightarrow> [] | Some n \<Rightarrow> nw_Name n)"

definition CLForkStateAt :: "registry \<Rightarrow> string \<Rightarrow> gotime \<Rightarrow> CLForkState result" where
  "CLForkStateAt reg name at =
     (case Get reg name of
        Inl _ \<Rightarrow> Inl (UnknownConsensusNetwork name)
      | Inr n \<Rightarrow> (case nw_cl n of None \<Rightarrow> Inl (UnknownConsensusNetwork name) | Some c \<Rightarrow> fst (stateAt c at)))"

definition SecondsPerSlot :: "registry \<Rightarrow> string \<Rightarrow> u64 result" where
  "SecondsPerSlot reg name =
     (case Get reg name of
        Inl _ \<Rightarrow> Inl (UnknownConsensusNetwork name)
      | Inr n \<Rightarrow> (case nw_cl n of
            None \<Rightarrow> Inl (UnknownConsensusNetwork name)
          | Some c \<Rightarrow> if secondsPerSlot c = 0 then Inl (UnknownConsensusNetwork name)
                       else Inr (secondsPerSlot c)))"

section \<open>The currency rule\<close>

definition IsCurrentForkAt :: "registry \<Rightarrow> string \<Rightarrow> string \<Rightarrow> gotime \<Rightarrow> bool" where
  "IsCurrentForkAt reg network hash at =
     (case Get reg network of Inl _ \<Rightarrow> False | Inr n \<Rightarrow> Network_IsCurrentForkAt n hash at)"

definition IsCurrentCLForkAt :: "registry \<Rightarrow> string \<Rightarrow> string \<Rightarrow> gotime \<Rightarrow> bool" where
  "IsCurrentCLForkAt reg name forkHash at =
     (case parseHash4 forkHash of
        None \<Rightarrow> False
      | Some digest \<Rightarrow> (case CLForkStateAt reg name at of Inl _ \<Rightarrow> False | Inr s \<Rightarrow> digest = cs_Digest s))"

definition CanonicalCurrentNextRanges :: "gotime \<Rightarrow> (u64 \<times> u64) list" where
  "CanonicalCurrentNextRanges at =
     (let unix = word_of_int (clampUnix at);
          future = (if timestampThreshold < unix then unix else timestampThreshold)
      in [(0, 0), (forkHeadBlock + 1, timestampThreshold), (future + 1, max_uint64)])"

definition IsCanonicalForkCompatibleAt :: "registry \<Rightarrow> string \<Rightarrow> string \<Rightarrow> u64 \<Rightarrow> gotime \<Rightarrow> bool" where
  "IsCanonicalForkCompatibleAt reg network raw nxt at \<longleftrightarrow>
     IsCurrentForkAt reg network raw at \<and>
     (\<exists>r\<in>set (CanonicalCurrentNextRanges at). fst r \<le> nxt \<and> nxt \<le> snd r)"

definition RowForkCurrentAt :: "registry \<Rightarrow> string \<Rightarrow> string \<Rightarrow> string \<Rightarrow> u64 \<Rightarrow> gotime \<Rightarrow> bool" where
  "RowForkCurrentAt reg layer network forkHash forkNext at =
     (if layer = ''el'' then IsCanonicalForkCompatibleAt reg network forkHash forkNext at
      else if layer = ''cl'' then IsCurrentCLForkAt reg network forkHash at
      else False)"

end
