(* ===== verification/ForkTargets.thy ===== *)
theory ForkTargets
  imports NetworkForks
begin

text \<open>
  The fork a network is tracked against and how ready a row is for it:
  \<^verbatim>\<open>internal/netconf/readiness.go\<close>, \<^verbatim>\<open>internal/netconf/schedule.go\<close> and the parts of
  \<^verbatim>\<open>internal/netconf/cancel.go\<close> that choose a cancelled fork as the target. The string constants
  of the phases and of the readiness states are datatypes; the empty readiness is \<open>None\<close>. Nil
  layer targets are \<open>None\<close>.
\<close>

section \<open>Data\<close>

definition ForkTrackingGrace :: duration where
  "ForkTrackingGrace = 14 * 24 * hour"

datatype phase = PhaseNone | PhaseScheduled | PhaseActivated | PhaseCancelled

datatype Readiness = Ready | Pending | NotReady | Mismatch | Unknown | Stale

record ELForkTarget =
  elt_Name :: string
  elt_Time :: u64
  elt_Phase :: phase
  elt_PreHash :: string
  elt_PostHash :: string
  elt_OnCancelled :: "string list"

record CLForkTarget =
  clt_Name :: string
  clt_Epoch :: u64
  clt_Version :: string
  clt_Phase :: phase
  clt_Time :: gotime
  clt_PreDigest :: string
  clt_PostDigest :: string
  clt_OnCancelled :: "string list"

record ForkTarget =
  ft_Name :: string
  ft_EL :: "ELForkTarget option"
  ft_CL :: "CLForkTarget option"

record ReadinessEvidence =
  ev_Layer :: string
  ev_ForkHash :: string
  ev_ForkNext :: u64
  ev_ENRForkDigest :: string
  ev_ENRNextForkVersion :: string
  ev_ENRNextForkEpoch :: u64

record ScheduledFork =
  sf_Name :: string
  sf_EL :: string
  sf_CL :: string
  sf_Time :: int
  sf_CLEpoch :: u64
  sf_Activated :: bool
  sf_Tracked :: bool
  sf_Cancelled :: bool

definition el_phase :: "ForkTarget \<Rightarrow> phase option" where
  "el_phase t = map_option elt_Phase (ft_EL t)"

definition cl_phase :: "ForkTarget \<Rightarrow> phase option" where
  "cl_phase t = map_option clt_Phase (ft_CL t)"

definition Phase_of :: "ForkTarget \<Rightarrow> phase" where
  "Phase_of t =
     (if el_phase t = Some PhaseCancelled \<or> cl_phase t = Some PhaseCancelled then PhaseCancelled
      else if el_phase t = Some PhaseScheduled \<or> cl_phase t = Some PhaseScheduled then PhaseScheduled
      else if ft_EL t \<noteq> None \<or> ft_CL t \<noteq> None then PhaseActivated
      else PhaseNone)"

definition Schedule_of :: "ForkTarget \<Rightarrow> u64 \<times> u64" where
  "Schedule_of t =
     (case ft_EL t of None \<Rightarrow> 0 | Some e \<Rightarrow> elt_Time e, case ft_CL t of None \<Rightarrow> 0 | Some c \<Rightarrow> clt_Epoch c)"

definition Activation :: "ForkTarget \<Rightarrow> gotime" where
  "Activation t =
     (case ft_EL t of
        Some e \<Rightarrow> unix64 (sint (elt_Time e))
      | None \<Rightarrow> (case ft_CL t of Some c \<Rightarrow> clt_Time c | None \<Rightarrow> time_zero))"

definition IsCancelled :: "ForkTarget \<Rightarrow> bool" where
  "IsCancelled t \<longleftrightarrow> Phase_of t = PhaseCancelled"

definition CancelledAt :: "ForkTarget \<Rightarrow> string \<Rightarrow> gotime option" where
  "CancelledAt t layer =
     (if layer = ''el'' \<and> el_phase t = Some PhaseCancelled
      then map_option (\<lambda>e. unix64 (sint (elt_Time e))) (ft_EL t)
      else if layer = ''cl'' \<and> cl_phase t = Some PhaseCancelled then map_option clt_Time (ft_CL t)
      else None)"

section \<open>Names\<close>

definition combinedForkNames :: "((string \<times> string) \<times> string) list" where
  "combinedForkNames =
     [((''shanghai'', ''capella''), ''Shapella''), ((''cancun'', ''deneb''), ''Dencun''),
      ((''prague'', ''electra''), ''Pectra''), ((''osaka'', ''fulu''), ''Fusaka''),
      ((''amsterdam'', ''gloas''), ''Glamsterdam'')]"

definition capitalize :: "string \<Rightarrow> string" where
  "capitalize s = (case s of [] \<Rightarrow> [] | c # cs \<Rightarrow> upper_char c # cs)"

definition upgradeName :: "string \<Rightarrow> string \<Rightarrow> string" where
  "upgradeName el cl =
     (if el \<noteq> [] \<and> cl \<noteq> []
      then (case map_of combinedForkNames (strings_ToLower el, strings_ToLower cl) of
              Some name \<Rightarrow> name
            | None \<Rightarrow> if el = cl then el else el @ ''-'' @ capitalize cl)
      else if el \<noteq> [] then el
      else capitalize cl)"

section \<open>The target of each layer\<close>

fun elTarget_scan ::
  "u64 \<Rightarrow> u64 \<Rightarrow> elForkTime list \<Rightarrow> elForkTime option \<times> elForkTime option \<Rightarrow> elForkTime option \<times> elForkTime option"
where
  "elTarget_scan genesis unix [] acc = acc"
| "elTarget_scan genesis unix (f # fs) (nxt, lst) =
     (if ef_time f \<le> genesis then elTarget_scan genesis unix fs (nxt, lst)
      else elTarget_scan genesis unix fs
        (if unix < ef_time f \<and> (case nxt of None \<Rightarrow> True | Some g \<Rightarrow> ef_time f \<le> ef_time g) then Some f else nxt,
         if ef_time f \<le> unix \<and> (case lst of None \<Rightarrow> True | Some g \<Rightarrow> ef_time g \<le> ef_time f) then Some f else lst))"

definition elTarget_of :: "Network \<Rightarrow> elForkTime \<Rightarrow> phase \<Rightarrow> ELForkTarget" where
  "elTarget_of n f ph =
     \<lparr>elt_Name = ef_name f, elt_Time = ef_time f, elt_Phase = ph,
      elt_PreHash = hex_EncodeToString (fid_Hash (forkIDAt n (ef_time f - 1))),
      elt_PostHash = hex_EncodeToString (fid_Hash (forkIDAt n (ef_time f))), elt_OnCancelled = []\<rparr>"

definition elTargetAt :: "Network \<Rightarrow> gotime \<Rightarrow> ELForkTarget option" where
  "elTargetAt n0 at =
     (let n = load n0 in
      case elTarget_scan (nw_genesisTime n) (word_of_int (clampUnix at)) (nw_elForks n) (None, None) of
        (Some f, _) \<Rightarrow> Some (elTarget_of n f PhaseScheduled)
      | (None, None) \<Rightarrow> None
      | (None, Some f) \<Rightarrow>
          if ForkTrackingGrace \<le> time_Sub at (unix64 (sint (ef_time f))) then None
          else Some (elTarget_of n f PhaseActivated))"

fun clTarget_next :: "u64 \<Rightarrow> clFork list \<Rightarrow> clFork option" where
  "clTarget_next epoch [] = None"
| "clTarget_next epoch (f # fs) =
     (if epoch < cf_epoch f \<and> cf_epoch f \<noteq> max_uint64
      then Some (last (f # takeWhile (\<lambda>g. cf_epoch g = cf_epoch f) fs))
      else clTarget_next epoch fs)"

definition clTarget_choose :: "clNetwork \<Rightarrow> gotime \<Rightarrow> clFork list \<Rightarrow> (clFork \<times> phase) option" where
  "clTarget_choose c at fs =
     (case clTarget_next (epochAt c at) fs of
        Some f \<Rightarrow> Some (f, PhaseScheduled)
      | None \<Rightarrow>
          (case find (\<lambda>f. \<not> (cf_epoch f = 0 \<or> epochAt c at < cf_epoch f)) (rev fs) of
             None \<Rightarrow> None
           | Some f \<Rightarrow> if time_Sub at (timeAtEpoch c (cf_epoch f)) < ForkTrackingGrace
                        then Some (f, PhaseActivated) else None))"

definition targetAt :: "clNetwork \<Rightarrow> gotime \<Rightarrow> CLForkTarget option result" where
  "targetAt c at =
     bind_err (transitions c) (\<lambda>fs.
       case clTarget_choose c at fs of
         None \<Rightarrow> Inr None
       | Some (f, ph) \<Rightarrow>
           bind_err (digestAt c (cf_epoch f - 1)) (\<lambda>(pre, _).
           bind_err (digestAt c (cf_epoch f)) (\<lambda>(post, _).
             Inr (Some \<lparr>clt_Name = cf_name f, clt_Epoch = cf_epoch f, clt_Version = hex_EncodeToString (cf_version f),
                        clt_Phase = ph, clt_Time = timeAtEpoch c (cf_epoch f), clt_PreDigest = hex_EncodeToString pre,
                        clt_PostDigest = hex_EncodeToString post, clt_OnCancelled = []\<rparr>))))"

section \<open>Cancelled forks as targets\<close>

text \<open>A cancellation of a consensus fork exists only on a network that has a consensus schedule.\<close>

definition ca_at :: "Network \<Rightarrow> cancellation \<Rightarrow> int" where
  "ca_at n c =
     (if hasEL c then sint (ca_elTime c)
      else case nw_cl n of None \<Rightarrow> 0 | Some cl \<Rightarrow> Unix64 (timeAtEpoch cl (ca_clEpoch c)))"

fun pick_cancelled ::
  "Network \<Rightarrow> gotime \<Rightarrow> (cancellation \<Rightarrow> bool) \<Rightarrow> cancellation option \<Rightarrow> cancellation list \<Rightarrow> cancellation option"
where
  "pick_cancelled n at has chosen [] = chosen"
| "pick_cancelled n at has chosen (c # cs) =
     (let when = unix64 (ca_at n c) in
      if \<not> has c \<or> ForkTrackingGrace \<le> time_Sub at when then pick_cancelled n at has chosen cs
      else if at < when then Some c
      else pick_cancelled n at has (Some c) cs)"

definition cancelledTargetsAt :: "Network \<Rightarrow> gotime \<Rightarrow> ForkTarget \<Rightarrow> ForkTarget" where
  "cancelledTargetsAt n0 at t =
     (let n = load n0;
          t1 = (case pick_cancelled n at hasEL None (nw_cancellations n) of
                  None \<Rightarrow> t
                | Some c \<Rightarrow>
                    if (case ft_EL t of None \<Rightarrow> True | Some e \<Rightarrow> elt_Phase e \<noteq> PhaseScheduled \<or> ca_elTime c < elt_Time e)
                    then t\<lparr>ft_EL := Some \<lparr>elt_Name = ca_elName c, elt_Time = ca_elTime c, elt_Phase = PhaseCancelled,
                                           elt_PreHash = ca_elPreHash c, elt_PostHash = ca_elPostHash c,
                                           elt_OnCancelled = nw_cancelledELHex n\<rparr>\<rparr>
                    else t)
      in case pick_cancelled n at hasCL None (nw_cancellations n) of
           None \<Rightarrow> t1
         | Some c \<Rightarrow>
             if (case ft_CL t1 of None \<Rightarrow> True | Some l \<Rightarrow> clt_Phase l \<noteq> PhaseScheduled \<or> ca_clEpoch c < clt_Epoch l)
             then t1\<lparr>ft_CL := Some \<lparr>clt_Name = ca_clName c, clt_Epoch = ca_clEpoch c,
                                     clt_Version = hex_EncodeToString (ca_clVersion c), clt_Phase = PhaseCancelled,
                                     clt_Time = (case nw_cl n of None \<Rightarrow> time_zero | Some cl \<Rightarrow> timeAtEpoch cl (ca_clEpoch c)),
                                     clt_PreDigest = hex_EncodeToString (ca_clPreDigest c),
                                     clt_PostDigest = hex_EncodeToString (ca_clPostDigest c),
                                     clt_OnCancelled = nw_cancelledCLHex n\<rparr>\<rparr>
             else t1)"

fun cancelledEra_scan :: "Network \<Rightarrow> gotime \<Rightarrow> cancellation list \<Rightarrow> string \<times> gotime \<Rightarrow> string \<times> gotime" where
  "cancelledEra_scan n at [] acc = acc"
| "cancelledEra_scan n at (c # cs) (b, nxt) =
     (let when = unix64 (ca_at n c) in
      if \<not> at < when then cancelledEra_scan n at cs (b @ ''~'' @
          (if Unix64 when < 0 then ''-'' @ nat_dec (nat (- Unix64 when)) else nat_dec (nat (Unix64 when))), nxt)
      else if time_IsZero nxt \<or> when < nxt then cancelledEra_scan n at cs (b, when)
      else cancelledEra_scan n at cs (b, nxt))"

definition cancelledEraAt :: "Network \<Rightarrow> gotime \<Rightarrow> string \<times> gotime" where
  "cancelledEraAt n at = cancelledEra_scan n at (nw_cancellations n) ([], time_zero)"

definition CancelledForkActivatedBetween :: "registry \<Rightarrow> string \<Rightarrow> string \<Rightarrow> gotime \<Rightarrow> gotime \<Rightarrow> bool" where
  "CancelledForkActivatedBetween reg network layer frm until =
     (case Get reg network of
        Inl _ \<Rightarrow> False
      | Inr n \<Rightarrow> (\<exists>c\<in>set (nw_cancellations n).
          \<not> (layer = ''el'' \<and> \<not> hasEL c \<or> layer = ''cl'' \<and> \<not> hasCL c) \<and>
          frm < unix64 (ca_at n c) \<and> unix64 (ca_at n c) \<le> until))"

section \<open>The target of a network\<close>

definition LayerForkTargetsAt :: "registry \<Rightarrow> string \<Rightarrow> gotime \<Rightarrow> ForkTarget result" where
  "LayerForkTargetsAt reg network at =
     bind_err (Get reg network) (\<lambda>n.
       let t = \<lparr>ft_Name = [], ft_EL = elTargetAt n at, ft_CL = None\<rparr> in
       bind_err (case nw_cl n of
                   None \<Rightarrow> Inr t
                 | Some c \<Rightarrow> bind_err (targetAt c at) (\<lambda>cl. Inr (t\<lparr>ft_CL := cl\<rparr>)))
         (\<lambda>t. Inr (cancelledTargetsAt n at t)))"

text \<open>Layers with different activation instants are different upgrades; one of them is kept.\<close>

definition one_upgrade :: "ForkTarget \<Rightarrow> ForkTarget" where
  "one_upgrade t =
     (case (ft_EL t, ft_CL t) of
        (Some e, Some c) \<Rightarrow>
          if Unix64 (clt_Time c) \<noteq> sint (elt_Time e)
          then let elScheduled = (elt_Phase e \<noteq> PhaseActivated); clScheduled = (clt_Phase c \<noteq> PhaseActivated);
                   elFirst = (sint (elt_Time e) < Unix64 (clt_Time c))
               in if elScheduled \<and> (\<not> clScheduled \<or> elFirst) \<or> \<not> elScheduled \<and> \<not> clScheduled \<and> \<not> elFirst
                  then t\<lparr>ft_CL := None\<rparr> else t\<lparr>ft_EL := None\<rparr>
          else t
      | _ \<Rightarrow> t)"

definition ForkTargetAt :: "registry \<Rightarrow> string \<Rightarrow> gotime \<Rightarrow> ForkTarget result" where
  "ForkTargetAt reg network at =
     bind_err (LayerForkTargetsAt reg network at) (\<lambda>t0.
       let t = one_upgrade t0 in
       Inr (t\<lparr>ft_Name := upgradeName (case ft_EL t of None \<Rightarrow> [] | Some e \<Rightarrow> elt_Name e)
                                      (case ft_CL t of None \<Rightarrow> [] | Some c \<Rightarrow> clt_Name c)\<rparr>))"

section \<open>Readiness of a row\<close>

definition containsFold :: "string list \<Rightarrow> string \<Rightarrow> bool" where
  "containsFold xs s = list_ex (\<lambda>x. strings_EqualFold x s) xs"

definition cancelledReadiness :: "bool \<Rightarrow> bool \<Rightarrow> bool \<Rightarrow> Readiness" where
  "cancelledReadiness current affected readable =
     (if affected then NotReady else if \<not> current then Stale else if \<not> readable then Unknown else Ready)"

definition activatedReadiness :: "bool \<Rightarrow> string \<Rightarrow> string \<Rightarrow> bool \<Rightarrow> bool \<Rightarrow> Readiness" where
  "activatedReadiness current forkHash pre readable scheduled =
     (if current then Ready
      else if \<not> strings_EqualFold forkHash pre then Stale
      else if \<not> readable then Unknown
      else if scheduled then Pending
      else NotReady)"

definition elReadiness :: "ELForkTarget \<Rightarrow> bool \<Rightarrow> ReadinessEvidence \<Rightarrow> Readiness" where
  "elReadiness el current ev =
     (if elt_Phase el = PhaseCancelled
      then cancelledReadiness current
             (containsFold (elt_OnCancelled el) (ev_ForkHash ev) \<or>
              strings_EqualFold (ev_ForkHash ev) (elt_PreHash el) \<and> ev_ForkNext ev = elt_Time el) True
      else if elt_Phase el = PhaseActivated
      then activatedReadiness current (ev_ForkHash ev) (elt_PreHash el) True (ev_ForkNext ev = elt_Time el)
      else if \<not> current then Stale
      else if ev_ForkNext ev = elt_Time el then Ready
      else if ev_ForkNext ev = 0 then NotReady
      else Mismatch)"

definition clReadiness :: "CLForkTarget \<Rightarrow> bool \<Rightarrow> ReadinessEvidence \<Rightarrow> Readiness" where
  "clReadiness cl current ev =
     (let scheduled = (ev_ENRNextForkEpoch ev = clt_Epoch cl \<and> strings_EqualFold (ev_ENRNextForkVersion ev) (clt_Version cl)) in
      if clt_Phase cl = PhaseCancelled
      then cancelledReadiness current
             (containsFold (clt_OnCancelled cl) (ev_ForkHash ev) \<or>
              strings_EqualFold (ev_ENRForkDigest ev) (clt_PreDigest cl) \<and> scheduled)
             (ev_ENRForkDigest ev \<noteq> [] \<and> strings_EqualFold (ev_ENRForkDigest ev) (ev_ForkHash ev))
      else if clt_Phase cl = PhaseActivated
      then activatedReadiness current (ev_ForkHash ev) (clt_PreDigest cl)
             (strings_EqualFold (ev_ENRForkDigest ev) (clt_PreDigest cl)) scheduled
      else if \<not> current then Stale
      else if ev_ENRForkDigest ev = [] \<or> \<not> strings_EqualFold (ev_ENRForkDigest ev) (ev_ForkHash ev) then Unknown
      else if scheduled then Ready
      else if ev_ENRNextForkEpoch ev = max_uint64 then NotReady
      else Mismatch)"

definition ReadinessAt :: "registry \<Rightarrow> ForkTarget \<Rightarrow> string \<Rightarrow> ReadinessEvidence \<Rightarrow> gotime \<Rightarrow> Readiness option" where
  "ReadinessAt reg t network ev at =
     (let current = RowForkCurrentAt reg (ev_Layer ev) network (ev_ForkHash ev) (ev_ForkNext ev) at in
      if ev_Layer ev = ''el'' then map_option (\<lambda>el. elReadiness el current ev) (ft_EL t)
      else if ev_Layer ev = ''cl'' then map_option (\<lambda>cl. clReadiness cl current ev) (ft_CL t)
      else None)"

section \<open>The upgrade schedule\<close>

definition zeroScheduled :: "int \<Rightarrow> ScheduledFork" where
  "zeroScheduled unix = \<lparr>sf_Name = [], sf_EL = [], sf_CL = [], sf_Time = unix, sf_CLEpoch = 0,
     sf_Activated = False, sf_Tracked = False, sf_Cancelled = False\<rparr>"

definition sched_entry :: "int \<Rightarrow> (ScheduledFork \<Rightarrow> ScheduledFork) \<Rightarrow> (int, ScheduledFork) gomap \<Rightarrow> (int, ScheduledFork) gomap" where
  "sched_entry unix f m =
     AList.update unix (f (case map_of m unix of None \<Rightarrow> zeroScheduled unix | Some e \<Rightarrow> e)) m"

definition sched_el :: "Network \<Rightarrow> (int, ScheduledFork) gomap" where
  "sched_el n = fold (\<lambda>f m.
     if nw_genesisTime n < ef_time f \<and> ef_time f \<le> 0x7FFFFFFFFFFFFFFF
     then sched_entry (sint (ef_time f)) (\<lambda>e. e\<lparr>sf_EL := ef_name f\<rparr>) m else m) (nw_elForks n) []"

definition sched_cl :: "clNetwork \<Rightarrow> clFork list \<Rightarrow> (int, ScheduledFork) gomap \<Rightarrow> (int, ScheduledFork) gomap" where
  "sched_cl c fs m = fold (\<lambda>f m.
     if cf_epoch f = 0 \<or> cf_epoch f = max_uint64 then m
     else sched_entry (Unix64 (timeAtEpoch c (cf_epoch f))) (\<lambda>e. e\<lparr>sf_CL := cf_name f, sf_CLEpoch := cf_epoch f\<rparr>) m) fs m"

definition sched_finish :: "ForkTarget \<Rightarrow> gotime \<Rightarrow> ScheduledFork \<Rightarrow> ScheduledFork" where
  "sched_finish target at e =
     (let name = upgradeName (sf_EL e) (sf_CL e) in
      e\<lparr>sf_Name := name, sf_Activated := sf_Time e \<le> Unix64 at,
        sf_Tracked := ft_Name target \<noteq> [] \<and> name = ft_Name target \<and> sf_Time e = Unix64 (Activation target)\<rparr>)"

definition sched_cancelled :: "Network \<Rightarrow> ForkTarget \<Rightarrow> cancellation \<Rightarrow> ScheduledFork" where
  "sched_cancelled n target c =
     \<lparr>sf_Name = ca_fork c, sf_EL = ca_elName c, sf_CL = ca_clName c, sf_Time = ca_at n c, sf_CLEpoch = ca_clEpoch c,
      sf_Activated = False, sf_Tracked = IsCancelled target \<and> ca_at n c = Unix64 (Activation target),
      sf_Cancelled = True\<rparr>"

text \<open>The order of entries at one instant is the order of the model; Go leaves it open.\<close>

definition ScheduleAt :: "registry \<Rightarrow> string \<Rightarrow> gotime \<Rightarrow> ScheduledFork list result" where
  "ScheduleAt reg network at =
     bind_err (Get reg network) (\<lambda>n0.
       let n = load n0 in
       bind_err (case nw_cl n of
                   None \<Rightarrow> Inr (sched_el n)
                 | Some c \<Rightarrow> bind_err (transitions c) (\<lambda>fs. Inr (sched_cl c fs (sched_el n)))) (\<lambda>byTime.
       bind_err (ForkTargetAt reg network at) (\<lambda>target.
         Inr (sort_key sf_Time (map (sched_finish target at \<circ> snd) byTime @
                                map (sched_cancelled n target) (nw_cancellations n))))))"

section \<open>The era token\<close>

definition earlier :: "gotime \<Rightarrow> gotime \<Rightarrow> gotime" where
  "earlier nxt t = (if time_IsZero nxt \<or> t < nxt then t else nxt)"

definition era_part :: "registry \<Rightarrow> gotime \<Rightarrow> gotime \<Rightarrow> string \<Rightarrow> (string \<times> gotime) result" where
  "era_part reg at nxt name =
     bind_err (Get reg name) (\<lambda>n0.
       let n = load n0; el = fid_Hash (fst (CurrentForkIDAt n at)) in
       bind_err (CLForkStateAt reg name at) (\<lambda>state.
         let (passed, cancelledNext) = cancelledEraAt n at;
             part = name @ '':'' @ hex_EncodeToString el @ '':'' @ hex_EncodeToString (cs_Digest state) @ passed;
             nxt1 = foldl (\<lambda>nx t. if \<not> time_IsZero t then earlier nx t else nx) nxt
                      [cs_NextTransition state, cancelledNext];
             nxt2 = foldl (\<lambda>nx f. let tr = unix64 (sint (ef_time f)) in if at < tr then earlier nx tr else nx) nxt1 (nw_elForks n)
         in Inr (part, nxt2)))"

fun era_parts :: "registry \<Rightarrow> gotime \<Rightarrow> gotime \<Rightarrow> string list \<Rightarrow> (string list \<times> gotime) result" where
  "era_parts reg at nxt [] = Inr ([], nxt)"
| "era_parts reg at nxt (name # names) =
     bind_err (era_part reg at nxt name) (\<lambda>(part, nxt').
     bind_err (era_parts reg at nxt' names) (\<lambda>(parts, nxt''). Inr (part # parts, nxt'')))"

definition ForkEraTokenAt :: "registry \<Rightarrow> gotime \<Rightarrow> string list \<Rightarrow> (string \<times> gotime) result" where
  "ForkEraTokenAt reg at requested =
     bind_err (era_parts reg at time_zero (sort (if requested = [] then Names reg else requested))) (\<lambda>(parts, nxt).
       Inr (intercalate '','' parts, nxt))"

end
