(* ===== verification/Releases.thy ===== *)
theory Releases
  imports ForkTargets
begin

text \<open>
  The operator's release table and notices: \<^verbatim>\<open>internal/netconf/releases.go\<close> and
  \<^verbatim>\<open>internal/netconf/notices.go\<close>. The package variables guarded by \<^verbatim>\<open>releasesMu\<close> are the record
  \<open>forkFile\<close>; an update is one critical section. The regular expressions are written out as
  matchers. \<^verbatim>\<open>url.Parse\<close> is an argument that returns the scheme and the host of a URL.
\<close>

section \<open>Versions\<close>

type_synonym semver = "nat \<times> nat \<times> nat"

text \<open>\<^verbatim>\<open>^[vV]?(\d+)\.(\d+)(?:\.(\d+))?\<close>: the three groups and the rest of the text.\<close>

definition leadingSemver :: "string \<Rightarrow> (string \<times> string \<times> string \<times> string) option" where
  "leadingSemver s =
     (let s1 = (case s of c # r \<Rightarrow> if c = CHR ''v'' \<or> c = CHR ''V'' then r else s | [] \<Rightarrow> []);
          d1 = takeWhile is_digit s1; r1 = dropWhile is_digit s1
      in case r1 of
           c # r2 \<Rightarrow>
             (let d2 = takeWhile is_digit r2; r3 = dropWhile is_digit r2 in
              if d1 = [] \<or> c \<noteq> CHR ''.'' \<or> d2 = [] then None
              else case r3 of
                     e # r4 \<Rightarrow>
                       (let d3 = takeWhile is_digit r4 in
                        if e = CHR ''.'' \<and> d3 \<noteq> [] then Some (d1, d2, d3, dropWhile is_digit r4)
                        else Some (d1, d2, [], r3))
                   | [] \<Rightarrow> Some (d1, d2, [], []))
         | [] \<Rightarrow> None)"

text \<open>\<^verbatim>\<open>strconv.Atoi\<close> on a non-empty run of digits fails only beyond 64 bits; an empty group is 0.\<close>

definition atoi :: "string \<Rightarrow> nat option" where
  "atoi s = (let v = foldl (\<lambda>a c. 10 * a + (of_char c - 48)) 0 s in
             if int v \<le> max_int64 then Some v else None)"

definition semverCore :: "string \<Rightarrow> semver option" where
  "semverCore v =
     (case leadingSemver (strings_TrimSpace v) of
        None \<Rightarrow> None
      | Some (a, b, c, _) \<Rightarrow>
          (case (atoi a, atoi b, atoi c) of (Some x, Some y, Some z) \<Rightarrow> Some (x, y, z) | _ \<Rightarrow> None))"

definition versionSuffix :: "string \<Rightarrow> string" where
  "versionSuffix v =
     (let t = strings_TrimSpace v in case leadingSemver t of None \<Rightarrow> t | Some (_, _, _, rest) \<Rightarrow> rest)"

fun semverLess :: "semver \<Rightarrow> semver \<Rightarrow> bool" where
  "semverLess (a, b, c) (x, y, z) =
     (if a \<noteq> x then a < x else if b \<noteq> y then b < y else if c \<noteq> z then c < z else False)"

definition same_line :: "semver \<Rightarrow> semver \<Rightarrow> bool" where
  "same_line v w \<longleftrightarrow> fst v = fst w \<and> fst (snd v) = fst (snd w)"

text \<open>\<^verbatim>\<open>(?i)(^|[-+._/])(rc|alpha|...)\d*($|[-+._/])\<close>\<close>

definition dev_tokens :: "string list" where
  "dev_tokens = [''rc'', ''alpha'', ''beta'', ''unstable'', ''dev'', ''develop'', ''nightly'', ''main'',
                 ''master'', ''pre'', ''snapshot'']"

definition is_sep :: "char \<Rightarrow> bool" where
  "is_sep c \<longleftrightarrow> c \<in> set ''-+._/''"

definition token_at :: "string \<Rightarrow> bool" where
  "token_at s = list_ex (\<lambda>t. is_prefix t (strings_ToLower s) \<and>
     (case dropWhile is_digit (drop (length t) s) of [] \<Rightarrow> True | c # _ \<Rightarrow> is_sep c)) dev_tokens"

fun devBuild_scan :: "string \<Rightarrow> bool" where
  "devBuild_scan [] = False"
| "devBuild_scan (c # s) = (is_sep c \<and> token_at s \<or> devBuild_scan s)"

definition devBuildToken :: "string \<Rightarrow> bool" where
  "devBuildToken s \<longleftrightarrow> token_at s \<or> devBuild_scan s"

section \<open>Release labels\<close>

datatype releaseLabel = ReleaseMeets | ReleaseBelow | ReleaseDevBuild | ReleaseUnparsable
  | ReleaseAffected | ReleaseUnaffected

fun status_loop :: "semver \<Rightarrow> semver option \<Rightarrow> string list \<Rightarrow> releaseLabel" where
  "status_loop got highest [] =
     (case highest of
        None \<Rightarrow> ReleaseUnparsable
      | Some h \<Rightarrow> if \<not> semverLess got h then ReleaseMeets else ReleaseBelow)"
| "status_loop got highest (f # fs) =
     (case semverCore f of
        None \<Rightarrow> status_loop got highest fs
      | Some floor \<Rightarrow>
          if same_line floor got \<and> \<not> semverLess got floor then ReleaseMeets
          else status_loop got
                 (if (case highest of None \<Rightarrow> True | Some h \<Rightarrow> semverLess h floor) then Some floor else highest) fs)"

definition ReleaseStatus :: "string list \<Rightarrow> string \<Rightarrow> releaseLabel" where
  "ReleaseStatus floors version =
     (case semverCore version of
        None \<Rightarrow> ReleaseUnparsable
      | Some got \<Rightarrow> if devBuildToken (versionSuffix version) then ReleaseDevBuild
                     else status_loop got None floors)"

fun lineFloor_loop :: "semver \<Rightarrow> semver option \<Rightarrow> string list \<Rightarrow> semver option" where
  "lineFloor_loop got highest [] = highest"
| "lineFloor_loop got highest (f # fs) =
     (case semverCore f of
        None \<Rightarrow> lineFloor_loop got highest fs
      | Some floor \<Rightarrow>
          if same_line floor got then Some floor
          else lineFloor_loop got
                 (if (case highest of None \<Rightarrow> True | Some h \<Rightarrow> semverLess h floor) then Some floor else highest) fs)"

definition lineFloor :: "string list \<Rightarrow> semver \<Rightarrow> semver option" where
  "lineFloor floors got = lineFloor_loop got None floors"

definition CancelledReleaseStatus :: "string list \<Rightarrow> string list \<Rightarrow> string \<Rightarrow> releaseLabel" where
  "CancelledReleaseStatus scheduled unscheduled version =
     (case ReleaseStatus scheduled version of
        ReleaseMeets \<Rightarrow>
          (let got = (case semverCore version of None \<Rightarrow> (0, 0, 0) | Some g \<Rightarrow> g);
               reached = (case lineFloor scheduled got of None \<Rightarrow> (0, 0, 0) | Some r \<Rightarrow> r)
           in case lineFloor unscheduled got of
                Some fix \<Rightarrow> if \<not> semverLess got fix \<and> \<not> semverLess fix reached then ReleaseUnaffected
                             else ReleaseAffected
              | None \<Rightarrow> ReleaseAffected)
      | ReleaseBelow \<Rightarrow> ReleaseUnaffected
      | s \<Rightarrow> s)"

section \<open>The release table\<close>

record ClientRelease =
  cr_Fork :: string
  cr_Network :: string
  cr_Layer :: string
  cr_Client :: string
  cr_ForkTime :: u64
  cr_MinVersions :: "string list"
  cr_UnscheduledIn :: "string list"
  cr_Prerelease :: string
  cr_Released :: string
  cr_URL :: string
  cr_Latest :: string
  cr_LatestURL :: string
  cr_Outdated :: bool

record ClientReleaseTable =
  crt_Updated :: string
  crt_Releases :: "ClientRelease list"

record NoticeLink =
  nl_Label :: string
  nl_URL :: string

record Notice =
  nt_Network :: string
  nt_Fork :: string
  nt_Severity :: string
  nt_Title :: string
  nt_Body :: string
  nt_Links :: "NoticeLink list"
  nt_Starts :: "gotime option"
  nt_Expires :: "gotime option"

record forkFile =
  clientReleases :: ClientReleaseTable
  notices :: "Notice list"
  clientReleasesGen :: u64

datatype tableError =
    BadUpdated string
  | MissingNetworkOrFork string | BadReleased string string | UnknownReleaseNetwork string string
  | BadURL string string | BadLatestURL string string | LatestNotMeeting string string
  | BadLayer string string | NotCanonicalClient string string | DuplicateEntry string
  | MissingForkTime string | BadMinVersion string string | BadUnscheduledIn string string
  | UnscheduledWithoutSchedule string
  | BadTitle nat | BodyTooLong nat | BadSeverity nat string | UnknownNoticeNetwork nat string
  | BadWindow nat | TooManyLinks nat | BadLink nat string

definition releaseKey :: "ClientRelease \<Rightarrow> string" where
  "releaseKey r = cr_Network r @ ''/'' @ strings_ToLower (cr_Fork r) @ ''/'' @ cr_Layer r @ ''/'' @ cr_Client r"

text \<open>\<^verbatim>\<open>time.Parse(time.DateOnly, s)\<close>: four, two and two digits and a day of that month.\<close>

definition days_in_month :: "nat \<Rightarrow> nat \<Rightarrow> nat" where
  "days_in_month y m =
     (if m = 2 then (if y mod 4 = 0 \<and> (y mod 100 \<noteq> 0 \<or> y mod 400 = 0) then 29 else 28)
      else if m \<in> {4, 6, 9, 11} then 30 else 31)"

definition isDate :: "string \<Rightarrow> bool" where
  "isDate s \<longleftrightarrow>
     length s = 10 \<and> s ! 4 = CHR ''-'' \<and> s ! 7 = CHR ''-'' \<and>
     list_all is_digit (take 4 s @ take 2 (drop 5 s) @ drop 8 s) \<and>
     (case (atoi (take 4 s), atoi (take 2 (drop 5 s)), atoi (drop 8 s)) of
        (Some y, Some m, Some d) \<Rightarrow> 1 \<le> m \<and> m \<le> 12 \<and> 1 \<le> d \<and> d \<le> days_in_month y m
      | _ \<Rightarrow> False)"

definition knownNetwork :: "registry \<Rightarrow> string \<Rightarrow> bool" where
  "knownNetwork reg name = (case Get reg name of Inl _ \<Rightarrow> False | Inr _ \<Rightarrow> True)"

type_synonym url_parser = "string \<Rightarrow> (string \<times> string) option"

definition httpURL :: "url_parser \<Rightarrow> string \<Rightarrow> bool" where
  "httpURL parse s =
     (case parse s of
        None \<Rightarrow> False
      | Some (scheme, host) \<Rightarrow> (scheme = ''http'' \<or> scheme = ''https'') \<and> host \<noteq> [])"

definition release_case :: "registry \<Rightarrow> url_parser \<Rightarrow> string list \<Rightarrow> ClientRelease \<Rightarrow> tableError list" where
  "release_case reg parse seen r =
     (let key = releaseKey r in
      if cr_Network r = [] \<or> cr_Fork r = [] then [MissingNetworkOrFork key]
      else if cr_Released r \<noteq> [] \<and> \<not> isDate (cr_Released r) then [BadReleased key (cr_Released r)]
      else if \<not> knownNetwork reg (cr_Network r) then [UnknownReleaseNetwork key (cr_Network r)]
      else if cr_URL r \<noteq> [] \<and> \<not> httpURL parse (cr_URL r) then [BadURL key (cr_URL r)]
      else if cr_LatestURL r \<noteq> [] \<and> \<not> httpURL parse (cr_LatestURL r) then [BadLatestURL key (cr_LatestURL r)]
      else if cr_Latest r \<noteq> [] \<and> ReleaseStatus (cr_MinVersions r) (cr_Latest r) \<noteq> ReleaseMeets
      then [LatestNotMeeting key (cr_Latest r)]
      else if cr_Layer r \<noteq> ''el'' \<and> cr_Layer r \<noteq> ''cl'' then [BadLayer key (cr_Layer r)]
      else if Canonical (cr_Layer r) (cr_Client r) \<noteq> cr_Client r \<or> \<not> Recognized (cr_Layer r) (cr_Client r)
      then [NotCanonicalClient key (cr_Client r)]
      else if key \<in> set seen then [DuplicateEntry key]
      else if (cr_MinVersions r \<noteq> [] \<or> cr_Prerelease r \<noteq> []) \<and> cr_ForkTime r = 0 then [MissingForkTime key]
      else [])"

definition release_versions :: "ClientRelease \<Rightarrow> tableError list" where
  "release_versions r =
     (let key = releaseKey r in
      map (BadMinVersion key)
        (filter (\<lambda>v. semverCore v = None \<or> devBuildToken (versionSuffix v)) (cr_MinVersions r)) @
      map (BadUnscheduledIn key) (filter (\<lambda>v. semverCore v = None) (cr_UnscheduledIn r)) @
      (if cr_UnscheduledIn r \<noteq> [] \<and> cr_MinVersions r = [] \<and> cr_Prerelease r = []
       then [UnscheduledWithoutSchedule key] else []))"

fun validate_releases :: "registry \<Rightarrow> url_parser \<Rightarrow> string list \<Rightarrow> ClientRelease list \<Rightarrow> tableError list" where
  "validate_releases reg parse seen [] = []"
| "validate_releases reg parse seen (r # rs) =
     release_case reg parse seen r @ release_versions r @
     validate_releases reg parse (releaseKey r # seen) rs"

definition Table_Validate :: "registry \<Rightarrow> url_parser \<Rightarrow> ClientReleaseTable \<Rightarrow> tableError list" where
  "Table_Validate reg parse t =
     (if crt_Updated t \<noteq> [] \<and> \<not> isDate (crt_Updated t) then [BadUpdated (crt_Updated t)] else []) @
     validate_releases reg parse [] (crt_Releases t)"

definition ClientReleasesAt :: "forkFile \<Rightarrow> string \<Rightarrow> ForkTarget \<Rightarrow> string \<times> ClientRelease list" where
  "ClientReleasesAt ff network target =
     (crt_Updated (clientReleases ff),
      map (\<lambda>r. if cr_ForkTime r \<noteq> 0
               then let want = (if cr_Layer r = ''el'' \<and> ft_EL target \<noteq> None then elt_Time (the (ft_EL target))
                                else if cr_Layer r = ''cl'' \<and> ft_CL target \<noteq> None
                                then word_of_int (Unix64 (clt_Time (the (ft_CL target))))
                                else 0)
                    in r\<lparr>cr_Outdated := (cr_ForkTime r \<noteq> want)\<rparr>
               else r)
        (filter (\<lambda>r. cr_Network r = network \<and> strings_EqualFold (cr_Fork r) (ft_Name target))
          (crt_Releases (clientReleases ff))))"

section \<open>Notices\<close>

definition maxNoticeTitle :: nat where "maxNoticeTitle = 200"
definition maxNoticeBody :: nat where "maxNoticeBody = 4000"
definition maxNoticeLinks :: nat where "maxNoticeLinks = 8"

definition notice_errors :: "registry \<Rightarrow> url_parser \<Rightarrow> nat \<Rightarrow> Notice \<Rightarrow> tableError list" where
  "notice_errors reg parse i n =
     (if nt_Title n = [] \<or> maxNoticeTitle < length (nt_Title n) then [BadTitle i]
      else if maxNoticeBody < length (nt_Body n) then [BodyTooLong i]
      else if nt_Severity n \<notin> {''info'', ''warning'', ''critical''} then [BadSeverity i (nt_Severity n)]
      else if nt_Network n \<noteq> [] \<and> \<not> knownNetwork reg (nt_Network n) then [UnknownNoticeNetwork i (nt_Network n)]
      else if (case (nt_Starts n, nt_Expires n) of (Some s, Some e) \<Rightarrow> \<not> s < e | _ \<Rightarrow> False) then [BadWindow i]
      else if maxNoticeLinks < length (nt_Links n) then [TooManyLinks i]
      else []) @
     map (\<lambda>l. BadLink i (nl_URL l)) (filter (\<lambda>l. nl_Label l = [] \<or> \<not> httpURL parse (nl_URL l)) (nt_Links n))"

definition ValidateNotices :: "registry \<Rightarrow> url_parser \<Rightarrow> Notice list \<Rightarrow> tableError list" where
  "ValidateNotices reg parse ns = concat (map (\<lambda>(i, n). notice_errors reg parse (Suc i) n) (enumerate 0 ns))"

definition NoticesAt :: "forkFile \<Rightarrow> string \<Rightarrow> gotime \<Rightarrow> Notice list" where
  "NoticesAt ff network at =
     filter (\<lambda>n. (nt_Network n = [] \<or> nt_Network n = network) \<and>
       (case nt_Starts n of None \<Rightarrow> True | Some s \<Rightarrow> \<not> at < s) \<and>
       (case nt_Expires n of None \<Rightarrow> True | Some e \<Rightarrow> at < e)) (notices ff)"

section \<open>Updates\<close>

definition SetClientReleases ::
  "registry \<Rightarrow> url_parser \<Rightarrow> ClientReleaseTable \<Rightarrow> forkFile \<Rightarrow> tableError list \<times> forkFile" where
  "SetClientReleases reg parse t ff =
     (case Table_Validate reg parse t of
        [] \<Rightarrow> ([], ff\<lparr>clientReleases := t, clientReleasesGen := clientReleasesGen ff + 1\<rparr>)
      | errs \<Rightarrow> (errs, ff))"

definition SetForkFileData ::
  "registry \<Rightarrow> url_parser \<Rightarrow> ClientReleaseTable \<Rightarrow> Notice list \<Rightarrow> forkFile \<Rightarrow> tableError list \<times> forkFile" where
  "SetForkFileData reg parse t n ff =
     (case Table_Validate reg parse t @ ValidateNotices reg parse n of
        [] \<Rightarrow> ([], ff\<lparr>clientReleases := t, notices := n, clientReleasesGen := clientReleasesGen ff + 1\<rparr>)
      | errs \<Rightarrow> (errs, ff))"

section \<open>What the labels mean\<close>

lemma semverLess_less [simp]: "semverLess v w \<longleftrightarrow> v < w"
  by (cases v; cases w) (auto simp: less_prod_def')

text \<open>The floors that can be read as versions.\<close>

definition floor_set :: "string list \<Rightarrow> semver set" where
  "floor_set fs = {v. Some v \<in> semverCore ` set fs}"

lemma floor_set_Cons:
  "floor_set (f # fs) = (case semverCore f of None \<Rightarrow> floor_set fs | Some v \<Rightarrow> insert v (floor_set fs))"
  by (auto simp: floor_set_def image_iff split: option.splits)

lemma finite_floor_set [simp]: "finite (floor_set fs)"
  by (induction fs) (auto simp: floor_set_Cons floor_set_def [of "[]"] split: option.splits)

lemma status_loop_spec:
  "status_loop got highest fs =
     (if \<exists>f\<in>floor_set fs. same_line f got \<and> f \<le> got then ReleaseMeets
      else if floor_set fs \<union> set_option highest = {} then ReleaseUnparsable
      else if Max (floor_set fs \<union> set_option highest) \<le> got then ReleaseMeets else ReleaseBelow)"
proof (induction fs arbitrary: highest)
  case Nil
  then show ?case by (cases highest) (auto simp: floor_set_def)
next
  case (Cons f fs)
  show ?case
  proof (cases "semverCore f")
    case None
    then show ?thesis by (simp add: Cons floor_set_Cons)
  next
    case (Some v)
    define h where "h = (if (case highest of None \<Rightarrow> True | Some h \<Rightarrow> h < v) then v else the highest)"
    have h: "h = Max (insert v (set_option highest))"
      by (cases highest) (auto simp: h_def max_def)
    have "Max (floor_set fs \<union> {h}) = Max (insert v (floor_set fs) \<union> set_option highest)"
      unfolding h by (cases highest; cases "floor_set fs = {}") (simp_all add: Max.union Un_ac max.assoc max.left_commute insert_commute)
    moreover have "(if (case highest of None \<Rightarrow> True | Some h \<Rightarrow> semverLess h v) then Some v else highest) = Some h"
      by (cases highest) (auto simp: h_def)
    ultimately have "status_loop got highest (f # fs) =
        (if same_line v got \<and> v \<le> got then ReleaseMeets
         else if \<exists>f\<in>floor_set fs. same_line f got \<and> f \<le> got then ReleaseMeets
         else if Max (insert v (floor_set fs) \<union> set_option highest) \<le> got then ReleaseMeets else ReleaseBelow)"
      using Some by (simp add: Cons not_less del: Max_le_iff Max_insert)
    then show ?thesis using Some by (simp add: floor_set_Cons del: Max_le_iff Max_insert)
  qed
qed

text \<open>
  C29: the release label of any version against any release table, on every branch. A version that
  cannot be read is unparsable and one with a development token in its suffix is a development build,
  whatever the table; any other is unparsable when no floor can be read, meets the table exactly
  when it is at or above some floor of its own release line or at or above every floor, and is below
  it otherwise. The order and the repetition of the floors do not matter.
\<close>

theorem release_status_exact:
  "ReleaseStatus floors version =
    (case semverCore version of
       None \<Rightarrow> ReleaseUnparsable
     | Some got \<Rightarrow>
         if devBuildToken (versionSuffix version) then ReleaseDevBuild
         else if floor_set floors = {} then ReleaseUnparsable
         else if (\<exists>f\<in>floor_set floors. same_line f got \<and> f \<le> got) \<or> (\<forall>f\<in>floor_set floors. f \<le> got)
         then ReleaseMeets else ReleaseBelow)"
  by (auto simp: ReleaseStatus_def status_loop_spec split: option.split)

theorem release_status_exact_witness:
  "ReleaseStatus [''2.0.0'', ''1.39.4''] ''v1.39.5-stable-abc'' = ReleaseMeets \<and>
   ReleaseStatus [''2.0.0'', ''1.39.4''] ''1.40.0'' = ReleaseBelow \<and>
   ReleaseStatus [''2.0.0'', ''1.39.4''] ''master'' = ReleaseUnparsable \<and>
   ReleaseStatus [''2.0.0'', ''1.39.4''] ''v1.39.5-unstable-abc'' = ReleaseDevBuild"
proof -
  have f: "floor_set [''2.0.0'', ''1.39.4''] = {(2, 0, 0), (1, 39, 4)}"
  proof -
    have "semverCore ''2.0.0'' = Some (2, 0, 0)" "semverCore ''1.39.4'' = Some (1, 39, 4)" by code_simp+
    then show ?thesis by (auto simp: floor_set_def)
  qed
  have v: "semverCore ''v1.39.5-stable-abc'' = Some (1, 39, 5)" "\<not> devBuildToken (versionSuffix ''v1.39.5-stable-abc'')"
    "semverCore ''1.40.0'' = Some (1, 40, 0)" "\<not> devBuildToken (versionSuffix ''1.40.0'')"
    "semverCore ''master'' = None" "semverCore ''v1.39.5-unstable-abc'' = Some (1, 39, 5)"
    "devBuildToken (versionSuffix ''v1.39.5-unstable-abc'')" by code_simp+
  show ?thesis unfolding release_status_exact by (simp add: f v same_line_def)
qed

text \<open>
  An operator file is all or nothing: a table or notice that fails validation changes neither
  the table, nor the notices, nor the generation; a file that passes replaces both and advances the
  generation by one.
\<close>

theorem fork_file_atomic:
  shows "SetForkFileData reg parse t ns ff =
    (if Table_Validate reg parse t = [] \<and> ValidateNotices reg parse ns = []
     then ([], \<lparr>clientReleases = t, notices = ns, clientReleasesGen = clientReleasesGen ff + 1\<rparr>)
     else (Table_Validate reg parse t @ ValidateNotices reg parse ns, ff))"
  by (cases "Table_Validate reg parse t @ ValidateNotices reg parse ns") (auto simp: SetForkFileData_def)

end
