(* ===== verification/Distinct.thy ===== *)
theory Distinct
  imports Hashes
begin

text \<open>
  The rolling distinct counter, \<^verbatim>\<open>internal/distinct/hll.go\<close>: hourly HyperLogLog registers per
  series, kept for 169 hours. A \<^verbatim>\<open>[]byte\<close> of registers is a byte list; the state's mutex makes
  every operation one critical section. The gzip and JSON codecs are arguments of \<^verbatim>\<open>Marshal\<close> and
  \<^verbatim>\<open>Restore\<close>; the floating-point estimate of merged registers is an argument of \<^verbatim>\<open>Estimates\<close>.
\<close>

section \<open>Data\<close>

definition DefaultPrecision :: nat where "DefaultPrecision = 12"
definition RetainedHours :: int where "RetainedHours = 169"
definition WindowHours :: int where "WindowHours = 168"
definition maxStateBytes :: nat where "maxStateBytes = 64 * 1048576"

record Bucket =
  bk_Hour :: int
  bk_Registers :: "byte list"
  bk_Sightings :: u64

record Series =
  se_Buckets :: "Bucket list"
  se_Seen :: u64

record DState =
  st_Version :: int
  st_Methodology :: string
  st_Precision :: nat
  st_Series :: "(string, Series) gomap"

text \<open>What decoding yields: the map may be missing and an entry may be null.\<close>

record rawState =
  raw_Version :: int
  raw_Methodology :: string
  raw_Precision :: nat
  raw_Series :: "(string, Series option) gomap option"

record Estimate =
  es_Key :: string
  es_Distinct :: u64
  es_Sightings :: u64
  es_WindowStart :: gotime
  es_WindowEnd :: gotime

datatype distinctError =
    EmptyState | NotGzip | GzipError | SizeLimit | JsonError | VersionMismatch | InvalidState
  | RegisterCount | RegisterValue | BucketOrder

section \<open>Construction\<close>

definition New :: "string \<Rightarrow> nat \<Rightarrow> DState" where
  "New methodology precision =
     \<lparr>st_Version = 1, st_Methodology = methodology,
      st_Precision = (if precision < 4 \<or> 18 < precision then DefaultPrecision else precision),
      st_Series = []\<rparr>"

fun check_buckets :: "nat \<Rightarrow> int option \<Rightarrow> Bucket list \<Rightarrow> distinctError option" where
  "check_buckets p prev [] = None"
| "check_buckets p prev (b # bs) =
     (if length (bk_Registers b) \<noteq> 2 ^ p then Some RegisterCount
      else if \<exists>r\<in>set (bk_Registers b). 64 - p + 1 < unat r then Some RegisterValue
      else if (case prev of None \<Rightarrow> False | Some h \<Rightarrow> bk_Hour b \<le> h) then Some BucketOrder
      else check_buckets p (Some (bk_Hour b)) bs)"

fun check_series :: "nat \<Rightarrow> (string, Series option) gomap \<Rightarrow> distinctError + (string, Series) gomap" where
  "check_series p [] = Inr []"
| "check_series p ((key, s) # rest) =
     (case s of
        None \<Rightarrow> Inl InvalidState
      | Some se \<Rightarrow>
          if key = [] \<or> RetainedHours < int (length (se_Buckets se)) then Inl InvalidState
          else (case check_buckets p None (se_Buckets se) of
                  Some e \<Rightarrow> Inl e
                | None \<Rightarrow> (case check_series p rest of Inl e \<Rightarrow> Inl e | Inr m \<Rightarrow> Inr ((key, se) # m))))"

definition Restore ::
  "(byte list \<Rightarrow> byte list option) \<Rightarrow> (byte list \<Rightarrow> rawState option) \<Rightarrow> byte list \<Rightarrow> string \<Rightarrow> nat \<Rightarrow>
    distinctError + DState" where
  "Restore gunzip decode data methodology precision =
     (if data = [] then Inl EmptyState
      else if length data < 2 \<or> data ! 0 \<noteq> 0x1f \<or> data ! 1 \<noteq> 0x8b then Inl NotGzip
      else case gunzip data of
        None \<Rightarrow> Inl GzipError
      | Some decoded \<Rightarrow>
          if maxStateBytes < length decoded then Inl SizeLimit
          else (case decode decoded of
             None \<Rightarrow> Inl JsonError
           | Some st \<Rightarrow>
               if raw_Version st \<noteq> 1 \<or> raw_Methodology st \<noteq> methodology \<or> raw_Precision st \<noteq> precision
               then Inl VersionMismatch
               else (case check_series (raw_Precision st) (case raw_Series st of None \<Rightarrow> [] | Some m \<Rightarrow> m) of
                  Inl e \<Rightarrow> Inl e
                | Inr m \<Rightarrow> Inr \<lparr>st_Version = raw_Version st, st_Methodology = raw_Methodology st,
                                st_Precision = raw_Precision st, st_Series = m\<rparr>)))"

definition copy_bucket :: "Bucket \<Rightarrow> Bucket" where
  "copy_bucket b = \<lparr>bk_Hour = bk_Hour b, bk_Registers = bk_Registers b, bk_Sightings = bk_Sightings b\<rparr>"

text \<open>\<^verbatim>\<open>Marshal\<close> has an error result that its calls cannot produce: the compression level is a valid
  constant, the buffer it writes to takes every write, and the state holds only numbers, text and bytes.
  It is therefore a function to bytes here, and its caller has no branch for the error.\<close>

definition Marshal :: "(byte list \<Rightarrow> byte list) \<Rightarrow> (DState \<Rightarrow> byte list) \<Rightarrow> DState \<Rightarrow> byte list" where
  "Marshal gzip encode s =
     gzip (encode \<lparr>st_Version = st_Version s, st_Methodology = st_Methodology s, st_Precision = st_Precision s,
       st_Series = map (\<lambda>(k, se). (k, \<lparr>se_Buckets = map copy_bucket (se_Buckets se), se_Seen = se_Seen se\<rparr>))
         (st_Series s)\<rparr>)"

section \<open>Hours and slots\<close>

text \<open>Integer division of Go truncates towards zero.\<close>

definition hourNumber :: "gotime \<Rightarrow> int" where
  "hourNumber at = time_Unix at sdiv 3600"

text \<open>The loop shifts until the top bit is set; a non-zero word needs at most 63 shifts.\<close>

fun rank_loop :: "nat \<Rightarrow> nat \<Rightarrow> u64 \<Rightarrow> nat" where
  "rank_loop 0 rank r = rank"
| "rank_loop (Suc k) rank r = (if bit r 63 then rank else rank_loop k (Suc rank) (push_bit 1 r))"

definition slot :: "DState \<Rightarrow> byte list \<Rightarrow> nat \<times> byte" where
  "slot s identity =
     (let p = st_Precision s; h = BigEndian_Uint64 (take 8 (sha256_Sum256 identity));
          remaining = push_bit p h
      in (unat (drop_bit (64 - p) h),
          if remaining = 0 then of_nat (64 - p + 1) else of_nat (rank_loop 64 1 remaining)))"

text \<open>\<^verbatim>\<open>sort.Search\<close>: binary search for the least index whose predicate holds.\<close>

function sort_Search :: "(nat \<Rightarrow> bool) \<Rightarrow> nat \<Rightarrow> nat \<Rightarrow> nat" where
  "sort_Search f i j =
     (if i < j
      then let h = (i + j) div 2 in if \<not> f h then sort_Search f (h + 1) j else sort_Search f i h
      else i)"
  by auto
termination by (relation "measure (\<lambda>(f, i, j). j - i)") auto

declare sort_Search.simps [simp del]

definition search_hour :: "Bucket list \<Rightarrow> int \<Rightarrow> nat" where
  "search_hour bs h = sort_Search (\<lambda>i. h \<le> bk_Hour (bs ! i)) 0 (length bs)"

section \<open>Operations\<close>

definition pruneLocked :: "int \<Rightarrow> Series \<Rightarrow> Series" where
  "pruneLocked currentHour se =
     (let i = search_hour (se_Buckets se) (currentHour - (RetainedHours - 1)) in
      if 0 < i then se\<lparr>se_Buckets := drop i (se_Buckets se)\<rparr> else se)"

definition bump :: "nat \<Rightarrow> byte \<Rightarrow> Bucket \<Rightarrow> Bucket" where
  "bump index rank b =
     b\<lparr>bk_Registers := (if bk_Registers b ! index < rank then (bk_Registers b)[index := rank] else bk_Registers b),
       bk_Sightings := bk_Sightings b + 1\<rparr>"

definition observe_series :: "nat \<Rightarrow> int \<Rightarrow> nat \<Rightarrow> byte \<Rightarrow> Series \<Rightarrow> Series" where
  "observe_series p h index rank se0 =
     (let se = pruneLocked h se0; bs = se_Buckets se; idx = search_hour bs h;
          bs' = (if idx = length bs \<or> bk_Hour (bs ! idx) \<noteq> h
                 then take idx bs @ \<lparr>bk_Hour = h, bk_Registers = replicate (2 ^ p) 0, bk_Sightings = 0\<rparr> # drop idx bs
                 else bs)
      in se\<lparr>se_Buckets := bs'[idx := bump index rank (bs' ! idx)], se_Seen := se_Seen se + 1\<rparr>)"

definition observe_key :: "int \<Rightarrow> nat \<Rightarrow> byte \<Rightarrow> string \<Rightarrow> DState \<Rightarrow> DState" where
  "observe_key h index rank key s =
     (if key = [] then s
      else s\<lparr>st_Series := AList.update key
             (observe_series (st_Precision s) h index rank
                (case map_of (st_Series s) key of None \<Rightarrow> \<lparr>se_Buckets = [], se_Seen = 0\<rparr> | Some se \<Rightarrow> se))
             (st_Series s)\<rparr>)"

definition Observe :: "byte list \<Rightarrow> gotime \<Rightarrow> string list \<Rightarrow> DState \<Rightarrow> DState" where
  "Observe identity at keys s =
     (if identity = [] then s
      else case slot s identity of (index, rank) \<Rightarrow> fold (observe_key (hourNumber at) index rank) keys s)"

definition merge_registers :: "byte list \<Rightarrow> byte list \<Rightarrow> byte list" where
  "merge_registers acc rs = map2 (\<lambda>a v. if a < v then v else a) acc rs"

definition window_buckets :: "int \<Rightarrow> Bucket list \<Rightarrow> Bucket list" where
  "window_buckets currentHour bs =
     filter (\<lambda>b. \<not> (bk_Hour b < currentHour - (WindowHours - 1) \<or> currentHour < bk_Hour b)) bs"

definition Estimates :: "(byte list \<Rightarrow> u64) \<Rightarrow> gotime \<Rightarrow> DState \<Rightarrow> Estimate list \<times> DState" where
  "Estimates estimate at s =
     (let h = hourNumber at;
          s' = s\<lparr>st_Series := map (map_prod (\<lambda>k. k) (pruneLocked h)) (st_Series s)\<rparr>
      in (map (\<lambda>key. case map_of (st_Series s') key of
                 Some se \<Rightarrow>
                   (let bs = window_buckets h (se_Buckets se) in
                    \<lparr>es_Key = key,
                     es_Distinct = estimate (foldl merge_registers (replicate (2 ^ st_Precision s) 0) (map bk_Registers bs)),
                     es_Sightings = foldl (+) 0 (map bk_Sightings bs),
                     es_WindowStart = unix_time ((h - (WindowHours - 1)) * 3600),
                     es_WindowEnd = unix_time ((h + 1) * 3600)\<rparr>))
            (sort (map fst (st_Series s))), s'))"

end
