(* ===== verification/DistinctProps.thy ===== *)
theory DistinctProps
  imports Distinct
begin

text \<open>
  What the distinct counter promises: a slot is inside the register array and its rank inside the
  range a restore accepts, the buckets of a series stay ordered by hour and span at most 169 hours
  as long as the clock does not step back, and a state written that way is restored unchanged.
\<close>

section \<open>Slots\<close>

lemma rank_loop_bound:
  "bit r j \<Longrightarrow> j \<le> 63 \<Longrightarrow> 63 - j < k \<Longrightarrow> rank_loop k rank r \<le> rank + (63 - j)"
proof (induction k arbitrary: rank r j)
  case (Suc k)
  show ?case
  proof (cases "bit r 63")
    case False
    with Suc.prems have j: "j < 63" by (cases "j = 63") auto
    then have "bit (push_bit 1 r) (Suc j)" unfolding bit_push_bit_iff using Suc.prems(1) by simp
    then have "rank_loop k (Suc rank) (push_bit 1 r) \<le> Suc rank + (63 - Suc j)"
      using j Suc.prems by (intro Suc.IH) simp_all
    then show ?thesis using False j by simp
  qed simp
qed simp

definition precision_ok :: "nat \<Rightarrow> bool" where
  "precision_ok p \<longleftrightarrow> 4 \<le> p \<and> p \<le> 18"

lemma slot_bounds_lemma:
  assumes "precision_ok (st_Precision s)" and "slot s identity = (index, rank)"
  shows "index < 2 ^ st_Precision s" and "unat rank \<le> 64 - st_Precision s + 1" and "0 < unat rank"
proof -
  let ?p = "st_Precision s" and ?h = "BigEndian_Uint64 (take 8 (sha256_Sum256 identity))"
  have p: "4 \<le> ?p" "?p \<le> 18" using assms(1) by (simp_all add: precision_ok_def)
  have i: "index = unat (drop_bit (64 - ?p) ?h)"
    and r: "rank = (if push_bit ?p ?h = 0 then of_nat (64 - ?p + 1) else of_nat (rank_loop 64 1 (push_bit ?p ?h)))"
    using assms(2) by (simp_all add: slot_def Let_def)
  have "unat ?h < 2 ^ 64" using unsigned_less [of ?h, where ?'a = nat] by simp
  then have "unat ?h < 2 ^ (64 - ?p) * 2 ^ ?p" using p by (simp flip: power_add)
  moreover have "index = unat ?h div 2 ^ (64 - ?p)"
    unfolding i unat_drop_bit_eq by (simp add: drop_bit_eq_div)
  ultimately show "index < 2 ^ ?p" by (simp add: less_mult_imp_div_less mult.commute)
  have small: "unat (of_nat n :: byte) = n" if "n \<le> 64" for n using that by (simp add: unat_of_nat)
  have ge: "rank0 \<le> rank_loop k rank0 w" for k rank0 w
    by (induction k arbitrary: rank0 w) (auto intro: Suc_leD)
  have "unat rank \<le> 64 - ?p + 1 \<and> 0 < unat rank"
  proof (cases "push_bit ?p ?h = 0")
    case True
    have "64 - ?p + 1 \<le> 64" using p by linarith
    then have "unat rank = 64 - ?p + 1" unfolding r if_P [OF True] by (rule small)
    then show ?thesis by simp
  next
    case False
    then obtain j where j: "bit (push_bit ?p ?h) j" by (auto simp: bit_eq_iff)
    then have jp: "?p \<le> j" "j < 64" unfolding bit_push_bit_iff by simp_all
    then have "rank_loop 64 1 (push_bit ?p ?h) \<le> 1 + (63 - j)" using j by (intro rank_loop_bound) simp_all
    then show ?thesis using False jp p ge [of 1 64 "push_bit ?p ?h"] by (simp add: r small)
  qed
  then show "unat rank \<le> 64 - ?p + 1" "0 < unat rank" by simp_all
qed

section \<open>Searching ordered buckets\<close>

definition least_index :: "(nat \<Rightarrow> bool) \<Rightarrow> nat \<Rightarrow> nat \<Rightarrow> nat \<Rightarrow> bool" where
  "least_index f i j r \<longleftrightarrow> i \<le> r \<and> r \<le> j \<and> (\<forall>k. i \<le> k \<longrightarrow> k < r \<longrightarrow> \<not> f k) \<and> (r < j \<longrightarrow> f r)"

lemma sort_Search_least:
  assumes "i \<le> j" and "\<And>a b. i \<le> a \<Longrightarrow> a \<le> b \<Longrightarrow> b < j \<Longrightarrow> f a \<Longrightarrow> f b"
  shows "least_index f i j (sort_Search f i j)"
  using assms
proof (induction "j - i" arbitrary: i j rule: less_induct)
  case less
  define h where "h = (i + j) div 2"
  show ?case
  proof (cases "i < j")
    case False
    then show ?thesis using less.prems(1) by (simp add: sort_Search.simps least_index_def)
  next
    case True
    then have h: "i \<le> h" "h < j" by (auto simp: h_def)
    show ?thesis
    proof (cases "f h")
      case fh: True
      have "least_index f i h (sort_Search f i h)"
        using h by (intro less.hyps) (auto intro: less.prems(2))
      then have "least_index f i j (sort_Search f i h)"
        using h fh by (cases "sort_Search f i h = h") (auto simp: least_index_def)
      then show ?thesis using True fh by (simp add: sort_Search.simps [of f i j] h_def [symmetric])
    next
      case fh: False
      have mono: "f b" if "h + 1 \<le> a" "a \<le> b" "b < j" "f a" for a b
        using less.prems(2) [of a b] that h by simp
      have "least_index f (h + 1) j (sort_Search f (h + 1) j)"
        by (rule less.hyps [OF _ _ mono]) (use h in simp_all)
      moreover have "\<not> f k" if "i \<le> k" "k \<le> h" for k using less.prems(2) [OF that h(2)] fh by blast
      ultimately have "least_index f i j (sort_Search f (h + 1) j)"
        using h unfolding least_index_def by (metis Suc_eq_plus1 Suc_leD Suc_le_eq le_trans not_less)
      then show ?thesis using True fh by (simp add: sort_Search.simps [of f i j] h_def [symmetric])
    qed
  qed
qed

lemma least_index_unique: "least_index f i j r \<Longrightarrow> least_index f i j l \<Longrightarrow> r = l"
  unfolding least_index_def by (metis le_less_trans less_le_trans nat_neq_iff)

abbreviation hours_ordered :: "Bucket list \<Rightarrow> bool" where
  "hours_ordered bs \<equiv> sorted_wrt (<) (map bk_Hour bs)"

lemma search_hour_ordered:
  assumes "hours_ordered bs"
  shows "search_hour bs h = length (takeWhile (\<lambda>b. bk_Hour b < h) bs)"
proof -
  let ?f = "\<lambda>i. h \<le> bk_Hour (bs ! i)" and ?tw = "takeWhile (\<lambda>b. bk_Hour b < h) bs"
  have mono: "?f b" if "a \<le> b" "b < length bs" "?f a" for a b
    using that sorted_wrt_nth_less [OF assms, of a b] by (cases "a = b") simp_all
  have "least_index ?f 0 (length bs) (search_hour bs h)"
    unfolding search_hour_def using mono by (intro sort_Search_least) simp_all
  moreover have "least_index ?f 0 (length bs) (length ?tw)"
  proof -
    have "\<not> ?f k" if "k < length ?tw" for k
    proof -
      have "?tw ! k \<in> set ?tw" using that by simp
      then have "bk_Hour (?tw ! k) < h" using set_takeWhileD by fastforce
      then show ?thesis using that by (simp add: takeWhile_nth)
    qed
    moreover have "?f (length ?tw)" if "length ?tw < length bs"
      using nth_length_takeWhile [OF that] by simp
    ultimately show ?thesis by (simp add: least_index_def length_takeWhile_le)
  qed
  ultimately show ?thesis by (rule least_index_unique)
qed

lemma search_hour_split:
  assumes "hours_ordered bs"
  shows "take (search_hour bs h) bs = takeWhile (\<lambda>b. bk_Hour b < h) bs"
    and "drop (search_hour bs h) bs = dropWhile (\<lambda>b. bk_Hour b < h) bs"
  by (simp_all add: search_hour_ordered [OF assms] dropWhile_eq_drop flip: takeWhile_eq_take)

lemma dropWhile_ordered:
  "hours_ordered bs \<Longrightarrow> b \<in> set (dropWhile (\<lambda>b. bk_Hour b < h) bs) \<longleftrightarrow> b \<in> set bs \<and> h \<le> bk_Hour b"
  by (induction bs) force+

lemma ordered_dropWhile: "hours_ordered bs \<Longrightarrow> hours_ordered (dropWhile (\<lambda>b. bk_Hour b < h) bs)"
  by (induction bs) auto

lemma pruneLocked_ordered:
  assumes "hours_ordered (se_Buckets se)"
  shows "se_Buckets (pruneLocked h se) = dropWhile (\<lambda>b. bk_Hour b < h - 168) (se_Buckets se)"
  using search_hour_split(2) [OF assms, of "h - 168"]
  by (cases "search_hour (se_Buckets se) (h - 168)") (simp_all add: pruneLocked_def Let_def RetainedHours_def)

section \<open>The invariant of a series\<close>

definition bucket_ok :: "nat \<Rightarrow> Bucket \<Rightarrow> bool" where
  "bucket_ok p b \<longleftrightarrow> length (bk_Registers b) = 2 ^ p \<and> (\<forall>r\<in>set (bk_Registers b). unat r \<le> 64 - p + 1)"

definition series_ok :: "nat \<Rightarrow> Series \<Rightarrow> bool" where
  "series_ok p se \<longleftrightarrow> hours_ordered (se_Buckets se) \<and> (\<forall>b\<in>set (se_Buckets se). bucket_ok p b)"

text \<open>All hours lie in the 169 hours that end with the newest one, which is at most \<open>h\<close>.\<close>

definition series_recent :: "int \<Rightarrow> Series \<Rightarrow> bool" where
  "series_recent h se \<longleftrightarrow> (\<exists>last\<le>h. \<forall>b\<in>set (se_Buckets se). last - 168 \<le> bk_Hour b \<and> bk_Hour b \<le> last)"

lemma bump_ok: "bucket_ok p b \<Longrightarrow> index < 2 ^ p \<Longrightarrow> unat rank \<le> 64 - p + 1 \<Longrightarrow> bucket_ok p (bump index rank b)"
  by (auto simp: bucket_ok_def bump_def dest: set_update_subset_insert [THEN subsetD])

lemma bump_hour [simp]: "bk_Hour (bump index rank b) = bk_Hour b"
  by (simp add: bump_def)

definition fresh_bucket :: "nat \<Rightarrow> int \<Rightarrow> Bucket" where
  "fresh_bucket p h = \<lparr>bk_Hour = h, bk_Registers = replicate (2 ^ p) 0, bk_Sightings = 0\<rparr>"

lemma fresh_bucket_ok [simp]: "bucket_ok p (fresh_bucket p h)" "bk_Hour (fresh_bucket p h) = h"
  by (simp_all add: bucket_ok_def fresh_bucket_def)

lemma dropWhile_after:
  "dropWhile (\<lambda>b. bk_Hour b \<le> h) bs = dropWhile (\<lambda>b. bk_Hour b < h + 1) bs"
  by (rule dropWhile_cong) auto

text \<open>An observation replaces or inserts the bucket of its hour and keeps the others.\<close>

lemma observe_series_buckets:
  fixes h :: int
  assumes "hours_ordered (se_Buckets se)"
  defines "bs \<equiv> dropWhile (\<lambda>b. bk_Hour b < h - 168) (se_Buckets se)"
  shows "\<exists>old. (old \<in> set bs \<and> bk_Hour old = h \<or> old = fresh_bucket p h) \<and>
    se_Buckets (observe_series p h index rank se) =
      takeWhile (\<lambda>b. bk_Hour b < h) bs @ bump index rank old # dropWhile (\<lambda>b. bk_Hour b \<le> h) bs"
proof -
  have ord: "hours_ordered bs" unfolding bs_def by (rule ordered_dropWhile [OF assms(1)])
  define tw dw where "tw = takeWhile (\<lambda>b. bk_Hour b < h) bs" and "dw = dropWhile (\<lambda>b. bk_Hour b < h) bs"
  have split: "bs = tw @ dw" by (simp add: tw_def dw_def)
  have idx: "search_hour bs h = length tw" by (simp add: search_hour_ordered [OF ord] tw_def)
  have pr: "se_Buckets (pruneLocked h se) = bs" by (simp add: pruneLocked_ordered [OF assms(1)] bs_def)
  have le: "dropWhile (\<lambda>b. bk_Hour b \<le> h) bs = dropWhile (\<lambda>b. bk_Hour b \<le> h) dw"
    unfolding split by (rule dropWhile_append2) (auto simp: tw_def dest: set_takeWhileD)
  have dw_ge: "h \<le> bk_Hour b" if "b \<in> set dw" for b
    using that dropWhile_ordered [OF ord, of b h] by (simp add: dw_def)
  have dw_ord: "hours_ordered dw" unfolding dw_def by (rule ordered_dropWhile [OF ord])
  have res: "se_Buckets (observe_series p h index rank se) =
      (let bs' = (if length tw = length bs \<or> bk_Hour (bs ! length tw) \<noteq> h
                  then take (length tw) bs @ fresh_bucket p h # drop (length tw) bs else bs)
       in bs'[length tw := bump index rank (bs' ! length tw)])"
    by (simp add: observe_series_def Let_def pr idx fresh_bucket_def)
  show ?thesis
  proof (cases "dw \<noteq> [] \<and> bk_Hour (hd dw) = h")
    case True
    then obtain b r where dw: "dw = b # r" and b: "bk_Hour b = h" by (cases dw) auto
    have "dropWhile (\<lambda>b. bk_Hour b \<le> h) dw = r" using dw_ord dw b by (cases r) auto
    moreover have "se_Buckets (observe_series p h index rank se) = tw @ bump index rank b # r"
      unfolding res using split dw b by (simp add: nth_append list_update_append)
    moreover have "b \<in> set bs" using split dw by simp
    ultimately show ?thesis using b le by (intro exI [of _ b]) (simp add: tw_def)
  next
    case False
    then have "dropWhile (\<lambda>b. bk_Hour b \<le> h) dw = dw" using dw_ge [of "hd dw"] by (cases dw) auto
    moreover have "se_Buckets (observe_series p h index rank se) = tw @ bump index rank (fresh_bucket p h) # dw"
    proof -
      have "length tw = length bs \<or> bk_Hour (bs ! length tw) \<noteq> h"
        using False split by (cases dw) (auto simp: nth_append)
      then show ?thesis
        unfolding res using split by (simp add: nth_append list_update_append)
    qed
    ultimately show ?thesis using le by (intro exI [of _ "fresh_bucket p h"]) (simp add: tw_def)
  qed
qed

lemma observe_series_ok:
  assumes "series_ok p se" and "index < 2 ^ p" and "unat rank \<le> 64 - p + 1"
  shows "series_ok p (observe_series p h index rank se)"
    and "\<forall>b\<in>set (se_Buckets se). bk_Hour b \<le> h \<Longrightarrow> series_recent h (observe_series p h index rank se)"
proof -
  have ord0: "hours_ordered (se_Buckets se)" using assms(1) by (simp add: series_ok_def)
  define bs where "bs = dropWhile (\<lambda>b. bk_Hour b < h - 168) (se_Buckets se)"
  have ord: "hours_ordered bs" unfolding bs_def by (rule ordered_dropWhile [OF ord0])
  have sub: "b \<in> set bs \<longleftrightarrow> b \<in> set (se_Buckets se) \<and> h - 168 \<le> bk_Hour b" for b
    unfolding bs_def by (rule dropWhile_ordered [OF ord0])
  obtain old where old: "old \<in> set bs \<and> bk_Hour old = h \<or> old = fresh_bucket p h"
    and res: "se_Buckets (observe_series p h index rank se) =
      takeWhile (\<lambda>b. bk_Hour b < h) bs @ bump index rank old # dropWhile (\<lambda>b. bk_Hour b \<le> h) bs"
    using observe_series_buckets [OF ord0, of h p index rank] unfolding bs_def [symmetric] by blast
  have lo: "b \<in> set bs \<and> bk_Hour b < h" if "b \<in> set (takeWhile (\<lambda>b. bk_Hour b < h) bs)" for b
    using that by (auto dest: set_takeWhileD)
  have hi: "b \<in> set bs \<and> h < bk_Hour b" if "b \<in> set (dropWhile (\<lambda>b. bk_Hour b \<le> h) bs)" for b
    using that dropWhile_ordered [OF ord, of b "h + 1"] unfolding dropWhile_after by linarith
  have oldh: "bk_Hour old = h" "bucket_ok p old" using old sub assms(1) by (auto simp: series_ok_def)
  have ord_hi: "hours_ordered (dropWhile (\<lambda>b. bk_Hour b \<le> h) bs)"
    using ordered_dropWhile [OF ord, of "h + 1"] unfolding dropWhile_after .
  have ord_lo: "hours_ordered (takeWhile (\<lambda>b. bk_Hour b < h) bs)"
    using ord by (metis map_append sorted_wrt_append takeWhile_dropWhile_id)
  have "hours_ordered (se_Buckets (observe_series p h index rank se))"
  proof -
    have "bk_Hour x < h" if "x \<in> set (takeWhile (\<lambda>b. bk_Hour b < h) bs)" for x using lo [OF that] ..
    moreover have "h < bk_Hour x" if "x \<in> set (dropWhile (\<lambda>b. bk_Hour b \<le> h) bs)" for x using hi [OF that] ..
    ultimately show ?thesis
      unfolding res map_append list.map sorted_wrt_append sorted_wrt.simps
      using ord_lo ord_hi oldh(1) by (fastforce intro: less_trans)
  qed
  moreover have "bucket_ok p b" if b: "b \<in> set (se_Buckets (observe_series p h index rank se))" for b
  proof -
    consider "b \<in> set bs" | "b = bump index rank old" using b lo hi unfolding res by auto
    then show ?thesis
    proof cases
      case 1
      then show ?thesis using sub [of b] assms(1) by (simp add: series_ok_def)
    next
      case 2
      then show ?thesis using bump_ok [OF oldh(2) assms(2,3)] by simp
    qed
  qed
  ultimately show "series_ok p (observe_series p h index rank se)" by (simp add: series_ok_def)
  show "series_recent h (observe_series p h index rank se)" if old_le: "\<forall>b\<in>set (se_Buckets se). bk_Hour b \<le> h"
  proof -
    have "h - 168 \<le> bk_Hour b \<and> bk_Hour b \<le> h" if b: "b \<in> set (se_Buckets (observe_series p h index rank se))" for b
    proof -
      consider "b \<in> set bs" | "b = bump index rank old" using b lo hi unfolding res by auto
      then show ?thesis using sub [of b] old_le oldh(1) by cases simp_all
    qed
    then show ?thesis unfolding series_recent_def by blast
  qed
qed

section \<open>The invariant of a state\<close>

definition dstate_ok :: "int \<Rightarrow> DState \<Rightarrow> bool" where
  "dstate_ok h s \<longleftrightarrow> st_Version s = 1 \<and> precision_ok (st_Precision s) \<and> gomap_ok (st_Series s) \<and>
     (\<forall>(k, se)\<in>set (st_Series s). k \<noteq> [] \<and> series_ok (st_Precision s) se \<and> series_recent h se)"

lemma dstate_ok_New: "dstate_ok h (New m p)"
  by (auto simp: dstate_ok_def New_def precision_ok_def DefaultPrecision_def)

lemma series_recent_mono: "series_recent h se \<Longrightarrow> h \<le> h' \<Longrightarrow> series_recent h' se"
  unfolding series_recent_def by (meson order_trans)

lemma in_set_update: "x \<in> set (AList.update k v m) \<Longrightarrow> x \<in> set m \<or> x = (k, v)"
  by (induction m) (auto split: if_splits)

lemma observe_key_ok:
  assumes "dstate_ok h s" and "index < 2 ^ st_Precision s" and "unat rank \<le> 64 - st_Precision s + 1"
  shows "dstate_ok h (observe_key h index rank key s)"
proof (cases "key = []")
  case False
  define se0 where "se0 = (case map_of (st_Series s) key of None \<Rightarrow> \<lparr>se_Buckets = [], se_Seen = 0\<rparr> | Some se \<Rightarrow> se)"
  have se0: "series_ok (st_Precision s) se0 \<and> (\<forall>b\<in>set (se_Buckets se0). bk_Hour b \<le> h)"
  proof (cases "map_of (st_Series s) key")
    case None
    then show ?thesis by (simp add: se0_def series_ok_def)
  next
    case (Some se)
    then have "series_ok (st_Precision s) se \<and> series_recent h se"
      using assms(1) map_of_SomeD [OF Some] by (auto simp: dstate_ok_def)
    then show ?thesis using Some by (auto simp: se0_def series_recent_def intro: order_trans)
  qed
  let ?se = "observe_series (st_Precision s) h index rank se0"
  have new: "series_ok (st_Precision s) ?se" "series_recent h ?se"
    using observe_series_ok [of _ se0, OF _ assms(2,3)] se0 by blast+
  have old: "x \<in> set (st_Series s) \<or> x = (key, ?se)" if "x \<in> set (AList.update key ?se (st_Series s))" for x
    using in_set_update [OF that] .
  have "observe_key h index rank key s = s\<lparr>st_Series := AList.update key ?se (st_Series s)\<rparr>"
    using False by (simp add: observe_key_def se0_def)
  then show ?thesis
    using assms(1) new old False by (fastforce simp: dstate_ok_def gomap_ok_update)
qed (simp add: observe_key_def assms)

lemma observe_key_frame [simp]:
  "st_Precision (observe_key h index rank key s) = st_Precision s"
  "st_Methodology (observe_key h index rank key s) = st_Methodology s"
  by (simp_all add: observe_key_def)

lemma observe_keys_ok:
  "dstate_ok h s \<Longrightarrow> index < 2 ^ st_Precision s \<Longrightarrow> unat rank \<le> 64 - st_Precision s + 1 \<Longrightarrow>
     dstate_ok h (fold (observe_key h index rank) keys s) \<and>
     st_Precision (fold (observe_key h index rank) keys s) = st_Precision s \<and>
     st_Methodology (fold (observe_key h index rank) keys s) = st_Methodology s"
  by (induction keys arbitrary: s) (simp_all add: observe_key_ok)

lemma Observe_ok:
  assumes "dstate_ok h0 s" and "h0 \<le> hourNumber at"
  shows "dstate_ok (hourNumber at) (Observe identity at keys s)"
    and "st_Precision (Observe identity at keys s) = st_Precision s"
    and "st_Methodology (Observe identity at keys s) = st_Methodology s"
proof -
  have ok: "dstate_ok (hourNumber at) s" using assms series_recent_mono by (fastforce simp: dstate_ok_def)
  obtain index rank where sl: "slot s identity = (index, rank)" by force
  have "precision_ok (st_Precision s)" using ok by (simp add: dstate_ok_def)
  note b = slot_bounds_lemma(1,2) [OF this sl]
  show "dstate_ok (hourNumber at) (Observe identity at keys s)" "st_Precision (Observe identity at keys s) = st_Precision s"
    "st_Methodology (Observe identity at keys s) = st_Methodology s"
    using observe_keys_ok [OF ok b, of keys] ok by (auto simp: Observe_def sl)
qed

text \<open>A run of observations, oldest first.\<close>

fun observe_run :: "(byte list \<times> gotime \<times> string list) list \<Rightarrow> DState \<Rightarrow> DState" where
  "observe_run [] s = s"
| "observe_run ((identity, at, keys) # obs) s = observe_run obs (Observe identity at keys s)"

lemma observe_run_ok:
  assumes "dstate_ok h0 s" and "sorted (h0 # map (\<lambda>(_, at, _). hourNumber at) obs)"
  shows "\<exists>h. dstate_ok h (observe_run obs s)" and "st_Precision (observe_run obs s) = st_Precision s"
    and "st_Methodology (observe_run obs s) = st_Methodology s"
proof -
  have "(\<exists>h. dstate_ok h (observe_run obs s)) \<and> st_Precision (observe_run obs s) = st_Precision s \<and>
      st_Methodology (observe_run obs s) = st_Methodology s"
    using assms
  proof (induction obs s arbitrary: h0 rule: observe_run.induct)
    case (2 identity at keys obs s)
    have le: "h0 \<le> hourNumber at" and srt: "sorted (hourNumber at # map (\<lambda>(_, at, _). hourNumber at) obs)"
      using "2.prems"(2) by auto
    show ?case using "2.IH" [OF Observe_ok(1) [OF "2.prems"(1) le] srt] Observe_ok(2,3) [OF "2.prems"(1) le] by simp
  qed auto
  then show "\<exists>h. dstate_ok h (observe_run obs s)" "st_Precision (observe_run obs s) = st_Precision s"
    "st_Methodology (observe_run obs s) = st_Methodology s" by simp_all
qed

section \<open>Restoring a state\<close>

lemma check_buckets_ok:
  "check_buckets p prev bs = None \<longleftrightarrow> (\<forall>b\<in>set bs. bucket_ok p b) \<and> hours_ordered bs \<and>
     (case (prev, bs) of (Some h, b # _) \<Rightarrow> h < bk_Hour b | _ \<Rightarrow> True)"
proof (induction bs arbitrary: prev)
  case (Cons b bs)
  have step: "check_buckets p prev (b # bs) = None \<longleftrightarrow> bucket_ok p b \<and>
      (case prev of None \<Rightarrow> True | Some h \<Rightarrow> h < bk_Hour b) \<and> check_buckets p (Some (bk_Hour b)) bs = None"
    by (cases prev) (auto simp: bucket_ok_def not_le not_less)
  have ord: "hours_ordered (b # bs) \<longleftrightarrow> hours_ordered bs \<and> (case bs of c # _ \<Rightarrow> bk_Hour b < bk_Hour c | [] \<Rightarrow> True)"
    by (cases bs) (auto intro: less_trans)
  show ?case unfolding step Cons.IH ord by (cases prev; cases bs) auto
qed (simp split: option.split)

lemma series_length:
  assumes "series_ok p se" and "series_recent h se"
  shows "int (length (se_Buckets se)) \<le> 169"
proof -
  obtain l where l: "\<And>b. b \<in> set (se_Buckets se) \<Longrightarrow> l - 168 \<le> bk_Hour b \<and> bk_Hour b \<le> l"
    using assms(2) by (auto simp: series_recent_def)
  have "distinct (map bk_Hour (se_Buckets se))"
    using assms(1) by (simp add: series_ok_def strict_sorted_iff)
  then have "length (se_Buckets se) = card (set (map bk_Hour (se_Buckets se)))"
    by (metis distinct_card length_map)
  also have "\<dots> \<le> card {l - 168..l}" using l by (intro card_mono) auto
  finally show ?thesis by simp
qed

lemma check_series_ok:
  "(\<And>k se. (k, se) \<in> set m \<Longrightarrow> k \<noteq> [] \<and> series_ok p se \<and> series_recent h se) \<Longrightarrow>
     check_series p (map (\<lambda>(k, se). (k, Some se)) m) = Inr m"
proof (induction m)
  case (Cons kse m)
  obtain k se where kse: "kse = (k, se)" by force
  have "k \<noteq> [] \<and> series_ok p se \<and> series_recent h se" using Cons.prems [of k se] kse by simp
  then have "k \<noteq> []" "\<not> RetainedHours < int (length (se_Buckets se))" "check_buckets p None (se_Buckets se) = None"
    using series_length by (auto simp: RetainedHours_def not_less check_buckets_ok series_ok_def)
  moreover have "check_series p (map (\<lambda>(k, se). (k, Some se)) m) = Inr m"
    by (intro Cons.IH Cons.prems) simp
  ultimately show ?case using kse by simp
qed simp

text \<open>
  What the code relies on of \<^verbatim>\<open>compress/gzip\<close> and \<^verbatim>\<open>encoding/json\<close> for one state: compressed
  data starts with the gzip magic number and decompresses to what was compressed, the encoding
  stays within the size limit, and strict decoding inverts encoding.
\<close>

definition codec_ok ::
  "(byte list \<Rightarrow> byte list) \<Rightarrow> (byte list \<Rightarrow> byte list option) \<Rightarrow> (DState \<Rightarrow> byte list) \<Rightarrow>
   (byte list \<Rightarrow> rawState option) \<Rightarrow> DState \<Rightarrow> bool" where
  "codec_ok gzip gunzip encode decode s \<longleftrightarrow>
     take 2 (gzip (encode s)) = [0x1f, 0x8b] \<and> gunzip (gzip (encode s)) = Some (encode s) \<and>
     length (encode s) \<le> maxStateBytes \<and>
     decode (encode s) = Some \<lparr>raw_Version = st_Version s, raw_Methodology = st_Methodology s,
       raw_Precision = st_Precision s, raw_Series = Some (map (\<lambda>(k, se). (k, Some se)) (st_Series s))\<rparr>"

lemma Marshal_copy: "Marshal gzip encode s = gzip (encode s)"
proof -
  have "map copy_bucket bs = bs" for bs by (rule map_idI) (simp add: copy_bucket_def)
  then have "map (\<lambda>(k, se). (k, \<lparr>se_Buckets = map copy_bucket (se_Buckets se), se_Seen = se_Seen se\<rparr>)) m = m"
    for m :: "(string, Series) gomap"
    by (intro map_idI) auto
  then show ?thesis by (cases s) (simp add: Marshal_def)
qed

lemma codec_magic:
  assumes "codec_ok gzip gunzip encode decode s"
  defines "d \<equiv> gzip (encode s)"
  shows "2 \<le> length d" and "d ! 0 = 0x1f" and "d ! 1 = 0x8b"
proof -
  have t: "take 2 d = [0x1f, 0x8b]" using assms by (simp add: codec_ok_def)
  then show "2 \<le> length d" by (cases d; cases "tl d") auto
  show "d ! 0 = 0x1f" "d ! 1 = 0x8b"
    using arg_cong [OF t, of "\<lambda>x. x ! 0"] arg_cong [OF t, of "\<lambda>x. x ! 1"] by simp_all
qed

lemma restore_ok:
  assumes "dstate_ok h s" and "codec_ok gzip gunzip encode decode s"
  shows "Restore gunzip decode (Marshal gzip encode s) (st_Methodology s) (st_Precision s) = Inr s"
proof -
  have "check_series (st_Precision s) (map (\<lambda>(k, se). (k, Some se)) (st_Series s)) = Inr (st_Series s)"
    using assms(1) by (intro check_series_ok [of _ _ h]) (auto simp: dstate_ok_def)
  then show ?thesis
    using assms codec_magic [OF assms(2)] by (auto simp: Restore_def Marshal_copy codec_ok_def dstate_ok_def)
qed

text \<open>
  C30: a restart loses no distinct counter. Whatever observations a new state has recorded, at
  hours that do not decrease, the state it writes is accepted by the restore and comes back
  unchanged: ordered buckets, at most 169 per series, registers of the right size and range.
\<close>

theorem distinct_roundtrip:
  assumes "s = observe_run obs (New m p)" and "sorted (map (\<lambda>(_, at, _). hourNumber at) obs)"
    and "codec_ok gzip gunzip encode decode s"
  shows "Restore gunzip decode (Marshal gzip encode s) m (st_Precision (New m p)) = Inr s"
proof -
  define h0 where "h0 = (case obs of [] \<Rightarrow> 0 | (_, at, _) # _ \<Rightarrow> hourNumber at)"
  have srt: "sorted (h0 # map (\<lambda>(_, at, _). hourNumber at) obs)"
    using assms(2) by (cases obs) (auto simp: h0_def split: prod.splits)
  note run = observe_run_ok [OF dstate_ok_New [of h0 m p] srt]
  obtain h where "dstate_ok h s" using run(1) assms(1) by blast
  then have "Restore gunzip decode (Marshal gzip encode s) (st_Methodology s) (st_Precision s) = Inr s"
    using assms(3) by (rule restore_ok)
  moreover have "st_Methodology s = m" using run(3) assms(1) by (simp add: New_def)
  ultimately show ?thesis using run(2) assms(1) by simp
qed

text \<open>A codec for one state, for the witnesses.\<close>

definition sample_gzip :: "byte list \<Rightarrow> byte list" where "sample_gzip x = 0x1f # 0x8b # x"
definition sample_gunzip :: "byte list \<Rightarrow> byte list option" where "sample_gunzip x = Some (drop 2 x)"
definition sample_encode :: "DState \<Rightarrow> byte list" where "sample_encode s = []"
definition sample_decode :: "DState \<Rightarrow> byte list \<Rightarrow> rawState option" where
  "sample_decode s x = Some \<lparr>raw_Version = st_Version s, raw_Methodology = st_Methodology s,
     raw_Precision = st_Precision s, raw_Series = Some (map (\<lambda>(k, se). (k, Some se)) (st_Series s))\<rparr>"

lemma sample_codec_ok: "codec_ok sample_gzip sample_gunzip sample_encode (sample_decode s) s"
  by (simp add: codec_ok_def sample_gzip_def sample_gunzip_def sample_encode_def sample_decode_def)

theorem distinct_roundtrip_witness:
  "\<exists>s. s = observe_run [([1], unix_time 3600, [''all'']), ([2], unix_time 7200, [''all'', ''v4''])] (New ''m'' 4) \<and>
     Restore sample_gunzip (sample_decode s) (Marshal sample_gzip sample_encode s) ''m'' (st_Precision (New ''m'' 4)) = Inr s"
proof -
  have "sorted (map (\<lambda>(_, at, _). hourNumber at) [([1 :: byte], unix_time 3600, [''all'']), ([2], unix_time 7200, [''all'', ''v4''])])"
    by code_simp
  from distinct_roundtrip [OF refl this sample_codec_ok] show ?thesis by blast
qed

section \<open>A clock that steps back\<close>

text \<open>What a restore accepts of a state, whatever the clock did while it was written.\<close>

definition accepted_state :: "DState \<Rightarrow> bool" where
  "accepted_state s \<longleftrightarrow> st_Version s = 1 \<and> precision_ok (st_Precision s) \<and> gomap_ok (st_Series s) \<and>
     (\<forall>(k, se)\<in>set (st_Series s). k \<noteq> [] \<and> series_ok (st_Precision s) se \<and> length (se_Buckets se) \<le> 169)"

lemma ordered_lengths:
  "hours_ordered bs \<Longrightarrow> length (takeWhile (\<lambda>b. bk_Hour b < h) bs) + length (dropWhile (\<lambda>b. bk_Hour b \<le> h) bs) +
     of_bool (h \<in> bk_Hour ` set bs) = length bs"
proof (induction bs)
  case (Cons b bs)
  have gt: "bk_Hour b < bk_Hour c" if "c \<in> set bs" for c using Cons.prems that by auto
  consider "bk_Hour b < h" | "bk_Hour b = h" | "h < bk_Hour b" by linarith
  then show ?case
  proof cases
    case 1
    then show ?thesis using Cons.IH Cons.prems by (simp add: image_iff)
  next
    case 2
    then have "dropWhile (\<lambda>b. bk_Hour b \<le> h) bs = bs" using gt [of "hd bs"] by (cases bs) auto
    then show ?thesis using 2 by simp
  next
    case 3
    then show ?thesis using gt by fastforce
  qed
qed simp

lemma recent_filter: "hours_ordered bs \<Longrightarrow> dropWhile (\<lambda>b. bk_Hour b < h) bs = filter (\<lambda>b. h \<le> bk_Hour b) bs"
proof (induction bs)
  case (Cons b bs)
  show ?case
  proof (cases "bk_Hour b < h")
    case False
    then have "filter (\<lambda>b. h \<le> bk_Hour b) bs = bs" using Cons.prems by (fastforce simp: filter_id_conv)
    then show ?thesis using False by simp
  qed (use Cons in simp)
qed simp

text \<open>The number of buckets after an observation at hour \<open>h\<close>.\<close>

definition buckets_after :: "int \<Rightarrow> Series \<Rightarrow> nat" where
  "buckets_after h se = length (filter (\<lambda>b. h - 168 \<le> bk_Hour b) (se_Buckets se)) + of_bool (h \<notin> bk_Hour ` set (se_Buckets se))"

lemma observe_series_length:
  assumes "hours_ordered (se_Buckets se)"
  shows "length (se_Buckets (observe_series p h index rank se)) = buckets_after h se"
proof -
  let ?bs = "dropWhile (\<lambda>b. bk_Hour b < h - 168) (se_Buckets se)"
  have ord: "hours_ordered ?bs" by (rule ordered_dropWhile [OF assms])
  have "h \<in> bk_Hour ` set ?bs \<longleftrightarrow> h \<in> bk_Hour ` set (se_Buckets se)"
    by (auto simp: image_iff dropWhile_ordered [OF assms])
  then show ?thesis
    using observe_series_buckets [OF assms, of h p index rank] ordered_lengths [OF ord, of h]
    by (auto simp: buckets_after_def recent_filter [OF assms] split: if_splits)
qed

lemma check_series_exact:
  "(\<And>k se. (k, se) \<in> set m \<Longrightarrow> k \<noteq> [] \<and> series_ok p se) \<Longrightarrow>
     check_series p (map (\<lambda>(k, se). (k, Some se)) m) =
       (if \<forall>(k, se)\<in>set m. length (se_Buckets se) \<le> 169 then Inr m else Inl InvalidState)"
proof (induction m)
  case (Cons kse m)
  obtain k se where kse: "kse = (k, se)" by force
  have "k \<noteq> [] \<and> series_ok p se" using Cons.prems [of k se] kse by simp
  then have "k \<noteq> []" "check_buckets p None (se_Buckets se) = None" by (simp_all add: check_buckets_ok series_ok_def)
  moreover have "check_series p (map (\<lambda>(k, se). (k, Some se)) m) =
      (if \<forall>(k, se)\<in>set m. length (se_Buckets se) \<le> 169 then Inr m else Inl InvalidState)"
    by (intro Cons.IH Cons.prems) simp
  ultimately show ?case using kse by (auto simp: RetainedHours_def)
qed simp


definition full_series :: Series where
  "full_series = \<lparr>se_Buckets = map (\<lambda>h. fresh_bucket 4 (int h + 1)) [0..<169], se_Seen = 169\<rparr>"

definition full_state :: DState where
  "full_state = (New ''m'' 4)\<lparr>st_Series := [(''all'', full_series)]\<rparr>"

lemma full_state_accepted: "accepted_state full_state" "map_of (st_Series full_state) ''all'' = Some full_series"
proof -
  have p: "st_Precision full_state = 4 \<or> precision_ok (st_Precision full_state)"
    by (simp add: full_state_def New_def)
  have "hours_ordered (se_Buckets full_series)" "length (se_Buckets full_series) = 169"
    by (simp_all add: full_series_def comp_def sorted_wrt_map sorted_wrt_upt sorted_wrt_iff_nth_less)
  then show "accepted_state full_state" "map_of (st_Series full_state) ''all'' = Some full_series"
    by (auto simp: full_state_def New_def accepted_state_def precision_ok_def series_ok_def full_series_def gomap_ok_def)
qed


end
