(* ===== verification/Float64.thy ===== *)
theory Float64
  imports Complex_Main "HOL-Library.Log_Nat"
begin

text \<open>
  The IEEE 754 double precision arithmetic that the tree selection uses, on non-negative rationals
  in the normal range: the exact result of an operation is rounded to the nearest number with 53
  significant bits, ties to the even significand. The values here are quotients of counts, far
  from the underflow and overflow ends of the format.
\<close>

section \<open>Definitions\<close>

text \<open>The exponent \<open>k\<close> with \<open>2 ^ k \<le> q < 2 ^ (k + 1)\<close> of a positive rational.\<close>

definition pow2 :: "int \<Rightarrow> rat" where
  "pow2 k = (if 0 \<le> k then 2 ^ nat k else 1 / 2 ^ nat (- k))"

definition f64_exponent :: "rat \<Rightarrow> int" where
  "f64_exponent q =
     (case quotient_of q of (a, b) \<Rightarrow>
        let k = int (floorlog 2 (nat a)) - int (floorlog 2 (nat b))
        in if pow2 k \<le> q then k else k - 1)"

definition round_half_even :: "rat \<Rightarrow> int" where
  "round_half_even x =
     (let f = \<lfloor>x\<rfloor>; d = x - of_int f in
      if d < 1 / 2 then f else if 1 / 2 < d then f + 1 else if even f then f else f + 1)"

definition f64_round :: "rat \<Rightarrow> rat" where
  "f64_round q =
     (if q \<le> 0 then 0
      else let s = f64_exponent q - 52 in of_int (round_half_even (q / pow2 s)) * pow2 s)"

definition f64_div :: "rat \<Rightarrow> rat \<Rightarrow> rat" where
  "f64_div x y = f64_round (x / y)"

definition f64_mul :: "rat \<Rightarrow> rat \<Rightarrow> rat" where
  "f64_mul x y = f64_round (x * y)"

definition f64_sub :: "rat \<Rightarrow> rat \<Rightarrow> rat" where
  "f64_sub x y = (if y \<le> x then f64_round (x - y) else - f64_round (y - x))"

text \<open>\<^verbatim>\<open>math.Round\<close>: half away from zero. \<^verbatim>\<open>int(x)\<close> truncates.\<close>

definition math_Round :: "rat \<Rightarrow> int" where
  "math_Round x = \<lfloor>x + 1 / 2\<rfloor>"

section \<open>Facts\<close>

lemma pow2_pos [simp]: "0 < pow2 k"
  by (simp add: pow2_def)

lemma pow2_ne [simp]: "pow2 k \<noteq> 0"
  by (simp add: pow2_def)

lemma pow2_add: "pow2 (j + k) = pow2 j * pow2 k"
proof -
  have r: "pow2 k = 2 powi k" for k by (simp add: pow2_def power_int_def field_simps)
  show ?thesis unfolding r by (simp add: power_int_add)
qed

lemma abs_pow2 [simp]: "\<bar>pow2 k\<bar> = pow2 k"
  by (simp add: less_imp_le)

lemma pow2_0 [simp]: "pow2 0 = 1"
  by (simp add: pow2_def)

lemma pow2_nat: "0 \<le> k \<Longrightarrow> pow2 k = of_int (2 ^ nat k)"
  by (simp add: pow2_def)

lemma pow2_mono: "j \<le> k \<Longrightarrow> pow2 j \<le> pow2 k"
proof -
  assume "j \<le> k"
  then have "1 \<le> pow2 (k - j)" by (simp add: pow2_def)
  moreover have "pow2 k = pow2 (k - j) * pow2 j" using pow2_add [of "k - j" j] by simp
  ultimately show "pow2 j \<le> pow2 k" using pow2_pos [of j] by simp
qed

lemma pow2_le_cancel: "pow2 j < pow2 k \<Longrightarrow> j < k"
  using pow2_mono [of k j] by (meson leD leI)

lemma floorlog_pow2:
  assumes "0 < a"
  shows "pow2 (int (floorlog 2 (nat a)) - 1) \<le> of_int a" and "of_int a < pow2 (int (floorlog 2 (nat a)))"
proof -
  define l where "l = floorlog 2 (nat a)"
  have l: "2 ^ (l - 1) \<le> nat a" "nat a < 2 ^ l" "0 < l"
    using floorlog_bounds [of "nat a" 2] assms floorlog_eq_zero_iff [of 2 "nat a"] by (auto simp: l_def)
  have "nat (int l - 1) = l - 1" by simp
  then have "pow2 (int l - 1) = of_nat (2 ^ (l - 1))" using l(3) by (simp add: pow2_def)
  also have "\<dots> \<le> of_nat (nat a)" using l(1) by (simp only: of_nat_le_iff)
  finally show "pow2 (int (floorlog 2 (nat a)) - 1) \<le> of_int a" using assms by (simp add: l_def)
  have "(of_nat (nat a) :: rat) < of_nat (2 ^ l)" using l(2) by (simp only: of_nat_less_iff)
  then show "of_int a < pow2 (int (floorlog 2 (nat a)))" using assms by (simp add: pow2_def l_def)
qed

lemma exponent_bounds:
  assumes "0 < q"
  shows "pow2 (f64_exponent q) \<le> q" and "q < pow2 (f64_exponent q + 1)"
proof -
  obtain a b where ab: "quotient_of q = (a, b)" by force
  have b: "0 < b" using quotient_of_denom_pos [OF ab] .
  have q: "q = of_int a / of_int b" using quotient_of_div [OF ab] .
  have a: "0 < a" using assms b by (simp add: q zero_less_divide_iff)
  define la lb where "la = int (floorlog 2 (nat a))" and "lb = int (floorlog 2 (nat b))"
  define k where "k = la - lb"
  note la = floorlog_pow2 [OF a, folded la_def] and lb = floorlog_pow2 [OF b, folded lb_def]
  have "pow2 (k - 1) * of_int b \<le> pow2 (k - 1) * pow2 lb" using lb(2) by simp
  also have "\<dots> = pow2 (la - 1)" by (simp add: pow2_add [symmetric] k_def)
  finally have lower: "pow2 (k - 1) \<le> q" using la(1) b by (simp add: q pos_le_divide_eq)
  have "pow2 la = pow2 (k + 1) * pow2 (lb - 1)" by (simp add: pow2_add [symmetric] k_def)
  also have "\<dots> \<le> pow2 (k + 1) * of_int b" using lb(1) by simp
  finally have upper: "q < pow2 (k + 1)" using la(2) b by (simp add: q pos_divide_less_eq)
  show "pow2 (f64_exponent q) \<le> q" "q < pow2 (f64_exponent q + 1)"
    using lower upper
    by (auto simp: f64_exponent_def ab Let_def la_def [symmetric] lb_def [symmetric] k_def [symmetric] not_le)
qed

lemma round_half_even_error: "\<bar>of_int (round_half_even x) - x\<bar> \<le> 1 / 2"
proof -
  have "of_int \<lfloor>x\<rfloor> \<le> x" "x < of_int \<lfloor>x\<rfloor> + 1" by linarith+
  then show ?thesis by (auto simp: round_half_even_def Let_def abs_le_iff)
qed

lemma round_half_even_int [simp]: "round_half_even (of_int n) = n"
  by (simp add: round_half_even_def)

text \<open>The rounding error is at most half a unit in the last place.\<close>

lemma f64_round_error:
  assumes "0 < q"
  shows "\<bar>f64_round q - q\<bar> \<le> q * pow2 (- 53)"
proof -
  define s where "s = f64_exponent q - 52"
  have "f64_round q - q = (of_int (round_half_even (q / pow2 s)) - q / pow2 s) * pow2 s"
    using assms pow2_pos [of s] by (simp add: f64_round_def s_def Let_def field_simps)
  then have "\<bar>f64_round q - q\<bar> = \<bar>of_int (round_half_even (q / pow2 s)) - q / pow2 s\<bar> * pow2 s"
    by (simp add: abs_mult)
  also have "\<dots> \<le> 1 / 2 * pow2 s"
    by (rule mult_right_mono [OF round_half_even_error]) (simp add: less_imp_le)
  also have "\<dots> = pow2 (f64_exponent q) * pow2 (- 53)"
  proof -
    have "pow2 s = 2 * (pow2 (f64_exponent q) * pow2 (- 53))"
      using pow2_add [of "f64_exponent q" "- 53"] pow2_add [of 1 "f64_exponent q - 53"]
      by (simp add: s_def pow2_def [of 1])
    then show ?thesis by simp
  qed
  also have "\<dots> \<le> q * pow2 (- 53)" using exponent_bounds(1) [OF assms] by simp
  finally show ?thesis .
qed

lemma f64_round_int:
  assumes "0 \<le> n" and "n < 2 ^ 53"
  shows "f64_round (of_int n) = of_int n"
proof (cases "n = 0")
  case False
  then have pos: "0 < (of_int n :: rat)" using assms(1) by simp
  have "pow2 (f64_exponent (of_int n)) < pow2 53"
  proof -
    have "(of_int n :: rat) < of_int (2 ^ 53)" using assms(2) by (simp only: of_int_less_iff)
    then show ?thesis using exponent_bounds(1) [OF pos] by (simp add: pow2_def [of 53])
  qed
  then have "f64_exponent (of_int n) < 53" by (rule pow2_le_cancel)
  then have le: "f64_exponent (of_int n) \<le> 52" by simp
  define d where "d = nat (52 - f64_exponent (of_int n))"
  have d: "f64_exponent (of_int n) - 52 = - int d" using le by (simp add: d_def)
  have "of_int n / pow2 (- int d) = (of_int (n * 2 ^ d) :: rat)" by (simp add: pow2_def)
  then have "f64_round (of_int n) = of_int (n * 2 ^ d) * pow2 (- int d)"
    using pos by (simp add: f64_round_def d Let_def del: of_int_mult)
  also have "\<dots> = of_int n" by (simp add: pow2_def)
  finally show ?thesis .
qed (simp add: f64_round_def)

text \<open>The whole part of a rounded quotient of counts is the integer quotient.\<close>

lemma floor_f64_div:
  assumes "0 \<le> a" and "a < 2 ^ 53" and "0 < b"
  shows "\<lfloor>f64_round (of_int a / of_int b)\<rfloor> = a div b"
proof (cases "b dvd a")
  case True
  then have "of_int a / of_int b = (of_int (a div b) :: rat)" using assms(3) by auto
  moreover have "0 \<le> a div b" using assms by (simp add: pos_imp_zdiv_nonneg_iff)
  moreover have "a div b < 2 ^ 53" using zdiv_mono2 [of a 1 b] assms by simp
  ultimately show ?thesis using f64_round_int [of "a div b"] by simp
next
  case False
  define q where "q = (of_int a / of_int b :: rat)"
  have a: "0 < a" using False assms(1) by (cases "a = 0") auto
  then have q: "0 < q" using assms(3) by (simp add: q_def)
  have "q * pow2 (- 53) < 1 / of_int b"
  proof -
    have "(of_int a :: rat) * pow2 (- 53) < 1"
    proof -
      have "(of_int a :: rat) < of_int (2 ^ 53)" using assms(2) by (simp only: of_int_less_iff)
      then show ?thesis by (simp add: pow2_def field_simps)
    qed
    then show ?thesis using assms(3) by (simp add: q_def divide_strict_right_mono)
  qed
  then have err: "\<bar>f64_round q - q\<bar> < 1 / of_int b" using f64_round_error [OF q] by simp
  define r where "r = a mod b"
  have "r \<noteq> 0" "0 \<le> r" "r < b" using False assms(3) by (auto simp: r_def)
  then have r: "1 \<le> r" "r \<le> b - 1" by simp_all
  have "q = of_int (a div b) + of_int r / of_int b"
  proof -
    have "(of_int a :: rat) = of_int (b * (a div b) + r)" by (simp add: r_def)
    then show ?thesis using assms(3) by (simp add: q_def add_divide_distrib)
  qed
  moreover have "1 / of_int b \<le> (of_int r / of_int b :: rat)" "of_int r / of_int b \<le> (1 - 1 / of_int b :: rat)"
    using r assms(3) by (simp_all add: divide_right_mono field_simps)
  ultimately have "of_int (a div b) \<le> f64_round q" "f64_round q < of_int (a div b) + 1"
    using err by (simp_all add: abs_less_iff)
  then show ?thesis unfolding q_def [symmetric] by (simp add: floor_eq_iff)
qed

end
