(* ===== verification/Selection.thy ===== *)
theory Selection
  imports ForkTargets Float64 "HOL-Library.Product_Lexorder" "HOL-Library.Sublist"
begin

text \<open>
  How the DNS publisher chooses the records of a tree: \<^verbatim>\<open>cmd/dnspublisher/select.go\<close>. The rows
  of a snapshot are filtered and ranked (\<^verbatim>\<open>rankCandidates\<close>), and each tree picks a limited number
  of them (\<^verbatim>\<open>pick\<close>) with a share for IPv6 (\<^verbatim>\<open>reserveIPv6\<close>) and for every client
  (\<^verbatim>\<open>balanceClients\<close>).

  The calls into go-ethereum's enode and enr packages are the arguments \<open>recordlib\<close>. A candidate
  carries the address of the node \<^verbatim>\<open>enode.Parse\<close> allocated for it, since \<^verbatim>\<open>mergeRanked\<close>
  compares nodes by pointer; every call allocates a fresh one. Go maps that are only read by key
  are functions with the zero value as default.
\<close>

section \<open>Options\<close>

definition balanceProportional :: string where
  "balanceProportional = ''proportional''"

definition balanceNone :: string where
  "balanceNone = ''none''"

definition unknownClient :: string where
  "unknownClient = ''<unknown>''"

record selectOpts =
  so_minScore :: int
  so_maxAge :: duration
  so_protocol :: string
  so_layer :: string
  so_capability :: string
  so_limit :: int
  so_balance :: string

datatype selectError = BadMinScore | BadMaxAge | BadProtocol | BadLayer | BadLimit | BadBalance

definition selectOpts_Validate :: "selectOpts \<Rightarrow> selectError option" where
  "selectOpts_Validate o' =
     (if so_minScore o' < 0 \<or> 2147483647 < so_minScore o' then Some BadMinScore
      else if so_maxAge o' < 0 then Some BadMaxAge
      else if so_protocol o' \<notin> {''any'', ''v4'', ''v5''} then Some BadProtocol
      else if so_layer o' \<notin> {''el'', ''cl'', ''any''} then Some BadLayer
      else if so_limit o' < 0 then Some BadLimit
      else if so_balance o' \<noteq> balanceProportional \<and> so_balance o' \<noteq> balanceNone then Some BadBalance
      else None)"

section \<open>What a record says\<close>

datatype load_result = LoadOk | LoadNotFound | LoadError

text \<open>\<open>lib_load n key\<close> is the outcome of loading the typed entry \<open>key\<close>, \<open>lib_has n key\<close> whether
  the raw entry is present.\<close>

record recordlib =
  lib_Parse :: "string \<Rightarrow> enode option"
  lib_load :: "enode \<Rightarrow> string \<Rightarrow> load_result"
  lib_has :: "enode \<Rightarrow> string \<Rightarrow> bool"

definition zeroEvidence :: ReadinessEvidence where
  "zeroEvidence = \<lparr>ev_Layer = [], ev_ForkHash = [], ev_ForkNext = 0, ev_ENRForkDigest = [],
     ev_ENRNextForkVersion = [], ev_ENRNextForkEpoch = 0\<rparr>"

definition enrForkCurrentAt :: "registry \<Rightarrow> enode \<Rightarrow> string \<Rightarrow> string \<Rightarrow> gotime \<Rightarrow> ReadinessEvidence \<times> bool" where
  "enrForkCurrentAt reg n layer network now =
     (if layer = ''el''
      then (case en_eth n of
              None \<Rightarrow> (zeroEvidence, False)
            | Some eth \<Rightarrow>
                let ev = zeroEvidence\<lparr>ev_Layer := layer, ev_ForkHash := hex_EncodeToString (fid_Hash eth),
                                      ev_ForkNext := fid_Next eth\<rparr>
                in (ev, RowForkCurrentAt reg layer network (ev_ForkHash ev) (ev_ForkNext ev) now))
      else if layer = ''cl''
      then (case en_eth2 n of
              None \<Rightarrow> (zeroEvidence, False)
            | Some eth2 \<Rightarrow>
                if length eth2 \<noteq> 16 then (zeroEvidence, False)
                else let s = CLForkScheduleOf n;
                         ev = zeroEvidence\<lparr>ev_Layer := layer, ev_ForkHash := sch_Digest s,
                                ev_ENRForkDigest := sch_Digest s, ev_ENRNextForkVersion := sch_NextVersion s,
                                ev_ENRNextForkEpoch := sch_NextEpoch s\<rparr>
                     in (ev, RowForkCurrentAt reg layer network (ev_ForkHash ev) 0 now))
      else (zeroEvidence, False))"

definition rankReady :: nat where
  "rankReady = 0"

definition rankNeutral :: nat where
  "rankNeutral = 1"

definition rankMismatch :: nat where
  "rankMismatch = 2"

definition readinessRank :: "Readiness option \<Rightarrow> nat" where
  "readinessRank r =
     (case r of Some Ready \<Rightarrow> rankReady | Some Mismatch \<Rightarrow> rankMismatch | _ \<Rightarrow> rankNeutral)"

definition enrHasEntry :: "recordlib \<Rightarrow> enode \<Rightarrow> string \<Rightarrow> bool" where
  "enrHasEntry lib n key = lib_has lib n key"

definition enrEntryDecodes :: "recordlib \<Rightarrow> enode \<Rightarrow> string \<Rightarrow> bool" where
  "enrEntryDecodes lib n key \<longleftrightarrow> lib_load lib n key = LoadOk \<or> lib_load lib n key = LoadNotFound"

definition enrWellFormed :: "recordlib \<Rightarrow> enode \<Rightarrow> bool" where
  "enrWellFormed lib n =
     list_all (enrEntryDecodes lib n)
       [''eth'', ''ip'', ''ip6'', ''tcp'', ''tcp6'', ''udp'', ''udp6'', ''quic'', ''quic6'']"

section \<open>Ranking\<close>

record ipv6Slot =
  v6_dialable :: bool
  v6_ownPort :: bool

record candidate =
  cd_row :: Row
  cd_node :: enode
  cd_ptr :: nat
  cd_client :: string
  cd_v6 :: ipv6Slot
  cd_rank :: nat

definition clientBucket :: "Row \<Rightarrow> string" where
  "clientBucket r =
     (if r_FPStatus r \<noteq> ''ok'' \<and> r_FPStatus r \<noteq> ''stale'' then unknownClient
      else let name = Canonical (r_Layer r) (r_Client r) in
           if \<not> Recognized (r_Layer r) name then unknownClient else name)"

definition row_eligible :: "registry \<Rightarrow> selectOpts \<Rightarrow> gotime \<Rightarrow> Row \<Rightarrow> bool" where
  "row_eligible reg opt now r \<longleftrightarrow>
     \<not> (so_layer opt \<noteq> [] \<and> so_layer opt \<noteq> ''any'' \<and> r_Layer r \<noteq> so_layer opt) \<and>
     RowForkCurrentAt reg (r_Layer r) (r_Network r) (r_ForkHash r) (r_ForkNext r) now \<and>
     Dialable r \<and>
     \<not> (r_Score r < so_minScore opt \<or> r_ENR r = []) \<and>
     \<not> (0 < so_maxAge opt \<and> so_maxAge opt < time_Sub now (unix64 (r_LastSeen r))) \<and>
     (if so_protocol opt = ''v4'' then r_HasV4 r else if so_protocol opt = ''v5'' then r_HasV5 r else True)"

definition zeroTarget :: ForkTarget where
  "zeroTarget = \<lparr>ft_Name = [], ft_EL = None, ft_CL = None\<rparr>"

definition target_for ::
  "registry \<Rightarrow> gotime \<Rightarrow> string \<Rightarrow> (string \<Rightarrow> ForkTarget option) \<Rightarrow> ForkTarget \<times> (string \<Rightarrow> ForkTarget option)"
where
  "target_for reg now network targets =
     (case targets network of
        Some t \<Rightarrow> (t, targets)
      | None \<Rightarrow> (let t = (case LayerForkTargetsAt reg network now of Inl _ \<Rightarrow> zeroTarget | Inr t \<Rightarrow> t)
                 in (t, targets(network := Some t))))"

definition rank_parsed ::
  "registry \<Rightarrow> gotime \<Rightarrow> nat \<times> Row \<Rightarrow> enode \<Rightarrow> ReadinessEvidence \<Rightarrow> ForkTarget \<Rightarrow> candidate option"
where
  "rank_parsed reg now = (\<lambda>(i, r) n ev target.
     let readiness = ReadinessAt reg target (r_Network r) ev now;
         cand = (\<lambda>rank. \<lparr>cd_row = r, cd_node = n, cd_ptr = i, cd_client = clientBucket r,
                  cd_v6 = \<lparr>v6_dialable = DialableV6 r, v6_ownPort = r_TCP6 r \<noteq> 0 \<or> r_QUIC6 r \<noteq> 0\<rparr>, cd_rank = rank\<rparr>)
     in case CancelledAt target (r_Layer r) of
          Some when \<Rightarrow> if readiness = Some NotReady
                      then if when \<le> now then None else Some (cand rankMismatch)
                      else Some (cand (readinessRank readiness))
        | None \<Rightarrow> Some (cand (readinessRank readiness)))"

fun rank_rows ::
  "recordlib \<Rightarrow> registry \<Rightarrow> selectOpts \<Rightarrow> gotime \<Rightarrow> (nat \<times> Row) list \<Rightarrow> (string \<Rightarrow> ForkTarget option) \<Rightarrow> candidate list"
where
  "rank_rows lib reg opt now [] targets = []"
| "rank_rows lib reg opt now ((i, r) # rest) targets =
     (let skip = rank_rows lib reg opt now rest targets in
      if \<not> row_eligible reg opt now r then skip
      else case lib_Parse lib (r_ENR r) of
             None \<Rightarrow> skip
           | Some n \<Rightarrow>
               if \<not> enrWellFormed lib n then skip
               else case enrForkCurrentAt reg n (r_Layer r) (r_Network r) now of
                      (ev, current) \<Rightarrow>
                        if \<not> current then skip
                        else case target_for reg now (r_Network r) targets of
                               (target, targets') \<Rightarrow>
                                 (case rank_parsed reg now (i, r) n ev target of None \<Rightarrow> [] | Some c \<Rightarrow> [c]) @
                                 rank_rows lib reg opt now rest targets')"

definition row_order :: "Row \<Rightarrow> int \<times> int \<times> string" where
  "row_order r = (- r_Score r, - r_LastSeen r, r_ID r)"

definition rankCandidates :: "recordlib \<Rightarrow> registry \<Rightarrow> Row list \<Rightarrow> selectOpts \<Rightarrow> gotime \<Rightarrow> candidate list" where
  "rankCandidates lib reg rows opt now =
     (let sorted_rows = sort_key row_order rows in
      sort_key cd_rank (rank_rows lib reg opt now (enumerate 0 sorted_rows) (\<lambda>_. None)))"

section \<open>The IPv6 reservation\<close>

definition float64 :: "int \<Rightarrow> rat" where
  "float64 n = f64_round (of_int n)"

definition ipv6_want :: "nat \<Rightarrow> nat \<Rightarrow> int \<Rightarrow> int" where
  "ipv6_want candidates n quota =
     (let want = math_Round (f64_div (f64_mul (float64 quota) (float64 (int candidates))) (float64 (int n)))
      in min (max want 1) (min (int candidates) quota))"

fun reserve_pass :: "bool \<Rightarrow> int \<Rightarrow> ipv6Slot list \<Rightarrow> bool list \<Rightarrow> int \<Rightarrow> bool list \<times> int" where
  "reserve_pass ownPort want (s # ss) (b # bs) taken =
     (if taken = want then (b # bs, taken)
      else if v6_dialable s \<and> v6_ownPort s = ownPort \<and> \<not> b
      then map_prod (\<lambda>r. True # r) (\<lambda>t. t) (reserve_pass ownPort want ss bs (taken + 1))
      else map_prod (\<lambda>r. b # r) (\<lambda>t. t) (reserve_pass ownPort want ss bs taken))"
| "reserve_pass ownPort want ss bs taken = (bs, taken)"

definition reserveIPv6 :: "ipv6Slot list \<Rightarrow> int \<Rightarrow> bool list" where
  "reserveIPv6 v6 quota =
     (let reserved = replicate (length v6) False; candidates = length (filter v6_dialable v6) in
      if candidates = 0 \<or> quota \<le> 0 then reserved
      else let want = ipv6_want candidates (length v6) quota;
               (r1, taken) = reserve_pass True want v6 reserved 0
           in fst (reserve_pass False want v6 r1 taken))"

definition countTrue :: "bool list \<Rightarrow> nat" where
  "countTrue b = length (filter (\<lambda>v. v) b)"

definition mergeRanked :: "candidate list \<Rightarrow> bool list \<Rightarrow> candidate list \<Rightarrow> candidate list" where
  "mergeRanked all reserved filled =
     (let keep = set (map cd_ptr filled) in
      map fst (filter (\<lambda>(c, res). res \<or> cd_ptr c \<in> keep) (zip all reserved)))"

section \<open>The client balance\<close>

type_synonym pools = "string \<Rightarrow> nat list"
type_synonym slots = "string \<Rightarrow> int"

definition pool_step :: "pools \<times> string list \<Rightarrow> nat \<times> candidate \<Rightarrow> pools \<times> string list" where
  "pool_step = (\<lambda>(pool, order) (i, cand).
     let c = cd_client cand in
     (pool(c := pool c @ [i]), if pool c = [] then order @ [c] else order))"

definition client_pools :: "candidate list \<Rightarrow> pools \<times> string list" where
  "client_pools cands = foldl pool_step (\<lambda>_. [], []) (enumerate 0 cands)"

definition pool_order :: "pools \<Rightarrow> string \<Rightarrow> int \<times> string" where
  "pool_order pool c = (- int (length (pool c)), c)"

fun floor_slots :: "(string \<Rightarrow> int) \<Rightarrow> string list \<Rightarrow> slots \<Rightarrow> int \<Rightarrow> slots \<times> int" where
  "floor_slots held [] slots remaining = (slots, remaining)"
| "floor_slots held (c # cs) slots remaining =
     (if remaining = 0 then (slots, remaining)
      else if c = unknownClient \<or> 0 < held c then floor_slots held cs slots remaining
      else floor_slots held cs (slots(c := 1)) (remaining - 1))"

fun share_slots :: "pools \<Rightarrow> int \<Rightarrow> int \<Rightarrow> string list \<Rightarrow> slots \<Rightarrow> (string \<times> rat) list \<Rightarrow> slots \<times> (string \<times> rat) list" where
  "share_slots pool free remaining [] slots fracs = (slots, fracs)"
| "share_slots pool free remaining (c # cs) slots fracs =
     (if free \<le> 0 \<or> remaining \<le> 0 then (slots, fracs)
      else let open' = int (length (pool c)) - slots c;
               exact = f64_div (f64_mul (float64 remaining) (float64 open')) (float64 free);
               whole = min \<lfloor>exact\<rfloor> open'
           in share_slots pool free remaining cs (slots(c := slots c + whole))
                (fracs @ [(c, f64_sub exact (float64 whole))]))"

definition allFull :: "slots \<Rightarrow> pools \<Rightarrow> string list \<Rightarrow> bool" where
  "allFull slots pool order = list_all (\<lambda>c. \<not> slots c < int (length (pool c))) order"

partial_function (option) remainder_loop ::
  "pools \<Rightarrow> string list \<Rightarrow> (string \<times> rat) list \<Rightarrow> int \<Rightarrow> nat \<Rightarrow> slots \<Rightarrow> int \<Rightarrow> slots option"
where
  "remainder_loop pool order fracs quota i slots used =
     (if used < quota \<and> fracs \<noteq> []
      then let c = fst (fracs ! i); nxt = (i + 1) mod length fracs in
           if int (length (pool c)) \<le> slots c
           then if allFull slots pool order then Some slots
                else remainder_loop pool order fracs quota nxt slots used
           else remainder_loop pool order fracs quota nxt (slots(c := slots c + 1)) (used + 1)
      else Some slots)"

text \<open>A slice \<^verbatim>\<open>pool[c][:slots[c]]\<close> beyond the pool is a panic or reads outside it: \<open>None\<close>.\<close>

definition picked_indexes :: "pools \<Rightarrow> string list \<Rightarrow> slots \<Rightarrow> nat list option" where
  "picked_indexes pool order slots =
     (if list_all (\<lambda>c. 0 \<le> slots c \<and> slots c \<le> int (length (pool c))) order
      then Some (sort (concat (map (\<lambda>c. take (nat (slots c)) (pool c)) order)))
      else None)"

definition frac_order :: "string \<times> rat \<Rightarrow> rat \<times> string" where
  "frac_order = (\<lambda>(c, frac). (- frac, c))"

definition balanceClients :: "candidate list \<Rightarrow> int \<Rightarrow> (string \<Rightarrow> int) \<Rightarrow> candidate list option" where
  "balanceClients cands quota held =
     (let (pool, order0) = client_pools cands;
          order = sort_key (pool_order pool) order0;
          (slots1, remaining) = floor_slots held order (\<lambda>_. 0) quota;
          free = sum_list (map (\<lambda>c. int (length (pool c)) - slots1 c) order);
          (slots2, fracs) = share_slots pool free remaining order slots1 [];
          used = sum_list (map slots2 order)
      in case remainder_loop pool order (sort_key frac_order fracs) quota 0 slots2 used of
           None \<Rightarrow> None
         | Some slots3 \<Rightarrow> map_option (map (\<lambda>i. cands ! i)) (picked_indexes pool order slots3))"

definition pick :: "recordlib \<Rightarrow> candidate list \<Rightarrow> selectOpts \<Rightarrow> candidate list option" where
  "pick lib cands0 opt =
     (let cands = (if so_capability opt = ''snap'' then filter (\<lambda>c. enrHasEntry lib (cd_node c) ''snap'') cands0
                   else cands0)
      in if so_limit opt \<le> 0 \<or> int (length cands) \<le> so_limit opt then Some cands
         else let reserved = reserveIPv6 (map cd_v6 cands) (so_limit opt);
                  marked = zip cands reserved;
                  rest = map fst (filter (\<lambda>(c, res). \<not> res) marked);
                  held = (\<lambda>cl. int (length (filter (\<lambda>(c, res). res \<and> cd_client c = cl) marked)));
                  free = so_limit opt - int (countTrue reserved)
              in map_option (mergeRanked cands reserved)
                   (if free \<le> 0 then Some []
                    else if so_balance opt \<noteq> balanceProportional \<or> int (length rest) \<le> free
                    then Some (take (nat (min free (int (length rest)))) rest)
                    else balanceClients rest free held))"

end
