(* ===== verification/Memo.thy ===== *)
theory Memo
  imports Main
begin

text \<open>
  The interface of a single-entry cache: an answer is kept with the key of the query it was
  computed for and returned for every query with that key. The law the cached computation has to
  satisfy is that queries with the same key have the same answer; errors are not cached. The
  consensus state cache and the fork id cache of package \<^verbatim>\<open>netconf\<close> both have this shape.
\<close>

locale memo =
  fixes key :: "'q \<Rightarrow> 'k"
    and answer :: "'q \<Rightarrow> 'e + 'v"
  assumes same_key: "key a = key b \<Longrightarrow> answer a = answer b"
begin

definition memo_ok :: "('k \<times> 'v) option \<Rightarrow> bool" where
  "memo_ok m \<longleftrightarrow> (\<forall>k v q. m = Some (k, v) \<longrightarrow> key q = k \<longrightarrow> answer q = Inr v)"

definition memo_miss :: "('k \<times> 'v) option \<Rightarrow> 'q \<Rightarrow> ('e + 'v) \<times> ('k \<times> 'v) option" where
  "memo_miss m q = (case answer q of Inl e \<Rightarrow> (Inl e, m) | Inr v \<Rightarrow> (Inr v, Some (key q, v)))"

definition memo_get :: "('k \<times> 'v) option \<Rightarrow> 'q \<Rightarrow> ('e + 'v) \<times> ('k \<times> 'v) option" where
  "memo_get m q =
     (case m of Some (k, v) \<Rightarrow> if k = key q then (Inr v, m) else memo_miss m q | None \<Rightarrow> memo_miss m q)"

lemma memo_ok_None: "memo_ok None"
  by (simp add: memo_ok_def)

lemma memo_miss_sound:
  assumes "memo_ok m"
  shows "fst (memo_miss m q) = answer q \<and> memo_ok (snd (memo_miss m q))"
proof (cases "answer q")
  case (Inr v)
  then have "answer q' = Inr v" if "key q' = key q" for q'
    using same_key [OF that] by simp
  with Inr show ?thesis by (auto simp: memo_miss_def memo_ok_def)
qed (simp add: memo_miss_def assms)

lemma memo_get_sound:
  assumes "memo_ok m"
  shows "fst (memo_get m q) = answer q" and "memo_ok (snd (memo_get m q))"
proof -
  have hit: "answer q = Inr v" if "m = Some (key q, v)" for v
    using assms that by (simp add: memo_ok_def)
  show "fst (memo_get m q) = answer q" "memo_ok (snd (memo_get m q))"
    using memo_miss_sound [OF assms, of q] hit assms by (auto simp: memo_get_def split: option.splits)
qed

lemma memo_run_ok: "memo_ok m \<Longrightarrow> memo_ok (fold (\<lambda>q m. snd (memo_get m q)) qs m)"
  by (induction qs arbitrary: m) (simp_all add: memo_get_sound)

end

end
