(* ===== verification/ConsensusProps.thy ===== *)
theory ConsensusProps
  imports ConsensusFork Memo
begin

text \<open>
  What the consensus fork schedule promises: the epoch clock inverts, the digest a network is on
  changes only at the advertised next epoch, the cached state is the computed one, every digest a
  schedule can produce is in the set that classifies records, and an advertised ENR entry decodes
  to the state it was made from.
\<close>

section \<open>Instants\<close>

lemma int64_id: "min_int64 \<le> v \<Longrightarrow> v \<le> max_int64 \<Longrightarrow> int64 v = v"
  by (simp add: int64_def)

lemma int64_shift [simp]: "int64 (int64 (v + k) - k) = int64 v"
  by (simp add: int64_def mod_simps algebra_simps)

lemma int64_range: "min_int64 \<le> int64 v" "int64 v \<le> max_int64"
  using pos_mod_sign [of "18446744073709551616" "v + 9223372036854775808"]
    pos_mod_bound [of "18446744073709551616" "v + 9223372036854775808"]
  by (simp_all add: int64_def)

lemma Unix64_unix64 [simp]: "min_int64 \<le> v \<Longrightarrow> v \<le> max_int64 \<Longrightarrow> Unix64 (unix64 v) = v"
  by (simp add: Unix64_def unix64_def int64_id)

lemma unix64_in_range:
  "min_int64 \<le> v \<Longrightarrow> v \<le> max_int64 - unixToInternal \<Longrightarrow> unix64 v = unix_time v"
  by (simp add: unix64_def unixToInternal_def int64_id)

lemma Unix64_in_range: "0 \<le> t \<Longrightarrow> t < unix_time max_int64 \<Longrightarrow> Unix64 t = time_Unix t"
  unfolding Unix64_def by (rule int64_id) (simp_all add: go_time div_le_mono)

section \<open>The clock\<close>

definition clock_ok :: "clNetwork \<Rightarrow> bool" where
  "clock_ok c \<longleftrightarrow> secondsPerSlot c \<noteq> 0 \<and> slotsPerEpoch c \<noteq> 0 \<and>
     uint (secondsPerSlot c) * uint (slotsPerEpoch c) < 18446744073709551616 \<and>
     uint (genesisTime c) \<le> max_int64"

definition epoch_seconds :: "clNetwork \<Rightarrow> int" where
  "epoch_seconds c = uint (secondsPerSlot c) * uint (slotsPerEpoch c)"

text \<open>The epochs whose first second package \<^verbatim>\<open>time\<close> can represent without wrapping.\<close>

definition epoch_in_range :: "clNetwork \<Rightarrow> u64 \<Rightarrow> bool" where
  "epoch_in_range c e \<longleftrightarrow>
     uint (genesisTime c) + uint e * epoch_seconds c \<le> max_int64 - unixToInternal"

lemma uint_less64: "uint (w :: u64) < 18446744073709551616"
  using uint_lt2p [of w] by simp

lemma uint_pos: "w \<noteq> 0 \<Longrightarrow> 0 < uint (w :: u64)"
  by (metis uint_0_iff uint_ge_0 order_le_less)

lemma epoch_seconds_pos: "clock_ok c \<Longrightarrow> 0 < epoch_seconds c"
  by (simp add: clock_ok_def epoch_seconds_def uint_pos)

lemma uint_mult_in_range:
  "uint a * uint b < 18446744073709551616 \<Longrightarrow> uint (a * b :: u64) = uint a * uint b"
  by (simp add: uint_word_ariths(3))

lemma le_div_int_iff: "0 < d \<Longrightarrow> a \<le> x div d \<longleftrightarrow> a * d \<le> (x :: int)"
proof
  assume d: "0 < d" and "a \<le> x div d"
  then have "a * d \<le> (x div d) * d" by simp
  also have "\<dots> \<le> x" using d pos_mod_sign [of d x] by (simp add: div_mult_mod_eq [symmetric] minus_mod_eq_div_mult [symmetric])
  finally show "a * d \<le> x" .
next
  assume d: "0 < d" and "a * d \<le> x"
  then show "a \<le> x div d" using zdiv_mono1 [of "a * d" x d] by simp
qed

lemma sint_small:
  assumes "uint w \<le> max_int64"
  shows "sint (w :: u64) = uint w"
proof -
  have "min_int64 \<le> uint w" by (rule order_trans [OF _ uint_ge_0]) simp
  then show ?thesis using assms by (simp add: sint_uint signed_take_bit_int_eq_self_iff)
qed

lemma sint_nonneg: "0 \<le> sint (w :: u64) \<Longrightarrow> sint w = uint w"
proof (cases "uint w \<le> max_int64")
  case False
  have "sint w = (uint w + 9223372036854775808) mod 18446744073709551616 - 9223372036854775808"
    by (simp add: sint_uint signed_take_bit_eq_take_bit_shift take_bit_eq_mod)
  moreover have "(uint w + 9223372036854775808) mod 18446744073709551616 = uint w - 9223372036854775808"
    using False uint_less64 [of w] by (subst mod_pos_geq) (simp_all add: mod_pos_pos_trivial)
  moreover assume "0 \<le> sint w"
  ultimately show ?thesis using uint_less64 [of w] by simp
qed (simp add: sint_small)

lemma epochDuration_clock:
  assumes "clock_ok c"
  shows "epochDuration c = Some (secondsPerSlot c * slotsPerEpoch c)"
    and "uint (secondsPerSlot c * slotsPerEpoch c) = epoch_seconds c"
proof -
  have n0: "secondsPerSlot c \<noteq> 0" and prod: "uint (secondsPerSlot c) * uint (slotsPerEpoch c) < 18446744073709551616"
    using assms by (auto simp: clock_ok_def)
  have "uint (slotsPerEpoch c) \<le> 18446744073709551615 div uint (secondsPerSlot c)"
    using prod uint_pos [OF n0] by (simp add: le_div_int_iff mult.commute)
  then show "epochDuration c = Some (secondsPerSlot c * slotsPerEpoch c)"
    using n0 by (simp add: epochDuration_def not_less word_le_def uint_div unsigned_minus_1_eq_mask mask_eq_exp_minus_1)
  show "uint (secondsPerSlot c * slotsPerEpoch c) = epoch_seconds c"
    using prod by (simp add: epoch_seconds_def uint_mult_in_range)
qed

lemma timeAtEpoch_clock:
  assumes "clock_ok c" and "epoch_in_range c e"
  shows "timeAtEpoch c e = unix_time (uint (genesisTime c) + uint e * epoch_seconds c)"
proof -
  let ?d = "secondsPerSlot c * slotsPerEpoch c"
  note dur = epochDuration_clock [OF assms(1)]
  have pos: "0 < epoch_seconds c" by (rule epoch_seconds_pos [OF assms(1)])
  have sum: "uint (genesisTime c) + uint e * epoch_seconds c \<le> max_int64 - unixToInternal"
    using assms(2) by (simp add: epoch_in_range_def)
  have g: "uint (genesisTime c) \<le> max_int64" using assms(1) by (simp add: clock_ok_def)
  have m: "uint (0x7FFFFFFFFFFFFFFF :: u64) = max_int64" by simp
  have sub: "uint (0x7FFFFFFFFFFFFFFF - genesisTime c :: u64) = max_int64 - uint (genesisTime c)"
    using g uint_sub_lem [of "genesisTime c" "0x7FFFFFFFFFFFFFFF"] by simp
  have mul: "uint (e * ?d) = uint e * epoch_seconds c"
  proof -
    have "uint e * epoch_seconds c < 18446744073709551616"
      using sum uint_ge_0 [of "genesisTime c"] unfolding unixToInternal_def by linarith
    then show ?thesis using dur(2) uint_mult_in_range [of e ?d] by simp
  qed
  have add: "uint (genesisTime c + e * ?d) = uint (genesisTime c) + uint e * epoch_seconds c"
    using sum mul pos by (simp add: uint_word_ariths(1) unixToInternal_def mod_pos_pos_trivial)
  have "\<not> (0x7FFFFFFFFFFFFFFF < genesisTime c)" using g by (simp add: word_less_def)
  moreover have "\<not> ((0x7FFFFFFFFFFFFFFF - genesisTime c) div ?d < e)"
    using sum pos sub dur(2) by (simp add: word_less_def uint_div not_less le_div_int_iff unixToInternal_def)
  moreover have "sint (genesisTime c + e * ?d) = uint (genesisTime c) + uint e * epoch_seconds c"
    using add sum by (simp add: sint_small unixToInternal_def)
  moreover have "unix64 (uint (genesisTime c) + uint e * epoch_seconds c) =
      unix_time (uint (genesisTime c) + uint e * epoch_seconds c)"
    using sum pos uint_ge_0 [of "genesisTime c"] uint_ge_0 [of e]
    by (intro unix64_in_range) (auto intro: order_trans [OF _ add_nonneg_nonneg])
  ultimately show ?thesis
    using dur(1) by (simp add: timeAtEpoch_def)
qed

lemma word_of_int_small: "0 \<le> u \<Longrightarrow> u \<le> max_int64 \<Longrightarrow> uint (word_of_int u :: u64) = u"
  by (simp add: uint_word_of_int)

lemma epochAt_clock:
  assumes "clock_ok c" and "0 \<le> time_Unix at" and "time_Unix at \<le> max_int64"
  shows "uint (epochAt c at) =
    (if time_Unix at \<le> uint (genesisTime c) then 0
     else (time_Unix at - uint (genesisTime c)) div epoch_seconds c)"
proof -
  let ?w = "word_of_int (time_Unix at) :: u64"
  note dur = epochDuration_clock [OF assms(1)]
  have u: "Unix64 at = time_Unix at" using assms by (simp add: Unix64_def int64_id)
  have w: "uint ?w = time_Unix at" using assms by (simp add: word_of_int_small)
  have le: "?w \<le> genesisTime c \<longleftrightarrow> time_Unix at \<le> uint (genesisTime c)"
    by (simp add: word_le_def w)
  have sub: "uint (?w - genesisTime c) = time_Unix at - uint (genesisTime c)"
    if "uint (genesisTime c) \<le> time_Unix at"
    using that uint_sub_lem [of "genesisTime c" ?w] by (simp add: w)
  show ?thesis
  proof (cases "time_Unix at \<le> uint (genesisTime c)")
    case True
    then show ?thesis by (simp add: epochAt_def u le)
  next
    case False
    moreover have "\<not> time_Unix at \<le> 0" using False uint_ge_0 [of "genesisTime c"] by linarith
    ultimately show ?thesis
      using sub by (simp add: epochAt_def u le dur uint_div)
  qed
qed

lemma time_Unix_ge_iff: "v \<le> time_Unix t \<longleftrightarrow> unix_time v \<le> t"
  by (simp add: go_time le_div_int_iff)

text \<open>
  The epoch clock. From genesis on, an epoch has begun exactly when its number is at most the
  epoch of the instant, and the first instant of an epoch lies in that epoch, for every epoch
  whose start package \<^verbatim>\<open>time\<close> can represent.
\<close>

theorem epoch_clock:
  assumes "clock_ok c" and "epoch_in_range c e"
    and "unix_time (uint (genesisTime c)) \<le> at" and "time_Unix at \<le> max_int64"
  shows "(timeAtEpoch c e \<le> at \<longleftrightarrow> e \<le> epochAt c at) \<and> epochAt c (timeAtEpoch c e) = e"
proof
  let ?g = "uint (genesisTime c)" and ?d = "epoch_seconds c"
  have pos: "0 < ?d" by (rule epoch_seconds_pos [OF assms(1)])
  have start: "timeAtEpoch c e = unix_time (?g + uint e * ?d)"
    by (rule timeAtEpoch_clock [OF assms(1,2)])
  have ge: "?g \<le> time_Unix at" using assms(3) by (simp add: time_Unix_ge_iff)
  then have "uint (epochAt c at) = (time_Unix at - ?g) div ?d"
    using epochAt_clock [OF assms(1) _ assms(4)] uint_ge_0 [of "genesisTime c"] by auto
  then have "e \<le> epochAt c at \<longleftrightarrow> uint e * ?d \<le> time_Unix at - ?g"
    using pos by (simp add: word_le_def le_div_int_iff)
  then show "timeAtEpoch c e \<le> at \<longleftrightarrow> e \<le> epochAt c at"
    by (simp add: start time_Unix_ge_iff [symmetric] algebra_simps)
  have bound: "?g + uint e * ?d \<le> max_int64" and nn: "0 \<le> uint e * ?d"
    using assms(2) pos by (simp_all add: epoch_in_range_def unixToInternal_def)
  have "uint (epochAt c (timeAtEpoch c e)) = uint e"
    using epochAt_clock [OF assms(1), of "timeAtEpoch c e"] bound nn pos uint_ge_0 [of "genesisTime c"]
    by (auto simp: start mult_le_0_iff)
  then show "epochAt c (timeAtEpoch c e) = e" by (rule word_uint_eqI)
qed

section \<open>The compiled networks\<close>

definition cl_wf :: "clNetwork \<Rightarrow> bool" where
  "cl_wf c \<longleftrightarrow>
     cl_forks c \<noteq> [] \<and> cf_epoch (hd (cl_forks c)) = 0 \<and> sorted (map cf_epoch (cl_forks c)) \<and>
     (\<forall>f\<in>set (cl_forks c). length (cf_version f) = 4) \<and> sorted (map bp_epoch (blobSchedule c)) \<and>
     (fuluEpoch c \<noteq> max_uint64 \<longrightarrow> fuluEpoch c \<in> set (map cf_epoch (cl_forks c)) \<and>
       (\<exists>bp\<in>set (blobSchedule c). bp_epoch bp \<le> fuluEpoch c \<and> bp_epoch bp \<notin> set (cancelledBPOs c)))"

lemma compiled_networks:
  "(case mainnetCL of None \<Rightarrow> False | Some c \<Rightarrow> cl_wf c \<and> clock_ok c)"
  "(case hoodiCL of None \<Rightarrow> False | Some c \<Rightarrow> cl_wf c \<and> clock_ok c)"
  "(case sepoliaCL of None \<Rightarrow> False | Some c \<Rightarrow> cl_wf c \<and> clock_ok c)"
  by code_simp+


definition mainnet :: clNetwork where
  "mainnet = the mainnetCL"

lemma mainnet_wf: "cl_wf mainnet" "clock_ok mainnet"
  by code_simp+

theorem epoch_clock_witness:
  "timeAtEpoch mainnet 411392 \<le> unix_time 1764798551 \<and> 411392 \<le> epochAt mainnet (unix_time 1764798551)"
proof -
  have "epoch_in_range mainnet 411392" by code_simp
  moreover have "unix_time (uint (genesisTime mainnet)) \<le> unix_time 1764798551" by code_simp
  moreover have "411392 \<le> epochAt mainnet (unix_time 1764798551)" by code_simp
  ultimately show ?thesis
    using epoch_clock [OF mainnet_wf(2), of 411392 "unix_time 1764798551"] by simp
qed

text \<open>
  C27: an epoch too large for package \<^verbatim>\<open>time\<close> is not mapped to a far-future instant: the
  marker \<^verbatim>\<open>time.Unix(math.MaxInt64, 0)\<close> wraps when its seconds are shifted to year 1, so it
  compares before every instant that \<^verbatim>\<open>Unix\<close> seconds can express, although its \<^verbatim>\<open>Unix()\<close>
  still reads as the largest second.
\<close>

theorem overflow_epoch_in_past:
  assumes "clock_ok c" and "max_int64 < uint (genesisTime c) + uint e * epoch_seconds c"
    and "unix_time min_int64 \<le> at"
  shows "timeAtEpoch c e < at \<and> Unix64 (timeAtEpoch c e) = max_int64"
proof -
  have g: "uint (genesisTime c) \<le> max_int64" using assms(1) by (simp add: clock_ok_def)
  then have "uint (0x7FFFFFFFFFFFFFFF - genesisTime c :: u64) = max_int64 - uint (genesisTime c)"
    using uint_sub_lem [of "genesisTime c" "0x7FFFFFFFFFFFFFFF"] by simp
  then have "(0x7FFFFFFFFFFFFFFF - genesisTime c) div (secondsPerSlot c * slotsPerEpoch c) < e"
    using assms epochDuration_clock(2) [OF assms(1)] le_div_int_iff [OF epoch_seconds_pos [OF assms(1)], of "uint e"]
    by (simp add: word_less_def uint_div not_le [symmetric])
  then have "timeAtEpoch c e = unix64 max_int64"
    by (simp add: timeAtEpoch_def epochDuration_clock(1) [OF assms(1)])
  moreover have "unix64 max_int64 = unix_time (min_int64 - 1)"
    by (simp add: unix64_def unixToInternal_def int64_def)
  ultimately show ?thesis using assms(3) by (simp add: Unix64_def int64_def go_time)
qed

theorem overflow_epoch_in_past_witness:
  "timeAtEpoch mainnet 100000000000000000 < unix_time 1764798551"
proof -
  have "max_int64 < uint (genesisTime mainnet) + uint (100000000000000000 :: u64) * epoch_seconds mainnet"
    by code_simp
  then show ?thesis
    using overflow_epoch_in_past [OF mainnet_wf(2), of 100000000000000000 "unix_time 1764798551"] by (simp add: go_time)
qed

section \<open>Which fork and which blob parameters are active\<close>

lemma forkAt_loop_last: "forkAt_loop a fs e = last (a # takeWhile (\<lambda>f. cf_epoch f \<le> e) fs)"
  by (induction fs arbitrary: a) auto

lemma blobAt_loop_last:
  "blobAt_loop ca a bs e =
     (let active = takeWhile (\<lambda>b. bp_epoch b \<le> e) (filter (\<lambda>b. bp_epoch b \<notin> set ca) bs)
      in if active = [] then a else Some (last active))"
  by (induction bs arbitrary: a) (auto simp: Let_def)

lemma takeWhile_agree: "(\<And>x. x \<in> set xs \<Longrightarrow> P x = Q x) \<Longrightarrow> takeWhile P xs = takeWhile Q xs"
  by (induction xs) auto

text \<open>An epoch at which the schedule of a network changes.\<close>

definition change_epochs :: "clNetwork \<Rightarrow> u64 list" where
  "change_epochs c = map cf_epoch (cl_forks c) @
     map bp_epoch (filter (\<lambda>b. bp_epoch b \<notin> set (cancelledBPOs c)) (blobSchedule c))"

lemma digestAt_const:
  assumes "e \<le> e'" and "\<And>x. x \<in> set (change_epochs c) \<Longrightarrow> \<not> (e < x \<and> x \<le> e')"
    and "fuluEpoch c = max_uint64 \<or> \<not> (e < fuluEpoch c \<and> fuluEpoch c \<le> e')"
  shows "digestAt c e' = Inr x \<longleftrightarrow> digestAt c e = Inr x"
proof -
  have f: "cf_epoch f \<le> e' \<longleftrightarrow> cf_epoch f \<le> e" if "f \<in> set (cl_forks c)" for f
    using that assms(1) assms(2) [of "cf_epoch f"] by (force simp: change_epochs_def)
  have b: "bp_epoch b \<le> e' \<longleftrightarrow> bp_epoch b \<le> e"
    if "b \<in> set (filter (\<lambda>b. bp_epoch b \<notin> set (cancelledBPOs c)) (blobSchedule c))" for b
    using that assms(1) assms(2) [of "bp_epoch b"] by (force simp: change_epochs_def)
  have "forkAt c e' = forkAt c e"
  proof (cases "cl_forks c")
    case (Cons a fs)
    then have "takeWhile (\<lambda>f. cf_epoch f \<le> e') fs = takeWhile (\<lambda>f. cf_epoch f \<le> e) fs"
      by (intro takeWhile_agree f) simp
    with Cons show ?thesis by (simp add: forkAt_def forkAt_loop_last)
  qed (simp add: forkAt_def)
  moreover have "blobAt_loop (cancelledBPOs c) None (blobSchedule c) e' =
      blobAt_loop (cancelledBPOs c) None (blobSchedule c) e"
    unfolding blobAt_loop_last
    using takeWhile_agree [of "filter (\<lambda>b. bp_epoch b \<notin> set (cancelledBPOs c)) (blobSchedule c)"
        "\<lambda>b. bp_epoch b \<le> e'" "\<lambda>b. bp_epoch b \<le> e", OF b] by simp
  moreover have "fuluEpoch c \<noteq> max_uint64 \<and> fuluEpoch c \<le> e' \<longleftrightarrow> fuluEpoch c \<noteq> max_uint64 \<and> fuluEpoch c \<le> e"
    using assms(1,3) by auto
  ultimately show ?thesis
    by (cases "forkAt c e"; cases "blobAt_loop (cancelledBPOs c) None (blobSchedule c) e")
      (simp_all add: digestAt_def blobAt_def Let_def)
qed

section \<open>The digest changes only at the advertised epoch\<close>

definition next_epoch :: "clNetwork \<Rightarrow> u64 \<Rightarrow> u64" where
  "next_epoch c e = foldr min (filter (\<lambda>x. e < x) (change_epochs c)) max_uint64"

lemma foldr_min_le: "x \<in> set xs \<Longrightarrow> foldr min xs (z :: u64) \<le> x"
  by (induction xs) (auto simp: min_le_iff_disj)

lemma foldr_min_in: "foldr min xs (z :: u64) = z \<or> foldr min xs z \<in> set xs"
  by (induction xs) (auto simp: min_def)

lemma max_uint64_ge [simp]: "x \<le> max_uint64"
  by (simp add: word_order.extremum)

lemma next_epoch_least: "x \<in> set (change_epochs c) \<Longrightarrow> e < x \<Longrightarrow> next_epoch c e \<le> x"
  unfolding next_epoch_def by (rule foldr_min_le) simp

lemma next_epoch_in:
  "next_epoch c e = max_uint64 \<or> next_epoch c e \<in> set (change_epochs c) \<and> e < next_epoch c e"
  using foldr_min_in [of "filter (\<lambda>x. e < x) (change_epochs c)" max_uint64]
  unfolding next_epoch_def by auto

lemma next_epoch_eqI:
  assumes "x \<in> set (change_epochs c)" and "e < x"
    and "\<And>y. y \<in> set (change_epochs c) \<Longrightarrow> e < y \<Longrightarrow> x \<le> y"
  shows "next_epoch c e = x"
  using next_epoch_least [OF assms(1,2)] next_epoch_in [of c e] assms(3) by (auto intro: antisym)

lemma find_sorted_least:
  assumes "sorted (map key xs)" and "find P xs = Some x" and "y \<in> set xs" and "P y"
  shows "key x \<le> key y"
  using assms by (induction xs) (auto split: if_splits)

lemma find_SomeD: "find P xs = Some x \<Longrightarrow> x \<in> set xs \<and> P x"
  by (auto simp: find_Some_iff)

lemma state_next_epoch:
  assumes "cl_wf c"
  shows "(case nextBlob c e (case nextFork c e of None \<Rightarrow> max_uint64 | Some f \<Rightarrow> cf_epoch f) of
            None \<Rightarrow> (case nextFork c e of None \<Rightarrow> max_uint64 | Some f \<Rightarrow> cf_epoch f)
          | Some bp \<Rightarrow> bp_epoch bp) = next_epoch c e"
proof -
  define nf where "nf = (case nextFork c e of None \<Rightarrow> max_uint64 | Some f \<Rightarrow> cf_epoch f)"
  have sf: "sorted (map cf_epoch (cl_forks c))" and sb: "sorted (map bp_epoch (blobSchedule c))"
    using assms by (simp_all add: cl_wf_def)
  have forks: "nf \<le> cf_epoch f" if "f \<in> set (cl_forks c)" "e < cf_epoch f" for f
    using that find_sorted_least [OF sf, of "\<lambda>f. e < cf_epoch f"]
    by (auto simp: nf_def nextFork_def find_None_iff split: option.splits)
  have nf: "nf = max_uint64 \<or> nf \<in> set (change_epochs c) \<and> e < nf"
    using find_SomeD by (fastforce simp: nf_def nextFork_def change_epochs_def split: option.splits)
  show ?thesis
  proof (cases "nextBlob c e nf")
    case None
    then have blobs: "nf \<le> bp_epoch b"
      if "b \<in> set (blobSchedule c)" "bp_epoch b \<notin> set (cancelledBPOs c)" "e < bp_epoch b" for b
      using that by (auto simp: nextBlob_def find_None_iff not_less)
    have least: "nf \<le> y" if "y \<in> set (change_epochs c)" "e < y" for y
      using that forks blobs by (auto simp: change_epochs_def)
    have "nf = next_epoch c e"
      using nf least next_epoch_eqI [of nf c e] next_epoch_in [of c e] by (auto intro: antisym)
    with None show ?thesis by (simp add: nf_def)
  next
    case (Some bp)
    then have bp: "bp \<in> set (blobSchedule c)" "e < bp_epoch bp" "bp_epoch bp < nf"
        "bp_epoch bp \<notin> set (cancelledBPOs c)"
      using find_SomeD [of _ _ bp] by (auto simp: nextBlob_def)
    have blobs: "bp_epoch bp \<le> bp_epoch b"
      if "b \<in> set (blobSchedule c)" "bp_epoch b \<notin> set (cancelledBPOs c)" "e < bp_epoch b" for b
      using that bp Some find_sorted_least [OF sb, of _ bp b] by (cases "bp_epoch b < nf") (auto simp: nextBlob_def)
    have "next_epoch c e = bp_epoch bp"
      using bp blobs forks by (intro next_epoch_eqI) (fastforce simp: change_epochs_def)+
    with Some show ?thesis by (simp add: nf_def)
  qed
qed

lemma forkAt_total: "cl_forks c \<noteq> [] \<Longrightarrow> \<exists>f. forkAt c e = Inr f"
  by (cases "cl_forks c") (simp_all add: forkAt_def)

lemma blobAt_total:
  assumes "b \<in> set (blobSchedule c)" and "bp_epoch b \<notin> set (cancelledBPOs c)" and "bp_epoch b \<le> e"
    and "sorted (map bp_epoch (blobSchedule c))"
  shows "\<exists>bp. blobAt c e = Inr bp"
proof -
  let ?xs = "filter (\<lambda>b. bp_epoch b \<notin> set (cancelledBPOs c)) (blobSchedule c)"
  have "b \<in> set ?xs" using assms by simp
  moreover have "sorted (map bp_epoch ?xs)" using assms(4) by (rule sorted_filter)
  ultimately have "takeWhile (\<lambda>b. bp_epoch b \<le> e) ?xs \<noteq> []"
    using assms(3) by (cases ?xs) auto
  then show ?thesis by (simp add: blobAt_def blobAt_loop_last Let_def)
qed

lemma digestAt_total:
  assumes "cl_wf c"
  shows "\<exists>d v. digestAt c e = Inr (d, v)"
proof -
  obtain f where f: "forkAt c e = Inr f" using forkAt_total [of c e] assms by (auto simp: cl_wf_def)
  have "\<exists>bp. blobAt c e = Inr bp" if "fuluEpoch c \<noteq> max_uint64" "fuluEpoch c \<le> e"
    using assms that by (auto simp: cl_wf_def intro: blobAt_total order_trans)
  then show ?thesis using f by (auto simp: digestAt_def Let_def)
qed

lemma state_spec:
  assumes "cl_wf c" and now: "digestAt c e = Inr (d, v)" and nxt: "digestAt c (next_epoch c e) = Inr (d', v')"
  shows "\<exists>s. computeStateAt c e = Inr s \<and> cs_NextForkEpoch s = next_epoch c e \<and> cs_Digest s = d \<and>
      cs_CurrentVersion s = v \<and> (next_epoch c e \<noteq> max_uint64 \<longrightarrow>
        cs_NextDigest s = d' \<and> cs_NextTransition s = timeAtEpoch c (next_epoch c e))"
  using state_next_epoch [OF assms(1), of e]
  by (cases "next_epoch c e = max_uint64"; cases "nextFork c e";
      cases "nextBlob c e (case nextFork c e of None \<Rightarrow> max_uint64 | Some f \<Rightarrow> cf_epoch f)";
      simp add: computeStateAt_def now nxt)

lemma state_total: "cl_wf c \<Longrightarrow> \<exists>s. computeStateAt c e = Inr s"
  using digestAt_total [of c e] digestAt_total [of c "next_epoch c e"] state_spec by metis

text \<open>
  The advertised state. A well-formed schedule has a state at every epoch. Its digest and
  version stay those of the schedule until the advertised next epoch, which is the first epoch
  after the current one at which a fork or a blob-parameter-only fork activates (or the far-future
  marker), and the advertised next digest and instant are those of that epoch.
\<close>

theorem state_until_next:
  assumes "cl_wf c"
  shows "\<exists>s. computeStateAt c e = Inr s \<and> cs_NextForkEpoch s = next_epoch c e \<and>
    (\<forall>e'. e \<le> e' \<and> (e' < next_epoch c e \<or> e' = e) \<longrightarrow> digestAt c e' = Inr (cs_Digest s, cs_CurrentVersion s)) \<and>
    (next_epoch c e \<noteq> max_uint64 \<longrightarrow>
       (\<exists>v. digestAt c (next_epoch c e) = Inr (cs_NextDigest s, v)) \<and>
       cs_NextTransition s = timeAtEpoch c (next_epoch c e))"
proof -
  obtain d v where now: "digestAt c e = Inr (d, v)" using digestAt_total [OF assms] by blast
  obtain d' v' where nxt: "digestAt c (next_epoch c e) = Inr (d', v')" using digestAt_total [OF assms] by blast
  have const: "digestAt c e' = Inr (d, v)" if "e \<le> e'" "e' < next_epoch c e \<or> e' = e" for e'
  proof (cases "e' = e")
    case False
    with that have lt: "e' < next_epoch c e" by simp
    have "\<not> (e < x \<and> x \<le> e')" if "x \<in> set (change_epochs c)" for x
      using next_epoch_least [OF that, of e] lt by auto
    moreover from this have "fuluEpoch c = max_uint64 \<or> \<not> (e < fuluEpoch c \<and> fuluEpoch c \<le> e')"
      using assms by (auto simp: cl_wf_def change_epochs_def)
    ultimately show ?thesis using digestAt_const [OF \<open>e \<le> e'\<close>] now by blast
  qed (simp add: now)
  obtain s where s: "computeStateAt c e = Inr s" "cs_NextForkEpoch s = next_epoch c e" "cs_Digest s = d"
      "cs_CurrentVersion s = v"
      "next_epoch c e \<noteq> max_uint64 \<longrightarrow> cs_NextDigest s = d' \<and> cs_NextTransition s = timeAtEpoch c (next_epoch c e)"
    using state_spec [OF assms now nxt] by blast
  show ?thesis using s const nxt by (intro exI [of _ s]) auto
qed

theorem state_until_next_witness:
  "\<exists>s. computeStateAt mainnet 411392 = Inr s \<and> cs_NextForkEpoch s = 412672 \<and>
     digestAt mainnet 412671 = Inr (cs_Digest s, cs_CurrentVersion s) \<and>
     cs_NextTransition s = timeAtEpoch mainnet 412672"
proof -
  have n: "next_epoch mainnet 411392 = 412672" by code_simp
  show ?thesis
    using state_until_next [OF mainnet_wf(1), of 411392] unfolding n by (elim exE) (rule exI, auto)
qed

section \<open>Every digest of the schedule is recognised\<close>

definition digests_ok :: "clNetwork \<Rightarrow> bool" where
  "digests_ok c \<longleftrightarrow> cl_digests c = None \<or> cl_digests c = cl_digests (compute (c\<lparr>cl_digests := None\<rparr>))"

lemma schedule_frame [simp]:
  "forkAt (c\<lparr>cl_digests := x\<rparr>) e = forkAt c e" "blobAt (c\<lparr>cl_digests := x\<rparr>) e = blobAt c e"
  "rawDigest (c\<lparr>cl_digests := x\<rparr>) u = rawDigest c u"
  by (simp_all add: forkAt_def blobAt_def rawDigest_def split: list.split option.split)

lemma digest_frame [simp]:
  "digestAt (c\<lparr>cl_digests := x\<rparr>) = digestAt c"
  "fork_digest (c\<lparr>cl_digests := x\<rparr>) = fork_digest c"
  "blob_digest (c\<lparr>cl_digests := x\<rparr>) = blob_digest c"
proof -
  show d: "digestAt (c\<lparr>cl_digests := x\<rparr>) = digestAt c"
    by (rule ext) (simp add: digestAt_def cong: if_cong)
  show "fork_digest (c\<lparr>cl_digests := x\<rparr>) = fork_digest c" by (rule ext) (simp add: fork_digest_def d)
  show "blob_digest (c\<lparr>cl_digests := x\<rparr>) = blob_digest c" by (rule ext) (simp add: blob_digest_def d)
qed

lemma set_map_filter: "d \<in> set (List.map_filter f xs) \<longleftrightarrow> Some d \<in> f ` set xs"
  by (induction xs) (auto simp: map_filter_simps split: option.splits)

lemma has_digest_iff:
  assumes "digests_ok c"
  shows "has_digest c d \<longleftrightarrow>
    Some d \<in> fork_digest c ` set (cl_forks c) \<or> Some d \<in> blob_digest c ` set (blobSchedule c)"
proof -
  have "cl_digests (compute c) = Some (List.map_filter (fork_digest c) (cl_forks c) @
      List.map_filter (blob_digest c) (blobSchedule c))"
    using assms by (cases "cl_digests c") (simp_all add: digests_ok_def compute_def)
  then show ?thesis by (simp add: has_digest_def set_map_filter)
qed

lemma in_takeWhile_sorted:
  "sorted (map key xs) \<Longrightarrow> y \<in> set xs \<Longrightarrow> key y \<le> (e :: u64) \<Longrightarrow> y \<in> set (takeWhile (\<lambda>x. key x \<le> e) xs)"
  by (induction xs) (auto dest: order_trans)

lemma sorted_le_last: "sorted (map key xs) \<Longrightarrow> y \<in> set xs \<Longrightarrow> key y \<le> (key (last xs) :: u64)"
  by (induction xs) auto

lemma last_takeWhile_sorted:
  assumes "sorted (map key xs)" and "y \<in> set xs" and "key y \<le> (e :: u64)"
  shows "key y \<le> key (last (takeWhile (\<lambda>x. key x \<le> e) xs))"
proof -
  have "sorted (map key (takeWhile (\<lambda>x. key x \<le> e) xs))"
    using assms(1) by (metis sorted_append takeWhile_dropWhile_id map_append)
  then show ?thesis by (rule sorted_le_last [OF _ in_takeWhile_sorted [OF assms]])
qed

lemma forkAt_sorted:
  assumes "cl_wf c" and "forkAt c e = Inr f"
  shows "f \<in> set (cl_forks c)" and "cf_epoch f \<le> e"
    and "\<And>g. g \<in> set (cl_forks c) \<Longrightarrow> cf_epoch g \<le> e \<Longrightarrow> cf_epoch g \<le> cf_epoch f"
proof -
  obtain a fs where c: "cl_forks c = a # fs" using assms(1) by (cases "cl_forks c") (auto simp: cl_wf_def)
  then have f: "f = last (takeWhile (\<lambda>f. cf_epoch f \<le> e) (a # fs))"
    using assms by (simp add: forkAt_def forkAt_loop_last cl_wf_def)
  moreover have ne: "takeWhile (\<lambda>f. cf_epoch f \<le> e) (a # fs) \<noteq> []"
    using assms(1) c by (simp add: cl_wf_def)
  ultimately have in_tw: "f \<in> set (takeWhile (\<lambda>f. cf_epoch f \<le> e) (a # fs))"
    using last_in_set by blast
  show "f \<in> set (cl_forks c)" "cf_epoch f \<le> e" using set_takeWhileD [OF in_tw] c by simp_all
  show "cf_epoch g \<le> cf_epoch f" if "g \<in> set (cl_forks c)" "cf_epoch g \<le> e" for g
    using last_takeWhile_sorted [of cf_epoch "a # fs" g e] that c f assms(1) by (simp add: cl_wf_def)
qed

lemma blobAt_sorted:
  assumes "cl_wf c" and "blobAt c e = Inr bp"
  shows "bp \<in> set (blobSchedule c)" and "bp_epoch bp \<notin> set (cancelledBPOs c)" and "bp_epoch bp \<le> e"
    and "\<And>g. g \<in> set (blobSchedule c) \<Longrightarrow> bp_epoch g \<notin> set (cancelledBPOs c) \<Longrightarrow>
           bp_epoch g \<le> e \<Longrightarrow> bp_epoch g \<le> bp_epoch bp"
proof -
  let ?xs = "filter (\<lambda>b. bp_epoch b \<notin> set (cancelledBPOs c)) (blobSchedule c)"
  have sorted: "sorted (map bp_epoch ?xs)" using assms(1) by (simp add: cl_wf_def sorted_filter)
  have ne: "takeWhile (\<lambda>b. bp_epoch b \<le> e) ?xs \<noteq> []" and bp: "bp = last (takeWhile (\<lambda>b. bp_epoch b \<le> e) ?xs)"
    using assms(2) by (auto simp: blobAt_def blobAt_loop_last Let_def split: if_splits)
  have in_tw: "bp \<in> set (takeWhile (\<lambda>b. bp_epoch b \<le> e) ?xs)" using ne bp last_in_set by blast
  show "bp \<in> set (blobSchedule c)" "bp_epoch bp \<notin> set (cancelledBPOs c)" "bp_epoch bp \<le> e"
    using set_takeWhileD [OF in_tw] by auto
  show "bp_epoch g \<le> bp_epoch bp"
    if "g \<in> set (blobSchedule c)" "bp_epoch g \<notin> set (cancelledBPOs c)" "bp_epoch g \<le> e" for g
    using last_takeWhile_sorted [OF sorted, of g e] that bp by simp
qed

text \<open>
  C28: no record of the network is unclassified because of its digest: every digest the schedule
  produces at some epoch is in the digest set that classifies records.
\<close>

theorem scheduled_digest_recognised:
  assumes "cl_wf c" and "digests_ok c" and "digestAt c e = Inr (d, v)"
  shows "has_digest c d"
proof -
  obtain f where f: "forkAt c e = Inr f" using assms(3) by (cases "forkAt c e") (simp_all add: digestAt_def)
  note fs = forkAt_sorted [OF assms(1) f]
  show ?thesis
  proof (cases "fuluEpoch c \<noteq> max_uint64 \<and> fuluEpoch c \<le> e")
    case False
    then have "d = rawDigest c (cf_version f)" using assms(3) f by (auto simp: digestAt_def Let_def)
    then have "fork_digest c f = Some d" using False fs(2) by (auto simp: fork_digest_def)
    then show ?thesis using fs(1) by (auto simp: has_digest_iff [OF assms(2)] image_iff intro!: bexI [of _ f])
  next
    case True
    then obtain bp where b: "blobAt c e = Inr bp" using assms(3) f
      by (cases "blobAt c e") (simp_all add: digestAt_def Let_def)
    note bs = blobAt_sorted [OF assms(1) b]
    have fulu: "fuluEpoch c \<le> cf_epoch f" using assms(1) True fs(3) by (auto simp: cl_wf_def)
    define m where "m = max (cf_epoch f) (bp_epoch bp)"
    have "\<not> (m < x \<and> x \<le> e)" if "x \<in> set (change_epochs c)" for x
      using that fs(3) bs(4) by (fastforce simp: m_def change_epochs_def)
    then have "digestAt c m = Inr (d, v)"
      using assms(3) digestAt_const [of m e c "(d, v)"] fs(2) bs(3) fulu by (auto simp: m_def)
    then have "fork_digest c f = Some d \<or> blob_digest c bp = Some d"
      using bs(2) fulu True by (auto simp: m_def fork_digest_def blob_digest_def max_def split: if_splits)
    then show ?thesis using fs(1) bs(1) unfolding has_digest_iff [OF assms(2)] by (metis image_eqI)
  qed
qed

theorem scheduled_digest_recognised_witness:
  "\<exists>d v. digestAt mainnet 419072 = Inr (d, v) \<and> has_digest mainnet d"
proof -
  have "digests_ok mainnet" unfolding digests_ok_def by (rule disjI1) code_simp
  then show ?thesis
    using digestAt_total [OF mainnet_wf(1), of 419072] scheduled_digest_recognised [OF mainnet_wf(1)] by blast
qed

section \<open>The cached state\<close>

interpretation cl_memo: memo "epochAt c" "\<lambda>at. computeStateAt c (epochAt c at)" for c
  by unfold_locales simp

lemma cl_state_frame [simp]:
  "epochAt (c\<lparr>cl_state := m\<rparr>) = epochAt c" "computeStateAt (c\<lparr>cl_state := m\<rparr>) = computeStateAt c"
proof -
  have t: "epochDuration (c\<lparr>cl_state := m\<rparr>) = epochDuration c" by (simp add: epochDuration_def)
  show "epochAt (c\<lparr>cl_state := m\<rparr>) = epochAt c" 
    by (rule ext) (simp add: epochAt_def t Let_def split: option.split)
  have [simp]: "timeAtEpoch (c\<lparr>cl_state := m\<rparr>) = timeAtEpoch c" 
    by (rule ext) (simp add: timeAtEpoch_def t Let_def split: option.split)
  have [simp]: "forkAt (c\<lparr>cl_state := m\<rparr>) e = forkAt c e" "blobAt (c\<lparr>cl_state := m\<rparr>) e = blobAt c e"
    "rawDigest (c\<lparr>cl_state := m\<rparr>) u = rawDigest c u" for e u
    by (simp_all add: forkAt_def blobAt_def rawDigest_def split: list.split option.split)
  have [simp]: "digestAt (c\<lparr>cl_state := m\<rparr>) = digestAt c"
    by (rule ext) (simp add: digestAt_def cong: if_cong)
  have [simp]: "nextFork (c\<lparr>cl_state := m\<rparr>) e = nextFork c e" "nextBlob (c\<lparr>cl_state := m\<rparr>) e e' = nextBlob c e e'"
    for e e' by (simp_all add: nextFork_def nextBlob_def)
  show "computeStateAt (c\<lparr>cl_state := m\<rparr>) = computeStateAt c"
    by (rule ext) (simp add: computeStateAt_def cong: if_cong)
qed

lemma stateAt_memo:
  "stateAt c at = (fst (cl_memo.memo_get c (cl_state c) at),
     c\<lparr>cl_state := snd (cl_memo.memo_get c (cl_state c) at)\<rparr>)"
  by (auto simp: stateAt_def cl_memo.memo_get_def cl_memo.memo_miss_def Let_def
      split: option.splits sum.splits)

lemma memo_get_frame [simp]: "cl_memo.memo_get (c\<lparr>cl_state := m\<rparr>) = cl_memo.memo_get c"
  by (intro ext) (simp add: cl_memo.memo_get_def cl_memo.memo_miss_def)

lemma stateAt_run:
  "fold (\<lambda>at c. snd (stateAt c at)) ats c =
     c\<lparr>cl_state := fold (\<lambda>at m. snd (cl_memo.memo_get c m at)) ats (cl_state c)\<rparr>"
proof (induction ats arbitrary: c)
  case (Cons at ats)
  have "snd (stateAt c at) = c\<lparr>cl_state := snd (cl_memo.memo_get c (cl_state c) at)\<rparr>"
    by (simp add: stateAt_memo)
  then show ?case by (simp add: Cons)
qed simp

text \<open>
  The cache of the networking state is transparent: whatever queries filled it, an answer is
  the state computed from the schedule for the epoch of the query.
\<close>

theorem state_cache_transparent:
  assumes "cl_state c = None"
  shows "fst (stateAt (fold (\<lambda>at c. snd (stateAt c at)) ats c) at) = computeStateAt c (epochAt c at)"
  using cl_memo.memo_get_sound(1) [OF cl_memo.memo_run_ok [OF cl_memo.memo_ok_None], of c ats at] assms
  unfolding stateAt_run by (simp add: stateAt_memo)

theorem state_cache_transparent_witness:
  "fst (stateAt (snd (stateAt mainnet (unix_time 1764798551))) (unix_time 1764798560)) =
     computeStateAt mainnet (epochAt mainnet (unix_time 1764798560))"
proof -
  have "cl_state mainnet = None" by code_simp
  then show ?thesis using state_cache_transparent [of mainnet "[unix_time 1764798551]"] by simp
qed

section \<open>The ENR entry\<close>

lemma forkAt_in: "cl_wf c \<Longrightarrow> forkAt c e = Inr f \<Longrightarrow> length (cf_version f) = 4"
  using forkAt_sorted(1) [of c e f] by (simp add: cl_wf_def)

lemma digestAt_lengths:
  assumes "cl_wf c" and "digestAt c e = Inr (d, v)"
  shows "length d = 4" and "length v = 4"
proof -
  obtain f where f: "forkAt c e = Inr f" using assms(2) by (cases "forkAt c e") (simp_all add: digestAt_def)
  have raw: "length (rawDigest c u) = 4" and blob: "length (take 4 (blobMask bp)) = 4" for u bp
    by (simp_all add: rawDigest_def forkDataRoot_def blobMask_def)
  have "length d = 4 \<and> v = cf_version f"
  proof (cases "fuluEpoch c \<noteq> max_uint64 \<and> fuluEpoch c \<le> e")
    case True
    then obtain bp where "blobAt c e = Inr bp" using assms(2) f
      by (cases "blobAt c e") (simp_all add: digestAt_def Let_def)
    then have "digestAt c e =
        Inr (map2 (XOR) (rawDigest c (cf_version f)) (take 4 (blobMask bp)), cf_version f)"
      using f True by (simp add: digestAt_def Let_def)
    with assms(2) have "d = map2 (XOR) (rawDigest c (cf_version f)) (take 4 (blobMask bp))" "v = cf_version f"
      by auto
    then show ?thesis by (simp only: length_map length_zip raw blob min.idem simp_thms)
  next
    case False
    then have "d = rawDigest c (cf_version f)" "v = cf_version f"
      using assms(2) f by (auto simp: digestAt_def Let_def)
    then show ?thesis by (simp add: raw)
  qed
  then show "length d = 4" "length v = 4" using forkAt_in [OF assms(1) f] by simp_all
qed

lemma state_lengths:
  assumes "cl_wf c" and "computeStateAt c e = Inr s"
  shows "length (cs_Digest s) = 4" and "length (cs_NextForkVersion s) = 4"
proof -
  obtain d v where d: "digestAt c e = Inr (d, v)" using digestAt_total [OF assms(1)] by blast
  note len = digestAt_lengths [OF assms(1) d]
  have nf: "length (cf_version f) = 4" if "nextFork c e = Some f" for f
    using assms(1) that find_SomeD [of _ _ f] by (auto simp: nextFork_def cl_wf_def)
  obtain d' v' where d': "digestAt c (next_epoch c e) = Inr (d', v')" using digestAt_total [OF assms(1)] by blast
  have "cs_Digest s = d \<and> length (cs_NextForkVersion s) = 4"
    using assms(2) nf len state_next_epoch [OF assms(1), of e]
    by (cases "next_epoch c e = max_uint64"; cases "nextFork c e";
        cases "nextBlob c e (case nextFork c e of None \<Rightarrow> max_uint64 | Some f \<Rightarrow> cf_epoch f)";
        simp add: computeStateAt_def d d'; clarsimp)
  then show "length (cs_Digest s) = 4" "length (cs_NextForkVersion s) = 4" using len by simp_all
qed

text \<open>
  The \<^verbatim>\<open>eth2\<close> entry made from a state is sixteen bytes long, and the tracked set reads the
  same digest, next version and next epoch back from it.
\<close>

theorem enr_entry_roundtrip:
  assumes "cl_wf c" and "computeStateAt c e = Inr s"
  shows "length (ENRForkID s) = 16 \<and>
    clForkSchedule (ENRForkID s) = \<lparr>sch_Digest = hex_EncodeToString (cs_Digest s),
      sch_NextVersion = hex_EncodeToString (cs_NextForkVersion s), sch_NextEpoch = cs_NextForkEpoch s\<rparr>"
  using state_lengths [OF assms] by (simp add: ENRForkID_def clForkSchedule_def)

theorem enr_entry_roundtrip_witness:
  "\<exists>s. computeStateAt mainnet 419072 = Inr s \<and> length (ENRForkID s) = 16 \<and>
     sch_NextEpoch (clForkSchedule (ENRForkID s)) = cs_NextForkEpoch s"
proof -
  obtain s where "computeStateAt mainnet 419072 = Inr s"
    using state_total [OF mainnet_wf(1)] by blast
  then show ?thesis using enr_entry_roundtrip [OF mainnet_wf(1)] by fastforce
qed

end
