(* ===== verification/ForkIdProps.thy ===== *)
theory ForkIdProps
  imports NetworkForks ConsensusProps
begin

text \<open>
  What the execution-layer fork identifiers promise: the identifier is the one EIP-2124 defines
  over the set of forks, the cache keyed by the fork era is transparent, the classification window
  holds exactly the identifiers of its instants, and a row is current exactly when its hash is the
  current one and its next fork is absent or still ahead.
\<close>

section \<open>Loading\<close>

text \<open>What \<^verbatim>\<open>load\<close> establishes and every method relies on.\<close>

definition load_ok :: "Network \<Rightarrow> bool" where
  "load_ok n \<longleftrightarrow> (nw_loaded n \<longrightarrow>
     nw_idTimes n = idForkTimes (nw_elForks n) (nw_genesisTime n) \<and>
     nw_idBlocks n = forkBlocks (nw_ChainConfig n))"

lemma add_cancelled_frame [simp]:
  "nw_Name (add_cancelled m x n) = nw_Name n" "nw_idTimes (add_cancelled m x n) = nw_idTimes n"
  "nw_idBlocks (add_cancelled m x n) = nw_idBlocks n" "nw_elForks (add_cancelled m x n) = nw_elForks n"
  "nw_genesisTime (add_cancelled m x n) = nw_genesisTime n" "nw_loaded (add_cancelled m x n) = nw_loaded n"
  "nw_genesisHash (add_cancelled m x n) = nw_genesisHash n" "nw_fork (add_cancelled m x n) = nw_fork n"
  "nw_ChainConfig (add_cancelled m x n) = nw_ChainConfig n" "nw_hashes (add_cancelled m x n) = nw_hashes n"
  "nw_cl (add_cancelled m x n) = nw_cl n"
  by (simp_all add: add_cancelled_def split: prod.split)

lemma fold_add_cancelled_frame [simp]:
  "nw_Name (fold (add_cancelled m) xs n) = nw_Name n" "nw_idTimes (fold (add_cancelled m) xs n) = nw_idTimes n"
  "nw_idBlocks (fold (add_cancelled m) xs n) = nw_idBlocks n" "nw_elForks (fold (add_cancelled m) xs n) = nw_elForks n"
  "nw_genesisTime (fold (add_cancelled m) xs n) = nw_genesisTime n" "nw_loaded (fold (add_cancelled m) xs n) = nw_loaded n"
  "nw_genesisHash (fold (add_cancelled m) xs n) = nw_genesisHash n" "nw_fork (fold (add_cancelled m) xs n) = nw_fork n"
  "nw_ChainConfig (fold (add_cancelled m) xs n) = nw_ChainConfig n" "nw_hashes (fold (add_cancelled m) xs n) = nw_hashes n"
  "nw_cl (fold (add_cancelled m) xs n) = nw_cl n"
  by (induction xs arbitrary: n) simp_all

lemma indexCancellations_frame [simp]:
  "nw_Name (indexCancellations n) = nw_Name n" "nw_idTimes (indexCancellations n) = nw_idTimes n"
  "nw_idBlocks (indexCancellations n) = nw_idBlocks n" "nw_elForks (indexCancellations n) = nw_elForks n"
  "nw_genesisTime (indexCancellations n) = nw_genesisTime n" "nw_loaded (indexCancellations n) = nw_loaded n"
  "nw_genesisHash (indexCancellations n) = nw_genesisHash n" "nw_fork (indexCancellations n) = nw_fork n"
  "nw_ChainConfig (indexCancellations n) = nw_ChainConfig n" "nw_hashes (indexCancellations n) = nw_hashes n"
  "nw_cl (indexCancellations n) = nw_cl n"
  by (simp_all add: indexCancellations_def Let_def)

lemma load_frame [simp]:
  "nw_Name (load n) = nw_Name n" "nw_genesisTime (load n) = nw_genesisTime n"
  "nw_genesisHash (load n) = nw_genesisHash n" "nw_ChainConfig (load n) = nw_ChainConfig n"
  "nw_fork (load n) = nw_fork n" "nw_hashes (load n) = nw_hashes n" "nw_loaded (load n)"
  "nw_cl (load n) = nw_cl n"
  by (simp_all add: load_def Let_def)

lemma load_load [simp]: "load (load n) = load n"
  by (simp add: load_def [of "load n"])

lemma load_load_ok [simp]: "load_ok n \<Longrightarrow> load_ok (load n)"
  by (simp add: load_ok_def load_def Let_def)

lemma load_okD:
  assumes "load_ok n"
  shows "nw_idTimes (load n) = idForkTimes (nw_elForks (load n)) (nw_genesisTime n)"
    and "nw_idBlocks (load n) = forkBlocks (nw_ChainConfig n)"
  using load_load_ok [OF assms] by (simp_all add: load_ok_def)

section \<open>The identifier as EIP-2124 defines it\<close>

lemma checksum_forks_spec:
  "checksum_forks head acc fs =
     (crc32_Update acc (concat (map BigEndian_PutUint64 (takeWhile (\<lambda>f. f \<le> head) fs))),
      case dropWhile (\<lambda>f. f \<le> head) fs of [] \<Rightarrow> None | f # _ \<Rightarrow> Some f)"
  by (induction fs arbitrary: acc) (auto simp: crc32_Update_append)

lemma checksum_forks_agree:
  "(\<And>f. f \<in> set fs \<Longrightarrow> f \<le> a \<longleftrightarrow> f \<le> b) \<Longrightarrow> checksum_forks a acc fs = checksum_forks b acc fs"
  by (induction fs arbitrary: acc) (auto simp: not_less [symmetric])

lemma distinct_remdups_adj: "sorted xs \<Longrightarrow> distinct (remdups_adj (xs :: 'a :: linorder list))"
  by (induction xs rule: remdups_adj.induct) (auto simp: order.antisym)

lemma remdups_adj_sort: "remdups_adj (sort xs) = sorted_list_of_set (set xs)"
  by (rule sorted_distinct_set_unique) (auto simp: sorted_remdups_adj distinct_remdups_adj)

text \<open>The encoded forks of a finite set, in increasing order.\<close>

definition fork_bytes :: "u64 set \<Rightarrow> byte list" where
  "fork_bytes S = concat (map BigEndian_PutUint64 (sorted_list_of_set S))"

definition next_fork :: "u64 set \<Rightarrow> u64" where
  "next_fork S = (if S = {} then 0 else Min S)"

definition fork_id_ref :: "byte list \<Rightarrow> u64 set \<Rightarrow> u64 set \<Rightarrow> u64 \<Rightarrow> forkid" where
  "fork_id_ref genesis B T at =
     (let passed = fork_bytes {b \<in> B. b \<le> forkHeadBlock}; ahead = {b \<in> B. forkHeadBlock < b} in
      if ahead \<noteq> {} then \<lparr>fid_Hash = checksumBytes (crc32_ChecksumIEEE (genesis @ passed)), fid_Next = next_fork ahead\<rparr>
      else \<lparr>fid_Hash = checksumBytes (crc32_ChecksumIEEE (genesis @ passed @ fork_bytes {t \<in> T. t \<le> at})),
            fid_Next = next_fork {t \<in> T. at < t}\<rparr>)"

lemma takeWhile_sorted_set:
  assumes "sorted xs" and "distinct xs"
  shows "takeWhile (\<lambda>x. x \<le> (a :: u64)) xs = sorted_list_of_set {x \<in> set xs. x \<le> a}"
proof (rule sorted_distinct_set_unique)
  show "set (takeWhile (\<lambda>x. x \<le> a) xs) = set (sorted_list_of_set {x \<in> set xs. x \<le> a})"
    using in_takeWhile_sorted [of "\<lambda>x. x" xs _ a] assms(1) set_takeWhileD by fastforce
qed (use assms in \<open>auto simp: sorted_takeWhile distinct_takeWhile\<close>)

lemma dropWhile_sorted_next:
  assumes "sorted xs"
  shows "(case dropWhile (\<lambda>x. x \<le> (a :: u64)) xs of [] \<Rightarrow> None | f # _ \<Rightarrow> Some f) =
    (if {x \<in> set xs. a < x} = {} then None else Some (Min {x \<in> set xs. a < x}))"
  using assms
proof (induction xs)
  case (Cons x xs)
  show ?case
  proof (cases "x \<le> a")
    case True
    then have "{y \<in> set (x # xs). a < y} = {y \<in> set xs. a < y}" by auto
    with True Cons show ?thesis by simp
  next
    case False
    then have "Min {y \<in> set (x # xs). a < y} = x" using Cons.prems by (intro Min_eqI) auto
    with False show ?thesis by (auto simp: not_le)
  qed
qed simp

lemma checksum_forks_set:
  assumes "finite S"
  shows "checksum_forks head acc (sorted_list_of_set S) =
    (crc32_Update acc (fork_bytes {x \<in> S. x \<le> head}),
     if {x \<in> S. head < x} = {} then None else Some (Min {x \<in> S. head < x}))"
  using assms takeWhile_sorted_set [of "sorted_list_of_set S" head] dropWhile_sorted_next [of "sorted_list_of_set S" head]
  by (simp add: checksum_forks_spec fork_bytes_def)

lemma is_prefix_iff: "is_prefix p s \<longleftrightarrow> (\<exists>r. s = p @ r)"
  by (induction p s rule: is_prefix.induct) auto

lemma CutSuffix_iff: "strings_CutSuffix s suf = Some name \<longleftrightarrow> s = name @ suf"
proof
  assume "strings_CutSuffix s suf = Some name"
  then obtain r where "rev s = rev suf @ r" "name = take (length s - length suf) s"
    by (auto simp: strings_CutSuffix_def is_prefix_iff split: if_splits)
  then show "s = name @ suf" by (metis append_eq_conv_conj diff_add_inverse2 length_append rev_append rev_rev_ident)
qed (simp add: strings_CutSuffix_def is_prefix_iff)

text \<open>The block-numbered forks of a configuration, without the genesis ruleset.\<close>

definition block_set :: "chainConfig \<Rightarrow> u64 set" where
  "block_set cfg = {word_of_int \<bar>b\<bar> | name b. (name @ ''Block'', CfgBig (Some b)) \<in> set cfg} - {0}"

lemma drop_genesis_fork:
  assumes "finite S"
  shows "(case sorted_list_of_set S of b # bs \<Rightarrow> if b = 0 then bs else sorted_list_of_set S | [] \<Rightarrow> []) =
    sorted_list_of_set (S - {0 :: u64})"
proof (cases "S = {}")
  case False
  note ne = sorted_list_of_set_nonempty [OF assms False]
  show ?thesis
  proof (cases "0 \<in> S")
    case True
    then have "Min S = 0" using assms by (intro Min_eqI) simp_all
    then show ?thesis by (simp add: ne)
  next
    case out: False
    then have "Min S \<noteq> 0" using Min_in [OF assms False] by metis
    moreover have "S - {0} = S" using out by simp
    ultimately show ?thesis by (simp add: ne)
  qed
qed simp

definition block_field :: "string \<times> cfg_field \<Rightarrow> u64 option" where
  "block_field = (\<lambda>(field, v). case (strings_CutSuffix field ''Block'', v) of
     (Some _, CfgBig (Some b)) \<Rightarrow> Some (word_of_int \<bar>b\<bar>) | _ \<Rightarrow> None)"

lemma block_field_iff:
  "block_field (field, v) = Some x \<longleftrightarrow>
     (\<exists>name b. field = name @ ''Block'' \<and> v = CfgBig (Some b) \<and> x = word_of_int \<bar>b\<bar>)"
proof (cases "strings_CutSuffix field ''Block''")
  case None
  then have "field \<noteq> name @ ''Block''" for name using CutSuffix_iff [of field "''Block''" name] by auto
  with None show ?thesis by (simp add: block_field_def)
next
  case (Some name)
  then have "field = name @ ''Block''" by (simp only: CutSuffix_iff)
  with Some show ?thesis by (auto simp: block_field_def split: cfg_field.split option.split)
qed

lemma block_set_fields: "block_set cfg = set (List.map_filter block_field cfg) - {0}"
proof -
  have "x \<in> set (List.map_filter block_field cfg) \<longleftrightarrow>
      (\<exists>name b. (name @ ''Block'', CfgBig (Some b)) \<in> set cfg \<and> x = word_of_int \<bar>b\<bar>)" for x
  proof -
    have "x \<in> set (List.map_filter block_field cfg) \<longleftrightarrow> (\<exists>field v. (field, v) \<in> set cfg \<and> block_field (field, v) = Some x)"
      unfolding set_map_filter image_iff by (metis surj_pair)
    then show ?thesis unfolding block_field_iff by blast
  qed
  then show ?thesis unfolding block_set_def by blast
qed

lemma forkBlocks_set: "forkBlocks cfg = sorted_list_of_set (block_set cfg)" "finite (block_set cfg)"
  unfolding forkBlocks_def block_field_def [symmetric] remdups_adj_sort Let_def block_set_fields
  using drop_genesis_fork [of "set (List.map_filter block_field cfg)"] by simp_all

definition time_set :: "Network \<Rightarrow> u64 set" where
  "time_set n = {ef_time f | f. f \<in> set (nw_elForks n) \<and> nw_genesisTime n < ef_time f}"

lemma idForkTimes_set:
  "idForkTimes (nw_elForks n) (nw_genesisTime n) = sorted_list_of_set (time_set n)" "finite (time_set n)"
proof -
  have "time_set n = set (map ef_time (filter (\<lambda>f. nw_genesisTime n < ef_time f) (nw_elForks n)))"
    by (auto simp: time_set_def)
  then show "idForkTimes (nw_elForks n) (nw_genesisTime n) = sorted_list_of_set (time_set n)" "finite (time_set n)"
    by (simp_all add: idForkTimes_def remdups_adj_sort)
qed

text \<open>
  C22: the fork identifier of a network at a time is the one EIP-2124 defines over the set of its
  forks: the checksum of the genesis hash and the passed forks in increasing order, each once and
  without the genesis ruleset, and the smallest fork still ahead.
\<close>

theorem fork_id_is_eip2124:
  assumes "load_ok n"
  shows "forkIDAt n at = fork_id_ref (nw_genesisHash n) (block_set (nw_ChainConfig n)) (time_set (load n)) at"
proof -
  note blocks = checksum_forks_set [OF forkBlocks_set(2)]
  note ids = checksum_forks_set [OF idForkTimes_set(2)]
  have "nw_idTimes (load n) = sorted_list_of_set (time_set (load n))"
    using load_okD(1) [OF assms] idForkTimes_set(1) [of "load n"] by simp
  then show ?thesis
    by (cases "{b \<in> block_set (nw_ChainConfig n). forkHeadBlock < b} = {}"; cases "{t \<in> time_set (load n). at < t} = {}")
      (simp_all del: Collect_empty_eq empty_Collect_eq add: forkIDAt_def forkIDFrom_def load_okD(2) [OF assms] forkBlocks_set(1) blocks ids
        fork_id_ref_def next_fork_def crc32_ChecksumIEEE_def crc32_Update_append Let_def)
qed

text \<open>A small network: one block fork, two time forks of which one is in the genesis ruleset.\<close>

definition sample_network :: Network where
  "sample_network =
     \<lparr>nw_Name = ''sample'', nw_NetworkID = 7,
      nw_ChainConfig = [(''LondonBlock'', CfgBig (Some 5)), (''ShanghaiTime'', CfgTime (Some 1000)),
                        (''CancunTime'', CfgTime (Some 2000000000)), (''ChainID'', CfgBig (Some 7))],
      nw_genesisHash = [1, 2, 3, 4], nw_genesisTime = 1000, nw_genesisDifficulty = 1,
      nw_cl = Some mainnet, nw_bootnodes = [], nw_clBootnodes = [], nw_extraELForks = [],
      nw_cancellations = [], nw_originalCL = None, nw_cancelledHashes = [], nw_cancelledELHex = [],
      nw_cancelledCLHex = [], nw_loaded = False, nw_elForks = [], nw_idBlocks = [], nw_idTimes = [],
      nw_hashes = None, nw_fork = None\<rparr>"

lemma sample_network_ok: "load_ok sample_network"
  by (simp add: load_ok_def sample_network_def)

theorem fork_id_is_eip2124_witness:
  "forkIDAt sample_network 1700000000 =
     fork_id_ref [1, 2, 3, 4] (block_set (nw_ChainConfig sample_network)) (time_set (load sample_network)) 1700000000"
  using fork_id_is_eip2124 [OF sample_network_ok] by (simp add: sample_network_def)

section \<open>The era is a sound cache key\<close>

lemma clampUnix_range: "0 \<le> clampUnix at" "clampUnix at \<le> max_int64"
  using int64_range(2) by (simp_all add: clampUnix_def Unix64_def)

lemma uint_clampUnix [simp]: "uint (word_of_int (clampUnix at) :: u64) = clampUnix at"
  using clampUnix_range by (rule word_of_int_small)

definition era_fold :: "int \<Rightarrow> int \<Rightarrow> elForkTime list \<Rightarrow> int" where
  "era_fold unix era fs = foldl (\<lambda>era f. let t = sint (ef_time f) in if t \<le> unix \<and> era < t then t else era) era fs"

lemma forkEraAt_fold: "forkEraAt n at = era_fold (clampUnix at) 0 (nw_elForks n)"
  by (simp add: forkEraAt_def era_fold_def)

lemma era_fold_bounds:
  assumes "era \<le> unix"
  shows "era \<le> era_fold unix era fs \<and> era_fold unix era fs \<le> unix \<and>
    (\<forall>f\<in>set fs. sint (ef_time f) \<le> unix \<longrightarrow> sint (ef_time f) \<le> era_fold unix era fs)"
  using assms
proof (induction fs arbitrary: era)
  case (Cons f fs)
  define era' where "era' = (if sint (ef_time f) \<le> unix \<and> era < sint (ef_time f) then sint (ef_time f) else era)"
  have "era' \<le> unix" "era \<le> era'" "sint (ef_time f) \<le> unix \<Longrightarrow> sint (ef_time f) \<le> era'"
    using Cons.prems by (auto simp: era'_def)
  with Cons.IH [of era'] show ?case
    by (auto simp: era_fold_def Let_def era'_def [symmetric] intro: order_trans)
qed (simp add: era_fold_def)

lemma forkEraAt_bounds:
  "0 \<le> forkEraAt n at" "forkEraAt n at \<le> clampUnix at"
  "f \<in> set (nw_elForks n) \<Longrightarrow> sint (ef_time f) \<le> clampUnix at \<Longrightarrow> sint (ef_time f) \<le> forkEraAt n at"
  using era_fold_bounds [of 0 "clampUnix at" "nw_elForks n"] clampUnix_range(1) [of at]
  by (auto simp: forkEraAt_fold)

lemma time_passed_iff:
  assumes "f \<in> set (nw_elForks n)"
  shows "ef_time f \<le> word_of_int (clampUnix at) \<longleftrightarrow> uint (ef_time f) \<le> forkEraAt n at"
proof
  assume "ef_time f \<le> word_of_int (clampUnix at)"
  then have "uint (ef_time f) \<le> clampUnix at" by (simp add: word_le_def)
  moreover from this have "sint (ef_time f) = uint (ef_time f)"
    using clampUnix_range(2) [of at] by (intro sint_small) linarith
  ultimately show "uint (ef_time f) \<le> forkEraAt n at" using forkEraAt_bounds(3) [OF assms, of at] by simp
next
  assume "uint (ef_time f) \<le> forkEraAt n at"
  then show "ef_time f \<le> word_of_int (clampUnix at)"
    using forkEraAt_bounds(2) [of n at] by (simp add: word_le_def)
qed

lemma forkIDAt_agree:
  assumes "load_ok n" and "\<And>t. t \<in> time_set (load n) \<Longrightarrow> t \<le> a \<longleftrightarrow> t \<le> b"
  shows "forkIDAt n a = forkIDAt n b"
proof -
  have "nw_idTimes (load n) = sorted_list_of_set (time_set (load n))"
    using load_okD(1) [OF assms(1)] idForkTimes_set(1) [of "load n"] by simp
  then have "checksum_forks a s (nw_idTimes (load n)) = checksum_forks b s (nw_idTimes (load n))" for s
    using assms(2) idForkTimes_set(2) [of "load n"] by (intro checksum_forks_agree) simp
  then show ?thesis by (simp add: forkIDAt_def forkIDFrom_def)
qed

text \<open>A network as \<^verbatim>\<open>load\<close> leaves it.\<close>

definition fresh :: "Network \<Rightarrow> Network" where
  "fresh n = load (n\<lparr>nw_loaded := False\<rparr>)"

lemma fresh_ok [simp]: "load_ok (fresh n)" "load (fresh n) = fresh n"
  by (simp_all add: fresh_def load_ok_def load_okD)

lemma era_sound:
  assumes "load_ok n" and "forkEraAt (load n) a = forkEraAt (load n) b"
  shows "currentForkIDAt n a = currentForkIDAt n b"
  unfolding currentForkIDAt_def
  by (rule forkIDAt_agree [OF assms(1)]) (auto simp: time_set_def time_passed_iff assms(2))

interpretation el_memo: memo "forkEraAt (fresh n)" "\<lambda>at. Inr (currentForkIDAt (fresh n) at) :: unit + forkid" for n
  by unfold_locales (rule arg_cong [of _ _ Inr], rule era_sound, simp_all)

lemma load_fork_frame:
  assumes "nw_loaded n"
  shows "forkEraAt (n\<lparr>nw_fork := m\<rparr>) = forkEraAt n" "currentForkIDAt (n\<lparr>nw_fork := m\<rparr>) = currentForkIDAt n"
    "load (n\<lparr>nw_fork := m\<rparr>) = n\<lparr>nw_fork := m\<rparr>"
proof -
  show l: "load (n\<lparr>nw_fork := m\<rparr>) = n\<lparr>nw_fork := m\<rparr>" using assms by (simp add: load_def)
  show "forkEraAt (n\<lparr>nw_fork := m\<rparr>) = forkEraAt n" by (rule ext) (simp add: forkEraAt_def)
  have "forkIDFrom (n\<lparr>nw_fork := m\<rparr>) ts at = forkIDFrom n ts at" for ts at by (simp add: forkIDFrom_def)
  moreover have "load n = n" using assms by (simp add: load_def)
  ultimately show "currentForkIDAt (n\<lparr>nw_fork := m\<rparr>) = currentForkIDAt n"
    by (intro ext) (simp add: currentForkIDAt_def forkIDAt_def l Let_def)
qed

lemma CurrentForkIDAt_memo:
  "CurrentForkIDAt ((fresh n)\<lparr>nw_fork := m\<rparr>) at =
     (case el_memo.memo_get n m at of (r, m') \<Rightarrow>
        (case r of Inr fid \<Rightarrow> fid | Inl _ \<Rightarrow> currentForkIDAt (fresh n) at, (fresh n)\<lparr>nw_fork := m'\<rparr>))"
proof -
  have l: "nw_loaded (fresh n)" by (simp add: fresh_def)
  show ?thesis
    by (simp add: CurrentForkIDAt_def el_memo.memo_get_def el_memo.memo_miss_def Let_def load_fork_frame [OF l]
        split: option.split)
qed

lemma CurrentForkIDAt_run:
  "fold (\<lambda>at n. snd (CurrentForkIDAt n at)) ats ((fresh n)\<lparr>nw_fork := m\<rparr>) =
     (fresh n)\<lparr>nw_fork := fold (\<lambda>at m. snd (el_memo.memo_get n m at)) ats m\<rparr>"
  by (induction ats arbitrary: m) (simp_all add: CurrentForkIDAt_memo split: prod.split)

text \<open>
  C23: the fork id cache is transparent. Whatever instants were asked for before, the identifier
  returned for an instant is the one computed for it: two instants with the same era have the same
  identifier.
\<close>

theorem fork_cache_transparent:
  assumes "\<not> nw_loaded n" and "nw_fork n = None"
  shows "fst (CurrentForkIDAt (fold (\<lambda>at n. snd (CurrentForkIDAt n at)) ats n) at) = currentForkIDAt n at"
proof -
  have n: "n\<lparr>nw_loaded := False\<rparr> = n" using assms(1) by simp
  have f: "fresh n = load n" by (simp add: fresh_def n)
  have upd: "(fresh n)\<lparr>nw_fork := None\<rparr> = load n" using assms(2) by (simp add: f)
  have start: "CurrentForkIDAt n at = CurrentForkIDAt (load n) at" for at by (simp add: CurrentForkIDAt_def)
  have cur: "currentForkIDAt n at = currentForkIDAt (fresh n) at"
    by (simp add: currentForkIDAt_def forkIDAt_def f)
  have run: "fst (CurrentForkIDAt (fold (\<lambda>at n. snd (CurrentForkIDAt n at)) ats (load n)) at) = currentForkIDAt n at"
    using CurrentForkIDAt_run [where ats = ats and n = n and m = None]
      el_memo.memo_get_sound(1) [OF el_memo.memo_run_ok [OF el_memo.memo_ok_None], where n = n and qs1 = ats and q = at]
    by (auto simp: upd CurrentForkIDAt_memo cur split: prod.split)
  show ?thesis
  proof (cases ats)
    case Nil
    then show ?thesis using run start by simp
  next
    case (Cons a as)
    then show ?thesis using run by (simp add: start)
  qed
qed

theorem fork_cache_transparent_witness:
  "fst (CurrentForkIDAt (snd (CurrentForkIDAt sample_network (unix_time 1700000000))) (unix_time 2100000000)) =
     currentForkIDAt sample_network (unix_time 2100000000)"
  using fork_cache_transparent [of sample_network "[unix_time 1700000000]"] by (simp add: sample_network_def)

section \<open>The classification window\<close>

definition window_start :: "Network \<Rightarrow> gotime \<Rightarrow> int" where
  "window_start n at = max (uint (nw_genesisTime n)) (Unix64 at - 63072000)"

definition window_end :: "gotime \<Rightarrow> int" where
  "window_end at = Unix64 at + 31536000"

definition window_ok :: "Network \<Rightarrow> gotime \<Rightarrow> bool" where
  "window_ok n at \<longleftrightarrow> load_ok n \<and> uint (nw_genesisTime n) \<le> max_int64 \<and> 0 \<le> Unix64 at \<and> window_end at \<le> max_int64"

lemma window_start_nonneg [simp]: "0 \<le> window_start n at"
  by (simp add: window_start_def le_max_iff_disj)

lemma forkIDAt_load [simp]: "forkIDAt (load n) = forkIDAt n"
  by (rule ext) (simp add: forkIDAt_def)

lemma cancelledELHashes_load [simp]: "cancelledELHashes (load n) = cancelledELHashes n"
  by (intro ext) (simp add: cancelledELHashes_def)

lemma gatherHashes_window:
  assumes "window_ok n at"
  shows "gatherHashes (load n) at =
    (if window_end at < window_start n at then []
     else fid_Hash (forkIDAt n (word_of_int (window_start n at))) #
          map (\<lambda>f. fid_Hash (forkIDAt n (ef_time f)))
            (filter (\<lambda>f. window_start n at \<le> sint (ef_time f) \<and> sint (ef_time f) \<le> window_end at) (nw_elForks (load n))) @
          cancelledELHashes n (window_start n at) (window_end at))"
proof -
  have now: "0 \<le> Unix64 at" "Unix64 at \<le> max_int64 - 31536000" and g: "uint (nw_genesisTime n) \<le> max_int64"
    using assms by (auto simp: window_ok_def window_end_def)
  have "int64 (Unix64 at - 63072000) = Unix64 at - 63072000" "int64 (Unix64 at + 31536000) = window_end at"
    using now by (simp_all add: int64_id window_end_def)
  moreover have "(if uint (nw_genesisTime n) < Unix64 at - 63072000 then Unix64 at - 63072000
      else uint (nw_genesisTime n)) = window_start n at"
    by (simp add: window_start_def)
  ultimately show ?thesis
    by (simp add: gatherHashes_def Let_def sint_small [OF g] cong: if_cong split del: if_split)
qed

lemma window_member:
  assumes ok: "window_ok n at" and t: "window_start n at \<le> uint t" "uint t \<le> window_end at"
  shows "fid_Hash (forkIDAt n t) \<in> set (gatherHashes (load n) at)"
proof -
  have load: "load_ok n" and top: "window_end at \<le> max_int64" using ok by (simp_all add: window_ok_def)
  have start: "uint (word_of_int (window_start n at) :: u64) = window_start n at"
    using t top by (intro word_of_int_small) simp_all
  define S where "S = {x \<in> time_set (load n). window_start n at < uint x \<and> x \<le> t}"
  have fin: "finite S" using idForkTimes_set(2) [of "load n"] by (simp add: S_def)
  show ?thesis
  proof (cases "S = {}")
    case True
    have "forkIDAt n t = forkIDAt n (word_of_int (window_start n at))"
    proof (rule forkIDAt_agree [OF load])
      fix y assume "y \<in> time_set (load n)"
      with True have "\<not> (window_start n at < uint y \<and> y \<le> t)" by (auto simp: S_def)
      then show "y \<le> t \<longleftrightarrow> y \<le> word_of_int (window_start n at)"
        using t(1) unfolding word_le_def start by linarith
    qed
    then show ?thesis using t by (simp add: gatherHashes_window [OF ok])
  next
    case False
    have x: "Max S \<in> S" using Max_in [OF fin False] .
    have "forkIDAt n t = forkIDAt n (Max S)"
    proof (rule forkIDAt_agree [OF load])
      fix y assume y: "y \<in> time_set (load n)"
      show "y \<le> t \<longleftrightarrow> y \<le> Max S"
      proof
        assume "y \<le> t"
        then show "y \<le> Max S"
          using y x Max_ge [OF fin, of y] by (cases "y \<in> S") (auto simp: S_def word_le_def)
      next
        assume "y \<le> Max S"
        also have "Max S \<le> t" using x by (simp add: S_def)
        finally show "y \<le> t" .
      qed
    qed
    moreover obtain f where f: "f \<in> set (nw_elForks (load n))" "Max S = ef_time f"
      using x by (auto simp: S_def time_set_def)
    moreover have "uint (ef_time f) \<le> window_end at" "window_start n at < uint (ef_time f)"
      using x f t(2) by (auto simp: S_def word_le_def)
    moreover from this have "sint (ef_time f) = uint (ef_time f)" using top by (intro sint_small) simp
    ultimately show ?thesis using t by (auto simp: gatherHashes_window [OF ok])
  qed
qed

lemma window_only:
  assumes "window_ok n at" and h: "h \<in> set (gatherHashes (load n) at)"
  shows "(\<exists>t. window_start n at \<le> uint t \<and> uint t \<le> window_end at \<and> h = fid_Hash (forkIDAt n t)) \<or>
    h \<in> set (cancelledELHashes n (window_start n at) (window_end at))"
proof -
  have le: "window_start n at \<le> window_end at"
    using h by (auto simp: gatherHashes_window [OF assms(1)] split: if_splits)
  have top: "window_end at \<le> max_int64" using assms by (simp add: window_ok_def)
  then have start: "uint (word_of_int (window_start n at) :: u64) = window_start n at"
    using le by (intro word_of_int_small) simp_all
  have boundary: "sint (ef_time f) = uint (ef_time f)" if "window_start n at \<le> sint (ef_time f)" for f
    using order_trans [OF window_start_nonneg that] by (rule sint_nonneg)
  consider "h = fid_Hash (forkIDAt n (word_of_int (window_start n at)))"
    | f :: elForkTime where "window_start n at \<le> sint (ef_time f)" "sint (ef_time f) \<le> window_end at" "h = fid_Hash (forkIDAt n (ef_time f))"
    | "h \<in> set (cancelledELHashes n (window_start n at) (window_end at))"
    using h by (auto simp: gatherHashes_window [OF assms(1)] split: if_splits)
  then show ?thesis
  proof cases
    case 1
    then show ?thesis using le start by (intro disjI1 exI [of _ "word_of_int (window_start n at)"]) simp
  next
    case 2
    then show ?thesis using boundary [OF 2(1)] by auto
  qed simp
qed

text \<open>
  C24: the classification window, built from the boundaries inside it only, holds exactly the
  hashes of the fork identifiers at every second of the window (two years back, but not before
  genesis, and one year ahead) and the hashes of cancelled forks in the window.
\<close>

theorem window_exact:
  assumes "window_ok n at"
  shows "h \<in> set (gatherHashes (load n) at) \<longleftrightarrow>
    (\<exists>t. window_start n at \<le> uint t \<and> uint t \<le> window_end at \<and> h = fid_Hash (forkIDAt n t)) \<or>
    h \<in> set (cancelledELHashes n (window_start n at) (window_end at))"
proof
  assume "h \<in> set (gatherHashes (load n) at)"
  then show "(\<exists>t. window_start n at \<le> uint t \<and> uint t \<le> window_end at \<and> h = fid_Hash (forkIDAt n t)) \<or>
    h \<in> set (cancelledELHashes n (window_start n at) (window_end at))"
    by (rule window_only [OF assms])
next
  assume "(\<exists>t. window_start n at \<le> uint t \<and> uint t \<le> window_end at \<and> h = fid_Hash (forkIDAt n t)) \<or>
    h \<in> set (cancelledELHashes n (window_start n at) (window_end at))"
  then show "h \<in> set (gatherHashes (load n) at)"
  proof
    assume c: "h \<in> set (cancelledELHashes n (window_start n at) (window_end at))"
    then have "window_start n at \<le> window_end at" by (auto simp: cancelledELHashes_def Let_def)
    with c show ?thesis by (simp add: gatherHashes_window [OF assms])
  qed (use window_member [OF assms] in blast)
qed

lemma sample_window_ok: "window_ok sample_network (unix_time 1700000000)"
  by (simp add: window_ok_def sample_network_ok) code_simp

theorem window_exact_witness:
  "fid_Hash (forkIDAt sample_network 1700000000) \<in> set (gatherHashes (load sample_network) (unix_time 1700000000))"
proof -
  have "window_start sample_network (unix_time 1700000000) \<le> uint (1700000000 :: u64) \<and>
      uint (1700000000 :: u64) \<le> window_end (unix_time 1700000000)"
    by code_simp
  then show ?thesis
    using window_exact [OF sample_window_ok, of "fid_Hash (forkIDAt sample_network 1700000000)"] by blast
qed

text \<open>
  A peer that announces the identifier of the current instant matches its network, from
  genesis on, whether the window is missing, out of date or up to an hour old.
\<close>

theorem current_id_matches:
  assumes "load_ok n" and "uint (nw_genesisTime n) \<le> Unix64 now" and "0 \<le> now" and "now \<le> unix_time 9000000000000000000"
    and "nw_hashes n = None \<or> (\<exists>at. nw_hashes n = Some (gatherHashes (load n) at, at) \<and> 0 \<le> at \<and> at \<le> now)"
  shows "fst (Matches now n (currentForkIDAt n now))"
proof -
  have range: "Unix64 t = time_Unix t \<and> 0 \<le> time_Unix t \<and> time_Unix t \<le> 9000000000000000000"
    if "0 \<le> t" "t \<le> now" for t
  proof -
    have "time_Unix t \<le> 9000000000000000000" using time_Unix_mono [OF that(2)] time_Unix_mono [OF assms(4)] by simp
    moreover have "0 \<le> time_Unix t" using that(1) by (simp add: go_time div_int_pos_iff)
    ultimately show ?thesis by (simp add: Unix64_def int64_id)
  qed
  have now: "Unix64 now = time_Unix now" "0 \<le> time_Unix now" "time_Unix now \<le> 9000000000000000000"
    using range [of now] assms(3) by simp_all
  have u: "clampUnix now = time_Unix now" using now by (simp add: clampUnix_def)
  have w: "uint (word_of_int (time_Unix now) :: u64) = time_Unix now"
    using now by (intro word_of_int_small) simp_all
  have mem: "fid_Hash (currentForkIDAt n now) \<in> set (gatherHashes (load n) at)"
    if at: "0 \<le> at" "at \<le> now" "time_Unix now \<le> time_Unix at + 31536000" for at
  proof -
    have "window_ok n at" using assms(1,2) now range [OF at(1,2)] by (simp add: window_ok_def window_end_def)
    moreover have "time_Unix at \<le> time_Unix now" using at(2) by (rule time_Unix_mono)
    ultimately show ?thesis
      unfolding currentForkIDAt_def using assms(2) now range [OF at(1,2)] at(3)
      by (intro window_member) (simp_all add: u w window_start_def window_end_def)
  qed
  show ?thesis
  proof (cases "nw_hashes n")
    case None
    then show ?thesis using mem [of now] assms(3) by (simp add: Matches_def RefreshClassifyWindowAt_def Let_def)
  next
    case (Some hs)
    then obtain at where at: "nw_hashes n = Some (gatherHashes (load n) at, at)" "0 \<le> at" "at \<le> now"
      using assms(5) by auto
    have "time_Unix now \<le> time_Unix at + 31536000" if "time_Sub now at < hour"
    proof -
      have "now \<le> at + hour" using that at by (auto simp: time_Sub_def go_time)
      then have "time_Unix now \<le> time_Unix (at + 3600 * 1000000000)" by (intro time_Unix_mono) (simp add: go_time)
      then show ?thesis by (simp add: time_Unix_def)
    qed
    then show ?thesis
      using mem [of now] mem [of at] at assms(3)
      by (auto simp: Matches_def RefreshClassifyWindowAt_def Let_def not_le)
  qed
qed

theorem current_id_matches_witness:
  "fst (Matches (unix_time 1700000000) sample_network (currentForkIDAt sample_network (unix_time 1700000000)))"
proof -
  have "uint (nw_genesisTime sample_network) \<le> Unix64 (unix_time 1700000000)" by code_simp
  moreover have "nw_hashes sample_network = None" by (simp add: sample_network_def)
  ultimately show ?thesis
    using current_id_matches [OF sample_network_ok, of "unix_time 1700000000"] by (simp add: go_time)
qed

section \<open>The currency rule\<close>

text \<open>The caches of a network hold only what the schedule gives.\<close>

definition caches_ok :: "Network \<Rightarrow> bool" where
  "caches_ok n \<longleftrightarrow> load_ok n \<and>
     (\<forall>e i at. nw_fork n = Some (e, i) \<longrightarrow> forkEraAt (load n) at = e \<longrightarrow> currentForkIDAt n at = i) \<and>
     (\<forall>c. nw_cl n = Some c \<longrightarrow> cl_memo.memo_ok c (cl_state c))"

lemma caches_ok_fork:
  assumes "caches_ok n"
  shows "fst (CurrentForkIDAt n at) = currentForkIDAt n at"
proof -
  have l: "currentForkIDAt (load n) at = currentForkIDAt n at" by (simp add: currentForkIDAt_def)
  show ?thesis
    using assms by (auto simp: CurrentForkIDAt_def Let_def l caches_ok_def split: option.split prod.split)
qed

lemma caches_ok_state:
  assumes "caches_ok n" and "nw_cl n = Some c"
  shows "fst (stateAt c at) = computeStateAt c (epochAt c at)"
  using cl_memo.memo_get_sound(1) [of c "cl_state c" at] assms by (simp add: caches_ok_def stateAt_memo)

lemma next_ranges:
  "(\<exists>r\<in>set (CanonicalCurrentNextRanges at). fst r \<le> nxt \<and> nxt \<le> snd r) \<longleftrightarrow>
   nxt = 0 \<or> 30000000 < uint nxt \<and> uint nxt \<le> 1438269973 \<or> max 1438269973 (clampUnix at) < uint nxt"
proof -
  define fut where "fut = (if timestampThreshold < word_of_int (clampUnix at) then word_of_int (clampUnix at) else timestampThreshold)"
  have th: "uint timestampThreshold = 1438269973" by (simp add: timestampThreshold_def)
  have fut: "uint fut = max 1438269973 (clampUnix at)"
    by (simp add: fut_def word_less_def th)
  have "uint (fut + 1) = uint fut + 1"
    using fut clampUnix_range(2) [of at] by (simp add: uint_word_ariths(1) max_def mod_pos_pos_trivial)
  then have "fut + 1 \<le> nxt \<longleftrightarrow> max 1438269973 (clampUnix at) < uint nxt"
    by (simp add: word_le_def fut) arith
  moreover have "forkHeadBlock + 1 \<le> nxt \<longleftrightarrow> 30000000 < uint nxt"
    by (simp add: word_le_def forkHeadBlock_def) arith
  moreover have "nxt \<le> timestampThreshold \<longleftrightarrow> uint nxt \<le> 1438269973" by (simp add: word_le_def th)
  moreover have "CanonicalCurrentNextRanges at =
      [(0, 0), (forkHeadBlock + 1, timestampThreshold), (fut + 1, max_uint64)]"
    by (simp add: CanonicalCurrentNextRanges_def Let_def fut_def)
  ultimately show ?thesis by auto
qed

text \<open>
  The currency rule of a persisted row. An execution row is current exactly when its hash reads
  as the current fork hash of its network and its next fork is absent, a block number above the
  head, or a time that is still ahead; the ranges do not wrap at any instant. A consensus row is
  current exactly when its hash reads as the digest of the current epoch. Any other layer never is.
\<close>

theorem row_currency:
  assumes "Get reg network = Inr n" and "caches_ok n"
  shows "RowForkCurrentAt reg layer network h nxt at \<longleftrightarrow>
    (layer = ''el'' \<and> parseHash4 h = Some (fid_Hash (currentForkIDAt n at)) \<and>
      (nxt = 0 \<or> 30000000 < uint nxt \<and> uint nxt \<le> 1438269973 \<or> max 1438269973 (clampUnix at) < uint nxt)) \<or>
    (layer = ''cl'' \<and> (\<exists>c s. nw_cl n = Some c \<and> computeStateAt c (epochAt c at) = Inr s \<and>
      parseHash4 h = Some (cs_Digest s)))"
proof -
  have el: "IsCurrentForkAt reg network h at \<longleftrightarrow> parseHash4 h = Some (fid_Hash (currentForkIDAt n at))"
    by (simp add: IsCurrentForkAt_def Network_IsCurrentForkAt_def assms(1) caches_ok_fork [OF assms(2)] split: option.split)
  have cl: "IsCurrentCLForkAt reg network h at \<longleftrightarrow>
      (\<exists>c s. nw_cl n = Some c \<and> computeStateAt c (epochAt c at) = Inr s \<and> parseHash4 h = Some (cs_Digest s))"
    by (auto simp: IsCurrentCLForkAt_def CLForkStateAt_def assms(1) caches_ok_state [OF assms(2)]
        split: option.splits sum.splits)
  show ?thesis
    by (auto simp: RowForkCurrentAt_def IsCanonicalForkCompatibleAt_def el cl next_ranges)
qed

lemma sample_caches_ok: "caches_ok sample_network"
proof -
  have "cl_state mainnet = None" by code_simp
  then show ?thesis using sample_network_ok cl_memo.memo_ok_None
    by (auto simp: caches_ok_def sample_network_def)
qed

lemma sample_registry: "Get [sample_network] ''sample'' = Inr sample_network"
  by (simp add: Get_def sample_network_def)

theorem row_currency_witness:
  "\<not> RowForkCurrentAt [sample_network] ''el'' ''sample'' ''00000000'' 1600000000 (unix_time 1700000000)"
proof -
  have "\<not> (max 1438269973 (clampUnix (unix_time 1700000000)) < uint (1600000000 :: u64))" by code_simp
  moreover have "\<not> uint (1600000000 :: u64) \<le> 1438269973" by simp
  ultimately show ?thesis
    using row_currency [OF sample_registry sample_caches_ok, of "''el''" "''00000000''" 1600000000 "unix_time 1700000000"] by simp
qed

end
