(* ===== verification/SelectionProps.thy ===== *)
theory SelectionProps
  imports Selection TargetProps
begin

text \<open>
  Properties of the tree selection: what a published record satisfies, that a limited tree has
  exactly its limit of records, and the shares of IPv6 and of each client.
\<close>

section \<open>Pools\<close>

definition client_ok :: "candidate list \<Rightarrow> pools \<Rightarrow> string list \<Rightarrow> bool" where
  "client_ok cands pool order \<longleftrightarrow>
     (\<forall>c. pool c = filter (\<lambda>i. cd_client (cands ! i) = c) [0..<length cands]) \<and>
     set order = cd_client ` set cands \<and> distinct order"

lemma pool_empty_iff:
  assumes "client_ok cands pool order"
  shows "pool c = [] \<longleftrightarrow> c \<notin> set order"
proof -
  have "pool c = [] \<longleftrightarrow> (\<forall>i<length cands. cd_client (cands ! i) \<noteq> c)"
    using assms by (auto simp: client_ok_def filter_empty_conv)
  also have "\<dots> \<longleftrightarrow> c \<notin> cd_client ` set cands" by (auto simp: set_conv_nth)
  finally show ?thesis using assms by (simp add: client_ok_def)
qed

lemma client_ok_snoc:
  assumes "client_ok xs pool order"
  shows "client_ok (xs @ [x]) (pool(cd_client x := pool (cd_client x) @ [length xs]))
           (if pool (cd_client x) = [] then order @ [cd_client x] else order)"
proof -
  have "filter (\<lambda>i. cd_client ((xs @ [x]) ! i) = c) [0..<length xs] =
        filter (\<lambda>i. cd_client (xs ! i) = c) [0..<length xs]" for c
    by (rule filter_cong) (auto simp: nth_append)
  then show ?thesis
    using assms pool_empty_iff [OF assms, of "cd_client x"] by (auto simp: client_ok_def)
qed

lemma client_pools_ok: "client_ok cands (fst (client_pools cands)) (snd (client_pools cands))"
proof (induction cands rule: rev_induct)
  case Nil
  then show ?case by (simp add: client_pools_def client_ok_def enumerate_eq_zip)
next
  case (snoc x xs)
  have "client_pools (xs @ [x]) = pool_step (client_pools xs) (length xs, x)"
    by (simp add: client_pools_def enumerate_append_eq)
  with client_ok_snoc [OF snoc.IH, of x] show ?case
    by (cases "client_pools xs") (simp add: pool_step_def Let_def cong: if_cong split del: if_split del: fun_upd_apply)
qed

lemma client_ok_perm:
  "client_ok cands pool order \<Longrightarrow> client_ok cands pool (sort_key f order)"
  by (simp add: client_ok_def)

lemma pools_partition:
  assumes "client_ok cands pool order"
  shows "sum_list (map (\<lambda>c. length (pool c)) order) = length cands"
proof -
  have "sum_list (map (\<lambda>c. length (pool c)) order) = (\<Sum>c\<in>set order. card {i. i < length cands \<and> cd_client (cands ! i) = c})"
    using assms by (simp add: client_ok_def sum_list_distinct_conv_sum_set distinct_card [symmetric] Collect_conj_eq Int_commute
        lessThan_def atLeast0LessThan)
  also have "\<dots> = card (\<Union>c\<in>set order. {i. i < length cands \<and> cd_client (cands ! i) = c})"
    by (rule card_UN_disjoint [symmetric]) auto
  also have "(\<Union>c\<in>set order. {i. i < length cands \<and> cd_client (cands ! i) = c}) = {..<length cands}"
    using assms by (auto simp: client_ok_def)
  finally show ?thesis by simp
qed

lemma sum_list_int: "sum_list (map (\<lambda>x. int (f x)) xs) = int (sum_list (map f xs))"
  by (induction xs) auto

section \<open>The floor\<close>

lemma sum_list_0': "(\<And>x. x \<in> set xs \<Longrightarrow> f x = 0) \<Longrightarrow> sum_list (map f xs) = (0 :: int)"
  by (induction xs) auto

lemma floor_slots_spec:
  assumes "floor_slots held cs s r = (s', r')" and "0 \<le> r" and "distinct cs" and "\<forall>c\<in>set cs. s c = 0"
  shows "0 \<le> r' \<and> (\<forall>c\<in>set cs. s' c = 0 \<or> s' c = 1) \<and> (\<forall>c. c \<notin> set cs \<longrightarrow> s' c = s c) \<and>
         sum_list (map s' cs) + r' = r"
  using assms
proof (induction held cs s r rule: floor_slots.induct)
  case (2 held c cs slots remaining)
  have other: "sum_list (map (slots(c := x)) cs) = sum_list (map slots cs)" for x
    using 2(5) by (intro arg_cong [where f = sum_list] map_cong) auto
  have zero: "sum_list (map slots (c # cs)) = 0"
    using 2(6) by (intro sum_list_0') auto
  show ?case
  proof (cases "remaining = 0")
    case True
    with 2(3) have "s' = slots" "r' = remaining" by simp_all
    then show ?thesis using 2(4,6) zero True by simp
  next
    case False
    show ?thesis
    proof (cases "c = unknownClient \<or> 0 < held c")
      case True
      with 2(1) [OF False True] 2(3-6) False show ?thesis by auto
    next
      case no: False
      then have "floor_slots held cs (slots(c := 1)) (remaining - 1) = (s', r')" using 2(3) False by simp
      moreover have "0 \<le> remaining - 1" "distinct cs" "\<forall>d\<in>set cs. (slots(c := 1)) d = 0"
        using 2(4-6) False by auto
      ultimately have "0 \<le> r' \<and> (\<forall>c\<in>set cs. s' c = 0 \<or> s' c = 1) \<and> (\<forall>d. d \<notin> set cs \<longrightarrow> s' d = (slots(c := 1)) d) \<and>
          sum_list (map s' cs) + r' = remaining - 1"
        by (rule 2(2) [OF False no])
      then show ?thesis using 2(5) by auto
    qed
  qed
qed simp

lemma floor_slots_identified:
  assumes "floor_slots held cs s r = (s', r')" and "distinct cs" and "\<forall>c\<in>set cs. s c = 0"
    and "int (length (filter (\<lambda>c. c \<noteq> unknownClient \<and> \<not> 0 < held c) cs)) \<le> r"
    and "c \<in> set cs" and "c \<noteq> unknownClient" and "\<not> 0 < held c"
  shows "s' c = 1"
  using assms
proof (induction held cs s r rule: floor_slots.induct)
  case (2 held d cs slots remaining)
  have keep: "d \<notin> set cs \<Longrightarrow> floor_slots held cs t q = (s', r') \<Longrightarrow> s' d = t d" for t q
    by (induction held cs t q rule: floor_slots.induct) (auto split: if_splits)
  show ?case
  proof (cases "d = unknownClient \<or> 0 < held d")
    case True
    with 2 have "c \<in> set cs" by auto
    moreover have "remaining \<noteq> 0"
      using 2(6) True \<open>c \<in> set cs\<close> 2(8,9) by (auto simp: filter_empty_conv)
    ultimately show ?thesis using 2(1) [OF _ True] 2(3-9) True by auto
  next
    case False
    then have ne: "remaining \<noteq> 0" using 2(6) by auto
    show ?thesis
    proof (cases "c = d")
      case True
      with keep [of "slots(d := 1)" "remaining - 1"] 2(3,4) ne False show ?thesis by simp
    next
      case other: False
      have "floor_slots held cs (slots(d := 1)) (remaining - 1) = (s', r')" using 2(3) ne False by simp
      moreover have "distinct cs" "\<forall>c\<in>set cs. (slots(d := 1)) c = 0" "c \<in> set cs"
        using 2(4,5,7) other by auto
      moreover have "int (length (filter (\<lambda>c. c \<noteq> unknownClient \<and> \<not> 0 < held c) cs)) \<le> remaining - 1"
        using 2(6) False by simp
      ultimately show ?thesis using 2(2) [OF ne False] 2(8,9) by blast
    qed
  qed
qed simp

section \<open>Proportional shares\<close>

definition share_open :: "pools \<Rightarrow> slots \<Rightarrow> string \<Rightarrow> int" where
  "share_open pool s c = int (length (pool c)) - s c"

lemma exact_share:
  assumes "0 < free" and "0 < remaining" and "0 \<le> a" and "a \<le> free" and "remaining * free < 2 ^ 53"
  shows "\<lfloor>f64_div (f64_mul (float64 remaining) (float64 a)) (float64 free)\<rfloor> = remaining * a div free"
proof -
  have prod: "remaining * a \<le> remaining * free" "0 \<le> remaining * a"
    using assms by (simp_all add: mult_left_mono)
  have "remaining * 1 \<le> remaining * free" "1 * free \<le> remaining * free"
    using assms by (intro mult_left_mono mult_right_mono; simp)+
  then have lt: "remaining < 2 ^ 53" "free < 2 ^ 53" "a < 2 ^ 53" "remaining * a < 2 ^ 53"
    using assms(4,5) prod(1) by linarith+
  have "f64_mul (float64 remaining) (float64 a) = of_int (remaining * a)"
    using f64_round_int [of remaining] f64_round_int [of a] f64_round_int [of "remaining * a"] lt assms prod
    by (simp add: f64_mul_def float64_def)
  moreover have "float64 free = of_int free" using f64_round_int [of free] lt assms by (simp add: float64_def)
  ultimately show ?thesis
    using floor_f64_div [of "remaining * a" free] assms prod lt by (simp add: f64_div_def)
qed

lemma share_slots_spec:
  assumes "share_slots pool free remaining cs s fr = (s', fr')" and "0 < free" and "0 < remaining"
    and "distinct cs" and "\<forall>c\<in>set cs. 0 \<le> share_open pool s c \<and> share_open pool s c \<le> free"
    and "remaining * free < 2 ^ 53"
  shows "map fst fr' = map fst fr @ cs \<and> (\<forall>c. c \<notin> set cs \<longrightarrow> s' c = s c) \<and>
         (\<forall>c\<in>set cs. s' c = s c + min (remaining * share_open pool s c div free) (share_open pool s c))"
  using assms
proof (induction cs arbitrary: s fr)
  case (Cons c cs)
  define whole where "whole = min (remaining * share_open pool s c div free) (share_open pool s c)"
  define fr1 where "fr1 = fr @ [(c, f64_sub (f64_div (f64_mul (float64 remaining) (float64 (share_open pool s c))) (float64 free)) (float64 whole))]"
  have ex: "\<lfloor>f64_div (f64_mul (float64 remaining) (float64 (share_open pool s c))) (float64 free)\<rfloor>
      = remaining * share_open pool s c div free"
    by (rule exact_share) (use Cons.prems in auto)
  define s1 where "s1 = s(c := s c + whole)"
  have s1: "s1 d = (if d = c then s c + whole else s d)" for d by (simp add: s1_def)
  have neg: "\<not> (free \<le> 0 \<or> remaining \<le> 0)" using Cons.prems by auto
  have step: "share_slots pool free remaining cs s1 fr1 = (s', fr')"
    using Cons.prems(1) neg ex by (simp add: share_open_def [symmetric] Let_def whole_def fr1_def s1_def)
  have same: "share_open pool s1 d = share_open pool s d" if "d \<in> set cs" for d
    using that Cons.prems(4) by (auto simp: share_open_def s1)
  have "map fst fr' = map fst fr1 @ cs \<and> (\<forall>d. d \<notin> set cs \<longrightarrow> s' d = s1 d) \<and>
      (\<forall>d\<in>set cs. s' d = s1 d + min (remaining * share_open pool s1 d div free) (share_open pool s1 d))"
    by (rule Cons.IH [OF step]) (use Cons.prems(2-) same in auto)
  then show ?case using Cons.prems(4) same by (auto simp: fr1_def whole_def s1)
qed simp

lemma sum_div_le:
  fixes a :: "'a \<Rightarrow> int"
  assumes "0 < d"
  shows "sum_list (map (\<lambda>x. a x div d) xs) \<le> sum_list (map a xs) div d"
proof (induction xs)
  case (Cons x xs)
  have "a x div d + sum_list (map a xs) div d \<le> (a x + sum_list (map a xs)) div d"
  proof -
    have "d * (a x div d) \<le> a x" "d * (sum_list (map a xs) div d) \<le> sum_list (map a xs)"
      using assms by (simp_all add: mult.commute [of d] div_mult_mod_eq minus_mod_eq_mult_div [symmetric] minus_mod_eq_div_mult [symmetric])
    then have "(a x div d + sum_list (map a xs) div d) * d \<le> a x + sum_list (map a xs)" by (simp add: algebra_simps)
    from zdiv_mono1 [OF this assms] show ?thesis using assms by simp
  qed
  with Cons show ?case by simp
qed simp

section \<open>The remainders\<close>

text \<open>The cyclic scan reaches a client that is not full and gives it one slot.\<close>

lemma remainder_advance:
  assumes "used < quota" and "i < length fracs" and "set (map fst fracs) = set order"
    and "s (fst (fracs ! ((i + j) mod length fracs))) < int (length (pool (fst (fracs ! ((i + j) mod length fracs)))))"
  shows "\<exists>k<length fracs. s (fst (fracs ! k)) < int (length (pool (fst (fracs ! k)))) \<and>
           remainder_loop pool order fracs quota i s used =
           remainder_loop pool order fracs quota ((k + 1) mod length fracs)
             (s(fst (fracs ! k) := s (fst (fracs ! k)) + 1)) (used + 1)"
  using assms
proof (induction j arbitrary: i)
  case 0
  then have "s (fst (fracs ! i)) < int (length (pool (fst (fracs ! i))))" by simp
  with 0 show ?case
    by (intro exI [of _ i]) (subst remainder_loop.simps, auto simp: Let_def)
next
  case (Suc j)
  show ?case
  proof (cases "s (fst (fracs ! i)) < int (length (pool (fst (fracs ! i))))")
    case True
    with Suc.prems show ?thesis
      by (intro exI [of _ i]) (subst remainder_loop.simps, auto simp: Let_def)
  next
    case False
    define m where "m = length fracs"
    have m: "0 < m" using Suc.prems(2) unfolding m_def by linarith
    have idx: "((i + 1) mod m + j) mod m = (i + Suc j) mod m"
      by (metis add.assoc add.commute mod_add_left_eq plus_1_eq_Suc)
    have "fracs ! ((i + Suc j) mod m) \<in> set fracs" using m by (simp add: m_def)
    then have "fst (fracs ! ((i + Suc j) mod m)) \<in> set order" using Suc.prems(3) by force
    then have "\<not> allFull s pool order" using Suc.prems(4) by (auto simp: allFull_def list_all_iff m_def)
    then have "remainder_loop pool order fracs quota i s used =
        remainder_loop pool order fracs quota ((i + 1) mod m) s used"
      using False Suc.prems(1,2) by (subst remainder_loop.simps) (auto simp: Let_def m_def)
    moreover have "(i + 1) mod m < length fracs" using m by (simp add: m_def)
    ultimately show ?thesis
      using Suc.IH [of "(i + 1) mod m"] Suc.prems(1,3,4) idx unfolding m_def by presburger
  qed
qed

definition slots_ok :: "pools \<Rightarrow> string list \<Rightarrow> slots \<Rightarrow> int \<Rightarrow> bool" where
  "slots_ok pool order s used \<longleftrightarrow>
     (\<forall>c\<in>set order. 0 \<le> s c \<and> s c \<le> int (length (pool c))) \<and> sum_list (map s order) = used"

lemma sum_list_bump:
  assumes "distinct xs" and "c \<in> set xs"
  shows "sum_list (map (s(c := s c + 1)) xs) = sum_list (map s xs) + (1 :: int)"
proof -
  have "(\<Sum>x\<in>set xs. (s(c := s c + 1)) x) = (\<Sum>x\<in>set xs. s x + (if x = c then 1 else 0))"
    by (rule sum.cong) auto
  also have "\<dots> = (\<Sum>x\<in>set xs. s x) + 1" using assms(2) by (simp add: sum.distrib sum.delta)
  finally show ?thesis using assms(1) by (simp only: sum_list_distinct_conv_sum_set)
qed

lemma not_all_full:
  assumes "slots_ok pool order s used" and "used < sum_list (map (\<lambda>c. int (length (pool c))) order)"
  shows "\<exists>c\<in>set order. s c < int (length (pool c))"
proof (rule ccontr)
  assume "\<not> ?thesis"
  then have "sum_list (map s order) = sum_list (map (\<lambda>c. int (length (pool c))) order)"
    using assms(1) by (intro arg_cong [where f = sum_list] map_cong) (force simp: slots_ok_def)+
  then show False using assms by (simp add: slots_ok_def)
qed

lemma remainder_loop_total:
  assumes "slots_ok pool order s used" and "used \<le> quota" and "i < length fracs"
    and "set (map fst fracs) = set order" and "distinct order"
    and "quota \<le> sum_list (map (\<lambda>c. int (length (pool c))) order)"
  shows "\<exists>s'. remainder_loop pool order fracs quota i s used = Some s' \<and> slots_ok pool order s' quota \<and>
           (\<forall>c. s c \<le> s' c)"
  using assms(1-3)
proof (induction "nat (quota - used)" arbitrary: i s used rule: less_induct)
  case less
  show ?case
  proof (cases "used < quota")
    case False
    then have "remainder_loop pool order fracs quota i s used = Some s" by (subst remainder_loop.simps) simp
    then show ?thesis using less.prems False by simp
  next
    case True
    define m where "m = length fracs"
    have m: "0 < m" using less.prems(3) unfolding m_def by linarith
    obtain c where c: "c \<in> set order" "s c < int (length (pool c))"
      using not_all_full [OF less.prems(1)] True assms(6) by auto
    then have "c \<in> set (map fst fracs)" by (simp only: assms(4))
    then obtain k where k: "k < m" "fst (fracs ! k) = c" unfolding in_set_conv_nth by (auto simp: m_def)
    have "(i + (k + m - i)) mod m = k" using k(1) less.prems(3) by (simp add: m_def)
    then have "s (fst (fracs ! ((i + (k + m - i)) mod length fracs)))
        < int (length (pool (fst (fracs ! ((i + (k + m - i)) mod length fracs)))))"
      using c(2) k(2) by (simp add: m_def)
    from remainder_advance [of used quota i fracs order s "k + m - i" pool, OF True less.prems(3) assms(4) this]
    obtain k' where k': "k' < m" "s (fst (fracs ! k')) < int (length (pool (fst (fracs ! k'))))"
      and eq: "remainder_loop pool order fracs quota i s used =
        remainder_loop pool order fracs quota ((k' + 1) mod m) (s(fst (fracs ! k') := s (fst (fracs ! k')) + 1)) (used + 1)"
      unfolding m_def by blast
    define d where "d = fst (fracs ! k')"
    define s1 where "s1 = s(d := s d + 1)"
    have "map fst fracs ! k' \<in> set (map fst fracs)" using k'(1) unfolding m_def by (intro nth_mem) simp
    then have d: "d \<in> set order" using k'(1) unfolding assms(4) d_def m_def by simp
    have "slots_ok pool order s1 (used + 1)"
      unfolding slots_ok_def s1_def sum_list_bump [OF assms(5) d]
      using less.prems(1) d k'(2) by (simp add: slots_ok_def d_def)
    moreover have "used + 1 \<le> quota" using True by simp
    moreover have "(k' + 1) mod m < length fracs" using m unfolding m_def by simp
    moreover have "nat (quota - (used + 1)) < nat (quota - used)" using True by simp
    ultimately obtain s' where s': "remainder_loop pool order fracs quota ((k' + 1) mod m) s1 (used + 1) = Some s'"
      "slots_ok pool order s' quota" "\<forall>c. s1 c \<le> s' c"
      using less.hyps by blast
    have "s c \<le> s' c" for c using s'(3) [rule_format, of c] by (simp add: s1_def split: if_splits)
    then show ?thesis using s' eq unfolding d_def [symmetric] s1_def [symmetric] by simp
  qed
qed

section \<open>The allocation\<close>

lemma nonneg_le_sum_list:
  assumes "\<forall>x\<in>set xs. (0 :: int) \<le> f x" and "c \<in> set xs"
  shows "f c \<le> sum_list (map f xs)"
  using assms
proof (induction xs)
  case (Cons x xs)
  moreover have "0 \<le> sum_list (map f xs)" using Cons.prems(1) by (intro sum_list_nonneg) auto
  ultimately show ?case by auto
qed simp

lemma share_slots_none: "remaining \<le> 0 \<Longrightarrow> share_slots pool free remaining cs s fr = (s, fr)"
  by (cases cs) auto

lemma share_sum:
  assumes "share_slots pool free remaining order s1 [] = (s2, fr)" and "0 < remaining" and "distinct order"
    and "\<forall>c\<in>set order. 0 \<le> share_open pool s1 c" and "free = sum_list (map (share_open pool s1) order)"
    and "remaining * free < 2 ^ 53" and "0 < free"
  shows "sum_list (map s2 order) \<le> sum_list (map s1 order) + remaining"
    and "\<forall>c\<in>set order. s1 c \<le> s2 c \<and> s2 c \<le> s1 c + share_open pool s1 c"
    and "\<forall>c. c \<notin> set order \<longrightarrow> s2 c = s1 c" and "map fst fr = order"
proof -
  have "\<forall>c\<in>set order. 0 \<le> share_open pool s1 c \<and> share_open pool s1 c \<le> free"
    using assms(4) nonneg_le_sum_list [OF assms(4)] by (simp add: assms(5))
  note spec = share_slots_spec [OF assms(1,7,2,3) this assms(6)]
  then show "map fst fr = order" "\<forall>c. c \<notin> set order \<longrightarrow> s2 c = s1 c" by simp_all
  have nn: "0 \<le> remaining * share_open pool s1 c div free" if "c \<in> set order" for c
    using assms(2,4,7) that by (simp add: pos_imp_zdiv_nonneg_iff)
  then show "\<forall>c\<in>set order. s1 c \<le> s2 c \<and> s2 c \<le> s1 c + share_open pool s1 c"
    using spec assms(4) by auto
  have "sum_list (map s2 order) \<le> sum_list (map (\<lambda>c. s1 c + remaining * share_open pool s1 c div free) order)"
    by (rule sum_list_mono) (use spec in auto)
  also have "\<dots> = sum_list (map s1 order) + sum_list (map (\<lambda>c. remaining * share_open pool s1 c div free) order)"
    by (rule sum_list_addf)
  also have "sum_list (map (\<lambda>c. remaining * share_open pool s1 c div free) order)
      \<le> sum_list (map (\<lambda>c. remaining * share_open pool s1 c) order) div free"
    by (rule sum_div_le [OF assms(7)])
  also have "sum_list (map (\<lambda>c. remaining * share_open pool s1 c) order) = remaining * free"
    by (simp add: assms(5) sum_list_const_mult)
  finally show "sum_list (map s2 order) \<le> sum_list (map s1 order) + remaining" using assms(7) by simp
qed

lemma allocation:
  assumes ok: "client_ok cands pool order" and fl: "floor_slots held order (\<lambda>_. 0) quota = (s1, remaining)"
    and sh: "share_slots pool (sum_list (map (\<lambda>c. int (length (pool c)) - s1 c) order)) remaining order s1 [] = (s2, fr)"
    and q: "0 \<le> quota" "quota \<le> int (length cands)" "quota * int (length cands) < 2 ^ 53"
  shows "\<exists>s'. remainder_loop pool order (sort_key frac_order fr) quota 0 s2 (sum_list (map s2 order)) = Some s' \<and>
           slots_ok pool order s' quota \<and> (\<forall>c. s1 c \<le> s' c)"
proof -
  have dist: "distinct order" using ok by (simp add: client_ok_def)
  have total: "sum_list (map (\<lambda>c. int (length (pool c))) order) = int (length cands)"
    using pools_partition [OF ok] by (simp add: sum_list_int)
  from floor_slots_spec [OF fl q(1) dist]
  have f: "0 \<le> remaining" "\<forall>c\<in>set order. s1 c = 0 \<or> s1 c = 1" "sum_list (map s1 order) + remaining = quota"
    by auto
  have len: "1 \<le> int (length (pool c))" if "c \<in> set order" for c
    using pool_empty_iff [OF ok, of c] that by (cases "pool c") auto
  have open0: "\<forall>c\<in>set order. 0 \<le> share_open pool s1 c" using f(2) len by (force simp: share_open_def)
  have s1_ok: "\<forall>c\<in>set order. 0 \<le> s1 c \<and> s1 c \<le> int (length (pool c))" using f(2) len by force
  show ?thesis
  proof (cases "remaining = 0")
    case True
    then have "s2 = s1" "fr = []" using sh share_slots_none by auto
    moreover have "slots_ok pool order s1 quota" using s1_ok f(3) True by (simp add: slots_ok_def)
    moreover have "sort_key frac_order [] = []" by simp
    ultimately show ?thesis by (subst remainder_loop.simps) auto
  next
    case False
    define free where "free = sum_list (map (share_open pool s1) order)"
    have free: "free = int (length cands) - (quota - remaining)"
      using total f(3) by (simp add: free_def share_open_def [abs_def] sum_list_subtractf)
    have "0 \<le> sum_list (map s1 order)" using s1_ok by (intro sum_list_nonneg) auto
    then have bounds: "0 < free" "0 < remaining" "free \<le> int (length cands)" "remaining \<le> quota"
      using False free f(1,3) q by auto
    have "remaining * free \<le> quota * int (length cands)" using bounds by (intro mult_mono) auto
    then have small: "remaining * free < 2 ^ 53" using q(3) by linarith
    have sh': "share_slots pool free remaining order s1 [] = (s2, fr)"
      using sh by (simp add: free_def share_open_def [abs_def])
    note sum = share_sum [OF sh' bounds(2) dist open0 free_def small bounds(1)]
    have "slots_ok pool order s2 (sum_list (map s2 order))"
      using sum(2) s1_ok by (force simp: slots_ok_def share_open_def)
    moreover have "sum_list (map s2 order) \<le> quota" using sum(1) f(3) by simp
    moreover have "set (map fst (sort_key frac_order fr)) = set order" using sum(4) by (metis list.set_map set_sort)
    moreover have "0 < length (sort_key frac_order fr)"
    proof -
      have "order \<noteq> []" using total bounds(1) free f(3) q(2) by (auto simp: free_def)
      then show ?thesis using sum(4) by auto
    qed
    ultimately obtain s' where s': "remainder_loop pool order (sort_key frac_order fr) quota 0 s2 (sum_list (map s2 order)) = Some s'"
      "slots_ok pool order s' quota" "\<forall>c. s2 c \<le> s' c"
      using remainder_loop_total [OF _ _ _ _ dist, of pool s2 "sum_list (map s2 order)" quota 0 "sort_key frac_order fr"] q(2) total
      by auto
    moreover have "s1 c \<le> s' c" for c using s'(3) [rule_format, of c] sum(2,3) by (cases "c \<in> set order") force+
    ultimately show ?thesis by blast
  qed
qed

section \<open>The chosen candidates\<close>

lemma distinct_concat_map:
  assumes "distinct cs" and "\<And>c. distinct (g c)" and "\<And>c d. c \<noteq> d \<Longrightarrow> set (g c) \<inter> set (g d) = {}"
  shows "distinct (concat (map g cs))"
  using assms(1)
proof (induction cs)
  case (Cons c cs)
  then have "\<forall>d\<in>set cs. set (g c) \<inter> set (g d) = {}" using assms(3) by (metis distinct.simps(2))
  with Cons show ?case by (auto simp: assms(2))
qed simp

lemma picked_spec:
  assumes ok: "client_ok cands pool order" and s: "slots_ok pool order s quota"
  shows "\<exists>idx. picked_indexes pool order s = Some idx \<and> sorted idx \<and> distinct idx \<and> int (length idx) = quota \<and>
           set idx \<subseteq> {..<length cands} \<and>
           (\<forall>c\<in>set order. 0 < s c \<longrightarrow> (\<exists>i\<in>set idx. cd_client (cands ! i) = c))"
proof -
  define g where "g c = take (nat (s c)) (pool c)" for c
  define raw where "raw = concat (map g order)"
  have pool: "pool c = filter (\<lambda>i. cd_client (cands ! i) = c) [0..<length cands]" for c
    using ok by (simp add: client_ok_def)
  have dist: "distinct order" using ok by (simp add: client_ok_def)
  have g: "set (g c) \<subseteq> {i. i < length cands \<and> cd_client (cands ! i) = c}" for c
    using set_take_subset [of "nat (s c)" "pool c"] unfolding g_def pool by auto
  have "distinct raw" unfolding raw_def
  proof (rule distinct_concat_map [OF dist])
    show "distinct (g c)" for c by (simp add: g_def pool)
    show "set (g c) \<inter> set (g d) = {}" if "c \<noteq> d" for c d using g [of c] g [of d] that by auto
  qed
  moreover have "picked_indexes pool order s = Some (sort raw)"
    using s by (auto simp: picked_indexes_def slots_ok_def list_all_iff raw_def g_def [abs_def])
  moreover have "int (length raw) = quota"
  proof -
    have "int (length raw) = sum_list (map (\<lambda>c. int (length (g c))) order)"
      by (simp add: raw_def length_concat o_def sum_list_int)
    also have "\<dots> = sum_list (map s order)"
      by (intro arg_cong [where f = sum_list] map_cong) (use s in \<open>auto simp: slots_ok_def g_def\<close>)
    finally show ?thesis using s by (simp add: slots_ok_def)
  qed
  moreover have "set raw \<subseteq> {..<length cands}"
    unfolding raw_def using g by fastforce
  moreover have "\<exists>i\<in>set raw. cd_client (cands ! i) = c" if "c \<in> set order" "0 < s c" for c
  proof -
    have "g c \<noteq> []" using pool_empty_iff [OF ok, of c] that by (simp add: g_def)
    then have hd: "hd (g c) \<in> set (g c)" by simp
    then have "cd_client (cands ! hd (g c)) = c" using g [of c] by blast
    moreover have "hd (g c) \<in> set raw" using hd that(1) unfolding raw_def by auto
    ultimately show ?thesis by blast
  qed
  ultimately show ?thesis by (intro exI [of _ "sort raw"]) auto
qed

lemma map_nth_subseq:
  assumes "sorted idx" and "distinct idx" and "set idx \<subseteq> {..<length xs}"
  shows "map (\<lambda>i. xs ! i) idx = nths xs (set idx)"
proof -
  have "filter (\<lambda>i. i \<in> set idx) [0..<length xs] = idx"
    by (rule sorted_distinct_set_unique) (use assms in \<open>auto simp: sorted_wrt_filter\<close>)
  moreover have "map fst (filter (\<lambda>p. snd p \<in> I) (zip xs [0..<length xs])) = map (\<lambda>i. xs ! i) (filter (\<lambda>i. i \<in> I) [0..<length xs])" for I
  proof -
    have "zip xs [0..<length xs] = map (\<lambda>i. (xs ! i, i)) [0..<length xs]"
      by (intro nth_equalityI) auto
    then show ?thesis by (simp add: filter_map o_def)
  qed
  ultimately show ?thesis by (simp add: nths_def)
qed

lemma balance_total:
  assumes "0 \<le> quota" and "quota \<le> int (length cands)" and "quota * int (length cands) < 2 ^ 53"
  shows "\<exists>sel. balanceClients cands quota held = Some sel \<and> int (length sel) = quota \<and> subseq sel cands \<and>
           (int (length (filter (\<lambda>c. c \<noteq> unknownClient \<and> \<not> 0 < held c) (snd (client_pools cands)))) \<le> quota \<longrightarrow>
             (\<forall>c\<in>set cands. cd_client c \<noteq> unknownClient \<and> \<not> 0 < held (cd_client c) \<longrightarrow>
                cd_client c \<in> cd_client ` set sel))"
proof -
  obtain pool order0 where cp: "client_pools cands = (pool, order0)" by fastforce
  define order where "order = sort_key (pool_order pool) order0"
  have ok: "client_ok cands pool order"
    using client_ok_perm [OF client_pools_ok [of cands]] by (simp add: cp order_def)
  obtain s1 remaining where fl: "floor_slots held order (\<lambda>_. 0) quota = (s1, remaining)" by fastforce
  obtain s2 fr where sh: "share_slots pool (sum_list (map (\<lambda>c. int (length (pool c)) - s1 c) order)) remaining order s1 [] = (s2, fr)"
    by fastforce
  from allocation [OF ok fl sh assms] obtain s' where s':
    "remainder_loop pool order (sort_key frac_order fr) quota 0 s2 (sum_list (map s2 order)) = Some s'"
    "slots_ok pool order s' quota" "\<forall>c. s1 c \<le> s' c" by blast
  from picked_spec [OF ok s'(2)] obtain idx where idx: "picked_indexes pool order s' = Some idx" "sorted idx" "distinct idx"
    "int (length idx) = quota" "set idx \<subseteq> {..<length cands}"
    "\<forall>c\<in>set order. 0 < s' c \<longrightarrow> (\<exists>i\<in>set idx. cd_client (cands ! i) = c)" by blast
  have bal: "balanceClients cands quota held = Some (map (\<lambda>i. cands ! i) idx)"
    by (simp add: balanceClients_def cp order_def [symmetric] fl sh s'(1) idx(1))
  have sub: "subseq (map (\<lambda>i. cands ! i) idx) cands"
    using map_nth_subseq [OF idx(2,3,5)] by (auto simp: subseq_conv_nths)
  have floor: "cd_client c \<in> cd_client ` set (map (\<lambda>i. cands ! i) idx)"
    if n: "int (length (filter (\<lambda>c. c \<noteq> unknownClient \<and> \<not> 0 < held c) (snd (client_pools cands)))) \<le> quota"
      and c: "c \<in> set cands" "cd_client c \<noteq> unknownClient" "\<not> 0 < held (cd_client c)" for c
  proof -
    have "length (filter P order) = length (filter P order0)" for P
      by (metis filter_sort length_sort order_def)
    then have "s1 (cd_client c) = 1"
      using floor_slots_identified [OF fl _ _ _ _ c(2,3)] ok n c(1) by (simp add: client_ok_def cp)
    then have "0 < s' (cd_client c)" using s'(3) [rule_format, of "cd_client c"] by simp
    moreover have "cd_client c \<in> set order" using ok c(1) by (simp add: client_ok_def)
    ultimately obtain i where "i \<in> set idx" "cd_client (cands ! i) = cd_client c" using idx(6) by blast
    then show ?thesis unfolding set_map image_image by (metis imageI)
  qed
  have len: "int (length (map (\<lambda>i. cands ! i) idx)) = quota" using idx(4) by simp
  show ?thesis using bal len sub floor by blast
qed

section \<open>The IPv6 share\<close>

definition open_count :: "bool \<Rightarrow> ipv6Slot list \<Rightarrow> bool list \<Rightarrow> nat" where
  "open_count own ss bs = length (filter (\<lambda>(s, b). v6_dialable s \<and> v6_ownPort s = own \<and> \<not> b) (zip ss bs))"

lemma open_count_simps [simp]:
  "open_count own [] bs = 0" "open_count own ss [] = 0"
  "open_count own (s # ss) (b # bs) =
     (if v6_dialable s \<and> v6_ownPort s = own \<and> \<not> b then 1 else 0) + open_count own ss bs"
  by (simp_all add: open_count_def)

lemma countTrue_simps [simp]: "countTrue [] = 0" "countTrue (b # bs) = (if b then 1 else 0) + countTrue bs"
  by (simp_all add: countTrue_def)

lemma reserve_pass_spec:
  assumes "reserve_pass own want ss bs taken = (bs', taken')" and "length ss = length bs" and "taken \<le> want"
  shows "length bs' = length bs \<and> taken' = min want (taken + int (open_count own ss bs)) \<and>
         int (countTrue bs') = int (countTrue bs) + (taken' - taken) \<and>
         open_count (\<not> own) ss bs' = open_count (\<not> own) ss bs \<and>
         (\<forall>i<length bs'. bs' ! i \<longrightarrow> bs ! i \<or> v6_dialable (ss ! i))"
  using assms
proof (induction own want ss bs taken arbitrary: bs' taken' rule: reserve_pass.induct)
  case (1 own want s ss b bs taken)
  show ?case
  proof (cases "taken = want")
    case True
    then have "bs' = b # bs" "taken' = taken" using 1(3) by simp_all
    then show ?thesis using True by simp
  next
    case False
    define hit where "hit \<longleftrightarrow> v6_dialable s \<and> v6_ownPort s = own \<and> \<not> b"
    obtain r t where rt: "reserve_pass own want ss bs (if hit then taken + 1 else taken) = (r, t)" by (meson surj_pair)
    have out: "bs' = (hit \<or> b) # r" "taken' = t"
      using 1(3) False rt by (cases hit; auto simp: hit_def)+
    define tk where "tk = (if hit then taken + 1 else taken)"
    have le: "tk \<le> want" "length ss = length bs" using 1(4,5) False by (auto simp: tk_def)
    have IH: "length r = length bs \<and> t = min want (tk + int (open_count own ss bs)) \<and>
         int (countTrue r) = int (countTrue bs) + (t - tk) \<and> open_count (\<not> own) ss r = open_count (\<not> own) ss bs \<and>
         (\<forall>i<length r. r ! i \<longrightarrow> bs ! i \<or> v6_dialable (ss ! i))"
    proof (cases hit)
      case True
      from 1(1) [OF False True [unfolded hit_def], of r t] show ?thesis using rt True le by (simp add: tk_def)
    next
      case no: False
      from 1(2) [OF False no [unfolded hit_def], of r t] show ?thesis using rt no le by (simp add: tk_def)
    qed
    have "\<forall>i<length bs'. bs' ! i \<longrightarrow> (b # bs) ! i \<or> v6_dialable ((s # ss) ! i)"
      unfolding out(1) using IH by (auto simp: hit_def less_Suc_eq_0_disj)
    moreover have "taken' = min want (taken + int (open_count own (s # ss) (b # bs)))"
      using IH out(2) by (simp add: tk_def hit_def add.assoc)
    moreover have "int (countTrue bs') = int (countTrue (b # bs)) + (taken' - taken)"
      using IH unfolding out by (simp add: tk_def hit_def)
    moreover have "open_count (\<not> own) (s # ss) bs' = open_count (\<not> own) (s # ss) (b # bs)"
      using IH unfolding out by (auto simp: hit_def)
    ultimately show ?thesis using IH by (simp add: out(1))
  qed
qed auto

lemma open_count_fresh:
  "open_count True ss (replicate (length ss) False) + open_count False ss (replicate (length ss) False) =
   length (filter v6_dialable ss)"
  by (induction ss) auto

lemma countTrue_replicate [simp]: "countTrue (replicate n False) = 0"
  by (induction n) auto

lemma reserveIPv6_spec:
  assumes "0 < quota"
  shows "length (reserveIPv6 v6 quota) = length v6"
    and "\<forall>i<length v6. reserveIPv6 v6 quota ! i \<longrightarrow> v6_dialable (v6 ! i)"
    and "int (countTrue (reserveIPv6 v6 quota)) =
         (if filter v6_dialable v6 = [] then 0 else ipv6_want (length (filter v6_dialable v6)) (length v6) quota)"
proof -
  define start where "start = replicate (length v6) False"
  define want where "want = ipv6_want (length (filter v6_dialable v6)) (length v6) quota"
  have none: "reserveIPv6 v6 quota = start" if "filter v6_dialable v6 = []"
    using that by (simp add: reserveIPv6_def start_def)
  have "length (reserveIPv6 v6 quota) = length v6 \<and>
      (\<forall>i<length v6. reserveIPv6 v6 quota ! i \<longrightarrow> v6_dialable (v6 ! i)) \<and> int (countTrue (reserveIPv6 v6 quota)) = want"
    if ne: "filter v6_dialable v6 \<noteq> []"
  proof -
    obtain r1 t1 where p1: "reserve_pass True want v6 start 0 = (r1, t1)" by fastforce
    obtain r2 t2 where p2: "reserve_pass False want v6 r1 t1 = (r2, t2)" by fastforce
    have w: "0 \<le> want" "want \<le> int (length (filter v6_dialable v6))"
      using assms ne by (auto simp: want_def ipv6_want_def Let_def)
    have s1: "length r1 = length v6 \<and> t1 = min want (int (open_count True v6 start)) \<and> int (countTrue r1) = t1 \<and>
        open_count False v6 r1 = open_count False v6 start \<and> (\<forall>i<length r1. r1 ! i \<longrightarrow> v6_dialable (v6 ! i))"
      using reserve_pass_spec [OF p1 _ w(1)] by (auto simp: start_def)
    have s2: "length r2 = length v6 \<and> t2 = min want (t1 + int (open_count False v6 start)) \<and> int (countTrue r2) = t2 \<and>
        (\<forall>i<length r2. r2 ! i \<longrightarrow> v6_dialable (v6 ! i))"
      using reserve_pass_spec [OF p2] s1 by auto
    have "t2 = want"
      using s1 s2 w open_count_fresh [of v6] by (auto simp: start_def [symmetric] min_def split: if_splits)
    moreover have "reserveIPv6 v6 quota = r2"
      using ne assms p1 p2 by (simp add: reserveIPv6_def Let_def start_def want_def)
    ultimately show ?thesis using s2 by simp
  qed
  then show "length (reserveIPv6 v6 quota) = length v6" "\<forall>i<length v6. reserveIPv6 v6 quota ! i \<longrightarrow> v6_dialable (v6 ! i)"
    "int (countTrue (reserveIPv6 v6 quota)) =
         (if filter v6_dialable v6 = [] then 0 else ipv6_want (length (filter v6_dialable v6)) (length v6) quota)"
    using none by (cases "filter v6_dialable v6 = []"; simp add: start_def want_def)+
qed

section \<open>Merging\<close>

lemma filter_key_subseq:
  assumes "subseq ys xs" and "distinct (map f xs)"
  shows "filter (\<lambda>x. f x \<in> f ` set ys) xs = ys"
  using assms
proof (induction rule: list_emb.induct)
  case (list_emb_Nil ys)
  then show ?case by simp
next
  case (list_emb_Cons ys xs x)
  then have "f x \<notin> f ` set ys" using list_emb_set [OF list_emb_Cons.hyps(1)] by auto
  with list_emb_Cons show ?case by simp
next
  case (list_emb_Cons2 x y ys xs)
  then have "\<forall>z\<in>set xs. f z \<noteq> f x" by (metis distinct.simps(2) image_eqI list.map(2) list.set_map)
  then have "filter (\<lambda>z. f z \<in> f ` set (x # ys)) xs = filter (\<lambda>z. f z \<in> f ` set ys) xs"
    by (intro filter_cong) auto
  with list_emb_Cons2 show ?case by simp
qed

lemma subseq_distinct: "subseq ys xs \<Longrightarrow> distinct xs \<Longrightarrow> distinct ys"
  by (auto simp: subseq_conv_nths)

lemma length_filter_or:
  "length (filter (\<lambda>x. P x \<or> Q x) xs) = length (filter P xs) + length (filter (\<lambda>x. \<not> P x \<and> Q x) xs)"
  by (induction xs) auto

lemma merge_spec:
  assumes "length reserved = length cands" and "distinct (map cd_ptr cands)"
    and "subseq filled (map fst (filter (\<lambda>(c, res). \<not> res) (zip cands reserved)))"
  shows "length (mergeRanked cands reserved filled) = countTrue reserved + length filled"
    and "subseq (mergeRanked cands reserved filled) cands"
    and "\<forall>i<length cands. reserved ! i \<longrightarrow> cands ! i \<in> set (mergeRanked cands reserved filled)"
proof -
  define rest where "rest = map fst (filter (\<lambda>(c, res). \<not> res) (zip cands reserved))"
  define keep where "keep = cd_ptr ` set filled"
  have fst_zip: "map fst (zip cands reserved) = cands" using assms(1) by simp
  have sub: "subseq (map fst (filter P (zip cands reserved))) cands" for P
    using subseq_map [OF subseq_filter_left [of P "zip cands reserved"], of fst] fst_zip by metis
  have "distinct (map cd_ptr rest)"
    using sub [of "\<lambda>(c, res). \<not> res"] assms(2) unfolding rest_def
    by (meson subseq_map subseq_distinct)
  then have "filter (\<lambda>c. cd_ptr c \<in> keep) rest = filled"
    unfolding keep_def using assms(3) by (intro filter_key_subseq) (simp_all add: rest_def)
  moreover have "filter (\<lambda>c. cd_ptr c \<in> keep) rest =
      map fst (filter (\<lambda>(c, res). \<not> res \<and> cd_ptr c \<in> keep) (zip cands reserved))"
    by (simp add: rest_def filter_map o_def split_def conj_commute)
  moreover have "length (filter (\<lambda>(c, res). res) (zip cands reserved)) = countTrue reserved"
    using assms(1) unfolding countTrue_def
    by (induction reserved cands rule: list_induct2) auto
  moreover have "length (mergeRanked cands reserved filled) =
      length (filter (\<lambda>(c, res). res) (zip cands reserved)) +
      length (map fst (filter (\<lambda>(c, res). \<not> res \<and> cd_ptr c \<in> keep) (zip cands reserved)))"
    using length_filter_or [of snd "\<lambda>x. cd_ptr (fst x) \<in> keep" "zip cands reserved"]
    by (simp add: mergeRanked_def keep_def [symmetric] split_def)
  ultimately show "length (mergeRanked cands reserved filled) = countTrue reserved + length filled" by metis
  show "subseq (mergeRanked cands reserved filled) cands" using sub by (simp add: mergeRanked_def Let_def)
  show "\<forall>i<length cands. reserved ! i \<longrightarrow> cands ! i \<in> set (mergeRanked cands reserved filled)"
    using assms(1) by (force simp: mergeRanked_def Let_def in_set_zip)
qed

section \<open>Picking a tree\<close>

definition tree_pool :: "recordlib \<Rightarrow> selectOpts \<Rightarrow> candidate list \<Rightarrow> candidate list" where
  "tree_pool lib opt cands =
     (if so_capability opt = ''snap'' then filter (\<lambda>c. enrHasEntry lib (cd_node c) ''snap'') cands else cands)"

lemma ipv6_want_bounds:
  assumes "0 < quota" and "0 < n"
  shows "1 \<le> ipv6_want n m quota" and "ipv6_want n m quota \<le> quota"
  using assms by (auto simp: ipv6_want_def Let_def)

lemma length_unreserved:
  assumes "length reserved = length cands"
  shows "length (filter (\<lambda>(c, res). \<not> res) (zip cands reserved)) + countTrue reserved = length cands"
  using assms by (induction reserved cands rule: list_induct2) auto

lemma countTrue_nth: "0 < countTrue bs \<Longrightarrow> \<exists>i<length bs. bs ! i"
  by (auto simp: countTrue_def filter_empty_conv in_set_conv_nth)

lemma pick_full:
  assumes "distinct (map cd_ptr cands0)" and "0 < so_limit opt" and "so_limit opt * int (length cands0) < 2 ^ 53"
    and cands: "cands = tree_pool lib opt cands0" and big: "so_limit opt < int (length cands)"
  shows "\<exists>sel. pick lib cands0 opt = Some sel \<and> int (length sel) = so_limit opt \<and> subseq sel cands \<and>
           ((\<exists>c\<in>set cands. v6_dialable (cd_v6 c)) \<longrightarrow> (\<exists>c\<in>set sel. v6_dialable (cd_v6 c)))"
proof -
  define quota where "quota = so_limit opt"
  define v6 where "v6 = map cd_v6 cands"
  define reserved where "reserved = reserveIPv6 v6 quota"
  define rest where "rest = map fst (filter (\<lambda>(c, res). \<not> res) (zip cands reserved))"
  define held where "held = (\<lambda>cl. int (length (filter (\<lambda>(c, res). res \<and> cd_client c = cl) (zip cands reserved))))"
  define free where "free = quota - int (countTrue reserved)"
  define filled where "filled = (if free \<le> 0 then Some []
       else if so_balance opt \<noteq> balanceProportional \<or> int (length rest) \<le> free
       then Some (take (nat (min free (int (length rest)))) rest) else balanceClients rest free held)"
  have q: "0 < quota" using assms(2) by (simp add: quota_def)
  have sub0: "subseq cands cands0" by (auto simp: cands tree_pool_def)
  have len: "length reserved = length cands"
    using reserveIPv6_spec(1) [OF q, of v6] by (simp add: reserved_def v6_def)
  have count: "int (countTrue reserved) \<le> quota"
    using reserveIPv6_spec(3) [OF q, of v6] ipv6_want_bounds(2) [OF q, of "length (filter v6_dialable v6)" "length v6"] q
    by (simp add: reserved_def split: if_splits)
  have rest: "int (length rest) = int (length cands) - int (countTrue reserved)"
    using length_unreserved [OF len] by (simp add: rest_def)
  have dist: "distinct (map cd_ptr cands)" using assms(1) subseq_distinct subseq_map [OF sub0] by blast
  have "free * int (length rest) \<le> quota * int (length cands0)"
    using count rest q list_emb_length [OF sub0] by (intro mult_mono) (auto simp: free_def)
  then have small: "free * int (length rest) < 2 ^ 53" using assms(3) by (simp add: quota_def)
  have "\<exists>f. filled = Some f \<and> int (length f) = free \<and> subseq f rest"
  proof (cases "free \<le> 0")
    case True
    then show ?thesis using count by (auto simp: filled_def free_def)
  next
    case pos: False
    have le: "free \<le> int (length rest)" using rest big by (simp add: free_def quota_def)
    show ?thesis
    proof (cases "so_balance opt \<noteq> balanceProportional \<or> int (length rest) \<le> free")
      case True
      then have "filled = Some (take (nat (min free (int (length rest)))) rest)" using pos by (simp add: filled_def)
      moreover have "subseq (take k rest) rest" for k by (simp add: take_is_prefix prefix_imp_subseq)
      moreover have "int (length (take (nat (min free (int (length rest)))) rest)) = free" using le pos by simp
      ultimately show ?thesis by blast
    next
      case False
      then have "filled = balanceClients rest free held" using pos by (simp add: filled_def)
      then show ?thesis using balance_total [of free rest held] pos le small by auto
    qed
  qed
  then obtain f where f: "filled = Some f" "int (length f) = free" "subseq f rest" by blast
  note m = merge_spec [OF len dist f(3) [unfolded rest_def]]
  have "pick lib cands0 opt = map_option (mergeRanked cands reserved) filled"
    using assms(2) big unfolding pick_def tree_pool_def [symmetric] cands [symmetric]
    by (simp add: Let_def filled_def free_def quota_def reserved_def v6_def rest_def held_def)
  then have "pick lib cands0 opt = Some (mergeRanked cands reserved f)" using f(1) by simp
  moreover have "int (length (mergeRanked cands reserved f)) = so_limit opt"
    using m(1) f(2) by (simp add: free_def quota_def)
  moreover have "\<exists>c\<in>set (mergeRanked cands reserved f). v6_dialable (cd_v6 c)"
    if "\<exists>c\<in>set cands. v6_dialable (cd_v6 c)"
  proof -
    have "filter v6_dialable v6 \<noteq> []" using that by (auto simp: v6_def filter_empty_conv)
    then have "0 < countTrue reserved"
      using reserveIPv6_spec(3) [OF q, of v6] ipv6_want_bounds(1) [OF q, of "length (filter v6_dialable v6)" "length v6"]
      by (simp add: reserved_def)
    then obtain i where i: "i < length cands" "reserved ! i" using countTrue_nth [of reserved] len by auto
    then have "v6_dialable (cd_v6 (cands ! i))"
      using reserveIPv6_spec(2) [OF q, of v6] by (simp add: reserved_def v6_def)
    with m(3) i show ?thesis by blast
  qed
  ultimately show ?thesis using m(2) by blast
qed

section \<open>Ranking\<close>

lemma rank_rows_ptrs:
  "subseq (map cd_ptr (rank_rows lib reg opt now irs targets)) (map fst irs)"
proof (induction lib reg opt now irs targets rule: rank_rows.induct)
  case (2 lib reg opt now i r rest targets)
  have ptr: "cd_ptr c = i" if "rank_parsed reg now (i, r) n ev t = Some c" for n ev t c
    using that by (auto simp: rank_parsed_def Let_def split: option.splits if_splits)
  show ?case
    using 2 ptr by (auto simp: Let_def split: option.splits prod.splits)
qed simp

lemma rankCandidates_ptrs: "distinct (map cd_ptr (rankCandidates lib reg rows opt now))"
proof -
  have "distinct (map cd_ptr (rank_rows lib reg opt now (enumerate 0 (sort_key row_order rows)) (\<lambda>_. None)))"
    by (rule subseq_distinct [OF rank_rows_ptrs]) (simp add: enumerate_eq_zip)
  then show ?thesis by (simp add: rankCandidates_def distinct_map)
qed

definition current_target :: "registry \<Rightarrow> string \<Rightarrow> gotime \<Rightarrow> ForkTarget" where
  "current_target reg network now = (case LayerForkTargetsAt reg network now of Inl _ \<Rightarrow> zeroTarget | Inr t \<Rightarrow> t)"

text \<open>
  What makes a row publishable, written down on the fields of the row and of its record: the row is of the
  layer asked for, on the current fork of its network, has an address with a port, and is within the
  limits of score, age and protocol; its record parses, its entries decode, it is itself on the current
  fork, and it does not follow a cancelled fork whose activation has passed.
\<close>

definition next_open :: "gotime \<Rightarrow> u64 \<Rightarrow> bool" where
  "next_open now nxt \<longleftrightarrow> nxt = 0 \<or> 30000000 < uint nxt \<and> uint nxt \<le> 1438269973 \<or> max 1438269973 (clampUnix now) < uint nxt"

definition on_current_fork :: "registry \<Rightarrow> gotime \<Rightarrow> Row \<Rightarrow> bool" where
  "on_current_fork reg now r \<longleftrightarrow> (\<exists>n. Get reg (r_Network r) = Inr n \<and>
     (r_Layer r = ''el'' \<and> parseHash4 (r_ForkHash r) = Some (fid_Hash (currentForkIDAt n now)) \<and> next_open now (r_ForkNext r) \<or>
      r_Layer r = ''cl'' \<and> (\<exists>c s. nw_cl n = Some c \<and> computeStateAt c (epochAt c now) = Inr s \<and>
        parseHash4 (r_ForkHash r) = Some (cs_Digest s))))"

definition record_on_current_fork :: "registry \<Rightarrow> gotime \<Rightarrow> Row \<Rightarrow> enode \<Rightarrow> bool" where
  "record_on_current_fork reg now r e \<longleftrightarrow> (\<exists>n. Get reg (r_Network r) = Inr n \<and>
     (r_Layer r = ''el'' \<and> (\<exists>eth. en_eth e = Some eth \<and> fid_Hash eth = fid_Hash (currentForkIDAt n now) \<and> next_open now (fid_Next eth)) \<or>
      r_Layer r = ''cl'' \<and> (\<exists>eth2 c s. en_eth2 e = Some eth2 \<and> length eth2 = 16 \<and> nw_cl n = Some c \<and>
        computeStateAt c (epochAt c now) = Inr s \<and> take 4 eth2 = cs_Digest s)))"

definition follows_cancelled :: "registry \<Rightarrow> gotime \<Rightarrow> Row \<Rightarrow> enode \<Rightarrow> bool" where
  "follows_cancelled reg now r e \<longleftrightarrow> (\<exists>t. LayerForkTargetsAt reg (r_Network r) now = Inr t \<and>
     (r_Layer r = ''el'' \<and> (\<exists>x eth. ft_EL t = Some x \<and> elt_Phase x = PhaseCancelled \<and> unix64 (sint (elt_Time x)) \<le> now \<and>
        en_eth e = Some eth \<and>
        ((\<exists>h\<in>set (elt_OnCancelled x). strings_EqualFold h (hex_EncodeToString (fid_Hash eth))) \<or>
         strings_EqualFold (hex_EncodeToString (fid_Hash eth)) (elt_PreHash x) \<and> fid_Next eth = elt_Time x)) \<or>
      r_Layer r = ''cl'' \<and> (\<exists>x eth2. ft_CL t = Some x \<and> clt_Phase x = PhaseCancelled \<and> clt_Time x \<le> now \<and>
        en_eth2 e = Some eth2 \<and>
        ((\<exists>h\<in>set (clt_OnCancelled x). strings_EqualFold h (hex_EncodeToString (take 4 eth2))) \<or>
         strings_EqualFold (hex_EncodeToString (take 4 eth2)) (clt_PreDigest x) \<and>
         LittleEndian_Uint64 (take 8 (drop 8 eth2)) = clt_Epoch x \<and>
         strings_EqualFold (hex_EncodeToString (take 4 (drop 4 eth2))) (clt_Version x)))))"

definition row_publishable :: "recordlib \<Rightarrow> registry \<Rightarrow> selectOpts \<Rightarrow> gotime \<Rightarrow> Row \<Rightarrow> bool" where
  "row_publishable lib reg opt now r \<longleftrightarrow>
     so_layer opt \<in> {[], ''any'', r_Layer r} \<and> on_current_fork reg now r \<and>
     (r_IP r \<noteq> [] \<and> (r_TCP r \<noteq> 0 \<or> r_QUIC r \<noteq> 0) \<or>
      r_IP6 r \<noteq> [] \<and> (r_TCP6 r \<noteq> 0 \<or> r_TCP r \<noteq> 0 \<or> r_QUIC6 r \<noteq> 0 \<or> r_QUIC r \<noteq> 0)) \<and>
     so_minScore opt \<le> r_Score r \<and>
     (so_maxAge opt \<le> 0 \<or> time_Sub now (unix64 (r_LastSeen r)) \<le> so_maxAge opt) \<and>
     (so_protocol opt = ''v4'' \<longrightarrow> r_HasV4 r) \<and> (so_protocol opt = ''v5'' \<longrightarrow> r_HasV5 r) \<and>
     r_ENR r \<noteq> [] \<and>
     (\<exists>e. lib_Parse lib (r_ENR r) = Some e \<and>
        (\<forall>k\<in>{''eth'', ''ip'', ''ip6'', ''tcp'', ''tcp6'', ''udp'', ''udp6'', ''quic'', ''quic6''}. lib_load lib e k \<noteq> LoadError) \<and>
        record_on_current_fork reg now r e \<and> \<not> follows_cancelled reg now r e)"

lemma Get_member: "Get reg name = Inr n \<Longrightarrow> n \<in> set reg"
  by (auto simp: Get_def find_Some_iff split: option.splits)

lemma row_current_unknown: "Get reg network = Inl e \<Longrightarrow> \<not> RowForkCurrentAt reg layer network h nxt now"
  by (auto simp: RowForkCurrentAt_def IsCanonicalForkCompatibleAt_def IsCurrentForkAt_def IsCurrentCLForkAt_def CLForkStateAt_def
      split: option.splits)

lemma row_current_iff:
  assumes "\<forall>n\<in>set reg. caches_ok n"
  shows "RowForkCurrentAt reg (r_Layer r) (r_Network r) (r_ForkHash r) (r_ForkNext r) now \<longleftrightarrow> on_current_fork reg now r"
proof (cases "Get reg (r_Network r)")
  case (Inr n)
  have "caches_ok n" using Get_member [OF Inr] assms by blast
  then show ?thesis unfolding row_currency [OF Inr \<open>caches_ok n\<close>] on_current_fork_def next_open_def Inr by simp
qed (simp add: row_current_unknown on_current_fork_def)

lemma parse_printed: "parseHash4 (hex_EncodeToString h) = Some b \<longleftrightarrow> h = b \<and> length h = 4"
  using hex_roundtrip [of h] by (auto simp: parseHash4_def)

lemma record_current_iff:
  assumes "\<forall>n\<in>set reg. caches_ok n"
  shows "snd (enrForkCurrentAt reg e (r_Layer r) (r_Network r) now) \<longleftrightarrow> record_on_current_fork reg now r e"
proof (cases "Get reg (r_Network r)")
  case (Inr n)
  have ok: "caches_ok n" using Get_member [OF Inr] assms by blast
  note cur = row_currency [OF Inr ok]
  show ?thesis
    using fork_hash_length [of n now]
    unfolding record_on_current_fork_def next_open_def Inr
    by (cases "en_eth e"; cases "en_eth2 e")
      (auto simp: enrForkCurrentAt_def Let_def cur parse_printed CLForkScheduleOf_def clForkSchedule_def zeroEvidence_def)
next
  case (Inl x)
  then show ?thesis
    by (auto simp: enrForkCurrentAt_def Let_def row_current_unknown [OF Inl] record_on_current_fork_def split: option.splits)
qed

text \<open>The decision of the loop, before the target of the network is looked up.\<close>

lemma cancelled_iff:
  assumes "enrForkCurrentAt reg e (r_Layer r) (r_Network r) now = (ev, True)"
  shows "(\<exists>when. CancelledAt (current_target reg (r_Network r) now) (r_Layer r) = Some when \<and> when \<le> now \<and>
      ReadinessAt reg (current_target reg (r_Network r) now) (r_Network r) ev now = Some NotReady) \<longleftrightarrow>
    follows_cancelled reg now r e"
proof (cases "LayerForkTargetsAt reg (r_Network r) now")
  case (Inl x)
  then show ?thesis
    by (simp add: current_target_def zeroTarget_def CancelledAt_def el_phase_def cl_phase_def follows_cancelled_def)
next
  case (Inr t)
  then have t: "current_target reg (r_Network r) now = t" by (simp add: current_target_def)
  consider (el) eth where "r_Layer r = ''el''" "en_eth e = Some eth"
      "ev = zeroEvidence\<lparr>ev_Layer := ''el'', ev_ForkHash := hex_EncodeToString (fid_Hash eth), ev_ForkNext := fid_Next eth\<rparr>"
    | (cl) eth2 where "r_Layer r = ''cl''" "en_eth2 e = Some eth2"
      "ev = zeroEvidence\<lparr>ev_Layer := ''cl'', ev_ForkHash := hex_EncodeToString (take 4 eth2),
         ev_ENRForkDigest := hex_EncodeToString (take 4 eth2), ev_ENRNextForkVersion := hex_EncodeToString (take 4 (drop 4 eth2)),
         ev_ENRNextForkEpoch := LittleEndian_Uint64 (take 8 (drop 8 eth2))\<rparr>"
    using assms by (auto simp: enrForkCurrentAt_def Let_def CLForkScheduleOf_def clForkSchedule_def split: if_splits option.splits)
  then show ?thesis
  proof cases
    case el
    show ?thesis
      unfolding t follows_cancelled_def Inr
      by (cases "ft_EL t") (auto simp: el CancelledAt_def el_phase_def ReadinessAt_def elReadiness_def cancelledReadiness_def
          zeroEvidence_def containsFold_def list_ex_iff)
  next
    case cl
    show ?thesis
      unfolding t follows_cancelled_def Inr
      by (cases "ft_CL t") (auto simp: cl CancelledAt_def cl_phase_def ReadinessAt_def clReadiness_def cancelledReadiness_def
          zeroEvidence_def containsFold_def list_ex_iff Let_def)
  qed
qed

definition targets_ok :: "registry \<Rightarrow> gotime \<Rightarrow> (string \<Rightarrow> ForkTarget option) \<Rightarrow> bool" where
  "targets_ok reg now targets \<longleftrightarrow> (\<forall>n t. targets n = Some t \<longrightarrow> t = current_target reg n now)"

lemma target_for_ok:
  assumes "targets_ok reg now targets" and "target_for reg now network targets = (t, targets')"
  shows "t = current_target reg network now" and "targets_ok reg now targets'"
  using assms by (auto simp: target_for_def targets_ok_def current_target_def Let_def split: option.splits if_splits sum.splits)

lemma rank_parsed_row:
  assumes "rank_parsed reg now (i, r) n ev t = Some c"
  shows "cd_row c = r \<and> cd_node c = n"
  using assms by (auto simp: rank_parsed_def Let_def split: option.splits if_splits)

lemma rank_parsed_kept:
  "rank_parsed reg now (i, r) n ev t \<noteq> None \<longleftrightarrow>
     \<not> (\<exists>when. CancelledAt t (r_Layer r) = Some when \<and> when \<le> now \<and> ReadinessAt reg t (r_Network r) ev now = Some NotReady)"
  by (auto simp: rank_parsed_def Let_def split: option.split)

lemma row_publishable_iff:
  assumes "\<forall>n\<in>set reg. caches_ok n"
  shows "row_publishable lib reg opt now r \<longleftrightarrow> row_eligible reg opt now r \<and>
    (\<exists>n. lib_Parse lib (r_ENR r) = Some n \<and> enrWellFormed lib n \<and> snd (enrForkCurrentAt reg n (r_Layer r) (r_Network r) now) \<and>
       \<not> follows_cancelled reg now r n)"
proof -
  have row: "row_eligible reg opt now r \<longleftrightarrow>
      so_layer opt \<in> {[], ''any'', r_Layer r} \<and> on_current_fork reg now r \<and>
     (r_IP r \<noteq> [] \<and> (r_TCP r \<noteq> 0 \<or> r_QUIC r \<noteq> 0) \<or>
      r_IP6 r \<noteq> [] \<and> (r_TCP6 r \<noteq> 0 \<or> r_TCP r \<noteq> 0 \<or> r_QUIC6 r \<noteq> 0 \<or> r_QUIC r \<noteq> 0)) \<and>
     so_minScore opt \<le> r_Score r \<and>
     (so_maxAge opt \<le> 0 \<or> time_Sub now (unix64 (r_LastSeen r)) \<le> so_maxAge opt) \<and>
     (so_protocol opt = ''v4'' \<longrightarrow> r_HasV4 r) \<and> (so_protocol opt = ''v5'' \<longrightarrow> r_HasV5 r) \<and> r_ENR r \<noteq> []"
  proof -
    have "\<not> (so_layer opt \<noteq> [] \<and> so_layer opt \<noteq> ''any'' \<and> r_Layer r \<noteq> so_layer opt) \<longleftrightarrow> so_layer opt \<in> {[], ''any'', r_Layer r}"
      "\<not> (r_Score r < so_minScore opt \<or> r_ENR r = []) \<longleftrightarrow> so_minScore opt \<le> r_Score r \<and> r_ENR r \<noteq> []"
      "\<not> (0 < so_maxAge opt \<and> so_maxAge opt < time_Sub now (unix64 (r_LastSeen r))) \<longleftrightarrow>
         so_maxAge opt \<le> 0 \<or> time_Sub now (unix64 (r_LastSeen r)) \<le> so_maxAge opt"
      "(if so_protocol opt = ''v4'' then r_HasV4 r else if so_protocol opt = ''v5'' then r_HasV5 r else True) \<longleftrightarrow>
         (so_protocol opt = ''v4'' \<longrightarrow> r_HasV4 r) \<and> (so_protocol opt = ''v5'' \<longrightarrow> r_HasV5 r)"
      by auto
    note parts = this
    show ?thesis
      unfolding row_eligible_def Dialable_def DialableV6_def row_current_iff [OF assms] parts by (simp only: conj_ac)
  qed
  have "enrWellFormed lib n \<longleftrightarrow>
      (\<forall>k\<in>{''eth'', ''ip'', ''ip6'', ''tcp'', ''tcp6'', ''udp'', ''udp6'', ''quic'', ''quic6''}. lib_load lib n k \<noteq> LoadError)" for n
  proof -
    have "enrEntryDecodes lib n k \<longleftrightarrow> lib_load lib n k \<noteq> LoadError" for k
      by (cases "lib_load lib n k") (simp_all add: enrEntryDecodes_def)
    then show ?thesis by (simp add: enrWellFormed_def)
  qed
  note wf = this
  show ?thesis unfolding row_publishable_def row record_current_iff [OF assms] wf by (simp only: conj_assoc)
qed

lemma rank_rows_exact:
  assumes "\<forall>n\<in>set reg. caches_ok n" and "targets_ok reg now targets"
  shows "map cd_row (rank_rows lib reg opt now irs targets) = filter (row_publishable lib reg opt now) (map snd irs) \<and>
    (\<forall>c\<in>set (rank_rows lib reg opt now irs targets). lib_Parse lib (r_ENR (cd_row c)) = Some (cd_node c))"
  using assms(2)
proof (induction irs arbitrary: targets)
  case (Cons ir irs)
  obtain i r where ir: "ir = (i, r)" by (cases ir) auto
  note pub = row_publishable_iff [OF assms(1), of lib opt now r]
  let ?keep = "row_eligible reg opt now r \<and> (\<exists>n. lib_Parse lib (r_ENR r) = Some n \<and> enrWellFormed lib n \<and>
      snd (enrForkCurrentAt reg n (r_Layer r) (r_Network r) now))"
  show ?case
  proof (cases ?keep)
    case False
    have "rank_rows lib reg opt now (ir # irs) targets = rank_rows lib reg opt now irs targets"
    proof (cases "lib_Parse lib (r_ENR r)")
      case (Some n)
      obtain ev current where e: "enrForkCurrentAt reg n (r_Layer r) (r_Network r) now = (ev, current)" by fastforce
      then have "\<not> (row_eligible reg opt now r \<and> enrWellFormed lib n \<and> current)" using False Some by auto
      then show ?thesis using Some e by (auto simp: ir Let_def)
    qed (simp add: ir Let_def)
    moreover have "\<not> row_publishable lib reg opt now r" using False pub by blast
    ultimately show ?thesis using Cons.IH [OF Cons.prems] by (simp add: ir)
  next
    case True
    then obtain n where n0: "row_eligible reg opt now r" "lib_Parse lib (r_ENR r) = Some n" "enrWellFormed lib n"
      "snd (enrForkCurrentAt reg n (r_Layer r) (r_Network r) now)" by blast
    define ev where "ev = fst (enrForkCurrentAt reg n (r_Layer r) (r_Network r) now)"
    have n: "row_eligible reg opt now r" "lib_Parse lib (r_ENR r) = Some n" "enrWellFormed lib n"
      "enrForkCurrentAt reg n (r_Layer r) (r_Network r) now = (ev, True)"
      using n0 by (simp_all add: ev_def prod_eq_iff)
    obtain t targets' where tf: "target_for reg now (r_Network r) targets = (t, targets')" by fastforce
    note ok = target_for_ok [OF Cons.prems tf]
    have p: "row_publishable lib reg opt now r \<longleftrightarrow> rank_parsed reg now (i, r) n ev t \<noteq> None"
      unfolding rank_parsed_kept ok(1) cancelled_iff [OF n(4)] pub using n by simp
    have "rank_rows lib reg opt now (ir # irs) targets =
        (case rank_parsed reg now (i, r) n ev t of None \<Rightarrow> [] | Some c \<Rightarrow> [c]) @ rank_rows lib reg opt now irs targets'"
      using n tf by (simp add: ir Let_def)
    note step = this
    show ?thesis
    proof (cases "rank_parsed reg now (i, r) n ev t")
      case None
      then show ?thesis using Cons.IH [OF ok(2)] p unfolding step by (simp add: ir)
    next
      case (Some c)
      have "cd_row c = r" "cd_node c = n" using rank_parsed_row [OF Some] by simp_all
      then show ?thesis using Cons.IH [OF ok(2)] p Some n(2) unfolding step by (simp add: ir)
    qed
  qed
qed simp

text \<open>Inserting into a list in front of the elements with the same key keeps the order within a key.\<close>

lemma sorted_insort_stable:
  assumes "sorted (map (\<lambda>x. (f x, g x)) xs)" and "\<forall>y\<in>set xs. g x \<le> g y"
  shows "sorted (map (\<lambda>x. (f x, g x)) (insort_key f x xs))"
  using assms
proof (induction xs)
  case (Cons y ys)
  then show ?case by (auto simp: less_eq_prod_def set_insort_key)
qed simp

lemma sorted_sort_stable:
  assumes "sorted (map g xs)"
  shows "sorted (map (\<lambda>x. (f x, g x)) (sort_key f xs))"
  using assms
proof (induction xs)
  case (Cons x xs)
  then show ?case using sorted_insort_stable [of f g "sort_key f xs" x] by simp
qed simp

lemma rank_rows_rows:
  "subseq (map cd_row (rank_rows lib reg opt now irs targets)) (map snd irs)"
proof (induction lib reg opt now irs targets rule: rank_rows.induct)
  case (2 lib reg opt now i r rest targets)
  have ptr: "cd_row c = r" if "rank_parsed reg now (i, r) n ev t = Some c" for n ev t c
    using that by (auto simp: rank_parsed_def Let_def split: option.splits if_splits)
  show ?case
    using 2 ptr by (auto simp: Let_def split: option.splits prod.splits)
qed simp

lemma sorted_subseq: "subseq ys xs \<Longrightarrow> sorted xs \<Longrightarrow> sorted ys"
  by (induction rule: list_emb.induct) (auto dest: list_emb_set)

text \<open>
  C38: the candidates of the trees are exactly the publishable rows of the snapshot, each as often as it
  occurs there, and none else; each carries the node its record parses to, and they are ordered by
  readiness rank, then score, recency and id. A row is publishable by the conditions on its own fields
  and those of its record that \<open>row_publishable\<close> writes out: layer, current fork, a dialable address, score,
  age and protocol limits, and a record that decodes, is on the current fork itself and does not
  follow a cancelled fork past its activation. The caches of the networks hold what their schedules give.
\<close>

theorem published_record_qualifies:
  assumes "\<forall>n\<in>set reg. caches_ok n"
  shows "mset (map cd_row (rankCandidates lib reg rows opt now)) = mset (filter (row_publishable lib reg opt now) rows) \<and>
    (\<forall>c\<in>set (rankCandidates lib reg rows opt now). lib_Parse lib (r_ENR (cd_row c)) = Some (cd_node c)) \<and>
    sorted (map (\<lambda>c. (cd_rank c, row_order (cd_row c))) (rankCandidates lib reg rows opt now))"
proof -
  define irs where "irs = enumerate 0 (sort_key row_order rows)"
  have snd_irs: "map snd irs = sort_key row_order rows" by (simp add: irs_def)
  define cs where "cs = rank_rows lib reg opt now irs (\<lambda>_. None)"
  have rc: "rankCandidates lib reg rows opt now = sort_key cd_rank cs" by (simp add: rankCandidates_def cs_def irs_def)
  have exact: "map cd_row cs = filter (row_publishable lib reg opt now) (map snd irs)"
    "\<forall>c\<in>set cs. lib_Parse lib (r_ENR (cd_row c)) = Some (cd_node c)"
    using rank_rows_exact [OF assms, of now "\<lambda>_. None" lib opt irs] by (simp_all add: targets_ok_def cs_def)
  have "mset (map cd_row (rankCandidates lib reg rows opt now)) = mset (map cd_row cs)"
    unfolding rc by (metis mset_map mset_sort)
  also have "\<dots> = mset (filter (row_publishable lib reg opt now) rows)"
    unfolding exact(1) snd_irs by (simp add: mset_filter)
  finally have one: "mset (map cd_row (rankCandidates lib reg rows opt now)) = mset (filter (row_publishable lib reg opt now) rows)" .
  have "sorted (map row_order (map cd_row cs))"
    unfolding cs_def by (rule sorted_subseq [OF subseq_map [OF rank_rows_rows]]) (simp add: snd_irs)
  then have "sorted (map (\<lambda>c. (cd_rank c, row_order (cd_row c))) (rankCandidates lib reg rows opt now))"
    using sorted_sort_stable [of "row_order \<circ> cd_row" _ cd_rank] by (simp add: rc)
  then show ?thesis using one exact(2) by (simp add: rc)
qed

text \<open>
  C39: the tree picked under a limit always exists (the loop that hands out the remainders ends), has
  exactly the smaller of the limit and the number of candidates that have the capability, keeps their
  rank order, and contains a node dialable over IPv6 when there is one. The products of the
  counts stay exact in a double.
\<close>

theorem tree_size_exact:
  assumes "cands = rankCandidates lib reg rows opt0 now" and "0 < so_limit opt"
    and "so_limit opt * int (length cands) < 2 ^ 53"
  shows "\<exists>sel. pick lib cands opt = Some sel \<and> subseq sel (tree_pool lib opt cands) \<and>
           int (length sel) = min (so_limit opt) (int (length (tree_pool lib opt cands))) \<and>
           ((\<exists>c\<in>set (tree_pool lib opt cands). v6_dialable (cd_v6 c)) \<longrightarrow> (\<exists>c\<in>set sel. v6_dialable (cd_v6 c)))"
proof (cases "so_limit opt < int (length (tree_pool lib opt cands))")
  case True
  have "distinct (map cd_ptr cands)" by (simp add: assms(1) rankCandidates_ptrs)
  from pick_full [OF this assms(2,3) refl True] True show ?thesis by auto
next
  case False
  then have "pick lib cands opt = Some (tree_pool lib opt cands)"
    by (simp add: pick_def tree_pool_def Let_def split: if_splits)
  then show ?thesis using False by auto
qed

text \<open>
  C40: when the limit covers the identified clients that hold no reserved slot, every such client
  among the candidates appears in the tree, whatever the scores.
\<close>

theorem client_floor:
  assumes "0 \<le> quota" and "quota \<le> int (length cands)" and "quota * int (length cands) < 2 ^ 53"
    and "int (length (filter (\<lambda>c. c \<noteq> unknownClient \<and> \<not> 0 < held c) (snd (client_pools cands)))) \<le> quota"
    and "cand \<in> set cands" and "cd_client cand \<noteq> unknownClient" and "\<not> 0 < held (cd_client cand)"
  shows "\<exists>sel. balanceClients cands quota held = Some sel \<and> cd_client cand \<in> cd_client ` set sel"
  using balance_total [OF assms(1-3), of held] assms(4-7) by blast

section \<open>A concrete tree\<close>

definition el_network :: Network where
  "el_network = sample_network\<lparr>nw_cl := None\<rparr>"

definition sample_row :: "string \<Rightarrow> string \<Rightarrow> Row" where
  "sample_row nid client =
     \<lparr>r_ID = nid, r_Enode = [], r_ENR = ''enr:'' @ nid, r_Seq = 0, r_IP = ''1.2.3.4'',
      r_IP6 = ''2001:db8::1'', r_TCP = 30303, r_UDP = 0, r_TCP6 = 0, r_UDP6 = 0, r_QUIC = 0,
      r_QUIC6 = 0, r_Network = ''sample'',
      r_ForkHash = hex_EncodeToString (fid_Hash (currentForkIDAt el_network sample_time)),
      r_ForkNext = 0, r_Layer = ''el'', r_CGC = 0, r_CGCKnown = False, r_HasV4 = True,
      r_HasV5 = False, r_Score = 10, r_FirstSeen = 0, r_LastSeen = 1700000000, r_LastCheck = 0,
      r_LastResolved = 0, r_Client = client, r_Version = [], r_OS = [], r_Lang = [], r_Caps = [],
      r_Country = [], r_City = [], r_Subdivision = [], r_Lat = 0, r_Lon = 0, r_ASN = 0, r_Org = [],
      r_Hosting = False, r_HostingKnown = False, r_Geolocated = False, r_GeoAccuracyRadiusKM = 0,
      r_FPStatus = ''ok'', r_FPAttempts = 0, r_FPAt = 0, r_FPNext = 0, r_MembershipSource = [],
      r_MembershipVerifiedAt = 0, r_ForkSource = [], r_ForkObservedAt = 0, r_FPDirection = [],
      r_Pinned = False, r_Head = 0, r_HeadObservedAt = 0, r_ENRForkDigest = [],
      r_ENRNextForkVersion = [], r_ENRNextForkEpoch = 0\<rparr>"

definition sample_enode :: enode where
  "sample_enode =
     \<lparr>en_ID = [], en_Seq = 1, en_URLv4 = [], en_rlp = None, en_ip = None, en_ip6 = None, en_tcp = None,
      en_udp = None, en_tcp6 = None, en_udp6 = None, en_quic = None, en_quic6 = None,
      en_eth = Some \<lparr>fid_Hash = fid_Hash (currentForkIDAt el_network sample_time), fid_Next = 0\<rparr>, en_eth2 = None, en_attnets = None,
      en_cgc = None, en_client = None\<rparr>"

definition sample_lib :: recordlib where
  "sample_lib = \<lparr>lib_Parse = (\<lambda>_. Some sample_enode), lib_load = (\<lambda>_ _. LoadOk), lib_has = (\<lambda>_ _. False)\<rparr>"

definition sample_opts :: selectOpts where
  "sample_opts = \<lparr>so_minScore = 1, so_maxAge = 0, so_protocol = ''any'', so_layer = ''el'', so_capability = [],
     so_limit = 2, so_balance = ''proportional''\<rparr>"

lemma el_network_loaded: "nw_cancellations (load el_network) = []" "nw_fork (load el_network) = None"
  by (simp_all add: load_def indexCancellations_def el_network_def sample_network_def Let_def)

lemma elTargetAt_phase: "elTargetAt n when = Some e \<Longrightarrow> elt_Phase e \<noteq> PhaseCancelled"
  by (auto simp: elTargetAt_def elTarget_of_def Let_def split: prod.splits option.splits if_splits)

lemma el_network_target: "CancelledAt (current_target [el_network] ''sample'' sample_time) ''el'' = None"
proof -
  have "Get [el_network] ''sample'' = Inr el_network" "nw_cl el_network = None"
    by (simp_all add: Get_def el_network_def sample_network_def)
  then have "el_phase (current_target [el_network] ''sample'' sample_time) = map_option elt_Phase (elTargetAt el_network sample_time)"
    by (simp add: current_target_def LayerForkTargetsAt_def cancelledTargetsAt_def el_network_loaded el_phase_def Let_def)
  then show ?thesis using elTargetAt_phase by (force simp: CancelledAt_def)
qed

definition sample_cands :: "candidate list" where
  "sample_cands = rankCandidates sample_lib [el_network]
     [sample_row ''a'' ''Geth'', sample_row ''b'' ''Geth'', sample_row ''c'' ''Reth''] sample_opts sample_time"

lemma el_network_registry: "Get [el_network] ''sample'' = Inr el_network"
  by (simp add: Get_def el_network_def sample_network_def)

lemma el_network_current:
  "RowForkCurrentAt [el_network] ''el'' ''sample'' (hex_EncodeToString (fid_Hash (currentForkIDAt el_network sample_time)))
     0 sample_time"
proof -
  have "caches_ok el_network" by (simp add: caches_ok_def load_ok_def el_network_def sample_network_def)
  moreover have "\<exists>r\<in>set (CanonicalCurrentNextRanges sample_time). fst r \<le> 0 \<and> 0 \<le> snd r"
    unfolding next_ranges by simp
  ultimately show ?thesis
    by (simp add: RowForkCurrentAt_def IsCanonicalForkCompatibleAt_def IsCurrentForkAt_def Network_IsCurrentForkAt_def
        el_network_registry parseHash4_hex [OF fork_hash_length] caches_ok_fork)
qed

lemma sample_row_eligible: "row_eligible [el_network] sample_opts sample_time (sample_row nid client)"
  using el_network_current
  by (simp add: row_eligible_def sample_opts_def sample_row_def Dialable_def DialableV6_def)

lemma sample_record_current:
  "\<exists>ev. enrForkCurrentAt [el_network] sample_enode ''el'' ''sample'' sample_time = (ev, True)"
  using el_network_current by (simp add: enrForkCurrentAt_def sample_enode_def zeroEvidence_def)

lemma sample_rank_rows:
  assumes "targets_ok [el_network] sample_time targets"
  shows "length (rank_rows sample_lib [el_network] sample_opts sample_time (map (\<lambda>(i, nid, client). (i, sample_row nid client)) xs) targets)
    = length xs"
  using assms
proof (induction xs arbitrary: targets)
  case (Cons x xs)
  obtain i nid client where x: "x = (i, nid, client)" by (cases x) auto
  obtain ev where ev: "enrForkCurrentAt [el_network] sample_enode ''el'' ''sample'' sample_time = (ev, True)"
    using sample_record_current by blast
  obtain t targets' where tf: "target_for [el_network] sample_time ''sample'' targets = (t, targets')" by fastforce
  note ok = target_for_ok [OF Cons.prems tf]
  have row: "r_Layer (sample_row nid client) = ''el''" "r_Network (sample_row nid client) = ''sample''"
    by (simp_all add: sample_row_def)
  have "\<exists>c. rank_parsed [el_network] sample_time (i, sample_row nid client) sample_enode ev t = Some c"
    using el_network_target by (simp add: rank_parsed_def row ok(1) Let_def)
  moreover have "enrWellFormed sample_lib sample_enode" "lib_Parse sample_lib s = Some sample_enode" for s
    by (simp_all add: enrWellFormed_def enrEntryDecodes_def sample_lib_def)
  ultimately show ?case
    using Cons.IH [OF ok(2)] by (auto simp: x sample_row_eligible row ev tf Let_def)
qed simp

lemma sample_cands_length: "length sample_cands = 3"
proof -
  define rows where "rows = sort_key row_order [sample_row ''a'' ''Geth'', sample_row ''b'' ''Geth'', sample_row ''c'' ''Reth'']"
  have "row_order (sample_row nid client) = (- 10, - 1700000000, nid)" for nid client
    by (simp add: row_order_def sample_row_def)
  then have "rows = [sample_row ''a'' ''Geth'', sample_row ''b'' ''Geth'', sample_row ''c'' ''Reth'']"
    by (simp add: rows_def)
  then have "enumerate 0 rows = map (\<lambda>(i, nid, client). (i, sample_row nid client))
      [(0, ''a'', ''Geth''), (1, ''b'', ''Geth''), (2, ''c'', ''Reth'')]" by (simp add: numeral_2_eq_2)
  then have "length (rank_rows sample_lib [el_network] sample_opts sample_time (enumerate 0 rows) (\<lambda>_. None)) = 3"
    using sample_rank_rows [of "\<lambda>_. None" "[(0, ''a'', ''Geth''), (1, ''b'', ''Geth''), (2, ''c'', ''Reth'')]"]
    unfolding targets_ok_def by (simp del: list.map)
  then show ?thesis unfolding sample_cands_def rankCandidates_def rows_def [symmetric] Let_def length_sort .
qed

theorem published_record_qualifies_witness:
  "row_publishable sample_lib [el_network] sample_opts sample_time (cd_row (hd sample_cands)) \<and> length sample_cands = 3"
proof -
  have c: "\<forall>n\<in>set [el_network]. caches_ok n" by (simp add: caches_ok_def load_ok_def el_network_def sample_network_def)
  have "hd sample_cands \<in> set sample_cands" using sample_cands_length by (intro hd_in_set) auto
  then have "cd_row (hd sample_cands) \<in> set (map cd_row sample_cands)" by simp
  moreover have "set (map cd_row sample_cands) = set (filter (row_publishable sample_lib [el_network] sample_opts sample_time)
      [sample_row ''a'' ''Geth'', sample_row ''b'' ''Geth'', sample_row ''c'' ''Reth''])"
    unfolding sample_cands_def by (rule mset_eq_setD) (rule conjunct1 [OF published_record_qualifies [OF c]])
  ultimately show ?thesis using sample_cands_length unfolding set_filter by blast
qed

theorem tree_size_exact_witness:
  "\<exists>sel. pick sample_lib sample_cands sample_opts = Some sel \<and> length sel = 2"
proof -
  have "tree_pool sample_lib sample_opts sample_cands = sample_cands" by (simp add: tree_pool_def sample_opts_def)
  moreover have "so_limit sample_opts = 2" by (simp add: sample_opts_def)
  ultimately show ?thesis
    using tree_size_exact [OF sample_cands_def, of sample_opts] sample_cands_length by auto
qed

definition sample_candidate :: "string \<Rightarrow> nat \<Rightarrow> candidate" where
  "sample_candidate client i =
     \<lparr>cd_row = sample_row [] client, cd_node = sample_enode, cd_ptr = i, cd_client = client,
      cd_v6 = \<lparr>v6_dialable = False, v6_ownPort = False\<rparr>, cd_rank = 1\<rparr>"

theorem client_floor_witness:
  "\<exists>sel. balanceClients [sample_candidate ''Geth'' 0, sample_candidate ''Geth'' 1, sample_candidate ''Reth'' 2] 2 (\<lambda>_. 0) = Some sel \<and>
     ''Reth'' \<in> cd_client ` set sel"
proof -
  have "snd (client_pools [sample_candidate ''Geth'' 0, sample_candidate ''Geth'' 1, sample_candidate ''Reth'' 2]) = [''Geth'', ''Reth'']"
    by (simp add: client_pools_def pool_step_def sample_candidate_def Let_def)
  then show ?thesis
    using client_floor [of 2 "[sample_candidate ''Geth'' 0, sample_candidate ''Geth'' 1, sample_candidate ''Reth'' 2]" "\<lambda>_. 0"
        "sample_candidate ''Reth'' 2"]
    by (simp add: sample_candidate_def unknownClient_def)
qed

end
