(* ===== verification/ObjectStore.thy ===== *)
theory ObjectStore
  imports NetworkForks Hashes
begin

text \<open>
  The object store of \<^verbatim>\<open>internal/store/store.go\<close>: the filesystem implementation of the interfaces
  \<^verbatim>\<open>Store\<close> and \<^verbatim>\<open>ConditionalStore\<close>. The objects are a map from the cleaned relative path of
  a key to bytes; the temporary file and rename of \<^verbatim>\<open>Put\<close> make each write atomic, and the lock of
  \<^verbatim>\<open>PutIfVersion\<close> makes its read, comparison and write one step. That lock only excludes other calls of
  \<^verbatim>\<open>PutIfVersion\<close>: the model assumes that the objects written conditionally, the manifests, are not also
  written by \<^verbatim>\<open>Put\<close> or deleted between the comparison and the rename, which the program never does.
  The S3 implementation is not modelled.

  Everything the process does not control is the script of the world: before each call other
  processes may write or delete objects, and a call may fail before it takes effect or after (a
  failed directory sync, a lost response), which the caller cannot tell apart. An empty script is a
  quiet, faultless store. Refused symbolic links and cancelled contexts are failures before the call.
\<close>

section \<open>Keys\<close>

text \<open>\<^verbatim>\<open>filepath.Clean\<close> on slash-separated components.\<close>

definition clean_step :: "bool \<Rightarrow> string list \<Rightarrow> string \<Rightarrow> string list" where
  "clean_step rooted out c =
     (if c = [] \<or> c = ''.'' then out
      else if c = ''..''
      then (if out \<noteq> [] \<and> last out \<noteq> ''..'' then butlast out else if rooted then out else out @ [c])
      else out @ [c])"

definition path_rooted :: "string \<Rightarrow> bool" where
  "path_rooted p \<longleftrightarrow> is_prefix ''/'' p"

definition clean_parts :: "string \<Rightarrow> string list" where
  "clean_parts p = foldl (clean_step (path_rooted p)) [] (split_on (CHR ''/'') p)"

definition path_Clean :: "string \<Rightarrow> string" where
  "path_Clean p =
     (let s = (if path_rooted p then ''/'' else []) @ intercalate ''/'' (clean_parts p)
      in if s = [] then ''.'' else s)"

definition safeRelPath :: "string \<Rightarrow> string option" where
  "safeRelPath key =
     (let clean = path_Clean key in
      if clean = ''.'' \<or> is_prefix ''/'' clean \<or> clean = ''..'' \<or> is_prefix ''../'' clean then None else Some clean)"

section \<open>The world\<close>

definition MaxObjectBytes :: nat where
  "MaxObjectBytes = 134217728"

datatype storeError = ErrNotFound | ErrCASConflict | ErrBadKey | ErrTooLarge | ErrIO

datatype fault = NoFault | FailBefore | FailAfter

record call_env =
  ce_writes :: "(string \<times> byte list option) list"
  ce_fault :: fault

record world =
  w_objects :: "(string, byte list) gomap"
  w_script :: "call_env list"

definition put_object :: "string \<Rightarrow> byte list \<Rightarrow> world \<Rightarrow> world" where
  "put_object k d w = w\<lparr>w_objects := AList.update k d (w_objects w)\<rparr>"

definition del_object :: "string \<Rightarrow> world \<Rightarrow> world" where
  "del_object k w = w\<lparr>w_objects := AList.delete k (w_objects w)\<rparr>"

definition object :: "world \<Rightarrow> string \<Rightarrow> byte list option" where
  "object w k = map_of (w_objects w) k"

fun interfere :: "(string \<times> byte list option) list \<Rightarrow> world \<Rightarrow> world" where
  "interfere [] w = w"
| "interfere ((k, None) # es) w = interfere es (del_object k w)"
| "interfere ((k, Some d) # es) w = interfere es (put_object k d w)"

definition enter :: "world \<Rightarrow> fault \<times> world" where
  "enter w =
     (case w_script w of
        [] \<Rightarrow> (NoFault, w)
      | e # es \<Rightarrow> (ce_fault e, interfere (ce_writes e) (w\<lparr>w_script := es\<rparr>)))"

section \<open>Operations\<close>

definition store_Put :: "string \<Rightarrow> byte list \<Rightarrow> world \<Rightarrow> storeError option \<times> world" where
  "store_Put key data w =
     (if MaxObjectBytes < length data then (Some ErrTooLarge, w)
      else case safeRelPath key of
        None \<Rightarrow> (Some ErrBadKey, w)
      | Some rel \<Rightarrow>
          (case enter w of
             (FailBefore, w) \<Rightarrow> (Some ErrIO, w)
           | (FailAfter, w) \<Rightarrow> (Some ErrIO, put_object rel data w)
           | (NoFault, w) \<Rightarrow> (None, put_object rel data w)))"

definition read_object :: "string \<Rightarrow> world \<Rightarrow> storeError + byte list" where
  "read_object rel w =
     (case object w rel of
        None \<Rightarrow> Inl ErrNotFound
      | Some d \<Rightarrow> if MaxObjectBytes < length d then Inl ErrTooLarge else Inr d)"

definition store_Get :: "string \<Rightarrow> world \<Rightarrow> (storeError + byte list) \<times> world" where
  "store_Get key w =
     (case safeRelPath key of
        None \<Rightarrow> (Inl ErrBadKey, w)
      | Some rel \<Rightarrow>
          (case enter w of
             (NoFault, w) \<Rightarrow> (read_object rel w, w)
           | (_, w) \<Rightarrow> (Inl ErrIO, w)))"

definition objectVersion :: "byte list \<Rightarrow> string" where
  "objectVersion d = hex_EncodeToString (sha256_Sum256 d)"

definition GetVersion :: "string \<Rightarrow> world \<Rightarrow> (storeError + byte list \<times> string) \<times> world" where
  "GetVersion key w =
     (case store_Get key w of
        (Inl e, w) \<Rightarrow> (Inl e, w)
      | (Inr d, w) \<Rightarrow> (Inr (d, objectVersion d), w))"

text \<open>The comparison under the lock: the object must be absent for an empty version, and otherwise
  have exactly the expected one.\<close>

definition cas_check :: "string \<Rightarrow> string \<Rightarrow> world \<Rightarrow> storeError option" where
  "cas_check rel expected w =
     (case read_object rel w of
        Inl ErrNotFound \<Rightarrow> if expected \<noteq> [] then Some ErrCASConflict else None
      | Inl e \<Rightarrow> Some e
      | Inr cur \<Rightarrow> if expected = [] \<or> objectVersion cur \<noteq> expected then Some ErrCASConflict else None)"

definition PutIfVersion :: "string \<Rightarrow> string \<Rightarrow> byte list \<Rightarrow> world \<Rightarrow> (storeError + string) \<times> world" where
  "PutIfVersion key expected data w =
     (case safeRelPath key of
        None \<Rightarrow> (Inl ErrBadKey, w)
      | Some rel \<Rightarrow>
          (case enter w of
             (FailBefore, w) \<Rightarrow> (Inl ErrIO, w)
           | (f, w) \<Rightarrow>
               (case cas_check rel expected w of
                  Some e \<Rightarrow> (Inl e, w)
                | None \<Rightarrow>
                    if MaxObjectBytes < length data then (Inl ErrTooLarge, w)
                    else (if f = FailAfter then Inl ErrIO else Inr (objectVersion data), put_object rel data w))))"

definition store_Delete :: "string \<Rightarrow> world \<Rightarrow> storeError option \<times> world" where
  "store_Delete key w =
     (case safeRelPath key of
        None \<Rightarrow> (Some ErrBadKey, w)
      | Some rel \<Rightarrow>
          (case enter w of
             (FailBefore, w) \<Rightarrow> (Some ErrIO, w)
           | (FailAfter, w) \<Rightarrow> (Some ErrIO, del_object rel w)
           | (NoFault, w) \<Rightarrow> (None, del_object rel w)))"

text \<open>\<^verbatim>\<open>path.Dir\<close> of a prefix: its cleaned part up to the last slash.\<close>

definition path_Dir :: "string \<Rightarrow> string" where
  "path_Dir p = path_Clean (rev (dropWhile (\<lambda>c. c \<noteq> CHR ''/'') (rev p)))"

definition has_suffix :: "string \<Rightarrow> string \<Rightarrow> bool" where
  "has_suffix s suf = is_prefix (rev suf) (rev s)"

definition store_List :: "string \<Rightarrow> world \<Rightarrow> (storeError + string list) \<times> world" where
  "store_List prfx w =
     (if path_Dir prfx \<noteq> ''.'' \<and> path_Dir prfx \<noteq> ''/'' \<and> safeRelPath (path_Dir prfx) = None
      then (Inl ErrBadKey, w)
      else case enter w of
        (NoFault, w) \<Rightarrow>
          (Inr (filter (\<lambda>k. is_prefix prfx k \<and> \<not> has_suffix k ''.tmp'' \<and> \<not> has_suffix k ''.lock'')
             (map fst (w_objects w))), w)
      | (_, w) \<Rightarrow> (Inl ErrIO, w))"

section \<open>Cleaned paths\<close>

definition plain_part :: "string \<Rightarrow> bool" where
  "plain_part c \<longleftrightarrow> c \<noteq> [] \<and> c \<noteq> ''.'' \<and> c \<noteq> ''..'' \<and> CHR ''/'' \<notin> set c"

lemma split_on_parts: "\<forall>c\<in>set (split_on d s). d \<notin> set c"
  by (induction d s rule: split_on.induct) (auto split: list.splits if_splits)

text \<open>Whatever the components, the cleaned parts are some leading \<^verbatim>\<open>..\<close> of a relative path followed by
  plain names.\<close>

definition clean_shape :: "bool \<Rightarrow> string list \<Rightarrow> bool" where
  "clean_shape rooted out \<longleftrightarrow>
     (\<exists>n ps. out = replicate n ''..'' @ ps \<and> list_all plain_part ps \<and> (rooted \<longrightarrow> n = 0))"

lemma clean_step_shape:
  assumes "clean_shape rooted out" and "CHR ''/'' \<notin> set c"
  shows "clean_shape rooted (clean_step rooted out c)"
proof -
  obtain n ps where out: "out = replicate n ''..'' @ ps" "list_all plain_part ps" "rooted \<longrightarrow> n = 0"
    using assms(1) by (auto simp: clean_shape_def)
  show ?thesis
  proof (cases "c = ''..''")
    case True
    show ?thesis
    proof (cases "ps = []")
      case False
      then have "last out = last ps" "butlast out = replicate n ''..'' @ butlast ps" "last ps \<noteq> ''..''"
        using out(1,2) by (auto simp: butlast_append list_all_iff plain_part_def)
      moreover have "list_all plain_part (butlast ps)" using out(2) by (auto simp: list_all_iff dest: in_set_butlastD)
      ultimately show ?thesis
        using True False out(1,3) unfolding clean_shape_def clean_step_def by auto
    next
      case empty: True
      show ?thesis
      proof (cases rooted)
        case True
        with empty out \<open>c = ''..''\<close> have "clean_step rooted out c = []" by (simp add: clean_step_def)
        then show ?thesis by (simp add: clean_shape_def)
      next
        case False
        have "last (replicate n ''..'') = ''..''" if "n \<noteq> 0" using that by (metis last_replicate)
        with empty out(1) False \<open>c = ''..''\<close> have "clean_step rooted out c = replicate (Suc n) ''..'' @ []"
          by (auto simp: clean_step_def replicate_append_same)
        then show ?thesis using False unfolding clean_shape_def by (intro exI [of _ "Suc n"] exI [of _ "[]"]) simp
      qed
    qed
  next
    case False
    then have "clean_step rooted out c = out \<or> clean_step rooted out c = replicate n ''..'' @ (ps @ [c]) \<and> plain_part c"
      using assms(2) out(1) by (auto simp: clean_step_def plain_part_def)
    then show ?thesis
    proof
      assume "clean_step rooted out c = replicate n ''..'' @ (ps @ [c]) \<and> plain_part c"
      then show ?thesis using out(2,3) unfolding clean_shape_def by (intro exI [of _ n] exI [of _ "ps @ [c]"]) simp
    qed (use assms(1) in simp)
  qed
qed

lemma clean_parts_shape: "clean_shape (path_rooted p) (clean_parts p)"
proof -
  have "clean_shape rooted (foldl (clean_step rooted) out cs)"
    if "clean_shape rooted out" "\<forall>c\<in>set cs. CHR ''/'' \<notin> set c" for rooted out cs
    using that by (induction cs arbitrary: out) (auto intro: clean_step_shape)
  moreover have "clean_shape (path_rooted p) []" by (simp add: clean_shape_def)
  ultimately show ?thesis unfolding clean_parts_def using split_on_parts by blast
qed

lemma is_prefix_append_iff: "is_prefix p s \<longleftrightarrow> (\<exists>t. s = p @ t)"
  by (induction p s rule: is_prefix.induct) auto

lemma intercalate_Cons: "xs \<noteq> [] \<Longrightarrow> intercalate sep (x # xs) = x @ sep @ intercalate sep xs"
  by (cases xs) auto

lemma safeRelPath_plain:
  assumes "safeRelPath key = Some rel"
  shows "list_all plain_part (split_on (CHR ''/'') rel)"
proof -
  define out where "out = clean_parts key"
  have rel: "rel = path_Clean key" and not: "rel \<noteq> ''.''" "\<not> is_prefix ''/'' rel" "rel \<noteq> ''..''" "\<not> is_prefix ''../'' rel"
    using assms by (auto simp: safeRelPath_def Let_def split: if_splits)
  have s: "rel = intercalate ''/'' out" "out \<noteq> []" "\<not> path_rooted key"
    using rel not by (auto simp: path_Clean_def Let_def out_def split: if_splits)
  obtain n ps where out: "out = replicate n ''..'' @ ps" "list_all plain_part ps"
    using clean_parts_shape [of key] by (auto simp: clean_shape_def out_def)
  have "n = 0"
  proof (rule ccontr)
    assume "n \<noteq> 0"
    then obtain k where k: "out = ''..'' # replicate k ''..'' @ ps" using out(1) by (cases n) auto
    show False
    proof (cases "replicate k ''..'' @ ps = []")
      case True
      then show False using k s(1) not(3) by simp
    next
      case False
      from s(1) have "rel = ''..'' @ ''/'' @ intercalate ''/'' (replicate k ''..'' @ ps)"
        unfolding k intercalate_Cons [OF False] .
      then show False using not(4) by simp
    qed
  qed
  with out have "list_all plain_part out" by simp
  with s show ?thesis by (simp add: split_on_intercalate list_all_iff plain_part_def)
qed

lemma clean_plain_parts: "list_all plain_part cs \<Longrightarrow> foldl (clean_step rooted) out cs = out @ cs"
  by (induction cs arbitrary: out) (auto simp: clean_step_def plain_part_def)

lemma intercalate_split_on: "intercalate [d] (split_on d s) = s"
proof (induction s)
  case (Cons x xs)
  have "split_on d xs \<noteq> []" by (cases xs) (auto split: list.splits)
  with Cons show ?case by (cases "split_on d xs"; cases "tl (split_on d xs)") (auto simp: intercalate_Cons)
qed simp

lemma plain_safeRelPath:
  assumes "list_all plain_part (split_on (CHR ''/'') key)"
  shows "safeRelPath key = Some key"
proof -
  have ne: "split_on (CHR ''/'') key \<noteq> []" by (cases key) (auto split: list.splits)
  have hd: "plain_part (hd (split_on (CHR ''/'') key))" using assms ne by (cases "split_on (CHR ''/'') key") auto
  have first: "hd (split_on (CHR ''/'') (p @ CHR ''/'' # r)) = p" if "CHR ''/'' \<notin> set p" for p r
    using that by (simp add: split_on_append)
  have "\<not> path_rooted key" using hd first [of "[]"] by (auto simp: path_rooted_def is_prefix_append_iff plain_part_def)
  then have "path_Clean key = key"
    using intercalate_split_on [of "CHR ''/''" key] assms ne hd
    by (auto simp: path_Clean_def clean_parts_def clean_plain_parts Let_def plain_part_def)
  moreover have "key \<noteq> ''.''" "key \<noteq> ''..''" using hd by (auto simp: plain_part_def)
  moreover have "\<not> is_prefix ''/'' key" "\<not> is_prefix ''../'' key"
    using hd first [of "[]"] first [of "''..''"] by (auto simp: is_prefix_append_iff plain_part_def)
  ultimately show ?thesis by (simp add: safeRelPath_def Let_def)
qed

section \<open>The objects of a world\<close>

lemma object_put [simp]: "object (put_object k d w) k' = (if k' = k then Some d else object w k')"
  by (simp add: object_def put_object_def map_of_update)

lemma object_del [simp]: "object (del_object k w) k' = (if k' = k then None else object w k')"
  by (simp add: object_def del_object_def map_of_delete)

lemma script_put_del [simp]:
  "w_script (put_object k d w) = w_script w" "w_script (del_object k w) = w_script w"
  by (simp_all add: put_object_def del_object_def)

definition quiet :: "world \<Rightarrow> bool" where
  "quiet w \<longleftrightarrow> w_script w = []"

lemma enter_quiet [simp]: "quiet w \<Longrightarrow> enter w = (NoFault, w)"
  by (simp add: quiet_def enter_def)

lemma quiet_put_del [simp]: "quiet (put_object k d w) = quiet w" "quiet (del_object k w) = quiet w"
  by (simp_all add: quiet_def)

text \<open>The world when a call takes effect, after the interference before it.\<close>

definition settle :: "world \<Rightarrow> world" where
  "settle w = snd (enter w)"

section \<open>The contract of a conditional store\<close>

text \<open>
  What the commit protocol relies on, \<^verbatim>\<open>store.ConditionalStore\<close>: a read returns the object of the
  instant it takes effect with its version, and a conditional write replaces exactly the object that
  has the expected version, or creates a missing one, or changes nothing.
\<close>

locale conditional_store =
  fixes view :: "'w \<Rightarrow> string \<Rightarrow> byte list option"
    and version :: "byte list \<Rightarrow> string"
    and at_effect :: "'w \<Rightarrow> 'w"
    and getv :: "string \<Rightarrow> 'w \<Rightarrow> (storeError + byte list \<times> string) \<times> 'w"
    and putif :: "string \<Rightarrow> string \<Rightarrow> byte list \<Rightarrow> 'w \<Rightarrow> (storeError + string) \<times> 'w"
  assumes getv_found: "getv k w = (Inr (d, v), w') \<Longrightarrow> w' = at_effect w \<and> view w' k = Some d \<and> v = version d"
    and getv_absent: "getv k w = (Inl ErrNotFound, w') \<Longrightarrow> w' = at_effect w \<and> view w' k = None"
    and getv_keeps: "getv k w = (r, w') \<Longrightarrow> view w' = view w \<or> w' = at_effect w"
    and putif_done: "putif k e d w = (Inr v, w') \<Longrightarrow>
      view w' k = Some d \<and> v = version d \<and>
      (if e = [] then view (at_effect w) k = None else \<exists>c. view (at_effect w) k = Some c \<and> version c = e)"
    and putif_lost: "putif k e d w = (Inl ErrCASConflict, w') \<Longrightarrow>
      w' = at_effect w \<and> (if e = [] then view w' k \<noteq> None else \<forall>c. view w' k = Some c \<longrightarrow> version c \<noteq> e)"
    and version_ne: "version d \<noteq> []"
begin

text \<open>A read followed by a conditional write on the version read replaces that very version.\<close>

lemma update_cycle:
  assumes "getv k w = (Inr (d, v), w1)" and "putif k v x w1 = (Inr u, w2)"
  shows "view w1 k = Some d \<and> view w2 k = Some x \<and> (\<exists>c. view (at_effect w1) k = Some c \<and> version c = version d)"
  using getv_found [OF assms(1)] putif_done [OF assms(2)] version_ne [of d] by auto

lemma create_cycle:
  assumes "getv k w = (Inl ErrNotFound, w1)" and "putif k [] x w1 = (Inr u, w2)"
  shows "view w1 k = None \<and> view w2 k = Some x \<and> view (at_effect w1) k = None"
  using getv_absent [OF assms(1)] putif_done [OF assms(2)] by auto

text \<open>A lost race is somebody else's: the object changed between the read and the write.\<close>

lemma lost_cycle:
  assumes "getv k w = (Inr (d, v), w1)" and "putif k v x w1 = (Inl ErrCASConflict, w2)"
  shows "view w2 k \<noteq> view w1 k \<and> w2 = at_effect w1"
  using getv_found [OF assms(1)] putif_lost [OF assms(2)] version_ne [of d] by (auto split: if_splits)

end

definition key_view :: "world \<Rightarrow> string \<Rightarrow> byte list option" where
  "key_view w k = (case safeRelPath k of None \<Rightarrow> None | Some rel \<Rightarrow> object w rel)"

lemma objectVersion_ne: "objectVersion d \<noteq> []"
proof -
  have "length (objectVersion d) = 64"
    using hex_DecodeString_length [OF hex_roundtrip, of "sha256_Sum256 d"] by (simp add: objectVersion_def)
  then show ?thesis by auto
qed

lemma store_Get_cases:
  assumes "store_Get k w = (r, w')"
  shows "safeRelPath k = None \<and> r = Inl ErrBadKey \<and> w' = w \<or>
    (\<exists>rel. safeRelPath k = Some rel \<and> w' = settle w \<and>
       (if fst (enter w) = NoFault then r = read_object rel w' else r = Inl ErrIO))"
  using assms unfolding store_Get_def settle_def
  by (auto split: option.splits prod.splits fault.splits)

lemma read_object_found: "read_object rel w = Inr d \<Longrightarrow> object w rel = Some d"
  by (auto simp: read_object_def split: option.splits if_splits)

lemma read_object_absent: "read_object rel w = Inl ErrNotFound \<longleftrightarrow> object w rel = None"
  by (auto simp: read_object_def split: option.splits)

lemma cas_check_None:
  "cas_check rel e w = None \<Longrightarrow>
     if e = [] then object w rel = None else \<exists>c. object w rel = Some c \<and> objectVersion c = e"
  by (auto simp: cas_check_def read_object_absent dest!: read_object_found split: sum.splits storeError.splits if_splits)

lemma cas_check_conflict:
  assumes "cas_check rel e w = Some ErrCASConflict"
  shows "if e = [] then object w rel \<noteq> None else \<forall>c. object w rel = Some c \<longrightarrow> objectVersion c \<noteq> e"
  using assms
  by (auto simp: cas_check_def read_object_absent read_object_def split: sum.splits storeError.splits if_splits option.splits)

lemma PutIfVersion_cases:
  assumes "PutIfVersion k e d w = (r, w')"
  shows "safeRelPath k = None \<and> r = Inl ErrBadKey \<and> w' = w \<or>
    (\<exists>rel. safeRelPath k = Some rel \<and>
       (fst (enter w) = FailBefore \<and> r = Inl ErrIO \<and> w' = settle w \<or>
        (\<exists>x. cas_check rel e (settle w) = Some x \<and> r = Inl x \<and> w' = settle w) \<or>
        MaxObjectBytes < length d \<and> r = Inl ErrTooLarge \<and> w' = settle w \<or>
        cas_check rel e (settle w) = None \<and> w' = put_object rel d (settle w) \<and>
          (r = Inl ErrIO \<or> r = Inr (objectVersion d))))"
  using assms unfolding PutIfVersion_def settle_def
  by (auto split: option.splits prod.splits fault.splits if_splits)

interpretation fs: conditional_store key_view objectVersion settle GetVersion PutIfVersion
proof unfold_locales
  fix k w d v w' assume "GetVersion k w = (Inr (d, v), w')"
  then have "store_Get k w = (Inr d, w')" "v = objectVersion d" by (auto simp: GetVersion_def split: prod.splits sum.splits)
  then show "w' = settle w \<and> key_view w' k = Some d \<and> v = objectVersion d"
    using store_Get_cases [of k w "Inr d" w']
    by (auto simp: key_view_def split: if_splits dest!: read_object_found [OF sym])
next
  fix k w w' assume "GetVersion k w = (Inl ErrNotFound, w')"
  then have "store_Get k w = (Inl ErrNotFound, w')" by (auto simp: GetVersion_def split: prod.splits sum.splits)
  then show "w' = settle w \<and> key_view w' k = None"
    using store_Get_cases [of k w "Inl ErrNotFound" w']
    by (auto simp: key_view_def read_object_absent [symmetric] split: if_splits)
next
  fix k w r w' assume "GetVersion k w = (r, w')"
  then obtain g where "store_Get k w = (g, w')" by (auto simp: GetVersion_def split: prod.splits sum.splits)
  then show "key_view w' = key_view w \<or> w' = settle w" using store_Get_cases by blast
next
  fix k e d w v w' assume "PutIfVersion k e d w = (Inr v, w')"
  from PutIfVersion_cases [OF this]
  show "key_view w' k = Some d \<and> v = objectVersion d \<and>
      (if e = [] then key_view (settle w) k = None else \<exists>c. key_view (settle w) k = Some c \<and> objectVersion c = e)"
    by (auto simp: key_view_def dest: cas_check_None split: if_splits)
next
  fix k e d w w' assume "PutIfVersion k e d w = (Inl ErrCASConflict, w')"
  from PutIfVersion_cases [OF this]
  show "w' = settle w \<and>
      (if e = [] then key_view w' k \<noteq> None else \<forall>c. key_view w' k = Some c \<longrightarrow> objectVersion c \<noteq> e)"
    by (auto simp: key_view_def dest: cas_check_conflict split: if_splits)
next
  fix d show "objectVersion d \<noteq> []" by (rule objectVersion_ne)
qed

end
