(* ===== verification/TimeFormat.thy ===== *)
theory TimeFormat
  imports Prelude
begin

text \<open>
  \<^verbatim>\<open>time.Format\<close> and \<^verbatim>\<open>time.Parse\<close> of package time, for the fixed UTC layouts of the
  snapshot and aggregate object keys: a layout is a list of chunks. Instants are those of the years
  1 to 9999 of the proleptic Gregorian calendar, so that a year prints as four digits.
\<close>

section \<open>The calendar\<close>

definition leap_year :: "nat \<Rightarrow> bool" where
  "leap_year y \<longleftrightarrow> 4 dvd y \<and> (\<not> 100 dvd y \<or> 400 dvd y)"

definition year_days :: "nat \<Rightarrow> nat" where
  "year_days y = (if leap_year y then 366 else 365)"

definition daysIn :: "nat \<Rightarrow> nat \<Rightarrow> nat" where
  "daysIn y m = (if m = 2 then (if leap_year y then 29 else 28) else if m \<in> {4, 6, 9, 11} then 30 else 31)"

function year_of :: "nat \<Rightarrow> nat \<Rightarrow> nat \<times> nat" where
  "year_of y d = (if d < year_days y then (y, d) else year_of (y + 1) (d - year_days y))"
  by pat_completeness auto
termination
  by (relation "measure snd") (auto simp: year_days_def)

declare year_of.simps [simp del]

fun month_of :: "nat \<Rightarrow> nat list \<Rightarrow> nat \<Rightarrow> nat \<times> nat" where
  "month_of y [] d = (12, d)"
| "month_of y (m # ms) d = (if d < daysIn y m then (m, d) else month_of y ms (d - daysIn y m))"

definition days_before_year :: "nat \<Rightarrow> nat" where
  "days_before_year y = sum_list (map year_days [1..<y])"

definition days_before_month :: "nat \<Rightarrow> nat \<Rightarrow> nat" where
  "days_before_month y m = sum_list (map (daysIn y) [1..<m])"

record civil =
  cv_year :: nat
  cv_month :: nat
  cv_day :: nat
  cv_hour :: nat
  cv_minute :: nat
  cv_second :: nat
  cv_nsec :: nat

definition civil_of :: "gotime \<Rightarrow> civil" where
  "civil_of t =
     (let ns = nat (t - time_zero); secs = ns div 1000000000; days = secs div 86400; rem = secs mod 86400;
          (y, yd) = year_of 1 days; (m, d) = month_of y [1..<13] yd
      in \<lparr>cv_year = y, cv_month = m, cv_day = d + 1, cv_hour = rem div 3600, cv_minute = rem div 60 mod 60,
          cv_second = rem mod 60, cv_nsec = ns mod 1000000000\<rparr>)"

text \<open>The year 0, which only parsing can produce, is a leap year before the year 1.\<close>

definition year_start :: "nat \<Rightarrow> int" where
  "year_start y = (if y = 0 then - 366 else int (days_before_year y))"

definition time_of :: "civil \<Rightarrow> gotime" where
  "time_of c =
     time_zero + (((year_start (cv_year c) + int (days_before_month (cv_year c) (cv_month c)) + int (cv_day c) - 1) * 86400 +
       int (cv_hour c * 3600 + cv_minute c * 60 + cv_second c)) * 1000000000) + int (cv_nsec c)"

section \<open>Digits\<close>

definition digit_char :: "nat \<Rightarrow> char" where
  "digit_char d = char_of (48 + d)"

definition digit_of :: "char \<Rightarrow> nat option" where
  "digit_of c = (let n = of_char c :: nat in if 48 \<le> n \<and> n \<le> 57 then Some (n - 48) else None)"

fun fix_digits :: "nat \<Rightarrow> nat \<Rightarrow> string" where
  "fix_digits 0 n = []"
| "fix_digits (Suc w) n = fix_digits w (n div 10) @ [digit_char (n mod 10)]"

fun parse_digits :: "nat \<Rightarrow> nat \<Rightarrow> string \<Rightarrow> (nat \<times> string) option" where
  "parse_digits 0 acc s = Some (acc, s)"
| "parse_digits (Suc w) acc [] = None"
| "parse_digits (Suc w) acc (c # s) =
     (case digit_of c of None \<Rightarrow> None | Some d \<Rightarrow> parse_digits w (10 * acc + d) s)"

section \<open>Layouts\<close>

datatype chunk = Lit char | LongYear | ZeroMonth | ZeroDay | Hour24 | ZeroMinute | ZeroSecond | FracNine

definition format_chunk :: "civil \<Rightarrow> chunk \<Rightarrow> string" where
  "format_chunk c k =
     (case k of
        Lit ch \<Rightarrow> [ch]
      | LongYear \<Rightarrow> fix_digits 4 (cv_year c)
      | ZeroMonth \<Rightarrow> fix_digits 2 (cv_month c)
      | ZeroDay \<Rightarrow> fix_digits 2 (cv_day c)
      | Hour24 \<Rightarrow> fix_digits 2 (cv_hour c)
      | ZeroMinute \<Rightarrow> fix_digits 2 (cv_minute c)
      | ZeroSecond \<Rightarrow> fix_digits 2 (cv_second c)
      | FracNine \<Rightarrow> CHR ''.'' # fix_digits 9 (cv_nsec c))"

definition time_Format :: "chunk list \<Rightarrow> gotime \<Rightarrow> string" where
  "time_Format layout t = concat (map (format_chunk (civil_of t)) layout)"

text \<open>An hour may have one digit; a comma is accepted for the decimal point.\<close>

definition parse_hour :: "string \<Rightarrow> (nat \<times> string) option" where
  "parse_hour s =
     (case parse_digits 2 0 s of Some r \<Rightarrow> Some r | None \<Rightarrow> parse_digits 1 0 s)"

definition ranged :: "(nat \<Rightarrow> bool) \<Rightarrow> (nat \<Rightarrow> civil \<Rightarrow> civil) \<Rightarrow> civil \<Rightarrow> (nat \<times> string) option \<Rightarrow> (civil \<times> string) option" where
  "ranged P upd c r = (case r of None \<Rightarrow> None | Some (v, s) \<Rightarrow> if P v then Some (upd v c, s) else None)"

fun parse_chunk :: "chunk \<Rightarrow> civil \<Rightarrow> string \<Rightarrow> (civil \<times> string) option" where
  "parse_chunk (Lit ch) c s = (case s of [] \<Rightarrow> None | x # s' \<Rightarrow> if x = ch then Some (c, s') else None)"
| "parse_chunk LongYear c s = ranged (\<lambda>_. True) (\<lambda>v c. c\<lparr>cv_year := v\<rparr>) c (parse_digits 4 0 s)"
| "parse_chunk ZeroMonth c s = ranged (\<lambda>v. 1 \<le> v \<and> v \<le> 12) (\<lambda>v c. c\<lparr>cv_month := v\<rparr>) c (parse_digits 2 0 s)"
| "parse_chunk ZeroDay c s = ranged (\<lambda>_. True) (\<lambda>v c. c\<lparr>cv_day := v\<rparr>) c (parse_digits 2 0 s)"
| "parse_chunk Hour24 c s = ranged (\<lambda>v. v < 24) (\<lambda>v c. c\<lparr>cv_hour := v\<rparr>) c (parse_hour s)"
| "parse_chunk ZeroMinute c s = ranged (\<lambda>v. v < 60) (\<lambda>v c. c\<lparr>cv_minute := v\<rparr>) c (parse_digits 2 0 s)"
| "parse_chunk ZeroSecond c s = ranged (\<lambda>v. v < 60) (\<lambda>v c. c\<lparr>cv_second := v\<rparr>) c (parse_digits 2 0 s)"
| "parse_chunk FracNine c s =
     (case s of [] \<Rightarrow> None
      | x # s' \<Rightarrow> if x = CHR ''.'' \<or> x = CHR '',''
                  then ranged (\<lambda>_. True) (\<lambda>v c. c\<lparr>cv_nsec := v\<rparr>) c (parse_digits 9 0 s') else None)"

fun parse_chunks :: "chunk list \<Rightarrow> civil \<Rightarrow> string \<Rightarrow> civil option" where
  "parse_chunks [] c s = (if s = [] then Some c else None)"
| "parse_chunks (k # ks) c s =
     (case parse_chunk k c s of None \<Rightarrow> None | Some (c', s') \<Rightarrow> parse_chunks ks c' s')"

definition zero_civil :: civil where
  "zero_civil = \<lparr>cv_year = 0, cv_month = 1, cv_day = 1, cv_hour = 0, cv_minute = 0, cv_second = 0, cv_nsec = 0\<rparr>"

definition time_Parse :: "chunk list \<Rightarrow> string \<Rightarrow> gotime option" where
  "time_Parse layout s =
     (case parse_chunks layout zero_civil s of
        None \<Rightarrow> None
      | Some c \<Rightarrow> if 1 \<le> cv_day c \<and> cv_day c \<le> daysIn (cv_year c) (cv_month c) then Some (time_of c) else None)"

section \<open>Formatting reads back\<close>

lemma upt_Suc_front: "a < b \<Longrightarrow> [a..<b] = a # [a + 1..<b]"
  by (simp add: upt_conv_Cons)

lemma year_of_spec:
  "year_of y d = (y', r) \<Longrightarrow> y \<le> y' \<and> r < year_days y' \<and> sum_list (map year_days [y..<y']) + r = d"
proof (induction y d rule: year_of.induct)
  case (1 y d)
  show ?case
  proof (cases "d < year_days y")
    case True
    then show ?thesis using 1(2) by (subst (asm) year_of.simps) auto
  next
    case False
    then have "year_of (y + 1) (d - year_days y) = (y', r)" using 1(2) by (subst (asm) year_of.simps) simp
    from 1(1) [OF False this] False show ?thesis by (auto simp: upt_Suc_front [of y y'])
  qed
qed

lemma month_of_spec:
  assumes "month_of y [m..<e] d = (m', r)" and "d < sum_list (map (daysIn y) [m..<e])"
  shows "m \<le> m' \<and> m' < e \<and> r < daysIn y m' \<and> sum_list (map (daysIn y) [m..<m']) + r = d"
  using assms
proof (induction "e - m" arbitrary: m d)
  case (Suc k)
  then have front: "[m..<e] = m # [m + 1..<e]" by (simp add: upt_conv_Cons)
  show ?case
  proof (cases "d < daysIn y m")
    case True
    then show ?thesis using Suc.prems Suc.hyps(2) front by auto
  next
    case False
    have "month_of y [m + 1..<e] (d - daysIn y m) = (m', r)"
      "d - daysIn y m < sum_list (map (daysIn y) [m + 1..<e])" "k = e - (m + 1)"
      using Suc.prems False front Suc.hyps(2) by auto
    from Suc.hyps(1) [OF this(3,1,2)] False show ?thesis by (auto simp: upt_Suc_front [of m m'])
  qed
qed simp

lemma year_months: "sum_list (map (daysIn y) [1..<13]) = year_days y"
  by (simp add: daysIn_def year_days_def upt_conv_Cons)

lemma digit_of_digit_char: "d < 10 \<Longrightarrow> digit_of (digit_char d) = Some d"
  by (simp add: digit_of_def digit_char_def)

lemma parse_digits_append:
  "parse_digits (v + w) acc s =
     (case parse_digits v acc s of None \<Rightarrow> None | Some (a, r) \<Rightarrow> parse_digits w a r)"
  by (induction v acc s rule: parse_digits.induct) (auto split: option.splits)

lemma parse_fix_digits:
  "n < 10 ^ w \<Longrightarrow> parse_digits w acc (fix_digits w n @ s) = Some (acc * 10 ^ w + n, s)"
proof (induction w arbitrary: n acc s)
  case (Suc w)
  then have "n div 10 < 10 ^ w" by (simp add: div_less_iff_less_mult mult.commute)
  from Suc.IH [OF this] have "parse_digits w acc (fix_digits (Suc w) n @ s) =
      Some (acc * 10 ^ w + n div 10, digit_char (n mod 10) # s)" by simp
  then show ?case
    using parse_digits_append [of w 1 acc "fix_digits (Suc w) n @ s"]
    by (simp add: digit_of_digit_char algebra_simps)
qed simp

definition civil_ok :: "civil \<Rightarrow> bool" where
  "civil_ok c \<longleftrightarrow> 1 \<le> cv_year c \<and> cv_year c < 10000 \<and> 1 \<le> cv_month c \<and> cv_month c \<le> 12 \<and> 1 \<le> cv_day c \<and>
     cv_day c \<le> daysIn (cv_year c) (cv_month c) \<and> cv_hour c < 24 \<and> cv_minute c < 60 \<and> cv_second c < 60 \<and>
     cv_nsec c < 1000000000"

definition representable :: "gotime \<Rightarrow> bool" where
  "representable t \<longleftrightarrow> time_zero \<le> t \<and> cv_year (civil_of t) < 10000"

lemma civil_of_ok:
  assumes "representable t"
  shows "civil_ok (civil_of t)" and "time_of (civil_of t) = t"
proof -
  define ns where "ns = nat (t - time_zero)"
  define secs where "secs = ns div 1000000000"
  define rem where "rem = secs mod 86400"
  obtain y yd where y: "year_of 1 (secs div 86400) = (y, yd)" by fastforce
  obtain m d where m: "month_of y [1..<13] yd = (m, d)" by fastforce
  have ys: "1 \<le> y" "yd < year_days y" "days_before_year y + yd = secs div 86400"
    using year_of_spec [OF y] by (auto simp: days_before_year_def)
  have ms: "1 \<le> m" "m < 13" "d < daysIn y m" "days_before_month y m + d = yd"
    using month_of_spec [OF m] ys(2) year_months [of y] by (auto simp: days_before_month_def)
  have c: "civil_of t = \<lparr>cv_year = y, cv_month = m, cv_day = d + 1, cv_hour = rem div 3600, cv_minute = rem div 60 mod 60,
      cv_second = rem mod 60, cv_nsec = ns mod 1000000000\<rparr>"
    unfolding civil_of_def Let_def ns_def [symmetric] secs_def [symmetric] rem_def [symmetric] y m prod.case ..
  have "rem < 86400" by (simp add: rem_def)
  then show "civil_ok (civil_of t)"
    using assms ys(1) ms by (simp add: c civil_ok_def representable_def less_mult_imp_div_less)
  have r: "rem div 3600 * 3600 + rem div 60 mod 60 * 60 + rem mod 60 = rem"
  proof -
    define q where "q = rem div 60"
    have "rem div 3600 = q div 60" by (simp add: q_def div_mult2_eq [symmetric])
    moreover have "q div 60 * 60 + q mod 60 = q" "q * 60 + rem mod 60 = rem" by (simp_all add: q_def)
    ultimately show ?thesis unfolding q_def [symmetric] by linarith
  qed
  have days: "(year_start y + int (days_before_month y m) + int (d + 1) - 1) = int (secs div 86400)"
    using ys ms by (simp add: year_start_def)
  have "secs div 86400 * 86400 + rem = secs" by (simp add: rem_def)
  then have "int (secs div 86400) * 86400 + int rem = int secs" by linarith
  then have "time_of (civil_of t) = time_zero + int secs * 1000000000 + int (ns mod 1000000000)"
    unfolding time_of_def c civil.simps days r by simp
  also have "\<dots> = time_zero + int ns"
  proof -
    have "secs * 1000000000 + ns mod 1000000000 = ns" by (simp add: secs_def)
    then show ?thesis by linarith
  qed
  finally show "time_of (civil_of t) = t" using assms by (simp add: ns_def representable_def)
qed

definition copy_field :: "civil \<Rightarrow> chunk \<Rightarrow> civil \<Rightarrow> civil" where
  "copy_field f k c =
     (case k of
        Lit _ \<Rightarrow> c
      | LongYear \<Rightarrow> c\<lparr>cv_year := cv_year f\<rparr>
      | ZeroMonth \<Rightarrow> c\<lparr>cv_month := cv_month f\<rparr>
      | ZeroDay \<Rightarrow> c\<lparr>cv_day := cv_day f\<rparr>
      | Hour24 \<Rightarrow> c\<lparr>cv_hour := cv_hour f\<rparr>
      | ZeroMinute \<Rightarrow> c\<lparr>cv_minute := cv_minute f\<rparr>
      | ZeroSecond \<Rightarrow> c\<lparr>cv_second := cv_second f\<rparr>
      | FracNine \<Rightarrow> c\<lparr>cv_nsec := cv_nsec f\<rparr>)"

lemma daysIn_le: "daysIn y m \<le> 31"
  by (simp add: daysIn_def)

lemma parse_format_chunk:
  assumes "civil_ok f"
  shows "parse_chunk k c (format_chunk f k @ s) = Some (copy_field f k c, s)"
proof -
  have ranges: "cv_year f < 10 ^ 4" "cv_month f < 10 ^ 2" "cv_day f < 10 ^ 2" "cv_hour f < 10 ^ 2"
    "cv_minute f < 10 ^ 2" "cv_second f < 10 ^ 2" "cv_nsec f < 10 ^ 9"
    using assms daysIn_le [of "cv_year f" "cv_month f"] by (simp_all add: civil_ok_def)
  note parse = ranges [THEN parse_fix_digits [where acc = 0]]
  show ?thesis
    using assms by (cases k) (simp_all add: format_chunk_def copy_field_def ranged_def parse_hour_def civil_ok_def
        parse [simplified] del: fix_digits.simps parse_digits.simps)
qed

lemma parse_format_chunks:
  assumes "civil_ok f"
  shows "parse_chunks ks c (concat (map (format_chunk f) ks)) = Some (fold (copy_field f) ks c)"
  by (induction ks arbitrary: c) (simp_all add: parse_format_chunk [OF assms])

definition full_layout :: "chunk list \<Rightarrow> bool" where
  "full_layout ks \<longleftrightarrow> set [LongYear, ZeroMonth, ZeroDay, Hour24, ZeroMinute, ZeroSecond, FracNine] \<subseteq> set ks"

lemma copy_fields:
  "fold (copy_field f) ks c =
     \<lparr>cv_year = (if LongYear \<in> set ks then cv_year f else cv_year c),
      cv_month = (if ZeroMonth \<in> set ks then cv_month f else cv_month c),
      cv_day = (if ZeroDay \<in> set ks then cv_day f else cv_day c),
      cv_hour = (if Hour24 \<in> set ks then cv_hour f else cv_hour c),
      cv_minute = (if ZeroMinute \<in> set ks then cv_minute f else cv_minute c),
      cv_second = (if ZeroSecond \<in> set ks then cv_second f else cv_second c),
      cv_nsec = (if FracNine \<in> set ks then cv_nsec f else cv_nsec c)\<rparr>"
proof (induction ks arbitrary: c)
  case (Cons k ks)
  then show ?case by (cases k) (simp_all add: copy_field_def)
qed simp

lemma time_Parse_Format:
  assumes "representable t" and "full_layout layout"
  shows "time_Parse layout (time_Format layout t) = Some t"
proof -
  have ok: "civil_ok (civil_of t)" by (rule civil_of_ok(1) [OF assms(1)])
  have "parse_chunks layout zero_civil (time_Format layout t) = Some (civil_of t)"
    using parse_format_chunks [OF ok, of layout zero_civil] assms(2)
    by (simp add: time_Format_def copy_fields full_layout_def)
  then show ?thesis using ok civil_of_ok(2) [OF assms(1)] by (simp add: time_Parse_def civil_ok_def)
qed

lemma format_length:
  assumes "full_layout layout"
  shows "time_Format layout t \<noteq> []"
proof -
  have "FracNine \<in> set layout" using assms by (simp add: full_layout_def)
  then show ?thesis by (auto simp: time_Format_def format_chunk_def intro!: bexI [of _ FracNine])
qed

end
