(* ===== verification/Manifest.thy ===== *)
theory Manifest
  imports ObjectStore TimeFormat Releases NodeSet
begin

text \<open>
  The snapshot manifest of \<^verbatim>\<open>internal/snapshot/snapshot.go\<close> and the reader of
  \<^verbatim>\<open>internal/snapshot/rows.go\<close>: object keys, validation, the conditional write that commits a
  snapshot, and the integrity pipeline that loads one. The JSON codec, the Parquet decoder and
  \<^verbatim>\<open>url.Parse\<close> are arguments. Time values are instants; keys print them in UTC.
\<close>

section \<open>Data\<close>

record NetworkSnapshot =
  ns_GenerationKey :: string
  ns_NodeCount :: int
  ns_CurrentNodeCount :: int
  ns_SHA256 :: string
  ns_Bytes :: int

record RunMetadata =
  run_RunID :: string
  run_SourceRevision :: string
  run_SourceURL :: string
  run_ImageDigest :: string
  run_ConfigSHA256 :: string
  run_CrawlerStartedAt :: gotime
  run_MethodologyStartedAt :: gotime
  run_MethodologyVersion :: string
  run_MethodologyID :: string

record Manifest =
  mf_SchemaVersion :: int
  mf_GeneratedAt :: gotime
  mf_CrawlerID :: string
  mf_Run :: RunMetadata
  mf_Networks :: "(string, NetworkSnapshot) gomap"
  mf_LegacyPopulationHistory :: string

record manifest_codec =
  mc_encode :: "Manifest \<Rightarrow> byte list option"
  mc_decode :: "byte list \<Rightarrow> Manifest option"

datatype manifestError =
    ErrUnsupportedSchemaVersion | BadGeneratedAt | BadCrawlerID | BadRun string | BadNetworkCount
  | BadNetwork string | ErrNoManifest | ManifestTooLarge | BadManifestJSON | NotHeadSchema
  | NotHeadMethodology | EncodeFailed | StoreFailed storeError
  | ManifestMissing | ErrManifestCompetitor | CASLost

definition is_conflict :: "manifestError \<Rightarrow> bool" where
  "is_conflict e \<longleftrightarrow> e \<in> {ManifestMissing, ErrManifestCompetitor, CASLost}"

definition SchemaVersion :: int where
  "SchemaVersion = 4"

definition OldestReadableSchemaVersion :: int where
  "OldestReadableSchemaVersion = 1"

definition MethodologyVersion :: string where
  "MethodologyVersion = ''2026-08-v3''"

definition readableMethodologyVersions :: "string list" where
  "readableMethodologyVersions = [''2026-07-v1'', ''2026-07-v2'', MethodologyVersion]"

definition validateReadableMethodologyVersion :: "string \<Rightarrow> bool" where
  "validateReadableMethodologyVersion v \<longleftrightarrow> v \<in> set readableMethodologyVersions"

definition validateReadableSchemaVersion :: "int \<Rightarrow> bool" where
  "validateReadableSchemaVersion v \<longleftrightarrow> \<not> (v < OldestReadableSchemaVersion \<or> SchemaVersion < v)"

definition MaxManifestBytes :: nat where
  "MaxManifestBytes = 4194304"

definition maxCrawlerIDBytes :: nat where
  "maxCrawlerIDBytes = 256"

definition maxNetworks :: nat where
  "maxNetworks = 64"

section \<open>Keys\<close>

record Layout =
  ly_Prefix :: string

definition ly_prefix :: "Layout \<Rightarrow> string" where
  "ly_prefix l = (if ly_Prefix l = [] then ''snapshots'' else ly_Prefix l)"

definition ManifestKey :: "Layout \<Rightarrow> string" where
  "ManifestKey l = ly_prefix l @ ''/manifest.json''"

definition NetworkPrefix :: "Layout \<Rightarrow> string \<Rightarrow> string" where
  "NetworkPrefix l network = ly_prefix l @ ''/'' @ network @ ''/''"

text \<open>The layout \<^verbatim>\<open>2006-01-02T15:04:05.000000000Z\<close>.\<close>

definition genTimeFormat :: "chunk list" where
  "genTimeFormat = [LongYear, Lit (CHR ''-''), ZeroMonth, Lit (CHR ''-''), ZeroDay, Lit (CHR ''T''), Hour24,
     Lit (CHR '':''), ZeroMinute, Lit (CHR '':''), ZeroSecond, FracNine, Lit (CHR ''Z'')]"

definition GenerationKey :: "Layout \<Rightarrow> string \<Rightarrow> gotime \<Rightarrow> string" where
  "GenerationKey l network generatedAt = NetworkPrefix l network @ time_Format genTimeFormat generatedAt @ ''.parquet''"

definition strings_TrimSuffix :: "string \<Rightarrow> string \<Rightarrow> string" where
  "strings_TrimSuffix s suf = (if has_suffix s suf then take (length s - length suf) s else s)"

definition GenerationTime :: "Layout \<Rightarrow> string \<Rightarrow> string \<Rightarrow> gotime option" where
  "GenerationTime l network key =
     (let prfx = NetworkPrefix l network in
      if \<not> is_prefix prfx key \<or> \<not> has_suffix key ''.parquet'' then None
      else time_Parse genTimeFormat (strings_TrimSuffix (strings_TrimPrefix key prfx) ''.parquet''))"

definition IsGenerationKey :: "Layout \<Rightarrow> string \<Rightarrow> string \<Rightarrow> bool" where
  "IsGenerationKey l network key \<longleftrightarrow> GenerationTime l network key \<noteq> None"

definition component_char :: "char \<Rightarrow> bool" where
  "component_char c = (let n = of_char c :: nat in
     97 \<le> n \<and> n \<le> 122 \<or> 65 \<le> n \<and> n \<le> 90 \<or> 48 \<le> n \<and> n \<le> 57 \<or> c = CHR ''-'' \<or> c = CHR ''_'')"

definition ValidComponent :: "string \<Rightarrow> bool" where
  "ValidComponent s \<longleftrightarrow> \<not> (s = [] \<or> 64 < length s) \<and> list_all component_char s"

section \<open>Validation\<close>

definition validate_run :: "url_parser \<Rightarrow> gotime \<Rightarrow> RunMetadata \<Rightarrow> manifestError option" where
  "validate_run parse generatedAt r =
     (if run_RunID r = [] \<or> 128 < length (run_RunID r) then Some (BadRun ''run_id'')
      else if run_SourceRevision r = [] \<or> 256 < length (run_SourceRevision r) then Some (BadRun ''source_revision'')
      else if run_SourceURL r = [] \<or> 2048 < length (run_SourceURL r) then Some (BadRun ''source_url'')
      else if \<not> httpURL parse (run_SourceURL r) then Some (BadRun ''source_url scheme'')
      else if length (run_ConfigSHA256 r) \<noteq> 64 then Some (BadRun ''config_sha256'')
      else if hex_DecodeString (run_ConfigSHA256 r) = None then Some (BadRun ''config_sha256'')
      else if time_IsZero (run_CrawlerStartedAt r) then Some (BadRun ''crawler_started_at'')
      else if time_IsZero (run_MethodologyStartedAt r) then Some (BadRun ''methodology_started_at'')
      else if generatedAt < run_MethodologyStartedAt r then Some (BadRun ''methodology_started_at'')
      else if \<not> validateReadableMethodologyVersion (run_MethodologyVersion r) then Some (BadRun ''methodology_version'')
      else if \<not> ValidComponent (run_MethodologyID r) then Some (BadRun ''methodology_id'')
      else None)"

definition validate_network :: "Layout \<Rightarrow> gotime \<Rightarrow> string \<Rightarrow> NetworkSnapshot \<Rightarrow> manifestError option" where
  "validate_network l generatedAt network ns =
     (if \<not> ValidComponent network then Some (BadNetwork ''name'')
      else if ns_GenerationKey ns \<noteq> GenerationKey l network generatedAt then Some (BadNetwork ''generation_key'')
      else if ns_NodeCount ns < 0 then Some (BadNetwork ''node_count'')
      else if ns_CurrentNodeCount ns < 0 \<or> ns_NodeCount ns < ns_CurrentNodeCount ns then Some (BadNetwork ''current_node_count'')
      else if ns_Bytes ns \<le> 0 \<or> int MaxObjectBytes < ns_Bytes ns then Some (BadNetwork ''bytes'')
      else if length (ns_SHA256 ns) \<noteq> 64 then Some (BadNetwork ''sha256'')
      else if hex_DecodeString (ns_SHA256 ns) = None then Some (BadNetwork ''sha256'')
      else None)"

fun validate_networks :: "Layout \<Rightarrow> gotime \<Rightarrow> (string, NetworkSnapshot) gomap \<Rightarrow> manifestError option" where
  "validate_networks l generatedAt [] = None"
| "validate_networks l generatedAt ((network, ns) # m) =
     (case validate_network l generatedAt network ns of
        Some e \<Rightarrow> Some e
      | None \<Rightarrow> validate_networks l generatedAt m)"

definition Manifest_Validate :: "url_parser \<Rightarrow> Layout \<Rightarrow> Manifest \<Rightarrow> manifestError option" where
  "Manifest_Validate parse l m =
     (if \<not> validateReadableSchemaVersion (mf_SchemaVersion m) then Some ErrUnsupportedSchemaVersion
      else if time_IsZero (mf_GeneratedAt m) then Some BadGeneratedAt
      else if mf_CrawlerID m = [] \<or> maxCrawlerIDBytes < length (mf_CrawlerID m) then Some BadCrawlerID
      else case validate_run parse (mf_GeneratedAt m) (mf_Run m) of
        Some e \<Rightarrow> Some e
      | None \<Rightarrow>
          if length (mf_Networks m) = 0 \<or> maxNetworks < length (mf_Networks m) then Some BadNetworkCount
          else validate_networks l (mf_GeneratedAt m) (mf_Networks m))"

section \<open>Reading\<close>

record snapshot_env =
  se_codec :: manifest_codec
  se_url :: url_parser
  se_layout :: Layout
  se_parquet :: "Row list \<Rightarrow> byte list option"
  se_rows :: "byte list \<Rightarrow> Row list option"

definition decodeManifest :: "snapshot_env \<Rightarrow> byte list \<Rightarrow> manifestError + Manifest" where
  "decodeManifest env data =
     (if MaxManifestBytes < length data then Inl ManifestTooLarge
      else case mc_decode (se_codec env) data of
        None \<Rightarrow> Inl BadManifestJSON
      | Some m \<Rightarrow>
          (case Manifest_Validate (se_url env) (se_layout env) m of Some e \<Rightarrow> Inl e | None \<Rightarrow> Inr m))"

definition snapshot_Read :: "snapshot_env \<Rightarrow> world \<Rightarrow> (manifestError + Manifest) \<times> world" where
  "snapshot_Read env w =
     (case store_Get (ManifestKey (se_layout env)) w of
        (Inl ErrNotFound, w) \<Rightarrow> (Inl ErrNoManifest, w)
      | (Inl e, w) \<Rightarrow> (Inl (StoreFailed e), w)
      | (Inr data, w) \<Rightarrow> (decodeManifest env data, w))"

datatype loadError =
    NotInManifest | GetFailed storeError | NotAGeneration | SizeMismatch | HashMismatch | BadParquet
  | RowCountMismatch | ForeignRow | EmptyNodeID | DuplicateNodeID

definition VerifyGeneration :: "Layout \<Rightarrow> string \<Rightarrow> NetworkSnapshot \<Rightarrow> byte list \<Rightarrow> loadError option" where
  "VerifyGeneration l network ns data =
     (if \<not> IsGenerationKey l network (ns_GenerationKey ns) then Some NotAGeneration
      else if int (length data) \<noteq> ns_Bytes ns then Some SizeMismatch
      else if hex_EncodeToString (sha256_Sum256 data) \<noteq> ns_SHA256 ns then Some HashMismatch
      else None)"

fun validate_row_loop :: "string \<Rightarrow> string list \<Rightarrow> Row list \<Rightarrow> loadError option" where
  "validate_row_loop network seen [] = None"
| "validate_row_loop network seen (r # rs) =
     (if r_Network r \<noteq> network then Some ForeignRow
      else if r_ID r = [] then Some EmptyNodeID
      else if r_ID r \<in> set seen then Some DuplicateNodeID
      else validate_row_loop network (r_ID r # seen) rs)"

definition ValidateRows :: "string \<Rightarrow> int \<Rightarrow> Row list \<Rightarrow> loadError option" where
  "ValidateRows network expected rs =
     (if int (length rs) \<noteq> expected then Some RowCountMismatch else validate_row_loop network [] rs)"

definition LoadNetworkRows :: "snapshot_env \<Rightarrow> Manifest \<Rightarrow> string \<Rightarrow> world \<Rightarrow> (loadError + Row list) \<times> world" where
  "LoadNetworkRows env m network w =
     (case map_of (mf_Networks m) network of
        None \<Rightarrow> (Inl NotInManifest, w)
      | Some ns \<Rightarrow>
          (case store_Get (ns_GenerationKey ns) w of
             (Inl e, w) \<Rightarrow> (Inl (GetFailed e), w)
           | (Inr data, w) \<Rightarrow>
               (case VerifyGeneration (se_layout env) network ns data of
                  Some e \<Rightarrow> (Inl e, w)
                | None \<Rightarrow>
                    (case se_rows env data of
                       None \<Rightarrow> (Inl BadParquet, w)
                     | Some rs \<Rightarrow>
                         (case ValidateRows network (ns_NodeCount ns) rs of
                            Some e \<Rightarrow> (Inl e, w)
                          | None \<Rightarrow> (Inr rs, w))))))"

section \<open>Writing\<close>

definition validateWritable :: "snapshot_env \<Rightarrow> Manifest \<Rightarrow> manifestError option" where
  "validateWritable env m =
     (if mf_SchemaVersion m \<noteq> SchemaVersion then Some NotHeadSchema
      else if run_MethodologyVersion (mf_Run m) \<noteq> MethodologyVersion then Some NotHeadMethodology
      else Manifest_Validate (se_url env) (se_layout env) m)"

definition snapshot_Write :: "snapshot_env \<Rightarrow> Manifest \<Rightarrow> world \<Rightarrow> manifestError option \<times> world" where
  "snapshot_Write env m w =
     (case validateWritable env m of
        Some e \<Rightarrow> (Some e, w)
      | None \<Rightarrow>
          (case mc_encode (se_codec env) m of
             None \<Rightarrow> (Some EncodeFailed, w)
           | Some data \<Rightarrow> apfst (map_option StoreFailed) (store_Put (ManifestKey (se_layout env)) data w)))"

text \<open>A stored manifest of the caller's own run is an earlier write whose success it never saw.\<close>

definition own_write :: "Manifest \<Rightarrow> Manifest \<Rightarrow> bool" where
  "own_write current nxt \<longleftrightarrow>
     run_RunID (mf_Run current) = run_RunID (mf_Run nxt) \<and> mf_GeneratedAt current < mf_GeneratedAt nxt"

definition same_generation :: "Manifest \<Rightarrow> Manifest \<Rightarrow> bool" where
  "same_generation a b \<longleftrightarrow> mf_CrawlerID a = mf_CrawlerID b \<and> mf_GeneratedAt a = mf_GeneratedAt b"

definition expected_version ::
    "snapshot_env \<Rightarrow> Manifest option \<Rightarrow> Manifest \<Rightarrow> storeError + byte list \<times> string \<Rightarrow> manifestError + string" where
  "expected_version env previous nxt got =
     (case got of
        Inl ErrNotFound \<Rightarrow> if previous \<noteq> None then Inl ManifestMissing else Inr []
      | Inl e \<Rightarrow> Inl (StoreFailed e)
      | Inr (data, version) \<Rightarrow>
          (case decodeManifest env data of
             Inl e \<Rightarrow> Inl e
           | Inr current \<Rightarrow>
               if \<not> own_write current nxt \<and>
                  (case previous of None \<Rightarrow> True | Some prev \<Rightarrow> \<not> same_generation current prev)
               then Inl ErrManifestCompetitor else Inr version))"

definition WriteConditional ::
    "snapshot_env \<Rightarrow> Manifest option \<Rightarrow> Manifest \<Rightarrow> world \<Rightarrow> manifestError option \<times> world" where
  "WriteConditional env previous nxt w =
     (case validateWritable env nxt of
        Some e \<Rightarrow> (Some e, w)
      | None \<Rightarrow>
          (case GetVersion (ManifestKey (se_layout env)) w of
             (got, w) \<Rightarrow>
               (case expected_version env previous nxt got of
                  Inl e \<Rightarrow> (Some e, w)
                | Inr expected \<Rightarrow>
                    (case mc_encode (se_codec env) nxt of
                       None \<Rightarrow> (Some EncodeFailed, w)
                     | Some encoded \<Rightarrow>
                         (case PutIfVersion (ManifestKey (se_layout env)) expected encoded w of
                            (Inl ErrCASConflict, w) \<Rightarrow> (Some CASLost, w)
                          | (Inl e, w) \<Rightarrow> (Some (StoreFailed e), w)
                          | (Inr _, w) \<Rightarrow> (None, w))))))"

end
