(* ===== verification/History.thy ===== *)
theory History
  imports Manifest Distinct
begin

text \<open>
  The side outputs of a publish: the readiness history of a tracked fork
  (\<^verbatim>\<open>internal/snapshot/readiness.go\<close> and \<^verbatim>\<open>cmd/crawler/readiness.go\<close>) and the longitudinal
  measurement point (\<^verbatim>\<open>cmd/crawler/measurement.go\<close>). Instants of a point are kept as instants; their
  RFC 3339 text and the relative error of an estimate, a constant of the sketch, belong to the JSON
  encoder, which is an argument.
\<close>

section \<open>Readiness points\<close>

definition readiness_string :: "Readiness \<Rightarrow> string" where
  "readiness_string r =
     (case r of Ready \<Rightarrow> ''ready'' | Pending \<Rightarrow> ''pending'' | NotReady \<Rightarrow> ''not_ready'' | Mismatch \<Rightarrow> ''mismatch''
      | Unknown \<Rightarrow> ''unknown'' | Stale \<Rightarrow> ''stale'')"

type_synonym counts = "(string, nat) gomap"

record ReadinessPoint =
  rp_At :: int
  rp_EL :: "counts option"
  rp_CL :: "counts option"
  rp_ELClients :: "(string, counts) gomap"
  rp_CLClients :: "(string, counts) gomap"
  rp_LegacyClientsEL :: "string option"
  rp_LegacyClientsCL :: "string option"

record ReadinessHistory =
  rh_Version :: int
  rh_Network :: string
  rh_Fork :: string
  rh_ELTime :: u64
  rh_CLEpoch :: u64
  rh_Points :: "ReadinessPoint list"

definition ReadinessHistoryVersion :: int where
  "ReadinessHistoryVersion = 1"

definition ReadinessInterval :: duration where
  "ReadinessInterval = 15 * minute"

definition ReadinessRetention :: duration where
  "ReadinessRetention = 30 * 24 * hour"

definition ReadinessDenseWindow :: duration where
  "ReadinessDenseWindow = 3 * hour"

definition ReadinessDenseInterval :: duration where
  "ReadinessDenseInterval = minute"

definition maxReadinessBytes :: nat where
  "maxReadinessBytes = 8388608"

text \<open>\<^verbatim>\<open>^[a-z0-9][a-z0-9_-]*$\<close>\<close>

definition lower_alnum :: "char \<Rightarrow> bool" where
  "lower_alnum c = (let n = of_char c :: nat in 97 \<le> n \<and> n \<le> 122 \<or> 48 \<le> n \<and> n \<le> 57)"

definition keySegment :: "string \<Rightarrow> bool" where
  "keySegment s =
     (case s of
        [] \<Rightarrow> False
      | c # cs \<Rightarrow> lower_alnum c \<and> list_all (\<lambda>x. lower_alnum x \<or> x = CHR ''_'' \<or> x = CHR ''-'') cs)"

definition ReadinessHistoryKey :: "Layout \<Rightarrow> string \<Rightarrow> string \<Rightarrow> string option" where
  "ReadinessHistoryKey l network fork0 =
     (let fork = strings_ToLower fork0 in
      if \<not> keySegment network \<or> \<not> keySegment fork then None
      else Some (strings_TrimSuffix (ly_prefix l) ''/'' @ ''/state/readiness/'' @ network @ ''/'' @ fork @ ''.json''))"

record history_codec =
  hc_encode :: "ReadinessHistory \<Rightarrow> byte list option"
  hc_decode :: "byte list \<Rightarrow> ReadinessHistory option"

definition DecodeReadinessHistory :: "history_codec \<Rightarrow> byte list \<Rightarrow> ReadinessHistory option" where
  "DecodeReadinessHistory hc data =
     (if maxReadinessBytes < length data then None
      else case hc_decode hc data of
        None \<Rightarrow> None
      | Some h \<Rightarrow>
          if rh_Version h \<noteq> ReadinessHistoryVersion then None
          else Some (h\<lparr>rh_Points := map (\<lambda>p. p\<lparr>rp_LegacyClientsEL := None, rp_LegacyClientsCL := None\<rparr>) (rh_Points h)\<rparr>))"

definition ReadinessIntervalAt :: "gotime \<Rightarrow> gotime \<Rightarrow> duration" where
  "ReadinessIntervalAt at activation =
     (if \<not> time_IsZero activation \<and> \<bar>time_Sub at activation\<bar> \<le> ReadinessDenseWindow
      then ReadinessDenseInterval else ReadinessInterval)"

definition seconds_of :: "duration \<Rightarrow> int" where
  "seconds_of d = d div second"

definition History_Append :: "ReadinessPoint \<Rightarrow> duration \<Rightarrow> ReadinessHistory \<Rightarrow> bool \<times> ReadinessHistory" where
  "History_Append p interval h =
     (if rh_Points h \<noteq> [] \<and> rp_At p - rp_At (last (rh_Points h)) < seconds_of interval then (False, h)
      else let cutoff = rp_At p - seconds_of ReadinessRetention
           in (True, h\<lparr>rh_Points := dropWhile (\<lambda>q. rp_At q < cutoff) (rh_Points h @ [p])\<rparr>))"

definition History_Encode :: "history_codec \<Rightarrow> ReadinessHistory \<Rightarrow> byte list option" where
  "History_Encode hc h =
     (case hc_encode hc h of
        None \<Rightarrow> None
      | Some data \<Rightarrow> if maxReadinessBytes < length data then None else Some data)"

definition clientname_Self :: string where
  "clientname_Self = ''enrscout''"

definition cancelledLayer :: "ForkTarget \<Rightarrow> string \<Rightarrow> bool" where
  "cancelledLayer t layer =
     (if layer = ''el'' then (case ft_EL t of None \<Rightarrow> False | Some e \<Rightarrow> elt_Phase e = PhaseCancelled)
      else if layer = ''cl'' then (case ft_CL t of None \<Rightarrow> False | Some c \<Rightarrow> clt_Phase c = PhaseCancelled)
      else False)"

text \<open>A point counts as ready the rows that schedule the fork, also when it is cancelled.\<close>

definition series_readiness :: "ForkTarget \<Rightarrow> string \<Rightarrow> Readiness \<Rightarrow> Readiness" where
  "series_readiness t layer r =
     (if cancelledLayer t layer then (case r of Ready \<Rightarrow> NotReady | NotReady \<Rightarrow> Ready | _ \<Rightarrow> r) else r)"

definition row_evidence :: "Row \<Rightarrow> ReadinessEvidence" where
  "row_evidence r = \<lparr>ev_Layer = r_Layer r, ev_ForkHash = r_ForkHash r, ev_ForkNext = r_ForkNext r,
     ev_ENRForkDigest = r_ENRForkDigest r, ev_ENRNextForkVersion = r_ENRNextForkVersion r,
     ev_ENRNextForkEpoch = r_ENRNextForkEpoch r\<rparr>"

definition incr :: "string \<Rightarrow> counts \<Rightarrow> counts" where
  "incr k m = AList.update k (case map_of m k of None \<Rightarrow> 1 | Some n \<Rightarrow> Suc n) m"

definition incr_client :: "string \<Rightarrow> string \<Rightarrow> (string, counts) gomap \<Rightarrow> (string, counts) gomap" where
  "incr_client client k m = AList.update client (incr k (case map_of m client of None \<Rightarrow> [] | Some c \<Rightarrow> c)) m"

definition charted_row :: "gotime \<Rightarrow> Readiness \<Rightarrow> Row \<Rightarrow> bool" where
  "charted_row at readiness r \<longleftrightarrow>
     \<not> (readiness = Stale \<or> \<not> Charted (r_FPStatus r) (r_FPAt r) at \<or> \<not> Recognized (r_Layer r) (r_Client r))"

definition count_row :: "registry \<Rightarrow> ForkTarget \<Rightarrow> string \<Rightarrow> gotime \<Rightarrow> Row \<Rightarrow> ReadinessPoint \<Rightarrow> ReadinessPoint" where
  "count_row reg t network at r p =
     (if strings_EqualFold (r_Client r) clientname_Self then p
      else case ReadinessAt reg t network (row_evidence r) at of
        None \<Rightarrow> p
      | Some raw \<Rightarrow>
          let readiness = series_readiness t (r_Layer r) raw; k = readiness_string readiness
          in if r_Layer r = ''el''
             then p\<lparr>rp_EL := map_option (incr k) (rp_EL p),
                    rp_ELClients := if charted_row at readiness r then incr_client (r_Client r) k (rp_ELClients p) else rp_ELClients p\<rparr>
             else p\<lparr>rp_CL := map_option (incr k) (rp_CL p),
                    rp_CLClients := if charted_row at readiness r then incr_client (r_Client r) k (rp_CLClients p) else rp_CLClients p\<rparr>)"

definition readinessPointAt :: "registry \<Rightarrow> ForkTarget \<Rightarrow> string \<Rightarrow> Row list \<Rightarrow> gotime \<Rightarrow> ReadinessPoint" where
  "readinessPointAt reg t network rs at =
     fold (count_row reg t network at) rs
       \<lparr>rp_At = time_Unix at, rp_EL = map_option (\<lambda>_. []) (ft_EL t), rp_CL = map_option (\<lambda>_. []) (ft_CL t),
        rp_ELClients = [], rp_CLClients = [], rp_LegacyClientsEL = None, rp_LegacyClientsCL = None\<rparr>"

section \<open>Recording the history\<close>

definition base_history :: "string \<Rightarrow> ForkTarget \<Rightarrow> ReadinessHistory" where
  "base_history network t = \<lparr>rh_Version = ReadinessHistoryVersion, rh_Network = network, rh_Fork = ft_Name t,
     rh_ELTime = 0, rh_CLEpoch = 0, rh_Points = []\<rparr>"

definition reschedule :: "ForkTarget \<Rightarrow> ReadinessHistory \<Rightarrow> ReadinessHistory" where
  "reschedule t h =
     (if (rh_ELTime h, rh_CLEpoch h) \<noteq> Schedule_of t
      then h\<lparr>rh_ELTime := fst (Schedule_of t), rh_CLEpoch := snd (Schedule_of t), rh_Points := []\<rparr> else h)"

definition append_point ::
    "history_codec \<Rightarrow> string \<Rightarrow> ReadinessPoint \<Rightarrow> duration \<Rightarrow> gotime \<Rightarrow> ReadinessHistory \<Rightarrow> world \<Rightarrow> gotime \<times> world" where
  "append_point hc key p interval now h w =
     (case History_Append p interval h of
        (False, h) \<Rightarrow>
          (let lst = unix_time (rp_At (last (rh_Points h))) in
           (if \<not> now < lst \<and> lst < now then lst else now, w))
      | (True, h) \<Rightarrow>
          (case History_Encode hc h of
             None \<Rightarrow> (now, w)
           | Some data \<Rightarrow> (now, snd (store_Put key data w))))"

text \<open>One network: the result is the instant remembered for it, if it changes, and the store.\<close>

definition record_network ::
    "registry \<Rightarrow> Layout \<Rightarrow> history_codec \<Rightarrow> Row list \<Rightarrow> gotime \<Rightarrow> gotime option \<Rightarrow> string \<Rightarrow> world \<Rightarrow> gotime option \<times> world" where
  "record_network reg l hc rs now lst network w =
     (case ForkTargetAt reg network now of
        Inl _ \<Rightarrow> (None, w)
      | Inr t \<Rightarrow>
          if Phase_of t = PhaseNone then (None, w)
          else let interval = ReadinessIntervalAt now (Activation t) in
          if (case lst of None \<Rightarrow> False | Some u \<Rightarrow> time_Sub now u < interval) then (None, w)
          else case ReadinessHistoryKey l network (ft_Name t) of
            None \<Rightarrow> (Some now, w)
          | Some key \<Rightarrow>
              (case store_Get key w of
                 (Inl ErrNotFound, w) \<Rightarrow>
                   apfst Some (append_point hc key (readinessPointAt reg t network rs now) interval now
                     (reschedule t (base_history network t)) w)
               | (Inl e, w) \<Rightarrow> (Some now, w)
               | (Inr data, w) \<Rightarrow>
                   (case DecodeReadinessHistory hc data of
                      None \<Rightarrow> (Some now, w)
                    | Some stored \<Rightarrow>
                        apfst Some (append_point hc key (readinessPointAt reg t network rs now) interval now
                          (reschedule t stored) w))))"

definition recordReadiness ::
    "registry \<Rightarrow> Layout \<Rightarrow> history_codec \<Rightarrow> string list \<Rightarrow> (string, Row list) gomap \<Rightarrow> gotime \<Rightarrow>
      (string, gotime) gomap \<times> world \<Rightarrow> (string, gotime) gomap \<times> world" where
  "recordReadiness reg l hc networks byNet now s =
     fold (\<lambda>network (at, w).
       case record_network reg l hc (case map_of byNet network of None \<Rightarrow> [] | Some rs \<Rightarrow> rs) now (map_of at network) network w of
         (None, w) \<Rightarrow> (at, w)
       | (Some t, w) \<Rightarrow> (AList.update network t at, w)) networks s"

section \<open>Measurement points\<close>

record measurementNetwork =
  mn_Current :: nat
  mn_ExecutionCurrent :: nat
  mn_ConsensusCurrent :: nat
  mn_ExecutionStale :: nat
  mn_ConsensusStale :: nat
  mn_MembershipVerified :: nat
  mn_MembershipClaimed :: nat
  mn_FingerprintIdentified :: nat
  mn_FingerprintDirection :: counts

record measurementDistinct =
  md_Walker :: string
  md_Protocol :: string
  md_Family :: string
  md_Estimate :: u64
  md_Sightings :: u64
  md_WindowStart :: gotime
  md_WindowEnd :: gotime

record measurementPoint =
  mp_GeneratedAt :: gotime
  mp_ForkEvaluatedAt :: gotime
  mp_SchemaVersion :: int
  mp_Methodology :: string
  mp_Run :: RunMetadata
  mp_Networks :: "(string, measurementNetwork) gomap"
  mp_RollingDistinct :: "measurementDistinct list"

definition zero_measurement :: measurementNetwork where
  "zero_measurement = \<lparr>mn_Current = 0, mn_ExecutionCurrent = 0, mn_ConsensusCurrent = 0, mn_ExecutionStale = 0,
     mn_ConsensusStale = 0, mn_MembershipVerified = 0, mn_MembershipClaimed = 0, mn_FingerprintIdentified = 0,
     mn_FingerprintDirection = [(''inbound'', 0), (''outbound'', 0)]\<rparr>"

definition measure_layer :: "bool \<Rightarrow> Row \<Rightarrow> measurementNetwork \<Rightarrow> measurementNetwork" where
  "measure_layer compatible r a =
     (if r_Layer r = ''el''
      then if compatible then a\<lparr>mn_ExecutionCurrent := Suc (mn_ExecutionCurrent a)\<rparr>
           else a\<lparr>mn_ExecutionStale := Suc (mn_ExecutionStale a)\<rparr>
      else if r_Layer r = ''cl''
      then if compatible then a\<lparr>mn_ConsensusCurrent := Suc (mn_ConsensusCurrent a)\<rparr>
           else a\<lparr>mn_ConsensusStale := Suc (mn_ConsensusStale a)\<rparr>
      else a)"

definition measure_membership :: "Row \<Rightarrow> measurementNetwork \<Rightarrow> measurementNetwork" where
  "measure_membership r a =
     (if r_MembershipSource r = ''status'' then a\<lparr>mn_MembershipVerified := Suc (mn_MembershipVerified a)\<rparr>
      else a\<lparr>mn_MembershipClaimed := Suc (mn_MembershipClaimed a)\<rparr>)"

definition measure_fingerprint :: "int \<Rightarrow> Row \<Rightarrow> measurementNetwork \<Rightarrow> measurementNetwork" where
  "measure_fingerprint freshAfter r a =
     (if (r_FPStatus r = ''ok'' \<or> r_FPStatus r = ''stale'') \<and> freshAfter \<le> r_FPAt r
      then a\<lparr>mn_FingerprintIdentified := Suc (mn_FingerprintIdentified a),
             mn_FingerprintDirection :=
               if r_FPDirection r = ''inbound'' \<or> r_FPDirection r = ''outbound''
               then incr (r_FPDirection r) (mn_FingerprintDirection a) else mn_FingerprintDirection a\<rparr>
      else a)"

definition measure_row :: "registry \<Rightarrow> string \<Rightarrow> gotime \<Rightarrow> Row \<Rightarrow> measurementNetwork \<Rightarrow> measurementNetwork" where
  "measure_row reg network at r a =
     (let compatible = RowForkCurrentAt reg (r_Layer r) network (r_ForkHash r) (r_ForkNext r) at;
          a1 = measure_layer compatible r a
      in if compatible
         then measure_fingerprint (time_Unix (time_Add at (- (7 * 24 * hour)))) r
                (measure_membership r (a1\<lparr>mn_Current := Suc (mn_Current a1)\<rparr>))
         else a1)"

definition measure_network :: "registry \<Rightarrow> gotime \<Rightarrow> string \<Rightarrow> Row list \<Rightarrow> measurementNetwork" where
  "measure_network reg at network rs = fold (measure_row reg network at) rs zero_measurement"

text \<open>\<^verbatim>\<open>strings.Cut\<close> at the first slash.\<close>

fun cut_slash :: "string \<Rightarrow> (string \<times> string) option" where
  "cut_slash [] = None"
| "cut_slash (c # s) = (if c = CHR ''/'' then Some ([], s) else map_option (apfst (\<lambda>p. c # p)) (cut_slash s))"

definition parseDistinctKey :: "string \<Rightarrow> (string \<times> string \<times> string) option" where
  "parseDistinctKey key =
     (if is_prefix ''walker/'' key
      then (case split_on (CHR ''/'') (drop 7 key) of [a, b, c] \<Rightarrow> Some (a, b, c) | _ \<Rightarrow> None)
      else map_option (\<lambda>(p, f). ([], p, f)) (cut_slash key))"

definition measure_distinct :: "Estimate \<Rightarrow> measurementDistinct list" where
  "measure_distinct e =
     (case parseDistinctKey (es_Key e) of
        None \<Rightarrow> []
      | Some (walker, protocol, family) \<Rightarrow>
          [\<lparr>md_Walker = walker, md_Protocol = protocol, md_Family = family, md_Estimate = es_Distinct e,
            md_Sightings = es_Sightings e, md_WindowStart = es_WindowStart e, md_WindowEnd = es_WindowEnd e\<rparr>])"

definition measurementPointAt ::
    "registry \<Rightarrow> gotime \<Rightarrow> RunMetadata \<Rightarrow> (string, Row list) gomap \<Rightarrow> Estimate list \<Rightarrow> measurementPoint" where
  "measurementPointAt reg at run byNetwork estimates =
     \<lparr>mp_GeneratedAt = at, mp_ForkEvaluatedAt = at, mp_SchemaVersion = SchemaVersion, mp_Methodology = MethodologyVersion,
      mp_Run = run, mp_Networks = map (\<lambda>(network, rs). (network, measure_network reg at network rs)) byNetwork,
      mp_RollingDistinct = concat (map measure_distinct estimates)\<rparr>"

definition currentForkCount :: "registry \<Rightarrow> string \<Rightarrow> Row list \<Rightarrow> gotime \<Rightarrow> nat" where
  "currentForkCount reg network rs at =
     fold (\<lambda>r n. if RowForkCurrentAt reg (r_Layer r) network (r_ForkHash r) (r_ForkNext r) at then Suc n else n) rs 0"

end
