(* ===== verification/Publisher.thy ===== *)
theory Publisher
  imports History
begin

text \<open>
  The publisher of the crawler, \<^verbatim>\<open>cmd/crawler/publisher.go\<close>: one call of \<^verbatim>\<open>Publish\<close> prunes the
  tracked set, builds and guards the next manifest, uploads the generations, commits the manifest by a
  conditional write, settles an ambiguous response, and records and prunes the side outputs. Logging
  and Prometheus metrics are left out. The clock readings of a call, the codecs and the network
  registry are arguments; what other processes and failures do to the store is the script of the
  world.
\<close>

section \<open>Data\<close>

record publishConfig =
  cf_nodeMaxIdle :: duration
  cf_verifiedMaxIdle :: duration
  cf_maxCollapsePct :: int
  cf_minCurrentNodes :: int
  cf_keepGenerations :: int
  cf_keepAggregates :: duration
  cf_forcePublish :: bool

record publisher =
  p_cfg :: publishConfig
  p_set :: nset
  p_distinct :: DState
  p_run :: RunMetadata
  p_crawlerID :: string
  p_networks :: "string list"
  p_statePrefix :: string
  p_distinctKey :: string
  p_prev :: "Manifest option"
  p_quarantines :: nat
  p_forceUsed :: bool
  p_forcePending :: bool
  p_final :: bool
  p_distinctSavedAt :: gotime
  p_aggregatesPrunedAt :: gotime
  p_readinessAt :: "(string, gotime) gomap"

record generation =
  g_network :: string
  g_key :: string
  g_sum :: string
  g_data :: "byte list"
  g_count :: int
  g_current :: int

record pub_env =
  pe_snap :: snapshot_env
  pe_reg :: registry
  pe_history :: history_codec
  pe_distinct :: "DState \<Rightarrow> byte list"
  pe_gzip :: "byte list \<Rightarrow> byte list"
  pe_estimate :: "byte list \<Rightarrow> u64"
  pe_point :: "measurementPoint \<Rightarrow> byte list option"

text \<open>The readings of one call, in order: the generation instant, and for the distinct state and the
  aggregates the reading \<^verbatim>\<open>time.Since\<close> takes and the one that is remembered.\<close>

record publish_clock =
  ck_now :: gotime
  ck_distinctSince :: gotime
  ck_distinctSaved :: gotime
  ck_aggregatesSince :: gotime
  ck_aggregatesPruned :: gotime

abbreviation pe_layout :: "pub_env \<Rightarrow> Layout" where
  "pe_layout env \<equiv> se_layout (pe_snap env)"

definition rows_of :: "(string, Row list) gomap \<Rightarrow> string \<Rightarrow> Row list" where
  "rows_of byNet network = (case map_of byNet network of None \<Rightarrow> [] | Some rs \<Rightarrow> rs)"

section \<open>Before the commit\<close>

definition generationTime :: "gotime \<Rightarrow> publisher \<Rightarrow> gotime" where
  "generationTime now p =
     (case p_prev p of
        Some prev \<Rightarrow> if \<not> mf_GeneratedAt prev < now then time_Add (mf_GeneratedAt prev) 1 else now
      | None \<Rightarrow> now)"

text \<open>The branch for an error of \<^verbatim>\<open>Marshal\<close>, which leaves everything as it is, is left out: \<^verbatim>\<open>Marshal\<close> is
  total on the states of the counter.\<close>

definition persistDistinct :: "pub_env \<Rightarrow> publish_clock \<Rightarrow> publisher \<Rightarrow> world \<Rightarrow> publisher \<times> world" where
  "persistDistinct env ck p w =
     (if \<not> p_final p \<and> \<not> time_IsZero (p_distinctSavedAt p) \<and>
         time_Sub (ck_distinctSince ck) (p_distinctSavedAt p) < hour then (p, w)
      else case store_Put (p_distinctKey p) (Marshal (pe_gzip env) (pe_distinct env) (p_distinct p)) w of
        (Some _, w) \<Rightarrow> (p, w)
      | (None, w) \<Rightarrow> (p\<lparr>p_distinctSavedAt := ck_distinctSaved ck\<rparr>, w))"

definition pruneStale :: "gotime \<Rightarrow> publisher \<Rightarrow> publisher" where
  "pruneStale now p =
     (let cfg = p_cfg p in
      if cf_nodeMaxIdle cfg \<le> 0 \<and> cf_verifiedMaxIdle cfg \<le> 0 then p
      else let cutoff = (if 0 < cf_nodeMaxIdle cfg then time_Add now (- cf_nodeMaxIdle cfg) else time_zero);
               verifiedCutoff = (if 0 < cf_verifiedMaxIdle cfg then time_Add now (- cf_verifiedMaxIdle cfg) else time_zero)
           in p\<lparr>p_set := snd (PruneStaleWithVerified cutoff verifiedCutoff (p_set p))\<rparr>)"

definition build :: "pub_env \<Rightarrow> gotime \<Rightarrow> publisher \<Rightarrow> Manifest \<times> (string, Row list) gomap" where
  "build env now p =
     (let byNet = SnapshotNetworks (p_networks p) (p_set p) in
      (\<lparr>mf_SchemaVersion = SchemaVersion, mf_GeneratedAt = now, mf_CrawlerID = p_crawlerID p, mf_Run = p_run p,
        mf_Networks = fold (\<lambda>network. AList.update network
          \<lparr>ns_GenerationKey = GenerationKey (pe_layout env) network now,
           ns_NodeCount = int (length (rows_of byNet network)),
           ns_CurrentNodeCount = int (currentForkCount (pe_reg env) network (rows_of byNet network) now),
           ns_SHA256 = [], ns_Bytes = 0\<rparr>) (p_networks p) [],
        mf_LegacyPopulationHistory = []\<rparr>, byNet))"

section \<open>The publish guards\<close>

text \<open>The products are 64-bit and wrap.\<close>

definition int64_of :: "int \<Rightarrow> int" where
  "int64_of v = signed_take_bit 63 v"

definition shrank :: "int \<Rightarrow> int \<Rightarrow> int \<Rightarrow> bool" where
  "shrank after before maxPct \<longleftrightarrow> 0 < before \<and> int64_of (after * 100) < int64_of (before * (100 - maxPct))"

definition forkActivatedBetween :: "registry \<Rightarrow> string \<Rightarrow> gotime \<Rightarrow> gotime \<Rightarrow> bool" where
  "forkActivatedBetween reg network frm until =
     (case ForkEraTokenAt reg frm [network] of
        Inl _ \<Rightarrow> False
      | Inr (before, _) \<Rightarrow>
          (case ForkEraTokenAt reg until [network] of Inl _ \<Rightarrow> False | Inr (after, _) \<Rightarrow> before \<noteq> after))"

fun shrank_loop ::
    "registry \<Rightarrow> Manifest \<Rightarrow> Manifest \<Rightarrow> int \<Rightarrow> (string, NetworkSnapshot) gomap \<Rightarrow> string" where
  "shrank_loop reg prev current maxPct [] = []"
| "shrank_loop reg prev current maxPct ((network, before) # nets) =
     (case map_of (mf_Networks current) network of
        None \<Rightarrow> shrank_loop reg prev current maxPct nets
      | Some after \<Rightarrow>
          if shrank (ns_NodeCount after) (ns_NodeCount before) maxPct then ''collapse_total''
          else if shrank (ns_CurrentNodeCount after) (ns_CurrentNodeCount before) maxPct \<and>
                  \<not> forkActivatedBetween reg network (mf_GeneratedAt prev) (mf_GeneratedAt current)
          then ''collapse_current''
          else shrank_loop reg prev current maxPct nets)"

definition shrankTooMuch :: "registry \<Rightarrow> Manifest option \<Rightarrow> Manifest \<Rightarrow> int \<Rightarrow> string" where
  "shrankTooMuch reg prev current maxCollapsePct =
     (case prev of None \<Rightarrow> [] | Some p \<Rightarrow> shrank_loop reg p current maxCollapsePct (mf_Networks p))"

definition belowFloor :: "Manifest \<Rightarrow> string list \<Rightarrow> int \<Rightarrow> string" where
  "belowFloor current networks minCurrent =
     (if minCurrent \<le> 0 then []
      else if list_ex (\<lambda>network. (case map_of (mf_Networks current) network of None \<Rightarrow> 0 | Some ns \<Rightarrow> ns_CurrentNodeCount ns)
                < minCurrent) networks then ''current_below_floor''
      else [])"

definition quarantine :: "publisher \<Rightarrow> publisher" where
  "quarantine p = p\<lparr>p_quarantines := Suc (p_quarantines p)\<rparr>"

definition admit :: "registry \<Rightarrow> Manifest \<Rightarrow> publisher \<Rightarrow> (bool \<times> bool) \<times> publisher" where
  "admit reg m p =
     (if belowFloor m (p_networks p) (cf_minCurrentNodes (p_cfg p)) \<noteq> [] then ((False, False), quarantine p)
      else if shrankTooMuch reg (p_prev p) m (cf_maxCollapsePct (p_cfg p)) \<noteq> []
      then (if \<not> cf_forcePublish (p_cfg p) \<or> p_forceUsed p \<or> p_forcePending p then ((False, False), quarantine p)
            else ((True, True), p))
      else ((True, False), p))"

section \<open>Generations\<close>

fun serialize_loop ::
    "snapshot_env \<Rightarrow> (string, Row list) gomap \<Rightarrow> string list \<Rightarrow> Manifest \<Rightarrow> generation list \<Rightarrow> (Manifest \<times> generation list) option" where
  "serialize_loop env byNet [] m gens = Some (m, gens)"
| "serialize_loop env byNet (network # nets) m gens =
     (case se_parquet env (rows_of byNet network) of
        None \<Rightarrow> None
      | Some data \<Rightarrow>
          let ns0 = (case map_of (mf_Networks m) network of
                       Some ns \<Rightarrow> ns
                     | None \<Rightarrow> \<lparr>ns_GenerationKey = [], ns_NodeCount = 0, ns_CurrentNodeCount = 0, ns_SHA256 = [], ns_Bytes = 0\<rparr>);
              ns = ns0\<lparr>ns_SHA256 := hex_EncodeToString (sha256_Sum256 data), ns_Bytes := int (length data)\<rparr>
          in serialize_loop env byNet nets (m\<lparr>mf_Networks := AList.update network ns (mf_Networks m)\<rparr>)
               (gens @ [\<lparr>g_network = network, g_key = ns_GenerationKey ns, g_sum = ns_SHA256 ns, g_data = data,
                         g_count = ns_NodeCount ns, g_current = ns_CurrentNodeCount ns\<rparr>]))"

definition serialize ::
    "snapshot_env \<Rightarrow> string list \<Rightarrow> (string, Row list) gomap \<Rightarrow> Manifest \<Rightarrow> (Manifest \<times> generation list) option" where
  "serialize env networks byNet m =
     (case serialize_loop env byNet networks m [] of
        None \<Rightarrow> None
      | Some (m, gens) \<Rightarrow> if Manifest_Validate (se_url env) (se_layout env) m \<noteq> None then None else Some (m, gens))"

definition delete_keys :: "string list \<Rightarrow> world \<Rightarrow> world" where
  "delete_keys keys w = fold (\<lambda>key w. snd (store_Delete key w)) keys w"

definition cleanupOrphanGenerations :: "snapshot_env \<Rightarrow> string list \<Rightarrow> world \<Rightarrow> world" where
  "cleanupOrphanGenerations env keys w =
     (if keys = [] then w
      else case snapshot_Read env w of
        (Inr current, w) \<Rightarrow>
          delete_keys (filter (\<lambda>key. key \<notin> ns_GenerationKey ` set (map snd (mf_Networks current))) keys) w
      | (Inl ErrNoManifest, w) \<Rightarrow> delete_keys keys w
      | (Inl _, w) \<Rightarrow> w)"

fun upload_loop :: "snapshot_env \<Rightarrow> generation list \<Rightarrow> string list \<Rightarrow> world \<Rightarrow> string list option \<times> world" where
  "upload_loop env [] uploaded w = (Some uploaded, w)"
| "upload_loop env (g # gens) uploaded w =
     (let attempted = uploaded @ [g_key g] in
      case store_Put (g_key g) (g_data g) w of
        (Some _, w) \<Rightarrow> (None, cleanupOrphanGenerations env attempted w)
      | (None, w) \<Rightarrow> upload_loop env gens attempted w)"

definition upload :: "snapshot_env \<Rightarrow> generation list \<Rightarrow> world \<Rightarrow> string list option \<times> world" where
  "upload env gens w = upload_loop env gens [] w"

section \<open>Retention\<close>

text \<open>The layout \<^verbatim>\<open>20060102T150405.000000000Z\<close>.\<close>

definition aggregateTimeFormat :: "chunk list" where
  "aggregateTimeFormat = [LongYear, ZeroMonth, ZeroDay, Lit (CHR ''T''), Hour24, ZeroMinute, ZeroSecond, FracNine,
     Lit (CHR ''Z'')]"

definition aggregatePrefix :: "string \<Rightarrow> string" where
  "aggregatePrefix statePrefix = statePrefix @ ''/aggregates''"

definition aggregateKey :: "string \<Rightarrow> string \<Rightarrow> gotime \<Rightarrow> string" where
  "aggregateKey statePrefix methodologyID now =
     aggregatePrefix statePrefix @ ''/'' @ methodologyID @ ''/'' @ time_Format aggregateTimeFormat now @ ''.json''"

definition aggregateTime :: "string \<Rightarrow> string \<Rightarrow> gotime option" where
  "aggregateTime statePrefix key =
     (let prfx = aggregatePrefix statePrefix @ ''/'' in
      if \<not> is_prefix prfx key then None
      else let rest = drop (length prfx) key in
      if \<not> has_suffix rest ''.json'' then None
      else case cut_slash rest of
        None \<Rightarrow> None
      | Some (_, name) \<Rightarrow> time_Parse aggregateTimeFormat (strings_TrimSuffix name ''.json''))"

definition pruneAggregates :: "string \<Rightarrow> duration \<Rightarrow> gotime \<Rightarrow> world \<Rightarrow> world" where
  "pruneAggregates statePrefix maxAge now w =
     (if maxAge \<le> 0 then w
      else case store_List (aggregatePrefix statePrefix @ ''/'') w of
        (Inl _, w) \<Rightarrow> w
      | (Inr keys, w) \<Rightarrow>
          delete_keys (filter (\<lambda>key. case aggregateTime statePrefix key of
             None \<Rightarrow> False | Some at \<Rightarrow> at < time_Add now (- maxAge)) keys) w)"

text \<open>Generations in time order, equal instants by key.\<close>

definition sort_generations :: "Layout \<Rightarrow> string \<Rightarrow> string list \<Rightarrow> string list" where
  "sort_generations l network keys = sort_key (\<lambda>k. the (GenerationTime l network k)) (sort keys)"

fun prune_loop :: "string \<Rightarrow> nat \<Rightarrow> string list \<Rightarrow> world \<Rightarrow> world" where
  "prune_loop protected toDelete [] w = w"
| "prune_loop protected toDelete (k # ks) w =
     (if toDelete = 0 then w
      else if k = protected then prune_loop protected toDelete ks w
      else case store_Delete k w of
        (Some _, w) \<Rightarrow> prune_loop protected toDelete ks w
      | (None, w) \<Rightarrow> prune_loop protected (toDelete - 1) ks w)"

definition prune_network :: "Layout \<Rightarrow> int \<Rightarrow> Manifest \<Rightarrow> string \<Rightarrow> world \<Rightarrow> world" where
  "prune_network l keep current net w =
     (case store_List (NetworkPrefix l net) w of
        (Inl _, w) \<Rightarrow> w
      | (Inr keys, w) \<Rightarrow>
          let parquets = filter (IsGenerationKey l net) keys in
          if int (length parquets) \<le> keep then w
          else prune_loop (case map_of (mf_Networks current) net of None \<Rightarrow> [] | Some ns \<Rightarrow> ns_GenerationKey ns)
                 (length parquets - nat keep) (sort_generations l net parquets) w)"

definition pruneGenerationsForNetworks :: "Layout \<Rightarrow> int \<Rightarrow> Manifest \<Rightarrow> string list \<Rightarrow> world \<Rightarrow> world" where
  "pruneGenerationsForNetworks l keep current networks w =
     (if keep \<le> 0 then w else fold (prune_network l keep current) networks w)"

section \<open>The commit\<close>

definition storedIsOwn :: "Manifest option \<Rightarrow> Manifest \<Rightarrow> bool" where
  "storedIsOwn stored m =
     (case stored of
        None \<Rightarrow> False
      | Some s \<Rightarrow> run_RunID (mf_Run s) = run_RunID (mf_Run m) \<and> mf_GeneratedAt s = mf_GeneratedAt m)"

definition settle_force :: "bool \<Rightarrow> publisher \<Rightarrow> publisher" where
  "settle_force forced p =
     (if forced \<or> p_forcePending p then p\<lparr>p_forceUsed := True, p_forcePending := False\<rparr> else p)"

definition recoverConflict :: "Manifest option \<Rightarrow> Manifest \<Rightarrow> bool \<Rightarrow> publisher \<Rightarrow> bool \<times> publisher" where
  "recoverConflict stored m forced p =
     (case (p_prev p, stored) of
        (Some prev, Some s) \<Rightarrow>
          if run_RunID (mf_Run s) = run_RunID (mf_Run m) \<and> mf_GeneratedAt prev < mf_GeneratedAt s
          then (True, settle_force forced (p\<lparr>p_prev := Some s\<rparr>))
          else if mf_CrawlerID s = mf_CrawlerID prev \<and> mf_GeneratedAt s = mf_GeneratedAt prev
          then (True, if forced then p\<lparr>p_forcePending := True\<rparr> else p)
          else (False, p)
      | _ \<Rightarrow> (False, p))"

definition recordPublished ::
    "pub_env \<Rightarrow> publish_clock \<Rightarrow> Manifest \<Rightarrow> (string, Row list) gomap \<Rightarrow> gotime \<Rightarrow> publisher \<Rightarrow> world \<Rightarrow> publisher \<times> world" where
  "recordPublished env ck m byNet now p w =
     (case Estimates (pe_estimate env) now (p_distinct p) of
        (estimates, d) \<Rightarrow>
          let p = p\<lparr>p_distinct := d\<rparr>;
              w = (case pe_point env (measurementPointAt (pe_reg env) now (p_run p) byNet estimates) of
                     None \<Rightarrow> w
                   | Some data \<Rightarrow> snd (store_Put (aggregateKey (p_statePrefix p) (run_MethodologyID (p_run p)) now) data w));
              (p, w) = (if time_IsZero (p_aggregatesPrunedAt p) \<or>
                           hour \<le> time_Sub (ck_aggregatesSince ck) (p_aggregatesPrunedAt p)
                        then (p\<lparr>p_aggregatesPrunedAt := ck_aggregatesPruned ck\<rparr>,
                              pruneAggregates (p_statePrefix p) (cf_keepAggregates (p_cfg p)) now w)
                        else (p, w));
              (at, w) = recordReadiness (pe_reg env) (pe_layout env) (pe_history env) (p_networks p) byNet now (p_readinessAt p, w)
          in (p\<lparr>p_readinessAt := at\<rparr>,
              pruneGenerationsForNetworks (pe_layout env) (cf_keepGenerations (p_cfg p)) m (p_networks p) w))"

text \<open>The write and the read that settles its error: the error that remains, and the stored manifest.\<close>

definition commit ::
    "snapshot_env \<Rightarrow> Manifest option \<Rightarrow> Manifest \<Rightarrow> world \<Rightarrow> (manifestError option \<times> Manifest option) \<times> world" where
  "commit env prev m w =
     (case WriteConditional env prev m w of
        (None, w) \<Rightarrow> ((None, None), w)
      | (Some e, w) \<Rightarrow>
          (case snapshot_Read env w of
             (r, w) \<Rightarrow>
               let stored = (case r of Inl _ \<Rightarrow> None | Inr s \<Rightarrow> Some s)
               in ((if storedIsOwn stored m then None else Some e, stored), w)))"

definition after_commit ::
    "pub_env \<Rightarrow> publish_clock \<Rightarrow> bool \<Rightarrow> Manifest \<Rightarrow> (string, Row list) gomap \<Rightarrow> string list \<Rightarrow> gotime \<Rightarrow>
      (manifestError option \<times> Manifest option) \<Rightarrow> publisher \<Rightarrow> world \<Rightarrow> manifestError option \<times> publisher \<times> world" where
  "after_commit env ck forced m byNet uploaded now outcome p w =
     (case outcome of
        (Some e, stored) \<Rightarrow>
          if is_conflict e
          then (if e = ErrManifestCompetitor
                then (Some e, p, cleanupOrphanGenerations (pe_snap env) uploaded w)
                else case recoverConflict stored m forced p of
                  (False, p) \<Rightarrow> (Some e, p, cleanupOrphanGenerations (pe_snap env) uploaded w)
                | (True, p) \<Rightarrow> (None, p, w))
          else (None, if forced then p\<lparr>p_forcePending := True\<rparr> else p, cleanupOrphanGenerations (pe_snap env) uploaded w)
      | (None, _) \<Rightarrow>
          (None, recordPublished env ck m byNet now
             ((settle_force forced (p\<lparr>p_prev := Some m\<rparr>))\<lparr>p_quarantines := 0\<rparr>) w))"

text \<open>What \<^verbatim>\<open>Publish\<close> does up to the commit: the attempted manifest, or nothing when a guard, the
  serialization or an upload stops it.\<close>

record attempt =
  at_forced :: bool
  at_manifest :: Manifest
  at_byNet :: "(string, Row list) gomap"
  at_uploaded :: "string list"

definition prepare ::
    "pub_env \<Rightarrow> publish_clock \<Rightarrow> gotime \<Rightarrow> publisher \<Rightarrow> world \<Rightarrow> attempt option \<times> publisher \<times> world" where
  "prepare env ck now p w =
     (let (p, w) = persistDistinct env ck p w;
          p = pruneStale now p;
          (m, byNet) = build env now p;
          ((admitted, forced), p) = admit (pe_reg env) m p
      in if \<not> admitted then (None, p, w)
         else case serialize (pe_snap env) (p_networks p) byNet m of
           None \<Rightarrow> (None, p, w)
         | Some (m, gens) \<Rightarrow>
             (case upload (pe_snap env) gens w of
                (None, w) \<Rightarrow> (None, p, w)
              | (Some uploaded, w) \<Rightarrow>
                  (Some \<lparr>at_forced = forced, at_manifest = m, at_byNet = byNet, at_uploaded = uploaded\<rparr>, p, w)))"

definition Publish :: "pub_env \<Rightarrow> publish_clock \<Rightarrow> publisher \<Rightarrow> world \<Rightarrow> manifestError option \<times> publisher \<times> world" where
  "Publish env ck p w =
     (let now = generationTime (ck_now ck) p in
      case prepare env ck now p w of
        (None, p, w) \<Rightarrow> (None, p, w)
      | (Some a, p, w) \<Rightarrow>
          (case commit (pe_snap env) (p_prev p) (at_manifest a) w of
             (outcome, w) \<Rightarrow>
               after_commit env ck (at_forced a) (at_manifest a) (at_byNet a) (at_uploaded a) now outcome p w))"

end
