(* ===== verification/ManifestProps.thy ===== *)
theory ManifestProps
  imports Manifest
begin

text \<open>
  The manifest's promises: generation keys read back as their instant and belong to one network, a
  conditional write never replaces a manifest the writer has not accepted, and rows are only loaded
  from the object the manifest describes.
\<close>

section \<open>Generation keys\<close>

lemma has_suffix_append [simp]: "has_suffix (s @ suf) suf"
  by (simp add: has_suffix_def is_prefix_append_iff)

lemma TrimSuffix_append [simp]: "strings_TrimSuffix (s @ suf) suf = s"
  by (simp add: strings_TrimSuffix_def)

lemma TrimPrefix_append [simp]: "strings_TrimPrefix (p @ s) p = s"
  by (simp add: strings_TrimPrefix_def is_prefix_append_iff)

lemma fix_digits_numeral: "fix_digits (numeral k) n = fix_digits (pred_numeral k) (n div 10) @ [digit_char (n mod 10)]"
  by (subst numeral_eq_Suc) (rule fix_digits.simps)

lemma full_genTimeFormat: "full_layout genTimeFormat"
  by (simp add: full_layout_def genTimeFormat_def)

lemma GenerationTime_GenerationKey:
  "representable t \<Longrightarrow> GenerationTime l network (GenerationKey l network t) = Some t"
  using time_Parse_Format [OF _ full_genTimeFormat, of t]
    has_suffix_append [of "NetworkPrefix l network @ time_Format genTimeFormat t" "''.parquet''"]
  by (simp add: GenerationTime_def GenerationKey_def Let_def is_prefix_append_iff)

lemma component_no_slash: "ValidComponent s \<Longrightarrow> CHR ''/'' \<notin> set s"
  by (auto simp: ValidComponent_def list_all_iff component_char_def Let_def)

lemma slash_free_prefix:
  assumes "a @ CHR ''/'' # x = b @ CHR ''/'' # y" "CHR ''/'' \<notin> set a" "CHR ''/'' \<notin> set b"
  shows "a = b"
  using assms by (metis split_on_append list.inject)

lemma GenerationKey_network:
  assumes "ValidComponent network" and "ValidComponent other" and "IsGenerationKey l other (GenerationKey l network t)"
  shows "other = network"
proof -
  obtain r where "GenerationKey l network t = NetworkPrefix l other @ r"
    using assms(3) by (auto simp: IsGenerationKey_def GenerationTime_def Let_def is_prefix_append_iff split: if_splits)
  then have "network @ CHR ''/'' # (time_Format genTimeFormat t @ ''.parquet'') = other @ CHR ''/'' # r"
    by (simp add: GenerationKey_def NetworkPrefix_def)
  from slash_free_prefix [OF this] show ?thesis using assms(1,2) by (simp add: component_no_slash)
qed

text \<open>The key of a generation reads back as its instant, and among valid network names it is a
  generation key of its own network only.\<close>

theorem generation_key_roundtrip:
  assumes "representable t" and "ValidComponent network" and "ValidComponent other"
  shows "GenerationTime l network (GenerationKey l network t) = Some t \<and>
    (IsGenerationKey l other (GenerationKey l network t) \<longleftrightarrow> other = network)"
proof -
  have "GenerationTime l network (GenerationKey l network t) = Some t"
    by (rule GenerationTime_GenerationKey [OF assms(1)])
  then show ?thesis using GenerationKey_network [OF assms(2,3), of l t] unfolding IsGenerationKey_def by auto
qed

theorem generation_key_roundtrip_witness:
  "GenerationTime \<lparr>ly_Prefix = []\<rparr> ''mainnet'' (GenerationKey \<lparr>ly_Prefix = []\<rparr> ''mainnet'' (time_zero + 86399999999999)) =
     Some (time_zero + 86399999999999) \<and>
   \<not> IsGenerationKey \<lparr>ly_Prefix = []\<rparr> ''main'' (GenerationKey \<lparr>ly_Prefix = []\<rparr> ''mainnet'' (time_zero + 86399999999999)) \<and>
   time_Format genTimeFormat (time_zero + 86399999999999) = ''0001-01-01T23:59:59.999999999Z''"
proof -
  have civil: "civil_of (time_zero + 86399999999999) = \<lparr>cv_year = 1, cv_month = 1, cv_day = 1, cv_hour = 23, cv_minute = 59,
      cv_second = 59, cv_nsec = 999999999\<rparr>"
    by (simp add: civil_of_def Let_def year_of.simps year_days_def leap_year_def upt_conv_Cons daysIn_def)
  have r: "representable (time_zero + 86399999999999)" unfolding representable_def civil by simp
  have v: "ValidComponent ''mainnet''" "ValidComponent ''main''" by (simp_all add: ValidComponent_def component_char_def)
  have f: "time_Format genTimeFormat (time_zero + 86399999999999) = ''0001-01-01T23:59:59.999999999Z''"
    unfolding time_Format_def civil
    by (simp add: genTimeFormat_def format_chunk_def fix_digits_numeral digit_char_def char_of_def bit_0)
  show ?thesis
    using generation_key_roundtrip [OF r v, of "\<lparr>ly_Prefix = []\<rparr>"] f by simp
qed


section \<open>The conditional write\<close>

definition accepts :: "Manifest option \<Rightarrow> Manifest \<Rightarrow> Manifest \<Rightarrow> bool" where
  "accepts previous nxt current \<longleftrightarrow>
     own_write current nxt \<or> (\<exists>prev. previous = Some prev \<and> same_generation current prev)"

lemma expected_version_Inr:
  assumes "expected_version env previous nxt got = Inr v"
  obtains "got = Inl ErrNotFound" "previous = None" "v = []"
  | data cur where "got = Inr (data, v)" "decodeManifest env data = Inr cur" "accepts previous nxt cur"
proof (cases got)
  case (Inl e)
  then show ?thesis using assms that(1) by (cases e) (auto simp: expected_version_def split: if_splits)
next
  case (Inr dv)
  then show ?thesis using assms that(2)
    by (cases dv) (auto simp: expected_version_def accepts_def split: sum.splits if_splits option.splits)
qed

lemma WriteConditional_None:
  assumes "WriteConditional env previous nxt w = (None, w')"
  obtains got w1 v encoded u where "validateWritable env nxt = None"
    and "GetVersion (ManifestKey (se_layout env)) w = (got, w1)" and "expected_version env previous nxt got = Inr v"
    and "mc_encode (se_codec env) nxt = Some encoded"
    and "PutIfVersion (ManifestKey (se_layout env)) v encoded w1 = (Inr u, w')"
proof (cases "validateWritable env nxt")
  case None
  obtain got w1 where g: "GetVersion (ManifestKey (se_layout env)) w = (got, w1)" by (meson surj_pair)
  obtain v where v: "expected_version env previous nxt got = Inr v"
    using assms None g by (cases "expected_version env previous nxt got") (simp_all add: WriteConditional_def)
  obtain encoded where e: "mc_encode (se_codec env) nxt = Some encoded"
    using assms None g v by (cases "mc_encode (se_codec env) nxt") (simp_all add: WriteConditional_def)
  obtain r w2 where p: "PutIfVersion (ManifestKey (se_layout env)) v encoded w1 = (r, w2)" by (meson surj_pair)
  have "(case (r, w2) of (Inl ErrCASConflict, w) \<Rightarrow> (Some CASLost, w)
      | (Inl e, w) \<Rightarrow> (Some (StoreFailed e), w) | (Inr _, w) \<Rightarrow> (None, w)) = (None, w')"
    using assms unfolding WriteConditional_def by (simp only: None g v e p option.case sum.case prod.case)
  then have "w2 = w' \<and> (\<exists>u. r = Inr u)" by (simp split: sum.splits storeError.splits)
  then show ?thesis using that None g v e p by blast
qed (use assms in \<open>simp add: WriteConditional_def\<close>)

text \<open>The manifest object of a world.\<close>

definition manifest_object :: "snapshot_env \<Rightarrow> world \<Rightarrow> byte list option" where
  "manifest_object env w = key_view w (ManifestKey (se_layout env))"

lemma commit_replaces_accepted:
  assumes "WriteConditional env previous nxt w = (None, w')"
  shows "\<exists>w1 encoded. w1 = snd (GetVersion (ManifestKey (se_layout env)) w) \<and>
    mc_encode (se_codec env) nxt = Some encoded \<and> manifest_object env w' = Some encoded \<and>
    (case manifest_object env (settle w1) of
       None \<Rightarrow> previous = None
     | Some c \<Rightarrow> \<exists>d cur. manifest_object env w1 = Some d \<and> objectVersion c = objectVersion d \<and>
         decodeManifest env d = Inr cur \<and> accepts previous nxt cur)"
proof -
  obtain got w1 v encoded u where
    g: "GetVersion (ManifestKey (se_layout env)) w = (got, w1)" and e: "expected_version env previous nxt got = Inr v"
    and enc: "mc_encode (se_codec env) nxt = Some encoded"
    and p: "PutIfVersion (ManifestKey (se_layout env)) v encoded w1 = (Inr u, w')"
    by (rule WriteConditional_None [OF assms])
  from e show ?thesis
  proof (cases rule: expected_version_Inr)
    case 1
    from fs.create_cycle [OF g [unfolded 1(1)] p [unfolded 1(3)]] g enc 1(2) show ?thesis
      by (intro exI [of _ w1] exI [of _ encoded]) (simp add: manifest_object_def)
  next
    case (2 data cur)
    from fs.update_cycle [OF g [unfolded 2(1)] p] g enc 2(2,3) show ?thesis
      by (intro exI [of _ w1] exI [of _ encoded]) (auto simp: manifest_object_def)
  qed
qed

text \<open>Validation never reports a conflict, so a conflict is a disagreement about the stored manifest.\<close>

lemma validate_not_conflict:
  "Manifest_Validate parse l m = Some e \<Longrightarrow> \<not> is_conflict e"
  "validateWritable env m = Some e \<Longrightarrow> \<not> is_conflict e"
  "decodeManifest env data = Inl e \<Longrightarrow> \<not> is_conflict e"
proof -
  have net: "validate_network l at n ns = Some e \<Longrightarrow> \<not> is_conflict e" for l at n ns
    by (auto simp: validate_network_def is_conflict_def split: if_splits)
  have nets: "validate_networks l at ms = Some e \<Longrightarrow> \<not> is_conflict e" for l at ms
    by (induction ms rule: validate_networks.induct) (auto dest: net split: option.splits)
  have run: "validate_run parse at r = Some e \<Longrightarrow> \<not> is_conflict e" for parse at r
    by (auto simp: validate_run_def is_conflict_def split: if_splits)
  have man: "Manifest_Validate parse l m = Some e \<Longrightarrow> \<not> is_conflict e" for parse l m
    unfolding Manifest_Validate_def
    by (auto dest: nets run split: if_splits option.splits) (simp_all add: is_conflict_def)
  show "Manifest_Validate parse l m = Some e \<Longrightarrow> \<not> is_conflict e" by (rule man)
  show "validateWritable env m = Some e \<Longrightarrow> \<not> is_conflict e"
    unfolding validateWritable_def by (auto dest: man split: if_splits) (simp_all add: is_conflict_def)
  show "decodeManifest env data = Inl e \<Longrightarrow> \<not> is_conflict e"
    unfolding decodeManifest_def by (auto dest: man split: if_splits option.splits) (simp_all add: is_conflict_def)
qed

lemma expected_version_conflict:
  assumes "expected_version env previous nxt got = Inl e" and "is_conflict e"
  shows "(got = Inl ErrNotFound \<or> (\<exists>d. got = Inr d)) \<and> e \<noteq> CASLost"
proof (cases got)
  case (Inl x)
  then show ?thesis using assms by (cases x) (auto simp: expected_version_def is_conflict_def split: if_splits)
next
  case (Inr y)
  then show ?thesis using assms validate_not_conflict(3) [of env "fst y" e]
    by (cases y) (auto simp: expected_version_def split: sum.splits if_splits)
qed

text \<open>The world a conflicting write leaves is the one it found: it wrote nothing itself, and a lost
  race means that the object changed between its read and its write.\<close>

lemma conflict_writes_nothing:
  assumes "WriteConditional env previous nxt w = (Some e, w')" and "is_conflict e"
  shows "w' = (if e = CASLost then settle (settle w) else settle w) \<and>
    (e = CASLost \<longrightarrow> manifest_object env w' \<noteq> manifest_object env (settle w))"
proof -
  let ?k = "ManifestKey (se_layout env)"
  have v: "validateWritable env nxt = None"
    using assms validate_not_conflict(2) [of env nxt] by (cases "validateWritable env nxt") (auto simp: WriteConditional_def)
  obtain got w1 where g: "GetVersion ?k w = (got, w1)" by (meson surj_pair)
  have settled: "w1 = settle w" if "got = Inl ErrNotFound \<or> (\<exists>d. got = Inr d)"
    using that g fs.getv_found [of ?k w] fs.getv_absent [of ?k w w1] by (metis surj_pair)
  show ?thesis
  proof (cases "expected_version env previous nxt got")
    case (Inl x)
    then have "x = e" "w1 = w'" using assms(1) v g by (simp_all add: WriteConditional_def)
    with expected_version_conflict [OF Inl] assms(2) settled show ?thesis by auto
  next
    case (Inr ver)
    obtain enc where enc: "mc_encode (se_codec env) nxt = Some enc"
      using assms v g Inr by (cases "mc_encode (se_codec env) nxt") (auto simp: WriteConditional_def is_conflict_def)
    obtain r w2 where p: "PutIfVersion ?k ver enc w1 = (r, w2)" by (meson surj_pair)
    have "(case (r, w2) of (Inl ErrCASConflict, w) \<Rightarrow> (Some CASLost, w)
        | (Inl e, w) \<Rightarrow> (Some (StoreFailed e), w) | (Inr _, w) \<Rightarrow> (None, w)) = (Some e, w')"
      using assms(1) unfolding WriteConditional_def by (simp only: v g Inr enc p option.case sum.case prod.case)
    then have r: "r = Inl ErrCASConflict" "w2 = w'" "e = CASLost"
      using assms(2) by (auto simp: is_conflict_def split: sum.splits storeError.splits)
    from Inr show ?thesis
    proof (cases rule: expected_version_Inr)
      case 1
      with settled fs.putif_lost [OF p [unfolded r]] fs.getv_absent [of ?k w w1] g r show ?thesis
        by (auto simp: manifest_object_def)
    next
      case (2 data cur)
      with settled fs.lost_cycle [OF g [unfolded 2(1)] p [unfolded r]] r show ?thesis
        by (auto simp: manifest_object_def)
    qed
  qed
qed

section \<open>No lost update\<close>

text \<open>A sample: manifests of one network at a given instant, and a codec for two of them.\<close>

definition zero_digest :: string where
  "zero_digest = hex_EncodeToString (replicate 32 0)"

definition sample_run :: RunMetadata where
  "sample_run = \<lparr>run_RunID = ''r'', run_SourceRevision = ''v'', run_SourceURL = ''u'', run_ImageDigest = [],
     run_ConfigSHA256 = zero_digest, run_CrawlerStartedAt = 0, run_MethodologyStartedAt = 0,
     run_MethodologyVersion = MethodologyVersion, run_MethodologyID = ''id''\<rparr>"

definition sample_layout :: Layout where
  "sample_layout = \<lparr>ly_Prefix = []\<rparr>"

definition sample_manifest :: "gotime \<Rightarrow> Manifest" where
  "sample_manifest t = \<lparr>mf_SchemaVersion = SchemaVersion, mf_GeneratedAt = t, mf_CrawlerID = ''c'', mf_Run = sample_run,
     mf_Networks = [(''main'', \<lparr>ns_GenerationKey = GenerationKey sample_layout ''main'' t, ns_NodeCount = 0,
       ns_CurrentNodeCount = 0, ns_SHA256 = zero_digest, ns_Bytes = 1\<rparr>)], mf_LegacyPopulationHistory = []\<rparr>"

definition sample_codec :: manifest_codec where
  "sample_codec = \<lparr>mc_encode = (\<lambda>m. Some [if mf_GeneratedAt m = 1 then 1 else 2]),
     mc_decode = (\<lambda>d. Some (sample_manifest (if d = [1] then 1 else 2)))\<rparr>"

definition snap_sample :: snapshot_env where
  "snap_sample = \<lparr>se_codec = sample_codec, se_url = (\<lambda>_. Some (''https'', ''h'')), se_layout = sample_layout,
     se_parquet = (\<lambda>_. Some [0]), se_rows = (\<lambda>_. Some [])\<rparr>"

lemma length_hex [simp]: "length (hex_EncodeToString bs) = 2 * length bs"
  using hex_DecodeString_length [OF hex_roundtrip] by simp

lemma sample_valid:
  "t > 0 \<Longrightarrow> Manifest_Validate (se_url snap_sample) sample_layout (sample_manifest t) = None"
  by (simp add: Manifest_Validate_def validate_run_def validate_network_def sample_manifest_def snap_sample_def sample_run_def
      validateReadableSchemaVersion_def SchemaVersion_def OldestReadableSchemaVersion_def time_IsZero_def time_zero_def
      maxCrawlerIDBytes_def httpURL_def zero_digest_def validateReadableMethodologyVersion_def
      readableMethodologyVersions_def ValidComponent_def component_char_def maxNetworks_def MaxObjectBytes_def)

lemma sample_layout_env [simp]: "se_layout snap_sample = sample_layout" "se_codec snap_sample = sample_codec"
  by (simp_all add: snap_sample_def)

lemma sample_writable: "t > 0 \<Longrightarrow> validateWritable snap_sample (sample_manifest t) = None"
  using sample_valid [of t] by (simp add: validateWritable_def) (simp add: sample_manifest_def sample_run_def)

lemma sample_decode: "decodeManifest snap_sample [1] = Inr (sample_manifest 1)"
  using sample_valid [of 1] by (simp add: decodeManifest_def MaxManifestBytes_def sample_codec_def)

lemma sample_key: "safeRelPath (ManifestKey sample_layout) = Some ''snapshots/manifest.json''"
  by (simp add: ManifestKey_def ly_prefix_def sample_layout_def safeRelPath_def path_Clean_def clean_parts_def
      path_rooted_def clean_step_def Let_def)

text \<open>C4: When a conditional manifest write reports success, the manifest is the new one, and the object
  it replaced had the version of one that the writer had read and accepted: its own previous manifest
  or an earlier one of its run; it only creates a manifest when it expected none. When it reports a
  conflict it has written nothing, and a lost race means that the manifest changed in between.\<close>

theorem no_lost_update:
  assumes "WriteConditional env previous nxt w = (r, w')"
  shows "(r = None \<longrightarrow>
      (\<exists>encoded. mc_encode (se_codec env) nxt = Some encoded \<and> manifest_object env w' = Some encoded) \<and>
      (let w1 = snd (GetVersion (ManifestKey (se_layout env)) w) in
       case manifest_object env (settle w1) of
         None \<Rightarrow> previous = None
       | Some c \<Rightarrow> \<exists>d cur. manifest_object env w1 = Some d \<and> objectVersion c = objectVersion d \<and>
           decodeManifest env d = Inr cur \<and> accepts previous nxt cur)) \<and>
    (\<forall>e. r = Some e \<and> is_conflict e \<longrightarrow>
      w' = (if e = CASLost then settle (settle w) else settle w) \<and>
      (e = CASLost \<longrightarrow> manifest_object env w' \<noteq> manifest_object env (settle w)))"
  using assms commit_replaces_accepted [of env previous nxt w w'] conflict_writes_nothing [of env previous nxt w _ w']
  by (auto simp: Let_def)

theorem no_lost_update_witness:
  "let w = \<lparr>w_objects = [(''snapshots/manifest.json'', [1])], w_script = []\<rparr>;
       w' = \<lparr>w_objects = [(''snapshots/manifest.json'', [2])], w_script = []\<rparr>
   in WriteConditional snap_sample (Some (sample_manifest 1)) (sample_manifest 2) w = (None, w') \<and>
      manifest_object snap_sample w' = Some [2] \<and> accepts (Some (sample_manifest 1)) (sample_manifest 2) (sample_manifest 1)"
proof -
  let ?w = "\<lparr>w_objects = [(''snapshots/manifest.json'', [1 :: byte])], w_script = []\<rparr>"
  let ?w' = "\<lparr>w_objects = [(''snapshots/manifest.json'', [2 :: byte])], w_script = []\<rparr>"
  have g: "GetVersion (ManifestKey sample_layout) ?w = (Inr ([1], objectVersion [1]), ?w)"
    by (simp add: GetVersion_def store_Get_def sample_key enter_def read_object_def object_def MaxObjectBytes_def)
  have a: "accepts (Some (sample_manifest 1)) (sample_manifest 2) (sample_manifest 1)"
    by (simp add: accepts_def same_generation_def)
  have e: "expected_version snap_sample (Some (sample_manifest 1)) (sample_manifest 2) (Inr ([1], objectVersion [1])) =
      Inr (objectVersion [1])"
    by (simp add: expected_version_def sample_decode same_generation_def)
  have p: "PutIfVersion (ManifestKey sample_layout) (objectVersion [1]) [2] ?w = (Inr (objectVersion [2]), ?w')"
    by (simp add: PutIfVersion_def sample_key enter_def cas_check_def read_object_def object_def MaxObjectBytes_def
        objectVersion_ne put_object_def)
  have c: "mc_encode sample_codec (sample_manifest 2) = Some [2]" by (simp add: sample_codec_def sample_manifest_def)
  have w: "WriteConditional snap_sample (Some (sample_manifest 1)) (sample_manifest 2) ?w = (None, ?w')"
    by (simp add: WriteConditional_def sample_writable g e c p)
  show ?thesis using no_lost_update [OF w] w a c by (simp add: Let_def)
qed

section \<open>Loading rows\<close>

lemma validate_row_loop_None:
  "validate_row_loop network seen rs = None \<longleftrightarrow>
     (\<forall>r\<in>set rs. r_Network r = network \<and> r_ID r \<noteq> [] \<and> r_ID r \<notin> set seen) \<and> distinct (map r_ID rs)"
proof (induction rs arbitrary: seen)
  case (Cons r rs)
  have "(\<forall>x\<in>set rs. r_Network x = network \<and> r_ID x \<noteq> [] \<and> r_ID x \<notin> set (r_ID r # seen)) \<longleftrightarrow>
      (\<forall>x\<in>set rs. r_Network x = network \<and> r_ID x \<noteq> [] \<and> r_ID x \<notin> set seen) \<and> r_ID r \<notin> r_ID ` set rs"
    by (auto simp: image_iff)
  then show ?case using Cons.IH [of "r_ID r # seen"] by auto
qed simp

lemma ValidateRows_None:
  "ValidateRows network n rs = None \<longleftrightarrow>
     int (length rs) = n \<and> distinct (map r_ID rs) \<and> [] \<notin> r_ID ` set rs \<and> r_Network ` set rs \<subseteq> {network}"
  unfolding ValidateRows_def by (auto simp: validate_row_loop_None) (metis imageI)

lemma VerifyGeneration_None:
  "VerifyGeneration l network ns data = None \<longleftrightarrow>
     IsGenerationKey l network (ns_GenerationKey ns) \<and> int (length data) = ns_Bytes ns \<and>
     hex_EncodeToString (sha256_Sum256 data) = ns_SHA256 ns"
  by (simp add: VerifyGeneration_def)

lemma store_Get_Inr:
  "fst (store_Get k w) = Inr d \<longleftrightarrow>
     fst (enter w) = NoFault \<and> key_view (settle w) k = Some d \<and> length d \<le> MaxObjectBytes"
  unfolding store_Get_def settle_def key_view_def
  by (auto simp: read_object_def split: option.splits prod.splits fault.splits if_splits)

lemma LoadNetworkRows_cases:
  "fst (LoadNetworkRows env m network w) = Inr rs \<longleftrightarrow>
     (\<exists>ns data. map_of (mf_Networks m) network = Some ns \<and> fst (store_Get (ns_GenerationKey ns) w) = Inr data \<and>
        VerifyGeneration (se_layout env) network ns data = None \<and> se_rows env data = Some rs \<and>
        ValidateRows network (ns_NodeCount ns) rs = None)"
  unfolding LoadNetworkRows_def by (auto split: option.splits prod.splits sum.splits)

text \<open>The rows of a network load exactly when its generation object has the size and the digest of
  the manifest, decodes, and holds the manifest's number of rows, all of that network and with
  distinct, non-empty node ids.\<close>

theorem rows_load_iff_intact:
  "fst (LoadNetworkRows env m network w) = Inr rs \<longleftrightarrow>
     (\<exists>ns data. map_of (mf_Networks m) network = Some ns \<and> fst (enter w) = NoFault \<and>
        key_view (settle w) (ns_GenerationKey ns) = Some data \<and> length data \<le> MaxObjectBytes \<and>
        IsGenerationKey (se_layout env) network (ns_GenerationKey ns) \<and> int (length data) = ns_Bytes ns \<and>
        hex_EncodeToString (sha256_Sum256 data) = ns_SHA256 ns \<and> se_rows env data = Some rs \<and>
        int (length rs) = ns_NodeCount ns \<and> distinct (map r_ID rs) \<and> [] \<notin> r_ID ` set rs \<and>
        r_Network ` set rs \<subseteq> {network})"
  unfolding LoadNetworkRows_cases store_Get_Inr VerifyGeneration_None ValidateRows_None by (simp only: conj_assoc)

section \<open>Object keys stay below the store's directory\<close>

text \<open>Every part of an accepted path is a plain name, so it cannot leave the directory, and an accepted
  path is accepted unchanged.\<close>

lemma object_path_confined:
  assumes "safeRelPath key = Some rel"
  shows "list_all plain_part (split_on (CHR ''/'') rel) \<and> safeRelPath rel = Some rel"
  using safeRelPath_plain [OF assms] plain_safeRelPath by blast

end
