(* ===== verification/PublisherProps.thy ===== *)
theory PublisherProps
  imports Publisher ManifestProps SnapshotProps
begin

text \<open>
  What a publish promises: the override of the shrink guard is spent at most once, commits move
  forward in time, retention never removes a generation of the committed manifest, and a committed
  snapshot loads back as the rows of the tracked set.
\<close>

section \<open>The shape of a publish\<close>

lemma persistDistinct_frame:
  assumes "persistDistinct env ck p w = (p', w')"
  shows "\<exists>t. p' = p\<lparr>p_distinctSavedAt := t\<rparr>"
  using assms unfolding persistDistinct_def
  by (auto split: if_splits prod.splits option.splits intro: exI [of _ "p_distinctSavedAt p"] exI [of _ "ck_distinctSaved ck"])

definition same_fixed :: "publisher \<Rightarrow> publisher \<Rightarrow> bool" where
  "same_fixed p q \<longleftrightarrow> p_cfg q = p_cfg p \<and> p_run q = p_run p \<and> p_crawlerID q = p_crawlerID p \<and>
     p_networks q = p_networks p \<and> p_statePrefix q = p_statePrefix p \<and> p_distinctKey q = p_distinctKey p"

definition same_commit :: "publisher \<Rightarrow> publisher \<Rightarrow> bool" where
  "same_commit p q \<longleftrightarrow> same_fixed p q \<and> p_prev q = p_prev p \<and> p_forceUsed q = p_forceUsed p \<and>
     p_forcePending q = p_forcePending p"

lemma same_commit_refl [simp]: "same_commit p p"
  by (simp add: same_commit_def same_fixed_def)

lemma same_commit_trans: "same_commit p q \<Longrightarrow> same_commit q r \<Longrightarrow> same_commit p r"
  by (simp add: same_commit_def same_fixed_def)

lemma persistDistinct_same: "same_commit p (fst (persistDistinct env ck p w))"
  using persistDistinct_frame [of env ck p w] by (cases "persistDistinct env ck p w") (auto simp: same_commit_def same_fixed_def)

lemma pruneStale_same: "same_commit p (pruneStale now p)"
  by (simp add: pruneStale_def Let_def same_commit_def same_fixed_def)

lemma admit_same: "same_commit p (snd (admit reg m p))"
  by (simp add: admit_def quarantine_def same_commit_def same_fixed_def)

text \<open>A prepared attempt: the set is the pruned one, the guards admitted the built manifest, and the
  generations were uploaded.\<close>

lemma prepare_Some:
  assumes "prepare env ck now p w = (Some a, p', w')"
  obtains w1 m gens where "w1 = snd (persistDistinct env ck p w)"
    and "p' = pruneStale now (fst (persistDistinct env ck p w))"
    and "build env now p' = (m, at_byNet a)"
    and "admit (pe_reg env) m p' = ((True, at_forced a), p')"
    and "serialize (pe_snap env) (p_networks p') (at_byNet a) m = Some (at_manifest a, gens)"
    and "upload (pe_snap env) gens w1 = (Some (at_uploaded a), w')"
proof -
  obtain p1 w1 where p1: "persistDistinct env ck p w = (p1, w1)" by (meson surj_pair)
  define p2 where "p2 = pruneStale now p1"
  obtain m byNet where b: "build env now p2 = (m, byNet)" by (meson surj_pair)
  obtain adm forced p3 where ad: "admit (pe_reg env) m p2 = ((adm, forced), p3)" by (metis surj_pair)
  have *: "(if \<not> adm then (None, p3, w1)
         else case serialize (pe_snap env) (p_networks p3) byNet m of
           None \<Rightarrow> (None, p3, w1)
         | Some (m, gens) \<Rightarrow>
             (case upload (pe_snap env) gens w1 of
                (None, w) \<Rightarrow> (None, p3, w)
              | (Some uploaded, w) \<Rightarrow>
                  (Some \<lparr>at_forced = forced, at_manifest = m, at_byNet = byNet, at_uploaded = uploaded\<rparr>, p3, w))) =
      (Some a, p', w')"
    using assms by (simp add: prepare_def Let_def p1 p2_def [symmetric] b ad)
  then have adm: "adm" by (simp split: if_splits)
  then have p3: "p3 = p2" using ad by (auto simp: admit_def split: if_splits)
  from * adm obtain m' gens where s: "serialize (pe_snap env) (p_networks p2) byNet m = Some (m', gens)"
    using p3 by (cases "serialize (pe_snap env) (p_networks p2) byNet m") auto
  obtain up w2 where u: "upload (pe_snap env) gens w1 = (up, w2)" by (meson surj_pair)
  from * adm p3 s u obtain ks where ks: "up = Some ks" by (cases up) auto
  have "a = \<lparr>at_forced = forced, at_manifest = m', at_byNet = byNet, at_uploaded = ks\<rparr>" "p' = p2" "w' = w2"
    using * adm p3 s u ks by auto
  then show ?thesis using that [of w1 m gens] p1 b ad adm p3 s u ks p2_def by simp
qed

lemma prepare_same:
  assumes "prepare env ck now p w = (r, p', w')"
  shows "same_commit p p'"
proof -
  obtain p1 w1 where p1: "persistDistinct env ck p w = (p1, w1)" by (meson surj_pair)
  define p2 where "p2 = pruneStale now p1"
  obtain m byNet where b: "build env now p2 = (m, byNet)" by (meson surj_pair)
  obtain adm forced p3 where ad: "admit (pe_reg env) m p2 = ((adm, forced), p3)" by (metis surj_pair)
  have "p' = p3"
    using assms
    by (auto simp: prepare_def Let_def p1 p2_def [symmetric] b ad split: if_splits option.splits prod.splits)
  moreover have "same_commit p p1" using persistDistinct_same [of p env ck w] p1 by simp
  moreover have "same_commit p1 p2" unfolding p2_def by (rule pruneStale_same)
  moreover have "same_commit p2 p3" using admit_same [of p2 "pe_reg env" m] ad by simp
  ultimately show ?thesis by (metis same_commit_trans)
qed

section \<open>The one-shot override\<close>

definition spent :: "publisher \<Rightarrow> bool" where
  "spent p \<longleftrightarrow> p_forceUsed p \<or> p_forcePending p"

lemma recordPublished_same: "same_commit p (fst (recordPublished env ck m byNet now p w))"
  by (auto simp: recordPublished_def Let_def same_commit_def same_fixed_def split: prod.splits if_splits)

lemma settle_force_spent: "spent p \<or> forced \<Longrightarrow> spent (settle_force forced p)"
  by (auto simp: spent_def settle_force_def)

lemma settle_force_fixed: "same_fixed p (settle_force forced p)" "p_prev (settle_force forced p) = p_prev p"
  by (simp_all add: settle_force_def same_fixed_def)

lemma recoverConflict_True:
  assumes "recoverConflict stored m forced p = (True, p')"
  shows "same_fixed p p' \<and> (spent p \<or> forced \<longrightarrow> spent p')"
  using assms settle_force_spent [of "p\<lparr>p_prev := stored\<rparr>" forced]
  by (auto simp: recoverConflict_def same_fixed_def settle_force_def spent_def split: option.splits if_splits)

lemma after_commit_spent:
  assumes "after_commit env ck forced m byNet up now outcome p w = (None, p', w')"
  shows "same_fixed p p' \<and> (spent p \<or> forced \<longrightarrow> spent p')"
proof -
  obtain e stored where o: "outcome = (e, stored)" by (meson surj_pair)
  show ?thesis
  proof (cases e)
    case None
    let ?q = "(settle_force forced (p\<lparr>p_prev := Some m\<rparr>))\<lparr>p_quarantines := 0\<rparr>"
    have "p' = fst (recordPublished env ck m byNet now ?q w)" using assms o None by (auto simp: after_commit_def)
    then have "same_commit ?q p'" using recordPublished_same by simp
    then show ?thesis
      by (auto simp: same_commit_def same_fixed_def settle_force_def spent_def)
  next
    case (Some x)
    show ?thesis
    proof (cases "is_conflict x")
      case True
      then have "x \<noteq> ErrManifestCompetitor" "recoverConflict stored m forced p = (True, p')"
        using assms o Some by (auto simp: after_commit_def split: if_splits prod.splits bool.splits)
      then show ?thesis using recoverConflict_True by blast
    next
      case False
      then show ?thesis using assms o Some by (auto simp: after_commit_def same_fixed_def spent_def split: if_splits)
    qed
  qed
qed

text \<open>One publish of a run starts from the state the previous one left, with whatever the crawl has made
  of the tracked set and the distinct state meanwhile.\<close>

record publish_input =
  pi_clock :: publish_clock
  pi_set :: nset
  pi_distinct :: DState
  pi_final :: bool

definition with_input :: "publish_input \<Rightarrow> publisher \<Rightarrow> publisher" where
  "with_input i p = p\<lparr>p_set := pi_set i, p_distinct := pi_distinct i, p_final := pi_final i\<rparr>"

text \<open>A publish that writes, or tries to write, a manifest which the shrink guard rejects.\<close>

definition shrunken_write :: "pub_env \<Rightarrow> publish_clock \<Rightarrow> publisher \<Rightarrow> world \<Rightarrow> bool" where
  "shrunken_write env ck p w =
     (case prepare env ck (generationTime (ck_now ck) p) p w of
        (None, _) \<Rightarrow> False
      | (Some a, p', _) \<Rightarrow>
          shrankTooMuch (pe_reg env) (p_prev p') (at_manifest a) (cf_maxCollapsePct (p_cfg p')) \<noteq> [])"

fun shrunken_writes :: "pub_env \<Rightarrow> publish_input list \<Rightarrow> publisher \<Rightarrow> world \<Rightarrow> nat" where
  "shrunken_writes env [] p w = 0"
| "shrunken_writes env (i # is) p w =
     (let q = with_input i p in
      of_bool (shrunken_write env (pi_clock i) q w) +
      (case Publish env (pi_clock i) q w of
         (None, p', w') \<Rightarrow> shrunken_writes env is p' w'
       | (Some _, _) \<Rightarrow> 0))"

text \<open>Serializing fills in digests and sizes; it keeps the counts the guards read.\<close>

definition guard_view :: "Manifest \<Rightarrow> (string \<times> (int \<times> int)) list" where
  "guard_view m = map (\<lambda>(n, ns). (n, (ns_NodeCount ns, ns_CurrentNodeCount ns))) (mf_Networks m)"

lemma map_of_guard_view:
  "map_of (guard_view m) n = map_option (\<lambda>ns. (ns_NodeCount ns, ns_CurrentNodeCount ns)) (map_of (mf_Networks m) n)"
  unfolding guard_view_def by (induction "mf_Networks m" arbitrary: m) (auto simp: map_of_map)

lemma shrank_loop_cong:
  assumes "\<And>n. map_of (guard_view m) n = map_of (guard_view m') n" and "mf_GeneratedAt m = mf_GeneratedAt m'"
  shows "shrank_loop reg prev m pct nets = shrank_loop reg prev m' pct nets"
proof (induction nets)
  case (Cons x nets)
  obtain n before where x: "x = (n, before)" by (cases x)
  from assms(1) [of n] show ?case
    by (cases "map_of (mf_Networks m) n"; cases "map_of (mf_Networks m') n") (simp_all add: x map_of_guard_view Cons assms(2))
qed simp

definition gen_entry :: "snapshot_env \<Rightarrow> (string, Row list) gomap \<Rightarrow> string \<Rightarrow> NetworkSnapshot \<Rightarrow> NetworkSnapshot" where
  "gen_entry env byNet n ns =
     (let data = the (se_parquet env (rows_of byNet n))
      in ns\<lparr>ns_SHA256 := hex_EncodeToString (sha256_Sum256 data), ns_Bytes := int (length data)\<rparr>)"

lemma gen_entry_fields [simp]:
  "ns_GenerationKey (gen_entry env byNet n ns) = ns_GenerationKey ns" "ns_NodeCount (gen_entry env byNet n ns) = ns_NodeCount ns"
  "ns_CurrentNodeCount (gen_entry env byNet n ns) = ns_CurrentNodeCount ns"
  "gen_entry env byNet n (gen_entry env byNet n ns) = gen_entry env byNet n ns"
  by (simp_all add: gen_entry_def Let_def)

lemma update_keys: "map_of m k \<noteq> None \<Longrightarrow> map fst (AList.update k v m) = map fst m"
  by (induction m) (auto split: if_splits)

lemma serialize_loop_spec:
  assumes "serialize_loop env byNet nets m gens = Some (m', gens')" and "\<forall>n\<in>set nets. map_of (mf_Networks m) n \<noteq> None"
  shows "m' = m\<lparr>mf_Networks := mf_Networks m'\<rparr> \<and> map fst (mf_Networks m') = map fst (mf_Networks m) \<and>
    (\<forall>n. map_of (mf_Networks m') n =
       (if n \<in> set nets then map_option (gen_entry env byNet n) (map_of (mf_Networks m) n) else map_of (mf_Networks m) n)) \<and>
    (\<forall>n\<in>set nets. se_parquet env (rows_of byNet n) \<noteq> None) \<and>
    map (\<lambda>g. (g_key g, g_data g)) gens' = map (\<lambda>g. (g_key g, g_data g)) gens @
      map (\<lambda>n. (ns_GenerationKey (the (map_of (mf_Networks m) n)), the (se_parquet env (rows_of byNet n)))) nets"
  using assms
proof (induction nets arbitrary: m gens)
  case (Cons n nets)
  obtain data where d: "se_parquet env (rows_of byNet n) = Some data" using Cons.prems(1) by (auto split: option.splits)
  obtain ns where ns: "map_of (mf_Networks m) n = Some ns" using Cons.prems(2) by auto
  define e where "e = gen_entry env byNet n ns"
  define m1 where "m1 = m\<lparr>mf_Networks := AList.update n e (mf_Networks m)\<rparr>"
  define g where "g = \<lparr>g_network = n, g_key = ns_GenerationKey ns, g_sum = ns_SHA256 e, g_data = data,
    g_count = ns_NodeCount ns, g_current = ns_CurrentNodeCount ns\<rparr>"
  have e: "e = ns\<lparr>ns_SHA256 := hex_EncodeToString (sha256_Sum256 data), ns_Bytes := int (length data)\<rparr>"
    by (simp add: e_def gen_entry_def d)
  have rec: "serialize_loop env byNet nets m1 (gens @ [g]) = Some (m', gens')"
    using Cons.prems(1) by (simp add: d ns Let_def m1_def g_def e)
  have look: "map_of (mf_Networks m1) k = (if k = n then Some e else map_of (mf_Networks m) k)" for k
    by (simp add: m1_def map_of_update)
  have keys: "map fst (mf_Networks m1) = map fst (mf_Networks m)" using ns by (simp add: m1_def update_keys)
  have "\<forall>k\<in>set nets. map_of (mf_Networks m1) k \<noteq> None" using Cons.prems(2) look by auto
  note IH = Cons.IH [OF rec this]
  have gk: "ns_GenerationKey (the (map_of (mf_Networks m1) k)) = ns_GenerationKey (the (map_of (mf_Networks m) k))" for k
    by (simp add: look ns e_def)
  have mm: "m' = m\<lparr>mf_Networks := mf_Networks m'\<rparr>" using IH by (simp add: m1_def)
  show ?case using IH mm keys d by (auto simp: look ns e_def gk g_def split: if_splits)
qed simp

lemma fold_update_map_of:
  "map_of (fold (\<lambda>n. AList.update n (f n)) nets m) k = (if k \<in> set nets then Some (f k) else map_of m k)"
  by (induction nets arbitrary: m) (auto simp: map_of_update)

lemma fold_update_ok: "gomap_ok m \<Longrightarrow> gomap_ok (fold (\<lambda>n. AList.update n (f n)) nets m)"
  by (induction nets arbitrary: m) (auto intro: gomap_ok_update)

definition built_entry :: "pub_env \<Rightarrow> gotime \<Rightarrow> (string, Row list) gomap \<Rightarrow> string \<Rightarrow> NetworkSnapshot" where
  "built_entry env now byNet n =
     \<lparr>ns_GenerationKey = GenerationKey (pe_layout env) n now, ns_NodeCount = int (length (rows_of byNet n)),
      ns_CurrentNodeCount = int (currentForkCount (pe_reg env) n (rows_of byNet n) now), ns_SHA256 = [], ns_Bytes = 0\<rparr>"

lemma build_spec:
  assumes "build env now p = (m, byNet)"
  shows "byNet = SnapshotNetworks (p_networks p) (p_set p) \<and>
    map_of (mf_Networks m) n = (if n \<in> set (p_networks p) then Some (built_entry env now byNet n) else None) \<and>
    gomap_ok (mf_Networks m) \<and> mf_GeneratedAt m = now \<and> mf_CrawlerID m = p_crawlerID p \<and> mf_Run m = p_run p \<and>
    mf_SchemaVersion m = SchemaVersion"
proof -
  have b: "byNet = SnapshotNetworks (p_networks p) (p_set p)"
    and m: "mf_Networks m = fold (\<lambda>n. AList.update n (built_entry env now byNet n)) (p_networks p) []"
      "mf_GeneratedAt m = now" "mf_CrawlerID m = p_crawlerID p" "mf_Run m = p_run p" "mf_SchemaVersion m = SchemaVersion"
    using assms by (auto simp: build_def Let_def built_entry_def)
  show ?thesis using b m by (simp add: fold_update_map_of fold_update_ok)
qed

text \<open>Everything the guards, the manifest and the upload of an attempt are known to be.\<close>

lemma prepare_manifest:
  assumes "prepare env ck now p w = (Some a, p', w')"
  defines "m \<equiv> at_manifest a" and "byNet \<equiv> at_byNet a"
  shows "byNet = SnapshotNetworks (p_networks p') (p_set p')"
    and "map_of (mf_Networks m) n = (if n \<in> set (p_networks p')
           then Some (gen_entry (pe_snap env) byNet n (built_entry env now byNet n)) else None)"
    and "n \<in> set (p_networks p') \<Longrightarrow> se_parquet (pe_snap env) (rows_of byNet n) \<noteq> None"
    and "gomap_ok (mf_Networks m)" and "mf_GeneratedAt m = now" and "mf_Run m = p_run p'" and "mf_CrawlerID m = p_crawlerID p'"
    and "mf_SchemaVersion m = SchemaVersion" and "Manifest_Validate (se_url (pe_snap env)) (pe_layout env) m = None"
    and "shrankTooMuch (pe_reg env) (p_prev p') m (cf_maxCollapsePct (p_cfg p')) \<noteq> [] \<longleftrightarrow> at_forced a"
    and "at_forced a \<Longrightarrow> cf_forcePublish (p_cfg p') \<and> \<not> spent p'"
    and "belowFloor m (p_networks p') (cf_minCurrentNodes (p_cfg p')) = []"
    and "\<exists>gens. upload (pe_snap env) gens (snd (persistDistinct env ck p w)) = (Some (at_uploaded a), w') \<and>
           map (\<lambda>g. (g_key g, g_data g)) gens =
             map (\<lambda>n. (GenerationKey (pe_layout env) n now, the (se_parquet (pe_snap env) (rows_of byNet n)))) (p_networks p')"
proof -
  obtain m0 gens where b: "build env now p' = (m0, byNet)" and ad: "admit (pe_reg env) m0 p' = ((True, at_forced a), p')"
    and s: "serialize (pe_snap env) (p_networks p') byNet m0 = Some (m, gens)"
    and u: "upload (pe_snap env) gens (snd (persistDistinct env ck p w)) = (Some (at_uploaded a), w')"
    unfolding m_def byNet_def by (rule prepare_Some [OF assms(1)]) blast
  note bs = build_spec [OF b]
  have s': "serialize_loop (pe_snap env) byNet (p_networks p') m0 [] = Some (m, gens)"
    and v: "Manifest_Validate (se_url (pe_snap env)) (pe_layout env) m = None"
    using s by (auto simp: serialize_def split: option.splits if_splits)
  have "\<forall>n\<in>set (p_networks p'). map_of (mf_Networks m0) n \<noteq> None" using bs by simp
  note ss = serialize_loop_spec [OF s' this]
  have look: "map_of (mf_Networks m) n = (if n \<in> set (p_networks p')
           then Some (gen_entry (pe_snap env) byNet n (built_entry env now byNet n)) else None)" for n
    using ss bs [of n] by simp
  have fields: "mf_GeneratedAt m = mf_GeneratedAt m0" "mf_Run m = mf_Run m0" "mf_CrawlerID m = mf_CrawlerID m0"
    "mf_SchemaVersion m = mf_SchemaVersion m0"
    using arg_cong [OF conjunct1 [OF ss], of mf_GeneratedAt] arg_cong [OF conjunct1 [OF ss], of mf_Run]
      arg_cong [OF conjunct1 [OF ss], of mf_CrawlerID] arg_cong [OF conjunct1 [OF ss], of mf_SchemaVersion] by simp_all
  have gv: "map_of (guard_view m) n = map_of (guard_view m0) n" for n
    using bs [of n] by (simp add: map_of_guard_view look)
  show "byNet = SnapshotNetworks (p_networks p') (p_set p')" using bs by blast
  show "map_of (mf_Networks m) n = (if n \<in> set (p_networks p')
           then Some (gen_entry (pe_snap env) byNet n (built_entry env now byNet n)) else None)" by (rule look)
  show "n \<in> set (p_networks p') \<Longrightarrow> se_parquet (pe_snap env) (rows_of byNet n) \<noteq> None" using ss by blast
  show "gomap_ok (mf_Networks m)" using ss bs by (simp add: gomap_ok_def)
  show "mf_GeneratedAt m = now" "mf_Run m = p_run p'" "mf_CrawlerID m = p_crawlerID p'" "mf_SchemaVersion m = SchemaVersion"
    using fields bs by simp_all
  show "Manifest_Validate (se_url (pe_snap env)) (pe_layout env) m = None" by (rule v)
  have sh: "shrankTooMuch (pe_reg env) (p_prev p') m pct = shrankTooMuch (pe_reg env) (p_prev p') m0 pct" for pct
    using shrank_loop_cong [of m m0, OF gv fields(1)] by (auto simp: shrankTooMuch_def split: option.splits)
  show "shrankTooMuch (pe_reg env) (p_prev p') m (cf_maxCollapsePct (p_cfg p')) \<noteq> [] \<longleftrightarrow> at_forced a"
    and "at_forced a \<Longrightarrow> cf_forcePublish (p_cfg p') \<and> \<not> spent p'"
    using ad unfolding sh by (auto simp: admit_def spent_def split: if_splits)
  have "belowFloor m nets k = belowFloor m0 nets k" for nets k
  proof -
    have "(case map_of (mf_Networks m) n of None \<Rightarrow> 0 | Some ns \<Rightarrow> ns_CurrentNodeCount ns) =
        (case map_of (mf_Networks m0) n of None \<Rightarrow> 0 | Some ns \<Rightarrow> ns_CurrentNodeCount ns)" for n
      using bs [of n] by (simp add: look)
    then show ?thesis by (simp add: belowFloor_def)
  qed
  then show "belowFloor m (p_networks p') (cf_minCurrentNodes (p_cfg p')) = []"
    using ad by (auto simp: admit_def split: if_splits)
  have "map (\<lambda>g. (g_key g, g_data g)) gens =
      map (\<lambda>n. (GenerationKey (pe_layout env) n now, the (se_parquet (pe_snap env) (rows_of byNet n)))) (p_networks p')"
    using ss bs by (auto simp: built_entry_def)
  with u show "\<exists>gens. upload (pe_snap env) gens (snd (persistDistinct env ck p w)) = (Some (at_uploaded a), w') \<and>
           map (\<lambda>g. (g_key g, g_data g)) gens =
             map (\<lambda>n. (GenerationKey (pe_layout env) n now, the (se_parquet (pe_snap env) (rows_of byNet n)))) (p_networks p')"
    by blast
qed

lemma Publish_prepare:
  "Publish env ck p w =
     (case prepare env ck (generationTime (ck_now ck) p) p w of
        (None, p, w) \<Rightarrow> (None, p, w)
      | (Some a, p, w) \<Rightarrow>
          after_commit env ck (at_forced a) (at_manifest a) (at_byNet a) (at_uploaded a) (generationTime (ck_now ck) p)
            (fst (commit (pe_snap env) (p_prev p) (at_manifest a) w)) p (snd (commit (pe_snap env) (p_prev p) (at_manifest a) w)))"
proof -
  have "generationTime t q = generationTime t p" if "prepare env ck now p w = (r, q, w')" for t q now r w'
    using prepare_same [OF that] by (simp add: generationTime_def same_commit_def)
  then show ?thesis unfolding Publish_def Let_def by (auto split: prod.splits option.splits)
qed

lemma Publish_spent:
  assumes "Publish env ck p w = (None, p', w')"
  shows "p_cfg p' = p_cfg p" and "spent p \<or> shrunken_write env ck p w \<Longrightarrow> spent p'"
proof -
  obtain r q w1 where pr: "prepare env ck (generationTime (ck_now ck) p) p w = (r, q, w1)" by (metis surj_pair)
  have same: "same_commit p q" by (rule prepare_same [OF pr])
  then have sp: "spent q = spent p" "p_cfg q = p_cfg p" by (simp_all add: same_commit_def same_fixed_def spent_def)
  have "p_cfg p' = p_cfg p \<and> (spent p \<or> shrunken_write env ck p w \<longrightarrow> spent p')"
  proof (cases r)
    case None
    then have "p' = q" "\<not> shrunken_write env ck p w" using assms pr by (simp_all add: Publish_prepare shrunken_write_def)
    then show ?thesis using sp by simp
  next
    case (Some a)
    note pm = prepare_manifest [OF pr [unfolded Some]]
    have sw: "shrunken_write env ck p w \<longleftrightarrow> at_forced a" using pr Some pm(10) by (simp add: shrunken_write_def)
    have "same_fixed q p' \<and> (spent q \<or> at_forced a \<longrightarrow> spent p')"
      using assms pr Some by (intro after_commit_spent) (auto simp: Publish_prepare)
    then show ?thesis using sw sp by (auto simp: same_fixed_def)
  qed
  then show "p_cfg p' = p_cfg p" "spent p \<or> shrunken_write env ck p w \<Longrightarrow> spent p'" by blast+
qed

lemma shrunken_write_unspent:
  assumes "shrunken_write env ck p w"
  shows "cf_forcePublish (p_cfg p) \<and> \<not> spent p"
proof -
  obtain r q w1 where pr: "prepare env ck (generationTime (ck_now ck) p) p w = (r, q, w1)" by (metis surj_pair)
  then obtain a where a: "r = Some a" using assms by (cases r) (auto simp: shrunken_write_def)
  note pm = prepare_manifest [OF pr [unfolded a]]
  have "at_forced a" using assms pr a pm(10) by (simp add: shrunken_write_def)
  with pm(11) prepare_same [OF pr] show ?thesis by (simp add: same_commit_def same_fixed_def spent_def)
qed

lemma with_input_same [simp]: "p_cfg (with_input i p) = p_cfg p" "spent (with_input i p) = spent p"
  by (simp_all add: with_input_def spent_def)

lemma spent_no_shrunken: "spent p \<or> \<not> cf_forcePublish (p_cfg p) \<Longrightarrow> shrunken_writes env is p w = 0"
proof (induction "is" arbitrary: p w)
  case (Cons i "is")
  let ?q = "with_input i p"
  have "\<not> shrunken_write env (pi_clock i) ?q w"
    using shrunken_write_unspent [of env "pi_clock i" ?q w] Cons.prems by auto
  moreover have "shrunken_writes env is p' w' = 0" if "Publish env (pi_clock i) ?q w = (None, p', w')" for p' w'
    using Publish_spent(1,2) [OF that] Cons.prems by (intro Cons.IH) auto
  ultimately show ?case by (auto simp: Let_def split: prod.splits option.splits)
qed simp

text \<open>C5: Over any run of publishes, whatever the store does meanwhile, a manifest that the shrink guard
  rejects is written, or attempted, at most once, and never without the operator's override.\<close>

theorem force_publish_spent_once:
  "shrunken_writes env is p w \<le> of_bool (cf_forcePublish (p_cfg p))"
proof (induction "is" arbitrary: p w)
  case (Cons i "is")
  let ?q = "with_input i p"
  obtain r p' w' where pub: "Publish env (pi_clock i) ?q w = (r, p', w')" by (metis surj_pair)
  show ?case
  proof (cases "shrunken_write env (pi_clock i) ?q w")
    case True
    have "shrunken_writes env is p' w' = 0" if "r = None"
      using Publish_spent(2) [OF pub [unfolded that]] True by (intro spent_no_shrunken) simp
    then show ?thesis using True shrunken_write_unspent [OF True] pub by (cases r) (auto simp: Let_def)
  next
    case False
    have "shrunken_writes env is p' w' \<le> of_bool (cf_forcePublish (p_cfg p))" if "r = None"
      using Publish_spent(1) [OF pub [unfolded that]] Cons.IH [of p' w'] by simp
    then show ?thesis using False pub by (cases r) (auto simp: Let_def)
  qed
qed simp

end
