(* ===== verification/PublishedRows.thy ===== *)
theory PublishedRows
  imports PublisherProps
begin

text \<open>
  The snapshot a reader sees. In a store nobody else touches, an attempt commits, the side outputs and
  the retention sweep leave the manifest and its generations alone, and the manifest and every
  network's rows load back. Object keys are kept apart by their shape: a manifest, a generation, an
  aggregate, a readiness history and the distinct state never share one.
\<close>

section \<open>Objects a call keeps\<close>

text \<open>Listed keys are cleaned paths, so deleting a listed key deletes that object.\<close>

definition world_ok :: "world \<Rightarrow> bool" where
  "world_ok w \<longleftrightarrow> quiet w \<and> (\<forall>k. object w k \<noteq> None \<longrightarrow> safeRelPath k = Some k)"

definition keeps :: "string set \<Rightarrow> world \<Rightarrow> world \<Rightarrow> bool" where
  "keeps K w w' \<longleftrightarrow> (world_ok w \<longrightarrow> world_ok w' \<and> (\<forall>k\<in>K. object w' k = object w k))"

lemma keeps_refl [simp, intro]: "keeps K w w"
  by (simp add: keeps_def)

lemma keeps_trans: "keeps K w w1 \<Longrightarrow> keeps K w1 w2 \<Longrightarrow> keeps K w w2"
  by (simp add: keeps_def)

lemma safeRelPath_idem: "safeRelPath key = Some rel \<Longrightarrow> safeRelPath rel = Some rel"
  using object_path_confined by blast

lemma world_ok_put: "world_ok w \<Longrightarrow> safeRelPath key = Some rel \<Longrightarrow> world_ok (put_object rel d w)"
  by (auto simp: world_ok_def safeRelPath_idem)

lemma world_ok_del: "world_ok w \<Longrightarrow> world_ok (del_object k w)"
  by (auto simp: world_ok_def)

lemma world_ok_quiet: "world_ok w \<Longrightarrow> quiet w"
  by (simp add: world_ok_def)

lemma keeps_Put:
  assumes "\<And>rel. safeRelPath key = Some rel \<Longrightarrow> rel \<notin> K"
  shows "keeps K w (snd (store_Put key d w))"
  using assms by (auto simp: keeps_def store_Put_def world_ok_put world_ok_quiet split: option.splits)

lemma keeps_Get: "keeps K w (snd (store_Get key w))"
  by (auto simp: keeps_def store_Get_def world_ok_quiet split: option.splits)

lemma keeps_Delete:
  assumes "\<And>rel. safeRelPath key = Some rel \<Longrightarrow> rel \<notin> K"
  shows "keeps K w (snd (store_Delete key w))"
  using assms by (auto simp: keeps_def store_Delete_def world_ok_del world_ok_quiet split: option.splits)

lemma keeps_List:
  assumes "store_List prfx w = (r, w')"
  shows "keeps K w w'" and "world_ok w \<Longrightarrow> r = Inr keys \<Longrightarrow> k \<in> set keys \<Longrightarrow> safeRelPath k = Some k"
proof -
  have "w' = w" if "world_ok w" using assms that by (auto simp: store_List_def world_ok_quiet split: if_splits)
  then show "keeps K w w'" by (auto simp: keeps_def)
  assume "world_ok w" "r = Inr keys" "k \<in> set keys"
  then have "k \<in> fst ` set (w_objects w)" using assms by (auto simp: store_List_def world_ok_quiet split: if_splits)
  then have "object w k \<noteq> None" by (auto simp: object_def map_of_eq_None_iff)
  then show "safeRelPath k = Some k" using \<open>world_ok w\<close> by (simp add: world_ok_def)
qed

lemma keeps_delete_keys:
  assumes "\<And>key rel. key \<in> set keys \<Longrightarrow> safeRelPath key = Some rel \<Longrightarrow> rel \<notin> K"
  shows "keeps K w (delete_keys keys w)"
  using assms
proof (induction keys arbitrary: w)
  case (Cons key keys)
  have "keeps K w (snd (store_Delete key w))" by (rule keeps_Delete) (use Cons.prems in auto)
  moreover have "keeps K (snd (store_Delete key w)) (delete_keys keys (snd (store_Delete key w)))"
    by (rule Cons.IH) (use Cons.prems in auto)
  ultimately show ?case by (auto simp: delete_keys_def intro: keeps_trans)
qed (simp add: delete_keys_def)

section \<open>Keys keep apart\<close>

definition plain_path :: "string \<Rightarrow> bool" where
  "plain_path s \<longleftrightarrow> list_all plain_part (split_on (CHR ''/'') s)"

lemma split_on_join: "split_on c (a @ c # b) = split_on c a @ split_on c b"
proof (induction a)
  case (Cons x a)
  have "split_on c a \<noteq> []" by (cases a) (auto split: list.splits)
  with Cons show ?case by (cases "split_on c a") auto
qed simp

lemma plain_path_join: "plain_path a \<Longrightarrow> plain_path b \<Longrightarrow> plain_path (a @ CHR ''/'' # b)"
  by (simp add: plain_path_def split_on_join)

lemma plain_path_part: "plain_part s \<Longrightarrow> plain_path s"
  by (simp add: plain_path_def plain_part_def split_on_free)

lemma plain_path_rel: "plain_path key \<Longrightarrow> safeRelPath key = Some rel \<longleftrightarrow> rel = key"
  using plain_safeRelPath [of key] by (auto simp: plain_path_def)

lemma plain_path_no_trailing: "plain_path s \<Longrightarrow> strings_TrimSuffix s ''/'' = s"
proof -
  assume p: "plain_path s"
  have "\<not> has_suffix s ''/''"
  proof
    assume "has_suffix s ''/''"
    then obtain r where "s = r @ ''/''" by (auto simp: has_suffix_def is_prefix_append_iff)
    with p show False by (simp add: plain_path_def split_on_join plain_part_def)
  qed
  then show ?thesis by (simp add: strings_TrimSuffix_def)
qed

lemma plain_file:
  assumes "CHR ''/'' \<notin> set s" and "CHR ''/'' \<notin> set ext" and "2 < length ext"
  shows "plain_part (s @ ext)"
proof -
  have "length (s @ ext) > 2" using assms(3) by simp
  then have "s @ ext \<notin> {[], ''.'', ''..''}" by (auto simp del: length_append)
  then show ?thesis using assms(1,2) by (simp add: plain_part_def)
qed

lemma component_plain: "ValidComponent s \<Longrightarrow> plain_part s"
  using component_no_slash [of s]
  by (auto simp: ValidComponent_def plain_part_def component_char_def Let_def)

lemma segment_plain: "keySegment s \<Longrightarrow> plain_part s"
  by (cases s) (auto simp: keySegment_def plain_part_def lower_alnum_def Let_def list_all_iff)

lemma digit_char_no_slash: "digit_char (n mod 10) \<noteq> CHR ''/''"
proof
  assume "digit_char (n mod 10) = CHR ''/''"
  then have "of_char (digit_char (n mod 10)) = (of_char (CHR ''/'') :: nat)" by simp
  moreover have "48 + n mod 10 < 256" using mod_less_divisor [of 10 n] by linarith
  ultimately show False by (simp add: digit_char_def)
qed

lemma fix_digits_no_slash: "CHR ''/'' \<notin> set (fix_digits w n)"
  by (induction w arbitrary: n) (use digit_char_no_slash in \<open>auto simp: eq_commute\<close>)

lemma time_Format_no_slash: "Lit (CHR ''/'') \<notin> set layout \<Longrightarrow> CHR ''/'' \<notin> set (time_Format layout t)"
  by (auto simp: time_Format_def format_chunk_def split: chunk.splits dest: fix_digits_no_slash [THEN notE, rotated])

definition snapshot_keys :: "Layout \<Rightarrow> gotime \<Rightarrow> string list \<Rightarrow> string set" where
  "snapshot_keys l now nets = insert (ManifestKey l) ((\<lambda>n. GenerationKey l n now) ` set nets)"

lemma last_ext: "ext \<noteq> [] \<Longrightarrow> last (s @ ext) = last ext"
  by simp

lemma last_GenerationKey: "last (GenerationKey l n t) = CHR ''t''"
  by (simp add: GenerationKey_def)

text \<open>A side object under the prefix that is no Parquet file and does not begin like the manifest.\<close>

lemma side_key_apart:
  assumes "key = ly_prefix l @ CHR ''/'' # c # r" and "c \<noteq> CHR ''m''" and "last key \<noteq> CHR ''t''"
  shows "key \<notin> snapshot_keys l now nets"
proof -
  have "key \<noteq> ManifestKey l" using assms(1,2) by (simp add: ManifestKey_def)
  moreover have "key \<noteq> GenerationKey l n now" for n using assms(3) last_GenerationKey [of l n now] by metis
  ultimately show ?thesis by (auto simp: snapshot_keys_def)
qed

lemma manifest_not_generation: "GenerationTime l n (ManifestKey l) = None"
proof -
  have "\<not> has_suffix (ManifestKey l) ''.parquet''" by (simp add: has_suffix_def ManifestKey_def)
  then show ?thesis by (simp add: GenerationTime_def Let_def)
qed

lemma aggregateKey_apart:
  assumes "plain_path (ly_prefix l)" and "ValidComponent mid"
    and "safeRelPath (aggregateKey (ly_prefix l) mid t) = Some rel"
  shows "rel \<notin> snapshot_keys l now nets"
proof -
  let ?f = "time_Format aggregateTimeFormat t @ ''.json''"
  have "plain_part ?f" by (intro plain_file time_Format_no_slash) (simp_all add: aggregateTimeFormat_def)
  then have "plain_path (ly_prefix l @ CHR ''/'' # ''aggregates'' @ CHR ''/'' # mid @ CHR ''/'' # ?f)"
    by (intro plain_path_join assms(1) plain_path_part component_plain [OF assms(2)]) (simp_all add: plain_part_def)
  then have rel: "rel = ly_prefix l @ CHR ''/'' # CHR ''a'' # ''ggregates/'' @ mid @ CHR ''/'' # ?f"
    using assms(3) plain_path_rel by (simp add: aggregateKey_def aggregatePrefix_def)
  from side_key_apart [OF rel] show ?thesis unfolding rel by (simp add: last_append)
qed

lemma aggregateTime_apart:
  assumes "aggregateTime (ly_prefix l) key \<noteq> None"
  shows "key \<notin> snapshot_keys l now nets"
proof -
  obtain rest r where key: "key = ly_prefix l @ CHR ''/'' # CHR ''a'' # ''ggregates/'' @ rest" and "rest = r @ ''.json''"
    using assms by (auto simp: aggregateTime_def aggregatePrefix_def Let_def is_prefix_append_iff has_suffix_def split: if_splits)
  then show ?thesis by (intro side_key_apart [OF key]) (simp_all add: last_append)
qed

lemma readiness_apart:
  assumes "plain_path (ly_prefix l)" and "ReadinessHistoryKey l n f = Some key" and "safeRelPath key = Some rel"
  shows "rel \<notin> snapshot_keys l now nets"
proof -
  let ?f = "strings_ToLower f"
  have seg: "keySegment n" "keySegment ?f"
    and key: "key = ly_prefix l @ ''/state/readiness/'' @ n @ ''/'' @ ?f @ ''.json''"
    using assms(2) plain_path_no_trailing [OF assms(1)] by (auto simp: ReadinessHistoryKey_def Let_def split: if_splits)
  have "CHR ''/'' \<notin> set ?f" using segment_plain [OF seg(2)] by (simp add: plain_part_def)
  then have "plain_part (?f @ ''.json'')" by (intro plain_file) simp_all
  then have "plain_path (ly_prefix l @ CHR ''/'' # ''state'' @ CHR ''/'' # ''readiness'' @ CHR ''/'' # n @ CHR ''/'' # (?f @ ''.json''))"
    by (intro plain_path_join assms(1) plain_path_part segment_plain [OF seg(1)]) (simp_all add: plain_part_def)
  then have rel: "rel = ly_prefix l @ CHR ''/'' # CHR ''s'' # ''tate/readiness/'' @ n @ CHR ''/'' # ?f @ ''.json''"
    using assms(3) plain_path_rel by (simp add: key)
  from side_key_apart [OF rel] show ?thesis unfolding rel by (simp add: last_append)
qed

section \<open>Side outputs keep the snapshot\<close>

lemma keeps_pruneAggregates: "keeps (snapshot_keys l now nets) w (pruneAggregates (ly_prefix l) age t w)"
proof (cases "age \<le> 0")
  case False
  obtain r w1 where ls: "store_List (aggregatePrefix (ly_prefix l) @ ''/'') w = (r, w1)" by (meson surj_pair)
  have keep: "keeps K w w1" for K by (rule keeps_List(1) [OF ls])
  show ?thesis
  proof (cases r)
    case (Inl e)
    then show ?thesis using False ls keep by (simp add: pruneAggregates_def)
  next
    case (Inr keys)
    let ?del = "filter (\<lambda>key. case aggregateTime (ly_prefix l) key of None \<Rightarrow> False | Some at \<Rightarrow> at < time_Add t (- age)) keys"
    have "keeps (snapshot_keys l now nets) w1 (delete_keys ?del w1)" if "world_ok w"
    proof (rule keeps_delete_keys)
      fix key rel assume k: "key \<in> set ?del" "safeRelPath key = Some rel"
      then have "rel = key" using keeps_List(2) [OF ls that Inr, of key] by simp
      moreover have "aggregateTime (ly_prefix l) key \<noteq> None" using k(1) by (auto split: option.splits)
      ultimately show "rel \<notin> snapshot_keys l now nets" using aggregateTime_apart by blast
    qed
    then have "keeps (snapshot_keys l now nets) w (delete_keys ?del w1)" using keep keeps_trans by (auto simp: keeps_def)
    then show ?thesis using False ls Inr by (simp add: pruneAggregates_def)
  qed
qed (simp add: pruneAggregates_def)

lemma keeps_append_point:
  assumes "\<And>rel. safeRelPath key = Some rel \<Longrightarrow> rel \<notin> K"
  shows "keeps K w (snd (append_point hc key p interval now h w))"
  using keeps_Put [of key K w, OF assms] by (auto simp: append_point_def Let_def split: prod.splits bool.splits option.splits)

lemma keeps_record_network:
  assumes "plain_path (ly_prefix l)"
  shows "keeps (snapshot_keys l t nets) w (snd (record_network reg l hc rs now lst network w))"
proof -
  let ?K = "snapshot_keys l t nets"
  have "keeps ?K w (snd (apfst Some (append_point hc key p i now h (snd (store_Get key w)))))"
    if "ReadinessHistoryKey l network f = Some key" for key p i h f
    using keeps_append_point [of key ?K "snd (store_Get key w)" hc p i now h] readiness_apart [OF assms that]
      keeps_trans [OF keeps_Get [of ?K w key]] by simp
  then show ?thesis
    using keeps_Get [of ?K w] unfolding record_network_def Let_def
    by (auto split: sum.splits option.splits if_splits prod.splits storeError.splits) (metis snd_conv)+
qed

lemma keeps_recordReadiness:
  assumes "plain_path (ly_prefix l)"
  shows "keeps (snapshot_keys l t ns) w (snd (recordReadiness reg l hc nets byNet now (at, w)))"
proof (induction nets arbitrary: at w)
  case (Cons n nets)
  let ?r = "record_network reg l hc (case map_of byNet n of None \<Rightarrow> [] | Some rs \<Rightarrow> rs) now (map_of at n) n w"
  obtain at' where "recordReadiness reg l hc (n # nets) byNet now (at, w) = recordReadiness reg l hc nets byNet now (at', snd ?r)"
    by (cases ?r; cases "fst ?r") (auto simp: recordReadiness_def)
  then show ?case using keeps_trans [OF keeps_record_network [OF assms]] Cons.IH by metis
qed (simp add: recordReadiness_def)

section \<open>Retention\<close>

lemma store_Delete_ok:
  "world_ok w \<Longrightarrow> safeRelPath k = Some k \<Longrightarrow> store_Delete k w = (None, del_object k w)"
  by (simp add: store_Delete_def world_ok_quiet)

lemma prune_loop_exact:
  assumes "world_ok w" and "\<forall>k\<in>set ks. safeRelPath k = Some k"
  shows "world_ok (prune_loop prot n ks w) \<and>
    object (prune_loop prot n ks w) x = (if x \<in> set (take n (filter (\<lambda>k. k \<noteq> prot) ks)) then None else object w x)"
  using assms
proof (induction ks arbitrary: n w)
  case (Cons k ks)
  show ?case
  proof (cases "n = 0 \<or> k = prot")
    case True
    then show ?thesis using Cons.IH [of w n] Cons.prems by auto
  next
    case False
    then obtain j where j: "n = Suc j" by (cases n) auto
    have "prune_loop prot n (k # ks) w = prune_loop prot j ks (del_object k w)"
      using False Cons.prems by (simp add: j store_Delete_ok)
    then show ?thesis using Cons.IH [of "del_object k w" j] Cons.prems False world_ok_del [OF Cons.prems(1), of k]
      by (simp add: j)
  qed
qed simp

definition stored_generations :: "Layout \<Rightarrow> string \<Rightarrow> world \<Rightarrow> string set" where
  "stored_generations l net w = {k. object w k \<noteq> None \<and> IsGenerationKey l net k}"

lemma path_Dir_prefix:
  assumes "plain_path s"
  shows "path_Dir (s @ ''/'') = s"
proof -
  have ne: "split_on (CHR ''/'') s \<noteq> []" by (cases s) (auto split: list.splits)
  have hd: "plain_part (hd (split_on (CHR ''/'') s))"
    using assms ne by (cases "split_on (CHR ''/'') s") (auto simp: plain_path_def)
  have "s \<noteq> []" using hd by (auto simp: plain_part_def)
  moreover have "\<not> is_prefix ''/'' s" using hd by (auto simp: is_prefix_append_iff plain_part_def)
  ultimately have "\<not> path_rooted (s @ ''/'')" by (cases s) (auto simp: path_rooted_def)
  moreover have "foldl (clean_step False) [] (split_on (CHR ''/'') s @ [[]]) = split_on (CHR ''/'') s"
    using assms clean_plain_parts [of "split_on (CHR ''/'') s" False "[]"] by (simp add: plain_path_def clean_step_def)
  ultimately have "path_Clean (s @ ''/'') = s"
    using intercalate_split_on [of "CHR ''/''" s] split_on_join [of "CHR ''/''" s "[]"] \<open>s \<noteq> []\<close>
    by (simp add: path_Clean_def clean_parts_def Let_def)
  then show ?thesis by (simp add: path_Dir_def)
qed

lemma has_suffix_clash: "has_suffix s a \<Longrightarrow> has_suffix s b \<Longrightarrow> a \<noteq> [] \<Longrightarrow> b \<noteq> [] \<Longrightarrow> last a = last b"
  by (cases a rule: rev_cases; cases b rule: rev_cases) (auto simp: has_suffix_def is_prefix_append_iff)

lemma list_generations:
  assumes "world_ok w" and "gomap_ok (w_objects w)" and "plain_path (ly_prefix l)" and "ValidComponent net"
  obtains keys where "store_List (NetworkPrefix l net) w = (Inr keys, w)"
    and "set (filter (IsGenerationKey l net) keys) = stored_generations l net w" and "distinct (filter (IsGenerationKey l net) keys)"
proof -
  let ?p = "NetworkPrefix l net"
  let ?keys = "filter (\<lambda>k. is_prefix ?p k \<and> \<not> has_suffix k ''.tmp'' \<and> \<not> has_suffix k ''.lock'') (map fst (w_objects w))"
  have plain: "plain_path (ly_prefix l @ CHR ''/'' # net)"
    by (intro plain_path_join assms(3) plain_path_part component_plain assms(4))
  then have dir: "path_Dir ?p = ly_prefix l @ CHR ''/'' # net" using path_Dir_prefix [OF plain] by (simp add: NetworkPrefix_def)
  have "store_List ?p w = (Inr ?keys, w)"
    using assms(1) plain_path_rel [OF plain] by (simp add: store_List_def dir world_ok_quiet)
  moreover have "set (filter (IsGenerationKey l net) ?keys) = stored_generations l net w"
  proof -
    have "is_prefix ?p k \<and> \<not> has_suffix k ''.tmp'' \<and> \<not> has_suffix k ''.lock''" if "IsGenerationKey l net k" for k
      using that has_suffix_clash [of k "''.parquet''" "''.tmp''"] has_suffix_clash [of k "''.parquet''" "''.lock''"]
      by (auto simp: IsGenerationKey_def GenerationTime_def Let_def split: if_splits)
    moreover have "k \<in> fst ` set (w_objects w) \<longleftrightarrow> object w k \<noteq> None" for k
      by (simp add: object_def map_of_eq_None_iff)
    ultimately show ?thesis by (auto simp: stored_generations_def)
  qed
  moreover have "distinct (filter (IsGenerationKey l net) ?keys)" using assms(2) by (simp add: gomap_ok_def)
  ultimately show ?thesis using that by blast
qed

lemma sort_generations_facts:
  "set (sort_generations l net ks) = set ks" "distinct ks \<Longrightarrow> distinct (sort_generations l net ks)"
  "sorted (map (\<lambda>k. the (GenerationTime l net k)) (sort_generations l net ks))"
  "length (sort_generations l net ks) = length ks"
  by (simp_all add: sort_generations_def)

lemma take_filter_sorted:
  assumes "sorted (map f xs)" and "a \<in> set (take n (filter P xs))" and "b \<in> set (filter P xs) - set (take n (filter P xs))"
  shows "f a \<le> f b"
proof -
  have s: "sorted (map f (filter P xs))" using assms(1) by (rule sorted_filter)
  then have "sorted (map f (take n (filter P xs)) @ map f (drop n (filter P xs)))"
    by (simp flip: map_append)
  moreover have "b \<in> set (drop n (filter P xs))"
    using assms(3) append_take_drop_id [of n "filter P xs"] by (metis DiffE UnE set_append)
  ultimately show ?thesis using assms(2) by (simp add: sorted_append)
qed

text \<open>What the sweep of one network leaves, as a set.\<close>

lemma prune_network_exact:
  assumes "world_ok w" and "gomap_ok (w_objects w)" and "plain_path (ly_prefix l)" and "ValidComponent net" and "0 < keep"
    and "map_of (mf_Networks m) net = Some ns"
  obtains D where "D \<subseteq> stored_generations l net w - {ns_GenerationKey ns}"
    and "world_ok (prune_network l keep m net w)"
    and "\<And>x. object (prune_network l keep m net w) x = (if x \<in> D then None else object w x)"
    and "ns_GenerationKey ns \<in> stored_generations l net w \<Longrightarrow> card D = card (stored_generations l net w) - nat keep"
    and "\<And>d k. d \<in> D \<Longrightarrow> k \<in> stored_generations l net w - D - {ns_GenerationKey ns} \<Longrightarrow>
           the (GenerationTime l net d) \<le> the (GenerationTime l net k)"
proof -
  obtain keys where ls: "store_List (NetworkPrefix l net) w = (Inr keys, w)"
    and set: "set (filter (IsGenerationKey l net) keys) = stored_generations l net w"
    and dist: "distinct (filter (IsGenerationKey l net) keys)"
    by (rule list_generations [OF assms(1-4)])
  define ps where "ps = filter (IsGenerationKey l net) keys"
  define prot where "prot = ns_GenerationKey ns"
  define others where "others = filter (\<lambda>k. k \<noteq> prot) (sort_generations l net ps)"
  define D where "D = set (take (length ps - nat keep) others)"
  have card: "card (stored_generations l net w) = length ps" using set dist distinct_card [of ps] by (simp add: ps_def)
  have others: "set others = stored_generations l net w - {prot}" "distinct others"
    using set dist by (auto simp: others_def sort_generations_facts ps_def)
  have safe: "\<forall>k\<in>set (sort_generations l net ps). safeRelPath k = Some k"
    using keeps_List(2) [OF ls assms(1) refl] by (auto simp: sort_generations_facts ps_def)
  have res: "prune_network l keep m net w = (if int (length ps) \<le> keep then w
      else prune_loop prot (length ps - nat keep) (sort_generations l net ps) w)"
    by (simp add: prune_network_def ls Let_def ps_def assms(6) prot_def)
  have small: "D = {}" if "int (length ps) \<le> keep" using that by (simp add: D_def nat_le_iff)
  note loop = prune_loop_exact [OF assms(1) safe, of prot "length ps - nat keep"]
  show ?thesis
  proof (rule that [of D])
    show "D \<subseteq> stored_generations l net w - {ns_GenerationKey ns}"
      using others(1) set_take_subset [of "length ps - nat keep" others] by (auto simp: D_def prot_def)
    show "world_ok (prune_network l keep m net w)" using loop assms(1) by (simp add: res)
    show "object (prune_network l keep m net w) x = (if x \<in> D then None else object w x)" for x
      using loop small by (auto simp: res D_def others_def)
    show "card D = card (stored_generations l net w) - nat keep" if "ns_GenerationKey ns \<in> stored_generations l net w"
    proof -
      have "length others = length ps - 1"
        using others that card distinct_card [OF others(2)] by (simp add: prot_def)
      then have "length (take (length ps - nat keep) others) = length ps - nat keep" using assms(5) by simp
      then show ?thesis using distinct_card [OF distinct_take [OF others(2)]] card by (simp add: D_def)
    qed
    show "the (GenerationTime l net d) \<le> the (GenerationTime l net k)"
      if "d \<in> D" "k \<in> stored_generations l net w - D - {ns_GenerationKey ns}" for d k
      using take_filter_sorted [OF sort_generations_facts(3), of d _ _ l net ps k] that others(1)
      by (auto simp: D_def others_def prot_def)
  qed
qed

text \<open>C19: what one retention sweep of a network leaves, on a store without concurrent writers and
  without faults, when the committed generation is there: exactly the configured number of generations
  (or all, when there are fewer), the committed one always among them however old it is. Apart from the
  committed one, which is exempt, no generation that is kept is older than one that is deleted, and no
  object other than a generation of this network is touched.\<close>

theorem retention_exact:
  assumes "world_ok w" and "gomap_ok (w_objects w)" and "plain_path (ly_prefix l)" and "ValidComponent net" and "0 < keep"
    and "map_of (mf_Networks m) net = Some ns" and "ns_GenerationKey ns \<in> stored_generations l net w"
  defines "G \<equiv> stored_generations l net w" and "w' \<equiv> prune_network l keep m net w"
  shows "card (stored_generations l net w') = min (card G) (nat keep) \<and>
    ns_GenerationKey ns \<in> stored_generations l net w' \<and> (\<forall>x. x \<notin> G \<longrightarrow> object w' x = object w x) \<and>
    (\<forall>d k. d \<in> G - stored_generations l net w' \<and> k \<in> stored_generations l net w' - {ns_GenerationKey ns} \<longrightarrow>
       the (GenerationTime l net d) \<le> the (GenerationTime l net k))"
proof -
  obtain D where sub: "D \<subseteq> G - {ns_GenerationKey ns}"
    and obj: "\<And>x. object w' x = (if x \<in> D then None else object w x)"
    and card: "card D = card G - nat keep"
    and old: "\<And>d k. d \<in> D \<Longrightarrow> k \<in> G - D - {ns_GenerationKey ns} \<Longrightarrow> the (GenerationTime l net d) \<le> the (GenerationTime l net k)"
    using prune_network_exact [OF assms(1-6)] assms(7) unfolding G_def w'_def by metis
  have left: "stored_generations l net w' = G - D" by (auto simp: stored_generations_def G_def obj)
  have fin: "finite G"
  proof -
    have "G \<subseteq> fst ` set (w_objects w)" by (force simp: G_def stored_generations_def object_def dest: map_of_SomeD)
    then show ?thesis by (rule finite_subset) simp
  qed
  have "card (G - D) = min (card G) (nat keep)"
  proof -
    have "D \<subseteq> G" using sub by auto
    then show ?thesis using card card_Diff_subset [OF finite_subset [OF _ fin], of D] by auto
  qed
  moreover have "ns_GenerationKey ns \<in> G - D" using assms(7) sub by (auto simp: G_def)
  moreover have "object w' x = object w x" if "x \<notin> G" for x using that sub obj by auto
  moreover have "G - (G - D) = D" using sub by auto
  ultimately show ?thesis using old left by auto
qed

lemma GenerationKey_plain:
  assumes "plain_path (ly_prefix l)" and "ValidComponent n"
  shows "plain_path (GenerationKey l n t)"
proof -
  have "plain_part (time_Format genTimeFormat t @ ''.parquet'')"
    by (intro plain_file time_Format_no_slash) (simp_all add: genTimeFormat_def)
  then have "plain_path (ly_prefix l @ CHR ''/'' # n @ CHR ''/'' # (time_Format genTimeFormat t @ ''.parquet''))"
    by (intro plain_path_join assms(1) plain_path_part component_plain [OF assms(2)])
  then show ?thesis by (simp add: GenerationKey_def NetworkPrefix_def)
qed

lemma sample_prefix: "plain_path (ly_prefix sample_layout)"
  by (simp add: plain_path_def plain_part_def ly_prefix_def sample_layout_def)

lemma sample_component: "ValidComponent ''main''"
  by (simp add: ValidComponent_def component_char_def)

lemma first_day_representable: "0 \<le> k \<Longrightarrow> k < 86400000000000 \<Longrightarrow> representable (time_zero + k)"
proof -
  assume k: "0 \<le> k" "k < 86400000000000"
  then have "nat k div 1000000000 div 86400 = 0" by (simp add: nat_less_iff div_less_iff_less_mult)
  then have "cv_year (civil_of (time_zero + k)) = 1"
    by (simp add: civil_of_def Let_def year_of.simps year_days_def split: prod.splits)
  then show ?thesis using k(1) by (simp add: representable_def)
qed

abbreviation sample_key_at :: "int \<Rightarrow> string" where
  "sample_key_at k \<equiv> GenerationKey sample_layout ''main'' (time_zero + k)"

theorem retention_exact_witness:
  "let w = \<lparr>w_objects = [(sample_key_at 3, []), (sample_key_at 1, []), (sample_key_at 2, [])], w_script = []\<rparr>;
       w' = prune_network sample_layout 2 (sample_manifest (time_zero + 1)) ''main'' w
   in card (stored_generations sample_layout ''main'' w') = 2 \<and> sample_key_at 1 \<in> stored_generations sample_layout ''main'' w'"
proof -
  let ?w = "\<lparr>w_objects = [(sample_key_at 3, []), (sample_key_at 1, []), (sample_key_at 2, [])], w_script = []\<rparr> :: world"
  have time: "GenerationTime sample_layout ''main'' (sample_key_at k) = Some (time_zero + k)" if "k \<in> {1, 2, 3}" for k
    by (rule GenerationTime_GenerationKey) (use that in \<open>auto intro!: first_day_representable\<close>)
  have ne: "sample_key_at i \<noteq> sample_key_at j" if "i \<in> {1, 2, 3}" "j \<in> {1, 2, 3}" "i \<noteq> j" for i j
    using time [OF that(1)] time [OF that(2)] that(3) by auto
  have safe: "safeRelPath (sample_key_at k) = Some (sample_key_at k)" for k
    using plain_path_rel [OF GenerationKey_plain [OF sample_prefix sample_component]] by blast
  have obj: "object ?w k \<noteq> None \<longleftrightarrow> k \<in> {sample_key_at 1, sample_key_at 2, sample_key_at 3}" for k
    by (simp add: object_def)
  have ok: "world_ok ?w" unfolding world_ok_def obj using safe by (auto simp: quiet_def)
  have G: "stored_generations sample_layout ''main'' ?w = {sample_key_at 1, sample_key_at 2, sample_key_at 3}"
    unfolding stored_generations_def obj IsGenerationKey_def using time by auto
  have "card {sample_key_at 1, sample_key_at 2, sample_key_at 3} = 3" using ne by simp
  moreover have "gomap_ok (w_objects ?w)" using ne [of 3 1] ne [of 3 2] ne [of 1 2] by (simp add: gomap_ok_def)
  moreover obtain ns where ns: "map_of (mf_Networks (sample_manifest (time_zero + 1))) ''main'' = Some ns" "ns_GenerationKey ns = sample_key_at 1"
    by (simp add: sample_manifest_def)
  ultimately show ?thesis
    using retention_exact [OF ok _ sample_prefix sample_component _ ns(1), of 2] G by (simp add: Let_def ns(2))
qed

section \<open>The snapshot survives its own publish\<close>

definition names_generations :: "Layout \<Rightarrow> gotime \<Rightarrow> string list \<Rightarrow> Manifest \<Rightarrow> bool" where
  "names_generations l now nets m \<longleftrightarrow>
     (\<forall>n\<in>set nets. ValidComponent n \<and>
        (\<exists>ns. map_of (mf_Networks m) n = Some ns \<and> ns_GenerationKey ns = GenerationKey l n now))"

lemma keeps_prune_network:
  assumes "names_generations l now nets m" and "net \<in> set nets"
  shows "keeps (snapshot_keys l now nets) w (prune_network l keep m net w)"
proof -
  obtain ns where v: "ValidComponent net" and ns: "map_of (mf_Networks m) net = Some ns" "ns_GenerationKey ns = GenerationKey l net now"
    using assms by (auto simp: names_generations_def)
  obtain r w1 where ls: "store_List (NetworkPrefix l net) w = (r, w1)" by (meson surj_pair)
  show ?thesis
  proof (cases r)
    case (Inl e)
    then show ?thesis using keeps_List(1) [OF ls] ls by (simp add: prune_network_def)
  next
    case (Inr keys)
    define ps where "ps = sort_generations l net (filter (IsGenerationKey l net) keys)"
    have "keeps (snapshot_keys l now nets) w1 (prune_loop (GenerationKey l net now) k ps w1)" if "world_ok w" for k
    proof -
      have ok: "world_ok w1" using keeps_List(1) [OF ls] that by (simp add: keeps_def)
      have "\<forall>x\<in>set ps. safeRelPath x = Some x"
        using keeps_List(2) [OF ls that Inr] by (auto simp: ps_def sort_generations_facts)
      note ex = prune_loop_exact [OF ok this, of "GenerationKey l net now" k]
      have "x \<notin> set (take k (filter (\<lambda>k. k \<noteq> GenerationKey l net now) ps))" if xK: "x \<in> snapshot_keys l now nets" for x
      proof
        assume "x \<in> set (take k (filter (\<lambda>k. k \<noteq> GenerationKey l net now) ps))"
        then have x: "IsGenerationKey l net x" "x \<noteq> GenerationKey l net now"
          using set_take_subset [of k "filter (\<lambda>k. k \<noteq> GenerationKey l net now) ps"]
          by (auto simp: ps_def sort_generations_facts)
        then have "x \<noteq> ManifestKey l" using manifest_not_generation by (auto simp: IsGenerationKey_def)
        then obtain n where "n \<in> set nets" "x = GenerationKey l n now" using xK by (auto simp: snapshot_keys_def)
        with GenerationKey_network [of n net l now] x v assms(1) show False by (auto simp: names_generations_def)
      qed
      with ex show ?thesis by (simp add: keeps_def)
    qed
    then show ?thesis using keeps_List(1) [OF ls, of "snapshot_keys l now nets"]
      by (auto simp: prune_network_def ls Inr Let_def ns ps_def [symmetric] keeps_def)
  qed
qed

lemma keeps_pruneGenerations:
  assumes "names_generations l now nets m"
  shows "keeps (snapshot_keys l now nets) w (pruneGenerationsForNetworks l keep m nets w)"
proof -
  have "keeps (snapshot_keys l now nets) w (fold (prune_network l keep m) ns w)" if "set ns \<subseteq> set nets" for ns
    using that
  proof (induction ns arbitrary: w)
    case (Cons n ns)
    then show ?case by (auto intro: keeps_trans [OF keeps_prune_network [OF assms]])
  qed simp
  then show ?thesis by (simp add: pruneGenerationsForNetworks_def)
qed

lemma keeps_recordPublished:
  assumes "plain_path (ly_prefix (pe_layout env))" and "p_statePrefix p = ly_prefix (pe_layout env)"
    and "ValidComponent (run_MethodologyID (p_run p))" and "names_generations (pe_layout env) now (p_networks p) m"
  shows "keeps (snapshot_keys (pe_layout env) now (p_networks p)) w (snd (recordPublished env ck m byNet now p w))"
proof -
  let ?l = "pe_layout env" and ?K = "snapshot_keys (pe_layout env) now (p_networks p)"
  obtain es d where es: "Estimates (pe_estimate env) now (p_distinct p) = (es, d)" by (meson surj_pair)
  define w1 where "w1 = (case pe_point env (measurementPointAt (pe_reg env) now (p_run p) byNet es) of
      None \<Rightarrow> w | Some data \<Rightarrow> snd (store_Put (aggregateKey (p_statePrefix p) (run_MethodologyID (p_run p)) now) data w))"
  define due where "due \<longleftrightarrow> time_IsZero (p_aggregatesPrunedAt p) \<or> hour \<le> time_Sub (ck_aggregatesSince ck) (p_aggregatesPrunedAt p)"
  define w2 where "w2 = (if due then pruneAggregates (p_statePrefix p) (cf_keepAggregates (p_cfg p)) now w1 else w1)"
  define w3 where "w3 = snd (recordReadiness (pe_reg env) ?l (pe_history env) (p_networks p) byNet now (p_readinessAt p, w2))"
  have res: "snd (recordPublished env ck m byNet now p w) =
      pruneGenerationsForNetworks ?l (cf_keepGenerations (p_cfg p)) m (p_networks p) w3"
    by (cases "pe_point env (measurementPointAt (pe_reg env) now (p_run p) byNet es)"; cases due)
      (simp_all add: recordPublished_def es Let_def w1_def due_def [symmetric] w2_def w3_def split: prod.splits)
  have "keeps ?K w w1"
    using keeps_Put [of "aggregateKey (ly_prefix ?l) (run_MethodologyID (p_run p)) now" ?K w]
      aggregateKey_apart [OF assms(1,3)] by (auto simp: w1_def assms(2) split: option.splits)
  moreover have "keeps ?K w1 w2" using keeps_pruneAggregates by (simp add: w2_def assms(2))
  moreover have "keeps ?K w2 w3" unfolding w3_def by (rule keeps_recordReadiness [OF assms(1)])
  moreover have "keeps ?K w3 (pruneGenerationsForNetworks ?l (cf_keepGenerations (p_cfg p)) m (p_networks p) w3)"
    by (rule keeps_pruneGenerations [OF assms(4)])
  ultimately show ?thesis unfolding res by (metis keeps_trans)
qed

section \<open>A published snapshot loads back\<close>

lemma store_Put_ok:
  assumes "world_ok w" and "safeRelPath k = Some k" and "store_Put k d w = (None, w')"
  shows "w' = put_object k d w" and "world_ok w'" and "length d \<le> MaxObjectBytes"
  using assms world_ok_put [OF assms(1,2)] by (auto simp: store_Put_def world_ok_quiet split: if_splits)

lemma upload_quiet:
  assumes "world_ok w" and "map (\<lambda>g. (g_key g, g_data g)) gens = map (\<lambda>n. (K n, D n)) nets"
    and "\<forall>n\<in>set nets. safeRelPath (K n) = Some (K n)" and "inj_on K (set nets)"
    and "upload_loop env gens up w = (Some up', w')"
  shows "world_ok w' \<and> (\<forall>n\<in>set nets. object w' (K n) = Some (D n) \<and> length (D n) \<le> MaxObjectBytes) \<and>
    (\<forall>k. k \<notin> K ` set nets \<longrightarrow> object w' k = object w k)"
  using assms
proof (induction nets arbitrary: gens up w)
  case (Cons n nets)
  then obtain g gs where g: "gens = g # gs" "g_key g = K n" "g_data g = D n"
    and gs: "map (\<lambda>g. (g_key g, g_data g)) gs = map (\<lambda>n. (K n, D n)) nets" by (auto simp: Cons_eq_map_conv map_eq_Cons_conv)
  obtain r w1 where put: "store_Put (K n) (D n) w = (r, w1)" by (meson surj_pair)
  then have r: "r = None" using Cons.prems(5) by (cases r) (auto simp: g)
  have w1: "w1 = put_object (K n) (D n) w" "world_ok w1" "length (D n) \<le> MaxObjectBytes"
    using store_Put_ok [OF Cons.prems(1) _ put [unfolded r]] Cons.prems(3) by auto
  have "upload_loop env gs (up @ [g_key g]) w1 = (Some up', w')" using Cons.prems(5) put r by (simp add: g)
  from Cons.IH [OF w1(2) gs _ _ this] Cons.prems(3,4)
  have IH: "world_ok w'" "\<And>k. k \<in> set nets \<Longrightarrow> object w' (K k) = Some (D k) \<and> length (D k) \<le> MaxObjectBytes"
    "\<And>k. k \<notin> K ` set nets \<Longrightarrow> object w' k = object w1 k" by auto
  have "object w' (K n) = Some (D n)"
  proof (cases "n \<in> set nets")
    case False
    then have "K n \<notin> K ` set nets" using Cons.prems(4) by (auto simp: inj_on_def)
    then show ?thesis using IH(3) by (simp add: w1)
  qed (use IH in simp)
  then show ?case using IH w1 by auto
qed simp

lemma commit_quiet:
  assumes "world_ok w" and "plain_path (ManifestKey (se_layout env))" and "validateWritable env m = None"
    and "mc_encode (se_codec env) m = Some enc" and "length enc \<le> MaxManifestBytes"
    and "case object w (ManifestKey (se_layout env)) of None \<Rightarrow> prev = None
         | Some d \<Rightarrow> \<exists>cur. decodeManifest env d = Inr cur \<and> accepts prev m cur"
  shows "commit env prev m w = ((None, None), put_object (ManifestKey (se_layout env)) enc w)"
proof -
  let ?k = "ManifestKey (se_layout env)"
  have k: "safeRelPath ?k = Some ?k" using plain_path_rel [OF assms(2)] by blast
  have small: "length d \<le> MaxObjectBytes" if "length d \<le> MaxManifestBytes" for d :: "byte list"
    using that by (simp add: MaxObjectBytes_def MaxManifestBytes_def)
  have "WriteConditional env prev m w = (None, put_object ?k enc w)"
  proof (cases "object w ?k")
    case None
    then show ?thesis using assms k small [OF assms(5)] world_ok_quiet [OF assms(1)]
      by (simp add: WriteConditional_def GetVersion_def store_Get_def read_object_def expected_version_def
          PutIfVersion_def cas_check_def)
  next
    case (Some d)
    then obtain cur where cur: "decodeManifest env d = Inr cur" "accepts prev m cur" using assms(6) by auto
    then have "length d \<le> MaxManifestBytes" by (auto simp: decodeManifest_def split: if_splits)
    note d = small [OF this]
    have "GetVersion ?k w = (Inr (d, objectVersion d), w)"
      using k d world_ok_quiet [OF assms(1)] by (simp add: GetVersion_def store_Get_def read_object_def Some)
    moreover have "expected_version env prev m (Inr (d, objectVersion d)) = Inr (objectVersion d)"
      using cur by (auto simp: expected_version_def accepts_def split: option.splits)
    moreover have "PutIfVersion ?k (objectVersion d) enc w = (Inr (objectVersion enc), put_object ?k enc w)"
      using k d small [OF assms(5)] world_ok_quiet [OF assms(1)]
      by (simp add: PutIfVersion_def cas_check_def read_object_def Some objectVersion_ne)
    ultimately show ?thesis using assms(3,4) by (simp add: WriteConditional_def)
  qed
  then show ?thesis by (simp add: commit_def)
qed

text \<open>The rows of one network of a set, and that they pass the reader's validation.\<close>

definition network_rows :: "nset \<Rightarrow> string \<Rightarrow> Row list" where
  "network_rows s n = map row (filter (\<lambda>x. n_Network x = n \<and> snapshotEligible x) (map snd (s_m s)))"

lemma rows_of_snapshot: "n \<in> set nets \<Longrightarrow> rows_of (SnapshotNetworks nets s) n = network_rows s n"
  by (simp add: rows_of_def SnapshotNetworks_def snapshot_fold network_rows_def Let_def)

lemma network_rows_valid:
  assumes "nset_ok s"
  shows "ValidateRows n (int (length (network_rows s n))) (network_rows s n) = None"
proof -
  have each: "\<forall>(i, x) \<in> set (s_m s). n_ID x = i \<and> node_ok x" using assms by (simp add: nset_ok_def)
  have ids: "map n_ID (map snd (s_m s)) = map fst (s_m s)" using each by auto
  have ok: "node_ok x" if "x \<in> set (map snd (s_m s))" for x using each that by auto
  have "distinct (map n_ID (map snd (s_m s)))" unfolding ids using assms by (simp add: nset_ok_def gomap_ok_def)
  then have "distinct (map n_ID (filter P (map snd (s_m s))))" for P by (rule distinct_map_filter)
  moreover have "map r_ID (network_rows s n) = map hex_EncodeToString (map n_ID (filter (\<lambda>x. n_Network x = n \<and> snapshotEligible x) (map snd (s_m s))))"
    by (simp add: network_rows_def row_def)
  moreover have "inj hex_EncodeToString" by (auto intro: injI dest: hex_EncodeToString_inj)
  ultimately have "distinct (map r_ID (network_rows s n))" using inj_on_subset [OF _ subset_UNIV]
    by (simp only: distinct_map [of hex_EncodeToString]) blast
  moreover have "r_ID r \<noteq> []" "r_Network r = n" if r: "r \<in> set (network_rows s n)" for r
  proof -
    obtain x where x: "x \<in> set (map snd (s_m s))" "n_Network x = n" "r = row x" using r by (auto simp: network_rows_def)
    have "length (hex_EncodeToString (n_ID x)) = 64" using ok [OF x(1)] by (simp add: node_ok_def)
    then have "hex_EncodeToString (n_ID x) \<noteq> []" by (metis list.size(3) zero_neq_numeral)
    moreover have "r_ID r = hex_EncodeToString (n_ID x)" "r_Network r = n_Network x" by (simp_all add: x(3) row_def)
    ultimately show "r_ID r \<noteq> []" "r_Network r = n" using x(2) by auto
  qed
  ultimately show ?thesis unfolding ValidateRows_None image_subset_iff by (metis imageE singletonI)
qed

lemma Validate_networkD:
  assumes "Manifest_Validate parse l m = None"
  shows "map_of (mf_Networks m) n = Some ns \<Longrightarrow> validate_network l (mf_GeneratedAt m) n ns = None"
    and "ValidComponent (run_MethodologyID (mf_Run m))"
proof -
  have nets: "validate_networks l (mf_GeneratedAt m) (mf_Networks m) = None"
    and run: "validate_run parse (mf_GeneratedAt m) (mf_Run m) = None"
    using assms by (auto simp: Manifest_Validate_def split: if_splits option.splits)
  have "validate_networks l t ms = None \<Longrightarrow> map_of ms n = Some ns \<Longrightarrow> validate_network l t n ns = None" for t ms
    by (induction ms rule: validate_networks.induct) (auto split: option.splits if_splits)
  with nets show "map_of (mf_Networks m) n = Some ns \<Longrightarrow> validate_network l (mf_GeneratedAt m) n ns = None" by blast
  show "ValidComponent (run_MethodologyID (mf_Run m))" using run by (auto simp: validate_run_def split: if_splits)
qed

text \<open>The hypotheses of a publish by the only writer: a clean layout, a store at rest whose manifest is the
  publisher's, and codecs that read back what this attempt writes.\<close>

definition settled_store :: "snapshot_env \<Rightarrow> Manifest option \<Rightarrow> world \<Rightarrow> bool" where
  "settled_store env prev w \<longleftrightarrow> world_ok w \<and>
     (case object w (ManifestKey (se_layout env)) of
        None \<Rightarrow> prev = None
      | Some d \<Rightarrow> \<exists>cur. prev = Some cur \<and> decodeManifest env d = Inr cur)"

definition clean_keys :: "pub_env \<Rightarrow> publisher \<Rightarrow> bool" where
  "clean_keys env p \<longleftrightarrow> plain_path (ly_prefix (pe_layout env)) \<and> p_statePrefix p = ly_prefix (pe_layout env) \<and>
     plain_path (p_distinctKey p) \<and> has_suffix (p_distinctKey p) ''.json.gz''"

definition codecs_read_back :: "snapshot_env \<Rightarrow> string list \<Rightarrow> Manifest \<Rightarrow> (string \<Rightarrow> Row list) \<Rightarrow> bool" where
  "codecs_read_back env nets m rs \<longleftrightarrow>
     (\<exists>enc. mc_encode (se_codec env) m = Some enc \<and> length enc \<le> MaxManifestBytes \<and> mc_decode (se_codec env) enc = Some m) \<and>
     (\<forall>n\<in>set nets. \<forall>data. se_parquet env (rs n) = Some data \<longrightarrow> se_rows env data = Some (rs n))"

lemma manifest_plain: "plain_path (ly_prefix l) \<Longrightarrow> plain_path (ManifestKey l)"
  using plain_path_join [of "ly_prefix l" "''manifest.json''"] by (simp add: ManifestKey_def plain_path_def plain_part_def)

lemma persistDistinct_keeps:
  assumes "plain_path (p_distinctKey p)" and "has_suffix (p_distinctKey p) ''.json.gz''"
  shows "keeps {ManifestKey l} w (snd (persistDistinct env ck p w))"
proof -
  have "last (p_distinctKey p) = CHR ''z''"
    using assms(2) by (auto simp: has_suffix_def is_prefix_append_iff dest: arg_cong [of "rev (p_distinctKey p)" _ rev])
  then have "p_distinctKey p \<noteq> ManifestKey l" by (auto simp: ManifestKey_def)
  then have "keeps {ManifestKey l} w (snd (store_Put (p_distinctKey p) d w))" for d
    using plain_path_rel [OF assms(1)] by (intro keeps_Put) auto
  then show ?thesis by (auto simp: persistDistinct_def split: prod.splits option.splits) (metis snd_conv)+
qed

text \<open>An attempt in a settled store: what the store holds when the manifest is committed.\<close>

lemma prepared_store:
  assumes "prepare env ck now p w = (Some a, q, w1)" and "settled_store (pe_snap env) (p_prev p) w" and "clean_keys env p"
  shows "world_ok w1" and "object w1 (ManifestKey (pe_layout env)) = object w (ManifestKey (pe_layout env))"
    and "n \<in> set (p_networks q) \<Longrightarrow> object w1 (GenerationKey (pe_layout env) n now) =
           Some (the (se_parquet (pe_snap env) (rows_of (at_byNet a) n))) \<and>
           length (the (se_parquet (pe_snap env) (rows_of (at_byNet a) n))) \<le> MaxObjectBytes"
    and "names_generations (pe_layout env) now (p_networks q) (at_manifest a)"
proof -
  let ?l = "pe_layout env" and ?nets = "p_networks q"
  note pm = prepare_manifest [OF assms(1)]
  have plain: "plain_path (ly_prefix ?l)" "plain_path (p_distinctKey p)" "has_suffix (p_distinctKey p) ''.json.gz''"
    using assms(3) by (auto simp: clean_keys_def)
  have val: "ValidComponent n" if "n \<in> set ?nets" for n
  proof -
    have "map_of (mf_Networks (at_manifest a)) n \<noteq> None" using pm(2) [of n] that by simp
    then obtain ns where "map_of (mf_Networks (at_manifest a)) n = Some ns" by blast
    from Validate_networkD(1) [OF pm(9) this] show ?thesis by (simp add: validate_network_def split: if_splits)
  qed
  show "names_generations ?l now ?nets (at_manifest a)"
    using val pm(2) by (auto simp: names_generations_def built_entry_def)
  obtain gens where up: "upload (pe_snap env) gens (snd (persistDistinct env ck p w)) = (Some (at_uploaded a), w1)"
    and gens: "map (\<lambda>g. (g_key g, g_data g)) gens =
      map (\<lambda>n. (GenerationKey ?l n now, the (se_parquet (pe_snap env) (rows_of (at_byNet a) n)))) ?nets"
    using pm(13) by blast
  have w0: "world_ok (snd (persistDistinct env ck p w))"
    "object (snd (persistDistinct env ck p w)) (ManifestKey ?l) = object w (ManifestKey ?l)"
    using persistDistinct_keeps [OF plain(2,3), of ?l w env ck] assms(2) by (auto simp: keeps_def settled_store_def)
  have inj: "inj_on (\<lambda>n. GenerationKey ?l n now) (set ?nets)"
  proof (rule inj_onI)
    fix x y assume "x \<in> set ?nets" "y \<in> set ?nets" "GenerationKey ?l x now = GenerationKey ?l y now"
    then have "x @ CHR ''/'' # (time_Format genTimeFormat now @ ''.parquet'') = y @ CHR ''/'' # (time_Format genTimeFormat now @ ''.parquet'')"
      by (simp add: GenerationKey_def NetworkPrefix_def)
    then show "x = y" by simp
  qed
  have safe: "\<forall>n\<in>set ?nets. safeRelPath (GenerationKey ?l n now) = Some (GenerationKey ?l n now)"
    using plain_path_rel [OF GenerationKey_plain [OF plain(1) val]] by blast
  note u = upload_quiet [OF w0(1) gens safe inj up [unfolded upload_def]]
  show "world_ok w1" using u by blast
  have "ManifestKey ?l \<notin> (\<lambda>n. GenerationKey ?l n now) ` set ?nets"
  proof
    assume "ManifestKey ?l \<in> (\<lambda>n. GenerationKey ?l n now) ` set ?nets"
    then obtain n where "last (ManifestKey ?l) = last (GenerationKey ?l n now)" by auto
    then show False by (simp add: last_GenerationKey) (simp add: ManifestKey_def)
  qed
  then show "object w1 (ManifestKey ?l) = object w (ManifestKey ?l)" using u w0(2) by simp
  show "n \<in> set ?nets \<Longrightarrow> object w1 (GenerationKey ?l n now) = Some (the (se_parquet (pe_snap env) (rows_of (at_byNet a) n))) \<and>
      length (the (se_parquet (pe_snap env) (rows_of (at_byNet a) n))) \<le> MaxObjectBytes" using u by blast
qed

lemma pruneStale_set: "nset_ok (p_set p) \<Longrightarrow> nset_ok (p_set (pruneStale now p))"
  by (auto simp: pruneStale_def Let_def intro: effect_ok [OF prune_refines [OF nset_ok_shape]])

text \<open>A manifest of an attempt, once it and its generations are stored, loads back in full.\<close>

lemma stored_attempt_loads:
  assumes "prepare env ck now p w = (Some a, q, w1)" and "representable now" and "nset_ok (p_set q)"
    and "plain_path (ly_prefix (pe_layout env))" and "codecs_read_back (pe_snap env) (p_networks q) (at_manifest a) (network_rows (p_set q))"
    and "world_ok w'" and "object w' (ManifestKey (pe_layout env)) = mc_encode (se_codec (pe_snap env)) (at_manifest a)"
    and "\<And>n. n \<in> set (p_networks q) \<Longrightarrow> object w' (GenerationKey (pe_layout env) n now) = object w1 (GenerationKey (pe_layout env) n now)"
    and "\<And>n. n \<in> set (p_networks q) \<Longrightarrow> object w1 (GenerationKey (pe_layout env) n now) =
           Some (the (se_parquet (pe_snap env) (rows_of (at_byNet a) n))) \<and>
           length (the (se_parquet (pe_snap env) (rows_of (at_byNet a) n))) \<le> MaxObjectBytes"
    and "names_generations (pe_layout env) now (p_networks q) (at_manifest a)"
  shows "snapshot_Read (pe_snap env) w' = (Inr (at_manifest a), w')"
    and "n \<in> set (p_networks q) \<Longrightarrow>
      LoadNetworkRows (pe_snap env) (at_manifest a) n w' = (Inr (network_rows (p_set q) n), w')"
proof -
  let ?l = "pe_layout env" and ?m = "at_manifest a" and ?env = "pe_snap env"
  note pm = prepare_manifest [OF assms(1)]
  have quiet: "quiet w'" by (rule world_ok_quiet [OF assms(6)])
  obtain enc where enc: "mc_encode (se_codec ?env) ?m = Some enc" "length enc \<le> MaxManifestBytes" "mc_decode (se_codec ?env) enc = Some ?m"
    using assms(5) by (auto simp: codecs_read_back_def)
  have "safeRelPath (ManifestKey ?l) = Some (ManifestKey ?l)" using plain_path_rel [OF manifest_plain [OF assms(4)]] by blast
  moreover have "\<not> MaxObjectBytes < length enc" using enc(2) by (simp add: MaxObjectBytes_def MaxManifestBytes_def)
  ultimately show "snapshot_Read ?env w' = (Inr ?m, w')"
    using assms(7) enc pm(9) quiet by (simp add: snapshot_Read_def store_Get_def read_object_def decodeManifest_def)
  assume n: "n \<in> set (p_networks q)"
  have rows: "rows_of (at_byNet a) n = network_rows (p_set q) n" using pm(1) rows_of_snapshot [OF n] by simp
  obtain data where data: "se_parquet ?env (network_rows (p_set q) n) = Some data" using pm(3) [OF n] rows by auto
  let ?ns = "gen_entry ?env (at_byNet a) n (built_entry env now (at_byNet a) n)"
  have ns: "map_of (mf_Networks ?m) n = Some ?ns" using pm(2) [of n] n by simp
  have fields: "ns_GenerationKey ?ns = GenerationKey ?l n now" "ns_NodeCount ?ns = int (length (network_rows (p_set q) n))"
    "ns_SHA256 ?ns = hex_EncodeToString (sha256_Sum256 data)" "ns_Bytes ?ns = int (length data)"
    by (simp_all add: gen_entry_def built_entry_def rows data)
  have "ValidComponent n" using assms(10) n by (simp add: names_generations_def)
  then have "safeRelPath (GenerationKey ?l n now) = Some (GenerationKey ?l n now)"
    using plain_path_rel [OF GenerationKey_plain [OF assms(4)]] by blast
  then have get: "store_Get (GenerationKey ?l n now) w' = (Inr data, w')"
    using assms(8,9) [OF n] rows data quiet by (simp add: store_Get_def read_object_def)
  have "VerifyGeneration ?l n ?ns data = None"
    unfolding VerifyGeneration_None fields IsGenerationKey_def
    using GenerationTime_GenerationKey [OF assms(2), of ?l n] by simp
  moreover have "ValidateRows n (ns_NodeCount ?ns) (network_rows (p_set q) n) = None"
    unfolding fields by (rule network_rows_valid [OF assms(3)])
  moreover have "se_rows ?env data = Some (network_rows (p_set q) n)" using assms(5) data n by (auto simp: codecs_read_back_def)
  ultimately show "LoadNetworkRows ?env ?m n w' = (Inr (network_rows (p_set q) n), w')"
    unfolding LoadNetworkRows_def ns option.case fields(1) get by simp
qed

text \<open>C3: In a store nobody else writes, a publish that passes its guards commits, and afterwards the
  committed manifest reads back and every network loads exactly the publishable rows of the tracked
  set: neither the side outputs nor the retention sweep touches the snapshot.\<close>

theorem published_snapshot_loads_back:
  assumes "settled_store (pe_snap env) (p_prev p) w" and "clean_keys env p" and "nset_ok (p_set p)"
    and "prepare env ck (generationTime (ck_now ck) p) p w = (Some a, q, w1)"
    and "representable (generationTime (ck_now ck) p)" and "run_MethodologyVersion (p_run p) = MethodologyVersion"
    and "codecs_read_back (pe_snap env) (p_networks p) (at_manifest a) (network_rows (p_set q))"
  shows "\<exists>p' w'. Publish env ck p w = (None, p', w') \<and> p_prev p' = Some (at_manifest a) \<and>
    snapshot_Read (pe_snap env) w' = (Inr (at_manifest a), w') \<and>
    (\<forall>n\<in>set (p_networks p). LoadNetworkRows (pe_snap env) (at_manifest a) n w' = (Inr (network_rows (p_set q) n), w'))"
proof -
  let ?l = "pe_layout env" and ?m = "at_manifest a" and ?env = "pe_snap env" and ?now = "generationTime (ck_now ck) p"
  note pm = prepare_manifest [OF assms(4)]
  note ps = prepared_store [OF assms(4,1,2)]
  have same: "same_commit p q" by (rule prepare_same [OF assms(4)])
  then have q: "p_networks q = p_networks p" "p_prev q = p_prev p" "p_run q = p_run p" "p_statePrefix q = p_statePrefix p"
    "generationTime (ck_now ck) q = ?now"
    by (simp_all add: same_commit_def same_fixed_def generationTime_def)
  have plain: "plain_path (ly_prefix ?l)" "p_statePrefix p = ly_prefix ?l" using assms(2) by (simp_all add: clean_keys_def)
  obtain enc where enc: "mc_encode (se_codec ?env) ?m = Some enc" "length enc \<le> MaxManifestBytes"
    using assms(7) by (auto simp: codecs_read_back_def)
  have "validateWritable ?env ?m = None" using pm(6,8,9) assms(6) q(3) by (simp add: validateWritable_def)
  from commit_quiet [OF ps(1) manifest_plain [OF plain(1)] this enc, of "p_prev q"]
  have c: "commit ?env (p_prev q) ?m w1 = ((None, None), put_object (ManifestKey ?l) enc w1)"
    using assms(1) ps(2) by (auto simp: settled_store_def accepts_def same_generation_def q(2) split: option.splits)
  define p1 where "p1 = (settle_force (at_forced a) (q\<lparr>p_prev := Some ?m\<rparr>))\<lparr>p_quarantines := 0\<rparr>"
  define w2 where "w2 = put_object (ManifestKey ?l) enc w1"
  define res where "res = recordPublished env ck ?m (at_byNet a) ?now p1 w2"
  have pub: "Publish env ck p w = (None, fst res, snd res)"
    unfolding Publish_prepare assms(4) by (simp add: after_commit_def c p1_def w2_def res_def q(5))
  have p1: "p_networks p1 = p_networks q" "p_run p1 = p_run q" "p_statePrefix p1 = p_statePrefix q" "p_prev p1 = Some ?m"
    by (simp_all add: p1_def settle_force_def)
  have mid: "ValidComponent (run_MethodologyID (p_run p1))" using Validate_networkD(2) [OF pm(9)] pm(6) p1 by simp
  have "plain_path (ManifestKey ?l)" by (rule manifest_plain [OF plain(1)])
  then have w2: "world_ok w2" unfolding w2_def using plain_path_rel by (intro world_ok_put [OF ps(1)]) blast
  have keep: "keeps (snapshot_keys ?l ?now (p_networks q)) w2 (snd res)"
    unfolding res_def p1(1) [symmetric]
    by (rule keeps_recordPublished [OF plain(1) _ mid]) (use p1 q plain ps(4) in simp_all)
  have gen: "GenerationKey ?l n ?now \<noteq> ManifestKey ?l" for n
  proof
    assume "GenerationKey ?l n ?now = ManifestKey ?l"
    then have "last (ManifestKey ?l) = CHR ''t''" using last_GenerationKey [of ?l n ?now] by simp
    then show False by (simp add: ManifestKey_def)
  qed
  have "p_set q = p_set (pruneStale ?now (fst (persistDistinct env ck p w)))"
    by (rule prepare_Some [OF assms(4)]) blast
  moreover have "p_set (fst (persistDistinct env ck p w)) = p_set p"
    using persistDistinct_frame [of env ck p w] by (metis prod.collapse publisher.select_convs(2) publisher.surjective publisher.update_convs(14))
  ultimately have ok: "nset_ok (p_set q)" using pruneStale_set assms(3) by simp
  have final: "world_ok (snd res)" "object (snd res) (ManifestKey ?l) = Some enc"
    "\<And>n. n \<in> set (p_networks q) \<Longrightarrow> object (snd res) (GenerationKey ?l n ?now) = object w1 (GenerationKey ?l n ?now)"
    using keep w2 gen by (auto simp: keeps_def snapshot_keys_def w2_def)
  note loads = stored_attempt_loads [OF assms(4,5) ok plain(1) _ final(1) _ final(3) ps(3,4)]
  have "p_prev (fst res) = Some ?m" using recordPublished_same [of p1 env ck ?m "at_byNet a" ?now w2] p1(4)
    by (simp add: res_def same_commit_def)
  then show ?thesis using pub loads assms(7) final(2) enc q(1)
    by (intro exI [of _ "fst res"] exI [of _ "snd res"]) simp
qed

section \<open>A sample publish\<close>

abbreviation sample_now :: gotime where
  "sample_now \<equiv> time_zero + 5"

definition publish_run_meta :: RunMetadata where
  "publish_run_meta = sample_run\<lparr>run_CrawlerStartedAt := time_zero + 1, run_MethodologyStartedAt := time_zero + 1\<rparr>"

definition publish_set :: nset where
  "publish_set = sample_of [sample_node 1]"

definition publish_entry :: NetworkSnapshot where
  "publish_entry = \<lparr>ns_GenerationKey = GenerationKey sample_layout ''mainnet'' sample_now, ns_NodeCount = 1,
     ns_CurrentNodeCount = 0, ns_SHA256 = hex_EncodeToString (sha256_Sum256 [1]), ns_Bytes = 1\<rparr>"

definition publish_manifest :: Manifest where
  "publish_manifest = \<lparr>mf_SchemaVersion = SchemaVersion, mf_GeneratedAt = sample_now, mf_CrawlerID = ''c'',
     mf_Run = publish_run_meta, mf_Networks = [(''mainnet'', publish_entry)], mf_LegacyPopulationHistory = []\<rparr>"

definition publish_snap :: snapshot_env where
  "publish_snap = \<lparr>se_codec = \<lparr>mc_encode = (\<lambda>_. Some [1]), mc_decode = (\<lambda>_. Some publish_manifest)\<rparr>,
     se_url = (\<lambda>_. Some (''https'', ''h'')), se_layout = sample_layout, se_parquet = (\<lambda>_. Some [1]),
     se_rows = (\<lambda>_. Some [row (sample_node 1)])\<rparr>"

definition publish_env :: pub_env where
  "publish_env = \<lparr>pe_snap = publish_snap, pe_reg = [], pe_history = \<lparr>hc_encode = (\<lambda>_. None), hc_decode = (\<lambda>_. None)\<rparr>,
     pe_distinct = (\<lambda>_. []), pe_gzip = (\<lambda>_. []), pe_estimate = (\<lambda>_. 0), pe_point = (\<lambda>_. Some [])\<rparr>"

definition publish_state :: publisher where
  "publish_state = \<lparr>p_cfg = \<lparr>cf_nodeMaxIdle = 0, cf_verifiedMaxIdle = 0, cf_maxCollapsePct = 50, cf_minCurrentNodes = 0,
       cf_keepGenerations = 3, cf_keepAggregates = 1, cf_forcePublish = False\<rparr>,
     p_set = publish_set, p_distinct = \<lparr>st_Version = 1, st_Methodology = [], st_Precision = 4, st_Series = []\<rparr>,
     p_run = publish_run_meta, p_crawlerID = ''c'', p_networks = [''mainnet''], p_statePrefix = ''snapshots'',
     p_distinctKey = ''d.json.gz'', p_prev = None, p_quarantines = 0, p_forceUsed = False, p_forcePending = False,
     p_final = True, p_distinctSavedAt = time_zero, p_aggregatesPrunedAt = time_zero, p_readinessAt = []\<rparr>"

definition publish_ck :: publish_clock where
  "publish_ck = \<lparr>ck_now = sample_now, ck_distinctSince = 0, ck_distinctSaved = time_zero, ck_aggregatesSince = 0,
     ck_aggregatesPruned = 0\<rparr>"

definition publish_attempt :: attempt where
  "publish_attempt = \<lparr>at_forced = False, at_manifest = publish_manifest,
     at_byNet = [(''mainnet'', [row (sample_node 1)])], at_uploaded = [GenerationKey sample_layout ''mainnet'' sample_now]\<rparr>"

abbreviation empty_world :: world where
  "empty_world \<equiv> \<lparr>w_objects = [], w_script = []\<rparr>"

lemma publish_component: "ValidComponent ''mainnet''" "ValidComponent ''id''"
  by (simp_all add: ValidComponent_def component_char_def)

lemma publish_valid: "Manifest_Validate (se_url publish_snap) sample_layout publish_manifest = None"
  by (simp add: Manifest_Validate_def validate_run_def validate_network_def publish_manifest_def publish_snap_def sample_run_def
      publish_run_meta_def publish_entry_def validateReadableSchemaVersion_def SchemaVersion_def OldestReadableSchemaVersion_def
      time_IsZero_def maxCrawlerIDBytes_def httpURL_def zero_digest_def validateReadableMethodologyVersion_def
      readableMethodologyVersions_def publish_component maxNetworks_def MaxObjectBytes_def)

lemma publish_byNet: "SnapshotNetworks [''mainnet''] publish_set = [(''mainnet'', [row (sample_node 1)])]"
  by (simp add: SnapshotNetworks_def publish_set_def sample_of_def snapshot_step_def)
    (simp add: sample_node_def zeroNode_def snapshotEligible_def dropBelow_def)

lemma publish_not_current: "currentForkCount [] ''mainnet'' [row (sample_node 1)] t = 0"
  by (simp add: currentForkCount_def row_def sample_node_def zeroNode_def RowForkCurrentAt_def
      IsCanonicalForkCompatibleAt_def IsCurrentForkAt_def Get_def)

lemma publish_prepare:
  "prepare publish_env publish_ck sample_now publish_state empty_world =
     (Some publish_attempt, publish_state,
      put_object (GenerationKey sample_layout ''mainnet'' sample_now) [1] (put_object ''d.json.gz'' [] empty_world))"
proof -
  let ?k = "GenerationKey sample_layout ''mainnet'' sample_now"
  have layout: "pe_layout publish_env = sample_layout" "pe_snap publish_env = publish_snap" "se_layout publish_snap = sample_layout"
    by (simp_all add: publish_env_def publish_snap_def)
  have d: "safeRelPath ''d.json.gz'' = Some ''d.json.gz''" by (rule plain_safeRelPath) (simp add: plain_part_def)
  have k: "safeRelPath ?k = Some ?k"
    using plain_path_rel [OF GenerationKey_plain [OF sample_prefix publish_component(1)]] by blast
  have q: "quiet empty_world" by (simp add: quiet_def)
  have "publish_state\<lparr>p_distinctSavedAt := time_zero\<rparr> = publish_state" by (simp add: publish_state_def)
  moreover have "p_final publish_state" "p_distinctKey publish_state = ''d.json.gz''" by (simp_all add: publish_state_def)
  ultimately have p: "persistDistinct publish_env publish_ck publish_state empty_world =
      (publish_state, put_object ''d.json.gz'' [] empty_world)"
    by (simp add: persistDistinct_def Marshal_def publish_env_def store_Put_def d q publish_ck_def)
  have s: "pruneStale sample_now publish_state = publish_state" by (simp add: pruneStale_def publish_state_def)
  define m where "m = publish_manifest\<lparr>mf_Networks := [(''mainnet'', publish_entry\<lparr>ns_SHA256 := [], ns_Bytes := 0\<rparr>)]\<rparr>"
  have byNet: "SnapshotNetworks (p_networks publish_state) (p_set publish_state) = [(''mainnet'', [row (sample_node 1)])]"
    using publish_byNet by (simp add: publish_state_def)
  have b: "build publish_env sample_now publish_state = (m, [(''mainnet'', [row (sample_node 1)])])"
    unfolding build_def Let_def byNet layout
    by (simp add: publish_state_def publish_env_def rows_of_def publish_not_current m_def publish_manifest_def publish_entry_def)
  have a: "admit (pe_reg publish_env) m publish_state = ((True, False), publish_state)"
    by (simp add: admit_def belowFloor_def shrankTooMuch_def publish_state_def)
  have "serialize_loop publish_snap [(''mainnet'', [row (sample_node 1)])] [''mainnet''] m [] =
      Some (publish_manifest, [\<lparr>g_network = ''mainnet'', g_key = ?k, g_sum = hex_EncodeToString (sha256_Sum256 [1]), g_data = [1],
        g_count = 1, g_current = 0\<rparr>])"
    by (simp add: publish_snap_def rows_of_def m_def publish_manifest_def publish_entry_def Let_def)
  then have z: "serialize publish_snap (p_networks publish_state) [(''mainnet'', [row (sample_node 1)])] m =
      Some (publish_manifest, [\<lparr>g_network = ''mainnet'', g_key = ?k, g_sum = hex_EncodeToString (sha256_Sum256 [1]), g_data = [1],
        g_count = 1, g_current = 0\<rparr>])"
    using publish_valid by (simp add: serialize_def publish_state_def layout)
  show ?thesis
    unfolding prepare_def Let_def p prod.case s b a layout z
    by (simp add: z upload_def store_Put_def k q MaxObjectBytes_def publish_attempt_def)
qed

theorem published_snapshot_loads_back_witness:
  "\<exists>p' w'. Publish publish_env publish_ck publish_state empty_world = (None, p', w') \<and>
     snapshot_Read publish_snap w' = (Inr publish_manifest, w') \<and>
     LoadNetworkRows publish_snap publish_manifest ''mainnet'' w' = (Inr [row (sample_node 1)], w')"
proof -
  have now: "generationTime (ck_now publish_ck) publish_state = sample_now"
    by (simp add: generationTime_def publish_ck_def publish_state_def)
  have fields: "pe_snap publish_env = publish_snap" "p_networks publish_state = [''mainnet'']" "p_set publish_state = publish_set"
    "at_manifest publish_attempt = publish_manifest" "p_prev publish_state = None" "p_run publish_state = publish_run_meta"
    by (simp_all add: publish_env_def publish_state_def publish_attempt_def)
  have rs: "network_rows publish_set ''mainnet'' = [row (sample_node 1)]"
    using publish_byNet rows_of_snapshot [of "''mainnet''" "[''mainnet'']" publish_set] by (simp add: rows_of_def)
  have "settled_store (pe_snap publish_env) (p_prev publish_state) empty_world"
    by (simp add: settled_store_def world_ok_def quiet_def object_def fields)
  moreover have "clean_keys publish_env publish_state"
    by (simp add: clean_keys_def publish_env_def publish_snap_def publish_state_def sample_layout_def ly_prefix_def
        plain_path_def plain_part_def has_suffix_def)
  moreover have "nset_ok (p_set publish_state)" by (simp add: fields publish_set_def sample_simps scoreCap_def)
  moreover have "representable sample_now" by (rule first_day_representable) simp_all
  moreover have "run_MethodologyVersion (p_run publish_state) = MethodologyVersion"
    by (simp add: fields publish_run_meta_def sample_run_def)
  moreover have "codecs_read_back (pe_snap publish_env) (p_networks publish_state) publish_manifest (network_rows (p_set publish_state))"
    by (simp add: codecs_read_back_def fields rs) (simp add: publish_snap_def MaxManifestBytes_def)
  ultimately show ?thesis
    using published_snapshot_loads_back [of publish_env publish_state empty_world publish_ck publish_attempt publish_state
        "put_object (GenerationKey sample_layout ''mainnet'' sample_now) [1] (put_object ''d.json.gz'' [] empty_world)"]
      publish_prepare rs by (simp add: now fields) blast
qed

end
