(* ===== verification/HistoryProps.thy ===== *)
theory HistoryProps
  imports History
begin

text \<open>
  The side outputs agree with the snapshot they accompany: a measurement point partitions the rows the
  manifest counts, and a readiness history stays ordered, spaced and bounded.
\<close>

section \<open>Measurements\<close>

definition count_of :: "counts \<Rightarrow> string \<Rightarrow> nat" where
  "count_of m k = (case map_of m k of None \<Rightarrow> 0 | Some n \<Rightarrow> n)"

lemma count_of_incr: "count_of (incr k m) k' = count_of m k' + of_bool (k' = k)"
  by (simp add: count_of_def incr_def map_of_update split: option.splits)

definition row_layered :: "Row \<Rightarrow> bool" where
  "row_layered r \<longleftrightarrow> r_Layer r = ''el'' \<or> r_Layer r = ''cl''"

abbreviation row_current :: "registry \<Rightarrow> string \<Rightarrow> gotime \<Rightarrow> Row \<Rightarrow> bool" where
  "row_current reg network at r \<equiv> RowForkCurrentAt reg (r_Layer r) network (r_ForkHash r) (r_ForkNext r) at"

lemma currentForkCount_filter: "currentForkCount reg network rs at = length (filter (row_current reg network at) rs)"
proof -
  have "fold (\<lambda>r n. if row_current reg network at r then Suc n else n) rs k = k + length (filter (row_current reg network at) rs)" for k
    by (induction rs arbitrary: k) auto
  then show ?thesis by (simp add: currentForkCount_def)
qed

definition partition_ok :: "nat \<Rightarrow> nat \<Rightarrow> measurementNetwork \<Rightarrow> bool" where
  "partition_ok c t a \<longleftrightarrow> mn_Current a = c \<and> mn_ExecutionCurrent a + mn_ConsensusCurrent a = c \<and>
     mn_MembershipVerified a + mn_MembershipClaimed a = c \<and>
     mn_ExecutionCurrent a + mn_ConsensusCurrent a + mn_ExecutionStale a + mn_ConsensusStale a = t \<and>
     mn_FingerprintIdentified a \<le> c \<and>
     count_of (mn_FingerprintDirection a) ''inbound'' + count_of (mn_FingerprintDirection a) ''outbound'' \<le> mn_FingerprintIdentified a"

lemma measure_row_partition:
  assumes "partition_ok c t a"
  shows "partition_ok (c + of_bool (row_current reg network at r)) (t + of_bool (row_layered r)) (measure_row reg network at r a)"
proof -
  have "row_current reg network at r \<Longrightarrow> row_layered r" by (auto simp: RowForkCurrentAt_def row_layered_def split: if_splits)
  then show ?thesis
    using assms
    by (cases "row_current reg network at r"; cases "r_Layer r = ''el''"; cases "r_Layer r = ''cl''")
      (auto simp: partition_ok_def measure_row_def Let_def measure_layer_def measure_membership_def measure_fingerprint_def
        row_layered_def count_of_incr)
qed

text \<open>A measurement point of a network counts as current exactly the rows the manifest counts as
  current; the two layers and the two kinds of membership each partition them, the current and stale
  rows together are all rows with a layer, and identified fingerprints and their directions are
  among the current rows.\<close>

theorem measurement_partitions_rows:
  "let a = measure_network reg at network rs; c = currentForkCount reg network rs at in
     mn_Current a = c \<and> mn_ExecutionCurrent a + mn_ConsensusCurrent a = c \<and>
     mn_MembershipVerified a + mn_MembershipClaimed a = c \<and>
     mn_ExecutionCurrent a + mn_ConsensusCurrent a + mn_ExecutionStale a + mn_ConsensusStale a = length (filter row_layered rs) \<and>
     mn_FingerprintIdentified a \<le> c \<and>
     count_of (mn_FingerprintDirection a) ''inbound'' + count_of (mn_FingerprintDirection a) ''outbound'' \<le> mn_FingerprintIdentified a"
proof -
  have "partition_ok (c + length (filter (row_current reg network at) rs)) (t + length (filter row_layered rs))
      (fold (measure_row reg network at) rs a)" if "partition_ok c t a" for c t a
    using that
  proof (induction rs arbitrary: c t a)
    case (Cons r rs)
    from Cons.IH [OF measure_row_partition [OF Cons.prems, of reg r network at]] show ?case
      by (cases "row_current reg network at r"; cases "row_layered r") (simp_all add: ac_simps)
  qed simp
  from this [of 0 0 zero_measurement] show ?thesis
    by (simp add: partition_ok_def measure_network_def currentForkCount_filter Let_def zero_measurement_def count_of_def)
qed

section \<open>Readiness histories\<close>

definition history_ok :: "ReadinessHistory \<Rightarrow> bool" where
  "history_ok h \<longleftrightarrow> sorted_wrt (\<lambda>p q. rp_At p + 60 \<le> rp_At q) (rh_Points h) \<and>
     (\<forall>p\<in>set (rh_Points h). rp_At (last (rh_Points h)) - 2592000 \<le> rp_At p)"

lemma interval_seconds: "seconds_of (ReadinessIntervalAt at activation) \<in> {60, 900}"
  by (simp add: ReadinessIntervalAt_def seconds_of_def ReadinessDenseInterval_def ReadinessInterval_def minute_def second_def)

lemma retention_seconds: "seconds_of ReadinessRetention = 2592000"
  by (simp add: seconds_of_def ReadinessRetention_def hour_def minute_def second_def)

lemma sorted_wrt_dropWhile: "sorted_wrt R xs \<Longrightarrow> sorted_wrt R (dropWhile P xs)"
  by (metis dropWhile_eq_drop sorted_wrt_drop)

lemma spaced_last:
  assumes "sorted_wrt (\<lambda>p q. rp_At p + 60 \<le> rp_At q) ps" and "p \<in> set ps"
  shows "rp_At p \<le> rp_At (last ps)"
  using assms
proof (induction ps)
  case (Cons x ps)
  show ?case
  proof (cases "ps = []")
    case False
    then have "rp_At x + 60 \<le> rp_At (last ps)" using Cons.prems(1) by simp
    moreover have "rp_At p \<le> rp_At (last ps)" if "p \<noteq> x" using that Cons by simp
    ultimately show ?thesis using False by (cases "p = x") auto
  qed (use Cons.prems in simp)
qed simp

lemma dropWhile_snoc: "\<not> P p \<Longrightarrow> dropWhile P (xs @ [p]) = dropWhile P xs @ [p]"
  by (induction xs) auto

lemma append_history_ok:
  assumes "history_ok h" and "60 \<le> seconds_of interval" and "History_Append p interval h = (r, h')"
  shows "history_ok h'"
proof (cases r)
  case False
  then show ?thesis using assms by (auto simp: History_Append_def Let_def split: if_splits)
next
  case True
  let ?cut = "\<lambda>q. rp_At q < rp_At p - 2592000"
  have pts: "rh_Points h' = dropWhile ?cut (rh_Points h @ [p])"
    and gap: "rh_Points h = [] \<or> rp_At (last (rh_Points h)) + 60 \<le> rp_At p"
    using assms(2,3) True by (auto simp: History_Append_def Let_def retention_seconds split: if_splits)
  have sp: "sorted_wrt (\<lambda>p q. rp_At p + 60 \<le> rp_At q) (rh_Points h @ [p])"
    using assms(1) gap spaced_last [of "rh_Points h"] by (fastforce simp: history_ok_def sorted_wrt_append)
  have ne: "dropWhile ?cut (rh_Points h @ [p]) \<noteq> []" by (simp add: dropWhile_eq_Nil_conv)
  have "last (dropWhile ?cut (rh_Points h @ [p])) = p" by (simp add: dropWhile_snoc)
  moreover have "rp_At p - 2592000 \<le> rp_At q" if q: "q \<in> set (dropWhile ?cut (rh_Points h @ [p]))" for q
  proof -
    define ps where "ps = dropWhile ?cut (rh_Points h @ [p])"
    have "sorted_wrt (\<lambda>p q. rp_At p + 60 \<le> rp_At q) ps" unfolding ps_def by (rule sorted_wrt_dropWhile [OF sp])
    moreover have "ps \<noteq> []" using ne by (simp add: ps_def)
    moreover from this have "\<not> ?cut (hd ps)" unfolding ps_def by (rule hd_dropWhile)
    moreover have "q \<in> set ps" using q by (simp add: ps_def)
    ultimately show ?thesis by (cases ps) auto
  qed
  ultimately show ?thesis using sorted_wrt_dropWhile [OF sp] by (simp add: history_ok_def pts)
qed

lemma spaced_length:
  assumes "sorted_wrt (\<lambda>p q. rp_At p + 60 \<le> rp_At q) ps" and "ps \<noteq> []"
  shows "rp_At (hd ps) + 60 * (int (length ps) - 1) \<le> rp_At (last ps)"
  using assms
proof (induction ps)
  case (Cons x ps)
  show ?case
  proof (cases "ps = []")
    case False
    then have "rp_At x + 60 \<le> rp_At (hd ps)" using Cons.prems(1) by (cases ps) auto
    moreover have "rp_At (hd ps) + 60 * (int (length ps) - 1) \<le> rp_At (last ps)" using Cons False by simp
    ultimately have "rp_At x + 60 * int (length ps) \<le> rp_At (last ps)" unfolding right_diff_distrib by linarith
    then show ?thesis by (simp add: False)
  qed simp
qed simp

lemma history_ok_length:
  assumes "history_ok h"
  shows "length (rh_Points h) \<le> 43201"
proof (cases "rh_Points h = []")
  case False
  then have "rp_At (last (rh_Points h)) - 2592000 \<le> rp_At (hd (rh_Points h))" using assms by (simp add: history_ok_def)
  moreover have "rp_At (hd (rh_Points h)) + 60 * (int (length (rh_Points h)) - 1) \<le> rp_At (last (rh_Points h))"
    using assms False by (intro spaced_length) (simp_all add: history_ok_def)
  ultimately have "int (length (rh_Points h)) \<le> 43201" unfolding right_diff_distrib by linarith
  then show ?thesis by simp
qed simp

text \<open>The series a recorder builds from the points it is given, each with the cadence of its instant.\<close>

definition record_points :: "(ReadinessPoint \<times> gotime \<times> gotime) list \<Rightarrow> ReadinessHistory \<Rightarrow> ReadinessHistory" where
  "record_points xs h = fold (\<lambda>(p, at, activation) h. snd (History_Append p (ReadinessIntervalAt at activation) h)) xs h"

text \<open>C20: However points arrive, also after a clock that steps back, a readiness history that starts
  in order stays in order with at least a minute between points, spans at most thirty days and never
  holds more than 43,201 points.\<close>

theorem readiness_history_bounded:
  assumes "history_ok h"
  shows "history_ok (record_points xs h) \<and> length (rh_Points (record_points xs h)) \<le> 43201"
proof -
  have "history_ok (record_points xs h)"
    using assms
  proof (induction xs arbitrary: h)
    case (Cons x xs)
    obtain p at act where x: "x = (p, at, act)" by (cases x)
    have "60 \<le> seconds_of (ReadinessIntervalAt at act)" using interval_seconds [of at act] by auto
    then have "history_ok (snd (History_Append p (ReadinessIntervalAt at act) h))"
      using append_history_ok [OF Cons.prems] by (cases "History_Append p (ReadinessIntervalAt at act) h") auto
    then show ?case using Cons.IH by (simp add: record_points_def x)
  qed (simp add: record_points_def)
  then show ?thesis using history_ok_length by blast
qed

definition empty_history :: ReadinessHistory where
  "empty_history = \<lparr>rh_Version = 1, rh_Network = ''mainnet'', rh_Fork = ''x'', rh_ELTime = 0, rh_CLEpoch = 0, rh_Points = []\<rparr>"

definition point_at :: "int \<Rightarrow> ReadinessPoint" where
  "point_at t = \<lparr>rp_At = t, rp_EL = None, rp_CL = None, rp_ELClients = [], rp_CLClients = [],
     rp_LegacyClientsEL = None, rp_LegacyClientsCL = None\<rparr>"

theorem readiness_history_bounded_witness:
  "let h = record_points [(point_at 1000, 0, time_zero), (point_at 1100, 0, time_zero), (point_at 2000, 0, time_zero),
       (point_at 2593001, 0, time_zero)] empty_history
   in map rp_At (rh_Points h) = [2000, 2593001] \<and> history_ok h \<and> length (rh_Points h) \<le> 43201"
proof -
  have "history_ok empty_history" by (simp add: history_ok_def empty_history_def)
  moreover have "map rp_At (rh_Points (record_points [(point_at 1000, 0, time_zero), (point_at 1100, 0, time_zero),
      (point_at 2000, 0, time_zero), (point_at 2593001, 0, time_zero)] empty_history)) = [2000, 2593001]"
    by (simp add: record_points_def History_Append_def empty_history_def point_at_def ReadinessIntervalAt_def time_IsZero_def
        seconds_of_def ReadinessInterval_def ReadinessRetention_def hour_def minute_def second_def Let_def)
  ultimately show ?thesis using readiness_history_bounded [of empty_history] by (simp add: Let_def)
qed

end
