(* ===== verification/CancelForks.thy ===== *)
theory CancelForks
  imports ForkTargets
begin

text \<open>
  Applying cancelled forks, the rest of \<^verbatim>\<open>internal/netconf/cancel.go\<close>: the operator's list removes forks
  from the compiled schedules at startup, and a reloaded list is first validated on fresh copies. The
  networks are reached through a source, the registry itself or the copies. Every registered network has
  a consensus schedule; without one the code would panic, which is an error of its own here.
  Cancellations at the same instant keep the order of the list, which the unstable sort of the code
  leaves open. A failed application stops the program at startup, so its partial effects are not kept.
\<close>

section \<open>Entries\<close>

record CancelledELFork =
  el_Name :: string
  el_Time :: u64

record CancelledCLFork =
  cc_Name :: string
  cc_Epoch :: u64
  cc_Version :: string
  cc_MaxBlobs :: u64

record CancelledFork =
  cn_Network :: string
  cn_Fork :: string
  cn_EL :: "CancelledELFork option"
  cn_CL :: "CancelledCLFork option"

section \<open>Removing a consensus fork\<close>

definition cl_clone :: "clNetwork \<Rightarrow> clNetwork" where
  "cl_clone c = c\<lparr>cl_digests := None, cl_state := None\<rparr>"

fun slices_IndexFunc :: "('a \<Rightarrow> bool) \<Rightarrow> 'a list \<Rightarrow> nat option" where
  "slices_IndexFunc P [] = None"
| "slices_IndexFunc P (x # xs) = (if P x then Some 0 else map_option Suc (slices_IndexFunc P xs))"

definition without_named ::
    "clNetwork \<Rightarrow> CancelledCLFork \<Rightarrow> byte list \<Rightarrow> cancellation \<Rightarrow> (clNetwork \<times> bool \<times> cancellation) result" where
  "without_named c f version out =
     (if strings_EqualFold (cc_Name f) ''electra'' \<or> strings_EqualFold (cc_Name f) ''fulu''
      then Inl (CancelError ''not supported'')
      else case slices_IndexFunc (\<lambda>x. strings_EqualFold (cf_name x) (cc_Name f)) (cl_forks c) of
        Some i \<Rightarrow>
          (let x = cl_forks c ! i in
           if cf_epoch x \<noteq> cc_Epoch f \<or> cf_version x \<noteq> version then Inl (CancelError ''scheduled otherwise'')
           else Inr ((cl_clone c)\<lparr>cl_forks := take i (cl_forks c) @ drop (Suc i) (cl_forks c),
                                  blobSchedule := filter (\<lambda>b. bp_epoch b \<noteq> cf_epoch x) (blobSchedule c)\<rparr>, True,
                     out\<lparr>ca_clRemovedFork := Some x,
                         ca_clRemovedBlobs := ca_clRemovedBlobs out @ filter (\<lambda>b. bp_epoch b = cf_epoch x) (blobSchedule c)\<rparr>))
      | None \<Rightarrow>
          Inr (cl_clone c, False,
               out\<lparr>ca_clRemovedFork := Some \<lparr>cf_name = strings_ToLower (cc_Name f), cf_epoch = cc_Epoch f, cf_version = version\<rparr>,
                   ca_clRemovedBlobs := (if 0 < cc_MaxBlobs f then [\<lparr>bp_epoch = cc_Epoch f, maxBlobs = cc_MaxBlobs f\<rparr>]
                                         else ca_clRemovedBlobs out)\<rparr>))"

definition without_bpo ::
    "clNetwork \<Rightarrow> clNetwork \<Rightarrow> CancelledCLFork \<Rightarrow> byte list \<Rightarrow> cancellation \<Rightarrow> (clNetwork \<times> bool \<times> cancellation) result" where
  "without_bpo c compiled f version out =
     bind_err (transitions compiled) (\<lambda>forks.
       case find (\<lambda>x. cf_epoch x = cc_Epoch f \<and> is_prefix ''BPO'' (cf_name x)) forks of
         Some x \<Rightarrow>
           (case find (\<lambda>b. bp_epoch b = cf_epoch x) (blobSchedule compiled) of
              None \<Rightarrow> Inl (CancelError ''panic'')
            | Some bp \<Rightarrow>
                if cf_version x \<noteq> version \<or> maxBlobs bp \<noteq> cc_MaxBlobs f then Inl (CancelError ''scheduled otherwise'')
                else Inr ((cl_clone c)\<lparr>cancelledBPOs := List.insert (cf_epoch x) (cancelledBPOs c)\<rparr>, True, out))
       | None \<Rightarrow>
           if cc_MaxBlobs f = 0 then Inl (CancelError ''needs max_blobs'')
           else Inr (cl_clone c, False, out\<lparr>ca_clRemovedBlobs := [\<lparr>bp_epoch = cc_Epoch f, maxBlobs = cc_MaxBlobs f\<rparr>]\<rparr>))"

definition withoutFork ::
    "clNetwork \<Rightarrow> clNetwork \<Rightarrow> CancelledCLFork \<Rightarrow> byte list \<Rightarrow> cancellation \<Rightarrow> (clNetwork \<times> bool \<times> cancellation) result" where
  "withoutFork c compiled f version out =
     (if is_prefix ''BPO'' (map upper_char (cc_Name f)) then without_bpo c compiled f version out
      else without_named c f version out)"

section \<open>One cancellation\<close>

definition compiledELFork :: "Network \<Rightarrow> string \<Rightarrow> u64 \<Rightarrow> bool" where
  "compiledELFork n name at = list_ex (\<lambda>f. ef_name f = name \<and> ef_time f = at) (compiledELForks n)"

definition compiledELName :: "Network \<Rightarrow> string \<Rightarrow> bool" where
  "compiledELName n name = list_ex (\<lambda>f. ef_name f = name) (compiledELForks n)"

definition new_cancellation :: "string \<Rightarrow> cancellation" where
  "new_cancellation fork = \<lparr>ca_fork = fork, ca_elName = [], ca_elTime = 0, ca_clName = [], ca_clEpoch = 0,
     ca_clVersion = replicate 4 0, ca_clPreDigest = replicate 4 0, ca_clPostDigest = replicate 4 0,
     ca_clRemovedFork = None, ca_clRemovedBlobs = [], ca_elPreHash = [], ca_elPostHash = []\<rparr>"

definition cancel_el :: "Network \<Rightarrow> CancelledELFork option \<Rightarrow> cancellation \<Rightarrow> (cancellation \<times> string list) result" where
  "cancel_el n entry out =
     (case entry of
        None \<Rightarrow> Inr (out, [])
      | Some e \<Rightarrow>
          if el_Name e = [] \<or> el_Time e = 0 then Inl (CancelError ''el needs name and time'')
          else let out = out\<lparr>ca_elName := el_Name e, ca_elTime := el_Time e\<rparr> in
          if compiledELFork n (el_Name e) (el_Time e) then Inr (out, [])
          else if compiledELName n (el_Name e) then Inl (CancelError ''el scheduled at another time'')
          else Inr (out, [nw_Name n @ '' el '' @ el_Name e]))"

definition cancel_cl ::
    "Network \<Rightarrow> CancelledCLFork option \<Rightarrow> cancellation \<Rightarrow> (cancellation \<times> string list \<times> Network) result" where
  "cancel_cl n entry out =
     (case entry of
        None \<Rightarrow> Inr (out, [], n)
      | Some f \<Rightarrow>
          (case (nw_cl n, nw_originalCL n) of
             (Some c, Some compiled) \<Rightarrow>
               if cc_Name f = [] \<or> cc_Epoch f = 0 \<or> cc_Epoch f = max_uint64
               then Inl (CancelError ''cl needs name and a scheduled epoch'')
               else bind_err (decodeVersion (cc_Version f)) (\<lambda>version.
                 bind_err (withoutFork c compiled f version
                     (out\<lparr>ca_clName := cc_Name f, ca_clEpoch := cc_Epoch f, ca_clVersion := version\<rparr>))
                   (\<lambda>(canonical, present, out).
                      Inr (out, if present then [] else [nw_Name n @ '' cl '' @ cc_Name f], n\<lparr>nw_cl := Some canonical\<rparr>)))
           | _ \<Rightarrow> Inl (CancelError ''network has no consensus schedule'')))"

definition Network_cancel :: "Network \<Rightarrow> CancelledFork \<Rightarrow> (cancellation \<times> string list \<times> Network) result" where
  "Network_cancel n c =
     (if cn_Fork c = [] then Inl (CancelError ''fork name is required'')
      else if cn_EL c = None \<and> cn_CL c = None then Inl (CancelError ''an el or cl entry is required'')
      else bind_err (cancel_el n (cn_EL c) (new_cancellation (cn_Fork c))) (\<lambda>(out, absentEL).
        bind_err (cancel_cl n (cn_CL c) out) (\<lambda>(out, absentCL, n).
          if hasEL out \<and> hasCL out \<and>
             (case nw_cl n of None \<Rightarrow> False | Some cl \<Rightarrow> sint (ca_elTime out) \<noteq> Unix64 (timeAtEpoch cl (ca_clEpoch out)))
          then Inl (CancelError ''different instants'')
          else Inr (out, absentEL @ absentCL, n))))"

section \<open>Digests of cancelled forks\<close>

definition shadow_schedule :: "clNetwork \<Rightarrow> cancellation \<Rightarrow> clNetwork" where
  "shadow_schedule cl c =
     (let s = cl_clone cl;
          s = (case ca_clRemovedFork c of
                 Some f \<Rightarrow> s\<lparr>cl_forks := sort_key cf_epoch (cl_forks s @ [f])\<rparr>
               | None \<Rightarrow> s\<lparr>cancelledBPOs := removeAll (ca_clEpoch c) (cancelledBPOs s)\<rparr>)
      in if ca_clRemovedBlobs c \<noteq> [] then s\<lparr>blobSchedule := sort_key bp_epoch (blobSchedule s @ ca_clRemovedBlobs c)\<rparr> else s)"

definition cancellation_digests :: "clNetwork \<Rightarrow> cancellation \<Rightarrow> cancellation result" where
  "cancellation_digests cl c =
     (if \<not> hasCL c then Inr c
      else bind_err (digestAt cl (ca_clEpoch c - 1)) (\<lambda>(pre, _).
        bind_err (digestAt (shadow_schedule cl c) (ca_clEpoch c)) (\<lambda>(post, _).
          Inr (c\<lparr>ca_clPreDigest := pre, ca_clPostDigest := post\<rparr>))))"

fun map_err :: "('a \<Rightarrow> 'e + 'b) \<Rightarrow> 'a list \<Rightarrow> 'e + 'b list" where
  "map_err f [] = Inr []"
| "map_err f (x # xs) = bind_err (f x) (\<lambda>y. bind_err (map_err f xs) (\<lambda>ys. Inr (y # ys)))"

definition add_new :: "'a list \<Rightarrow> 'a list \<Rightarrow> 'a list" where
  "add_new xs out = fold (\<lambda>x out. if x \<in> set out then out else out @ [x]) xs out"

definition digests_of :: "clNetwork \<Rightarrow> byte list list" where
  "digests_of c = (case cl_digests c of None \<Rightarrow> [] | Some ds \<Rightarrow> ds)"

definition cancelledCLDigests :: "clNetwork \<Rightarrow> clNetwork option \<Rightarrow> cancellation list \<Rightarrow> byte list list" where
  "cancelledCLDigests cl original cs =
     (let posts = add_new (map ca_clPostDigest (filter hasCL cs)) []
      in sort (case original of
           None \<Rightarrow> posts
         | Some o' \<Rightarrow> add_new (filter (\<lambda>d. d \<notin> set (digests_of (compute cl))) (digests_of (compute o'))) posts))"

definition cancelledDigests :: "Network \<Rightarrow> Network result" where
  "cancelledDigests n =
     (case nw_cl n of
        None \<Rightarrow> Inl (CancelError ''panic'')
      | Some cl \<Rightarrow>
          bind_err (map_err (cancellation_digests cl) (nw_cancellations n)) (\<lambda>cs.
            Inr (n\<lparr>nw_cancellations := cs, nw_cl := Some (compute cl), nw_originalCL := map_option compute (nw_originalCL n),
                   nw_cancelledCLHex := map hex_EncodeToString (cancelledCLDigests cl (nw_originalCL n) cs)\<rparr>)))"

section \<open>Applying a list\<close>

text \<open>A network as it was compiled, before any cancellation or use.\<close>

definition unloadedCopy :: "Network \<Rightarrow> Network" where
  "unloadedCopy n = n\<lparr>nw_cl := (case nw_originalCL n of Some o' \<Rightarrow> Some (cl_clone o') | None \<Rightarrow> map_option cl_clone (nw_cl n)),
     nw_cancellations := [], nw_originalCL := None, nw_cancelledHashes := [], nw_cancelledELHex := [], nw_cancelledCLHex := [],
     nw_loaded := False, nw_elForks := [], nw_idBlocks := [], nw_idTimes := [], nw_hashes := None, nw_fork := None\<rparr>"

definition cancel_step :: "CancelledFork \<Rightarrow> Network \<Rightarrow> (string list \<times> Network) result" where
  "cancel_step c n0 =
     (let n1 = (if nw_originalCL n0 = None then n0\<lparr>nw_originalCL := map_option cl_clone (nw_cl n0)\<rparr> else n0) in
      bind_err (Network_cancel n1 c) (\<lambda>(got, absent, n).
        Inr (absent, n\<lparr>nw_cancellations := sort_key (ca_at n) (nw_cancellations n @ [got])\<rparr>)))"

fun apply_entries ::
    "(string \<Rightarrow> 's \<Rightarrow> Network result) \<Rightarrow> (Network \<Rightarrow> 's \<Rightarrow> 's) \<Rightarrow> CancelledFork list \<Rightarrow> string list \<Rightarrow> string list \<Rightarrow> 's \<Rightarrow>
      (string list \<times> string list \<times> 's) result" where
  "apply_entries get upd [] seen touched s = Inr ([], touched, s)"
| "apply_entries get upd (c # cs) seen touched s =
     (let key = cn_Network c @ ''/'' @ strings_ToLower (cn_Fork c) in
      if key \<in> set seen then Inl (CancelError ''duplicate entry'')
      else bind_err (get (cn_Network c) s) (\<lambda>n0.
        bind_err (cancel_step c n0) (\<lambda>(absent, n).
          bind_err (apply_entries get upd cs (key # seen) (List.insert (cn_Network c) touched) (upd n s))
            (\<lambda>(rest, touched, s). Inr (absent @ rest, touched, s)))))"

fun apply_digests ::
    "(string \<Rightarrow> 's \<Rightarrow> Network result) \<Rightarrow> (Network \<Rightarrow> 's \<Rightarrow> 's) \<Rightarrow> string list \<Rightarrow> 's \<Rightarrow> 's result" where
  "apply_digests get upd [] s = Inr s"
| "apply_digests get upd (name # names) s =
     bind_err (get name s) (\<lambda>n. bind_err (cancelledDigests n) (\<lambda>n'. apply_digests get upd names (upd n' s)))"

definition applyCancellations ::
    "(string \<Rightarrow> 's \<Rightarrow> Network result) \<Rightarrow> (Network \<Rightarrow> 's \<Rightarrow> 's) \<Rightarrow> CancelledFork list \<Rightarrow> 's \<Rightarrow> (string list \<times> 's) result" where
  "applyCancellations get upd list s =
     bind_err (apply_entries get upd list [] [] s) (\<lambda>(absent, touched, s).
       bind_err (apply_digests get upd touched s) (\<lambda>s. Inr (absent, s)))"

definition get_unused :: "string \<Rightarrow> registry \<Rightarrow> Network result" where
  "get_unused name reg =
     bind_err (Get reg name) (\<lambda>n. if nw_loaded n then Inl (CancelError ''network already in use'') else Inr n)"

definition upd_registry :: "Network \<Rightarrow> registry \<Rightarrow> registry" where
  "upd_registry n reg = map (\<lambda>x. if nw_Name x = nw_Name n then n else x) reg"

definition ApplyCancellations :: "CancelledFork list \<Rightarrow> registry \<Rightarrow> (string list \<times> registry) result" where
  "ApplyCancellations list reg = applyCancellations get_unused upd_registry list reg"

definition get_copy :: "registry \<Rightarrow> string \<Rightarrow> (string, Network) gomap \<Rightarrow> Network result" where
  "get_copy reg name copies =
     (case map_of copies name of
        Some n \<Rightarrow> Inr n
      | None \<Rightarrow> bind_err (Get reg name) (\<lambda>n. Inr (unloadedCopy n)))"

definition upd_copy :: "Network \<Rightarrow> (string, Network) gomap \<Rightarrow> (string, Network) gomap" where
  "upd_copy n copies = AList.update (nw_Name n) n copies"

definition ValidateCancellations :: "registry \<Rightarrow> CancelledFork list \<Rightarrow> neterror option" where
  "ValidateCancellations reg list =
     (case applyCancellations (get_copy reg) upd_copy list [] of Inl e \<Rightarrow> Some e | Inr _ \<Rightarrow> None)"

end
