(* ===== verification/CancelProps.thy ===== *)
theory CancelProps
  imports CancelForks
begin

text \<open>
  The check of a reloaded cancellation list is exact: it succeeds on the fresh copies of a running
  process precisely when a restart with that list would. Both sides go through one contract, a source
  of networks that behaves like a map.
\<close>

section \<open>Errors as options\<close>

fun ok :: "'e + 'a \<Rightarrow> 'a option" where
  "ok (Inl _) = None"
| "ok (Inr x) = Some x"

lemma ok_bind: "ok (bind_err r f) = Option.bind (ok r) (\<lambda>x. ok (f x))"
  by (cases r) auto

lemma bind_err_Inr: "bind_err r f = Inr y \<longleftrightarrow> (\<exists>x. r = Inr x \<and> f x = Inr y)"
  by (cases r) auto

section \<open>What a cancellation keeps\<close>

lemma clone_compute [simp]: "cl_clone (compute c) = cl_clone c" "cl_clone (cl_clone c) = cl_clone c"
  by (simp_all add: cl_clone_def compute_def split: option.splits)

lemma cancel_cl_frame:
  assumes "cancel_cl n e out = Inr (out', absent, n')"
  shows "n' = n \<or> nw_originalCL n \<noteq> None \<and> (\<exists>c. n' = n\<lparr>nw_cl := Some c\<rparr>)"
  using assms by (auto simp: cancel_cl_def bind_err_Inr split: option.splits if_splits prod.splits)

lemma Network_cancel_frame:
  assumes "Network_cancel n c = Inr (got, absent, n')"
  shows "n' = n \<or> nw_originalCL n \<noteq> None \<and> (\<exists>cl. n' = n\<lparr>nw_cl := Some cl\<rparr>)"
proof -
  obtain e out out' ab where "cancel_cl n e out = Inr (out', ab, n')"
    using assms by (auto simp: Network_cancel_def bind_err_Inr split: if_splits prod.splits)
  then show ?thesis by (rule cancel_cl_frame)
qed

lemma cancel_step_frame:
  assumes "cancel_step c n = Inr (absent, n')"
  shows "nw_Name n' = nw_Name n \<and> nw_loaded n' = nw_loaded n \<and> unloadedCopy n' = unloadedCopy n"
proof -
  define n1 where "n1 = (if nw_originalCL n = None then n\<lparr>nw_originalCL := map_option cl_clone (nw_cl n)\<rparr> else n)"
  obtain got n2 where n2: "Network_cancel n1 c = Inr (got, absent, n2)"
    and n': "n' = n2\<lparr>nw_cancellations := sort_key (ca_at n2) (nw_cancellations n2 @ [got])\<rparr>"
    using assms by (auto simp: cancel_step_def Let_def bind_err_Inr n1_def)
  have "nw_Name n1 = nw_Name n" "nw_loaded n1 = nw_loaded n" "unloadedCopy n1 = unloadedCopy n"
    by (cases "nw_cl n"; simp add: n1_def unloadedCopy_def)+
  moreover have "nw_Name n2 = nw_Name n1" "nw_loaded n2 = nw_loaded n1" "unloadedCopy n2 = unloadedCopy n1"
    using Network_cancel_frame [OF n2] by (auto simp: unloadedCopy_def split: option.splits)
  moreover have "nw_Name n' = nw_Name n2" "nw_loaded n' = nw_loaded n2" "unloadedCopy n' = unloadedCopy n2"
    by (simp_all add: n' unloadedCopy_def split: option.split)
  ultimately show ?thesis by simp
qed

lemma cancelledDigests_frame:
  assumes "cancelledDigests n = Inr n'"
  shows "nw_Name n' = nw_Name n \<and> nw_loaded n' = nw_loaded n \<and> unloadedCopy n' = unloadedCopy n"
  using assms by (auto simp: cancelledDigests_def bind_err_Inr unloadedCopy_def split: option.splits)

section \<open>The contract of a source of networks\<close>

definition map_get :: "string \<Rightarrow> (string \<Rightarrow> Network option) \<Rightarrow> Network result" where
  "map_get k m = (case m k of None \<Rightarrow> Inl (UnknownNetwork k) | Some n \<Rightarrow> Inr n)"

definition map_upd :: "Network \<Rightarrow> (string \<Rightarrow> Network option) \<Rightarrow> string \<Rightarrow> Network option" where
  "map_upd n m = m(nw_Name n \<mapsto> n)"

locale network_source =
  fixes get :: "string \<Rightarrow> 's \<Rightarrow> Network result"
    and upd :: "Network \<Rightarrow> 's \<Rightarrow> 's"
    and view :: "'s \<Rightarrow> string \<Rightarrow> Network option"
    and inv :: "'s \<Rightarrow> bool"
  assumes get_view: "inv s \<Longrightarrow> ok (get k s) = view s k"
    and view_name: "inv s \<Longrightarrow> view s k = Some n \<Longrightarrow> nw_Name n = k \<and> \<not> nw_loaded n"
    and upd_view: "inv s \<Longrightarrow> view s (nw_Name n) \<noteq> None \<Longrightarrow> \<not> nw_loaded n \<Longrightarrow> view (upd n s) = map_upd n (view s)"
    and upd_inv: "inv s \<Longrightarrow> view s (nw_Name n) \<noteq> None \<Longrightarrow> \<not> nw_loaded n \<Longrightarrow> inv (upd n s)"
begin

lemma upd_step:
  assumes "inv s" and "view s k = Some n0" and "nw_Name n = nw_Name n0" and "nw_loaded n = nw_loaded n0"
  shows "inv (upd n s)" and "view (upd n s) = map_upd n (view s)"
  using assms view_name [OF assms(1,2)] upd_view [OF assms(1), of n] upd_inv [OF assms(1), of n] by auto

lemma entries_as_map:
  assumes "inv s"
  shows "ok (apply_entries map_get map_upd cs seen touched (view s)) =
      map_option (\<lambda>(a, t, s'). (a, t, view s')) (ok (apply_entries get upd cs seen touched s)) \<and>
    (\<forall>a t s'. apply_entries get upd cs seen touched s = Inr (a, t, s') \<longrightarrow> inv s')"
  using assms
proof (induction cs arbitrary: seen touched s)
  case (Cons c cs)
  let ?key = "cn_Network c @ ''/'' @ strings_ToLower (cn_Fork c)"
  show ?case
  proof (cases "?key \<in> set seen \<or> view s (cn_Network c) = None")
    case True
    then show ?thesis using get_view [OF Cons.prems, of "cn_Network c"]
      by (cases "get (cn_Network c) s") (auto simp: Let_def map_get_def)
  next
    case False
    then obtain n0 where n0: "view s (cn_Network c) = Some n0" by auto
    then have g: "get (cn_Network c) s = Inr n0" using get_view [OF Cons.prems, of "cn_Network c"]
      by (cases "get (cn_Network c) s") auto
    show ?thesis
    proof (cases "cancel_step c n0")
      case (Inl e)
      then show ?thesis using False g n0 by (simp add: Let_def map_get_def)
    next
      case (Inr an)
      obtain absent n where an: "an = (absent, n)" by (cases an)
      note fr = cancel_step_frame [OF Inr [unfolded an]]
      note st = upd_step [OF Cons.prems n0, of n]
      from Cons.IH [of "upd n s" "?key # seen" "List.insert (cn_Network c) touched"] st fr
      show ?thesis using False g n0 Inr an
        by (auto simp: Let_def map_get_def ok_bind bind_err_Inr option.map_comp split: prod.splits
            intro!: option.map_cong split: bind_splits) 
    qed
  qed
qed simp

lemma digests_as_map:
  assumes "inv s"
  shows "ok (apply_digests map_get map_upd names (view s)) = map_option view (ok (apply_digests get upd names s))"
  using assms
proof (induction names arbitrary: s)
  case (Cons k names)
  show ?case
  proof (cases "view s k")
    case None
    then show ?thesis using get_view [OF Cons.prems, of k] by (cases "get k s") (auto simp: map_get_def)
  next
    case (Some n)
    then have g: "get k s = Inr n" using get_view [OF Cons.prems, of k] by (cases "get k s") auto
    show ?thesis
    proof (cases "cancelledDigests n")
      case (Inl e)
      then show ?thesis by (simp add: g Some map_get_def)
    next
      case (Inr n')
      note st = upd_step [OF Cons.prems Some, of n']
      show ?thesis using Cons.IH [of "upd n' s"] st cancelledDigests_frame [OF Inr] Inr by (simp add: g Some map_get_def)
    qed
  qed
qed simp

lemma apply_as_map:
  assumes "inv s"
  shows "ok (applyCancellations map_get map_upd cs (view s)) =
    map_option (\<lambda>(a, s'). (a, view s')) (ok (applyCancellations get upd cs s))"
proof (cases "apply_entries get upd cs [] [] s")
  case (Inl e)
  then show ?thesis using entries_as_map [OF assms, of cs "[]" "[]"]
    by (cases "apply_entries map_get map_upd cs [] [] (view s)") (auto simp: applyCancellations_def)
next
  case (Inr r)
  obtain a t s1 where r: "r = (a, t, s1)" by (metis surj_pair)
  have m: "apply_entries map_get map_upd cs [] [] (view s) = Inr (a, t, view s1)" and inv: "inv s1"
    using entries_as_map [OF assms, of cs "[]" "[]"] Inr r
    by (cases "apply_entries map_get map_upd cs [] [] (view s)"; auto)+
  show ?thesis using digests_as_map [OF inv, of t]
    by (cases "apply_digests get upd t s1"; cases "apply_digests map_get map_upd t (view s1)")
      (simp_all add: applyCancellations_def Inr r m)
qed

end

section \<open>The registry and the copies\<close>

definition registry_view :: "registry \<Rightarrow> string \<Rightarrow> Network option" where
  "registry_view reg k = (case Get reg k of Inl _ \<Rightarrow> None | Inr n \<Rightarrow> if nw_loaded n then None else Some n)"

definition copy_view :: "registry \<Rightarrow> (string, Network) gomap \<Rightarrow> string \<Rightarrow> Network option" where
  "copy_view reg copies k =
     (case map_of copies k of
        Some n \<Rightarrow> Some n
      | None \<Rightarrow> (case Get reg k of Inl _ \<Rightarrow> None | Inr n \<Rightarrow> Some (unloadedCopy n)))"

definition copies_ok :: "(string, Network) gomap \<Rightarrow> bool" where
  "copies_ok copies \<longleftrightarrow> (\<forall>k n. map_of copies k = Some n \<longrightarrow> nw_Name n = k \<and> \<not> nw_loaded n)"

lemma Get_name: "Get reg k = Inr n \<Longrightarrow> nw_Name n = k"
  by (auto simp: Get_def find_Some_iff split: option.splits)

lemma Get_Cons: "Get (x # reg) k = (if nw_Name x = k then Inr x else Get reg k)"
  by (simp add: Get_def)

lemma Get_upd:
  "Get (upd_registry n reg) k =
     (case Get reg k of Inl e \<Rightarrow> Inl e | Inr x \<Rightarrow> if k = nw_Name n then Inr n else Inr x)"
proof (induction reg)
  case (Cons x reg)
  then show ?case by (auto simp: upd_registry_def Get_Cons split: sum.splits)
qed (simp add: upd_registry_def Get_def)

interpretation live: network_source get_unused upd_registry registry_view "\<lambda>_. True"
proof unfold_locales
  fix s k show "ok (get_unused k s) = registry_view s k"
    by (simp add: get_unused_def registry_view_def ok_bind split: sum.splits)
next
  fix s k n assume "registry_view s k = Some n"
  then show "nw_Name n = k \<and> \<not> nw_loaded n"
    by (auto simp: registry_view_def dest: Get_name split: sum.splits if_splits)
next
  fix s and n :: Network assume "registry_view s (nw_Name n) \<noteq> None" "\<not> nw_loaded n"
  then show "registry_view (upd_registry n s) = map_upd n (registry_view s)"
    by (intro ext) (auto simp: registry_view_def map_upd_def Get_upd split: sum.splits if_splits)
qed simp

interpretation copies: network_source "get_copy reg" upd_copy "copy_view reg" copies_ok for reg
proof unfold_locales
  fix s :: "(string, Network) gomap" and k
  show "ok (get_copy reg k s) = copy_view reg s k"
    by (cases "Get reg k") (simp_all add: get_copy_def copy_view_def split: option.splits)
next
  fix s k n assume "copies_ok s" "copy_view reg s k = Some n"
  then show "nw_Name n = k \<and> \<not> nw_loaded n"
    by (auto simp: copies_ok_def copy_view_def unloadedCopy_def dest: Get_name split: sum.splits option.splits)
next
  fix s :: "(string, Network) gomap" and n
  show "copy_view reg (upd_copy n s) = map_upd n (copy_view reg s)"
    by (intro ext) (auto simp: copy_view_def map_upd_def upd_copy_def map_of_update split: option.splits sum.splits)
next
  fix s and n :: Network assume "copies_ok s" "\<not> nw_loaded n"
  then show "copies_ok (upd_copy n s)" by (auto simp: copies_ok_def upd_copy_def map_of_update split: if_splits)
qed

section \<open>The compiled networks survive\<close>

definition compiled_view :: "registry \<Rightarrow> string \<Rightarrow> Network option" where
  "compiled_view reg k = (case Get reg k of Inl _ \<Rightarrow> None | Inr n \<Rightarrow> Some (unloadedCopy n))"

lemma compiled_upd:
  assumes "Get reg (nw_Name n) = Inr n0" and "unloadedCopy n = unloadedCopy n0"
  shows "compiled_view (upd_registry n reg) = compiled_view reg"
  using assms by (intro ext) (auto simp: compiled_view_def Get_upd split: sum.splits)

lemma get_unused_Inr: "get_unused k reg = Inr n \<Longrightarrow> Get reg k = Inr n \<and> nw_Name n = k"
  by (auto simp: get_unused_def bind_err_Inr dest: Get_name split: if_splits)

lemma entries_compiled:
  "apply_entries get_unused upd_registry cs seen touched reg = Inr (a, t, reg') \<Longrightarrow> compiled_view reg' = compiled_view reg"
proof (induction cs arbitrary: seen touched reg a)
  case (Cons c cs)
  obtain n0 absent n seen' touched' a' where "get_unused (cn_Network c) reg = Inr n0" "cancel_step c n0 = Inr (absent, n)"
    "apply_entries get_unused upd_registry cs seen' touched' (upd_registry n reg) = Inr (a', t, reg')"
    using Cons.prems by (auto simp: Let_def bind_err_Inr split: if_splits prod.splits)
  then show ?case using Cons.IH cancel_step_frame get_unused_Inr compiled_upd by metis
qed simp

lemma digests_compiled:
  "apply_digests get_unused upd_registry names reg = Inr reg' \<Longrightarrow> compiled_view reg' = compiled_view reg"
proof (induction names arbitrary: reg)
  case (Cons k names)
  obtain n n' where "get_unused k reg = Inr n" "cancelledDigests n = Inr n'"
    "apply_digests get_unused upd_registry names (upd_registry n' reg) = Inr reg'"
    using Cons.prems by (auto simp: bind_err_Inr)
  then show ?case using Cons.IH cancelledDigests_frame get_unused_Inr compiled_upd by metis
qed simp

lemma apply_compiled:
  assumes "ApplyCancellations cs reg = Inr (a, reg')"
  shows "compiled_view reg' = compiled_view reg"
proof -
  obtain t reg1 where "apply_entries get_unused upd_registry cs [] [] reg = Inr (a, t, reg1)"
    "apply_digests get_unused upd_registry t reg1 = Inr reg'"
    using assms by (auto simp: ApplyCancellations_def applyCancellations_def bind_err_Inr)
  then show ?thesis using entries_compiled digests_compiled by metis
qed

lemma unloadedCopy_load: "unloadedCopy (load n) = unloadedCopy n \<and> nw_Name (load n) = nw_Name n"
proof -
  have one: "unloadedCopy (add_cancelled m x n) = unloadedCopy n" "nw_Name (add_cancelled m x n) = nw_Name n" for m x n
    by (cases x; simp add: add_cancelled_def unloadedCopy_def split: option.splits)+
  have add: "unloadedCopy (fold (add_cancelled m) xs n) = unloadedCopy n \<and> nw_Name (fold (add_cancelled m) xs n) = nw_Name n" for m xs n
    by (induction xs arbitrary: n) (simp_all add: one)
  have ix: "unloadedCopy (indexCancellations n) = unloadedCopy n \<and> nw_Name (indexCancellations n) = nw_Name n" for n
    by (simp add: indexCancellations_def Let_def add) (simp add: unloadedCopy_def split: option.splits)
  show ?thesis by (simp add: load_def Let_def ix) (simp add: unloadedCopy_def split: option.splits)
qed

lemma compiled_load: "compiled_view (map load reg) = compiled_view reg"
proof (rule ext)
  show "compiled_view (map load reg) k = compiled_view reg k" for k
  proof (induction reg)
    case (Cons n reg)
    then show ?case using unloadedCopy_load [of n] by (auto simp: compiled_view_def Get_Cons)
  qed simp
qed

lemma fresh_view:
  assumes "\<forall>n\<in>set reg. unloadedCopy n = n"
  shows "registry_view reg = compiled_view reg"
proof (rule ext)
  fix k show "registry_view reg k = compiled_view reg k"
  proof (cases "Get reg k")
    case (Inr n)
    then have "n \<in> set reg" by (auto simp: Get_def find_Some_iff split: option.splits)
    then have "unloadedCopy n = n" using assms by blast
    moreover have "\<not> nw_loaded (unloadedCopy n)" by (simp add: unloadedCopy_def)
    ultimately show ?thesis by (simp add: registry_view_def compiled_view_def Inr)
  qed (simp add: registry_view_def compiled_view_def)
qed

lemma validate_iff_apply:
  assumes "\<forall>n\<in>set reg. unloadedCopy n = n" and "compiled_view running = compiled_view reg"
  shows "ValidateCancellations running cs = None \<longleftrightarrow> (\<exists>r. ApplyCancellations cs reg = Inr r)"
proof -
  have "compiled_view running = copy_view running []" by (intro ext) (simp add: compiled_view_def copy_view_def)
  then have views: "registry_view reg = copy_view running []" using fresh_view [OF assms(1)] assms(2) by simp
  let ?m = "ok (applyCancellations map_get map_upd cs (registry_view reg))"
  have "?m \<noteq> None \<longleftrightarrow> ok (ApplyCancellations cs reg) \<noteq> None"
    using live.apply_as_map [OF TrueI, of cs reg] by (simp add: ApplyCancellations_def)
  moreover have "?m \<noteq> None \<longleftrightarrow> ok (applyCancellations (get_copy running) upd_copy cs []) \<noteq> None"
    using copies.apply_as_map [where s = "[]" and reg = running and cs = cs] by (simp add: views copies_ok_def)
  ultimately show ?thesis
    by (cases "ApplyCancellations cs reg"; cases "applyCancellations (get_copy running) upd_copy cs []")
      (auto simp: ValidateCancellations_def)
qed

text \<open>C25: A cancellation list that a running process checks against its networks, all of them in use and
  under an earlier list, passes exactly when a restart that applies it to the compiled networks
  succeeds.\<close>

theorem reload_check_predicts_restart:
  assumes "\<forall>n\<in>set reg. unloadedCopy n = n" and "ApplyCancellations oldList reg = Inr (absent, running)"
  shows "ValidateCancellations (map load running) newList = None \<longleftrightarrow> (\<exists>a reg'. ApplyCancellations newList reg = Inr (a, reg'))"
  using validate_iff_apply [OF assms(1), of "map load running" newList] apply_compiled [OF assms(2)]
  by (simp add: compiled_load)

text \<open>A sample network without scheduled forks, and a list that cancels one of its execution forks.\<close>

definition sample_cl :: clNetwork where
  "sample_cl = \<lparr>cl_name = ''x'', gvr = [], genesisTime = 1, secondsPerSlot = 12, slotsPerEpoch = 32, cl_forks = [],
     fuluEpoch = max_uint64, blobSchedule = [], cancelledBPOs = [], cl_digests = None, cl_state = None\<rparr>"

definition sample_network :: Network where
  "sample_network = \<lparr>nw_Name = ''x'', nw_NetworkID = 1, nw_ChainConfig = [], nw_genesisHash = [], nw_genesisTime = 0,
     nw_genesisDifficulty = 0, nw_cl = Some sample_cl, nw_bootnodes = [], nw_clBootnodes = [], nw_extraELForks = [],
     nw_cancellations = [], nw_originalCL = None, nw_cancelledHashes = [], nw_cancelledELHex = [], nw_cancelledCLHex = [],
     nw_loaded = False, nw_elForks = [], nw_idBlocks = [], nw_idTimes = [], nw_hashes = None, nw_fork = None\<rparr>"

definition sample_cancel :: "string \<Rightarrow> CancelledFork" where
  "sample_cancel name = \<lparr>cn_Network = ''x'', cn_Fork = ''f'', cn_EL = Some \<lparr>el_Name = name, el_Time = 7\<rparr>, cn_CL = None\<rparr>"

lemmas sample_cancel_eval =
  ApplyCancellations_def applyCancellations_def Let_def get_unused_def Get_def sample_network_def sample_cancel_def
  cancel_step_def Network_cancel_def cancel_el_def cancel_cl_def compiledELFork_def compiledELName_def compiledELForks_def
  mergeELForks_def forkTimes_def elScheduleOverrides_def hasCL_def hasEL_def new_cancellation_def upd_registry_def
  cancelledDigests_def cancellation_digests_def cancelledCLDigests_def add_new_def digests_of_def compute_def sample_cl_def
  cl_clone_def

theorem reload_check_predicts_restart_witness:
  "\<exists>absent running. ApplyCancellations [sample_cancel ''a''] [sample_network] = Inr (absent, running) \<and>
     ValidateCancellations (map load running) [sample_cancel ''b''] = None \<and>
     ValidateCancellations (map load running) [sample_cancel []] \<noteq> None"
proof -
  have fresh: "\<forall>n\<in>set [sample_network]. unloadedCopy n = n"
    by (simp add: unloadedCopy_def sample_network_def sample_cl_def cl_clone_def)
  have "\<exists>r. ApplyCancellations [sample_cancel name] [sample_network] = Inr r" if "name = ''a'' \<or> name = ''b''" for name
    using that by (auto simp: sample_cancel_eval)
  then obtain absent running where a: "ApplyCancellations [sample_cancel ''a''] [sample_network] = Inr (absent, running)"
    and b: "\<exists>r. ApplyCancellations [sample_cancel ''b''] [sample_network] = Inr r" by (metis surj_pair)
  have "\<not> (\<exists>r. ApplyCancellations [sample_cancel []] [sample_network] = Inr r)" by (simp add: sample_cancel_eval)
  then show ?thesis
    using reload_check_predicts_restart [OF fresh a, of "[sample_cancel ''b'']"]
      reload_check_predicts_restart [OF fresh a, of "[sample_cancel []]"] a b by auto
qed

end
