(* ===== verification/ForkFile.thy ===== *)
theory ForkFile
  imports Releases CancelProps
begin

text \<open>
  The operator's fork file, \<^verbatim>\<open>internal/forkfile/forkfile.go\<close>: opened at startup, when its cancellations
  are applied, and reloaded while the API runs, when only its releases and notices take effect and
  changed cancellations ask for a restart. The YAML decoder is an argument: what the first document
  decodes to, and whether the stream ends after it. What a read of the file yields is an argument of
  each call. The globals of package netconf, the registry and the data of the file, are one state.
  A missing list of cancellations is different from an empty one, as \<^verbatim>\<open>reflect.DeepEqual\<close> has it.
\<close>

record File =
  fl_Table :: ClientReleaseTable
  fl_CancelledForks :: "CancelledFork list option"
  fl_Notices :: "Notice list"

record ff_env =
  fe_yaml :: "byte list \<Rightarrow> File option \<times> bool"
  fe_url :: url_parser

record globals =
  gl_registry :: registry
  gl_file :: forkFile

record Watcher =
  wt_sum :: "byte list"
  wt_cancelled :: "CancelledFork list option"
  wt_restartRequired :: bool

datatype fileError = FileUnreadable | FileTooLarge | FileUndecodable | ManyDocuments | CancelFailed neterror | FileInvalid "tableError list"

definition forkfile_Decode :: "ff_env \<Rightarrow> byte list \<Rightarrow> fileError + File" where
  "forkfile_Decode env data =
     (case fe_yaml env data of
        (None, _) \<Rightarrow> Inl FileUndecodable
      | (Some f, ended) \<Rightarrow> if ended then Inr f else Inl ManyDocuments)"

definition maxBytes :: nat where
  "maxBytes = 1048576"

definition read_file :: "ff_env \<Rightarrow> byte list option \<Rightarrow> fileError + File \<times> byte list" where
  "read_file env content =
     (case content of
        None \<Rightarrow> Inl FileUnreadable
      | Some data \<Rightarrow>
          if maxBytes < length data then Inl FileTooLarge
          else bind_err (forkfile_Decode env data) (\<lambda>f. Inr (f, sha256_Sum256 data)))"

definition cancelled_list :: "File \<Rightarrow> CancelledFork list" where
  "cancelled_list f = (case fl_CancelledForks f of None \<Rightarrow> [] | Some cs \<Rightarrow> cs)"

definition apply_file :: "CancelledFork list \<Rightarrow> globals \<Rightarrow> fileError + globals" where
  "apply_file cs g =
     (case ApplyCancellations cs (gl_registry g) of
        Inl e \<Rightarrow> Inl (CancelFailed e)
      | Inr (_, reg) \<Rightarrow> Inr (g\<lparr>gl_registry := reg\<rparr>))"

definition forkfile_ApplyCancellations :: "ff_env \<Rightarrow> byte list option \<Rightarrow> globals \<Rightarrow> fileError + globals" where
  "forkfile_ApplyCancellations env content g =
     bind_err (read_file env content) (\<lambda>(f, _). apply_file (cancelled_list f) g)"

definition Watcher_set :: "ff_env \<Rightarrow> File \<Rightarrow> byte list \<Rightarrow> Watcher \<Rightarrow> globals \<Rightarrow> fileError + Watcher \<times> globals" where
  "Watcher_set env f digest w g =
     (case SetForkFileData (gl_registry g) (fe_url env) (fl_Table f) (fl_Notices f) (gl_file g) of
        ([], file) \<Rightarrow> Inr (w\<lparr>wt_sum := digest\<rparr>, g\<lparr>gl_file := file\<rparr>)
      | (errs, _) \<Rightarrow> Inl (FileInvalid errs))"

definition Watcher_Open :: "ff_env \<Rightarrow> byte list option \<Rightarrow> globals \<Rightarrow> fileError + Watcher \<times> globals" where
  "Watcher_Open env content g =
     bind_err (read_file env content) (\<lambda>(f, digest).
       bind_err (apply_file (cancelled_list f) g) (\<lambda>g.
         Watcher_set env f digest
           \<lparr>wt_sum = replicate 32 0, wt_cancelled = fl_CancelledForks f, wt_restartRequired = False\<rparr> g))"

definition Watcher_Reload ::
    "ff_env \<Rightarrow> byte list option \<Rightarrow> Watcher \<Rightarrow> globals \<Rightarrow> fileError option \<times> Watcher \<times> globals" where
  "Watcher_Reload env content w g =
     (case read_file env content of
        Inl e \<Rightarrow> (Some e, w, g)
      | Inr (f, digest) \<Rightarrow>
          if digest = wt_sum w then (None, w, g)
          else let changed = (fl_CancelledForks f \<noteq> wt_cancelled w) in
          case (if changed then ValidateCancellations (gl_registry g) (cancelled_list f) else None) of
            Some e \<Rightarrow> (Some (CancelFailed e), w, g)
          | None \<Rightarrow>
              (case Watcher_set env f digest w g of
                 Inl e \<Rightarrow> (Some e, w, g)
               | Inr (w, g) \<Rightarrow> (None, w\<lparr>wt_restartRequired := changed\<rparr>, g)))"

definition RestartRequired :: "Watcher \<Rightarrow> bool" where
  "RestartRequired w = wt_restartRequired w"

section \<open>A running process\<close>

text \<open>What can happen after the start: a reload of whatever the file then holds, or a use of the networks.\<close>

inductive ff_step :: "ff_env \<Rightarrow> Watcher \<times> globals \<Rightarrow> Watcher \<times> globals \<Rightarrow> bool" for env where
  reload: "Watcher_Reload env content w g = (r, w', g') \<Longrightarrow> ff_step env (w, g) (w', g')"
| in_use: "ff_step env (w, g) (w, g\<lparr>gl_registry := map load (gl_registry g)\<rparr>)"

inductive_cases ff_stepE: "ff_step env (w, g) t"

abbreviation ff_run :: "ff_env \<Rightarrow> Watcher \<times> globals \<Rightarrow> Watcher \<times> globals \<Rightarrow> bool" where
  "ff_run env \<equiv> (ff_step env)\<^sup>*\<^sup>*"

section \<open>Validation sees only the names\<close>

lemma knownNetwork_compiled: "knownNetwork reg k \<longleftrightarrow> compiled_view reg k \<noteq> None"
  by (simp add: knownNetwork_def compiled_view_def split: sum.splits)

lemma SetForkFileData_compiled:
  assumes "compiled_view reg = compiled_view reg'"
  shows "SetForkFileData reg parse t ns ff = SetForkFileData reg' parse t ns ff"
proof -
  have known: "knownNetwork reg = knownNetwork reg'" using assms by (intro ext) (simp add: knownNetwork_compiled)
  have "release_case reg parse = release_case reg' parse" by (intro ext) (simp only: release_case_def known)
  then have "validate_releases reg parse seen rs = validate_releases reg' parse seen rs" for seen rs
    by (induction rs arbitrary: seen) simp_all
  moreover have "notice_errors reg parse = notice_errors reg' parse" by (intro ext) (simp only: notice_errors_def known)
  ultimately show ?thesis by (simp add: SetForkFileData_def Table_Validate_def ValidateNotices_def)
qed

lemma SetForkFileData_Nil:
  assumes "SetForkFileData reg parse t ns ff = ([], ff')"
  shows "clientReleases ff' = t \<and> notices ff' = ns \<and> (\<forall>any. \<exists>new. SetForkFileData reg parse t ns any = ([], new))"
  using assms by (auto simp: SetForkFileData_def split: list.splits)

section \<open>What a running process holds\<close>

text \<open>The file in force: its data is in use, a restart on it from the compiled networks succeeds, and a
  restart is required exactly when its cancellations are not the applied ones.\<close>

definition in_force :: "ff_env \<Rightarrow> globals \<Rightarrow> byte list \<Rightarrow> Watcher \<times> globals \<Rightarrow> bool" where
  "in_force env g0 data s \<longleftrightarrow>
     (case s of (w, g) \<Rightarrow> \<exists>f. read_file env (Some data) = Inr (f, sha256_Sum256 data) \<and> wt_sum w = sha256_Sum256 data \<and>
        clientReleases (gl_file g) = fl_Table f \<and> notices (gl_file g) = fl_Notices f \<and>
        (RestartRequired w \<longleftrightarrow> fl_CancelledForks f \<noteq> wt_cancelled w) \<and>
        (\<exists>w' g'. Watcher_Open env (Some data) g0 = Inr (w', g')))"

definition ff_inv :: "ff_env \<Rightarrow> globals \<Rightarrow> CancelledFork list option \<Rightarrow> Watcher \<times> globals \<Rightarrow> bool" where
  "ff_inv env g0 applied s \<longleftrightarrow> wt_cancelled (fst s) = applied \<and>
     compiled_view (gl_registry (snd s)) = compiled_view (gl_registry g0) \<and> (\<exists>data. in_force env g0 data s)"

lemma read_file_data: "read_file env content = Inr (f, digest) \<Longrightarrow> \<exists>data. content = Some data \<and> digest = sha256_Sum256 data"
  by (auto simp: read_file_def bind_err_Inr split: option.splits if_splits)

lemma Watcher_set_Inr:
  assumes "Watcher_set env f digest w g = Inr (w', g')"
  shows "w' = w\<lparr>wt_sum := digest\<rparr> \<and> gl_registry g' = gl_registry g \<and> clientReleases (gl_file g') = fl_Table f \<and>
    notices (gl_file g') = fl_Notices f \<and>
    (\<forall>w1 g1. compiled_view (gl_registry g1) = compiled_view (gl_registry g) \<longrightarrow> (\<exists>r. Watcher_set env f digest w1 g1 = Inr r))"
proof -
  obtain ff where s: "SetForkFileData (gl_registry g) (fe_url env) (fl_Table f) (fl_Notices f) (gl_file g) = ([], ff)"
    and g': "w' = w\<lparr>wt_sum := digest\<rparr>" "g' = g\<lparr>gl_file := ff\<rparr>"
    using assms by (auto simp: Watcher_set_def split: prod.splits list.splits)
  note n = SetForkFileData_Nil [OF s]
  have "\<exists>r. Watcher_set env f digest w1 g1 = Inr r" if "compiled_view (gl_registry g1) = compiled_view (gl_registry g)" for w1 g1
  proof -
    obtain new where "SetForkFileData (gl_registry g) (fe_url env) (fl_Table f) (fl_Notices f) (gl_file g1) = ([], new)"
      using n by blast
    then show ?thesis using SetForkFileData_compiled [OF that] by (simp add: Watcher_set_def)
  qed
  then show ?thesis using g' n by simp
qed

text \<open>A file whose cancellations apply to the compiled networks and whose data validates opens.\<close>

lemma open_succeeds:
  assumes "read_file env (Some data) = Inr (f, sha256_Sum256 data)" and "ApplyCancellations (cancelled_list f) (gl_registry g0) = Inr r"
    and "Watcher_set env f (sha256_Sum256 data) w g = Inr s" and "compiled_view (gl_registry g) = compiled_view (gl_registry g0)"
  shows "\<exists>w' g'. Watcher_Open env (Some data) g0 = Inr (w', g')"
proof -
  obtain a reg where r: "r = (a, reg)" by (cases r)
  obtain w1 g1 where s: "s = (w1, g1)" by (cases s)
  have "compiled_view reg = compiled_view (gl_registry g)" using apply_compiled [OF assms(2) [unfolded r]] assms(4) by simp
  then obtain q where "Watcher_set env f (sha256_Sum256 data)
      \<lparr>wt_sum = replicate 32 0, wt_cancelled = fl_CancelledForks f, wt_restartRequired = False\<rparr> (g0\<lparr>gl_registry := reg\<rparr>) = Inr q"
    using Watcher_set_Inr [OF assms(3) [unfolded s]] by fastforce
  then show ?thesis using assms(1,2) by (cases q) (simp add: Watcher_Open_def apply_file_def r)
qed

lemma open_inv:
  assumes "Watcher_Open env content g0 = Inr (w, g)"
  obtains f data where "content = Some data" and "read_file env content = Inr (f, sha256_Sum256 data)"
    and "ff_inv env g0 (fl_CancelledForks f) (w, g)" and "\<exists>r. ApplyCancellations (cancelled_list f) (gl_registry g0) = Inr r"
proof -
  obtain f digest g1 where rd: "read_file env content = Inr (f, digest)" and ap: "apply_file (cancelled_list f) g0 = Inr g1"
    and st: "Watcher_set env f digest \<lparr>wt_sum = replicate 32 0, wt_cancelled = fl_CancelledForks f, wt_restartRequired = False\<rparr> g1 = Inr (w, g)"
    using assms by (auto simp: Watcher_Open_def bind_err_Inr)
  obtain data where data: "content = Some data" "digest = sha256_Sum256 data" using read_file_data [OF rd] by blast
  obtain a reg where reg: "ApplyCancellations (cancelled_list f) (gl_registry g0) = Inr (a, reg)" "g1 = g0\<lparr>gl_registry := reg\<rparr>"
    using ap by (auto simp: apply_file_def split: sum.splits)
  note s = Watcher_set_Inr [OF st]
  have "in_force env g0 data (w, g)" using s rd data assms by (auto simp: in_force_def RestartRequired_def)
  moreover have "compiled_view (gl_registry g) = compiled_view (gl_registry g0)" using s reg apply_compiled [OF reg(1)] by simp
  moreover have "wt_cancelled w = fl_CancelledForks f" using s by simp
  ultimately show ?thesis using that [of data f] data rd reg(1) by (auto simp: ff_inv_def)
qed

lemma reload_inv:
  assumes "Watcher_Reload env content w g = (r, w', g')" and "ff_inv env g0 applied (w, g)"
    and "\<forall>n\<in>set (gl_registry g0). unloadedCopy n = n"
    and "\<exists>q. ApplyCancellations (case applied of None \<Rightarrow> [] | Some cs \<Rightarrow> cs) (gl_registry g0) = Inr q"
  shows "ff_inv env g0 applied (w', g')"
proof (cases "(w', g') = (w, g)")
  case False
  obtain f digest where rd: "read_file env content = Inr (f, digest)" using assms(1) False
    by (cases "read_file env content") (auto simp: Watcher_Reload_def)
  let ?changed = "fl_CancelledForks f \<noteq> wt_cancelled w"
  have ok: "?changed \<longrightarrow> ValidateCancellations (gl_registry g) (cancelled_list f) = None"
    using assms(1) False rd by (auto simp: Watcher_Reload_def Let_def split: if_splits option.splits)
  obtain w1 where st: "Watcher_set env f digest w g = Inr (w1, g')" and w': "w' = w1\<lparr>wt_restartRequired := ?changed\<rparr>"
    using assms(1) False rd ok
    by (cases "Watcher_set env f digest w g") (auto simp: Watcher_Reload_def Let_def split: if_splits option.splits)
  obtain data where data: "content = Some data" "digest = sha256_Sum256 data" using read_file_data [OF rd] by blast
  note s = Watcher_set_Inr [OF st]
  have inv: "wt_cancelled w = applied" "compiled_view (gl_registry g) = compiled_view (gl_registry g0)"
    using assms(2) by (auto simp: ff_inv_def)
  have "\<exists>q. ApplyCancellations (cancelled_list f) (gl_registry g0) = Inr q"
  proof (cases ?changed)
    case True
    then show ?thesis using ok validate_iff_apply [OF assms(3) inv(2)] by blast
  next
    case False
    then show ?thesis using assms(4) inv(1) by (simp add: cancelled_list_def)
  qed
  then have "\<exists>w' g'. Watcher_Open env (Some data) g0 = Inr (w', g')"
    using open_succeeds [of env data f g0 _ w g] rd data st inv(2) by blast
  then have "in_force env g0 data (w', g')"
    using s rd data by (auto simp: in_force_def RestartRequired_def w')
  then show ?thesis using s inv w' by (auto simp: ff_inv_def)
qed (use assms(2) in simp)

lemma run_inv:
  assumes "ff_run env s t" and "ff_inv env g0 applied s" and "\<forall>n\<in>set (gl_registry g0). unloadedCopy n = n"
    and "\<exists>q. ApplyCancellations (case applied of None \<Rightarrow> [] | Some cs \<Rightarrow> cs) (gl_registry g0) = Inr q"
  shows "ff_inv env g0 applied t"
  using assms(1,2)
proof (induction rule: rtranclp_induct)
  case (step t u)
  then have t: "ff_inv env g0 applied t" by blast
  obtain w g where tw: "t = (w, g)" by (cases t)
  from step(2) [unfolded tw] show ?case
  proof (rule ff_stepE)
    fix content r w' g' assume "u = (w', g')" "Watcher_Reload env content w g = (r, w', g')"
    then show ?thesis using reload_inv [OF _ t [unfolded tw] assms(3,4)] by blast
  next
    assume "u = (w, g\<lparr>gl_registry := map load (gl_registry g)\<rparr>)"
    then show ?thesis using t by (auto simp: tw ff_inv_def in_force_def compiled_load)
  qed
qed

text \<open>C26: After any sequence of reloads and uses, the releases and notices in use are those of one
  accepted file, a restart is required exactly when its cancellations differ from those applied at the
  start, and a restart on that file from the compiled networks succeeds.\<close>

theorem accepted_file_restarts:
  assumes "\<forall>n\<in>set (gl_registry g0). unloadedCopy n = n" and "Watcher_Open env content g0 = Inr (w, g)"
    and "ff_run env (w, g) (w', g')"
  shows "wt_cancelled w' = wt_cancelled w \<and>
    (\<exists>data f. read_file env (Some data) = Inr (f, wt_sum w') \<and>
       clientReleases (gl_file g') = fl_Table f \<and> notices (gl_file g') = fl_Notices f \<and>
       (RestartRequired w' \<longleftrightarrow> fl_CancelledForks f \<noteq> wt_cancelled w) \<and>
       (\<exists>w1 g1. Watcher_Open env (Some data) g0 = Inr (w1, g1)))"
proof -
  obtain f data where open_: "ff_inv env g0 (fl_CancelledForks f) (w, g)"
    and ap: "\<exists>r. ApplyCancellations (cancelled_list f) (gl_registry g0) = Inr r"
    by (rule open_inv [OF assms(2)])
  have "ff_inv env g0 (fl_CancelledForks f) (w', g')"
    using run_inv [OF assms(3) open_ assms(1)] ap by (simp add: cancelled_list_def)
  then obtain data where "wt_cancelled w' = fl_CancelledForks f" "in_force env g0 data (w', g')" by (auto simp: ff_inv_def)
  moreover have "wt_cancelled w = fl_CancelledForks f" using open_ by (simp add: ff_inv_def)
  ultimately show ?thesis by (auto simp: in_force_def intro!: exI [of _ data])
qed

definition sample_file :: "CancelledFork list option \<Rightarrow> File" where
  "sample_file cs = \<lparr>fl_Table = \<lparr>crt_Updated = [], crt_Releases = []\<rparr>, fl_CancelledForks = cs, fl_Notices = []\<rparr>"

definition ff_sample :: ff_env where
  "ff_sample = \<lparr>fe_yaml = (\<lambda>d. (Some (sample_file (if d = [1] then None else Some [sample_cancel ''b''])), True)), fe_url = (\<lambda>_. None)\<rparr>"

definition sample_globals :: globals where
  "sample_globals = \<lparr>gl_registry = [sample_network],
     gl_file = \<lparr>clientReleases = \<lparr>crt_Updated = ''x'', crt_Releases = []\<rparr>, notices = [], clientReleasesGen = 0\<rparr>\<rparr>"

theorem accepted_file_restarts_witness:
  "\<exists>w g w' g'. Watcher_Open ff_sample (Some [1]) sample_globals = Inr (w, g) \<and>
     Watcher_Reload ff_sample (Some [2]) w (g\<lparr>gl_registry := map load (gl_registry g)\<rparr>) = (None, w', g') \<and>
     clientReleases (gl_file g') = \<lparr>crt_Updated = [], crt_Releases = []\<rparr> \<and>
     (\<exists>data w1 g1. Watcher_Open ff_sample (Some data) sample_globals = Inr (w1, g1) \<and> wt_sum w' = sha256_Sum256 data)"
proof -
  have fresh: "\<forall>n\<in>set (gl_registry sample_globals). unloadedCopy n = n"
    by (simp add: unloadedCopy_def sample_globals_def sample_network_def sample_cl_def cl_clone_def)
  have rd: "read_file ff_sample (Some d) = Inr (sample_file (if d = [1] then None else Some [sample_cancel ''b'']), sha256_Sum256 d)"
    if "length d = 1" for d
    using that by (simp add: read_file_def forkfile_Decode_def ff_sample_def maxBytes_def)
  have set_ok: "\<exists>w' g'. Watcher_set ff_sample (sample_file cs) x w g = Inr (w', g')" for cs x w g
    by (simp add: Watcher_set_def SetForkFileData_def Table_Validate_def ValidateNotices_def sample_file_def)
  have none: "ApplyCancellations [] reg = Inr ([], reg)" for reg by (simp add: ApplyCancellations_def applyCancellations_def)
  have "apply_file (cancelled_list (sample_file None)) sample_globals = Inr sample_globals"
    by (simp add: apply_file_def none cancelled_list_def) (simp add: sample_file_def none)
  then have "\<exists>w g. Watcher_Open ff_sample (Some [1]) sample_globals = Inr (w, g)"
    using set_ok rd [of "[1]"] by (simp add: Watcher_Open_def)
  then obtain w g where o: "Watcher_Open ff_sample (Some [1]) sample_globals = Inr (w, g)" by blast
  define g1 where "g1 = g\<lparr>gl_registry := map load (gl_registry g)\<rparr>"
  obtain f :: File where inv: "ff_inv ff_sample sample_globals (fl_CancelledForks f) (w, g)"
    by (rule open_inv [OF o])
  then have cv: "compiled_view (gl_registry g1) = compiled_view (gl_registry sample_globals)" by (simp add: ff_inv_def g1_def compiled_load)
  have "\<exists>r. ApplyCancellations [sample_cancel ''b''] [sample_network] = Inr r" by (simp add: sample_cancel_eval)
  then have v: "ValidateCancellations (gl_registry g1) [sample_cancel ''b''] = None"
    using validate_iff_apply [OF fresh cv] by (simp add: sample_globals_def)
  have cl: "cancelled_list (sample_file (Some [sample_cancel ''b''])) = [sample_cancel ''b'']"
    by (simp add: cancelled_list_def sample_file_def)
  obtain w2 g2 where st: "Watcher_set ff_sample (sample_file (Some [sample_cancel ''b''])) (sha256_Sum256 [2]) w g1 = Inr (w2, g2)"
    using set_ok by blast
  have "\<exists>w' g'. Watcher_Reload ff_sample (Some [2]) w g1 = (None, w', g')"
    using st rd [of "[2]"] v cl by (cases "sha256_Sum256 [2] = wt_sum w") (simp_all add: Watcher_Reload_def Let_def)
  then obtain w' g' where r: "Watcher_Reload ff_sample (Some [2]) w g1 = (None, w', g')" by blast
  have "ff_run ff_sample (w, g) (w', g')"
    using in_use [of ff_sample w g] reload [OF r] by (simp add: g1_def [symmetric])
  from accepted_file_restarts [OF fresh o this] obtain data f w1 g2 where
    "read_file ff_sample (Some data) = Inr (f, wt_sum w')" "clientReleases (gl_file g') = fl_Table f"
    "Watcher_Open ff_sample (Some data) sample_globals = Inr (w1, g2)" by blast
  moreover from this have "fl_Table f = \<lparr>crt_Updated = [], crt_Releases = []\<rparr> \<and> wt_sum w' = sha256_Sum256 data"
    by (auto simp: read_file_def forkfile_Decode_def ff_sample_def sample_file_def bind_err_Inr split: if_splits)
  ultimately show ?thesis using o r unfolding g1_def by metis
qed

end
