(* ===== verification/DnsSync.thy ===== *)
theory DnsSync
  imports Manifest
begin

text \<open>
  The provider-neutral half of DNS publishing, \<^verbatim>\<open>cmd/dnspublisher/dns.go\<close>: the lifetimes of
  records, the presentation form of their text, and the plan of a reconcile. The second part states
  what a reconcile promises, \<open>sync_spec\<close>, as a relation between the zone before and after, and
  what its clients may conclude from it, in the locale \<open>record_publisher\<close>. Both providers refine it.

  Text is ASCII here, where a rune is a byte. A nil map of retained records, \<open>None\<close>, differs from an
  empty one, as in the code.
\<close>

section \<open>Lifetimes\<close>

definition dnsKey :: "string \<Rightarrow> string" where
  "dnsKey name = strings_ToLower (strings_TrimSuffix name ''.'')"

definition entryTTL :: int where
  "entryTTL = 3600"

definition rootTTL :: int where
  "rootTTL = 300"

definition minPublishInterval :: duration where
  "minPublishInterval = 30 * minute"

definition cloudflareMinTTL :: duration where
  "cloudflareMinTTL = minute"

definition cloudflareMaxTTL :: duration where
  "cloudflareMaxTTL = 24 * hour"

record recordTTLs =
  ttl_entry :: int
  ttl_root :: int

definition defaultTTLs :: recordTTLs where
  "defaultTTLs = \<lparr>ttl_entry = entryTTL, ttl_root = rootTTL\<rparr>"

definition forName :: "recordTTLs \<Rightarrow> string \<Rightarrow> string \<Rightarrow> int" where
  "forName t name domain = (if name = dnsKey domain then ttl_root t else ttl_entry t)"

datatype ttlError = NotWholeSeconds string | Over31Bits string | RejectedByCloudflare string

definition validate_ttl :: "bool \<Rightarrow> string \<Rightarrow> duration \<Rightarrow> ttlError + int" where
  "validate_ttl cloudflare name d =
     (if d < second \<or> d mod second \<noteq> 0 then Inl (NotWholeSeconds name)
      else if 2147483647 < d div second then Inl (Over31Bits name)
      else if cloudflare \<and> (d < cloudflareMinTTL \<or> cloudflareMaxTTL < d) then Inl (RejectedByCloudflare name)
      else Inr (d div second))"

definition validateTTLs :: "duration \<Rightarrow> duration \<Rightarrow> bool \<Rightarrow> ttlError + recordTTLs" where
  "validateTTLs entry root cloudflare =
     bind_err (validate_ttl cloudflare ''--entry-ttl'' entry) (\<lambda>e.
       bind_err (validate_ttl cloudflare ''--root-ttl'' root) (\<lambda>r.
         Inr \<lparr>ttl_entry = e, ttl_root = r\<rparr>))"

section \<open>Text\<close>

fun normalize_loop :: "bool \<Rightarrow> bool \<Rightarrow> string \<Rightarrow> string" where
  "normalize_loop inQuote escaped [] = []"
| "normalize_loop inQuote escaped (r # rs) =
     (if escaped then r # normalize_loop inQuote False rs
      else if r = CHR 0x5C then normalize_loop inQuote True rs
      else if r = CHR 0x22 then normalize_loop (\<not> inQuote) False rs
      else if inQuote then r # normalize_loop inQuote False rs
      else normalize_loop inQuote False rs)"

definition normalizeTXT :: "string \<Rightarrow> string" where
  "normalizeTXT content = (if \<not> is_prefix [CHR 0x22] content then content else normalize_loop False False content)"

section \<open>The plan of a reconcile\<close>

type_synonym txt_records = "(string, string) gomap"

record syncPlan =
  sp_wanted :: txt_records
  sp_entries :: "string list"
  sp_writeRoot :: bool
  sp_stale :: "string list"
  sp_kept :: nat

definition wanted_records :: "txt_records \<Rightarrow> txt_records" where
  "wanted_records want = foldl (\<lambda>m (name, content). AList.update (dnsKey name) content m) [] want"

definition to_write :: "(string, 'r) gomap \<Rightarrow> (string \<Rightarrow> string \<Rightarrow> 'r \<Rightarrow> bool) \<Rightarrow> string \<times> string \<Rightarrow> bool" where
  "to_write existing unchanged = (\<lambda>(name, content).
     case map_of existing name of Some current \<Rightarrow> \<not> unchanged name content current | None \<Rightarrow> True)"

definition planSync ::
  "(string, 'r) gomap \<Rightarrow> string \<Rightarrow> txt_records \<Rightarrow> txt_records option \<Rightarrow> (string \<Rightarrow> string \<Rightarrow> 'r \<Rightarrow> bool) \<Rightarrow> syncPlan"
where
  "planSync existing domain want retain unchanged =
     (let wanted = wanted_records want;
          root = dnsKey domain;
          changed = map fst (filter (to_write existing unchanged) wanted);
          retained = (case retain of None \<Rightarrow> [] | Some r \<Rightarrow> map (dnsKey \<circ> fst) r);
          others = filter (\<lambda>name. name \<notin> fst ` set wanted) (map fst existing);
          keep = (\<lambda>name. name \<in> set retained \<or> retain = None)
      in \<lparr>sp_wanted = wanted, sp_entries = sort (filter (\<lambda>name. name \<noteq> root) changed),
          sp_writeRoot = (root \<in> set changed), sp_stale = sort (filter (\<lambda>name. \<not> keep name) others),
          sp_kept = length (filter keep others)\<rparr>)"

text \<open>How a call to a provider fails, and the stage at which a reconcile stops.\<close>

datatype apiError = ApiError string | StillPending string | ContextDone

datatype syncError = ListRecords apiError | WriteEntries apiError | AwaitEntries apiError | WriteRoot apiError

section \<open>What a reconcile promises\<close>

text \<open>A zone as a resolver sees it: the text and the lifetime under each normalized name.\<close>

type_synonym zone = "string \<rightharpoonup> string \<times> int"

definition under_domain :: "string \<Rightarrow> string \<Rightarrow> bool" where
  "under_domain domain name \<longleftrightarrow> name = dnsKey domain \<or> has_suffix name (''.'' @ dnsKey domain)"

definition wanted_zone :: "recordTTLs \<Rightarrow> string \<Rightarrow> txt_records \<Rightarrow> zone" where
  "wanted_zone ttls domain want name =
     map_option (\<lambda>c. (c, forName ttls name domain)) (map_of (wanted_records want) name)"

definition retained_names :: "txt_records option \<Rightarrow> string set" where
  "retained_names retain = (case retain of None \<Rightarrow> UNIV | Some r \<Rightarrow> (dnsKey \<circ> fst) ` set r)"

definition prunable :: "string \<Rightarrow> txt_records \<Rightarrow> txt_records option \<Rightarrow> string set" where
  "prunable domain want retain =
     {name. under_domain domain name \<and> name \<notin> fst ` set (wanted_records want) \<and> name \<notin> retained_names retain}"

text \<open>
  A failed reconcile has written some of the entries and left the root alone, or it has written
  everything and only the answer was lost. A successful one has written everything. Records are
  removed after everything is written, and only those that are neither wanted nor retained.
\<close>

definition sync_spec :: "recordTTLs \<Rightarrow> string \<Rightarrow> txt_records \<Rightarrow> txt_records option \<Rightarrow> zone \<Rightarrow> bool \<Rightarrow> zone \<Rightarrow> bool" where
  "sync_spec ttls domain want retain v ok v' \<longleftrightarrow>
     (\<not> ok \<and> (\<exists>S. dnsKey domain \<notin> S \<and> v' = v ++ (wanted_zone ttls domain want |` S))) \<or>
     (\<exists>D \<subseteq> prunable domain want retain. (D \<noteq> {} \<longrightarrow> ok) \<and> v' = (v ++ wanted_zone ttls domain want) |` (- D))"

section \<open>The plan serves the specification\<close>

lemma wanted_records_ok: "gomap_ok (wanted_records want)"
proof -
  have "distinct (map fst m) \<Longrightarrow>
      distinct (map fst (foldl (\<lambda>m (name, content). AList.update (dnsKey name) content m) m want))" for m
    by (induction want arbitrary: m) (auto intro: distinct_update)
  then show ?thesis by (simp add: gomap_ok_def wanted_records_def)
qed

lemma wanted_names: "fst ` set (wanted_records want) = (dnsKey \<circ> fst) ` set want"
proof -
  have "fst ` set (foldl (\<lambda>m (name, content). AList.update (dnsKey name) content m) m want) =
      fst ` set m \<union> (dnsKey \<circ> fst) ` set want" for m
  proof (induction want arbitrary: m)
    case (Cons p want)
    obtain n c where "p = (n, c)" by (cases p)
    with Cons show ?case by (simp add: dom_update flip: image_comp)
  qed simp
  then show ?thesis by (simp add: wanted_records_def)
qed

lemma wanted_zone_dom: "dom (wanted_zone ttls domain want) = fst ` set (wanted_records want)"
  by (auto simp: wanted_zone_def dom_def map_of_eq_None_iff)

text \<open>The records a provider lists, read as a zone, are the part of the zone under the domain, and
  a record counts as unchanged when it already reads as wanted.\<close>

definition plan_reads ::
  "('r \<Rightarrow> string \<times> int) \<Rightarrow> recordTTLs \<Rightarrow> string \<Rightarrow> zone \<Rightarrow> (string, 'r) gomap \<Rightarrow> (string \<Rightarrow> string \<Rightarrow> 'r \<Rightarrow> bool) \<Rightarrow> bool"
where
  "plan_reads reading ttls domain v existing unchanged \<longleftrightarrow>
     gomap_ok existing \<and>
     (\<forall>name. map_option reading (map_of existing name) = (if under_domain domain name then v name else None)) \<and>
     (\<forall>name content r. unchanged name content r \<longleftrightarrow> reading r = (content, forName ttls name domain))"

lemma plan_names:
  fixes existing :: "(string, 'r) gomap" and want :: txt_records and retain :: "txt_records option"
  assumes "plan_reads reading ttls domain v existing unchanged"
  defines "p \<equiv> planSync existing domain want retain unchanged"
    and "W \<equiv> wanted_zone ttls domain want" and "root \<equiv> dnsKey domain"
  shows "sp_wanted p = wanted_records want"
    and "set (sp_entries p) \<subseteq> dom W - {root}" and "distinct (sp_entries p)"
    and "sp_writeRoot p \<Longrightarrow> root \<in> dom W"
    and "v ++ (W |` (set (sp_entries p) \<union> (if sp_writeRoot p then {root} else {}))) = v ++ W"
    and "set (sp_stale p) \<subseteq> prunable domain want retain \<inter> fst ` set existing" and "distinct (sp_stale p)"
proof -
  let ?ch = "filter (to_write existing unchanged) (wanted_records want)"
  have ok: "distinct (map fst (wanted_records want))" using wanted_records_ok by (simp add: gomap_ok_def)
  have ok': "distinct (map fst existing)" using assms(1) by (simp add: plan_reads_def gomap_ok_def)
  have ch: "set (map fst ?ch) \<subseteq> dom W" by (auto simp: W_def wanted_zone_dom image_iff)
  show "sp_wanted p = wanted_records want" by (simp add: p_def planSync_def Let_def)
  show "set (sp_entries p) \<subseteq> dom W - {root}"
    using ch by (auto simp: p_def planSync_def Let_def root_def)
  show "distinct (sp_entries p)"
    using ok by (simp add: p_def planSync_def Let_def distinct_map_filter)
  show "sp_writeRoot p \<Longrightarrow> root \<in> dom W"
    using ch by (auto simp: p_def planSync_def Let_def root_def)
  have written: "set (sp_entries p) \<union> (if sp_writeRoot p then {root} else {}) = fst ` set ?ch"
    by (auto simp: p_def planSync_def Let_def root_def image_iff)
  have same: "v name = W name" if inW: "name \<in> dom W" and notch: "name \<notin> fst ` set ?ch" for name
  proof -
    obtain c where c: "map_of (wanted_records want) name = Some c" "W name = Some (c, forName ttls name domain)"
      using inW unfolding W_def by (cases "map_of (wanted_records want) name") (auto simp: wanted_zone_def dom_def)
    from map_of_SomeD [OF c(1)] notch have "\<not> to_write existing unchanged (name, c)" by (force simp: image_iff)
    then obtain r where "map_of existing name = Some r" "unchanged name c r"
      by (auto simp: to_write_def split: option.splits)
    moreover have "map_option reading (map_of existing name) = (if under_domain domain name then v name else None)"
      using assms(1) by (simp add: plan_reads_def)
    ultimately show ?thesis using assms(1) c(2) by (auto simp: plan_reads_def split: if_splits)
  qed
  show "v ++ (W |` (set (sp_entries p) \<union> (if sp_writeRoot p then {root} else {}))) = v ++ W"
    unfolding written
  proof
    fix name show "(v ++ (W |` (fst ` set ?ch))) name = (v ++ W) name"
      by (cases "W name"; cases "name \<in> fst ` set ?ch") (use same [of name] in \<open>auto simp: map_add_def restrict_map_def\<close>)
  qed
  have under: "under_domain domain name" if "name \<in> fst ` set existing" for name
  proof -
    obtain r where "map_of existing name = Some r" using \<open>name \<in> _\<close> by (metis domIff dom_map_of_conv_image_fst not_None_eq)
    then have "map_option reading (map_of existing name) \<noteq> None" by simp
    then show ?thesis using assms(1) by (metis plan_reads_def)
  qed
  show "set (sp_stale p) \<subseteq> prunable domain want retain \<inter> fst ` set existing"
    by (auto simp: p_def planSync_def Let_def prunable_def retained_names_def intro!: under split: option.splits if_splits)
  show "distinct (sp_stale p)"
    using ok' by (simp add: p_def planSync_def Let_def)
qed

lemma overlay_insert: "W name = Some w \<Longrightarrow> v(name \<mapsto> w) ++ (W |` S) = v ++ (W |` insert name S)"
  by (rule ext) (auto simp: map_add_def restrict_map_def split: option.splits)

lemma sync_spec_partial:
  "dnsKey domain \<notin> S \<Longrightarrow> sync_spec ttls domain want retain v False (v ++ (wanted_zone ttls domain want |` S))"
  unfolding sync_spec_def by blast

lemma overlay_overlay: "v ++ (W |` A) ++ (W |` B) = v ++ (W |` (A \<union> B))"
  by (rule ext) (auto simp: map_add_def restrict_map_def split: option.splits)

lemma sync_spec_written:
  "sync_spec ttls domain want retain v ok (v ++ wanted_zone ttls domain want)"
  unfolding sync_spec_def by (intro disjI2 exI [of _ "{}"]) (simp add: restrict_map_def)

lemma sync_spec_pruned:
  "D \<subseteq> prunable domain want retain \<Longrightarrow>
     sync_spec ttls domain want retain v True ((v ++ wanted_zone ttls domain want) |` (- D))"
  unfolding sync_spec_def by blast

text \<open>The names a plan writes last, and what the stages of a reconcile may leave behind.\<close>

definition plan_root :: "string \<Rightarrow> syncPlan \<Rightarrow> string list" where
  "plan_root domain p = (if sp_writeRoot p then [dnsKey domain] else [])"

lemma plan_stages:
  fixes existing :: "(string, 'r) gomap"
  assumes "plan_reads reading ttls domain v existing unchanged"
    and p: "p = planSync existing domain want retain unchanged"
  shows "S \<subseteq> set (sp_entries p) \<Longrightarrow> sync_spec ttls domain want retain v False (v ++ (wanted_zone ttls domain want |` S))"
    and "S \<subseteq> set (plan_root domain p) \<Longrightarrow>
      sync_spec ttls domain want retain v False (v ++ (wanted_zone ttls domain want |` (set (sp_entries p) \<union> S)))"
    and "D \<subseteq> set (sp_stale p) \<Longrightarrow> sync_spec ttls domain want retain v True
      ((v ++ (wanted_zone ttls domain want |` (set (sp_entries p) \<union> set (plan_root domain p)))) |` (- D))"
proof -
  note pl = plan_names [OF assms(1), of want retain, folded p]
  have full: "v ++ (wanted_zone ttls domain want |` (set (sp_entries p) \<union> set (plan_root domain p))) = v ++ wanted_zone ttls domain want"
    using pl(5) by (cases "sp_writeRoot p") (simp_all add: plan_root_def)
  show part: "sync_spec ttls domain want retain v False (v ++ (wanted_zone ttls domain want |` S))"
    if "S \<subseteq> set (sp_entries p)" for S
    using that pl(2) by (intro sync_spec_partial) blast
  show "sync_spec ttls domain want retain v False (v ++ (wanted_zone ttls domain want |` (set (sp_entries p) \<union> S)))"
    if "S \<subseteq> set (plan_root domain p)"
  proof (cases "S = {}")
    case False
    then have "S = set (plan_root domain p)" using that by (auto simp: plan_root_def split: if_splits)
    then show ?thesis using full sync_spec_written by simp
  qed (use part in simp)
  show "sync_spec ttls domain want retain v True
      ((v ++ (wanted_zone ttls domain want |` (set (sp_entries p) \<union> set (plan_root domain p)))) |` (- D))"
    if "D \<subseteq> set (sp_stale p)"
    unfolding full using that pl(6) by (intro sync_spec_pruned) blast
qed

text \<open>A zone in which everything wanted is in place, as after a success: nothing is left to write.\<close>

definition settled :: "recordTTLs \<Rightarrow> string \<Rightarrow> txt_records \<Rightarrow> zone \<Rightarrow> bool" where
  "settled ttls domain want v \<longleftrightarrow>
     (\<forall>name\<in>fst ` set (wanted_records want). under_domain domain name \<and> v name = wanted_zone ttls domain want name)"

lemma sync_spec_settled:
  assumes "sync_spec ttls domain want retain v True v'" and "list_all (\<lambda>(name, _). under_domain domain (dnsKey name)) want"
  shows "settled ttls domain want v'"
  unfolding settled_def
proof
  fix name assume n: "name \<in> fst ` set (wanted_records want)"
  then obtain w where "wanted_zone ttls domain want name = Some w" by (metis domD wanted_zone_dom)
  moreover have "under_domain domain name" using n assms(2) unfolding wanted_names by (auto simp: list_all_iff)
  moreover have "name \<notin> prunable domain want retain" using n by (simp add: prunable_def)
  ultimately show "under_domain domain name \<and> v' name = wanted_zone ttls domain want name"
    using assms(1) by (auto simp: sync_spec_def map_add_def restrict_map_def)
qed

lemma plan_settled:
  assumes "plan_reads reading ttls domain v existing unchanged" and "settled ttls domain want v"
  defines "p \<equiv> planSync existing domain want None unchanged"
  shows "sp_entries p = []" and "\<not> sp_writeRoot p" and "sp_stale p = []"
proof -
  have "\<not> to_write existing unchanged (name, c)" if nc: "(name, c) \<in> set (wanted_records want)" for name c
  proof -
    have w: "map_of (wanted_records want) name = Some c"
      using nc wanted_records_ok [of want] by (simp add: gomap_ok_def)
    then have "v name = Some (c, forName ttls name domain)" "under_domain domain name"
      using assms(2) nc by (force simp: settled_def wanted_zone_def)+
    then have "map_option reading (map_of existing name) = Some (c, forName ttls name domain)"
      using assms(1) by (simp add: plan_reads_def)
    then show ?thesis using assms(1) by (auto simp: to_write_def plan_reads_def)
  qed
  then have none: "filter (to_write existing unchanged) (wanted_records want) = []" by (auto simp: filter_empty_conv)
  show "sp_entries p = []" "\<not> sp_writeRoot p" "sp_stale p = []"
    by (simp_all add: p_def planSync_def Let_def none del: set_filter set_map)
qed

section \<open>Trees in a zone\<close>

text \<open>The entries of a tree are in the zone with their text; the tree is served when the root is too.
  Two trees agree when an entry name they share has one text, as names derived from the text do.\<close>

definition holds_entries :: "string \<Rightarrow> txt_records \<Rightarrow> zone \<Rightarrow> bool" where
  "holds_entries domain tree v \<longleftrightarrow>
     (\<forall>name c. map_of (wanted_records tree) name = Some c \<and> name \<noteq> dnsKey domain \<longrightarrow> (\<exists>t. v name = Some (c, t)))"

definition serves_tree :: "string \<Rightarrow> txt_records \<Rightarrow> zone \<Rightarrow> bool" where
  "serves_tree domain tree v \<longleftrightarrow>
     holds_entries domain tree v \<and>
     (\<exists>c t. map_of (wanted_records tree) (dnsKey domain) = Some c \<and> v (dnsKey domain) = Some (c, t))"

definition trees_agree :: "string \<Rightarrow> txt_records \<Rightarrow> txt_records \<Rightarrow> bool" where
  "trees_agree domain a b \<longleftrightarrow>
     (\<forall>name c c'. map_of (wanted_records a) name = Some c \<and> map_of (wanted_records b) name = Some c' \<and>
        name \<noteq> dnsKey domain \<longrightarrow> c = c')"

definition has_root :: "string \<Rightarrow> txt_records \<Rightarrow> bool" where
  "has_root domain tree \<longleftrightarrow> dnsKey domain \<in> fst ` set (wanted_records tree)"

lemma trees_agree_refl [simp]: "trees_agree domain a a"
  by (auto simp: trees_agree_def)

lemma overlay_entries:
  assumes "holds_entries domain tree v" and "trees_agree domain tree want"
  shows "holds_entries domain tree (v ++ (wanted_zone ttls domain want |` S))"
  unfolding holds_entries_def
proof (intro allI impI)
  fix name c assume n: "map_of (wanted_records tree) name = Some c \<and> name \<noteq> dnsKey domain"
  then obtain t where "v name = Some (c, t)" using assms(1) by (auto simp: holds_entries_def)
  moreover have "c' = c" if "map_of (wanted_records want) name = Some c'" for c'
    using assms(2) n that by (auto simp: trees_agree_def)
  ultimately show "\<exists>t. (v ++ (wanted_zone ttls domain want |` S)) name = Some (c, t)"
    by (cases "map_of (wanted_records want) name") (auto simp: map_add_def wanted_zone_def restrict_map_def)
qed

lemma written_entries:
  assumes "D \<subseteq> prunable domain want retain"
  shows "holds_entries domain want ((v ++ wanted_zone ttls domain want) |` (- D))"
    and "has_root domain want \<Longrightarrow> serves_tree domain want ((v ++ wanted_zone ttls domain want) |` (- D))"
proof -
  have kept: "((v ++ wanted_zone ttls domain want) |` (- D)) name = Some (c, forName ttls name domain)"
    if "map_of (wanted_records want) name = Some c" for name c
    using that assms map_of_SomeD [OF that]
    by (force simp: map_add_def wanted_zone_def restrict_map_def prunable_def)
  show *: "holds_entries domain want ((v ++ wanted_zone ttls domain want) |` (- D))"
    unfolding holds_entries_def using kept by blast
  assume "has_root domain want"
  then obtain c where "map_of (wanted_records want) (dnsKey domain) = Some c"
    by (metis has_root_def domD dom_map_of_conv_image_fst)
  then show "serves_tree domain want ((v ++ wanted_zone ttls domain want) |` (- D))"
    using * kept by (auto simp: serves_tree_def)
qed

lemma retained_entries:
  assumes "holds_entries domain tree v" and "trees_agree domain tree want" and "D \<subseteq> prunable domain want (Some tree)"
  shows "holds_entries domain tree ((v ++ wanted_zone ttls domain want) |` (- D))"
proof -
  have "holds_entries domain tree (v ++ wanted_zone ttls domain want)"
    using overlay_entries [OF assms(1,2), of ttls UNIV] by (simp add: restrict_map_def)
  moreover have "name \<notin> D" if "map_of (wanted_records tree) name = Some c" for name c
    using assms(3) that wanted_names [of tree] map_of_SomeD [OF that]
    by (force simp: prunable_def retained_names_def)
  ultimately show ?thesis by (simp add: holds_entries_def restrict_map_def)
qed

section \<open>Records that read back\<close>

text \<open>Text that a zone returns as it was written, printable ASCII that is not itself quoted, under
  names with at most one trailing dot.\<close>

definition printable :: "string \<Rightarrow> bool" where
  "printable s \<longleftrightarrow> list_all (\<lambda>c. 32 \<le> (of_char c :: nat) \<and> (of_char c :: nat) \<le> 126) s"

definition proper_records :: "txt_records \<Rightarrow> bool" where
  "proper_records want \<longleftrightarrow>
     list_all (\<lambda>(name, c). dnsKey (dnsKey name) = dnsKey name \<and> printable c \<and> \<not> is_prefix [CHR 0x22] c) want"

lemma wanted_records_from: "set (wanted_records want) \<subseteq> (\<lambda>(name, c). (dnsKey name, c)) ` set want"
proof -
  have "set (foldl (\<lambda>m (name, content). AList.update (dnsKey name) content m) m want) \<subseteq>
      set m \<union> (\<lambda>(name, c). (dnsKey name, c)) ` set want" for m
  proof (induction want arbitrary: m)
    case (Cons p want)
    obtain n c where p: "p = (n, c)" by (cases p)
    have "set (AList.update (dnsKey n) c m) \<subseteq> insert (dnsKey n, c) (set m)"
      by (induction m) auto
    then show ?case using Cons [of "AList.update (dnsKey n) c m"] p by auto
  qed simp
  from this [of "[]"] show ?thesis by (simp add: wanted_records_def)
qed

lemma proper_wanted:
  assumes "proper_records want" and "map_of (wanted_records want) name = Some c"
  shows "dnsKey name = name" and "printable c" and "normalizeTXT c = c"
proof -
  obtain n where "(n, c) \<in> set want" "name = dnsKey n" using map_of_SomeD [OF assms(2)] wanted_records_from [of want] by auto
  with assms(1) show "dnsKey name = name" "printable c" "normalizeTXT c = c"
    by (auto simp: proper_records_def list_all_iff normalizeTXT_def)
qed

section \<open>The interface of the record publishers\<close>

text \<open>
  \<^verbatim>\<open>recordPublisher\<close> in \<^verbatim>\<open>main.go\<close>. \<open>trusted\<close> says of a client that its service behaves as
  documented, \<open>valid\<close> of a state of that service that it is one the client may find it in, and
  \<open>served\<close> is the zone that state stands for. \<open>accepts\<close> says which records of a domain a client can be
  asked to publish. A reconcile that never returns is \<open>None\<close>.
\<close>

locale record_publisher =
  fixes trusted :: "'a \<Rightarrow> bool"
    and valid :: "'a \<Rightarrow> 'z \<Rightarrow> bool"
    and served :: "'a \<Rightarrow> 'z \<Rightarrow> zone"
    and ttls_of :: "'a \<Rightarrow> recordTTLs"
    and accepts :: "'a \<Rightarrow> string \<Rightarrow> txt_records \<Rightarrow> bool"
    and sync :: "'a \<Rightarrow> string \<Rightarrow> txt_records \<Rightarrow> txt_records option \<Rightarrow> 'z \<Rightarrow> ((nat \<times> syncError option) \<times> 'z) option"
  assumes sync_valid: "trusted a \<Longrightarrow> valid a z \<Longrightarrow> accepts a domain want \<Longrightarrow>
      sync a domain want retain z = Some ((n, e), z') \<Longrightarrow> valid a z'"
    and sync_refines: "trusted a \<Longrightarrow> valid a z \<Longrightarrow> accepts a domain want \<Longrightarrow>
      sync a domain want retain z = Some ((n, e), z') \<Longrightarrow>
      sync_spec (ttls_of a) domain want retain (served a z) (e = None) (served a z')"
begin

text \<open>Whatever the outcome, the tree served before is still served in full or the new one is.\<close>

lemma served_in_full:
  assumes "trusted a" "valid a z" "accepts a domain want"
    and "sync a domain want retain z = Some ((n, e), z')"
    and "serves_tree domain tree (served a z)" "trees_agree domain tree want" "has_root domain want"
  shows "serves_tree domain tree (served a z') \<and> e \<noteq> None \<or> serves_tree domain want (served a z')"
  using sync_refines [OF assms(1-4)] unfolding sync_spec_def
proof (elim disjE conjE exE bexE)
  fix S assume S: "\<not> e = None" "dnsKey domain \<notin> S" "served a z' = served a z ++ (wanted_zone (ttls_of a) domain want |` S)"
  have "serves_tree domain tree (served a z')"
    using assms(5) overlay_entries [of domain tree "served a z" want] assms(6) S(2)
    by (auto simp: serves_tree_def S(3) map_add_def restrict_map_def)
  then show ?thesis using S(1) by simp
next
  fix D assume "D \<subseteq> prunable domain want retain" "served a z' = (served a z ++ wanted_zone (ttls_of a) domain want) |` (- D)"
  then show ?thesis using written_entries(2) [OF _ assms(7)] by simp
qed

lemma success_serves:
  assumes "trusted a" "valid a z" "accepts a domain want"
    and "sync a domain want retain z = Some ((n, None), z')" "has_root domain want"
  shows "serves_tree domain want (served a z')"
  using sync_refines [OF assms(1-4)] written_entries(2) [OF _ assms(5)] by (auto simp: sync_spec_def)

text \<open>A client that still follows the retained root finds every entry of its tree.\<close>

lemma retained_in_full:
  assumes "trusted a" "valid a z" "accepts a domain want"
    and "sync a domain want (Some tree) z = Some ((n, e), z')"
    and "holds_entries domain tree (served a z)" "trees_agree domain tree want"
  shows "holds_entries domain tree (served a z')"
  using sync_refines [OF assms(1-4)] unfolding sync_spec_def
  by (elim disjE conjE exE bexE) (simp_all add: overlay_entries [OF assms(5,6)] retained_entries [OF assms(5,6)])

text \<open>Nothing is removed when nothing is known to have been published.\<close>

lemma unknown_kept:
  assumes "trusted a" "valid a z" "accepts a domain want"
    and "sync a domain want None z = Some ((n, e), z')" "name \<notin> fst ` set (wanted_records want)"
  shows "served a z' name = served a z name"
proof -
  have "wanted_zone (ttls_of a) domain want name = None" using assms(5) by (metis domIff wanted_zone_dom)
  then show ?thesis using sync_refines [OF assms(1-4)]
    by (auto simp: sync_spec_def prunable_def retained_names_def map_add_def restrict_map_def)
qed

text \<open>Names outside the domain are untouched.\<close>

lemma elsewhere:
  assumes "trusted a" "valid a z" "accepts a domain want"
    and "sync a domain want retain z = Some ((n, e), z')"
    and "name \<notin> fst ` set (wanted_records want)" "\<not> under_domain domain name"
  shows "served a z' name = served a z name"
proof -
  have "wanted_zone (ttls_of a) domain want name = None" using assms(5) by (metis domIff wanted_zone_dom)
  then show ?thesis using sync_refines [OF assms(1-4)] assms(6)
    by (auto simp: sync_spec_def prunable_def map_add_def restrict_map_def)
qed

end

end
