(* ===== verification/DnsPublisher.thy ===== *)
theory DnsPublisher
  imports Selection DnsSync
begin

text \<open>
  The DNS publisher, \<^verbatim>\<open>cmd/dnspublisher/main.go\<close> and \<^verbatim>\<open>artifact.go\<close>: from the rows of a
  snapshot to the trees of a network, the guards in front of them, the artifacts on disk that carry the
  sequence floor and the collapse baseline, and the cycle that publishes every network.

  go-ethereum's dnsdisc and the JSON codec of the artifacts are arguments (\<open>treelib\<close>, \<open>artifact_codec\<close>),
  as are the record publisher, one of the two providers, and the clock readings of a cycle. The
  directory of artifacts is a store of its own, whose script may fail any call; opening it and writing to
  standard output, where there is no directory, are part of those calls. The git transport, which only
  ever copies a tree that has passed, logs and metrics are left out.
\<close>

section \<open>Options\<close>

record dns_flags =
  fg_baseDomain :: string
  fg_sel :: selectOpts
  fg_publishEvery :: duration
  fg_maxSnapAge :: duration
  fg_minTreeNodes :: int
  fg_maxDropPct :: int
  fg_outDir :: string
  fg_cfZone :: string
  fg_cfTokenFile :: string
  fg_r53Zone :: string
  fg_r53CredsFile :: string
  fg_r53Region :: string
  fg_entryTTL :: duration
  fg_rootTTL :: duration
  fg_git :: "string list"
  fg_gitBranch :: string
  fg_gitName :: string
  fg_gitEmail :: string

datatype domainError = DomainRequired | NotUnqualified | BadLabel | BadLabelCharacter

definition label_char :: "char \<Rightarrow> bool" where
  "label_char r \<longleftrightarrow> CHR ''a'' \<le> r \<and> r \<le> CHR ''z'' \<or> CHR ''A'' \<le> r \<and> r \<le> CHR ''Z'' \<or>
     CHR ''0'' \<le> r \<and> r \<le> CHR ''9'' \<or> r = CHR ''-''"

fun validate_labels :: "string list \<Rightarrow> domainError option" where
  "validate_labels [] = None"
| "validate_labels (l # ls) =
     (if l = [] \<or> 63 < length l \<or> hd l = CHR ''-'' \<or> last l = CHR ''-'' then Some BadLabel
      else if \<not> list_all label_char l then Some BadLabelCharacter
      else validate_labels ls)"

definition validateDomain :: "string \<Rightarrow> domainError option" where
  "validateDomain domain =
     (if domain = [] then Some DomainRequired
      else if 253 < length domain \<or> has_suffix domain ''.'' then Some NotUnqualified
      else validate_labels (split_on (CHR ''.'') domain))"

datatype flagError =
    BadSelection selectError | BadDomain domainError | NegativeInterval | NegativeSnapshotAge | NegativeFloor | BadDropPct
  | OutRequired | CloudflarePair | Route53Pair | TwoZones | NoRegion | OutRequiredToPublish | IntervalTooShort
  | IntervalBelowRootTTL | BadTTL ttlError | GitTogether | GitIdentity

text \<open>The checks of \<^verbatim>\<open>run\<close> up to the list of networks, in its order.\<close>

definition validate_flags :: "dns_flags \<Rightarrow> flagError + recordTTLs" where
  "validate_flags f =
     (let publishToDNS = (fg_cfZone f \<noteq> [] \<or> fg_r53Zone f \<noteq> []);
          gitSet = length (filter (\<lambda>v. v \<noteq> []) (fg_git f))
      in case selectOpts_Validate (fg_sel f) of
        Some e \<Rightarrow> Inl (BadSelection e)
      | None \<Rightarrow> (case validateDomain (fg_baseDomain f) of
        Some e \<Rightarrow> Inl (BadDomain e)
      | None \<Rightarrow>
          if fg_publishEvery f < 0 then Inl NegativeInterval
          else if fg_maxSnapAge f < 0 then Inl NegativeSnapshotAge
          else if fg_minTreeNodes f < 0 then Inl NegativeFloor
          else if fg_maxDropPct f < 0 \<or> 100 < fg_maxDropPct f then Inl BadDropPct
          else if 0 < fg_publishEvery f \<and> fg_outDir f = [] then Inl OutRequired
          else if (fg_cfZone f = []) \<noteq> (fg_cfTokenFile f = []) then Inl CloudflarePair
          else if (fg_r53Zone f = []) \<noteq> (fg_r53CredsFile f = []) then Inl Route53Pair
          else if fg_cfZone f \<noteq> [] \<and> fg_r53Zone f \<noteq> [] then Inl TwoZones
          else if fg_r53Zone f \<noteq> [] \<and> fg_r53Region f = [] then Inl NoRegion
          else if publishToDNS \<and> fg_outDir f = [] then Inl OutRequiredToPublish
          else if publishToDNS \<and> 0 < fg_publishEvery f \<and> fg_publishEvery f < minPublishInterval then Inl IntervalTooShort
          else if publishToDNS \<and> 0 < fg_publishEvery f \<and> fg_publishEvery f < fg_rootTTL f then Inl IntervalBelowRootTTL
          else case validateTTLs (fg_entryTTL f) (fg_rootTTL f) (fg_cfZone f \<noteq> []) of
            Inl e \<Rightarrow> Inl (BadTTL e)
          | Inr ttls \<Rightarrow>
              if gitSet \<noteq> 0 \<and> gitSet \<noteq> 4 then Inl GitTogether
              else if hd (fg_git f @ [[]]) \<noteq> [] \<and> (fg_gitBranch f = [] \<or> fg_gitName f = [] \<or> fg_gitEmail f = []) then Inl GitIdentity
              else Inr ttls))"

section \<open>Artifacts\<close>

record artifact =
  out_SchemaVersion :: int
  out_URL :: string
  out_Domain :: string
  out_Network :: string
  out_Capability :: string
  out_Nodes :: int
  out_Seq :: u64
  out_Records :: txt_records

record artifact_codec =
  ac_encode :: "artifact \<Rightarrow> byte list option"
  ac_decode :: "byte list \<Rightarrow> artifact option"

datatype artifactError =
    ArtifactStore storeError | ArtifactJSON | UnsupportedSchema int | NoSequence | OtherDomain string | OtherNetwork string
  | OtherCapability string | ImplausibleSequence u64 | BadNodes int | NoRecords

definition outputSchemaVersion :: int where
  "outputSchemaVersion = 1"

definition publishedSuffix :: string where
  "publishedSuffix = ''.published''"

definition outputSequence :: "artifact \<Rightarrow> artifactError + u64" where
  "outputSequence prev =
     (if out_SchemaVersion prev \<noteq> outputSchemaVersion then Inl (UnsupportedSchema (out_SchemaVersion prev))
      else if out_Seq prev = 0 then Inl NoSequence
      else Inr (out_Seq prev))"

definition maxBaselineSeq :: u64 where
  "maxBaselineSeq = 1099511627776"

definition maxBaselineNodes :: int where
  "maxBaselineNodes = 16777216"

definition validateBaseline :: "artifact \<Rightarrow> string \<Rightarrow> string \<Rightarrow> string \<Rightarrow> artifactError option" where
  "validateBaseline prev domain network capability =
     (case outputSequence prev of
        Inl e \<Rightarrow> Some e
      | Inr _ \<Rightarrow>
          if out_Domain prev \<noteq> domain then Some (OtherDomain (out_Domain prev))
          else if out_Network prev \<noteq> network then Some (OtherNetwork (out_Network prev))
          else if out_Capability prev \<noteq> capability then Some (OtherCapability (out_Capability prev))
          else if maxBaselineSeq < out_Seq prev then Some (ImplausibleSequence (out_Seq prev))
          else if out_Nodes prev < 0 \<or> maxBaselineNodes < out_Nodes prev then Some (BadNodes (out_Nodes prev))
          else if out_Records prev = [] then Some NoRecords
          else None)"

definition readPrevious :: "artifact_codec \<Rightarrow> string \<Rightarrow> world \<Rightarrow> (artifactError + artifact option) \<times> world" where
  "readPrevious ac name w =
     (case store_Get (name @ ''.json'') w of
        (Inl ErrNotFound, w) \<Rightarrow> (Inr None, w)
      | (Inl e, w) \<Rightarrow> (Inl (ArtifactStore e), w)
      | (Inr raw, w) \<Rightarrow> (case ac_decode ac raw of None \<Rightarrow> (Inl ArtifactJSON, w) | Some prev \<Rightarrow> (Inr (Some prev), w)))"

definition ownArtifact ::
  "artifact_codec \<Rightarrow> string \<Rightarrow> string \<Rightarrow> string \<Rightarrow> string \<Rightarrow> string \<Rightarrow> world \<Rightarrow> (artifactError + artifact option) \<times> world"
where
  "ownArtifact ac outDir name domain network capability w =
     (if outDir = [] then (Inr None, w)
      else case readPrevious ac name w of
        (Inl e, w) \<Rightarrow> (Inl e, w)
      | (Inr None, w) \<Rightarrow> (Inr None, w)
      | (Inr (Some prev), w) \<Rightarrow>
          (case validateBaseline prev domain network capability of Some e \<Rightarrow> (Inl e, w) | None \<Rightarrow> (Inr (Some prev), w)))"

definition baselineFor ::
  "artifact_codec \<Rightarrow> string \<Rightarrow> string \<Rightarrow> string \<Rightarrow> string \<Rightarrow> world \<Rightarrow> (artifactError + int \<times> u64) \<times> world"
where
  "baselineFor ac outDir domain network capability w =
     (case ownArtifact ac outDir domain domain network capability w of
        (Inl e, w) \<Rightarrow> (Inl e, w)
      | (Inr None, w) \<Rightarrow> (Inr (0, 0), w)
      | (Inr (Some prev), w) \<Rightarrow> (Inr (out_Nodes prev, out_Seq prev), w))"

definition publishedArtifact ::
  "artifact_codec \<Rightarrow> string \<Rightarrow> string \<Rightarrow> string \<Rightarrow> string \<Rightarrow> world \<Rightarrow> (artifactError + artifact option) \<times> world"
where
  "publishedArtifact ac outDir domain network capability w =
     ownArtifact ac outDir (domain @ publishedSuffix) domain network capability w"

record baselines =
  bl_nodes :: int
  bl_seq :: u64
  bl_publishedSeq :: u64
  bl_retain :: "txt_records option"

definition baselinesFor ::
  "artifact_codec \<Rightarrow> string \<Rightarrow> bool \<Rightarrow> string \<Rightarrow> string \<Rightarrow> string \<Rightarrow> world \<Rightarrow> (artifactError + baselines) \<times> world"
where
  "baselinesFor ac outDir publishes domain network capability w =
     (case baselineFor ac outDir domain network capability w of
        (Inl e, w) \<Rightarrow> (Inl e, w)
      | (Inr (nodes, seq), w) \<Rightarrow>
          if \<not> publishes then (Inr \<lparr>bl_nodes = nodes, bl_seq = seq, bl_publishedSeq = seq, bl_retain = None\<rparr>, w)
          else case publishedArtifact ac outDir domain network capability w of
            (Inl e, w) \<Rightarrow> (Inl e, w)
          | (Inr None, w) \<Rightarrow> (Inr \<lparr>bl_nodes = 0, bl_seq = seq, bl_publishedSeq = 0, bl_retain = None\<rparr>, w)
          | (Inr (Some p), w) \<Rightarrow>
              (Inr \<lparr>bl_nodes = out_Nodes p, bl_seq = seq, bl_publishedSeq = out_Seq p, bl_retain = Some (out_Records p)\<rparr>, w))"

definition emitArtifact :: "artifact_codec \<Rightarrow> artifact \<Rightarrow> string \<Rightarrow> string \<Rightarrow> world \<Rightarrow> artifactError option \<times> world" where
  "emitArtifact ac out outDir name w =
     (case ac_encode ac out of
        None \<Rightarrow> (Some ArtifactJSON, w)
      | Some buf \<Rightarrow>
          if outDir = [] then (None, w)
          else case store_Put (name @ ''.json'') buf w of
            (None, w) \<Rightarrow> (None, w)
          | (Some e, w) \<Rightarrow> (Some (ArtifactStore e), w))"

section \<open>Trees\<close>

record publishedNode =
  pn_id :: string
  pn_record :: string
  pn_seq :: u64
  pn_score :: int
  pn_firstSeen :: int
  pn_lastResolved :: int
  pn_lastCheck :: int

record builtTree =
  bt_output :: artifact
  bt_signature :: string
  bt_nodes :: "publishedNode list"
  bt_retain :: "txt_records option"
  bt_ranks :: "nat list"
  bt_readyOnly :: bool

record 't treelib =
  tl_MakeTree :: "u64 \<Rightarrow> enode list \<Rightarrow> 't option"
  tl_Sign :: "'t \<Rightarrow> string \<Rightarrow> (string \<times> 't) option"
  tl_ToTXT :: "'t \<Rightarrow> string \<Rightarrow> txt_records"
  tl_Signature :: "'t \<Rightarrow> string"
  tl_ParseURL :: "string \<Rightarrow> bool"
  tl_ID :: "enode \<Rightarrow> string"
  tl_String :: "enode \<Rightarrow> string"

datatype treeError = MakeTreeFailed string | SignFailed string

definition published_node :: "'t treelib \<Rightarrow> candidate \<Rightarrow> publishedNode" where
  "published_node dd c =
     \<lparr>pn_id = tl_ID dd (cd_node c), pn_record = tl_String dd (cd_node c), pn_seq = en_Seq (cd_node c), pn_score = r_Score (cd_row c),
      pn_firstSeen = r_FirstSeen (cd_row c), pn_lastResolved = r_LastResolved (cd_row c), pn_lastCheck = r_LastCheck (cd_row c)\<rparr>"

text \<open>A selection that does not return is \<open>None\<close>.\<close>

definition buildTree ::
  "recordlib \<Rightarrow> 't treelib \<Rightarrow> candidate list \<Rightarrow> selectOpts \<Rightarrow> u64 \<Rightarrow> string \<Rightarrow> string \<Rightarrow> (treeError + builtTree) option"
where
  "buildTree lib dd cands opt seq domain network =
     (case pick lib cands opt of
        None \<Rightarrow> None
      | Some picked \<Rightarrow> Some (
          case tl_MakeTree dd seq (map cd_node picked) of
            None \<Rightarrow> Inl (MakeTreeFailed domain)
          | Some tree \<Rightarrow>
              (case tl_Sign dd tree domain of
                 None \<Rightarrow> Inl (SignFailed domain)
               | Some (url, tree) \<Rightarrow> Inr
                   \<lparr>bt_output = \<lparr>out_SchemaVersion = outputSchemaVersion, out_URL = url, out_Domain = domain, out_Network = network,
                      out_Capability = so_capability opt, out_Nodes = int (length picked), out_Seq = seq, out_Records = tl_ToTXT dd tree domain\<rparr>,
                    bt_signature = tl_Signature dd tree, bt_nodes = map (published_node dd) picked, bt_retain = None,
                    bt_ranks = map (\<lambda>r. length (filter (\<lambda>c. cd_rank c = r) picked)) [rankReady, rankNeutral, rankMismatch],
                    bt_readyOnly = False\<rparr>)))"

section \<open>Guards\<close>

record 'z multiConfig =
  mt_networks :: "string list"
  mt_baseDomain :: string
  mt_outDir :: string
  mt_sel :: selectOpts
  mt_publishEvery :: duration
  mt_maxSnapshotAge :: duration
  mt_minTreeNodes :: int
  mt_maxDropPct :: int
  mt_validate :: bool
  mt_publisher :: "(string \<Rightarrow> txt_records \<Rightarrow> txt_records option \<Rightarrow> 'z \<Rightarrow> ((nat \<times> syncError option) \<times> 'z) option) option"

definition multi_config ::
  "dns_flags \<Rightarrow> string list \<Rightarrow> bool \<Rightarrow>
     (string \<Rightarrow> txt_records \<Rightarrow> txt_records option \<Rightarrow> 'z \<Rightarrow> ((nat \<times> syncError option) \<times> 'z) option) option \<Rightarrow> 'z multiConfig"
where
  "multi_config f nets validate publisher =
     \<lparr>mt_networks = nets, mt_baseDomain = fg_baseDomain f, mt_outDir = fg_outDir f, mt_sel = fg_sel f,
      mt_publishEvery = fg_publishEvery f, mt_maxSnapshotAge = fg_maxSnapAge f, mt_minTreeNodes = fg_minTreeNodes f,
      mt_maxDropPct = fg_maxDropPct f, mt_validate = validate, mt_publisher = publisher\<rparr>"

definition collapsed :: "int \<Rightarrow> int \<Rightarrow> int \<Rightarrow> bool" where
  "collapsed current previous maxDropPct =
     (if maxDropPct \<le> 0 \<or> previous \<le> 0 then False else current * 100 < previous * (100 - maxDropPct))"

datatype skipReason = BaselineUnreadable artifactError | EmptyTree | BelowFloor | Collapse

definition gateTree :: "int \<Rightarrow> string \<Rightarrow> int \<Rightarrow> bool \<Rightarrow> 'z multiConfig \<Rightarrow> skipReason option" where
  "gateTree nodes capability previousNodes collapseExempt cfg =
     (if nodes = 0 then Some EmptyTree
      else if capability = ''all'' \<and> nodes < mt_minTreeNodes cfg then Some BelowFloor
      else if \<not> collapseExempt \<and> collapsed nodes previousNodes (mt_maxDropPct cfg) then Some Collapse
      else None)"

definition treeSequence :: "gotime \<Rightarrow> u64 \<Rightarrow> u64" where
  "treeSequence generatedAt previousSeq =
     (let seq = word_of_int (time_Unix generatedAt) in if seq \<le> previousSeq then previousSeq + 1 else seq)"

definition publishCycle :: "duration \<Rightarrow> duration" where
  "publishCycle publishEvery = (if publishEvery \<le> 0 then 6 * hour else publishEvery)"

definition near_instant :: "gotime \<Rightarrow> duration \<Rightarrow> gotime \<Rightarrow> bool" where
  "near_instant moment window activation \<longleftrightarrow> moment < activation \<and> time_Sub activation moment \<le> window"

definition forkNear :: "registry \<Rightarrow> string \<Rightarrow> string \<Rightarrow> gotime \<Rightarrow> duration \<Rightarrow> phase list \<Rightarrow> bool" where
  "forkNear reg network layer moment window phases =
     (case LayerForkTargetsAt reg network moment of
        Inl _ \<Rightarrow> False
      | Inr target \<Rightarrow>
          (layer \<noteq> ''cl'' \<and> (case ft_EL target of
              None \<Rightarrow> False
            | Some e \<Rightarrow> elt_Phase e \<in> set phases \<and> near_instant moment window (unix64 (sint (elt_Time e))))) \<or>
          (layer \<noteq> ''el'' \<and> (case ft_CL target of
              None \<Rightarrow> False
            | Some c \<Rightarrow> clt_Phase c \<in> set phases \<and> near_instant moment window (clt_Time c))))"

definition activationNear :: "registry \<Rightarrow> string \<Rightarrow> string \<Rightarrow> gotime \<Rightarrow> duration \<Rightarrow> bool" where
  "activationNear reg network layer moment window = forkNear reg network layer moment window [PhaseScheduled, PhaseCancelled]"

definition cancellationNear :: "registry \<Rightarrow> string \<Rightarrow> string \<Rightarrow> gotime \<Rightarrow> duration \<Rightarrow> bool" where
  "cancellationNear reg network layer moment window = forkNear reg network layer moment window [PhaseCancelled]"

definition layerForkActivatedBetween :: "registry \<Rightarrow> string \<Rightarrow> string \<Rightarrow> gotime \<Rightarrow> gotime \<Rightarrow> bool" where
  "layerForkActivatedBetween reg network layer frm until =
     (if \<not> frm < until then False
      else if CancelledForkActivatedBetween reg network layer frm until then True
      else case Get reg network of
        Inl _ \<Rightarrow> False
      | Inr n \<Rightarrow>
          if layer \<noteq> ''cl'' \<and> fid_Hash (fst (CurrentForkIDAt n frm)) \<noteq> fid_Hash (fst (CurrentForkIDAt n until)) then True
          else if layer = ''el'' then False
          else case CLForkStateAt reg network frm of
            Inl _ \<Rightarrow> False
          | Inr before \<Rightarrow>
              (case CLForkStateAt reg network until of Inl _ \<Rightarrow> False | Inr after \<Rightarrow> cs_Digest before \<noteq> cs_Digest after))"

section \<open>The trees of a network\<close>

record 't dns_env =
  de_snapshot :: snapshot_env
  de_lib :: recordlib
  de_trees :: "'t treelib"
  de_codec :: artifact_codec
  de_registry :: registry

definition ready_candidates :: "(string \<Rightarrow> bool) \<Rightarrow> candidate list \<Rightarrow> candidate list" where
  "ready_candidates near cands =
     (if near ''el'' \<or> near ''cl''
      then let ready = filter (\<lambda>c. cd_rank c = rankReady \<or> \<not> near (r_Layer (cd_row c))) cands;
               readyNear = list_ex (\<lambda>c. cd_rank c = rankReady \<and> near (r_Layer (cd_row c))) cands
           in if \<not> readyNear then [] else ready
      else [])"

text \<open>The ready-only tree where the guards accept it, the full tree otherwise, with its exemption.\<close>

definition choose_tree ::
  "'t dns_env \<Rightarrow> 'z multiConfig \<Rightarrow> candidate list \<Rightarrow> candidate list \<Rightarrow> selectOpts \<Rightarrow> u64 \<Rightarrow> string \<Rightarrow> string \<Rightarrow> int \<Rightarrow>
     bool \<Rightarrow> bool \<Rightarrow> (treeError + builtTree \<times> bool) option"
where
  "choose_tree env cfg cands ready opt seq domain network previousNodes exempt cancelNear =
     (let cap = so_capability opt;
          full = map_option (map_sum (\<lambda>e. e) (\<lambda>t. (t, exempt))) (buildTree (de_lib env) (de_trees env) cands opt seq domain network)
      in if ready = [] then full
         else case buildTree (de_lib env) (de_trees env) ready opt seq domain network of
           None \<Rightarrow> None
         | Some (Inl e) \<Rightarrow> Some (Inl e)
         | Some (Inr readyTree) \<Rightarrow>
             (case (if cancelNear
                    then map_option (\<lambda>sel. exempt \<or> gateTree (int (length sel)) cap previousNodes exempt cfg = None) (pick (de_lib env) cands opt)
                    else Some exempt) of
                None \<Rightarrow> None
              | Some readyExempt \<Rightarrow>
                  if gateTree (out_Nodes (bt_output readyTree)) cap previousNodes readyExempt cfg = None
                  then Some (Inr (readyTree\<lparr>bt_readyOnly := True\<rparr>, readyExempt))
                  else full))"

definition tree_domain :: "'z multiConfig \<Rightarrow> string \<Rightarrow> string \<Rightarrow> string" where
  "tree_domain cfg network capability = capability @ ''.'' @ network @ ''.'' @ mt_baseDomain cfg"

fun build_trees ::
  "'t dns_env \<Rightarrow> 'z multiConfig \<Rightarrow> string \<Rightarrow> gotime \<Rightarrow> gotime \<Rightarrow> (string \<Rightarrow> u64) \<Rightarrow> candidate list \<Rightarrow> candidate list \<Rightarrow> bool \<Rightarrow>
     string list \<Rightarrow> world \<Rightarrow> ((treeError + (skipReason + builtTree list)) \<times> world) option"
where
  "build_trees env cfg network generatedAt evaluatedAt issued cands ready cancelNear [] w = Some (Inr (Inr []), w)"
| "build_trees env cfg network generatedAt evaluatedAt issued cands ready cancelNear (cap # caps) w =
     (let domain = tree_domain cfg network cap in
      case baselinesFor (de_codec env) (mt_outDir cfg) (mt_publisher cfg \<noteq> None) domain network cap w of
        (Inl e, w) \<Rightarrow> Some (Inr (Inl (BaselineUnreadable e)), w)
      | (Inr base, w) \<Rightarrow>
          let exempt = (0 < bl_publishedSeq base \<and> layerForkActivatedBetween (de_registry env) network (so_layer (mt_sel cfg))
                          (unix64 (sint (bl_publishedSeq base))) (time_Add evaluatedAt (- publishCycle (mt_publishEvery cfg))));
              opt = (mt_sel cfg)\<lparr>so_capability := cap\<rparr>;
              seq = treeSequence generatedAt (max (bl_seq base) (issued domain))
          in case choose_tree env cfg cands ready opt seq domain network (bl_nodes base) exempt cancelNear of
               None \<Rightarrow> None
             | Some (Inl e) \<Rightarrow> Some (Inl e, w)
             | Some (Inr (out, outExempt)) \<Rightarrow>
                 (case gateTree (out_Nodes (bt_output out)) cap (bl_nodes base) outExempt cfg of
                    Some skip \<Rightarrow> Some (Inr (Inl skip), w)
                  | None \<Rightarrow>
                      (case build_trees env cfg network generatedAt evaluatedAt issued cands ready cancelNear caps w of
                         None \<Rightarrow> None
                       | Some (Inr (Inr trees), w) \<Rightarrow> Some (Inr (Inr (out\<lparr>bt_retain := bl_retain base\<rparr> # trees)), w)
                       | Some r \<Rightarrow> Some r)))"

definition buildNetworkTrees ::
  "'t dns_env \<Rightarrow> 'z multiConfig \<Rightarrow> Row list \<Rightarrow> string \<Rightarrow> gotime \<Rightarrow> gotime \<Rightarrow> (string \<Rightarrow> u64) \<Rightarrow> world \<Rightarrow>
     ((treeError + (skipReason + builtTree list)) \<times> world) option"
where
  "buildNetworkTrees env cfg rs network generatedAt evaluatedAt issued w =
     (let layer = so_layer (mt_sel cfg);
          capabilities = (if layer \<noteq> ''cl'' then [''all'', ''snap''] else [''all'']);
          cands = rankCandidates (de_lib env) (de_registry env) rs (mt_sel cfg) evaluatedAt;
          window = 2 * publishCycle (mt_publishEvery cfg);
          nearEL = (layer \<noteq> ''cl'' \<and> activationNear (de_registry env) network ''el'' evaluatedAt window);
          nearCL = (layer \<noteq> ''el'' \<and> activationNear (de_registry env) network ''cl'' evaluatedAt window);
          near = (\<lambda>l. if l = ''el'' then nearEL else if l = ''cl'' then nearCL else False)
      in build_trees env cfg network generatedAt evaluatedAt issued cands (ready_candidates near cands)
           (cancellationNear (de_registry env) network layer evaluatedAt window) capabilities w)"

section \<open>Publishing\<close>

record 'z dns_state =
  ds_issued :: "string \<Rightarrow> u64"
  ds_artifacts :: world
  ds_snapshots :: world
  ds_zone :: 'z

datatype publishError = PushFailed string syncError | CommitFailed string artifactError

fun publish_trees ::
  "'t dns_env \<Rightarrow> (string \<Rightarrow> txt_records \<Rightarrow> txt_records option \<Rightarrow> 'z \<Rightarrow> ((nat \<times> syncError option) \<times> 'z) option) \<Rightarrow>
     string \<Rightarrow> builtTree list \<Rightarrow> 'z dns_state \<Rightarrow> (publishError option \<times> 'z dns_state) option"
where
  "publish_trees env sync outDir [] s = Some (None, s)"
| "publish_trees env sync outDir (t # ts) s =
     (let out = bt_output t; domain = out_Domain out in
      case sync domain (out_Records out) (bt_retain t) (ds_zone s) of
        None \<Rightarrow> None
      | Some ((_, Some e), z) \<Rightarrow> Some (Some (PushFailed domain e), s\<lparr>ds_zone := z\<rparr>)
      | Some ((_, None), z) \<Rightarrow>
          (case emitArtifact (de_codec env) out outDir (domain @ publishedSuffix) (ds_artifacts s) of
             (Some e, w) \<Rightarrow> Some (Some (CommitFailed domain e), s\<lparr>ds_zone := z, ds_artifacts := w\<rparr>)
           | (None, w) \<Rightarrow> publish_trees env sync outDir ts (s\<lparr>ds_zone := z, ds_artifacts := w\<rparr>)))"

definition publishNetwork ::
  "'t dns_env \<Rightarrow> 'z multiConfig \<Rightarrow> builtTree list \<Rightarrow> 'z dns_state \<Rightarrow> (publishError option \<times> 'z dns_state) option"
where
  "publishNetwork env cfg trees s =
     (case mt_publisher cfg of None \<Rightarrow> Some (None, s) | Some sync \<Rightarrow> publish_trees env sync (mt_outDir cfg) trees s)"

datatype cycleError = ReadManifest manifestError | InvalidURL string | EmitFailed artifactError

fun emit_trees :: "'t dns_env \<Rightarrow> 'z multiConfig \<Rightarrow> builtTree list \<Rightarrow> 'z dns_state \<Rightarrow> cycleError option \<times> 'z dns_state" where
  "emit_trees env cfg [] s = (None, s)"
| "emit_trees env cfg (t # ts) s =
     (let out = bt_output t in
      if mt_validate cfg \<and> \<not> tl_ParseURL (de_trees env) (out_URL out) then (Some (InvalidURL (out_Domain out)), s)
      else case emitArtifact (de_codec env) out (mt_outDir cfg) (out_Domain out) (ds_artifacts s) of
        (Some e, w) \<Rightarrow> (Some (EmitFailed e), s\<lparr>ds_artifacts := w\<rparr>)
      | (None, w) \<Rightarrow>
          emit_trees env cfg ts (s\<lparr>ds_artifacts := w, ds_issued := (ds_issued s)(out_Domain out := out_Seq out)\<rparr>))"

fun network_loop ::
  "'t dns_env \<Rightarrow> 'z multiConfig \<Rightarrow> Manifest \<Rightarrow> gotime \<Rightarrow> string list \<Rightarrow> 'z dns_state \<Rightarrow> (cycleError option \<times> 'z dns_state) option"
where
  "network_loop env cfg m evaluatedAt [] s = Some (None, s)"
| "network_loop env cfg m evaluatedAt (net # nets) s =
     (case LoadNetworkRows (de_snapshot env) m net (ds_snapshots s) of
        (Inl _, w) \<Rightarrow> network_loop env cfg m evaluatedAt nets (s\<lparr>ds_snapshots := w\<rparr>)
      | (Inr rs, w) \<Rightarrow>
          (case buildNetworkTrees env cfg rs net (mf_GeneratedAt m) evaluatedAt (ds_issued s) (ds_artifacts s) of
             None \<Rightarrow> None
           | Some (Inr (Inr trees), aw) \<Rightarrow>
               (case emit_trees env cfg trees (s\<lparr>ds_snapshots := w, ds_artifacts := aw\<rparr>) of
                  (Some e, s) \<Rightarrow> Some (Some e, s)
                | (None, s) \<Rightarrow>
                    (case publishNetwork env cfg trees s of
                       None \<Rightarrow> None
                     | Some (_, s) \<Rightarrow> network_loop env cfg m evaluatedAt nets s))
           | Some (_, aw) \<Rightarrow> network_loop env cfg m evaluatedAt nets (s\<lparr>ds_snapshots := w, ds_artifacts := aw\<rparr>)))"

text \<open>One cycle, with the reading of the clock that dates the snapshot and the one it evaluates at.\<close>

definition publish_cycle ::
  "'t dns_env \<Rightarrow> 'z multiConfig \<Rightarrow> gotime \<Rightarrow> gotime \<Rightarrow> 'z dns_state \<Rightarrow> (cycleError option \<times> 'z dns_state) option"
where
  "publish_cycle env cfg now evaluatedAt s =
     (case snapshot_Read (de_snapshot env) (ds_snapshots s) of
        (Inl e, w) \<Rightarrow> Some (Some (ReadManifest e), s\<lparr>ds_snapshots := w\<rparr>)
      | (Inr m, w) \<Rightarrow>
          if 0 < mt_maxSnapshotAge cfg \<and> mt_maxSnapshotAge cfg < time_Sub now (mf_GeneratedAt m) then Some (None, s\<lparr>ds_snapshots := w\<rparr>)
          else network_loop env cfg m evaluatedAt (mt_networks cfg) (s\<lparr>ds_snapshots := w\<rparr>))"

text \<open>\<^verbatim>\<open>runMultiTree\<close>: cycles one after the other, whatever each returns, on a snapshot store that others
  write, until the process ends; a restart forgets what it had issued.\<close>

inductive dns_step :: "'t dns_env \<Rightarrow> 'z multiConfig \<Rightarrow> 'z dns_state \<Rightarrow> 'z dns_state \<Rightarrow> bool" for env cfg where
  a_cycle: "publish_cycle env cfg now evaluatedAt s = Some (r, s') \<Longrightarrow> dns_step env cfg s s'"
| crawler: "dns_step env cfg s (s\<lparr>ds_snapshots := w\<rparr>)"
| restart: "dns_step env cfg s (s\<lparr>ds_issued := (\<lambda>_. 0)\<rparr>)"

inductive_cases dns_stepE: "dns_step env cfg s s'"

abbreviation dns_run :: "'t dns_env \<Rightarrow> 'z multiConfig \<Rightarrow> 'z dns_state \<Rightarrow> 'z dns_state \<Rightarrow> bool" where
  "dns_run env cfg \<equiv> (dns_step env cfg)\<^sup>*\<^sup>*"

end
