(* ===== verification/DnsArtifacts.thy ===== *)
theory DnsArtifacts
  imports DnsPublisher
begin

text \<open>
  What the DNS publisher's artifacts guarantee across cycles and restarts: the trees of a cycle start
  from what is on disk, and the sequence of a domain only ever grows.
\<close>

section \<open>Names\<close>

definition dots :: "string \<Rightarrow> nat" where
  "dots s = length (filter (\<lambda>c. c = CHR ''.'') s)"

lemma dots_append [simp]: "dots (s @ t) = dots s + dots t"
  by (simp add: dots_def)

lemma dots_none: "dots s = 0 \<longleftrightarrow> CHR ''.'' \<notin> set s"
  by (auto simp: dots_def filter_empty_conv)

definition flat_name :: "string \<Rightarrow> bool" where
  "flat_name s \<longleftrightarrow> CHR ''.'' \<notin> set s \<and> CHR ''/'' \<notin> set s"

text \<open>The configurations \<^verbatim>\<open>run\<close> accepts for recurring publication.\<close>

definition publishable :: "'z multiConfig \<Rightarrow> bool" where
  "publishable cfg \<longleftrightarrow> mt_outDir cfg \<noteq> [] \<and> validateDomain (mt_baseDomain cfg) = None \<and>
     list_all flat_name (mt_networks cfg) \<and> distinct (map strings_ToLower (mt_networks cfg))"

definition tree_domains :: "'z multiConfig \<Rightarrow> string set" where
  "tree_domains cfg = {tree_domain cfg net cap | net cap. net \<in> set (mt_networks cfg) \<and> cap \<in> {''all'', ''snap''}}"

lemma validate_labels_plain: "validate_labels ls = None \<Longrightarrow> l \<in> set ls \<Longrightarrow> CHR ''/'' \<notin> set l"
  by (induction ls) (auto simp: list_all_iff label_char_def split: if_splits)

lemma base_plain:
  assumes "publishable cfg"
  shows "CHR ''/'' \<notin> set (mt_baseDomain cfg)"
proof
  assume "CHR ''/'' \<in> set (mt_baseDomain cfg)"
  moreover have "set s \<subseteq> insert (CHR ''.'') (\<Union> (set ` set (split_on (CHR ''.'') s)))" for s :: string
    by (induction s) (auto split: list.splits, blast)
  ultimately obtain l where "l \<in> set (split_on (CHR ''.'') (mt_baseDomain cfg))" "CHR ''/'' \<in> set l" by fastforce
  moreover have "validate_labels (split_on (CHR ''.'') (mt_baseDomain cfg)) = None"
    using assms by (auto simp: publishable_def validateDomain_def split: if_splits)
  ultimately show False using validate_labels_plain by blast
qed

lemma domain_plain:
  assumes "publishable cfg" and "d \<in> tree_domains cfg"
  shows "CHR ''/'' \<notin> set d" and "dots d = 2 + dots (mt_baseDomain cfg)"
proof -
  obtain net cap where d: "d = tree_domain cfg net cap" "net \<in> set (mt_networks cfg)" "cap \<in> {''all'', ''snap''}"
    using assms(2) by (auto simp: tree_domains_def)
  have "flat_name net" using assms(1) d(2) by (simp add: publishable_def list_all_iff)
  then show "CHR ''/'' \<notin> set d" "dots d = 2 + dots (mt_baseDomain cfg)"
    using d base_plain [OF assms(1)] dots_none [of net] by (auto simp: tree_domain_def flat_name_def dots_def)
qed

definition artifact_key :: "string \<Rightarrow> string" where
  "artifact_key name = name @ ''.json''"

lemma artifact_key_inj [simp]: "artifact_key a = artifact_key b \<longleftrightarrow> a = b"
  by (simp add: artifact_key_def)

lemma published_key_ne:
  assumes "publishable cfg" and "d \<in> tree_domains cfg" and "d' \<in> tree_domains cfg"
  shows "d \<noteq> d' @ publishedSuffix"
proof
  assume "d = d' @ publishedSuffix"
  then have "dots d = dots d' + 1" by (simp add: publishedSuffix_def) (simp add: dots_def)
  then show False using domain_plain(2) [OF assms(1)] assms(2,3) by simp
qed

lemma split_on_none: "c \<notin> set s \<Longrightarrow> split_on c s = [s]"
  by (induction s) auto

lemma artifact_key_safe: "CHR ''/'' \<notin> set name \<Longrightarrow> safeRelPath (artifact_key name) = Some (artifact_key name)"
proof (rule plain_safeRelPath)
  assume "CHR ''/'' \<notin> set name"
  then have "CHR ''/'' \<notin> set (artifact_key name)" by (simp add: artifact_key_def)
  then have "split_on (CHR ''/'') (artifact_key name) = [artifact_key name]" by (rule split_on_none)
  then show "list_all plain_part (split_on (CHR ''/'') (artifact_key name))"
    using \<open>CHR ''/'' \<notin> set (artifact_key name)\<close> by (auto simp: plain_part_def artifact_key_def append_eq_Cons_conv)
qed

section \<open>The store of artifacts\<close>

text \<open>Nobody else writes the artifacts; any call may still fail, before it takes effect or after.\<close>

definition undisturbed :: "world \<Rightarrow> bool" where
  "undisturbed w \<longleftrightarrow> list_all (\<lambda>e. ce_writes e = []) (w_script w)"

definition same_objects :: "world \<Rightarrow> world \<Rightarrow> bool" where
  "same_objects w w' \<longleftrightarrow> undisturbed w' \<and> w_objects w' = w_objects w"

lemma enter_undisturbed: "undisturbed w \<Longrightarrow> enter w = (f, w') \<Longrightarrow> same_objects w w'"
  by (auto simp: undisturbed_def same_objects_def enter_def split: list.splits)

lemma same_objects_trans: "same_objects w w' \<Longrightarrow> same_objects w' w'' \<Longrightarrow> same_objects w w''"
  by (simp add: same_objects_def)

lemma same_objects_object: "same_objects w w' \<Longrightarrow> object w' k = object w k"
  by (simp add: same_objects_def object_def)

definition stored :: "artifact_codec \<Rightarrow> world \<Rightarrow> string \<Rightarrow> artifact option" where
  "stored ac w name = Option.bind (object w (artifact_key name)) (ac_decode ac)"

definition codec_roundtrip :: "artifact_codec \<Rightarrow> bool" where
  "codec_roundtrip ac \<longleftrightarrow> (\<forall>a b. ac_encode ac a = Some b \<longrightarrow> ac_decode ac b = Some a)"

lemma store_Get_undisturbed:
  assumes "undisturbed w" and "CHR ''/'' \<notin> set name" and "store_Get (artifact_key name) w = (r, w')"
  shows "same_objects w w'" and "\<And>raw. r = Inr raw \<Longrightarrow> object w (artifact_key name) = Some raw"
    and "r = Inl ErrNotFound \<Longrightarrow> object w (artifact_key name) = None"
proof -
  obtain f w1 where e: "enter w = (f, w1)" by fastforce
  note so = enter_undisturbed [OF assms(1) e]
  have g: "w' = w1" "r = (if f = NoFault then read_object (artifact_key name) w1 else Inl ErrIO)"
    using assms(3) by (auto simp: store_Get_def artifact_key_safe [OF assms(2)] e split: fault.splits)
  show "same_objects w w'" using so g by simp
  show "\<And>raw. r = Inr raw \<Longrightarrow> object w (artifact_key name) = Some raw"
    using g so by (auto split: if_splits simp: same_objects_object [OF so, symmetric] dest: sym read_object_found)
  show "r = Inl ErrNotFound \<Longrightarrow> object w (artifact_key name) = None"
    using g so by (auto split: if_splits simp: same_objects_object [OF so, symmetric] read_object_absent [symmetric])
qed

lemma emit_effect:
  assumes "undisturbed w" and "CHR ''/'' \<notin> set name" and "outDir \<noteq> []" and "codec_roundtrip ac"
    and "emitArtifact ac out outDir name w = (r, w')"
  shows "undisturbed w'" and "\<And>k. k \<noteq> artifact_key name \<Longrightarrow> object w' k = object w k"
    and "stored ac w' name = Some out \<or> r \<noteq> None \<and> object w' (artifact_key name) = object w (artifact_key name)"
proof -
  obtain f w1 where e: "enter w = (f, w1)" by fastforce
  note so = enter_undisturbed [OF assms(1) e]
  have put: "w' = w \<and> r \<noteq> None \<or> w' = w1 \<and> r \<noteq> None \<or> (\<exists>buf. ac_encode ac out = Some buf \<and> w' = put_object (artifact_key name) buf w1)"
    using assms(3,5) unfolding emitArtifact_def store_Put_def artifact_key_def [symmetric]
    by (auto simp: artifact_key_safe [OF assms(2)] e split: option.splits if_splits fault.splits)
  have "undisturbed (put_object k buf w1)" for k buf using so by (simp add: same_objects_def undisturbed_def)
  then show "undisturbed w'" using put so assms(1) by (auto simp: same_objects_def)
  show "\<And>k. k \<noteq> artifact_key name \<Longrightarrow> object w' k = object w k"
    using put same_objects_object [OF so] by auto
  show "stored ac w' name = Some out \<or> r \<noteq> None \<and> object w' (artifact_key name) = object w (artifact_key name)"
    using put same_objects_object [OF so] assms(4) by (auto simp: stored_def codec_roundtrip_def)
qed

text \<open>What a domain's own artifact says when it is usable.\<close>

lemma ownArtifact_reads:
  assumes "undisturbed w" and "CHR ''/'' \<notin> set name" and "outDir \<noteq> []"
    and "ownArtifact ac outDir name domain network capability w = (r, w')"
  shows "same_objects w w'"
    and "r = Inr None \<Longrightarrow> object w (artifact_key name) = None"
    and "\<And>a. r = Inr (Some a) \<Longrightarrow> stored ac w name = Some a \<and> validateBaseline a domain network capability = None"
proof -
  obtain g w1 where g: "store_Get (artifact_key name) w = (g, w1)" by fastforce
  note get = store_Get_undisturbed [OF assms(1,2) g]
  have "readPrevious ac name w = (case g of Inl ErrNotFound \<Rightarrow> Inr None | Inl e \<Rightarrow> Inl (ArtifactStore e)
      | Inr raw \<Rightarrow> (case ac_decode ac raw of None \<Rightarrow> Inl ArtifactJSON | Some prev \<Rightarrow> Inr (Some prev)), w1)"
    using g by (auto simp: readPrevious_def artifact_key_def split: sum.splits storeError.splits option.splits)
  note rp = this
  have own: "w' = w1 \<and> (r = Inr None \<and> g = Inl ErrNotFound \<or> (\<exists>e. r = Inl e) \<or>
      (\<exists>raw a. g = Inr raw \<and> ac_decode ac raw = Some a \<and> r = Inr (Some a) \<and> validateBaseline a domain network capability = None))"
    using assms(3,4) unfolding ownArtifact_def rp
    by (auto split: sum.splits storeError.splits option.splits)
  show "same_objects w w'" using own get(1) by simp
  show "r = Inr None \<Longrightarrow> object w (artifact_key name) = None" using own get(3) by auto
  show "\<And>a. r = Inr (Some a) \<Longrightarrow> stored ac w name = Some a \<and> validateBaseline a domain network capability = None"
    using own get(2) by (auto simp: stored_def)
qed

text \<open>The sequence floor and the retained records as a cycle finds them on disk.\<close>

definition floor_on_disk :: "artifact_codec \<Rightarrow> world \<Rightarrow> string \<Rightarrow> u64 \<Rightarrow> bool" where
  "floor_on_disk ac w domain seq \<longleftrightarrow>
     object w (artifact_key domain) = None \<and> seq = 0 \<or>
     (\<exists>a. stored ac w domain = Some a \<and> out_Seq a = seq \<and> seq \<le> maxBaselineSeq)"

definition retained_on_disk :: "artifact_codec \<Rightarrow> world \<Rightarrow> string \<Rightarrow> txt_records option \<Rightarrow> bool" where
  "retained_on_disk ac w domain retain \<longleftrightarrow>
     object w (artifact_key (domain @ publishedSuffix)) = None \<and> retain = None \<or>
     (\<exists>a. stored ac w (domain @ publishedSuffix) = Some a \<and> retain = Some (out_Records a))"

lemma validateBaseline_seq: "validateBaseline a domain network capability = None \<Longrightarrow> out_Seq a \<le> maxBaselineSeq"
  by (auto simp: validateBaseline_def split: sum.splits if_splits)

lemma baselineFor_reads:
  assumes "undisturbed w" and "CHR ''/'' \<notin> set domain" and "outDir \<noteq> []"
    and "baselineFor ac outDir domain network capability w = (r, w')"
  shows "same_objects w w'" and "\<And>n seq. r = Inr (n, seq) \<Longrightarrow> floor_on_disk ac w domain seq"
proof -
  obtain o1 w1 where c1: "ownArtifact ac outDir domain domain network capability w = (o1, w1)" by fastforce
  note r1 = ownArtifact_reads [OF assms(1-3) c1]
  have "w' = w1" using assms(4) by (simp add: baselineFor_def c1 split: sum.splits option.splits)
  then show "same_objects w w'" using r1(1) by simp
  show "\<And>n seq. r = Inr (n, seq) \<Longrightarrow> floor_on_disk ac w domain seq"
    using assms(4) r1(2,3) by (auto simp: baselineFor_def c1 floor_on_disk_def dest: validateBaseline_seq split: sum.splits option.splits)
qed

lemma baselinesFor_reads:
  assumes "undisturbed w" and "CHR ''/'' \<notin> set domain" and "outDir \<noteq> []"
    and "baselinesFor ac outDir publishes domain network capability w = (r, w')"
  shows "same_objects w w'"
    and "\<And>b. r = Inr b \<Longrightarrow> floor_on_disk ac w domain (bl_seq b)"
    and "\<And>b. r = Inr b \<Longrightarrow> publishes \<Longrightarrow> retained_on_disk ac w domain (bl_retain b)"
proof -
  have pub: "CHR ''/'' \<notin> set (domain @ publishedSuffix)" using assms(2) by (simp add: publishedSuffix_def)
  obtain o1 w1 where c1: "baselineFor ac outDir domain network capability w = (o1, w1)" by fastforce
  obtain o2 w2 where c2: "ownArtifact ac outDir (domain @ publishedSuffix) domain network capability w1 = (o2, w2)" by fastforce
  note r1 = baselineFor_reads [OF assms(1-3) c1]
  have u1: "undisturbed w1" using r1(1) by (simp add: same_objects_def)
  note r2 = ownArtifact_reads [OF u1 pub assms(3) c2]
  have disk: "stored ac w1 n = stored ac w n" "object w1 k = object w k" for n k
    using same_objects_object [OF r1(1)] by (simp_all add: stored_def)
  note bl = assms(4) [unfolded baselinesFor_def publishedArtifact_def c1 prod.case]
  have w': "w' = w1 \<or> w' = w2" and
    seq: "r = Inr b \<Longrightarrow> \<exists>n. o1 = Inr (n, bl_seq b)" and
    ret: "r = Inr b \<Longrightarrow> publishes \<Longrightarrow> \<exists>a. o2 = Inr a \<and> bl_retain b = map_option out_Records a" for b
    using bl by (cases o1; cases publishes; cases o2; force simp: c2 split: prod.splits option.splits)+
  show "same_objects w w'" using w' r1(1) same_objects_trans [OF r1(1) r2(1)] by auto
  show "\<And>b. r = Inr b \<Longrightarrow> floor_on_disk ac w domain (bl_seq b)" using seq r1(2) by blast
  show "retained_on_disk ac w domain (bl_retain b)" if b: "r = Inr b" and p: publishes for b
  proof -
    from ret [OF b p] obtain a where a: "o2 = Inr a" "bl_retain b = map_option out_Records a" by blast
    show ?thesis using a r2(2,3) by (cases a) (auto simp: retained_on_disk_def disk)
  qed
qed

section \<open>The trees of a cycle\<close>

text \<open>What a tree handed to publication owes to the disk, to the guards and to the library that made it.\<close>

definition tree_fits :: "'t dns_env \<Rightarrow> 'z multiConfig \<Rightarrow> string \<Rightarrow> gotime \<Rightarrow> (string \<Rightarrow> u64) \<Rightarrow> world \<Rightarrow> string \<Rightarrow> builtTree \<Rightarrow> bool" where
  "tree_fits env cfg network generatedAt issued w cap t \<longleftrightarrow>
     (let out = bt_output t; d = tree_domain cfg network cap in
      out_Domain out = d \<and> (\<exists>T. out_Records out = tl_ToTXT (de_trees env) T d) \<and>
      (\<exists>floor. floor_on_disk (de_codec env) w d floor \<and> out_Seq out = treeSequence generatedAt (max floor (issued d))) \<and>
      (mt_publisher cfg \<noteq> None \<longrightarrow> retained_on_disk (de_codec env) w d (bt_retain t)))"

lemma buildTree_fields:
  assumes "buildTree lib dd cands opt seq domain network = Some (Inr t)"
  shows "out_Domain (bt_output t) = domain \<and> out_Seq (bt_output t) = seq \<and> (\<exists>T. out_Records (bt_output t) = tl_ToTXT dd T domain)"
  using assms by (auto simp: buildTree_def split: option.splits)

lemma choose_tree_built:
  assumes "choose_tree env cfg cands ready opt seq domain network previousNodes exempt cancelNear = Some (Inr (t, x))"
  shows "\<exists>cs t'. buildTree (de_lib env) (de_trees env) cs opt seq domain network = Some (Inr t') \<and> bt_output t = bt_output t'"
proof -
  have full: "\<exists>t'. full = Some (Inr t') \<and> bt_output t = bt_output t'"
    if "map_option (map_sum (\<lambda>e. e) (\<lambda>t. (t, exempt))) full = Some (Inr (t, x))" for full :: "(treeError + builtTree) option"
  proof (cases full)
    case (Some a)
    then show ?thesis using that by (cases a) auto
  qed (use that in simp)
  note ch = assms [unfolded choose_tree_def Let_def]
  show ?thesis
  proof (cases "ready = []")
    case True
    then show ?thesis using full [of "buildTree (de_lib env) (de_trees env) cands opt seq domain network"] ch by auto
  next
    case False
    obtain b where b: "buildTree (de_lib env) (de_trees env) ready opt seq domain network = Some b"
      using ch False by (cases "buildTree (de_lib env) (de_trees env) ready opt seq domain network") auto
    obtain rt where rt: "b = Inr rt" using ch False b by (cases b) auto
    have "bt_output t = bt_output rt \<or>
        map_option (map_sum (\<lambda>e. e) (\<lambda>t. (t, exempt))) (buildTree (de_lib env) (de_trees env) cands opt seq domain network) = Some (Inr (t, x))"
      using ch False b rt by (auto split: option.splits if_splits)
    then show ?thesis using full b rt by blast
  qed
qed

lemma choose_tree_fields:
  assumes "choose_tree env cfg cands ready opt seq domain network previousNodes exempt cancelNear = Some (Inr (t, x))"
  shows "out_Domain (bt_output t) = domain \<and> out_Seq (bt_output t) = seq \<and>
    (\<exists>T. out_Records (bt_output t) = tl_ToTXT (de_trees env) T domain)"
  using choose_tree_built [OF assms] buildTree_fields by metis

lemma build_trees_fit:
  assumes "publishable cfg" and "network \<in> set (mt_networks cfg)" and "set caps \<subseteq> {''all'', ''snap''}" and "undisturbed w"
    and "build_trees env cfg network generatedAt evaluatedAt issued cands ready cancelNear caps w = Some (r, w')"
  shows "same_objects w w' \<and>
    (\<forall>trees. r = Inr (Inr trees) \<longrightarrow> list_all2 (tree_fits env cfg network generatedAt issued w) caps trees)"
  using assms(3-)
proof (induction caps arbitrary: w r)
  case Nil
  then show ?case by (auto simp: same_objects_def)
next
  case (Cons cap caps)
  let ?d = "tree_domain cfg network cap"
  have "?d \<in> tree_domains cfg" using assms(2) Cons.prems(1) by (auto simp: tree_domains_def)
  note plain = domain_plain(1) [OF assms(1) this]
  have out: "mt_outDir cfg \<noteq> []" using assms(1) by (simp add: publishable_def)
  obtain b w1 where base: "baselinesFor (de_codec env) (mt_outDir cfg) (mt_publisher cfg \<noteq> None) ?d network cap w = (b, w1)" by fastforce
  note bl = baselinesFor_reads [OF Cons.prems(2) plain out base]
  have u1: "undisturbed w1" using bl(1) by (simp add: same_objects_def)
  show ?case
  proof (cases b)
    case (Inl e)
    then show ?thesis using Cons.prems(3) base bl(1) by auto
  next
    case (Inr bb)
    have disk: "floor_on_disk ac w1 = floor_on_disk ac w" "retained_on_disk ac w1 = retained_on_disk ac w" for ac
      using same_objects_object [OF bl(1)] by (auto simp: floor_on_disk_def retained_on_disk_def stored_def fun_eq_iff)
    then have fits: "tree_fits env cfg network generatedAt issued w1 = tree_fits env cfg network generatedAt issued w"
      by (auto simp: tree_fits_def fun_eq_iff)
    note step = Cons.prems(3) [unfolded build_trees.simps Let_def base Inr prod.case sum.case]
    show ?thesis
    proof (cases "same_objects w w' \<and> (\<forall>trees. r \<noteq> Inr (Inr trees))")
      case False
      from step False bl(1) obtain t x rest where
        ch: "choose_tree env cfg cands ready (mt_sel cfg\<lparr>so_capability := cap\<rparr>) (treeSequence generatedAt (max (bl_seq bb) (issued ?d)))
          ?d network (bl_nodes bb)
          (0 < bl_publishedSeq bb \<and> layerForkActivatedBetween (de_registry env) network (so_layer (mt_sel cfg))
             (unix64 (sint (bl_publishedSeq bb))) (time_Add evaluatedAt (- publishCycle (mt_publishEvery cfg)))) cancelNear = Some (Inr (t, x))"
        and rest: "build_trees env cfg network generatedAt evaluatedAt issued cands ready cancelNear caps w1 = Some (rest, w')"
        and r: "\<And>trees. r = Inr (Inr trees) \<Longrightarrow> \<exists>ts. rest = Inr (Inr ts) \<and> trees = t\<lparr>bt_retain := bl_retain bb\<rparr> # ts"
        by (auto split: option.splits sum.splits if_splits prod.splits)
      note IH = Cons.IH [OF _ u1 rest]
      have tf: "tree_fits env cfg network generatedAt issued w cap (t\<lparr>bt_retain := bl_retain bb\<rparr>)"
        using choose_tree_fields [OF ch] bl(2,3) [OF Inr] by (auto simp: tree_fits_def Let_def)
      then show ?thesis using IH Cons.prems(1) fits r same_objects_trans [OF bl(1)] by auto
    qed blast
  qed
qed

section \<open>Sequences\<close>

lemma treeSequence_above: "previousSeq \<le> maxBaselineSeq \<Longrightarrow> previousSeq < treeSequence generatedAt previousSeq"
proof -
  assume a: "previousSeq \<le> maxBaselineSeq"
  then have "previousSeq < 1099511627777" by (rule order_le_less_trans) (simp add: maxBaselineSeq_def)
  then have "previousSeq < previousSeq + 1" by (unat_arith, simp)
  then show ?thesis by (auto simp: treeSequence_def Let_def)
qed

text \<open>What a process has issued it has on disk; an artifact is only replaced by one of a higher sequence.\<close>

definition issued_ok :: "artifact_codec \<Rightarrow> string set \<Rightarrow> 'z dns_state \<Rightarrow> bool" where
  "issued_ok ac ds s \<longleftrightarrow> undisturbed (ds_artifacts s) \<and>
     (\<forall>d\<in>ds. ds_issued s d = 0 \<or> (\<exists>a. stored ac (ds_artifacts s) d = Some a \<and> ds_issued s d \<le> out_Seq a))"

definition grown :: "artifact_codec \<Rightarrow> string \<Rightarrow> world \<Rightarrow> world \<Rightarrow> bool" where
  "grown ac d w w' \<longleftrightarrow>
     (\<forall>a. stored ac w d = Some a \<longrightarrow> (\<exists>a'. stored ac w' d = Some a' \<and> (a' = a \<or> out_Seq a < out_Seq a')))"

lemma grown_refl [simp]: "grown ac d w w"
  by (simp add: grown_def)

lemma grown_trans: "grown ac d w w' \<Longrightarrow> grown ac d w' w'' \<Longrightarrow> grown ac d w w''"
  unfolding grown_def by (blast intro: order_less_trans)

lemma stored_same: "object w' (artifact_key d) = object w (artifact_key d) \<Longrightarrow> stored ac w' d = stored ac w d"
  by (simp add: stored_def)

lemma grown_same: "object w' (artifact_key d) = object w (artifact_key d) \<Longrightarrow> grown ac d w w'"
  using stored_same [of w' d w ac] by (simp add: grown_def)

definition newer :: "artifact_codec \<Rightarrow> world \<Rightarrow> artifact \<Rightarrow> bool" where
  "newer ac w out \<longleftrightarrow> (\<forall>a. stored ac w (out_Domain out) = Some a \<longrightarrow> out_Seq a < out_Seq out)"

lemma tree_fits_newer:
  assumes "tree_fits env cfg network generatedAt (ds_issued s) (ds_artifacts s) cap t" and "issued_ok (de_codec env) ds s"
    and "tree_domain cfg network cap \<in> ds"
  shows "newer (de_codec env) (ds_artifacts s) (bt_output t)"
  unfolding newer_def
proof (intro allI impI)
  fix a assume a: "stored (de_codec env) (ds_artifacts s) (out_Domain (bt_output t)) = Some a"
  let ?d = "tree_domain cfg network cap"
  from assms(1) obtain f where f: "floor_on_disk (de_codec env) (ds_artifacts s) ?d f" "out_Domain (bt_output t) = ?d"
      "out_Seq (bt_output t) = treeSequence generatedAt (max f (ds_issued s ?d))"
    by (auto simp: tree_fits_def Let_def)
  then have "f = out_Seq a" "f \<le> maxBaselineSeq" using a by (auto simp: floor_on_disk_def stored_def)
  moreover have "ds_issued s ?d \<le> out_Seq a" using assms(2,3) a f(2) by (auto simp: issued_ok_def)
  ultimately show "out_Seq a < out_Seq (bt_output t)" using f(3) treeSequence_above [of f] by (simp add: max_absorb1)
qed

text \<open>The keys a list of trees writes.\<close>

definition tree_keys :: "builtTree list \<Rightarrow> string set" where
  "tree_keys ts = (\<lambda>t. artifact_key (out_Domain (bt_output t))) ` set ts"

lemma emit_trees_effect:
  assumes "publishable cfg" and "codec_roundtrip (de_codec env)"
    and "emit_trees env cfg ts s = (r, s')" and "issued_ok (de_codec env) (tree_domains cfg) s"
    and "distinct (map (out_Domain \<circ> bt_output) ts)" and "(out_Domain \<circ> bt_output) ` set ts \<subseteq> tree_domains cfg"
    and "list_all (newer (de_codec env) (ds_artifacts s) \<circ> bt_output) ts"
  shows "issued_ok (de_codec env) (tree_domains cfg) s' \<and> (\<forall>d. grown (de_codec env) d (ds_artifacts s) (ds_artifacts s')) \<and>
    (\<forall>k. k \<notin> tree_keys ts \<longrightarrow> object (ds_artifacts s') k = object (ds_artifacts s) k) \<and> ds_zone s' = ds_zone s"
  using assms(3-)
proof (induction ts arbitrary: s)
  case Nil
  then show ?case by simp
next
  case (Cons t ts)
  let ?out = "bt_output t" and ?ac = "de_codec env"
  let ?d = "out_Domain ?out"
  have out: "mt_outDir cfg \<noteq> []" using assms(1) by (simp add: publishable_def)
  have d: "?d \<in> tree_domains cfg" using Cons.prems(4) by simp
  obtain e w where emit: "emitArtifact ?ac ?out (mt_outDir cfg) ?d (ds_artifacts s) = (e, w)" by fastforce
  have u: "undisturbed (ds_artifacts s)" using Cons.prems(2) by (simp add: issued_ok_def)
  note ee = emit_effect [OF u domain_plain(1) [OF assms(1) d] out assms(2) emit]
  have st: "stored ?ac w d' = stored ?ac (ds_artifacts s) d'" if "d' \<noteq> ?d" for d'
    using ee(2) that by (intro stored_same) simp
  have new: "newer ?ac (ds_artifacts s) ?out" using Cons.prems(5) by simp
  have gr: "grown ?ac d' (ds_artifacts s) w" for d'
  proof (cases "d' = ?d")
    case True
    show ?thesis using ee(3)
    proof
      assume "stored ?ac w ?d = Some ?out"
      then show ?thesis using new True by (simp add: grown_def newer_def)
    qed (simp add: True grown_same)
  qed (simp add: grown_def st)
  have keep: "issued_ok ?ac (tree_domains cfg) (s\<lparr>ds_artifacts := w\<rparr>)"
    unfolding issued_ok_def
  proof (intro conjI ballI)
    fix d' assume "d' \<in> tree_domains cfg"
    then consider "ds_issued s d' = 0" | a where "stored ?ac (ds_artifacts s) d' = Some a" "ds_issued s d' \<le> out_Seq a"
      using Cons.prems(2) by (auto simp: issued_ok_def)
    then show "ds_issued (s\<lparr>ds_artifacts := w\<rparr>) d' = 0 \<or>
        (\<exists>a. stored ?ac (ds_artifacts (s\<lparr>ds_artifacts := w\<rparr>)) d' = Some a \<and> ds_issued (s\<lparr>ds_artifacts := w\<rparr>) d' \<le> out_Seq a)"
      by cases (use gr [of d'] in \<open>force simp: grown_def\<close>)+
  qed (simp add: ee(1))
  show ?case
  proof (cases "mt_validate cfg \<and> \<not> tl_ParseURL (de_trees env) (out_URL ?out)")
    case True
    then show ?thesis using Cons.prems(1,2) by auto
  next
    case valid: False
    show ?thesis
    proof (cases e)
      case (Some x)
      then have "s' = s\<lparr>ds_artifacts := w\<rparr>" using Cons.prems(1) valid emit by auto
      then show ?thesis using keep gr ee(2) by (auto simp: tree_keys_def)
    next
      case None
      let ?s1 = "s\<lparr>ds_artifacts := w, ds_issued := (ds_issued s)(?d := out_Seq ?out)\<rparr>"
      have rest: "emit_trees env cfg ts ?s1 = (r, s')" using Cons.prems(1) valid emit None by (auto simp: Let_def)
      have here: "stored ?ac w ?d = Some ?out" using ee(3) None by simp
      have i1: "issued_ok ?ac (tree_domains cfg) ?s1" using keep here by (auto simp: issued_ok_def)
      have "list_all (newer ?ac (ds_artifacts ?s1) \<circ> bt_output) ts"
        using Cons.prems(3,5) st by (auto simp: list_all_iff newer_def image_iff) 
      from Cons.IH [OF rest i1 _ _ this] Cons.prems(3,4) show ?thesis
        using grown_trans [OF gr] ee(2) by (auto simp: tree_keys_def)
    qed
  qed
qed

section \<open>Cycles and runs\<close>

text \<open>Trees ready to be pushed: each made by the library for its own domain, with the records retained
  that its published artifact lists.\<close>

definition pushable :: "'t dns_env \<Rightarrow> 'z multiConfig \<Rightarrow> builtTree list \<Rightarrow> world \<Rightarrow> bool" where
  "pushable env cfg ts w \<longleftrightarrow>
     distinct (map (out_Domain \<circ> bt_output) ts) \<and>
     list_all (\<lambda>t. let d = out_Domain (bt_output t) in
       d \<in> tree_domains cfg \<and> (\<exists>T. out_Records (bt_output t) = tl_ToTXT (de_trees env) T d) \<and>
       retained_on_disk (de_codec env) w d (bt_retain t)) ts"

text \<open>Everything a cycle does apart from a push: the zone and the published artifacts stay as they are
  and the artifacts only grow.\<close>

definition offline :: "'t dns_env \<Rightarrow> 'z multiConfig \<Rightarrow> 'z dns_state \<Rightarrow> 'z dns_state \<Rightarrow> bool" where
  "offline env cfg s s' \<longleftrightarrow>
     issued_ok (de_codec env) (tree_domains cfg) s' \<and> ds_zone s' = ds_zone s \<and>
     (\<forall>d\<in>tree_domains cfg. grown (de_codec env) d (ds_artifacts s) (ds_artifacts s') \<and>
        object (ds_artifacts s') (artifact_key (d @ publishedSuffix)) = object (ds_artifacts s) (artifact_key (d @ publishedSuffix)))"

lemma offline_read:
  assumes "issued_ok (de_codec env) (tree_domains cfg) s" and "same_objects (ds_artifacts s) aw"
  shows "offline env cfg s (s\<lparr>ds_snapshots := w, ds_artifacts := aw\<rparr>)"
proof -
  note o = same_objects_object [OF assms(2)]
  then have "stored (de_codec env) aw = stored (de_codec env) (ds_artifacts s)" by (simp add: stored_def fun_eq_iff)
  then show ?thesis using assms o by (simp add: offline_def issued_ok_def same_objects_def grown_def)
qed

lemma offline_snapshots: "issued_ok (de_codec env) (tree_domains cfg) s \<Longrightarrow> offline env cfg s (s\<lparr>ds_snapshots := w\<rparr>)"
  using offline_read [of env cfg s "ds_artifacts s" w] by (simp add: same_objects_def issued_ok_def)

lemma offline_restart: "issued_ok (de_codec env) (tree_domains cfg) s \<Longrightarrow> offline env cfg s (s\<lparr>ds_issued := (\<lambda>_. 0)\<rparr>)"
  by (simp add: offline_def issued_ok_def)

definition fitting :: "'t dns_env \<Rightarrow> 'z multiConfig \<Rightarrow> string \<Rightarrow> gotime \<Rightarrow> 'z dns_state \<Rightarrow> builtTree list \<Rightarrow> bool" where
  "fitting env cfg net generatedAt s ts \<longleftrightarrow>
     (\<exists>caps. distinct caps \<and> set caps \<subseteq> {''all'', ''snap''} \<and>
        list_all2 (tree_fits env cfg net generatedAt (ds_issued s) (ds_artifacts s)) caps ts)"

lemma fitting_trees:
  assumes "net \<in> set (mt_networks cfg)" and "fitting env cfg net generatedAt s ts" and "issued_ok (de_codec env) (tree_domains cfg) s"
  shows "distinct (map (out_Domain \<circ> bt_output) ts)" and "(out_Domain \<circ> bt_output) ` set ts \<subseteq> tree_domains cfg"
    and "list_all (newer (de_codec env) (ds_artifacts s) \<circ> bt_output) ts"
    and "mt_publisher cfg \<noteq> None \<Longrightarrow> pushable env cfg ts (ds_artifacts s)"
proof -
  obtain caps where caps: "distinct caps" "set caps \<subseteq> {''all'', ''snap''}"
      "list_all2 (tree_fits env cfg net generatedAt (ds_issued s) (ds_artifacts s)) caps ts"
    using assms(2) unfolding fitting_def by blast
  from caps(3) have dom: "map (out_Domain \<circ> bt_output) ts = map (tree_domain cfg net) caps"
    by (induction rule: list_all2_induct) (simp_all add: tree_fits_def Let_def)
  have each: "\<exists>cap \<in> {''all'', ''snap''}. tree_fits env cfg net generatedAt (ds_issued s) (ds_artifacts s) cap t" if "t \<in> set ts" for t
    using caps(2,3) that by (auto simp: list_all2_conv_all_nth in_set_conv_nth subset_iff) (metis nth_mem)
  have td: "tree_domain cfg net cap \<in> tree_domains cfg" if "cap \<in> {''all'', ''snap''}" for cap
    using assms(1) that by (auto simp: tree_domains_def)
  show dist: "distinct (map (out_Domain \<circ> bt_output) ts)"
    unfolding dom using caps(1) by (simp add: distinct_map inj_on_def tree_domain_def)
  show sub: "(out_Domain \<circ> bt_output) ` set ts \<subseteq> tree_domains cfg"
    using each td by (fastforce simp: tree_fits_def Let_def)
  show "list_all (newer (de_codec env) (ds_artifacts s) \<circ> bt_output) ts"
    using each td tree_fits_newer [OF _ assms(3)] by (fastforce simp: list_all_iff)
  show "pushable env cfg ts (ds_artifacts s)" if "mt_publisher cfg \<noteq> None"
    using each td dist that unfolding pushable_def by (fastforce simp: list_all_iff tree_fits_def Let_def)
qed

lemma offline_emit:
  assumes "publishable cfg" and "codec_roundtrip (de_codec env)" and "net \<in> set (mt_networks cfg)"
    and "fitting env cfg net generatedAt s ts" and "issued_ok (de_codec env) (tree_domains cfg) s"
    and "emit_trees env cfg ts s = (r, s')"
  shows "offline env cfg s s'" and "mt_publisher cfg \<noteq> None \<Longrightarrow> pushable env cfg ts (ds_artifacts s')"
proof -
  note ft = fitting_trees [OF assms(3-5)]
  note em = emit_trees_effect [OF assms(1,2,6,5) ft(1-3)]
  have away: "artifact_key (d @ publishedSuffix) \<notin> tree_keys ts" if "d \<in> tree_domains cfg" for d
    using published_key_ne [OF assms(1) _ that] ft(2) by (fastforce simp: tree_keys_def)
  then show "offline env cfg s s'" using em by (auto simp: offline_def)
  have "retained_on_disk ac (ds_artifacts s') d = retained_on_disk ac (ds_artifacts s) d" if "d \<in> tree_domains cfg" for ac d
    using em away [OF that] by (simp add: retained_on_disk_def stored_def fun_eq_iff)
  then show "mt_publisher cfg \<noteq> None \<Longrightarrow> pushable env cfg ts (ds_artifacts s')"
    using ft(4) by (auto simp: pushable_def list_all_iff Let_def)
qed

text \<open>An invariant that offline changes and pushes keep holds along every run.\<close>

lemma network_loop_keeps:
  assumes "publishable cfg" and "codec_roundtrip (de_codec env)"
    and ok: "\<And>s. I s \<Longrightarrow> issued_ok (de_codec env) (tree_domains cfg) s"
    and quiet: "\<And>s s'. I s \<Longrightarrow> offline env cfg s s' \<Longrightarrow> I s'"
    and push: "\<And>s ts sync r s'. I s \<Longrightarrow> mt_publisher cfg = Some sync \<Longrightarrow> pushable env cfg ts (ds_artifacts s) \<Longrightarrow>
      publish_trees env sync (mt_outDir cfg) ts s = Some (r, s') \<Longrightarrow> I s'"
    and "network_loop env cfg m evaluatedAt nets s = Some (r, s')" and "set nets \<subseteq> set (mt_networks cfg)" and "I s"
  shows "I s'"
  using assms(6-)
proof (induction nets arbitrary: s)
  case Nil
  then show ?case by simp
next
  case (Cons net nets)
  obtain l w where l: "LoadNetworkRows (de_snapshot env) m net (ds_snapshots s) = (l, w)" by fastforce
  have net: "net \<in> set (mt_networks cfg)" and nets: "set nets \<subseteq> set (mt_networks cfg)" using Cons.prems(2) by simp_all
  show ?case
  proof (cases l)
    case (Inl e)
    then have "network_loop env cfg m evaluatedAt nets (s\<lparr>ds_snapshots := w\<rparr>) = Some (r, s')" using Cons.prems(1) l by simp
    from Cons.IH [OF this nets] show ?thesis using quiet [OF Cons.prems(3)] offline_snapshots [OF ok [OF Cons.prems(3)]] by blast
  next
    case (Inr rs)
    obtain b aw where b: "buildNetworkTrees env cfg rs net (mf_GeneratedAt m) evaluatedAt (ds_issued s) (ds_artifacts s) = Some (b, aw)"
      using Cons.prems(1) l Inr
      by (cases "buildNetworkTrees env cfg rs net (mf_GeneratedAt m) evaluatedAt (ds_issued s) (ds_artifacts s)") auto
    define caps where "caps = (if so_layer (mt_sel cfg) \<noteq> ''cl'' then [''all'', ''snap''] else [''all''])"
    have caps: "set caps \<subseteq> {''all'', ''snap''}" "distinct caps" by (simp_all add: caps_def)
    have u: "undisturbed (ds_artifacts s)" using ok [OF Cons.prems(3)] by (simp add: issued_ok_def)
    note fit = build_trees_fit [OF assms(1) net caps(1) u b [unfolded buildNetworkTrees_def Let_def, folded caps_def]]
    let ?s1 = "s\<lparr>ds_snapshots := w, ds_artifacts := aw\<rparr>"
    have "offline env cfg s ?s1" using offline_read [OF ok [OF Cons.prems(3)]] fit by blast
    then have I1: "I ?s1" by (rule quiet [OF Cons.prems(3)])
    show ?thesis
    proof (cases "\<exists>ts. b = Inr (Inr ts)")
      case False
      then have "network_loop env cfg m evaluatedAt nets ?s1 = Some (r, s')" using Cons.prems(1) l Inr b
        by (auto split: sum.splits)
      from Cons.IH [OF this nets I1] show ?thesis .
    next
      case True
      then obtain ts where ts: "b = Inr (Inr ts)" by blast
      have disk: "tree_fits env cfg net g i aw = tree_fits env cfg net g i (ds_artifacts s)" for g i
        using same_objects_object [of "ds_artifacts s" aw] fit
        by (auto simp: tree_fits_def floor_on_disk_def retained_on_disk_def stored_def fun_eq_iff)
      have "fitting env cfg net (mf_GeneratedAt m) ?s1 ts"
        unfolding fitting_def using fit ts caps disk by auto
      note em = offline_emit [OF assms(1,2) net this ok [OF I1]]
      obtain e s2 where e: "emit_trees env cfg ts ?s1 = (e, s2)" by fastforce
      have I2: "I s2" by (rule quiet [OF I1 em(1) [OF e]])
      show ?thesis
      proof (cases e)
        case (Some x)
        then show ?thesis using Cons.prems(1) l Inr b ts e I2 by simp
      next
        case None
        obtain pr s3 where p: "publishNetwork env cfg ts s2 = Some (pr, s3)"
          using Cons.prems(1) l Inr b ts e None by (auto split: option.splits)
        have "I s3"
        proof (cases "mt_publisher cfg")
          case (Some sync)
          then show ?thesis using push [OF I2 Some em(2) [OF e]] p by (simp add: publishNetwork_def)
        qed (use p I2 in \<open>simp add: publishNetwork_def\<close>)
        moreover have "network_loop env cfg m evaluatedAt nets s3 = Some (r, s')"
          using Cons.prems(1) l Inr b ts e None p by simp
        ultimately show ?thesis using Cons.IH nets by blast
      qed
    qed
  qed
qed

lemma dns_run_keeps:
  assumes "publishable cfg" and "codec_roundtrip (de_codec env)"
    and ok: "\<And>s. I s \<Longrightarrow> issued_ok (de_codec env) (tree_domains cfg) s"
    and quiet: "\<And>s s'. I s \<Longrightarrow> offline env cfg s s' \<Longrightarrow> I s'"
    and push: "\<And>s ts sync r s'. I s \<Longrightarrow> mt_publisher cfg = Some sync \<Longrightarrow> pushable env cfg ts (ds_artifacts s) \<Longrightarrow>
      publish_trees env sync (mt_outDir cfg) ts s = Some (r, s') \<Longrightarrow> I s'"
    and "dns_run env cfg s s'" and "I s"
  shows "I s'"
  using assms(6,7)
proof (induction rule: rtranclp_induct)
  case (step s1 s2)
  then have I1: "I s1" by simp
  from step(2) show ?case
  proof (cases rule: dns_step.cases)
    case (a_cycle now evaluatedAt r)
    obtain m w where m: "snapshot_Read (de_snapshot env) (ds_snapshots s1) = (m, w)" by fastforce
    have Iw: "I (s1\<lparr>ds_snapshots := w\<rparr>)" using quiet [OF I1] offline_snapshots [OF ok [OF I1]] by blast
    consider "s2 = s1\<lparr>ds_snapshots := w\<rparr>"
      | mf where "network_loop env cfg mf evaluatedAt (mt_networks cfg) (s1\<lparr>ds_snapshots := w\<rparr>) = Some (r, s2)"
      using a_cycle m by (auto simp: publish_cycle_def split: sum.splits if_splits)
    then show ?thesis
    proof cases
      case (2 mf)
      show ?thesis by (rule network_loop_keeps [where I = I, OF assms(1,2) _ _ _ 2 subset_refl Iw]) (erule ok quiet push; assumption)+
    qed (use Iw in simp)
  next
    case (crawler w)
    then show ?thesis using quiet [OF I1] offline_snapshots [OF ok [OF I1]] by blast
  next
    case restart
    then show ?thesis using quiet [OF I1] offline_restart [OF ok [OF I1]] by blast
  qed
qed simp

lemma publish_trees_disk:
  assumes "publishable cfg" and "codec_roundtrip (de_codec env)" and "publish_trees env sync (mt_outDir cfg) ts s = Some (r, s')"
    and "undisturbed (ds_artifacts s)" and "(out_Domain \<circ> bt_output) ` set ts \<subseteq> tree_domains cfg"
  shows "undisturbed (ds_artifacts s') \<and> ds_issued s' = ds_issued s \<and>
    (\<forall>d\<in>tree_domains cfg. object (ds_artifacts s') (artifact_key d) = object (ds_artifacts s) (artifact_key d))"
  using assms(3-)
proof (induction ts arbitrary: s)
  case (Cons t ts)
  let ?d = "out_Domain (bt_output t)"
  obtain n e z where y: "sync ?d (out_Records (bt_output t)) (bt_retain t) (ds_zone s) = Some ((n, e), z)"
    using Cons.prems(1) by (cases "sync ?d (out_Records (bt_output t)) (bt_retain t) (ds_zone s)") auto
  obtain e2 w where c: "emitArtifact (de_codec env) (bt_output t) (mt_outDir cfg) (?d @ publishedSuffix) (ds_artifacts s) = (e2, w)" by fastforce
  have out: "mt_outDir cfg \<noteq> []" using assms(1) by (simp add: publishable_def)
  have d: "?d \<in> tree_domains cfg" using Cons.prems(3) by simp
  have pl: "CHR ''/'' \<notin> set (?d @ publishedSuffix)" using domain_plain(1) [OF assms(1) d] by (simp add: publishedSuffix_def)
  note ee = emit_effect [OF Cons.prems(2) pl out assms(2) c]
  have keep: "\<forall>d\<in>tree_domains cfg. object w (artifact_key d) = object (ds_artifacts s) (artifact_key d)"
    using ee(2) published_key_ne [OF assms(1) _ d] by fastforce
  show ?case
  proof (cases "e = None \<and> e2 = None")
    case True
    then have "publish_trees env sync (mt_outDir cfg) ts (s\<lparr>ds_zone := z, ds_artifacts := w\<rparr>) = Some (r, s')"
      using Cons.prems(1) y c by (simp add: Let_def)
    from Cons.IH [OF this] show ?thesis using ee(1) keep Cons.prems(3) by simp
  next
    case False
    then have "s' = s\<lparr>ds_zone := z\<rparr> \<or> s' = s\<lparr>ds_zone := z, ds_artifacts := w\<rparr>"
      using Cons.prems(1) y c by (cases e; cases e2) (auto simp: Let_def)
    then show ?thesis using ee(1) keep Cons.prems(2) by auto
  qed
qed simp

end
