(* ===== verification/Route53.thy ===== *)
theory Route53
  imports DnsSync
begin

text \<open>
  The Route53 publisher, \<^verbatim>\<open>cmd/dnspublisher/route53.go\<close>. The service is an argument, the
  calls of \<^verbatim>\<open>route53API\<close> on a state of any type together with the clock and the timer the
  polling loop reads; what is documented of it is the hypothesis \<open>r53_documented\<close>: a listing pages
  through the record sets, and a change batch is applied whole or not at all, also when its answer
  is lost. The theory shows that \<^verbatim>\<open>Sync\<close> refines \<open>sync_spec\<close> and interprets \<open>record_publisher\<close>.
\<close>

section \<open>Limits and data\<close>

definition route53ChangeCountLimit :: nat where
  "route53ChangeCountLimit = 1000"

definition route53ChangeSizeLimit :: nat where
  "route53ChangeSizeLimit = 32000"

definition route53ChunkBytes :: nat where
  "route53ChunkBytes = 253"

definition route53ListMaxItems :: nat where
  "route53ListMaxItems = 1000"

definition route53SyncPoll :: duration where
  "route53SyncPoll = 5 * second"

definition route53SyncTimeout :: duration where
  "route53SyncTimeout = 5 * minute"

datatype ChangeAction = ActionCreate | ActionUpsert | ActionDelete

record ResourceRecordSet =
  rs_Name :: "string option"
  rs_Type :: string
  rs_TTL :: "int option"
  rs_Identifier :: "string option"
  rs_Values :: "string option list"

record Change =
  ch_Action :: ChangeAction
  ch_Set :: ResourceRecordSet

type_synonym cursor = "string option \<times> string \<times> string option"

record list_response =
  lr_Sets :: "ResourceRecordSet list"
  lr_IsTruncated :: bool
  lr_Next :: cursor

record 'z route53API =
  r53_List :: "string \<Rightarrow> cursor \<Rightarrow> nat \<Rightarrow> 'z \<Rightarrow> (apiError + list_response) \<times> 'z"
  r53_Change :: "string \<Rightarrow> string \<Rightarrow> Change list \<Rightarrow> 'z \<Rightarrow> (apiError + string option) \<times> 'z"
  r53_GetChange :: "string \<Rightarrow> 'z \<Rightarrow> (apiError + string option) \<times> 'z"
  r53_Now :: "'z \<Rightarrow> gotime \<times> 'z"
  r53_After :: "duration \<Rightarrow> 'z \<Rightarrow> bool \<times> 'z"

record 'z route53DNS =
  r_api :: "'z route53API"
  r_zoneID :: string
  r_ttls :: recordTTLs
  r_poll :: duration
  r_syncTimeout :: duration

definition newRoute53DNS :: "'z route53API \<Rightarrow> string \<Rightarrow> recordTTLs \<Rightarrow> 'z route53DNS" where
  "newRoute53DNS api zoneID ttls =
     \<lparr>r_api = api, r_zoneID = zoneID, r_ttls = ttls, r_poll = route53SyncPoll, r_syncTimeout = route53SyncTimeout\<rparr>"

record r53RecordSet =
  r53_values :: "string list"
  r53_ttl :: int

section \<open>Listing\<close>

definition txt_set :: "ResourceRecordSet \<Rightarrow> (string \<times> r53RecordSet) option" where
  "txt_set s =
     (if rs_Type s \<noteq> ''TXT'' then None
      else case (rs_Name s, rs_TTL s) of
        (Some name, Some ttl) \<Rightarrow> Some (dnsKey name, \<lparr>r53_values = List.map_filter (\<lambda>v. v) (rs_Values s), r53_ttl = ttl\<rparr>)
      | _ \<Rightarrow> None)"

definition existing_step ::
  "string \<Rightarrow> (string, r53RecordSet) gomap \<Rightarrow> ResourceRecordSet \<Rightarrow> (string, r53RecordSet) gomap"
where
  "existing_step domain out s =
     (case txt_set s of
        None \<Rightarrow> out
      | Some (key, r) \<Rightarrow>
          if key \<noteq> dnsKey domain \<and> \<not> has_suffix key (''.'' @ dnsKey domain) then out
          else AList.update key r out)"

partial_function (option) existing_loop ::
  "'z route53DNS \<Rightarrow> string \<Rightarrow> cursor \<Rightarrow> (string, r53RecordSet) gomap \<Rightarrow> 'z \<Rightarrow>
     ((apiError + (string, r53RecordSet) gomap) \<times> 'z) option"
where
  "existing_loop c domain req out z =
     (case r53_List (r_api c) (r_zoneID c) req route53ListMaxItems z of
        (Inl e, z) \<Rightarrow> Some (Inl e, z)
      | (Inr resp, z) \<Rightarrow>
          let out = foldl (existing_step domain) out (lr_Sets resp) in
          if \<not> lr_IsTruncated resp then Some (Inr out, z)
          else existing_loop c domain (lr_Next resp) out z)"

definition r53_existing :: "'z route53DNS \<Rightarrow> string \<Rightarrow> 'z \<Rightarrow> ((apiError + (string, r53RecordSet) gomap) \<times> 'z) option" where
  "r53_existing c domain z = existing_loop c domain (None, [], None) [] z"

section \<open>Changes\<close>

definition txtChange :: "ChangeAction \<Rightarrow> string \<Rightarrow> int \<Rightarrow> string list \<Rightarrow> Change" where
  "txtChange action name ttl values =
     \<lparr>ch_Action = action, ch_Set = \<lparr>rs_Name = Some name, rs_Type = ''TXT'', rs_TTL = Some ttl, rs_Identifier = None,
        rs_Values = map Some values\<rparr>\<rparr>"

definition changeCount :: "Change \<Rightarrow> nat" where
  "changeCount c = (if ch_Action c = ActionUpsert then 2 else 1)"

definition changeSize :: "Change \<Rightarrow> nat" where
  "changeSize c = foldl (\<lambda>sz v. case v of Some s \<Rightarrow> sz + length s | None \<Rightarrow> sz) 0 (rs_Values (ch_Set c))"

fun split_loop :: "Change list list \<Rightarrow> nat \<Rightarrow> nat \<Rightarrow> Change list \<Rightarrow> Change list list" where
  "split_loop batches sz cnt [] = batches"
| "split_loop batches sz cnt (c # cs) =
     (let n = changeCount c; bytes = changeSize c * n in
      if batches = [] \<or> sz + bytes > route53ChangeSizeLimit \<or> cnt + n > route53ChangeCountLimit
      then split_loop (batches @ [[c]]) bytes n cs
      else split_loop (butlast batches @ [last batches @ [c]]) (sz + bytes) (cnt + n) cs)"

definition splitChanges :: "Change list \<Rightarrow> Change list list" where
  "splitChanges changes = split_loop [] 0 0 changes"

text \<open>\<^verbatim>\<open>strconv.Quote\<close> on ASCII; a byte that is no rune of its own is escaped like a control character.\<close>

definition quote_char :: "char \<Rightarrow> string" where
  "quote_char c =
     (let n = of_char c :: nat in
      if n = 34 \<or> n = 92 then [CHR 0x5C, c]
      else if 32 \<le> n \<and> n \<le> 126 then [c]
      else case map_of [(7, CHR ''a''), (8, CHR ''b''), (12, CHR ''f''), (10, CHR ''n''), (13, CHR ''r''),
                        (9, CHR ''t''), (11, CHR ''v'')] n of
        Some e \<Rightarrow> [CHR 0x5C, e]
      | None \<Rightarrow> CHR 0x5C # CHR ''x'' # hex_byte (of_nat n))"

definition strconv_Quote :: "string \<Rightarrow> string" where
  "strconv_Quote s = CHR 0x22 # concat (map quote_char s) @ [CHR 0x22]"

function splitTXT :: "string \<Rightarrow> string" where
  "splitTXT content =
     (if content = [] then []
      else let n = min (length content) route53ChunkBytes
           in strconv_Quote (take n content) @ splitTXT (drop n content))"
  by auto
termination by (relation "measure length") (auto simp: route53ChunkBytes_def)

declare splitTXT.simps [simp del]

declare existing_loop.simps [code]

section \<open>Submitting and waiting\<close>

fun submit_loop ::
  "'z route53DNS \<Rightarrow> string \<Rightarrow> nat \<Rightarrow> nat \<Rightarrow> Change list list \<Rightarrow> string list \<Rightarrow> nat \<Rightarrow> 'z \<Rightarrow>
     (string list \<times> nat \<times> apiError option) \<times> 'z"
where
  "submit_loop c comment n i [] ids done' z = ((ids, done', None), z)"
| "submit_loop c comment n i (b # bs) ids done' z =
     (case r53_Change (r_api c) (r_zoneID c) (comment @ '' ('' @ nat_dec (i + 1) @ ''/'' @ nat_dec n @ '')'') b z of
        (Inl e, z) \<Rightarrow> ((ids, done', Some e), z)
      | (Inr ident, z) \<Rightarrow>
          submit_loop c comment n (i + 1) bs (case ident of Some x \<Rightarrow> ids @ [x] | None \<Rightarrow> ids) (done' + length b) z)"

definition r53_submit :: "'z route53DNS \<Rightarrow> Change list \<Rightarrow> string \<Rightarrow> 'z \<Rightarrow> (string list \<times> nat \<times> apiError option) \<times> 'z" where
  "r53_submit c changes comment z =
     (let batches = splitChanges changes in submit_loop c comment (length batches) 0 batches [] 0 z)"

partial_function (option) wait_change ::
  "'z route53DNS \<Rightarrow> gotime \<Rightarrow> string \<Rightarrow> 'z \<Rightarrow> (apiError option \<times> 'z) option"
where
  "wait_change c deadline ident z =
     (case r53_GetChange (r_api c) ident z of
        (Inl e, z) \<Rightarrow> Some (Some e, z)
      | (Inr status, z) \<Rightarrow>
          if status = Some ''INSYNC'' then Some (None, z)
          else case r53_Now (r_api c) z of (now, z) \<Rightarrow>
            if \<not> now < deadline then Some (Some (StillPending ident), z)
            else case r53_After (r_api c) (r_poll c) z of (cancelled, z) \<Rightarrow>
              if cancelled then Some (Some ContextDone, z) else wait_change c deadline ident z)"

declare wait_change.simps [code]

fun wait_ids :: "'z route53DNS \<Rightarrow> gotime \<Rightarrow> string list \<Rightarrow> 'z \<Rightarrow> (apiError option \<times> 'z) option" where
  "wait_ids c deadline [] z = Some (None, z)"
| "wait_ids c deadline (i # ids) z =
     (case wait_change c deadline i z of
        None \<Rightarrow> None
      | Some (Some e, z) \<Rightarrow> Some (Some e, z)
      | Some (None, z) \<Rightarrow> wait_ids c deadline ids z)"

definition waitForSync :: "'z route53DNS \<Rightarrow> string list \<Rightarrow> 'z \<Rightarrow> (apiError option \<times> 'z) option" where
  "waitForSync c ids z =
     (if ids = [] then Some (None, z)
      else case r53_Now (r_api c) z of (now, z) \<Rightarrow> wait_ids c (time_Add now (r_syncTimeout c)) ids z)"

section \<open>Sync\<close>

definition r53_reading :: "r53RecordSet \<Rightarrow> string \<times> int" where
  "r53_reading r = (normalizeTXT (concat (r53_values r)), r53_ttl r)"

definition r53_unchanged :: "'z route53DNS \<Rightarrow> string \<Rightarrow> string \<Rightarrow> string \<Rightarrow> r53RecordSet \<Rightarrow> bool" where
  "r53_unchanged c domain name content current \<longleftrightarrow>
     normalizeTXT (concat (r53_values current)) = content \<and> r53_ttl current = forName (r_ttls c) name domain"

definition r53_write :: "'z route53DNS \<Rightarrow> string \<Rightarrow> (string, r53RecordSet) gomap \<Rightarrow> txt_records \<Rightarrow> string \<Rightarrow> Change" where
  "r53_write c domain existing wanted name =
     txtChange (if map_of existing name \<noteq> None then ActionUpsert else ActionCreate) name
       (forName (r_ttls c) name domain)
       [splitTXT (case map_of wanted name of Some content \<Rightarrow> content | None \<Rightarrow> [])]"

definition r53_remove :: "(string, r53RecordSet) gomap \<Rightarrow> string \<Rightarrow> Change" where
  "r53_remove existing name =
     (case map_of existing name of
        Some current \<Rightarrow> txtChange ActionDelete name (r53_ttl current) (r53_values current)
      | None \<Rightarrow> txtChange ActionDelete name 0 [])"

definition sync_note :: "string \<Rightarrow> string \<Rightarrow> string" where
  "sync_note what domain = ''enrscout '' @ what @ '' for '' @ domain"

definition r53_finish ::
  "'z route53DNS \<Rightarrow> string \<Rightarrow> Change list \<Rightarrow> Change list \<Rightarrow> nat \<Rightarrow> 'z \<Rightarrow> (nat \<times> syncError option) \<times> 'z"
where
  "r53_finish c domain root stale changed z =
     (case r53_submit c root (sync_note ''root'' domain) z of
        ((_, n, Some e), z) \<Rightarrow> ((changed + n, Some (WriteRoot e)), z)
      | ((_, n, None), z) \<Rightarrow>
          (case r53_submit c stale (sync_note ''prune'' domain) z of
             ((_, n', _), z) \<Rightarrow> ((changed + n + n', None), z)))"

definition r53_push ::
  "'z route53DNS \<Rightarrow> string \<Rightarrow> Change list \<Rightarrow> Change list \<Rightarrow> Change list \<Rightarrow> 'z \<Rightarrow> ((nat \<times> syncError option) \<times> 'z) option"
where
  "r53_push c domain entries root stale z =
     (case r53_submit c entries (sync_note ''entries'' domain) z of
        ((ids, changed, Some e), z) \<Rightarrow> Some ((changed, Some (WriteEntries e)), z)
      | ((ids, changed, None), z) \<Rightarrow>
          (case waitForSync c ids z of
             None \<Rightarrow> None
           | Some (Some e, z) \<Rightarrow> Some ((changed, Some (AwaitEntries e)), z)
           | Some (None, z) \<Rightarrow> Some (r53_finish c domain root stale changed z)))"

definition r53_Sync ::
  "'z route53DNS \<Rightarrow> string \<Rightarrow> txt_records \<Rightarrow> txt_records option \<Rightarrow> 'z \<Rightarrow> ((nat \<times> syncError option) \<times> 'z) option"
where
  "r53_Sync c domain want retain z =
     (case r53_existing c domain z of
        None \<Rightarrow> None
      | Some (Inl e, z) \<Rightarrow> Some ((0, Some (ListRecords e)), z)
      | Some (Inr existing, z) \<Rightarrow>
          let plan = planSync existing domain want retain (r53_unchanged c domain);
              change = r53_write c domain existing (sp_wanted plan)
          in r53_push c domain (map change (sp_entries plan)) (if sp_writeRoot plan then [change (dnsKey domain)] else [])
               (map (r53_remove existing) (sp_stale plan)) z)"

section \<open>Credentials\<close>

datatype credError = ManyProfiles | NotKeyValue nat | UnsupportedKey nat string | MissingKeys

definition strings_Cut :: "string \<Rightarrow> char \<Rightarrow> (string \<times> string) option" where
  "strings_Cut s sep =
     (if sep \<in> set s then Some (takeWhile (\<lambda>c. c \<noteq> sep) s, tl (dropWhile (\<lambda>c. c \<noteq> sep) s)) else None)"

fun credential_lines :: "nat \<Rightarrow> nat \<Rightarrow> string \<Rightarrow> string \<Rightarrow> string list \<Rightarrow> credError + string \<times> string" where
  "credential_lines i profiles keyID secret [] =
     (if keyID = [] \<or> secret = [] then Inl MissingKeys else Inr (keyID, secret))"
| "credential_lines i profiles keyID secret (l # ls) =
     (let line = strings_TrimSpace l in
      if line = [] \<or> is_prefix ''#'' line \<or> is_prefix '';'' line then credential_lines (i + 1) profiles keyID secret ls
      else if is_prefix ''['' line
      then if profiles + 1 > 1 then Inl ManyProfiles else credential_lines (i + 1) (profiles + 1) keyID secret ls
      else case strings_Cut line (CHR ''='') of
        None \<Rightarrow> Inl (NotKeyValue (i + 1))
      | Some (k, v) \<Rightarrow>
          let key = strings_TrimSpace k in
          if strings_ToLower key = ''aws_access_key_id''
          then credential_lines (i + 1) profiles (strings_TrimSpace v) secret ls
          else if strings_ToLower key = ''aws_secret_access_key''
          then credential_lines (i + 1) profiles keyID (strings_TrimSpace v) ls
          else Inl (UnsupportedKey (i + 1) key))"

definition parseRoute53Credentials :: "string \<Rightarrow> credError + string \<times> string" where
  "parseRoute53Credentials data = credential_lines 0 0 [] [] (split_on (CHR 0x0A) data)"

section \<open>Quoting is undone by normalizing\<close>

lemma special_char: "of_char c = (34 :: nat) \<longleftrightarrow> c = CHR 0x22" "of_char c = (92 :: nat) \<longleftrightarrow> c = CHR 0x5C"
  using of_char_eq_iff [of c "CHR 0x22", where 'a = nat] of_char_eq_iff [of c "CHR 0x5C", where 'a = nat] by simp_all

lemma normalize_quoted:
  assumes "printable s"
  shows "normalize_loop False False (strconv_Quote s @ rest) = s @ normalize_loop False False rest"
proof -
  have "normalize_loop True False (concat (map quote_char s) @ CHR 0x22 # rest) = s @ normalize_loop False False rest"
    using assms by (induction s) (auto simp: printable_def quote_char_def Let_def special_char)
  then show ?thesis by (simp add: strconv_Quote_def)
qed

definition txt_chunks :: "string \<Rightarrow> string list \<Rightarrow> bool" where
  "txt_chunks s cs \<longleftrightarrow> concat cs = s \<and> list_all (\<lambda>c. c \<noteq> [] \<and> length c \<le> route53ChunkBytes) cs"

lemma splitTXT_chunks: "\<exists>cs. splitTXT s = concat (map strconv_Quote cs) \<and> txt_chunks s cs"
proof (induction s rule: splitTXT.induct)
  case (1 s)
  show ?case
  proof (cases "s = []")
    case True
    then show ?thesis by (intro exI [of _ "[]"]) (simp add: txt_chunks_def splitTXT.simps)
  next
    case False
    define n where "n = min (length s) route53ChunkBytes"
    then obtain cs where "splitTXT (drop n s) = concat (map strconv_Quote cs)" "txt_chunks (drop n s) cs"
      using 1 [OF False n_def] by blast
    then show ?thesis using False
      by (intro exI [of _ "take n s # cs"])
        (simp add: txt_chunks_def splitTXT.simps [of s] Let_def n_def route53ChunkBytes_def)
  qed
qed

lemma normalize_chunks:
  "list_all printable cs \<Longrightarrow> normalize_loop False False (concat (map strconv_Quote cs)) = concat cs"
  by (induction cs) (simp_all add: normalize_quoted)

lemma printable_concat: "printable (concat cs) \<longleftrightarrow> list_all printable cs"
  by (induction cs) (simp_all add: printable_def)

lemma normalize_splitTXT [simp]:
  assumes "printable s" shows "normalizeTXT (splitTXT s) = s"
proof -
  obtain cs where cs: "splitTXT s = concat (map strconv_Quote cs)" "txt_chunks s cs" using splitTXT_chunks by blast
  then have n: "normalize_loop False False (splitTXT s) = s"
    using assms normalize_chunks [of cs] by (simp add: txt_chunks_def flip: printable_concat)
  have "is_prefix [CHR 0x22] (splitTXT s) \<or> splitTXT s = []"
    by (cases cs) (simp_all add: cs(1) strconv_Quote_def)
  then show ?thesis using n by (auto simp: normalizeTXT_def)
qed

section \<open>Batches\<close>

definition batch_bytes :: "Change list \<Rightarrow> nat" where
  "batch_bytes b = sum_list (map (\<lambda>c. changeSize c * changeCount c) b)"

definition batch_count :: "Change list \<Rightarrow> nat" where
  "batch_count b = sum_list (map changeCount b)"

definition within_limits :: "Change list \<Rightarrow> bool" where
  "within_limits b \<longleftrightarrow> batch_bytes b \<le> route53ChangeSizeLimit \<and> batch_count b \<le> route53ChangeCountLimit"

text \<open>Every batch is within the limits or a single change, and none could have taken the first
  change of the batch after it.\<close>

fun packed :: "Change list list \<Rightarrow> bool" where
  "packed [] = True"
| "packed [b] = (b \<noteq> [] \<and> (within_limits b \<or> length b = 1))"
| "packed (b # b' # bs) =
     (b \<noteq> [] \<and> (within_limits b \<or> length b = 1) \<and> b' \<noteq> [] \<and> \<not> within_limits (b @ [hd b']) \<and> packed (b' # bs))"

lemma packed_snoc:
  "packed (bs @ [b]) \<Longrightarrow> \<not> within_limits (b @ [c]) \<Longrightarrow> packed (bs @ [b, [c]])"
  "packed (bs @ [b]) \<Longrightarrow> within_limits (b @ [c]) \<Longrightarrow> packed (bs @ [b @ [c]])"
proof (induction bs rule: packed.induct)
  case (2 b')
  {
    case 1 then show ?case using 2 by simp
  next
    case 2 then show ?case by simp
  }
qed (auto split: list.splits)

lemma batch_snoc:
  "batch_bytes (b @ [c]) = batch_bytes b + changeSize c * changeCount c"
  "batch_count (b @ [c]) = batch_count b + changeCount c"
  by (simp_all add: batch_bytes_def batch_count_def)

lemma split_loop_packed:
  assumes "packed (bs @ [b])"
  shows "packed (split_loop (bs @ [b]) (batch_bytes b) (batch_count b) cs) \<and>
    concat (split_loop (bs @ [b]) (batch_bytes b) (batch_count b) cs) = concat (bs @ [b]) @ cs"
  using assms
proof (induction cs arbitrary: bs b)
  case (Cons c cs)
  show ?case
  proof (cases "within_limits (b @ [c])")
    case True
    then have "split_loop (bs @ [b]) (batch_bytes b) (batch_count b) (c # cs) =
        split_loop (bs @ [b @ [c]]) (batch_bytes (b @ [c])) (batch_count (b @ [c])) cs"
      by (simp add: within_limits_def batch_snoc Let_def)
    then show ?thesis using Cons.IH [OF packed_snoc(2) [OF Cons.prems True]] by simp
  next
    case False
    have "split_loop (bs @ [b]) (batch_bytes b) (batch_count b) (c # cs) =
        split_loop ((bs @ [b]) @ [[c]]) (batch_bytes [c]) (batch_count [c]) cs"
      using False by (auto simp: within_limits_def batch_snoc Let_def batch_bytes_def batch_count_def)
    moreover have "packed ((bs @ [b]) @ [[c]])" using packed_snoc(1) [OF Cons.prems False] by simp
    ultimately show ?thesis using Cons.IH [of "bs @ [b]" "[c]"] by simp
  qed
qed simp

lemma splitChanges_packed: "packed (splitChanges cs) \<and> concat (splitChanges cs) = cs"
proof (cases cs)
  case (Cons c cs')
  then have "splitChanges cs = split_loop ([] @ [[c]]) (batch_bytes [c]) (batch_count [c]) cs'"
    by (simp add: splitChanges_def Let_def batch_bytes_def batch_count_def)
  then show ?thesis using split_loop_packed [of "[]" "[c]" cs'] Cons by simp
qed (simp add: splitChanges_def)

lemma packed_batch: "packed bs \<Longrightarrow> b \<in> set bs \<Longrightarrow> b \<noteq> [] \<and> (within_limits b \<or> length b = 1)"
  by (induction bs rule: packed.induct) auto

section \<open>The documented service\<close>

text \<open>What a state of the service holds, in the order it lists, which states it can be in, and its
  clock. The model of the service appears in the hypotheses only.\<close>

record 'z r53_model =
  md_sets :: "'z \<Rightarrow> ResourceRecordSet list"
  md_valid :: "'z \<Rightarrow> bool"
  md_clock :: "'z \<Rightarrow> gotime"

definition txt_map :: "ResourceRecordSet list \<Rightarrow> string \<rightharpoonup> r53RecordSet" where
  "txt_map sets = map_of (List.map_filter txt_set sets)"

definition set_cursor :: "ResourceRecordSet \<Rightarrow> cursor" where
  "set_cursor s = (rs_Name s, rs_Type s, rs_Identifier s)"

text \<open>A request starts at the beginning or at the record set its cursor names; a page holds the record
  sets from there on, and a truncated one names the set the next page starts with.\<close>

definition starts_at :: "ResourceRecordSet list \<Rightarrow> cursor \<Rightarrow> nat \<Rightarrow> bool" where
  "starts_at sets req k \<longleftrightarrow> req = (None, [], None) \<and> k = 0 \<or> k < length sets \<and> req = set_cursor (sets ! k)"

definition page_of :: "ResourceRecordSet list \<Rightarrow> nat \<Rightarrow> list_response \<Rightarrow> bool" where
  "page_of sets k resp \<longleftrightarrow>
     (\<exists>m. lr_Sets resp = take m (drop k sets) \<and>
        (if lr_IsTruncated resp then 0 < m \<and> k + m < length sets \<and> lr_Next resp = set_cursor (sets ! (k + m))
         else length sets \<le> k + m))"

definition apply_change :: "Change \<Rightarrow> (string \<rightharpoonup> r53RecordSet) \<Rightarrow> string \<rightharpoonup> r53RecordSet" where
  "apply_change c m =
     (case txt_set (ch_Set c) of
        None \<Rightarrow> m
      | Some (key, r) \<Rightarrow> (case ch_Action c of ActionDelete \<Rightarrow> m(key := None) | _ \<Rightarrow> m(key \<mapsto> r)))"

definition r53_documented :: "'z route53DNS \<Rightarrow> 'z r53_model \<Rightarrow> bool" where
  "r53_documented c md \<longleftrightarrow>
     (\<forall>z. md_valid md z \<longrightarrow> distinct (map fst (List.map_filter txt_set (md_sets md z))) \<and>
        list_all (\<lambda>(key, r). dnsKey key = key) (List.map_filter txt_set (md_sets md z))) \<and>
     (\<forall>z req r z'. md_valid md z \<and> r53_List (r_api c) (r_zoneID c) req route53ListMaxItems z = (r, z') \<longrightarrow>
        md_valid md z' \<and> md_sets md z' = md_sets md z \<and>
        (\<forall>resp k. r = Inr resp \<and> starts_at (md_sets md z) req k \<longrightarrow> page_of (md_sets md z) k resp)) \<and>
     (\<forall>z note b r z'. md_valid md z \<and> r53_Change (r_api c) (r_zoneID c) note b z = (r, z') \<longrightarrow>
        md_valid md z' \<and>
        (txt_map (md_sets md z') = fold apply_change b (txt_map (md_sets md z)) \<or>
         (\<exists>e. r = Inl e) \<and> txt_map (md_sets md z') = txt_map (md_sets md z))) \<and>
     (\<forall>z i r z'. md_valid md z \<and> r53_GetChange (r_api c) i z = (r, z') \<longrightarrow> md_valid md z' \<and> md_sets md z' = md_sets md z) \<and>
     (\<forall>z t z'. md_valid md z \<and> r53_Now (r_api c) z = (t, z') \<longrightarrow> md_valid md z' \<and> md_sets md z' = md_sets md z) \<and>
     (\<forall>z d b z'. md_valid md z \<and> r53_After (r_api c) d z = (b, z') \<longrightarrow> md_valid md z' \<and> md_sets md z' = md_sets md z)"

lemmas r53_documentedD =
  r53_documented_def [THEN iffD1, THEN conjunct1, rule_format]
  r53_documented_def [THEN iffD1, THEN conjunct2, THEN conjunct1, rule_format, OF _ conjI]
  r53_documented_def [THEN iffD1, THEN conjunct2, THEN conjunct2, THEN conjunct1, rule_format, OF _ conjI]
  r53_documented_def [THEN iffD1, THEN conjunct2, THEN conjunct2, THEN conjunct2, THEN conjunct1, rule_format, OF _ conjI]
  r53_documented_def [THEN iffD1, THEN conjunct2, THEN conjunct2, THEN conjunct2, THEN conjunct2, THEN conjunct1, rule_format, OF _ conjI]
  r53_documented_def [THEN iffD1, THEN conjunct2, THEN conjunct2, THEN conjunct2, THEN conjunct2, THEN conjunct2, rule_format, OF _ conjI]

section \<open>The listing\<close>

lemma txt_map_simps:
  "txt_map [] = Map.empty"
  "txt_map (s # sets) = (case txt_set s of None \<Rightarrow> txt_map sets | Some (k, r) \<Rightarrow> (txt_map sets)(k \<mapsto> r))"
  by (simp_all add: txt_map_def map_filter_simps split: option.splits)

lemma txt_map_None: "txt_map sets k = None \<longleftrightarrow> k \<notin> fst ` set (List.map_filter txt_set sets)"
  by (simp add: txt_map_def map_of_eq_None_iff)

lemma foldl_existing:
  fixes domain :: string
  assumes "distinct (map fst (List.map_filter txt_set sets))"
  defines "out \<equiv> foldl (existing_step domain) [] sets"
  shows "gomap_ok out" and "map_of out key = (if under_domain domain key then txt_map sets key else None)"
proof -
  have "distinct (map fst (foldl (existing_step domain) out0 sets))" if "distinct (map fst out0)" for out0
    using that by (induction sets arbitrary: out0) (auto simp: existing_step_def distinct_update split: option.splits)
  then show "gomap_ok out" by (simp add: out_def gomap_ok_def)
  have "map_of (foldl (existing_step domain) out0 sets) key =
      (if under_domain domain key \<and> txt_map sets key \<noteq> None then txt_map sets key else map_of out0 key)" for out0
    using assms(1)
  proof (induction sets arbitrary: out0)
    case (Cons s sets)
    show ?case
    proof (cases "txt_set s")
      case None
      then have "existing_step domain out0 s = out0" by (simp add: existing_step_def)
      then show ?thesis using Cons None by (auto simp: map_filter_simps txt_map_simps)
    next
      case (Some kr)
      obtain k r where kr: "kr = (k, r)" by (cases kr)
      have d: "distinct (map fst (List.map_filter txt_set sets))" "txt_map sets k = None"
        using Cons.prems Some kr by (simp_all add: map_filter_simps txt_map_None)
      have "map_of (existing_step domain out0 s) key = (if under_domain domain k \<and> key = k then Some r else map_of out0 key)"
        by (simp add: existing_step_def Some kr under_domain_def map_of_update)
      then show ?thesis using Cons.IH [OF d(1), of "existing_step domain out0 s"] d(2) Some kr
        by (auto simp: txt_map_simps)
    qed
  qed (simp add: txt_map_simps)
  from this [of "[]"] show "map_of out key = (if under_domain domain key then txt_map sets key else None)"
    by (auto simp: out_def)
qed

lemma existing_loop_lists:
  assumes "r53_documented c md" and "md_valid md z" and "starts_at (md_sets md z) req k"
    and "out = foldl (existing_step domain) [] (take k (md_sets md z))"
  shows "\<exists>r z'. existing_loop c domain req out z = Some (r, z') \<and> md_valid md z' \<and> md_sets md z' = md_sets md z \<and>
    (\<forall>out'. r = Inr out' \<longrightarrow> out' = foldl (existing_step domain) [] (md_sets md z))"
  using assms(2-)
proof (induction "length (md_sets md z) - k" arbitrary: z req k out rule: less_induct)
  case less
  obtain r z1 where call: "r53_List (r_api c) (r_zoneID c) req route53ListMaxItems z = (r, z1)" by fastforce
  from r53_documentedD(2) [OF assms(1) less.prems(1) call] less.prems(2)
  have z1: "md_valid md z1" "md_sets md z1 = md_sets md z" and page: "\<And>resp. r = Inr resp \<Longrightarrow> page_of (md_sets md z) k resp"
    by auto
  show ?case
  proof (cases r)
    case (Inl e)
    then show ?thesis using call z1 by (subst existing_loop.simps) simp
  next
    case (Inr resp)
    from page [OF Inr] obtain m where m: "lr_Sets resp = take m (drop k (md_sets md z))"
      "if lr_IsTruncated resp then 0 < m \<and> k + m < length (md_sets md z) \<and> lr_Next resp = set_cursor (md_sets md z ! (k + m))
       else length (md_sets md z) \<le> k + m"
      by (auto simp: page_of_def)
    define out1 where "out1 = foldl (existing_step domain) out (lr_Sets resp)"
    have out1: "out1 = foldl (existing_step domain) [] (take (k + m) (md_sets md z))"
      by (simp add: out1_def less.prems(3) m(1) take_add foldl_append)
    show ?thesis
    proof (cases "lr_IsTruncated resp")
      case False
      then show ?thesis using call Inr z1 m(2) out1
        by (subst existing_loop.simps) (simp add: out1_def)
    next
      case True
      with m(2) have step: "length (md_sets md z1) - (k + m) < length (md_sets md z) - k"
        "starts_at (md_sets md z1) (lr_Next resp) (k + m)" by (auto simp: starts_at_def z1(2))
      from less.hyps [OF step(1) z1(1) step(2)] out1
      show ?thesis using call Inr True z1(2) by (subst existing_loop.simps) (simp add: out1_def)
    qed
  qed
qed

section \<open>The stages of a reconcile\<close>

lemma submit_loop_prefix:
  assumes "r53_documented c md" and "md_valid md z"
    and "submit_loop c note n i bs ids k z = ((ids', k', e), z')"
  shows "md_valid md z' \<and> (\<exists>j. txt_map (md_sets md z') = fold apply_change (take j (concat bs)) (txt_map (md_sets md z)) \<and>
    (e = None \<longrightarrow> length (concat bs) \<le> j))"
  using assms(2,3)
proof (induction bs arbitrary: i ids k z)
  case (Cons b bs)
  define cm where "cm = note @ '' ('' @ nat_dec (i + 1) @ ''/'' @ nat_dec n @ '')''"
  obtain r z1 where call: "r53_Change (r_api c) (r_zoneID c) cm b z = (r, z1)" by fastforce
  note doc = r53_documentedD(3) [OF assms(1) Cons.prems(1) call]
  show ?case
  proof (cases r)
    case (Inl x)
    with Cons.prems(2) call have "z' = z1" "e = Some x" by (auto simp: cm_def)
    moreover have "\<exists>j. txt_map (md_sets md z1) = fold apply_change (take j (concat (b # bs))) (txt_map (md_sets md z))"
      using doc by (auto intro: exI [of _ 0] exI [of _ "length b"])
    ultimately show ?thesis using doc by auto
  next
    case (Inr ident)
    with Cons.prems(2) call
    obtain ids1 k1 where "submit_loop c note n (i + 1) bs ids1 k1 z1 = ((ids', k', e), z')" by (auto simp: cm_def)
    from Cons.IH [OF _ this] doc Inr obtain j where
      "md_valid md z'" "txt_map (md_sets md z') = fold apply_change (b @ take j (concat bs)) (txt_map (md_sets md z))"
      "e = None \<longrightarrow> length (concat bs) \<le> j" by auto
    then show ?thesis by (auto intro!: exI [of _ "length b + j"])
  qed
qed auto

lemma submit_prefix:
  assumes "r53_documented c md" and "md_valid md z" and "r53_submit c (map f names) note z = ((ids, k, e), z')"
  obtains j where "md_valid md z'"
    "txt_map (md_sets md z') = fold apply_change (map f (take j names)) (txt_map (md_sets md z))"
    "e = None \<longrightarrow> take j names = names"
proof -
  from assms(3) have "submit_loop c note (length (splitChanges (map f names))) 0 (splitChanges (map f names)) [] 0 z =
      ((ids, k, e), z')" by (simp add: r53_submit_def Let_def)
  from submit_loop_prefix [OF assms(1,2) this] splitChanges_packed [of "map f names"]
  show ?thesis using that by (auto simp: take_map)
qed

lemma wait_change_keeps:
  assumes "r53_documented c md" and "md_valid md z" and "wait_change c deadline i z = Some (e, z')"
  shows "md_valid md z' \<and> md_sets md z' = md_sets md z"
proof -
  have "r53_documented c md \<longrightarrow> md_valid md z \<longrightarrow> md_valid md (snd (e, z')) \<and> md_sets md (snd (e, z')) = md_sets md z"
  proof (rule wait_change.raw_induct [OF _ assms(3)], intro impI)
    fix f c deadline i and z :: 'a and ez :: "apiError option \<times> 'a"
    assume IH: "\<And>c deadline i z ez. f c deadline i z = Some ez \<Longrightarrow>
        r53_documented c md \<longrightarrow> md_valid md z \<longrightarrow> md_valid md (snd ez) \<and> md_sets md (snd ez) = md_sets md z"
      and body: "(case r53_GetChange (r_api c) i z of
        (Inl e, z) \<Rightarrow> Some (Some e, z)
      | (Inr status, z) \<Rightarrow>
          if status = Some ''INSYNC'' then Some (None, z)
          else case r53_Now (r_api c) z of (now, z) \<Rightarrow>
            if \<not> now < deadline then Some (Some (StillPending i), z)
            else case r53_After (r_api c) (r_poll c) z of (cancelled, z) \<Rightarrow>
              if cancelled then Some (Some ContextDone, z) else f c deadline i z) = Some ez"
      and doc: "r53_documented c md" and z: "md_valid md z"
    obtain r z1 where c1: "r53_GetChange (r_api c) i z = (r, z1)" by fastforce
    obtain t z2 where c2: "r53_Now (r_api c) z1 = (t, z2)" by fastforce
    obtain b z3 where c3: "r53_After (r_api c) (r_poll c) z2 = (b, z3)" by fastforce
    note d1 = r53_documentedD(4) [OF doc z c1]
    note d2 = r53_documentedD(5) [OF doc d1 [THEN conjunct1] c2]
    note d3 = r53_documentedD(6) [OF doc d2 [THEN conjunct1] c3]
    show "md_valid md (snd ez) \<and> md_sets md (snd ez) = md_sets md z"
      using body d1 d2 d3 IH [OF _ , rule_format, OF _ doc] by (auto simp: c1 c2 c3 split: sum.splits if_splits)
  qed
  then show ?thesis using assms(1,2) by simp
qed

lemma waitForSync_keeps:
  assumes "r53_documented c md" and "md_valid md z" and "waitForSync c ids z = Some (e, z')"
  shows "md_valid md z' \<and> md_sets md z' = md_sets md z"
proof -
  have "md_valid md z' \<and> md_sets md z' = md_sets md z"
    if "md_valid md z" "wait_ids c deadline ids z = Some (e, z')" for deadline ids z
    using that
  proof (induction ids arbitrary: z)
    case (Cons i ids)
    from Cons.prems(2) obtain e1 z1 where w: "wait_change c deadline i z = Some (e1, z1)" by (auto split: option.splits)
    note k = wait_change_keeps [OF assms(1) Cons.prems(1) w]
    show ?case
    proof (cases e1)
      case None
      then show ?thesis using Cons.IH [of z1] Cons.prems w k by simp
    qed (use Cons.prems(2) w k in simp)
  qed simp
  moreover obtain t z1 where n: "r53_Now (r_api c) z = (t, z1)" by fastforce
  ultimately show ?thesis using assms(2,3) r53_documentedD(5) [OF assms(1,2) n]
    by (auto simp: waitForSync_def n split: if_splits)
qed

text \<open>The zone is what the API lists. A change is PENDING until the name servers have it; this
  propagation is collapsed, so the zone says in which order changes are made, not when a resolver sees
  them, and that \<^verbatim>\<open>waitForSync\<close> separates the entries from the root is not expressed by it.\<close>

definition reading_map :: "(string \<rightharpoonup> r53RecordSet) \<Rightarrow> zone" where
  "reading_map m name = map_option r53_reading (m name)"

definition r53_zone :: "'z r53_model \<Rightarrow> 'z \<Rightarrow> zone" where
  "r53_zone md z = reading_map (txt_map (md_sets md z))"

lemma write_applied:
  assumes "proper_records want" and "set names \<subseteq> dom (wanted_zone (r_ttls c) domain want)"
  shows "reading_map (fold apply_change (map (r53_write c domain existing (wanted_records want)) names) m) =
    reading_map m ++ (wanted_zone (r_ttls c) domain want |` set names)"
  using assms(2)
proof (induction names arbitrary: m)
  case (Cons name names)
  then obtain content where c: "map_of (wanted_records want) name = Some content" by (auto simp: wanted_zone_def)
  note p = proper_wanted [OF assms(1) c]
  have "apply_change (r53_write c domain existing (wanted_records want) name) m =
      m(name \<mapsto> \<lparr>r53_values = [splitTXT content], r53_ttl = forName (r_ttls c) name domain\<rparr>)"
    by (simp add: r53_write_def c apply_change_def txtChange_def txt_set_def p(1) map_filter_simps)
  moreover have "reading_map (m(name \<mapsto> \<lparr>r53_values = [splitTXT content], r53_ttl = forName (r_ttls c) name domain\<rparr>)) =
      (reading_map m)(name \<mapsto> (content, forName (r_ttls c) name domain))"
    using p(2) by (auto simp: reading_map_def r53_reading_def)
  moreover have "wanted_zone (r_ttls c) domain want name = Some (content, forName (r_ttls c) name domain)"
    by (simp add: wanted_zone_def c)
  ultimately show ?case using Cons by (simp add: overlay_insert)
qed (simp add: restrict_map_def)

lemma remove_applied:
  assumes "\<forall>name\<in>set names. dnsKey name = name"
  shows "fold apply_change (map (r53_remove existing) names) m = m |` (- set names)"
  using assms
proof (induction names arbitrary: m)
  case (Cons name names)
  have "apply_change (r53_remove existing name) m = m(name := None)"
    using Cons.prems by (simp add: r53_remove_def apply_change_def txtChange_def txt_set_def split: option.splits)
  then show ?case using Cons by (auto simp: restrict_map_def)
qed (simp add: restrict_map_def)

lemma existing_plan:
  assumes "r53_documented c md" and "md_valid md z" and "r53_existing c domain z = Some (Inr existing, z')"
  shows "md_valid md z'" and "md_sets md z' = md_sets md z"
    and "plan_reads r53_reading (r_ttls c) domain (r53_zone md z) existing (r53_unchanged c domain)"
    and "\<forall>name\<in>fst ` set existing. dnsKey name = name"
proof -
  from existing_loop_lists [OF assms(1,2), of "(None, [], None)" 0 "[]" domain] assms(3)
  have z': "md_valid md z'" "md_sets md z' = md_sets md z" and e: "existing = foldl (existing_step domain) [] (md_sets md z)"
    by (auto simp: r53_existing_def starts_at_def)
  note doc = r53_documentedD(1) [OF assms(1,2)]
  note ex = foldl_existing [OF doc [THEN conjunct1], of domain, folded e]
  show "md_valid md z'" "md_sets md z' = md_sets md z" by (fact z')+
  show "plan_reads r53_reading (r_ttls c) domain (r53_zone md z) existing (r53_unchanged c domain)"
    by (auto simp: plan_reads_def ex r53_zone_def reading_map_def r53_unchanged_def r53_reading_def)
  show "\<forall>name\<in>fst ` set existing. dnsKey name = name"
  proof
    fix name assume "name \<in> fst ` set existing"
    then have "map_of existing name \<noteq> None" by (simp add: map_of_eq_None_iff)
    then have "name \<in> fst ` set (List.map_filter txt_set (md_sets md z))"
      using txt_map_None [of "md_sets md z" name] by (auto simp: ex(2) split: if_splits)
    then show "dnsKey name = name" using doc by (auto simp: list_all_iff)
  qed
qed

text \<open>Each submission writes a prefix of the planned records, and all of them unless it fails.\<close>

lemma submit_writes:
  assumes "r53_documented c md" and "md_valid md z" and "proper_records want"
    and "set names \<subseteq> dom (wanted_zone (r_ttls c) domain want)"
    and "r53_submit c (map (r53_write c domain existing (wanted_records want)) names) note z = ((ids, k, e), z')"
  obtains j where "md_valid md z'"
    "r53_zone md z' = r53_zone md z ++ (wanted_zone (r_ttls c) domain want |` set (take j names))"
    "e = None \<longrightarrow> take j names = names"
proof -
  obtain j where "md_valid md z'" "e = None \<longrightarrow> take j names = names"
    "txt_map (md_sets md z') =
       fold apply_change (map (r53_write c domain existing (wanted_records want)) (take j names)) (txt_map (md_sets md z))"
    by (rule submit_prefix [OF assms(1,2,5)])
  then show ?thesis
    using that write_applied [OF assms(3), of "take j names" c domain existing "txt_map (md_sets md z)"] assms(4)
    by (auto simp: r53_zone_def dest: in_set_takeD)
qed

lemma reading_restrict: "reading_map (m |` A) = reading_map m |` A"
  by (rule ext) (simp add: reading_map_def restrict_map_def)

lemma submit_removes:
  assumes "r53_documented c md" and "md_valid md z" and "\<forall>name\<in>set names. dnsKey name = name"
    and "r53_submit c (map (r53_remove existing) names) note z = ((ids, k, e), z')"
  obtains j where "md_valid md z'" "r53_zone md z' = r53_zone md z |` (- set (take j names))"
proof -
  obtain j where "md_valid md z'"
    "txt_map (md_sets md z') = fold apply_change (map (r53_remove existing) (take j names)) (txt_map (md_sets md z))"
    by (rule submit_prefix [OF assms(1,2,4)])
  moreover have "fold apply_change (map (r53_remove existing) (take j names)) (txt_map (md_sets md z)) =
      txt_map (md_sets md z) |` (- set (take j names))"
    using assms(3) by (intro remove_applied) (auto dest: in_set_takeD)
  ultimately show ?thesis using that by (simp add: r53_zone_def reading_restrict)
qed

text \<open>From here on \<open>p\<close> is the plan made from what was listed, and \<open>v\<close> the zone at that moment.\<close>

lemma r53_finish_refines:
  assumes "r53_documented c md" and "md_valid md z" and "proper_records want"
    and plan: "plan_reads r53_reading (r_ttls c) domain v existing (r53_unchanged c domain)"
      "\<forall>name\<in>fst ` set existing. dnsKey name = name"
    and p: "p = planSync existing domain want retain (r53_unchanged c domain)"
    and z: "r53_zone md z = v ++ (wanted_zone (r_ttls c) domain want |` set (sp_entries p))"
    and fin: "r53_finish c domain (map (r53_write c domain existing (wanted_records want)) (plan_root domain p))
      (map (r53_remove existing) (sp_stale p)) changed z = ((n, e), z')"
  shows "md_valid md z' \<and> sync_spec (r_ttls c) domain want retain v (e = None) (r53_zone md z')"
proof -
  let ?W = "wanted_zone (r_ttls c) domain want"
  note pl = plan_names [OF plan(1), of want retain, folded p] and stages = plan_stages [OF plan(1) p]
  obtain ids n2 e2 z1 where s: "r53_submit c (map (r53_write c domain existing (wanted_records want)) (plan_root domain p))
      (sync_note ''root'' domain) z = ((ids, n2, e2), z1)" by (metis surj_pair)
  obtain j where j: "md_valid md z1" "r53_zone md z1 = r53_zone md z ++ (?W |` set (take j (plan_root domain p)))"
    "e2 = None \<longrightarrow> take j (plan_root domain p) = plan_root domain p"
    by (rule submit_writes [OF assms(1,2,3) _ s]) (use pl(4) in \<open>auto simp: plan_root_def\<close>)
  have z1: "r53_zone md z1 = v ++ (?W |` (set (sp_entries p) \<union> set (take j (plan_root domain p))))"
    using j(2) by (simp add: z overlay_overlay)
  show ?thesis
  proof (cases e2)
    case (Some x)
    then have "z' = z1" "\<not> (e = None)" using fin by (auto simp: r53_finish_def s)
    then show ?thesis using j(1) z1 stages(2) [OF set_take_subset] by auto
  next
    case None
    obtain ids3 n3 e3 z2 where s3: "r53_submit c (map (r53_remove existing) (sp_stale p)) (sync_note ''prune'' domain) z1 = ((ids3, n3, e3), z2)"
      by (metis surj_pair)
    then have "z' = z2" "e = None" using fin None by (auto simp: r53_finish_def s)
    moreover obtain k where "md_valid md z2" "r53_zone md z2 = r53_zone md z1 |` (- set (take k (sp_stale p)))"
      by (rule submit_removes [OF assms(1) j(1) _ s3]) (use pl(6) plan(2) in auto)
    ultimately show ?thesis using z1 None j(3) stages(3) [OF set_take_subset] by simp
  qed
qed

lemma map_plan_root: "map f (plan_root domain p) = (if sp_writeRoot p then [f (dnsKey domain)] else [])"
  by (simp add: plan_root_def)

lemma r53_push_refines:
  assumes "r53_documented c md" and "md_valid md z" and "proper_records want"
    and plan: "plan_reads r53_reading (r_ttls c) domain v existing (r53_unchanged c domain)"
      "\<forall>name\<in>fst ` set existing. dnsKey name = name"
    and p: "p = planSync existing domain want retain (r53_unchanged c domain)" and z: "r53_zone md z = v"
    and "r53_push c domain (map (r53_write c domain existing (wanted_records want)) (sp_entries p))
      (map (r53_write c domain existing (wanted_records want)) (plan_root domain p))
      (map (r53_remove existing) (sp_stale p)) z = Some ((n, e), z')"
  shows "md_valid md z' \<and> sync_spec (r_ttls c) domain want retain v (e = None) (r53_zone md z')"
proof -
  let ?W = "wanted_zone (r_ttls c) domain want"
  note pl = plan_names [OF plan(1), of want retain, folded p]
  obtain ids n1 e1 z1 where s1: "r53_submit c (map (r53_write c domain existing (wanted_records want)) (sp_entries p))
      (sync_note ''entries'' domain) z = ((ids, n1, e1), z1)" by (metis surj_pair)
  obtain j where j: "md_valid md z1" "r53_zone md z1 = v ++ (?W |` set (take j (sp_entries p)))"
    "e1 = None \<longrightarrow> take j (sp_entries p) = sp_entries p"
    by (rule submit_writes [OF assms(1-3) _ s1]) (use pl(2) z in auto)
  note fails = plan_stages(1) [OF plan(1) p]
  note push = assms(8) [unfolded r53_push_def s1]
  show ?thesis
  proof (cases e1)
    case (Some x)
    then show ?thesis using push j(1,2) fails [OF set_take_subset] by auto
  next
    case None
    then obtain e2 z2 where w: "waitForSync c ids z1 = Some (e2, z2)" using push by (auto split: option.splits)
    note k = waitForSync_keeps [OF assms(1) j(1) w]
    have v2: "r53_zone md z2 = v ++ (?W |` set (sp_entries p))" using k j None by (simp add: r53_zone_def)
    show ?thesis
    proof (cases e2)
      case (Some x)
      then show ?thesis using push None w k v2 fails [OF subset_refl] by auto
    next
      case e2: None
      then show ?thesis using push None w r53_finish_refines [OF assms(1) k [THEN conjunct1] assms(3) plan p v2] by simp
    qed
  qed
qed

lemma r53_Sync_refines:
  assumes "r53_documented c md" and "md_valid md z" and "proper_records want"
    and "r53_Sync c domain want retain z = Some ((n, e), z')"
  shows "md_valid md z' \<and> sync_spec (r_ttls c) domain want retain (r53_zone md z) (e = None) (r53_zone md z')"
proof -
  obtain l z1 where l: "r53_existing c domain z = Some (l, z1)"
    using assms(4) by (auto simp: r53_Sync_def split: option.splits)
  show ?thesis
  proof (cases l)
    case (Inl x)
    from existing_loop_lists [OF assms(1,2), of "(None, [], None)" 0 "[]" domain] l Inl
    have "md_valid md z1" "r53_zone md z1 = r53_zone md z" by (auto simp: r53_existing_def starts_at_def r53_zone_def)
    moreover have "z' = z1" "\<not> (e = None)" using assms(4) l Inl by (auto simp: r53_Sync_def)
    ultimately show ?thesis using sync_spec_partial [of domain "{}"] by (cases e) simp_all
  next
    case (Inr existing)
    note ex = existing_plan [OF assms(1,2) l [unfolded Inr]]
    have "r53_zone md z1 = r53_zone md z" using ex(2) by (simp add: r53_zone_def)
    from r53_push_refines [OF assms(1) ex(1) assms(3) ex(3,4) refl this] assms(4)
    show ?thesis unfolding map_plan_root r53_Sync_def l Inr option.case prod.case sum.case Let_def plan_names(1) [OF ex(3)] .
  qed
qed

section \<open>The interface\<close>

interpretation r53: record_publisher "\<lambda>(c, md). r53_documented c md" "\<lambda>(c, md). md_valid md" "\<lambda>(c, md). r53_zone md"
    "\<lambda>(c, md). r_ttls c" "\<lambda>_ _. proper_records" "\<lambda>(c, md). r53_Sync c"
  by unfold_locales (unfold case_prod_beta, (rule r53_Sync_refines [THEN conjunct1] r53_Sync_refines [THEN conjunct2]; assumption)+)

end
