(* ===== verification/Cloudflare.thy ===== *)
theory Cloudflare
  imports DnsSync "HOL-Library.Multiset"
begin

text \<open>
  The Cloudflare publisher, \<^verbatim>\<open>cmd/dnspublisher/cloudflare.go\<close>. The service is an argument, one
  HTTP exchange up to the bounded read of the body, which stays an abstract \<open>'w\<close>, the JSON decoders of
  the envelope and of its result, and the timer of the settling pause. What is documented of it is the
  hypothesis \<open>cf_documented\<close>, which allows several records under one name. \<^verbatim>\<open>existing\<close> keeps one of them,
  so the reconcile is shown to refine \<open>sync_spec\<close> where each name of the domain has at most one, and to
  keep it so. The status code in error messages is left out.
\<close>

section \<open>Data\<close>

definition cloudflareBatchMax :: nat where
  "cloudflareBatchMax = 200"

definition cloudflarePageSize :: nat where
  "cloudflarePageSize = 100"

definition cloudflareSettle :: duration where
  "cloudflareSettle = 15 * second"

record cfRecord =
  cf_ID :: string
  cf_Type :: string
  cf_Name :: string
  cf_Content :: string
  cf_TTL :: int

record cfAPIError =
  ae_Code :: int
  ae_Message :: string

record 'w cfEnvelope =
  env_Success :: bool
  env_Errors :: "cfAPIError list"
  env_Result :: 'w
  env_TotalPages :: int

record cfBatch =
  cb_Deletes :: "cfRecord list"
  cb_Puts :: "cfRecord list"
  cb_Posts :: "cfRecord list"

record ('w, 'z) cf_service =
  cs_exchange :: "string \<Rightarrow> string \<Rightarrow> cfBatch option \<Rightarrow> 'z \<Rightarrow> (apiError + 'w) \<times> 'z"
  cs_envelope :: "'w \<Rightarrow> 'w cfEnvelope option"
  cs_records :: "'w \<Rightarrow> cfRecord list option"
  cs_After :: "duration \<Rightarrow> 'z \<Rightarrow> bool \<times> 'z"

record ('w, 'z) cloudflareDNS =
  c_http :: "('w, 'z) cf_service"
  c_zoneID :: string
  c_ttls :: recordTTLs
  c_settle :: duration

definition newCloudflareDNS :: "('w, 'z) cf_service \<Rightarrow> string \<Rightarrow> recordTTLs \<Rightarrow> ('w, 'z) cloudflareDNS" where
  "newCloudflareDNS svc zoneID ttls = \<lparr>c_http = svc, c_zoneID = zoneID, c_ttls = ttls, c_settle = cloudflareSettle\<rparr>"

section \<open>Calls\<close>

definition cfAPIError_String :: "cfAPIError \<Rightarrow> string" where
  "cfAPIError_String e =
     (if ae_Code e < 0 then ''-'' else []) @ nat_dec (nat \<bar>ae_Code e\<bar>) @ '' '' @ ae_Message e"

definition cf_do ::
  "('w, 'z) cloudflareDNS \<Rightarrow> string \<Rightarrow> string \<Rightarrow> cfBatch option \<Rightarrow> 'z \<Rightarrow> (apiError + 'w cfEnvelope) \<times> 'z"
where
  "cf_do c verb path body z =
     (case cs_exchange (c_http c) verb path body z of
        (Inl e, z) \<Rightarrow> (Inl e, z)
      | (Inr raw, z) \<Rightarrow>
          (case cs_envelope (c_http c) raw of
             None \<Rightarrow> (Inl (ApiError ''json''), z)
           | Some env \<Rightarrow>
               if \<not> env_Success env
               then (Inl (ApiError (intercalate ''; '' (map cfAPIError_String (env_Errors env)))), z)
               else (Inr env, z)))"

definition cf_list_path :: "('w, 'z) cloudflareDNS \<Rightarrow> nat \<Rightarrow> string" where
  "cf_list_path c page = ''/zones/'' @ c_zoneID c @ ''/dns_records?type=TXT&per_page='' @ nat_dec cloudflarePageSize @
     ''&page='' @ nat_dec page"

definition cf_existing_step :: "string \<Rightarrow> (string, cfRecord) gomap \<Rightarrow> cfRecord \<Rightarrow> (string, cfRecord) gomap" where
  "cf_existing_step domain out r =
     (let key = dnsKey (cf_Name r) in
      if key = dnsKey domain \<or> has_suffix key (''.'' @ dnsKey domain)
      then AList.update key (r\<lparr>cf_Name := key, cf_Content := normalizeTXT (cf_Content r)\<rparr>) out
      else out)"

partial_function (option) cf_existing_loop ::
  "('w, 'z) cloudflareDNS \<Rightarrow> string \<Rightarrow> nat \<Rightarrow> (string, cfRecord) gomap \<Rightarrow> 'z \<Rightarrow>
     ((apiError + (string, cfRecord) gomap) \<times> 'z) option"
where
  "cf_existing_loop c domain page out z =
     (case cf_do c ''GET'' (cf_list_path c page) None z of
        (Inl e, z) \<Rightarrow> Some (Inl e, z)
      | (Inr env, z) \<Rightarrow>
          (case cs_records (c_http c) (env_Result env) of
             None \<Rightarrow> Some (Inl (ApiError ''json''), z)
           | Some records \<Rightarrow>
               let out = foldl (cf_existing_step domain) out records in
               if records = [] \<or> env_TotalPages env \<le> int page then Some (Inr out, z)
               else cf_existing_loop c domain (page + 1) out z))"

declare cf_existing_loop.simps [code]

definition cf_existing ::
  "('w, 'z) cloudflareDNS \<Rightarrow> string \<Rightarrow> 'z \<Rightarrow> ((apiError + (string, cfRecord) gomap) \<times> 'z) option"
where
  "cf_existing c domain z = cf_existing_loop c domain 1 [] z"

section \<open>Batches\<close>

definition cfBatch_len :: "cfBatch \<Rightarrow> nat" where
  "cfBatch_len b = length (cb_Deletes b) + length (cb_Puts b) + length (cb_Posts b)"

text \<open>\<^verbatim>\<open>slices.Chunk\<close>.\<close>

function slices_Chunk :: "'a list \<Rightarrow> nat \<Rightarrow> 'a list list" where
  "slices_Chunk xs n = (if xs = [] \<or> n = 0 then [] else take n xs # slices_Chunk (drop n xs) n)"
  by auto
termination by (relation "measure (\<lambda>(xs, n). length xs)") auto

declare slices_Chunk.simps [simp del]

definition chunkBatch :: "cfBatch \<Rightarrow> cfBatch list" where
  "chunkBatch b =
     map (\<lambda>c. \<lparr>cb_Deletes = [], cb_Puts = c, cb_Posts = []\<rparr>) (slices_Chunk (cb_Puts b) cloudflareBatchMax) @
     map (\<lambda>c. \<lparr>cb_Deletes = [], cb_Puts = [], cb_Posts = c\<rparr>) (slices_Chunk (cb_Posts b) cloudflareBatchMax) @
     map (\<lambda>c. \<lparr>cb_Deletes = c, cb_Puts = [], cb_Posts = []\<rparr>) (slices_Chunk (cb_Deletes b) cloudflareBatchMax)"

definition cf_batch_path :: "('w, 'z) cloudflareDNS \<Rightarrow> string" where
  "cf_batch_path c = ''/zones/'' @ c_zoneID c @ ''/dns_records/batch''"

definition cf_submit :: "('w, 'z) cloudflareDNS \<Rightarrow> cfBatch \<Rightarrow> 'z \<Rightarrow> apiError option \<times> 'z" where
  "cf_submit c b z =
     (if cfBatch_len b = 0 then (None, z)
      else case cf_do c ''POST'' (cf_batch_path c) (Some b) z of
        (Inl e, z) \<Rightarrow> (Some e, z)
      | (Inr _, z) \<Rightarrow> (None, z))"

fun cf_submit_all :: "('w, 'z) cloudflareDNS \<Rightarrow> cfBatch list \<Rightarrow> nat \<Rightarrow> 'z \<Rightarrow> (nat \<times> apiError option) \<times> 'z" where
  "cf_submit_all c [] changed z = ((changed, None), z)"
| "cf_submit_all c (b # bs) changed z =
     (case cf_submit c b z of
        (Some e, z) \<Rightarrow> ((changed, Some e), z)
      | (None, z) \<Rightarrow> cf_submit_all c bs (changed + cfBatch_len b) z)"

section \<open>Sync\<close>

definition cf_unchanged :: "('w, 'z) cloudflareDNS \<Rightarrow> string \<Rightarrow> string \<Rightarrow> string \<Rightarrow> cfRecord \<Rightarrow> bool" where
  "cf_unchanged c domain name content current \<longleftrightarrow>
     cf_Content current = content \<and> cf_TTL current = forName (c_ttls c) name domain"

definition cf_record :: "('w, 'z) cloudflareDNS \<Rightarrow> string \<Rightarrow> txt_records \<Rightarrow> string \<Rightarrow> cfRecord" where
  "cf_record c domain wanted name =
     \<lparr>cf_ID = [], cf_Type = ''TXT'', cf_Name = name,
      cf_Content = (case map_of wanted name of Some content \<Rightarrow> content | None \<Rightarrow> []), cf_TTL = forName (c_ttls c) name domain\<rparr>"

definition cf_put :: "('w, 'z) cloudflareDNS \<Rightarrow> string \<Rightarrow> txt_records \<Rightarrow> (string, cfRecord) gomap \<Rightarrow> string \<Rightarrow> cfRecord" where
  "cf_put c domain wanted existing name =
     (cf_record c domain wanted name)\<lparr>cf_ID := (case map_of existing name of Some r \<Rightarrow> cf_ID r | None \<Rightarrow> [])\<rparr>"

definition cf_writes ::
  "('w, 'z) cloudflareDNS \<Rightarrow> string \<Rightarrow> txt_records \<Rightarrow> (string, cfRecord) gomap \<Rightarrow> string list \<Rightarrow> cfBatch"
where
  "cf_writes c domain wanted existing names =
     (let present = (\<lambda>name. map_of existing name \<noteq> None) in
      \<lparr>cb_Deletes = [], cb_Puts = map (cf_put c domain wanted existing) (filter present names),
       cb_Posts = map (cf_record c domain wanted) (filter (\<lambda>name. \<not> present name) names)\<rparr>)"

definition cf_removes :: "(string, cfRecord) gomap \<Rightarrow> string list \<Rightarrow> cfBatch" where
  "cf_removes existing names =
     \<lparr>cb_Deletes = map (\<lambda>name. \<lparr>cf_ID = (case map_of existing name of Some r \<Rightarrow> cf_ID r | None \<Rightarrow> []), cf_Type = [],
        cf_Name = [], cf_Content = [], cf_TTL = 0\<rparr>) names, cb_Puts = [], cb_Posts = []\<rparr>"

definition cf_finish :: "('w, 'z) cloudflareDNS \<Rightarrow> cfBatch \<Rightarrow> cfBatch \<Rightarrow> nat \<Rightarrow> 'z \<Rightarrow> (nat \<times> syncError option) \<times> 'z" where
  "cf_finish c root stale changed z =
     (case cf_submit c root z of
        (Some e, z) \<Rightarrow> ((changed, Some (WriteRoot e)), z)
      | (None, z) \<Rightarrow>
          (case cf_submit_all c (chunkBatch stale) (changed + cfBatch_len root) z of
             ((changed, _), z) \<Rightarrow> ((changed, None), z)))"

definition cf_push :: "('w, 'z) cloudflareDNS \<Rightarrow> cfBatch \<Rightarrow> cfBatch \<Rightarrow> cfBatch \<Rightarrow> 'z \<Rightarrow> (nat \<times> syncError option) \<times> 'z" where
  "cf_push c entries root stale z =
     (case cf_submit_all c (chunkBatch entries) 0 z of
        ((changed, Some e), z) \<Rightarrow> ((changed, Some (WriteEntries e)), z)
      | ((changed, None), z) \<Rightarrow>
          if 0 < cfBatch_len entries \<and> 0 < c_settle c
          then case cs_After (c_http c) (c_settle c) z of
            (True, z) \<Rightarrow> ((changed, Some (AwaitEntries ContextDone)), z)
          | (False, z) \<Rightarrow> cf_finish c root stale changed z
          else cf_finish c root stale changed z)"

definition cf_Sync ::
  "('w, 'z) cloudflareDNS \<Rightarrow> string \<Rightarrow> txt_records \<Rightarrow> txt_records option \<Rightarrow> 'z \<Rightarrow> ((nat \<times> syncError option) \<times> 'z) option"
where
  "cf_Sync c domain want retain z =
     (case cf_existing c domain z of
        None \<Rightarrow> None
      | Some (Inl e, z) \<Rightarrow> Some ((0, Some (ListRecords e)), z)
      | Some (Inr existing, z) \<Rightarrow>
          let plan = planSync existing domain want retain (cf_unchanged c domain);
              change = cf_writes c domain (sp_wanted plan) existing
          in Some (cf_push c (change (sp_entries plan)) (change (if sp_writeRoot plan then [dnsKey domain] else []))
                     (cf_removes existing (sp_stale plan)) z))"

section \<open>The documented service\<close>

text \<open>The TXT records a state of the service holds, in the order it lists them, and which states it can
  be in. A record is known by its identifier; a zone may hold several records under one name.\<close>

record 'z cf_model =
  cm_records :: "'z \<Rightarrow> cfRecord list"
  cm_valid :: "'z \<Rightarrow> bool"

type_synonym cfEntry = "string \<times> string \<times> string \<times> int"

text \<open>What is observable of a record: identifier, normalized name, the text a resolver reads, lifetime.\<close>

definition cf_entry :: "cfRecord \<Rightarrow> cfEntry" where
  "cf_entry r = (cf_ID r, dnsKey (cf_Name r), normalizeTXT (cf_Content r), cf_TTL r)"

text \<open>What an accepted batch does to the records: deletes go by identifier, a put replaces the record
  with its identifier, a post creates a record under an identifier the service chooses.\<close>

definition put_record :: "cfRecord \<Rightarrow> cfRecord \<Rightarrow> cfRecord" where
  "put_record p r = (if cf_ID r = cf_ID p then p else r)"

definition cf_apply :: "string list \<Rightarrow> cfBatch \<Rightarrow> cfRecord list \<Rightarrow> cfRecord list" where
  "cf_apply ids b rs =
     fold (map \<circ> put_record) (cb_Puts b) (filter (\<lambda>r. cf_ID r \<notin> cf_ID ` set (cb_Deletes b)) rs) @
     map2 (\<lambda>i p. p\<lparr>cf_ID := i\<rparr>) ids (cb_Posts b)"

text \<open>
  The contract. Identifiers are unique, a listing reads the pages of the records and changes nothing, a
  batch is applied as a whole or not at all, in any order of the listing afterwards, and where the call
  fails either may be the case. Nothing is assumed of names: a post under a name that is taken creates a
  second record there.
\<close>

definition cf_documented :: "('w, 'z) cloudflareDNS \<Rightarrow> 'z cf_model \<Rightarrow> bool" where
  "cf_documented c md \<longleftrightarrow>
     (\<forall>z. cm_valid md z \<longrightarrow> distinct (map cf_ID (cm_records md z))) \<and>
     (\<forall>z page r z'. cm_valid md z \<and> 0 < page \<and> cf_do c ''GET'' (cf_list_path c page) None z = (r, z') \<longrightarrow>
        cm_valid md z' \<and> cm_records md z' = cm_records md z \<and>
        (\<forall>env. r = Inr env \<longrightarrow>
           cs_records (c_http c) (env_Result env) =
             Some (take cloudflarePageSize (drop (cloudflarePageSize * (page - 1)) (cm_records md z))) \<and>
           (env_TotalPages env \<le> int page \<longleftrightarrow> length (cm_records md z) \<le> cloudflarePageSize * page))) \<and>
     (\<forall>z b r z'. cm_valid md z \<and> cf_do c ''POST'' (cf_batch_path c) (Some b) z = (r, z') \<longrightarrow>
        cm_valid md z' \<and>
        ((\<exists>ids. length ids = length (cb_Posts b) \<and>
            mset (map cf_entry (cm_records md z')) = mset (map cf_entry (cf_apply ids b (cm_records md z)))) \<or>
         (\<exists>e. r = Inl e) \<and> mset (map cf_entry (cm_records md z')) = mset (map cf_entry (cm_records md z)))) \<and>
     (\<forall>z d b z'. cm_valid md z \<and> cs_After (c_http c) d z = (b, z') \<longrightarrow> cm_valid md z' \<and> cm_records md z' = cm_records md z)"

lemmas cf_documentedD =
  cf_documented_def [THEN iffD1, THEN conjunct1, rule_format]
  cf_documented_def [THEN iffD1, THEN conjunct2, THEN conjunct1, rule_format, OF _ conjI, OF _ _ conjI]
  cf_documented_def [THEN iffD1, THEN conjunct2, THEN conjunct2, THEN conjunct1, rule_format, OF _ conjI]
  cf_documented_def [THEN iffD1, THEN conjunct2, THEN conjunct2, THEN conjunct2, rule_format, OF _ conjI]

section \<open>Reading the records as a zone\<close>

text \<open>The records under a name, and the zone they make: a name with exactly one record has its text and
  lifetime, a name with none or with several has no definite text. As for Route53, the zone is what the
  API lists; the time until the edge has it is not part of the model.\<close>

definition at_name :: "string \<Rightarrow> cfRecord list \<Rightarrow> cfEntry multiset" where
  "at_name name rs = filter_mset (\<lambda>(_, n, _). n = name) (mset (map cf_entry rs))"

definition cf_map :: "cfRecord list \<Rightarrow> string \<rightharpoonup> string \<times> string \<times> int" where
  "cf_map rs name = (case filter (\<lambda>(_, n, _). n = name) (map cf_entry rs) of [(i, _, x)] \<Rightarrow> Some (i, x) | _ \<Rightarrow> None)"

definition cf_reading :: "cfRecord list \<Rightarrow> zone" where
  "cf_reading rs name = map_option snd (cf_map rs name)"

definition cf_zone :: "'z cf_model \<Rightarrow> 'z \<Rightarrow> zone" where
  "cf_zone md z = cf_reading (cm_records md z)"

definition one_per_name :: "string set \<Rightarrow> cfRecord list \<Rightarrow> bool" where
  "one_per_name N rs \<longleftrightarrow> (\<forall>name\<in>N. size (at_name name rs) \<le> 1)"

lemma at_name_append [simp]: "at_name name (rs @ ss) = at_name name rs + at_name name ss"
  by (simp add: at_name_def)

lemma at_name_Nil [simp]: "at_name name [] = {#}"
  by (simp add: at_name_def)

lemma at_name_Cons [simp]:
  "at_name name (r # rs) = (if dnsKey (cf_Name r) = name then {#cf_entry r#} + at_name name rs else at_name name rs)"
  by (simp add: at_name_def cf_entry_def)

lemma at_name_filter:
  "at_name name (filter (\<lambda>r. cf_ID r \<notin> I) rs) = filter_mset (\<lambda>e. fst e \<notin> I) (at_name name rs)"
  by (induction rs) (simp_all, simp_all add: cf_entry_def)

lemma at_nameD:
  assumes "e \<in># at_name name rs"
  obtains r where "r \<in> set rs" "cf_entry r = e" "dnsKey (cf_Name r) = name" "cf_ID r = fst e"
  using assms by (auto simp: at_name_def cf_entry_def)

lemma cf_map_iff: "cf_map rs name = Some (i, x) \<longleftrightarrow> at_name name rs = {#(i, name, x)#}"
proof -
  define es where "es = filter (\<lambda>(_, n, _). n = name) (map cf_entry rs)"
  have at: "at_name name rs = mset es" by (simp add: at_name_def es_def)
  have "\<forall>e\<in>set es. fst (snd e) = name" by (auto simp: es_def)
  then show ?thesis unfolding at cf_map_def es_def [symmetric]
    by (cases es; cases "tl es") (auto split: prod.splits)
qed

lemma cf_map_None: "cf_map rs name = None \<longleftrightarrow> size (at_name name rs) \<noteq> 1"
proof -
  have "cf_map rs name \<noteq> None \<longleftrightarrow> size (at_name name rs) = 1"
  proof
    assume "size (at_name name rs) = 1"
    then obtain e where e: "at_name name rs = {#e#}" by (metis size_1_singleton_mset)
    then have "fst (snd e) = name" by (metis at_nameD cf_entry_def fst_conv snd_conv union_single_eq_member add_mset_add_single)
    then have "at_name name rs = {#(fst e, name, snd (snd e))#}" using e by (cases e) auto
    then have "cf_map rs name = Some (fst e, snd (snd e))" by (rule cf_map_iff [THEN iffD2])
    then show "cf_map rs name \<noteq> None" by simp
  qed (auto simp: cf_map_iff)
  then show ?thesis by blast
qed

lemma cf_map_cong: "at_name name rs' = at_name name rs \<Longrightarrow> cf_map rs' name = cf_map rs name"
  using cf_map_None [of rs name] cf_map_None [of rs' name] cf_map_iff [of rs name] cf_map_iff [of rs' name]
  by (cases "cf_map rs name") (metis, metis surj_pair)

lemma ids_apart:
  assumes "distinct (map cf_ID rs)" and "e \<in># at_name n rs" and "e' \<in># at_name n' rs" and "fst e = fst e'"
  shows "n = n'"
proof -
  obtain r r' where "r \<in> set rs" "r' \<in> set rs" "cf_ID r = cf_ID r'" "dnsKey (cf_Name r) = n" "dnsKey (cf_Name r') = n'"
    using at_nameD [OF assms(2)] at_nameD [OF assms(3)] assms(4) by metis
  then show ?thesis using assms(1) by (auto simp: distinct_map inj_on_def)
qed

section \<open>The listing\<close>

lemma at_most_one: "length es \<le> 1 \<Longrightarrow> es = [] \<or> (\<exists>i n x. es = [(i, n, x)])"
  by (cases es) auto

lemma cf_foldl_existing:
  fixes domain :: string
  defines "out rs \<equiv> foldl (cf_existing_step domain) [] rs"
  shows "gomap_ok (out rs)"
    and "one_per_name (Collect (under_domain domain)) rs \<Longrightarrow>
      map_option (\<lambda>r. (cf_ID r, cf_Content r, cf_TTL r)) (map_of (out rs) key) = (if under_domain domain key then cf_map rs key else None)"
proof -
  have "distinct (map fst (foldl (cf_existing_step domain) out0 rs))" if "distinct (map fst out0)" for out0
    using that by (induction rs arbitrary: out0) (auto simp: cf_existing_step_def Let_def distinct_update)
  then show "gomap_ok (out rs)" by (simp add: out_def gomap_ok_def)
  let ?at = "\<lambda>rs. filter (\<lambda>(_, n, _). n = key) (map cf_entry rs)"
  have last: "map_option (\<lambda>r. (cf_ID r, cf_Content r, cf_TTL r)) (map_of (out rs) key) =
      (if under_domain domain key then case rev (?at rs) of [] \<Rightarrow> None | e # _ \<Rightarrow> Some (fst e, snd (snd e)) else None)"
  proof (induction rs rule: rev_induct)
    case (snoc r rs)
    let ?k = "dnsKey (cf_Name r)"
    have "map_of (out (rs @ [r])) key =
        (if under_domain domain ?k \<and> key = ?k then Some (r\<lparr>cf_Name := ?k, cf_Content := normalizeTXT (cf_Content r)\<rparr>)
         else map_of (out rs) key)"
      by (auto simp: out_def cf_existing_step_def Let_def under_domain_def map_of_update)
    then show ?case using snoc by (auto simp: cf_entry_def [of r])
  qed (simp add: out_def)
  assume one: "one_per_name (Collect (under_domain domain)) rs"
  show "map_option (\<lambda>r. (cf_ID r, cf_Content r, cf_TTL r)) (map_of (out rs) key) = (if under_domain domain key then cf_map rs key else None)"
  proof (cases "under_domain domain key")
    case True
    then have "size (mset (?at rs)) \<le> 1" using one unfolding one_per_name_def at_name_def mset_filter by blast
    then have "length (?at rs) \<le> 1" unfolding size_mset .
    then have "?at rs = [] \<or> (\<exists>i n x. ?at rs = [(i, n, x)])"
      by (rule at_most_one)
    then show ?thesis unfolding last cf_map_def using True by (elim disjE exE) (simp_all split: prod.splits)
  qed (simp add: last)
qed

lemma cf_existing_loop_lists:
  assumes "cf_documented c md" and "cm_valid md z" and "0 < page"
    and "out = foldl (cf_existing_step domain) [] (take (cloudflarePageSize * (page - 1)) (cm_records md z))"
  shows "\<exists>r z'. cf_existing_loop c domain page out z = Some (r, z') \<and> cm_valid md z' \<and> cm_records md z' = cm_records md z \<and>
    (\<forall>out'. r = Inr out' \<longrightarrow> out' = foldl (cf_existing_step domain) [] (cm_records md z))"
  using assms(2-)
proof (induction "length (cm_records md z) - cloudflarePageSize * (page - 1)" arbitrary: z page out rule: less_induct)
  case less
  let ?rs = "cm_records md z" and ?k = "cloudflarePageSize * (page - 1)"
  obtain r z1 where call: "cf_do c ''GET'' (cf_list_path c page) None z = (r, z1)" by fastforce
  note doc = cf_documentedD(2) [OF assms(1) less.prems(1) less.prems(2) call]
  have z1: "cm_valid md z1" "cm_records md z1 = ?rs" using doc by simp_all
  show ?case
  proof (cases r)
    case (Inl e)
    then show ?thesis using call z1 by (subst cf_existing_loop.simps) simp
  next
    case (Inr env)
    define records where "records = take cloudflarePageSize (drop ?k ?rs)"
    from doc Inr have recs: "cs_records (c_http c) (env_Result env) = Some records"
      and total: "env_TotalPages env \<le> int page \<longleftrightarrow> length ?rs \<le> cloudflarePageSize * page" by (simp_all add: records_def)
    have k: "?k + cloudflarePageSize = cloudflarePageSize * page" using less.prems(2) by (cases page) simp_all
    define out1 where "out1 = foldl (cf_existing_step domain) out records"
    have out1: "out1 = foldl (cf_existing_step domain) [] (take (cloudflarePageSize * page) ?rs)"
      unfolding out1_def less.prems(3) records_def by (simp add: k [symmetric] take_add foldl_append)
    show ?thesis
    proof (cases "records = [] \<or> env_TotalPages env \<le> int page")
      case True
      then have "length ?rs \<le> cloudflarePageSize * page"
        using total k by (auto simp: records_def cloudflarePageSize_def)
      then show ?thesis using call Inr recs z1 True out1
        by (subst cf_existing_loop.simps) (simp add: out1_def Let_def)
    next
      case False
      then have "length (cm_records md z1) - cloudflarePageSize * (page + 1 - 1) < length ?rs - ?k"
        using total k z1(2) by (simp add: cloudflarePageSize_def) linarith
      from less.hyps [OF this z1(1), of out1] out1 z1(2)
      show ?thesis using call Inr recs False
        by (subst cf_existing_loop.simps) (simp add: out1_def Let_def)
    qed
  qed
qed

section \<open>Batches of writes and of removals\<close>

text \<open>A batch of writes leaves one record under each of its names, the wanted one, under the identifier
  the listing found there, and all other names alone. For that its names must still be as listed.\<close>

definition rewritten :: "zone \<Rightarrow> string set \<Rightarrow> cfRecord list \<Rightarrow> cfRecord list \<Rightarrow> bool" where
  "rewritten W names rs rs' \<longleftrightarrow>
     (\<forall>n. n \<notin> names \<longrightarrow> at_name n rs' = at_name n rs) \<and>
     (\<forall>n\<in>names. \<exists>i x. W n = Some x \<and> at_name n rs' = {#(i, n, x)#})"

definition removed :: "string set \<Rightarrow> cfRecord list \<Rightarrow> cfRecord list \<Rightarrow> bool" where
  "removed names rs rs' \<longleftrightarrow> (\<forall>n. at_name n rs' = (if n \<in> names then {#} else at_name n rs))"

definition addressed :: "(string, cfRecord) gomap \<Rightarrow> string set \<Rightarrow> cfRecord list \<Rightarrow> bool" where
  "addressed existing names rs \<longleftrightarrow>
     (\<forall>n\<in>names. case map_of existing n of
        Some r \<Rightarrow> \<exists>x. at_name n rs = {#(cf_ID r, n, x)#} | None \<Rightarrow> at_name n rs = {#})"

lemma rewritten_empty [simp]: "rewritten W {} rs rs' \<longleftrightarrow> (\<forall>n. at_name n rs' = at_name n rs)"
  by (simp add: rewritten_def)

lemma rewritten_trans:
  assumes "rewritten W A rs rs1" and "rewritten W B rs1 rs2"
  shows "rewritten W (A \<union> B) rs rs2"
  unfolding rewritten_def
proof (intro conjI allI impI ballI)
  fix n assume "n \<notin> A \<union> B"
  then show "at_name n rs2 = at_name n rs" using assms by (simp add: rewritten_def)
next
  fix n assume n: "n \<in> A \<union> B"
  show "\<exists>i x. W n = Some x \<and> at_name n rs2 = {#(i, n, x)#}"
  proof (cases "n \<in> B")
    case False
    then have "at_name n rs2 = at_name n rs1" "n \<in> A" using assms(2) n by (simp_all add: rewritten_def)
    then show ?thesis using assms(1) by (simp add: rewritten_def)
  qed (use assms(2) in \<open>simp add: rewritten_def\<close>)
qed

lemma rewritten_cong: "rewritten W A rs rs1 \<Longrightarrow> (\<And>n. at_name n rs2 = at_name n rs1) \<Longrightarrow> rewritten W A rs rs2"
  by (simp add: rewritten_def)

lemma rewritten_reading:
  assumes "rewritten W A rs rs'"
  shows "cf_reading rs' = cf_reading rs ++ (W |` A)"
proof
  fix n show "cf_reading rs' n = (cf_reading rs ++ (W |` A)) n"
  proof (cases "n \<in> A")
    case True
    then obtain i x where "W n = Some x" "cf_map rs' n = Some (i, x)" using assms unfolding rewritten_def cf_map_iff by blast
    then show ?thesis using True by (simp add: cf_reading_def map_add_def)
  next
    case False
    then have "at_name n rs' = at_name n rs" using assms by (simp add: rewritten_def)
    from cf_map_cong [OF this] show ?thesis using False by (simp add: cf_reading_def map_add_def)
  qed
qed

lemma rewritten_one: "rewritten W A rs rs' \<Longrightarrow> one_per_name N rs \<Longrightarrow> one_per_name N rs'"
  unfolding one_per_name_def
proof
  fix n assume "rewritten W A rs rs'" "\<forall>n\<in>N. size (at_name n rs) \<le> 1" "n \<in> N"
  then show "size (at_name n rs') \<le> 1" by (cases "n \<in> A") (auto simp: rewritten_def)
qed

lemma removed_one: "removed A rs rs' \<Longrightarrow> one_per_name N rs \<Longrightarrow> one_per_name N rs'"
  by (simp add: removed_def one_per_name_def)

lemma removed_reading:
  assumes "removed A rs rs'"
  shows "cf_reading rs' = cf_reading rs |` (- A)"
proof
  fix n show "cf_reading rs' n = (cf_reading rs |` (- A)) n"
  proof (cases "n \<in> A")
    case True
    then have "cf_map rs' n = None" using assms by (simp add: removed_def cf_map_None)
    then show ?thesis using True by (simp add: cf_reading_def restrict_map_def)
  next
    case False
    then have "at_name n rs' = at_name n rs" using assms by (simp add: removed_def)
    from cf_map_cong [OF this] show ?thesis using False by (simp add: cf_reading_def restrict_map_def)
  qed
qed

lemma addressed_subset: "addressed existing A rs \<Longrightarrow> B \<subseteq> A \<Longrightarrow> addressed existing B rs"
  by (auto simp: addressed_def)

lemma addressed_frame: "addressed existing A rs \<Longrightarrow> (\<And>n. n \<in> A \<Longrightarrow> at_name n rs' = at_name n rs) \<Longrightarrow> addressed existing A rs'"
  unfolding addressed_def
proof
  fix n assume a: "\<forall>n\<in>A. case map_of existing n of Some r \<Rightarrow> \<exists>x. at_name n rs = {#(cf_ID r, n, x)#} | None \<Rightarrow> at_name n rs = {#}"
    and same: "\<And>n. n \<in> A \<Longrightarrow> at_name n rs' = at_name n rs" and n: "n \<in> A"
  show "case map_of existing n of Some r \<Rightarrow> \<exists>x. at_name n rs' = {#(cf_ID r, n, x)#} | None \<Rightarrow> at_name n rs' = {#}"
    unfolding same [OF n] using a n by (rule bspec)
qed

lemma addressed_rewritten: "addressed existing A rs \<Longrightarrow> rewritten W B rs rs' \<Longrightarrow> A \<inter> B = {} \<Longrightarrow> addressed existing A rs'"
  by (rule addressed_frame, assumption) (unfold rewritten_def, blast)

lemma addressedD:
  assumes "addressed existing A rs" and "n \<in> A"
  shows "map_of existing n = Some r \<Longrightarrow> \<exists>x. at_name n rs = {#(cf_ID r, n, x)#}"
    and "map_of existing n = None \<Longrightarrow> at_name n rs = {#}"
  using assms by (auto simp: addressed_def split: option.splits)

lemma put_at:
  assumes "distinct (map cf_ID rs)" and "at_name n rs = {#(cf_ID p, n, y)#}" and "dnsKey (cf_Name p) = n"
  shows "at_name m (map (put_record p) rs) = (if m = n then {#cf_entry p#} else at_name m rs)"
proof -
  have "(cf_ID p, n, y) \<in># at_name n rs" by (simp add: assms(2))
  then obtain r where r: "r \<in> set rs" "cf_entry r = (cf_ID p, n, y)" "dnsKey (cf_Name r) = n" "cf_ID r = cf_ID p"
    by (rule at_nameD) simp
  then obtain xs ys where rs: "rs = xs @ r # ys" by (meson split_list)
  have "cf_ID r \<notin> cf_ID ` (set xs \<union> set ys)" using assms(1) unfolding rs image_Un by simp
  then have "cf_ID s \<noteq> cf_ID p" if "s \<in> set xs \<union> set ys" for s using that r(4) by (metis imageI)
  then have "map (put_record p) xs = xs" "map (put_record p) ys = ys" by (simp_all add: put_record_def map_idI)
  then have put: "map (put_record p) rs = xs @ p # ys" by (simp add: rs put_record_def r(4))
  have "{#cf_entry r#} + (at_name n xs + at_name n ys) = {#cf_entry r#}" using assms(2) r(2,3) by (simp add: rs)
  then have "at_name n xs = {#}" "at_name n ys = {#}" by simp_all
  then have "at_name m (xs @ p # ys) = (if m = n then {#cf_entry p#} else at_name m (xs @ r # ys))"
    using assms(3) r(3) by (cases "m = n") simp_all
  then show ?thesis unfolding put rs [symmetric] .
qed

lemma put_ids: "map cf_ID (map (put_record p) rs) = map cf_ID rs"
  by (simp add: put_record_def)

lemma cf_record_wanted:
  assumes "proper_records want" and "name \<in> dom (wanted_zone (c_ttls c) domain want)"
  obtains x where "wanted_zone (c_ttls c) domain want name = Some x" "dnsKey name = name"
    "\<And>i. cf_entry ((cf_record c domain (wanted_records want) name)\<lparr>cf_ID := i\<rparr>) = (i, name, x)"
proof -
  obtain content where w: "map_of (wanted_records want) name = Some content"
    using assms(2) by (auto simp: wanted_zone_def)
  show ?thesis using that [of "(content, forName (c_ttls c) name domain)"] proper_wanted [OF assms(1) w] w
    by (simp add: wanted_zone_def cf_record_def cf_entry_def)
qed

lemma puts_applied:
  assumes "proper_records want" and "set names \<subseteq> dom (wanted_zone (c_ttls c) domain want)" and "distinct names"
    and "list_all (\<lambda>name. map_of existing name \<noteq> None) names" and "distinct (map cf_ID rs)" and "addressed existing (set names) rs"
  shows "rewritten (wanted_zone (c_ttls c) domain want) (set names) rs
    (fold (map \<circ> put_record) (map (cf_put c domain (wanted_records want) existing) names) rs)"
  using assms(2-)
proof (induction names arbitrary: rs)
  case (Cons name names)
  let ?W = "wanted_zone (c_ttls c) domain want" and ?p = "cf_put c domain (wanted_records want) existing name"
  let ?rs = "map (put_record ?p) rs"
  obtain x where w: "?W name = Some x" "dnsKey name = name"
    "\<And>i. cf_entry ((cf_record c domain (wanted_records want) name)\<lparr>cf_ID := i\<rparr>) = (i, name, x)"
    by (rule cf_record_wanted [OF assms(1)]) (use Cons.prems(1) in auto)
  obtain r where r: "map_of existing name = Some r" using Cons.prems(3) by auto
  then have p: "cf_entry ?p = (cf_ID r, name, x)" "cf_ID ?p = cf_ID r" "dnsKey (cf_Name ?p) = name"
    using w by (simp_all add: cf_put_def) (simp add: cf_record_def)
  obtain y where "at_name name rs = {#(cf_ID r, name, y)#}" using addressedD(1) [OF Cons.prems(5) _ r] by auto
  from put_at [OF Cons.prems(4) this [folded p(2)] p(3)] have "rewritten ?W {name} rs ?rs"
    using w(1) p(1) by (simp add: rewritten_def)
  note one = this
  have "rewritten ?W (set names) ?rs (fold (map \<circ> put_record) (map (cf_put c domain (wanted_records want) existing) names) ?rs)"
  proof (rule Cons.IH)
    show "addressed existing (set names) ?rs"
      by (rule addressed_rewritten [OF addressed_subset [OF Cons.prems(5)] one]) (use Cons.prems(2) in auto)
    show "distinct (map cf_ID ?rs)" unfolding put_ids by (rule Cons.prems(4))
  qed (use Cons.prems(1-3) in auto)
  from rewritten_trans [OF one this] show ?case by (simp add: comp_def)
qed simp

lemma posts_applied:
  assumes "proper_records want" and "length ids = length names" and "set names \<subseteq> dom (wanted_zone (c_ttls c) domain want)"
    and "distinct names" and "list_all (\<lambda>name. map_of existing name = None) names" and "addressed existing (set names) rs"
  shows "rewritten (wanted_zone (c_ttls c) domain want) (set names) rs
    (rs @ map2 (\<lambda>i p. p\<lparr>cf_ID := i\<rparr>) ids (map (cf_record c domain (wanted_records want)) names))"
  using assms(2-)
proof (induction ids names arbitrary: rs rule: list_induct2)
  case (Cons i ids name names)
  let ?W = "wanted_zone (c_ttls c) domain want" and ?p = "(cf_record c domain (wanted_records want) name)\<lparr>cf_ID := i\<rparr>"
  obtain x where w: "?W name = Some x" "dnsKey name = name"
    "\<And>i. cf_entry ((cf_record c domain (wanted_records want) name)\<lparr>cf_ID := i\<rparr>) = (i, name, x)"
    by (rule cf_record_wanted [OF assms(1)]) (use Cons.prems(1) in auto)
  have n: "dnsKey (cf_Name ?p) = name" using w(2) by (simp add: cf_record_def)
  have "at_name name rs = {#}" by (rule addressedD(2) [OF Cons.prems(4)]) (use Cons.prems(3) in simp_all)
  then have one: "rewritten ?W {name} rs (rs @ [?p])" using w(1,3) n by (simp add: rewritten_def)
  have "rewritten ?W (set names) (rs @ [?p])
      ((rs @ [?p]) @ map2 (\<lambda>i p. p\<lparr>cf_ID := i\<rparr>) ids (map (cf_record c domain (wanted_records want)) names))"
  proof (rule Cons.IH)
    show "addressed existing (set names) (rs @ [?p])"
      by (rule addressed_rewritten [OF addressed_subset [OF Cons.prems(4)] one]) (use Cons.prems(2) in auto)
  qed (use Cons.prems in auto)
  from rewritten_trans [OF one this] show ?case by simp
qed simp

lemma removes_applied:
  assumes "distinct (map cf_ID rs)" and "addressed existing (set names) rs" and "\<forall>name\<in>set names. map_of existing name \<noteq> None"
  shows "removed (set names) rs (cf_apply [] (cf_removes existing names) rs)"
proof -
  define I where "I = cf_ID ` set (cb_Deletes (cf_removes existing names))"
  have I: "cf_ID r \<in> I" if "n \<in> set names" "map_of existing n = Some r" for n r
    using that by (force simp: I_def cf_removes_def image_iff)
  have "at_name n (filter (\<lambda>r. cf_ID r \<notin> I) rs) = (if n \<in> set names then {#} else at_name n rs)" for n
  proof (cases "n \<in> set names")
    case True
    then obtain r where r: "map_of existing n = Some r" using assms(3) by blast
    then obtain x where "at_name n rs = {#(cf_ID r, n, x)#}" using addressedD(1) [OF assms(2) True] by blast
    then show ?thesis using True I [OF True r] by (simp add: at_name_filter)
  next
    case False
    have "fst e \<notin> I" if e: "e \<in># at_name n rs" for e
    proof
      assume "fst e \<in> I"
      then obtain n' where n': "n' \<in> set names" "fst e = (case map_of existing n' of Some r \<Rightarrow> cf_ID r | None \<Rightarrow> [])"
        by (auto simp: I_def cf_removes_def)
      then obtain r where r: "map_of existing n' = Some r" "fst e = cf_ID r" using assms(3) by fastforce
      then obtain x where "at_name n' rs = {#(cf_ID r, n', x)#}" using addressedD(1) [OF assms(2) n'(1)] by blast
      then have "(cf_ID r, n', x) \<in># at_name n' rs" by simp
      from ids_apart [OF assms(1) e this] r(2) n'(1) False show False by simp
    qed
    then show ?thesis using False by (simp add: at_name_filter filter_mset_cong [of _ _ _ "\<lambda>_. True"])
  qed
  then show ?thesis by (simp add: removed_def cf_apply_def I_def) (simp add: cf_removes_def)
qed

section \<open>Submissions\<close>

lemma at_name_mset: "mset (map cf_entry rs) = mset (map cf_entry ss) \<Longrightarrow> at_name n rs = at_name n ss"
  by (simp add: at_name_def)

lemma cf_submit_applies:
  assumes "cf_documented c md" and "cm_valid md z" and "cf_submit c b z = (e, z')"
  shows "cm_valid md z'"
    and "(\<exists>ids. length ids = length (cb_Posts b) \<and>
        (\<forall>n. at_name n (cm_records md z') = at_name n (cf_apply ids b (cm_records md z)))) \<or>
      e \<noteq> None \<and> (\<forall>n. at_name n (cm_records md z') = at_name n (cm_records md z))"
proof -
  have "cm_valid md z' \<and> ((\<exists>ids. length ids = length (cb_Posts b) \<and>
        (\<forall>n. at_name n (cm_records md z') = at_name n (cf_apply ids b (cm_records md z)))) \<or>
      e \<noteq> None \<and> (\<forall>n. at_name n (cm_records md z') = at_name n (cm_records md z)))"
  proof (cases "cfBatch_len b = 0")
    case True
    then have "cf_apply [] b rs = rs" for rs by (simp add: cf_apply_def cfBatch_len_def)
    then show ?thesis using True assms(2,3) by (auto simp: cf_submit_def cfBatch_len_def)
  next
    case False
    obtain r z1 where call: "cf_do c ''POST'' (cf_batch_path c) (Some b) z = (r, z1)" by fastforce
    have z1: "z' = z1" "(\<exists>x. r = Inl x) \<Longrightarrow> e \<noteq> None" using False assms(3) call by (auto simp: cf_submit_def split: sum.splits)
    from cf_documentedD(3) [OF assms(1,2) call] show ?thesis unfolding z1(1) using z1(2) at_name_mset by metis
  qed
  then show "cm_valid md z'" "(\<exists>ids. length ids = length (cb_Posts b) \<and>
        (\<forall>n. at_name n (cm_records md z') = at_name n (cf_apply ids b (cm_records md z)))) \<or>
      e \<noteq> None \<and> (\<forall>n. at_name n (cm_records md z') = at_name n (cm_records md z))" by blast+
qed

definition write_batch ::
  "('w, 'z) cloudflareDNS \<Rightarrow> string \<Rightarrow> txt_records \<Rightarrow> (string, cfRecord) gomap \<Rightarrow> string list \<Rightarrow> cfBatch \<Rightarrow> bool"
where
  "write_batch c domain want existing names b \<longleftrightarrow>
     set names \<subseteq> dom (wanted_zone (c_ttls c) domain want) \<and> distinct names \<and>
     (b = \<lparr>cb_Deletes = [], cb_Puts = map (cf_put c domain (wanted_records want) existing) names, cb_Posts = []\<rparr> \<and>
        list_all (\<lambda>name. map_of existing name \<noteq> None) names \<or>
      b = \<lparr>cb_Deletes = [], cb_Puts = [], cb_Posts = map (cf_record c domain (wanted_records want)) names\<rparr> \<and>
        list_all (\<lambda>name. map_of existing name = None) names)"

lemma write_batch_applied:
  assumes "write_batch c domain want existing names b" and "proper_records want" and "distinct (map cf_ID rs)"
    and "addressed existing (set names) rs" and "length ids = length (cb_Posts b)"
  shows "rewritten (wanted_zone (c_ttls c) domain want) (set names) rs (cf_apply ids b rs)"
  using assms(1) unfolding write_batch_def
proof (elim conjE disjE)
  assume b: "b = \<lparr>cb_Deletes = [], cb_Puts = map (cf_put c domain (wanted_records want) existing) names, cb_Posts = []\<rparr>"
    and n: "set names \<subseteq> dom (wanted_zone (c_ttls c) domain want)" "distinct names" "list_all (\<lambda>name. map_of existing name \<noteq> None) names"
  show ?thesis using puts_applied [OF assms(2) n assms(3,4)] assms(5) by (simp add: b cf_apply_def)
next
  assume b: "b = \<lparr>cb_Deletes = [], cb_Puts = [], cb_Posts = map (cf_record c domain (wanted_records want)) names\<rparr>"
    and n: "set names \<subseteq> dom (wanted_zone (c_ttls c) domain want)" "distinct names" "list_all (\<lambda>name. map_of existing name = None) names"
  then have "length ids = length names" using assms(5) by simp
  from posts_applied [OF assms(2) this n assms(4)] show ?thesis by (simp add: b cf_apply_def)
qed

lemma cf_submit_writes:
  assumes "cf_documented c md" and "proper_records want" and "cm_valid md z" and "write_batch c domain want existing names b"
    and "addressed existing (set names) (cm_records md z)" and "cf_submit c b z = (e, z')"
  shows "cm_valid md z' \<and>
    (\<exists>S \<subseteq> set names. rewritten (wanted_zone (c_ttls c) domain want) S (cm_records md z) (cm_records md z') \<and>
       (e = None \<longrightarrow> S = set names) \<and> (S = {} \<or> S = set names))"
proof -
  note ap = cf_submit_applies [OF assms(1,3,6)] and ids = cf_documentedD(1) [OF assms(1,3)]
  let ?W = "wanted_zone (c_ttls c) domain want" and ?rs = "cm_records md z" and ?rs' = "cm_records md z'"
  from ap(2) show ?thesis
  proof (elim disjE exE conjE)
    fix ids' assume i: "length ids' = length (cb_Posts b)" "\<forall>n. at_name n ?rs' = at_name n (cf_apply ids' b ?rs)"
    from rewritten_cong [OF write_batch_applied [OF assms(4,2) ids assms(5) i(1)]] i(2)
    have "rewritten ?W (set names) ?rs ?rs'" by blast
    then show ?thesis using ap(1) by blast
  next
    assume "e \<noteq> None" "\<forall>n. at_name n ?rs' = at_name n ?rs"
    then show ?thesis using ap(1) by (intro conjI exI [of _ "{}"]) auto
  qed
qed

lemma cf_submit_all_writes:
  assumes "cf_documented c md" and "proper_records want"
    and "list_all2 (write_batch c domain want existing) nss bs" and "distinct (concat nss)"
    and "cm_valid md z" and "addressed existing (set (concat nss)) (cm_records md z)" and "cf_submit_all c bs k z = ((k', e), z')"
  shows "cm_valid md z' \<and>
    (\<exists>S \<subseteq> set (concat nss). rewritten (wanted_zone (c_ttls c) domain want) S (cm_records md z) (cm_records md z') \<and>
       (e = None \<longrightarrow> S = set (concat nss)))"
  using assms(3-7)
proof (induction nss bs arbitrary: k z rule: list_all2_induct)
  case Nil
  then show ?case by simp
next
  case (Cons ns nss b bs)
  let ?W = "wanted_zone (c_ttls c) domain want"
  obtain e1 z1 where s: "cf_submit c b z = (e1, z1)" by fastforce
  have "addressed existing (set ns) (cm_records md z)" by (rule addressed_subset [OF Cons.prems(3)]) simp
  from cf_submit_writes [OF assms(1,2) Cons.prems(2) Cons.hyps(1) this s] obtain S where
    S: "cm_valid md z1" "S \<subseteq> set ns" "rewritten ?W S (cm_records md z) (cm_records md z1)" "e1 = None \<longrightarrow> S = set ns" by blast
  show ?case
  proof (cases e1)
    case (Some x)
    then have "z' = z1" "e \<noteq> None" using Cons.prems(4) s by auto
    then show ?thesis using S(1-3) by auto
  next
    case None
    with Cons.prems(4) s have rest: "cf_submit_all c bs (k + cfBatch_len b) z1 = ((k', e), z')" by simp
    have "addressed existing (set (concat nss)) (cm_records md z1)"
    proof (rule addressed_rewritten [OF addressed_subset [OF Cons.prems(3)] S(3)])
      show "set (concat nss) \<inter> S = {}" using Cons.prems(1) S(2) by auto
    qed simp
    from Cons.IH [OF _ S(1) this rest] Cons.prems(1) obtain S' where S': "cm_valid md z'" "S' \<subseteq> set (concat nss)"
      "rewritten ?W S' (cm_records md z1) (cm_records md z')" "e = None \<longrightarrow> S' = set (concat nss)" by auto
    have "S \<union> S' \<subseteq> set (concat (ns # nss))" "e = None \<longrightarrow> S \<union> S' = set (concat (ns # nss))" using S S' None by auto
    with rewritten_trans [OF S(3) S'(3)] S'(1) show ?thesis by blast
  qed
qed

lemma slices_Chunk_map: "slices_Chunk (map f xs) n = map (map f) (slices_Chunk xs n)"
proof (induction xs n rule: slices_Chunk.induct)
  case (1 xs n)
  then show ?case
    by (cases "xs = [] \<or> n = 0") (simp_all add: slices_Chunk.simps [of "map f xs"] slices_Chunk.simps [of xs] take_map drop_map)
qed

lemma concat_slices_Chunk: "0 < n \<Longrightarrow> concat (slices_Chunk xs n) = xs"
proof (induction xs n rule: slices_Chunk.induct)
  case (1 xs n)
  then show ?case by (cases "xs = []") (simp_all add: slices_Chunk.simps [of xs] slices_Chunk.simps [of "[]"])
qed


lemma chunk_writes:
  assumes "set names \<subseteq> dom (wanted_zone (c_ttls c) domain want)" and "distinct names"
  shows "\<exists>nss. list_all2 (write_batch c domain want existing) nss (chunkBatch (cf_writes c domain (wanted_records want) existing names)) \<and>
    set (concat nss) = set names \<and> distinct (concat nss)"
proof -
  let ?present = "\<lambda>name. map_of existing name \<noteq> None"
  define ps where "ps = slices_Chunk (filter ?present names) cloudflareBatchMax"
  define qs where "qs = slices_Chunk (filter (\<lambda>name. \<not> ?present name) names) cloudflareBatchMax"
  have cc: "concat ps = filter ?present names" "concat qs = filter (\<lambda>name. \<not> ?present name) names"
    by (simp_all add: ps_def qs_def concat_slices_Chunk cloudflareBatchMax_def)
  have d: "distinct (concat (ps @ qs))" using assms(2) by (auto simp: cc)
  have in_ps: "\<forall>ns\<in>set ps. distinct ns \<and> (\<forall>n\<in>set ns. n \<in> set names \<and> ?present n)"
    using arg_cong [OF cc(1), of set] d by (auto simp: distinct_concat_iff)
  have in_qs: "\<forall>ns\<in>set qs. distinct ns \<and> (\<forall>n\<in>set ns. n \<in> set names \<and> \<not> ?present n)"
    using arg_cong [OF cc(2), of set] d by (auto simp: distinct_concat_iff)
  have nil: "slices_Chunk [] n = []" for n :: nat by (simp add: slices_Chunk.simps)
  have "chunkBatch (cf_writes c domain (wanted_records want) existing names) =
      map (\<lambda>ns. \<lparr>cb_Deletes = [], cb_Puts = map (cf_put c domain (wanted_records want) existing) ns, cb_Posts = []\<rparr>) ps @
      map (\<lambda>ns. \<lparr>cb_Deletes = [], cb_Puts = [], cb_Posts = map (cf_record c domain (wanted_records want)) ns\<rparr>) qs"
    by (simp add: chunkBatch_def cf_writes_def Let_def slices_Chunk_map ps_def qs_def nil)
  moreover have "list_all2 (write_batch c domain want existing) ps
      (map (\<lambda>ns. \<lparr>cb_Deletes = [], cb_Puts = map (cf_put c domain (wanted_records want) existing) ns, cb_Posts = []\<rparr>) ps)"
    using in_ps assms(1) by (fastforce simp: list.rel_map write_batch_def list_all_iff intro: list.rel_refl_strong)
  moreover have "list_all2 (write_batch c domain want existing) qs
      (map (\<lambda>ns. \<lparr>cb_Deletes = [], cb_Puts = [], cb_Posts = map (cf_record c domain (wanted_records want)) ns\<rparr>) qs)"
    using in_qs assms(1) by (fastforce simp: list.rel_map write_batch_def list_all_iff intro: list.rel_refl_strong)
  moreover have "set (concat (ps @ qs)) = set names" by (auto simp: cc)
  ultimately show ?thesis using d by (metis list_all2_appendI)
qed

lemma cf_submit_all_removes:
  assumes "cf_documented c md" and "cm_valid md z" and "distinct (concat nss)"
    and "addressed existing (set (concat nss)) (cm_records md z)" and "\<forall>name\<in>set (concat nss). map_of existing name \<noteq> None"
    and "cf_submit_all c (map (cf_removes existing) nss) k z = ((k', e), z')"
  shows "cm_valid md z' \<and> (\<exists>D \<subseteq> set (concat nss). removed D (cm_records md z) (cm_records md z'))"
  using assms(2-)
proof (induction nss arbitrary: k z)
  case Nil
  then show ?case by (auto simp: removed_def)
next
  case (Cons ns nss)
  let ?rs = "cm_records md z" and ?b = "cf_removes existing ns"
  obtain e1 z1 where s: "cf_submit c ?b z = (e1, z1)" by fastforce
  note ap = cf_submit_applies [OF assms(1) Cons.prems(1) s]
  have "removed (set ns) ?rs (cf_apply [] ?b ?rs)"
    by (rule removes_applied [OF cf_documentedD(1) [OF assms(1) Cons.prems(1)] addressed_subset [OF Cons.prems(3)]]) (use Cons.prems(4) in auto)
  moreover have "cb_Posts ?b = []" by (simp add: cf_removes_def)
  ultimately have m1: "removed (set ns) ?rs (cm_records md z1) \<or> e1 \<noteq> None \<and> removed {} ?rs (cm_records md z1)"
    using ap(2) by (auto simp: removed_def)
  show ?case
  proof (cases e1)
    case (Some x)
    then have "z' = z1" using Cons.prems(5) s by simp
    then show ?thesis using ap(1) m1 by (metis concat.simps(2) empty_subsetI set_append sup_ge1)
  next
    case None
    with Cons.prems(5) s have rest: "cf_submit_all c (map (cf_removes existing) nss) (k + cfBatch_len ?b) z1 = ((k', e), z')"
      by simp
    have m: "removed (set ns) ?rs (cm_records md z1)" using m1 None by simp
    have "addressed existing (set (concat nss)) (cm_records md z1)"
    proof (rule addressed_frame [OF addressed_subset [OF Cons.prems(3)]])
      fix n assume "n \<in> set (concat nss)"
      then have "n \<notin> set ns" using Cons.prems(2) by auto
      then show "at_name n (cm_records md z1) = at_name n ?rs" using m by (simp add: removed_def)
    qed simp
    from Cons.IH [OF ap(1) _ this _ rest] Cons.prems(2,4) obtain D where
      D: "cm_valid md z'" "D \<subseteq> set (concat nss)" "removed D (cm_records md z1) (cm_records md z')" by auto
    then have "removed (set ns \<union> D) ?rs (cm_records md z')" using m by (simp add: removed_def)
    moreover have "set ns \<union> D \<subseteq> set (concat (ns # nss))" using D(2) by auto
    ultimately show ?thesis using D(1) by blast
  qed
qed

section \<open>Sync refines the specification\<close>

text \<open>The names under the domain have one record each to begin with, and keep at most one: what is read
  of them is then what is there, and every name the plan writes or removes is addressed.\<close>

lemma cf_existing_plan:
  assumes "cf_documented c md" and "cm_valid md z" and "cf_existing c domain z = Some (Inr existing, z')"
    and "one_per_name (Collect (under_domain domain)) (cm_records md z)"
  shows "cm_valid md z'" and "cm_records md z' = cm_records md z"
    and "plan_reads (\<lambda>r. (cf_Content r, cf_TTL r)) (c_ttls c) domain (cf_zone md z) existing (cf_unchanged c domain)"
    and "addressed existing (Collect (under_domain domain)) (cm_records md z)"
proof -
  let ?rs = "cm_records md z"
  from cf_existing_loop_lists [OF assms(1,2), of 1 "[]" domain] assms(3)
  have z': "cm_valid md z'" "cm_records md z' = ?rs" and e: "existing = foldl (cf_existing_step domain) [] ?rs"
    by (auto simp: cf_existing_def)
  note ok = cf_foldl_existing(1) [of domain ?rs, folded e] and ex = cf_foldl_existing(2) [OF assms(4), folded e]
  show "cm_valid md z'" "cm_records md z' = ?rs" by (fact z')+
  have read: "map_option (\<lambda>r. (cf_Content r, cf_TTL r)) (map_of existing name) =
      (if under_domain domain name then cf_zone md z name else None)" for name
    using arg_cong [OF ex [of name], of "map_option snd"]
    by (simp add: cf_zone_def cf_reading_def option.map_comp comp_def split: if_splits)
  show "plan_reads (\<lambda>r. (cf_Content r, cf_TTL r)) (c_ttls c) domain (cf_zone md z) existing (cf_unchanged c domain)"
    using ok read by (auto simp: plan_reads_def cf_unchanged_def)
  show "addressed existing (Collect (under_domain domain)) ?rs"
    unfolding addressed_def
  proof
    fix n assume n: "n \<in> Collect (under_domain domain)"
    show "case map_of existing n of Some r \<Rightarrow> \<exists>x. at_name n ?rs = {#(cf_ID r, n, x)#} | None \<Rightarrow> at_name n ?rs = {#}"
    proof (cases "map_of existing n")
      case None
      then have "cf_map ?rs n = None" using ex [of n] n by simp
      then have "size (at_name n ?rs) = 0" using assms(4) n by (auto simp: cf_map_None one_per_name_def le_less)
      then show ?thesis using None by simp
    next
      case (Some r)
      then have "cf_map ?rs n = Some (cf_ID r, cf_Content r, cf_TTL r)" using ex [of n] n by simp
      then show ?thesis using Some unfolding cf_map_iff by auto
    qed
  qed
qed

lemma cf_finish_refines:
  assumes "cf_documented c md" and "cm_valid md z" and "proper_records want"
    and plan: "plan_reads (\<lambda>r. (cf_Content r, cf_TTL r)) (c_ttls c) domain v existing (cf_unchanged c domain)"
    and p: "p = planSync existing domain want retain (cf_unchanged c domain)"
    and addr: "addressed existing (set (plan_root domain p) \<union> set (sp_stale p)) (cm_records md z)"
    and z: "cf_zone md z = v ++ (wanted_zone (c_ttls c) domain want |` set (sp_entries p))"
    and fin: "cf_finish c (cf_writes c domain (wanted_records want) existing (plan_root domain p))
      (cf_removes existing (sp_stale p)) changed z = ((n, e), z')"
  shows "cm_valid md z' \<and> sync_spec (c_ttls c) domain want retain v (e = None) (cf_zone md z') \<and>
    (\<forall>N. one_per_name N (cm_records md z) \<longrightarrow> one_per_name N (cm_records md z'))"
proof -
  let ?root = "cf_writes c domain (wanted_records want) existing (plan_root domain p)" and ?W = "wanted_zone (c_ttls c) domain want"
  note pl = plan_names [OF plan, of want retain, folded p] and stages = plan_stages [OF plan p]
  obtain e1 z1 where s: "cf_submit c ?root z = (e1, z1)" by fastforce
  have "write_batch c domain want existing (plan_root domain p) ?root"
    using pl(4) by (auto simp: write_batch_def cf_writes_def plan_root_def Let_def)
  from cf_submit_writes [OF assms(1,3,2) this addressed_subset [OF addr] s] obtain S where
    S: "cm_valid md z1" "S \<subseteq> set (plan_root domain p)" "rewritten ?W S (cm_records md z) (cm_records md z1)"
    "e1 = None \<longrightarrow> S = set (plan_root domain p)" by auto
  have z1: "cf_zone md z1 = v ++ (?W |` (set (sp_entries p) \<union> S))"
    using rewritten_reading [OF S(3)] z by (simp add: cf_zone_def overlay_overlay)
  note one = rewritten_one [OF S(3)]
  show ?thesis
  proof (cases e1)
    case (Some x)
    then have "z' = z1" "e = Some (WriteRoot x)" using fin by (auto simp: cf_finish_def s)
    then show ?thesis using S(1) z1 stages(2) [OF S(2)] one by simp
  next
    case None
    define nss where "nss = slices_Chunk (sp_stale p) cloudflareBatchMax"
    have nil: "slices_Chunk [] n = []" for n :: nat by (simp add: slices_Chunk.simps)
    have chunks: "chunkBatch (cf_removes existing (sp_stale p)) = map (cf_removes existing) nss"
      by (simp add: chunkBatch_def cf_removes_def nss_def nil slices_Chunk_map)
    have cc: "concat nss = sp_stale p" by (simp add: nss_def concat_slices_Chunk cloudflareBatchMax_def)
    obtain k2 e2 z2 where s2: "cf_submit_all c (map (cf_removes existing) nss) (changed + cfBatch_len ?root) z1 = ((k2, e2), z2)"
      by (metis surj_pair)
    have z': "z' = z2" "e = None" using fin None by (auto simp: cf_finish_def s chunks s2)
    have "set (sp_stale p) \<inter> dom ?W = {}" using pl(6) by (auto simp: prunable_def wanted_zone_dom)
    moreover have "S \<subseteq> dom ?W" using S(2) pl(4) by (auto simp: plan_root_def split: if_splits)
    ultimately have apart: "set (sp_stale p) \<inter> S = {}" by blast
    have ad: "addressed existing (set (concat nss)) (cm_records md z1)"
      by (rule addressed_rewritten [OF addressed_subset [OF addr] S(3)]) (use apart in \<open>auto simp: cc\<close>)
    have listed: "\<forall>name\<in>set (concat nss). map_of existing name \<noteq> None"
      using pl(6) unfolding cc by (auto simp: map_of_eq_None_iff)
    obtain D where D: "cm_valid md z2" "D \<subseteq> set (sp_stale p)" "removed D (cm_records md z1) (cm_records md z2)"
      using cf_submit_all_removes [OF assms(1) S(1) _ ad listed s2] pl(7) unfolding cc by blast
    have "cf_zone md z2 = (v ++ (?W |` (set (sp_entries p) \<union> set (plan_root domain p)))) |` (- D)"
      using removed_reading [OF D(3)] z1 S(4) None by (simp add: cf_zone_def)
    then show ?thesis using D(1) z' stages(3) [OF D(2)] one removed_one [OF D(3)] by simp
  qed
qed

lemma cf_push_refines:
  assumes "cf_documented c md" and "cm_valid md z" and "proper_records want"
    and plan: "plan_reads (\<lambda>r. (cf_Content r, cf_TTL r)) (c_ttls c) domain v existing (cf_unchanged c domain)"
    and p: "p = planSync existing domain want retain (cf_unchanged c domain)" and z: "cf_zone md z = v"
    and addr: "addressed existing (set (sp_entries p) \<union> (set (plan_root domain p) \<union> set (sp_stale p))) (cm_records md z)"
    and push: "cf_push c (cf_writes c domain (wanted_records want) existing (sp_entries p))
      (cf_writes c domain (wanted_records want) existing (plan_root domain p)) (cf_removes existing (sp_stale p)) z = ((n, e), z')"
  shows "cm_valid md z' \<and> sync_spec (c_ttls c) domain want retain v (e = None) (cf_zone md z') \<and>
    (\<forall>N. one_per_name N (cm_records md z) \<longrightarrow> one_per_name N (cm_records md z'))"
proof -
  let ?W = "wanted_zone (c_ttls c) domain want" and ?entries = "cf_writes c domain (wanted_records want) existing (sp_entries p)"
  note pl = plan_names [OF plan, of want retain, folded p] and stages = plan_stages [OF plan p]
  have "set (sp_entries p) \<subseteq> dom ?W" using pl(2) by blast
  from chunk_writes [OF this pl(3)] obtain nss where
    nss: "list_all2 (write_batch c domain want existing) nss (chunkBatch ?entries)" "set (concat nss) = set (sp_entries p)" "distinct (concat nss)"
    by blast
  obtain k1 e1 z1 where s: "cf_submit_all c (chunkBatch ?entries) 0 z = ((k1, e1), z1)" by (metis surj_pair)
  have "addressed existing (set (concat nss)) (cm_records md z)" by (rule addressed_subset [OF addr]) (unfold nss(2), blast)
  from cf_submit_all_writes [OF assms(1,3) nss(1,3) assms(2) this s, unfolded nss(2)] obtain S where
    S: "cm_valid md z1" "S \<subseteq> set (sp_entries p)" "rewritten ?W S (cm_records md z) (cm_records md z1)"
    "e1 = None \<longrightarrow> S = set (sp_entries p)" by blast
  have z1: "cf_zone md z1 = v ++ (?W |` S)" using rewritten_reading [OF S(3)] z by (simp add: cf_zone_def)
  note one = rewritten_one [OF S(3)]
  show ?thesis
  proof (cases e1)
    case (Some x)
    then have "z' = z1" "e = Some (WriteEntries x)" using push by (auto simp: cf_push_def s)
    then show ?thesis using S(1,2) z1 stages(1) one by simp
  next
    case None
    have "(set (plan_root domain p) \<union> set (sp_stale p)) \<inter> S = {}"
    proof -
      have "set (sp_stale p) \<inter> dom ?W = {}" using pl(6) by (auto simp: prunable_def wanted_zone_dom)
      moreover have "set (plan_root domain p) \<inter> set (sp_entries p) = {}" using pl(2) by (auto simp: plan_root_def)
      ultimately show ?thesis using S(2) pl(2) by blast
    qed
    with addressed_rewritten [OF addressed_subset [OF addr] S(3)]
    have ad: "addressed existing (set (plan_root domain p) \<union> set (sp_stale p)) (cm_records md z1)" by blast
    have zone: "cf_zone md z1 = v ++ (?W |` set (sp_entries p))" using z1 S(4) None by simp
    show ?thesis
    proof (cases "0 < cfBatch_len ?entries \<and> 0 < c_settle c")
      case False
      then have "cf_finish c (cf_writes c domain (wanted_records want) existing (plan_root domain p)) (cf_removes existing (sp_stale p)) k1 z1 = ((n, e), z')"
        using push unfolding cf_push_def s None by (simp only: prod.case option.case if_False False)
      from cf_finish_refines [OF assms(1) S(1) assms(3) plan p ad zone this] show ?thesis using one by blast
    next
      case settle: True
      obtain b z2 where a: "cs_After (c_http c) (c_settle c) z1 = (b, z2)" by fastforce
      note k = cf_documentedD(4) [OF assms(1) S(1) a]
      have z2: "addressed existing (set (plan_root domain p) \<union> set (sp_stale p)) (cm_records md z2)"
          "cf_zone md z2 = v ++ (?W |` set (sp_entries p))" "\<forall>N. one_per_name N (cm_records md z) \<longrightarrow> one_per_name N (cm_records md z2)"
        using k ad zone one by (simp_all add: cf_zone_def)
      show ?thesis
      proof (cases b)
        case True
        then have "z' = z2" "e = Some (AwaitEntries ContextDone)"
          using push unfolding cf_push_def s None by (auto simp: if_P [OF settle] a)
        then show ?thesis using k z2(2,3) stages(1) [OF subset_refl] by simp
      next
        case False
        then have "cf_finish c (cf_writes c domain (wanted_records want) existing (plan_root domain p)) (cf_removes existing (sp_stale p)) k1 z2 = ((n, e), z')"
          using push unfolding cf_push_def s None by (simp add: if_P [OF settle] a)
        from cf_finish_refines [OF assms(1) k [THEN conjunct1] assms(3) plan p z2(1,2) this] show ?thesis using z2(3) by blast
      qed
    qed
  qed
qed

lemma cf_Sync_refines:
  assumes "cf_documented c md" and "cm_valid md z" and "proper_records want"
    and want: "list_all (\<lambda>(name, _). under_domain domain (dnsKey name)) want"
    and one: "one_per_name (Collect (under_domain domain)) (cm_records md z)"
    and sync: "cf_Sync c domain want retain z = Some ((n, e), z')"
  shows "cm_valid md z' \<and> sync_spec (c_ttls c) domain want retain (cf_zone md z) (e = None) (cf_zone md z') \<and>
    (\<forall>N. one_per_name N (cm_records md z) \<longrightarrow> one_per_name N (cm_records md z'))"
proof -
  obtain l z1 where l: "cf_existing c domain z = Some (l, z1)"
    using sync by (auto simp: cf_Sync_def split: option.splits)
  show ?thesis
  proof (cases l)
    case (Inl x)
    from cf_existing_loop_lists [OF assms(1,2), of 1 "[]" domain] l Inl
    have "cm_valid md z1" "cm_records md z1 = cm_records md z" by (auto simp: cf_existing_def)
    moreover have "z' = z1" "e = Some (ListRecords x)" using sync l Inl by (auto simp: cf_Sync_def)
    ultimately show ?thesis using sync_spec_partial [of domain "{}"] by (simp add: cf_zone_def)
  next
    case (Inr existing)
    note ex = cf_existing_plan [OF assms(1,2) l [unfolded Inr] one]
    define p where "p = planSync existing domain want retain (cf_unchanged c domain)"
    note pl = plan_names [OF ex(3), of want retain, folded p_def]
    have "dom (wanted_zone (c_ttls c) domain want) \<subseteq> Collect (under_domain domain)"
      using want by (auto simp: wanted_zone_dom wanted_names list_all_iff)
    then have "set (sp_entries p) \<subseteq> Collect (under_domain domain)" using pl(2) by blast
    moreover have "set (plan_root domain p) \<subseteq> Collect (under_domain domain)" by (auto simp: plan_root_def under_domain_def)
    moreover have "set (sp_stale p) \<subseteq> Collect (under_domain domain)" using pl(6) by (auto simp: prunable_def)
    ultimately have "set (sp_entries p) \<union> (set (plan_root domain p) \<union> set (sp_stale p)) \<subseteq> Collect (under_domain domain)"
      by blast
    from addressed_subset [OF ex(4) this] have ad: "addressed existing (set (sp_entries p) \<union> (set (plan_root domain p) \<union> set (sp_stale p))) (cm_records md z1)"
      by (simp add: ex(2))
    have z1: "cf_zone md z1 = cf_zone md z" using ex(2) by (simp add: cf_zone_def)
    have "cf_push c (cf_writes c domain (wanted_records want) existing (sp_entries p))
        (cf_writes c domain (wanted_records want) existing (plan_root domain p)) (cf_removes existing (sp_stale p)) z1 = ((n, e), z')"
      using sync unfolding plan_root_def cf_Sync_def l Inr option.case prod.case sum.case Let_def p_def [symmetric] pl(1) by blast
    from cf_push_refines [OF assms(1) ex(1) assms(3) ex(3) p_def z1 ad this] show ?thesis by (simp add: ex(2))
  qed
qed

text \<open>A reconcile returns and leaves the service in a state it can be in, whatever the names hold.\<close>

lemma cf_submit_all_valid:
  assumes "cf_documented c md" and "cm_valid md z"
  shows "cf_submit_all c bs k z = (r, z') \<Longrightarrow> cm_valid md z'"
  using assms(2)
proof (induction bs arbitrary: k z)
  case (Cons b bs)
  obtain e z1 where s: "cf_submit c b z = (e, z1)" by fastforce
  from cf_submit_applies(1) [OF assms(1) Cons.prems(2) s] Cons s show ?case by (cases e) auto
qed simp

lemma cf_Sync_valid:
  assumes "cf_documented c md" and "cm_valid md z" and "cf_Sync c domain want retain z = Some ((n, e), z')"
  shows "cm_valid md z'"
proof -
  have finish: "cm_valid md z'" if v: "cm_valid md z" and f: "cf_finish c a b k z = (r, z')" for a b k z r
  proof -
    obtain e1 z1 where s: "cf_submit c a z = (e1, z1)" by fastforce
    obtain k2 e2 z2 where s2: "cf_submit_all c (chunkBatch b) (k + cfBatch_len a) z1 = ((k2, e2), z2)" by (metis surj_pair)
    have "cm_valid md z1" by (rule cf_submit_applies(1) [OF assms(1) v s])
    then show ?thesis using f cf_submit_all_valid [OF assms(1) _ s2] by (cases e1) (auto simp: cf_finish_def s s2)
  qed
  have push: "cm_valid md z'" if v: "cm_valid md z" and f: "cf_push c a b d z = (r, z')" for a b d z r
  proof -
    obtain k1 e1 z1 where s: "cf_submit_all c (chunkBatch a) 0 z = ((k1, e1), z1)" by (metis surj_pair)
    obtain w z2 where t: "cs_After (c_http c) (c_settle c) z1 = (w, z2)" by fastforce
    have z1: "cm_valid md z1" by (rule cf_submit_all_valid [OF assms(1) v s])
    then have "cm_valid md z2" using cf_documentedD(4) [OF assms(1) z1 t] by blast
    then show ?thesis using f z1 finish by (cases e1; cases w) (auto simp: cf_push_def s t split: if_splits)
  qed
  obtain l z1 where l: "cf_existing c domain z = Some (l, z1)" using assms(3) by (auto simp: cf_Sync_def split: option.splits)
  then have "cm_valid md z1" using cf_existing_loop_lists [OF assms(1,2), of 1 "[]" domain] by (auto simp: cf_existing_def)
  then show ?thesis using assms(3) l push by (cases l) (auto simp: cf_Sync_def Let_def)
qed

lemma cf_Sync_returns:
  assumes "cf_documented c md" and "cm_valid md z"
  shows "\<exists>n e z'. cf_Sync c domain want retain z = Some ((n, e), z')"
proof -
  obtain l z1 where l: "cf_existing c domain z = Some (l, z1)"
    using cf_existing_loop_lists [OF assms, of 1 "[]" domain] by (auto simp: cf_existing_def)
  have "\<exists>n e z'. cf_push c a b d z1 = ((n, e), z')" for a b d by (metis surj_pair)
  then show ?thesis using l by (cases l) (simp_all add: cf_Sync_def Let_def)
qed

text \<open>The client of a set of domains: each name at or below one of them has at most one TXT record when the
  service is handed over, which every reconcile keeps, and only records at or below them are published.
  Names elsewhere in the zone may have any number of records.\<close>

definition managed :: "string set \<Rightarrow> string set" where
  "managed ds = {name. \<exists>d\<in>ds. under_domain d name}"

definition cf_accepts :: "string set \<Rightarrow> string \<Rightarrow> txt_records \<Rightarrow> bool" where
  "cf_accepts ds domain want \<longleftrightarrow>
     domain \<in> ds \<and> proper_records want \<and> list_all (\<lambda>(name, _). under_domain domain (dnsKey name)) want"

definition cf_managed :: "'z cf_model \<Rightarrow> string set \<Rightarrow> 'z \<Rightarrow> bool" where
  "cf_managed md ds z \<longleftrightarrow> cm_valid md z \<and> one_per_name (managed ds) (cm_records md z)"

lemma cf_managed_Sync:
  assumes "cf_documented c md" and "cf_managed md ds z" and "cf_accepts ds domain want"
    and "cf_Sync c domain want retain z = Some ((n, e), z')"
  shows "cf_managed md ds z' \<and> sync_spec (c_ttls c) domain want retain (cf_zone md z) (e = None) (cf_zone md z')"
proof -
  have "one_per_name (Collect (under_domain domain)) (cm_records md z)"
    using assms(2,3) by (auto simp: cf_managed_def cf_accepts_def managed_def one_per_name_def)
  from cf_Sync_refines [OF assms(1) _ _ _ this assms(4)] assms(2,3) show ?thesis
    by (simp add: cf_managed_def cf_accepts_def)
qed

interpretation cf: record_publisher "\<lambda>(c, md, ds). cf_documented c md" "\<lambda>(c, md, ds). cf_managed md ds" "\<lambda>(c, md, ds). cf_zone md"
    "\<lambda>(c, md, ds). c_ttls c" "\<lambda>(c, md, ds). cf_accepts ds" "\<lambda>(c, md, ds). cf_Sync c"
  by unfold_locales (unfold case_prod_beta, (rule cf_managed_Sync [THEN conjunct1] cf_managed_Sync [THEN conjunct2]; assumption)+)

end
