(* ===== verification/DnsZone.thy ===== *)
theory DnsZone
  imports DnsArtifacts Route53 Cloudflare
begin

text \<open>
  What the zone serves while the publisher runs. The trees of different domains have different names, a
  reconcile of one leaves the others alone, and what a domain last got into the zone stays there until
  the next tree has replaced it. The lemmas are proved once, in the locale \<open>record_publisher\<close>, for a
  client that accepts the trees of every domain it publishes.
\<close>

section \<open>Names apart\<close>

lemma lower_char_dot [simp]: "lower_char c = CHR ''.'' \<longleftrightarrow> c = CHR ''.''"
proof -
  have "char_of (n + 32) \<noteq> CHR ''.''" if "65 \<le> n" "n \<le> 90" for n :: nat
  proof
    assume "char_of (n + 32) = CHR ''.''"
    then have "of_char (char_of (n + 32) :: char) = (of_char (CHR ''.'') :: nat)" by simp
    then have "(n + 32) mod 256 = 46" by (simp only: of_char_of) simp
    then show False using that by simp
  qed
  then show ?thesis by (auto simp: lower_char_def Let_def)
qed

lemma dots_dot: "dots (x @ ''.'' @ y) = dots x + dots y + 1"
  by (simp add: dots_def)

lemma dots_lower [simp]: "dots (strings_ToLower s) = dots s"
  by (simp add: dots_def strings_ToLower_def filter_map comp_def)

lemma dnsKey_domain:
  assumes "publishable cfg" and "d \<in> tree_domains cfg"
  shows "dnsKey d = strings_ToLower d"
proof -
  have b: "mt_baseDomain cfg \<noteq> []" "\<not> has_suffix (mt_baseDomain cfg) ''.''"
    using assms(1) by (auto simp: publishable_def validateDomain_def split: if_splits)
  obtain pre where "d = pre @ mt_baseDomain cfg" using assms(2) by (auto simp: tree_domains_def tree_domain_def)
  then have "\<not> has_suffix d ''.''" using b by (cases "mt_baseDomain cfg" rule: rev_cases) (auto simp: has_suffix_def)
  then show ?thesis by (simp add: dnsKey_def strings_TrimSuffix_def)
qed

lemma dnsKey_apart:
  assumes "publishable cfg" and "d \<in> tree_domains cfg" and "d' \<in> tree_domains cfg" and "dnsKey d = dnsKey d'"
  shows "d = d'"
proof -
  obtain net cap net' cap' where d: "d = tree_domain cfg net cap" "d' = tree_domain cfg net' cap'"
      "net \<in> set (mt_networks cfg)" "net' \<in> set (mt_networks cfg)" "cap \<in> {''all'', ''snap''}" "cap' \<in> {''all'', ''snap''}"
    using assms(2,3) by (auto simp: tree_domains_def)
  have "strings_ToLower d = strings_ToLower d'" using assms dnsKey_domain by metis
  then have "cap = cap' \<and> strings_ToLower net = strings_ToLower net'"
    using d(5,6) by (auto simp: d(1,2) tree_domain_def strings_ToLower_def lower_char_def)
  moreover have "inj_on strings_ToLower (set (mt_networks cfg))" using assms(1) by (simp add: publishable_def distinct_map)
  ultimately show ?thesis using d by (auto dest: inj_onD)
qed

text \<open>Two domains with the same number of labels have no name in common unless they are the same.\<close>

lemma suffix_apart:
  assumes "x @ ''.'' @ D = x' @ ''.'' @ D'" and "dots D = dots D'"
  shows "D = D'"
proof -
  have one: "E = E'" if eq: "us @ ''.'' @ E = ''.'' @ E'" and same: "dots E = dots E'" for us E E'
  proof (cases us)
    case (Cons c us')
    then have "us' @ ''.'' @ E = E'" using eq by simp
    then have "dots E' = dots us' + dots E + 1" using dots_dot [of us' E] by simp
    then show ?thesis using same by simp
  qed (use eq in simp)
  obtain us where "x = x' @ us \<and> us @ ''.'' @ D = ''.'' @ D' \<or> x @ us = x' \<and> ''.'' @ D = us @ ''.'' @ D'"
    using assms(1) unfolding append_eq_append_conv2 by blast
  then show ?thesis using one [of us D D'] one [of us D' D] assms(2) by metis
qed

lemma has_suffix_split: "has_suffix s suf \<Longrightarrow> \<exists>x. s = x @ suf"
proof -
  have "is_prefix p t \<Longrightarrow> \<exists>u. t = p @ u" for p t by (induction p t rule: is_prefix.induct) auto
  moreover assume "has_suffix s suf"
  ultimately obtain u where "rev s = rev suf @ u" by (auto simp: has_suffix_def)
  then show ?thesis by (metis rev_append rev_rev_ident)
qed

lemma under_apart:
  assumes "publishable cfg" and "d \<in> tree_domains cfg" and "d' \<in> tree_domains cfg"
    and "under_domain d name" and "under_domain d' name"
  shows "d = d'"
proof -
  let ?D = "dnsKey d" and ?D' = "dnsKey d'"
  have same: "dots ?D = dots ?D'" 
    using domain_plain(2) [OF assms(1,2)] domain_plain(2) [OF assms(1,3)] dnsKey_domain [OF assms(1,2)] dnsKey_domain [OF assms(1,3)] by simp
  have suf: "under_domain d name \<Longrightarrow> name = dnsKey d \<or> (\<exists>x. name = x @ ''.'' @ dnsKey d)" for d
    using has_suffix_split by (auto simp: under_domain_def)
  from suf [OF assms(4)] suf [OF assms(5)] consider "?D = ?D'" | x where "?D = x @ ''.'' @ ?D'" | x where "?D' = x @ ''.'' @ ?D"
    | x x' where "x @ ''.'' @ ?D = x' @ ''.'' @ ?D'" by metis
  then have "?D = ?D'"
  proof cases
    case (2 x)
    then have "dots ?D = dots x + dots ?D' + 1" using dots_dot [of x ?D'] by simp
    then show ?thesis using same by simp
  next
    case (3 x)
    then have "dots ?D' = dots x + dots ?D + 1" using dots_dot [of x ?D] by simp
    then show ?thesis using same by simp
  next
    case 4 then show ?thesis using same suffix_apart by blast
  qed
  then show ?thesis using dnsKey_apart [OF assms(1-3)] by simp
qed

section \<open>The zone along a run\<close>

text \<open>What EIP-1459 says of the records of a tree: a root under the domain itself and entries below it,
  as text that needs no escaping, each entry named by the hash of its text. The hash is truncated to 16
  bytes and two texts could share it; as for any use of a hash, that no collision occurs among the trees
  of a domain is taken for granted, which the agreement of the trees expresses.\<close>

definition eip1459 :: "'t treelib \<Rightarrow> string set \<Rightarrow> bool" where
  "eip1459 dd ds \<longleftrightarrow>
     (\<forall>d\<in>ds. \<forall>T. has_root d (tl_ToTXT dd T d) \<and> proper_records (tl_ToTXT dd T d) \<and>
        list_all (\<lambda>(name, _). under_domain d (dnsKey name)) (tl_ToTXT dd T d) \<and>
        (\<forall>T'. trees_agree d (tl_ToTXT dd T d) (tl_ToTXT dd T' d)))"

lemmas eip1459D =
  eip1459_def [THEN iffD1, rule_format, THEN conjunct1]
  eip1459_def [THEN iffD1, rule_format, THEN conjunct2, THEN conjunct1]
  eip1459_def [THEN iffD1, rule_format, THEN conjunct2, THEN conjunct2, THEN conjunct1]
  eip1459_def [THEN iffD1, rule_format, THEN conjunct2, THEN conjunct2, THEN conjunct2, rule_format]

text \<open>Where a domain has a published artifact, the zone serves a tree of the domain in full, and it
  still holds every entry of the published tree, whose root a client may have cached.\<close>

definition domain_served :: "'t dns_env \<Rightarrow> string \<Rightarrow> world \<Rightarrow> zone \<Rightarrow> bool" where
  "domain_served env d w v \<longleftrightarrow>
     (\<forall>P. stored (de_codec env) w (d @ publishedSuffix) = Some P \<longrightarrow>
        (\<exists>T. out_Records P = tl_ToTXT (de_trees env) T d) \<and> holds_entries d (out_Records P) v \<and>
        (\<exists>T. serves_tree d (tl_ToTXT (de_trees env) T d) v))"

definition zone_ok :: "'t dns_env \<Rightarrow> 'z multiConfig \<Rightarrow> world \<Rightarrow> zone \<Rightarrow> bool" where
  "zone_ok env cfg w v \<longleftrightarrow> (\<forall>d\<in>tree_domains cfg. domain_served env d w v)"

lemma domain_served_cong:
  assumes "eip1459 (de_trees env) ds" and "d \<in> ds" and "\<And>name. under_domain d name \<Longrightarrow> v' name = v name"
    and "stored (de_codec env) w' (d @ publishedSuffix) = stored (de_codec env) w (d @ publishedSuffix)"
  shows "domain_served env d w v \<Longrightarrow> domain_served env d w' v'"
proof -
  have "v' name = v name" if "map_of (wanted_records (tl_ToTXT (de_trees env) T d)) name = Some c" for T name c
  proof (rule assms(3))
    have "name \<in> (dnsKey \<circ> fst) ` set (tl_ToTXT (de_trees env) T d)"
      unfolding wanted_names [symmetric] using map_of_SomeD [OF that] by force
    then show "under_domain d name" using eip1459D(3) [OF assms(1,2), of T] by (auto simp: list_all_iff)
  qed
  then have "holds_entries d (tl_ToTXT (de_trees env) T d) v \<Longrightarrow> holds_entries d (tl_ToTXT (de_trees env) T d) v'"
      "serves_tree d (tl_ToTXT (de_trees env) T d) v \<Longrightarrow> serves_tree d (tl_ToTXT (de_trees env) T d) v'" for T
    by (auto simp: holds_entries_def serves_tree_def)
  then show "domain_served env d w v \<Longrightarrow> domain_served env d w' v'"
    unfolding domain_served_def assms(4) by metis
qed

context record_publisher
begin

text \<open>One reconcile: the domain stays served, the new tree is served after a success, and the other
  domains are untouched.\<close>

lemma sync_domain_served:
  assumes "trusted a" "valid a z" and "eip1459 (de_trees env) (tree_domains cfg)" and "d \<in> tree_domains cfg"
    and R: "R = tl_ToTXT (de_trees env) T d" and "retained_on_disk (de_codec env) w d retain"
    and "sync a d R retain z = Some ((n, e), z')" and "domain_served env d w (served a z)" and "accepts a d R"
  shows "domain_served env d w (served a z')" and "e = None \<Longrightarrow> holds_entries d R (served a z') \<and> serves_tree d R (served a z')"
proof -
  note tree = eip1459D [OF assms(3,4)]
  have root: "has_root d R" by (simp add: R tree(1))
  note sync = assms(1,2,9,7)
  show "e = None \<Longrightarrow> holds_entries d R (served a z') \<and> serves_tree d R (served a z')"
    using success_serves [OF assms(1,2,9) _ root] assms(7) by (auto simp: serves_tree_def)
  show "domain_served env d w (served a z')"
    unfolding domain_served_def
  proof (intro allI impI conjI)
    fix P assume P: "stored (de_codec env) w (d @ publishedSuffix) = Some P"
    with assms(8) obtain TP TS where TP: "out_Records P = tl_ToTXT (de_trees env) TP d" "holds_entries d (out_Records P) (served a z)"
        "serves_tree d (tl_ToTXT (de_trees env) TS d) (served a z)" unfolding domain_served_def by blast
    then show "\<exists>T. out_Records P = tl_ToTXT (de_trees env) T d" by blast
    have ret: "retain = Some (out_Records P)" using assms(6) P by (auto simp: retained_on_disk_def stored_def)
    show "holds_entries d (out_Records P) (served a z')"
      by (rule retained_in_full [OF sync [unfolded ret] TP(2)]) (simp add: TP(1) R tree(4))
    have "serves_tree d (tl_ToTXT (de_trees env) TS d) (served a z') \<and> e \<noteq> None \<or> serves_tree d R (served a z')"
      by (rule served_in_full [OF sync TP(3) _ root]) (simp add: R tree(4))
    then show "\<exists>T. serves_tree d (tl_ToTXT (de_trees env) T d) (served a z')" unfolding R by blast
  qed
qed

lemma sync_others_served:
  assumes "trusted a" "valid a z" and "publishable cfg" and "eip1459 (de_trees env) (tree_domains cfg)"
    and "d \<in> tree_domains cfg" "d' \<in> tree_domains cfg" "d \<noteq> d'"
    and "sync a d (tl_ToTXT (de_trees env) T d) retain z = Some ((n, e), z')" and "under_domain d' name"
    and "accepts a d (tl_ToTXT (de_trees env) T d)"
  shows "served a z' name = served a z name"
proof (rule elsewhere [OF assms(1,2,10,8)])
  show u: "\<not> under_domain d name" using under_apart [OF assms(3,5,6) _ assms(9)] assms(7) by blast
  show "name \<notin> fst ` set (wanted_records (tl_ToTXT (de_trees env) T d))"
    using u eip1459D(3) [OF assms(4,5), of T] by (auto simp: wanted_names list_all_iff)
qed

end

context record_publisher
begin

lemma publish_tree_served:
  assumes "publishable cfg" and "codec_roundtrip (de_codec env)" and "trusted a" and "eip1459 (de_trees env) (tree_domains cfg)"
    and "undisturbed w" and "d \<in> tree_domains cfg" and "out_Domain out = d" and "out_Records out = tl_ToTXT (de_trees env) T d"
    and "retained_on_disk (de_codec env) w d retain" and "valid a z" and "zone_ok env cfg w (served a z)"
    and y: "sync a d (out_Records out) retain z = Some ((n, e), z')" and acc: "accepts a d (out_Records out)"
  shows "zone_ok env cfg w (served a z')"
    and "e = None \<Longrightarrow> emitArtifact (de_codec env) out (mt_outDir cfg) (d @ publishedSuffix) w = (e2, w') \<Longrightarrow>
      undisturbed w' \<and> zone_ok env cfg w' (served a z') \<and>
      (\<forall>d'. d' \<noteq> d \<longrightarrow> retained_on_disk (de_codec env) w' d' = retained_on_disk (de_codec env) w d')"
proof -
  have here: "domain_served env d w (served a z)" using assms(6,11) by (simp add: zone_ok_def)
  note own = sync_domain_served [OF assms(3,10,4,6,8,9) y here acc]
  have others: "domain_served env d' w' (served a z')" if "d' \<in> tree_domains cfg" "d' \<noteq> d"
    and "stored (de_codec env) w' (d' @ publishedSuffix) = stored (de_codec env) w (d' @ publishedSuffix)" for d' w'
  proof (rule domain_served_cong [OF assms(4) that(1) _ that(3)])
    show "served a z' name = served a z name" if "under_domain d' name" for name
      using sync_others_served [OF assms(3,10,1,4,6) \<open>d' \<in> _\<close> _ y [unfolded assms(8)] that acc [unfolded assms(8)]] \<open>d' \<noteq> d\<close> by blast
  qed (use that(1) assms(11) in \<open>simp add: zone_ok_def\<close>)
  show "zone_ok env cfg w (served a z')" unfolding zone_ok_def using own(1) others by blast
  assume e: "e = None" and emit: "emitArtifact (de_codec env) out (mt_outDir cfg) (d @ publishedSuffix) w = (e2, w')"
  have pl: "CHR ''/'' \<notin> set (d @ publishedSuffix)" using domain_plain(1) [OF assms(1,6)] by (simp add: publishedSuffix_def)
  have out: "mt_outDir cfg \<noteq> []" using assms(1) by (simp add: publishable_def)
  note ee = emit_effect [OF assms(5) pl out assms(2) emit]
  have ob: "object w' (artifact_key (d' @ publishedSuffix)) = object w (artifact_key (d' @ publishedSuffix))" if "d' \<noteq> d" for d'
    using ee(2) that by simp
  have "domain_served env d w' (served a z')"
    using ee(3)
  proof
    assume "stored (de_codec env) w' (d @ publishedSuffix) = Some out"
    then show ?thesis using own(2) [OF e] assms(8) by (auto simp: domain_served_def)
  next
    assume "e2 \<noteq> None \<and> object w' (artifact_key (d @ publishedSuffix)) = object w (artifact_key (d @ publishedSuffix))"
    then show ?thesis using own(1) by (simp add: domain_served_def stored_def)
  qed
  moreover have "domain_served env d' w' (served a z')" if "d' \<in> tree_domains cfg" "d' \<noteq> d" for d'
    by (rule others [OF that]) (simp add: stored_def ob [OF that(2)])
  ultimately have "zone_ok env cfg w' (served a z')" unfolding zone_ok_def by metis
  then show "undisturbed w' \<and> zone_ok env cfg w' (served a z') \<and>
      (\<forall>d'. d' \<noteq> d \<longrightarrow> retained_on_disk (de_codec env) w' d' = retained_on_disk (de_codec env) w d')"
    using ee(1) ob by (simp add: retained_on_disk_def stored_def fun_eq_iff)
qed

lemma publish_trees_served:
  assumes "publishable cfg" and "codec_roundtrip (de_codec env)" and "trusted a" and "eip1459 (de_trees env) (tree_domains cfg)"
    and "publish_trees env (sync a) (mt_outDir cfg) ts s = Some (r, s')" and "undisturbed (ds_artifacts s)"
    and "pushable env cfg ts (ds_artifacts s)" and "valid a (ds_zone s)" and "zone_ok env cfg (ds_artifacts s) (served a (ds_zone s))"
    and acc: "\<forall>d\<in>tree_domains cfg. \<forall>T. accepts a d (tl_ToTXT (de_trees env) T d)"
  shows "valid a (ds_zone s') \<and> zone_ok env cfg (ds_artifacts s') (served a (ds_zone s'))"
  using assms(5-9)
proof (induction ts arbitrary: s)
  case (Cons t ts)
  let ?out = "bt_output t"
  let ?d = "out_Domain ?out"
  from Cons.prems(3) obtain T where d: "?d \<in> tree_domains cfg" and T: "out_Records ?out = tl_ToTXT (de_trees env) T ?d"
    and ret: "retained_on_disk (de_codec env) (ds_artifacts s) ?d (bt_retain t)"
    by (auto simp: pushable_def Let_def)
  have "?d \<notin> (\<lambda>t'. out_Domain (bt_output t')) ` set ts" using Cons.prems(3) by (simp add: pushable_def)
  then have others: "out_Domain (bt_output t') \<noteq> ?d" if "t' \<in> set ts" for t' using that by (metis imageI)
  obtain n e z where y: "sync a ?d (out_Records ?out) (bt_retain t) (ds_zone s) = Some ((n, e), z)"
    using Cons.prems(1) by (cases "sync a ?d (out_Records ?out) (bt_retain t) (ds_zone s)") auto
  obtain e2 w where c: "emitArtifact (de_codec env) ?out (mt_outDir cfg) (?d @ publishedSuffix) (ds_artifacts s) = (e2, w)" by fastforce
  have tree: "accepts a ?d (out_Records ?out)" using acc d T by simp
  note one = publish_tree_served [OF assms(1-4) Cons.prems(2) d refl T ret Cons.prems(4,5) y tree]
  have v: "valid a z" by (rule sync_valid [OF assms(3) Cons.prems(4) tree y])
  show ?case
  proof (cases e)
    case (Some x)
    then show ?thesis using Cons.prems(1) y v one(1) by (auto simp: Let_def)
  next
    case None
    note two = one(2) [OF None c]
    show ?thesis
    proof (cases e2)
      case (Some x)
      then show ?thesis using Cons.prems(1) y None c v two by (auto simp: Let_def)
    next
      case e2: None
      let ?s1 = "s\<lparr>ds_zone := z, ds_artifacts := w\<rparr>"
      have rest: "publish_trees env (sync a) (mt_outDir cfg) ts ?s1 = Some (r, s')"
        using Cons.prems(1) y None c e2 by (simp add: Let_def)
      have "pushable env cfg ts (ds_artifacts ?s1)"
        using Cons.prems(3) two others by (auto simp: pushable_def list_all_iff Let_def)
      from Cons.IH [OF rest _ this] show ?thesis using v two by simp
    qed
  qed
qed simp

lemma served_along_run:
  assumes "publishable cfg" and "codec_roundtrip (de_codec env)" and "eip1459 (de_trees env) (tree_domains cfg)"
    and "mt_publisher cfg = Some (sync a)" and "trusted a" and "dns_run env cfg s s'"
    and "issued_ok (de_codec env) (tree_domains cfg) s" and "valid a (ds_zone s)"
    and "zone_ok env cfg (ds_artifacts s) (served a (ds_zone s))"
    and acc: "\<forall>d\<in>tree_domains cfg. \<forall>T. accepts a d (tl_ToTXT (de_trees env) T d)"
  shows "valid a (ds_zone s') \<and> zone_ok env cfg (ds_artifacts s') (served a (ds_zone s'))"
proof -
  let ?I = "\<lambda>s. issued_ok (de_codec env) (tree_domains cfg) s \<and> valid a (ds_zone s) \<and>
    zone_ok env cfg (ds_artifacts s) (served a (ds_zone s))"
  have "?I s'"
  proof (rule dns_run_keeps [where I = ?I, OF assms(1,2) _ _ _ assms(6)])
    fix s1 s2 assume a: "?I s1" "offline env cfg s1 s2"
    have "domain_served env d (ds_artifacts s2) (served a (ds_zone s2))" if d: "d \<in> tree_domains cfg" for d
      by (rule domain_served_cong [OF assms(3) d, of _ "served a (ds_zone s1)" _ "ds_artifacts s1"])
        (use a d in \<open>simp_all add: offline_def zone_ok_def stored_def\<close>)
    then show "?I s2" using a by (simp add: offline_def zone_ok_def)
  next
    fix s1 ts sy r s2 assume I: "?I s1" and sy: "mt_publisher cfg = Some sy" and p: "pushable env cfg ts (ds_artifacts s1)"
      and pt: "publish_trees env sy (mt_outDir cfg) ts s1 = Some (r, s2)"
    then have u: "undisturbed (ds_artifacts s1)" by (simp add: issued_ok_def)
    note served = publish_trees_served [OF assms(1,2,5,3) _ u p _ _ acc]
    from p have "(out_Domain \<circ> bt_output) ` set ts \<subseteq> tree_domains cfg" by (auto simp: pushable_def list_all_iff Let_def)
    note disk = publish_trees_disk [OF assms(1,2) pt u this]
    then have "issued_ok (de_codec env) (tree_domains cfg) s2" using I by (auto simp: issued_ok_def stored_def)
    then show "?I s2" using served pt sy assms(4) I by auto
  qed (use assms(7-9) in simp_all)
  then show ?thesis by simp
qed

end

end
