(* ===== verification/DnsCycle.thy ===== *)
theory DnsCycle
  imports DnsArtifacts SelectionProps
begin

text \<open>
  A publish cycle returns: the selection ends for every list of candidates a snapshot can give, and the
  rest of the cycle is bounded by the networks, the capabilities and what the provider's client does.
\<close>

section \<open>Selection\<close>

lemma pick_returns:
  assumes "distinct (map cd_ptr cands)" and "so_limit opt * int (length cands) < 2 ^ 53"
  shows "\<exists>sel. pick lib cands opt = Some sel"
proof (cases "0 < so_limit opt \<and> so_limit opt < int (length (tree_pool lib opt cands))")
  case True
  from pick_full [OF assms(1) _ assms(2) refl] True show ?thesis by blast
next
  case False
  then have "so_limit opt \<le> 0 \<or> int (length (tree_pool lib opt cands)) \<le> so_limit opt" by auto
  then show ?thesis unfolding pick_def Let_def tree_pool_def [symmetric] by (simp only: if_True option.inject) blast
qed

lemma buildTree_returns:
  assumes "distinct (map cd_ptr cands)" and "so_limit opt * int (length cands) < 2 ^ 53"
  shows "\<exists>r. buildTree lib dd cands opt seq domain network = Some r"
  using pick_returns [OF assms, of lib] by (auto simp: buildTree_def)

definition selectable :: "selectOpts \<Rightarrow> candidate list \<Rightarrow> bool" where
  "selectable opt cands \<longleftrightarrow> distinct (map cd_ptr cands) \<and> so_limit opt * int (length cands) < 2 ^ 53"

lemma limit_fewer:
  assumes "k * int (length xs) < 2 ^ 53" and "length ys \<le> length xs"
  shows "k * int (length ys) < 2 ^ 53"
proof (cases "0 \<le> k")
  case True
  then have "k * int (length ys) \<le> k * int (length xs)" using assms(2) by (intro mult_left_mono) auto
  then show ?thesis using assms(1) by (rule le_less_trans)
next
  case False
  then have "k * int (length ys) \<le> 0" by (simp add: mult_nonpos_nonneg)
  then show ?thesis by (rule le_less_trans) simp
qed

lemma selectable_filter: "selectable opt cands \<Longrightarrow> selectable opt (filter P cands)"
  using limit_fewer [of "so_limit opt" cands "filter P cands"] by (simp add: selectable_def distinct_map_filter)

lemma selectable_ready: "selectable opt cands \<Longrightarrow> selectable opt (ready_candidates near cands)"
proof -
  assume s: "selectable opt cands"
  have "\<exists>P. ready_candidates near cands = filter P cands"
    by (auto simp: ready_candidates_def Let_def intro: exI [of _ "\<lambda>_. False"])
  then show ?thesis using selectable_filter [OF s] by auto
qed

lemma rank_rows_length: "length (rank_rows lib reg opt now irs targets) \<le> length irs"
  by (induction irs arbitrary: targets rule: list.induct) (auto simp: Let_def le_SucI split: option.splits prod.splits)

lemma selectable_ranked: "so_limit opt * int (length rs) < 2 ^ 53 \<Longrightarrow> selectable opt (rankCandidates lib reg rs opt now)"
proof -
  assume "so_limit opt * int (length rs) < 2 ^ 53"
  moreover have "length (rankCandidates lib reg rs opt now) \<le> length rs"
    using rank_rows_length [of lib reg opt now "enumerate 0 (sort_key row_order rs)" "\<lambda>_. None"]
    by (simp add: rankCandidates_def Let_def)
  ultimately have "so_limit opt * int (length (rankCandidates lib reg rs opt now)) < 2 ^ 53" by (rule limit_fewer)
  then show ?thesis by (simp add: selectable_def rankCandidates_ptrs)
qed

section \<open>Trees\<close>

lemma choose_tree_returns:
  assumes "selectable opt cands" and "selectable opt ready"
  shows "\<exists>r. choose_tree env cfg cands ready opt seq domain network previousNodes exempt cancelNear = Some r"
proof -
  obtain f where f: "buildTree (de_lib env) (de_trees env) cands opt seq domain network = Some f"
    using buildTree_returns assms(1) unfolding selectable_def by blast
  obtain g where g: "buildTree (de_lib env) (de_trees env) ready opt seq domain network = Some g"
    using buildTree_returns assms(2) unfolding selectable_def by blast
  obtain sel where sel: "pick (de_lib env) cands opt = Some sel"
    using pick_returns assms(1) unfolding selectable_def by blast
  show ?thesis by (cases g) (simp_all add: choose_tree_def Let_def f g sel)
qed

text \<open>Trees whose records the library made for one of the configured domains.\<close>

definition made_trees :: "'t treelib \<Rightarrow> string set \<Rightarrow> builtTree list \<Rightarrow> bool" where
  "made_trees dd ds = list_all (\<lambda>t. \<exists>T. \<exists>d\<in>ds. out_Domain (bt_output t) = d \<and> out_Records (bt_output t) = tl_ToTXT dd T d)"

lemma build_trees_returns:
  assumes "selectable (mt_sel cfg) cands" and "selectable (mt_sel cfg) ready" and "network \<in> set (mt_networks cfg)"
    and "set caps \<subseteq> {''all'', ''snap''}"
  shows "\<exists>r w'. build_trees env cfg network generatedAt evaluatedAt issued cands ready cancelNear caps w = Some (r, w') \<and>
    (\<forall>ts. r = Inr (Inr ts) \<longrightarrow> made_trees (de_trees env) (tree_domains cfg) ts)"
  using assms(4)
proof (induction caps arbitrary: w)
  case (Cons cap caps)
  let ?d = "tree_domain cfg network cap"
  have d: "?d \<in> tree_domains cfg" using Cons.prems assms(3) by (auto simp: tree_domains_def)
  have sel: "selectable (mt_sel cfg\<lparr>so_capability := cap\<rparr>) cands" "selectable (mt_sel cfg\<lparr>so_capability := cap\<rparr>) ready"
    using assms(1,2) by (simp_all add: selectable_def)
  obtain b w1 where base: "baselinesFor (de_codec env) (mt_outDir cfg) (mt_publisher cfg \<noteq> None) ?d network cap w = (b, w1)" by fastforce
  show ?case
  proof (cases b)
    case (Inr bb)
    obtain c where c: "choose_tree env cfg cands ready (mt_sel cfg\<lparr>so_capability := cap\<rparr>) (treeSequence generatedAt (max (bl_seq bb) (issued ?d)))
          ?d network (bl_nodes bb)
          (0 < bl_publishedSeq bb \<and> layerForkActivatedBetween (de_registry env) network (so_layer (mt_sel cfg))
             (unix64 (sint (bl_publishedSeq bb))) (time_Add evaluatedAt (- publishCycle (mt_publishEvery cfg)))) cancelNear = Some c"
      using choose_tree_returns [OF sel] by blast
    obtain r2 w2 where rest: "build_trees env cfg network generatedAt evaluatedAt issued cands ready cancelNear caps w1 = Some (r2, w2)"
        "\<And>ts. r2 = Inr (Inr ts) \<Longrightarrow> made_trees (de_trees env) (tree_domains cfg) ts"
      using Cons.IH [of w1] Cons.prems by auto
    show ?thesis
    proof (cases c)
      case (Inl x)
      then show ?thesis using base Inr c by (simp add: Let_def)
    next
      case c2: (Inr tx)
      obtain t x where t: "tx = (t, x)" by (cases tx)
      note fields = choose_tree_fields [OF c [unfolded c2 t]]
      have "made_trees (de_trees env) (tree_domains cfg) (t\<lparr>bt_retain := bl_retain bb\<rparr> # ts)"
        if "made_trees (de_trees env) (tree_domains cfg) ts" for ts
        using that fields d by (auto simp: made_trees_def)
      then show ?thesis using base Inr c c2 t rest
        by (cases "gateTree (out_Nodes (bt_output t)) cap (bl_nodes bb) x cfg"; cases r2 rule: sum.exhaust)
          (auto simp: Let_def split: sum.splits)
    qed
  qed (use base in simp)
qed (simp add: made_trees_def)
section \<open>Cycles\<close>

text \<open>A client of a provider that returns on every state its service can be in.\<close>

definition sync_returns ::
  "('z \<Rightarrow> bool) \<Rightarrow> (string \<Rightarrow> txt_records \<Rightarrow> txt_records option \<Rightarrow> 'z \<Rightarrow> ((nat \<times> syncError option) \<times> 'z) option) \<Rightarrow> bool"
where
  "sync_returns V sync \<longleftrightarrow>
     (\<forall>d R retain z. V z \<and> proper_records R \<longrightarrow> (\<exists>n e z'. sync d R retain z = Some ((n, e), z') \<and> V z'))"

definition records_proper :: "'t treelib \<Rightarrow> string set \<Rightarrow> bool" where
  "records_proper dd ds \<longleftrightarrow> (\<forall>T. \<forall>d\<in>ds. proper_records (tl_ToTXT dd T d))"

lemma publish_trees_returns:
  assumes "sync_returns V sync" and "records_proper (de_trees env) ds"
    and "made_trees (de_trees env) ds ts" and "V (ds_zone s)"
  shows "\<exists>r s'. publish_trees env sync outDir ts s = Some (r, s') \<and> V (ds_zone s')"
  using assms(3,4)
proof (induction ts arbitrary: s)
  case (Cons t ts)
  let ?out = "bt_output t"
  have "proper_records (out_Records ?out)" using Cons.prems(1) assms(2) by (auto simp: made_trees_def records_proper_def)
  then obtain n e z where y: "sync (out_Domain ?out) (out_Records ?out) (bt_retain t) (ds_zone s) = Some ((n, e), z)" "V z"
    using assms(1) Cons.prems(2) unfolding sync_returns_def by metis
  obtain e2 w where c: "emitArtifact (de_codec env) ?out outDir (out_Domain ?out @ publishedSuffix) (ds_artifacts s) = (e2, w)" by fastforce
  have "\<exists>r s'. publish_trees env sync outDir ts (s\<lparr>ds_zone := z, ds_artifacts := w\<rparr>) = Some (r, s') \<and> V (ds_zone s')"
    using Cons.IH Cons.prems(1) y(2) by (simp add: made_trees_def)
  then show ?case using y c by (cases e; cases e2) (auto simp: Let_def)
qed simp

definition cycle_ready :: "'t dns_env \<Rightarrow> 'z multiConfig \<Rightarrow> ('z \<Rightarrow> bool) \<Rightarrow> bool" where
  "cycle_ready env cfg V \<longleftrightarrow>
     records_proper (de_trees env) (tree_domains cfg) \<and>
     (\<forall>data rs. se_rows (de_snapshot env) data = Some rs \<longrightarrow> so_limit (mt_sel cfg) * int (length rs) < 2 ^ 53) \<and>
     (case mt_publisher cfg of None \<Rightarrow> True | Some sync \<Rightarrow> sync_returns V sync)"

lemma LoadNetworkRows_decoded:
  "LoadNetworkRows env m network w = (Inr rs, w') \<Longrightarrow> \<exists>data. se_rows env data = Some rs"
  by (auto simp: LoadNetworkRows_def split: option.splits prod.splits sum.splits)

lemma buildNetworkTrees_returns:
  assumes "cycle_ready env cfg V" and "se_rows (de_snapshot env) data = Some rs" and "network \<in> set (mt_networks cfg)"
  shows "\<exists>r w'. buildNetworkTrees env cfg rs network generatedAt evaluatedAt issued w = Some (r, w') \<and>
    (\<forall>ts. r = Inr (Inr ts) \<longrightarrow> made_trees (de_trees env) (tree_domains cfg) ts)"
proof -
  have "so_limit (mt_sel cfg) * int (length rs) < 2 ^ 53" using assms(1,2) unfolding cycle_ready_def by blast
  note s = selectable_ranked [OF this]
  show ?thesis unfolding buildNetworkTrees_def Let_def
    by (rule build_trees_returns [OF s selectable_ready [OF s] assms(3)]) simp
qed

lemma emit_trees_zone: "emit_trees env cfg ts s = (r, s') \<Longrightarrow> ds_zone s' = ds_zone s"
proof (induction ts arbitrary: s)
  case (Cons t ts)
  obtain e w where c: "emitArtifact (de_codec env) (bt_output t) (mt_outDir cfg) (out_Domain (bt_output t)) (ds_artifacts s) = (e, w)" by fastforce
  show ?case using Cons.prems Cons.IH c by (cases e) (fastforce simp: Let_def split: if_splits)+
qed simp

lemma network_loop_returns:
  assumes "cycle_ready env cfg V" and "set nets \<subseteq> set (mt_networks cfg)" and "V (ds_zone s)"
  shows "\<exists>r s'. network_loop env cfg m evaluatedAt nets s = Some (r, s') \<and> V (ds_zone s')"
  using assms(2,3)
proof (induction nets arbitrary: s)
  case (Cons net nets)
  have net: "net \<in> set (mt_networks cfg)" and IH: "\<And>s. V (ds_zone s) \<Longrightarrow> \<exists>r s'. network_loop env cfg m evaluatedAt nets s = Some (r, s') \<and> V (ds_zone s')"
    using Cons by auto
  obtain l w where l: "LoadNetworkRows (de_snapshot env) m net (ds_snapshots s) = (l, w)" by fastforce
  show ?case
  proof (cases l)
    case (Inl e)
    then show ?thesis using l IH [of "s\<lparr>ds_snapshots := w\<rparr>"] Cons.prems(2) by simp
  next
    case (Inr rs)
    obtain data where "se_rows (de_snapshot env) data = Some rs" using LoadNetworkRows_decoded l Inr by blast
    from buildNetworkTrees_returns [OF assms(1) this net] obtain b aw where
      b: "buildNetworkTrees env cfg rs net (mf_GeneratedAt m) evaluatedAt (ds_issued s) (ds_artifacts s) = Some (b, aw)"
      and made: "\<And>ts. b = Inr (Inr ts) \<Longrightarrow> made_trees (de_trees env) (tree_domains cfg) ts" by blast
    let ?s1 = "s\<lparr>ds_snapshots := w, ds_artifacts := aw\<rparr>"
    show ?thesis
    proof (cases "\<exists>ts. b = Inr (Inr ts)")
      case False
      then show ?thesis using l Inr b IH [of ?s1] Cons.prems(2) by (auto split: sum.splits)
    next
      case True
      then obtain ts where ts: "b = Inr (Inr ts)" by blast
      obtain e s2 where e: "emit_trees env cfg ts ?s1 = (e, s2)" by fastforce
      have z2: "V (ds_zone s2)" using emit_trees_zone [OF e] Cons.prems(2) by simp
      have "\<exists>pr s3. publishNetwork env cfg ts s2 = Some (pr, s3) \<and> V (ds_zone s3)"
        using assms(1) publish_trees_returns [where V = V and s = s2, OF _ _ made [OF ts] z2] z2
        by (cases "mt_publisher cfg") (auto simp: publishNetwork_def cycle_ready_def)
      then obtain pr s3 where "publishNetwork env cfg ts s2 = Some (pr, s3)" "V (ds_zone s3)" by blast
      then show ?thesis using l Inr b ts e z2 IH [of s3] by (cases e) auto
    qed
  qed
qed simp

lemma publish_cycle_returns:
  assumes "cycle_ready env cfg V" and "V (ds_zone s)"
  shows "\<exists>r s'. publish_cycle env cfg now evaluatedAt s = Some (r, s') \<and> V (ds_zone s')"
proof -
  obtain m w where m: "snapshot_Read (de_snapshot env) (ds_snapshots s) = (m, w)" by fastforce
  have "\<exists>r s'. network_loop env cfg mf evaluatedAt (mt_networks cfg) (s\<lparr>ds_snapshots := w\<rparr>) = Some (r, s') \<and> V (ds_zone s')" for mf
    by (rule network_loop_returns [OF assms(1)]) (simp_all add: assms(2))
  then show ?thesis using m assms(2) by (cases m) (simp_all add: publish_cycle_def)
qed

end
