(* ===== verification/Route53Props.thy ===== *)
theory Route53Props
  imports Route53
begin

text \<open>
  The properties of the Route53 publisher: every reconcile returns and leaves the zone in a state that
  \<open>sync_spec\<close> allows, a repeated one writes nothing, batches stay within the limits of the service, and
  the text written reads back. The witnesses run on a zone kept in memory.
\<close>

section \<open>A reconcile returns\<close>

text \<open>Time does not run backwards, the clock that is read is the clock of the service's state, and a
  timer that is not cancelled takes at least its duration.\<close>

definition r53_timed :: "'z route53DNS \<Rightarrow> 'z r53_model \<Rightarrow> bool" where
  "r53_timed c md \<longleftrightarrow> 0 < r_poll c \<and>
     (\<forall>z i r z'. r53_GetChange (r_api c) i z = (r, z') \<longrightarrow> md_clock md z \<le> md_clock md z') \<and>
     (\<forall>z t z'. r53_Now (r_api c) z = (t, z') \<longrightarrow> md_clock md z \<le> md_clock md z' \<and> t = md_clock md z') \<and>
     (\<forall>z d z'. r53_After (r_api c) d z = (False, z') \<longrightarrow> md_clock md z + d \<le> md_clock md z')"

lemma wait_change_returns:
  assumes "r53_timed c md"
  shows "\<exists>r. wait_change c deadline i z = Some r"
proof (induction "nat (deadline - md_clock md z)" arbitrary: z rule: less_induct)
  case less
  obtain r z1 where c1: "r53_GetChange (r_api c) i z = (r, z1)" by fastforce
  obtain t z2 where c2: "r53_Now (r_api c) z1 = (t, z2)" by fastforce
  obtain b z3 where c3: "r53_After (r_api c) (r_poll c) z2 = (b, z3)" by fastforce
  note tm = assms [unfolded r53_timed_def]
  have clock: "md_clock md z \<le> md_clock md z1" using tm c1 by blast
  have now: "md_clock md z1 \<le> md_clock md z2" "t = md_clock md z2" using tm c2 by blast+
  have after: "md_clock md z2 + r_poll c \<le> md_clock md z3" if "\<not> b"
  proof -
    have "r53_After (r_api c) (r_poll c) z2 = (False, z3)" using c3 that by simp
    then show ?thesis using tm by blast
  qed
  show ?case
  proof (cases "t < deadline \<and> \<not> b")
    case True
    then have "nat (deadline - md_clock md z3) < nat (deadline - md_clock md z)" using tm clock now after by linarith
    from less [OF this] show ?thesis using True by (subst wait_change.simps) (auto simp: c1 c2 c3 split: sum.splits)
  qed (subst wait_change.simps, auto simp: c1 c2 c3 split: sum.splits)
qed

lemma waitForSync_returns:
  assumes "r53_timed c md"
  shows "\<exists>e z'. waitForSync c ids z = Some (e, z')"
proof -
  have "\<exists>e z'. wait_ids c deadline ids z = Some (e, z')" for deadline ids z
  proof (induction ids arbitrary: z)
    case (Cons i ids)
    obtain e z1 where "wait_change c deadline i z = Some (e, z1)"
      using wait_change_returns [OF assms, of deadline i z] by auto
    then show ?case using Cons [of z1] by (cases e) simp_all
  qed simp
  then show ?thesis by (simp add: waitForSync_def split: prod.splits)
qed

lemma r53_Sync_returns:
  assumes "r53_documented c md" and "r53_timed c md" and "md_valid md z"
  shows "\<exists>n e z'. r53_Sync c domain want retain z = Some ((n, e), z')"
proof -
  obtain l z1 where l: "r53_existing c domain z = Some (l, z1)"
    using existing_loop_lists [OF assms(1,3), of "(None, [], None)" 0 "[]" domain]
    by (auto simp: r53_existing_def starts_at_def)
  have push: "\<exists>n e z'. r53_push c domain entries root stale z1 = Some ((n, e), z')" for entries root stale
  proof -
    obtain ids k e z2 where s: "r53_submit c entries (sync_note ''entries'' domain) z1 = ((ids, k, e), z2)" by (metis surj_pair)
    obtain e2 z3 where w: "waitForSync c ids z2 = Some (e2, z3)" using waitForSync_returns [OF assms(2)] by blast
    obtain n e3 z4 where f: "r53_finish c domain root stale k z3 = ((n, e3), z4)" by (metis surj_pair)
    show ?thesis by (cases e; cases e2) (simp_all add: r53_push_def s w f)
  qed
  show ?thesis using l push by (cases l) (simp_all add: r53_Sync_def Let_def)
qed

section \<open>A zone in memory\<close>

text \<open>The service as a map of record sets and a clock: one page lists everything, a batch that only
  uses normalized names is applied, and a change is in sync at once.\<close>

record mem_zone =
  mz_records :: "(string, r53RecordSet) gomap"
  mz_clock :: gotime

definition mem_set :: "string \<times> r53RecordSet \<Rightarrow> ResourceRecordSet" where
  "mem_set = (\<lambda>(k, r). \<lparr>rs_Name = Some k, rs_Type = ''TXT'', rs_TTL = Some (r53_ttl r), rs_Identifier = None,
     rs_Values = map Some (r53_values r)\<rparr>)"

definition mem_change :: "Change \<Rightarrow> (string, r53RecordSet) gomap \<Rightarrow> (string, r53RecordSet) gomap" where
  "mem_change c m =
     (case txt_set (ch_Set c) of
        None \<Rightarrow> m
      | Some (key, r) \<Rightarrow> (case ch_Action c of ActionDelete \<Rightarrow> AList.delete key m | _ \<Rightarrow> AList.update key r m))"

definition normal_change :: "Change \<Rightarrow> bool" where
  "normal_change c = (case txt_set (ch_Set c) of None \<Rightarrow> True | Some (key, r) \<Rightarrow> dnsKey key = key)"

definition mem_api :: "mem_zone route53API" where
  "mem_api = \<lparr>r53_List = (\<lambda>zone req n z. (if req = (None, [], None)
        then Inr \<lparr>lr_Sets = map mem_set (mz_records z), lr_IsTruncated = False, lr_Next = (None, [], None)\<rparr>
        else Inl (ApiError ''InvalidInput''), z)),
     r53_Change = (\<lambda>zone note b z. if list_all normal_change b
        then (Inr (Some ''C1''), z\<lparr>mz_records := fold mem_change b (mz_records z)\<rparr>)
        else (Inl (ApiError ''InvalidChangeBatch''), z)),
     r53_GetChange = (\<lambda>i z. (Inr (Some ''INSYNC''), z)),
     r53_Now = (\<lambda>z. (mz_clock z, z)),
     r53_After = (\<lambda>d z. (False, z\<lparr>mz_clock := mz_clock z + d\<rparr>))\<rparr>"

definition mem_model :: "mem_zone r53_model" where
  "mem_model = \<lparr>md_sets = (\<lambda>z. map mem_set (mz_records z)),
     md_valid = (\<lambda>z. distinct (map fst (mz_records z)) \<and> list_all (\<lambda>(k, r). dnsKey k = k) (mz_records z)),
     md_clock = mz_clock\<rparr>"

definition mem_client :: "mem_zone route53DNS" where
  "mem_client = newRoute53DNS mem_api ''Z1'' defaultTTLs"

lemma mem_txt: "list_all (\<lambda>(k, r). dnsKey k = k) m \<Longrightarrow> List.map_filter txt_set (map mem_set m) = m"
proof (induction m)
  case (Cons p m)
  have "List.map_filter (\<lambda>v. v) (map Some vs) = vs" for vs :: "string list"
    by (induction vs) (simp_all add: map_filter_simps)
  then show ?case using Cons by (cases p) (simp add: map_filter_simps mem_set_def txt_set_def)
qed (simp add: map_filter_simps)

lemma mem_change_map: "map_of (mem_change c m) = apply_change c (map_of m)"
  by (simp add: mem_change_def apply_change_def update_conv' delete_conv' split: option.splits ChangeAction.splits)

lemma mem_changes_map: "map_of (fold mem_change b m) = fold apply_change b (map_of m)"
  by (induction b arbitrary: m) (simp_all add: mem_change_map)

lemma mem_changes_valid:
  "list_all normal_change b \<Longrightarrow> distinct (map fst m) \<Longrightarrow> list_all (\<lambda>(k, r). dnsKey k = k) m \<Longrightarrow>
     distinct (map fst (fold mem_change b m)) \<and> list_all (\<lambda>(k, r). dnsKey k = k) (fold mem_change b m)"
proof (induction b arbitrary: m)
  case (Cons c b)
  have upd: "list_all (\<lambda>(k, r). dnsKey k = k) (AList.update key r m)" if "dnsKey key = key" for key r
    using Cons.prems(3) that by (induction m) auto
  have del: "list_all (\<lambda>(k, r). dnsKey k = k) (AList.delete key m)" for key
    using Cons.prems(3) by (induction m) (auto simp: delete_simps)
  have "distinct (map fst (mem_change c m)) \<and> list_all (\<lambda>(k, r). dnsKey k = k) (mem_change c m)"
    using Cons.prems upd del
    by (auto simp: mem_change_def normal_change_def distinct_update distinct_delete split: option.splits ChangeAction.splits)
  then show ?case using Cons by simp
qed simp

lemma mem_page:
  assumes "starts_at (map mem_set m) (None, [], None) k"
  shows "page_of (map mem_set m) k \<lparr>lr_Sets = map mem_set m, lr_IsTruncated = False, lr_Next = (None, [], None)\<rparr>"
proof -
  have "k = 0" using assms by (auto simp: starts_at_def set_cursor_def mem_set_def split: prod.splits)
  then show ?thesis by (auto simp: page_of_def intro: exI [of _ "length m"])
qed

lemma mem_documented: "r53_documented mem_client mem_model"
  unfolding r53_documented_def mem_client_def newRoute53DNS_def mem_api_def mem_model_def
  by (auto simp: mem_txt mem_changes_valid txt_map_def mem_changes_map mem_page split: if_splits)

lemma mem_timed: "r53_timed mem_client mem_model"
  by (auto simp: r53_timed_def mem_client_def newRoute53DNS_def mem_api_def mem_model_def route53SyncPoll_def second_def)


section \<open>Properties\<close>

text \<open>C7: A reconcile on a documented service returns, whatever fails, and leaves the zone as the
  specification allows: some of the entries written and the old root in place, or everything written and
  only records removed that are neither wanted nor retained.\<close>

theorem route53_sync_refines:
  assumes "r53_documented c md" and "r53_timed c md" and "md_valid md z" and "proper_records want"
  shows "\<exists>n e z'. r53_Sync c domain want retain z = Some ((n, e), z') \<and> md_valid md z' \<and>
    sync_spec (r_ttls c) domain want retain (r53_zone md z) (e = None) (r53_zone md z')"
  using r53_Sync_returns [OF assms(1-3), of domain want retain] r53_Sync_refines [OF assms(1,3,4)] by blast

definition mem_old :: mem_zone where
  "mem_old = \<lparr>mz_records = [(''t.x'', \<lparr>r53_values = [''old''], r53_ttl = 300\<rparr>), (''a.t.x'', \<lparr>r53_values = [''leaf''], r53_ttl = 3600\<rparr>)],
     mz_clock = 0\<rparr>"

definition mem_want :: txt_records where
  "mem_want = [(''T.x.'', ''new''), (''B.T.x'', ''enr:b'')]"

lemma mem_old_ok: "md_valid mem_model mem_old" "proper_records mem_want"
  by (simp_all add: mem_model_def mem_old_def mem_want_def proper_records_def dnsKey_def strings_ToLower_def lower_char_def
      strings_TrimSuffix_def has_suffix_def printable_def)

theorem route53_sync_refines_witness:
  "\<exists>n e z'. r53_Sync mem_client ''t.x'' mem_want None mem_old = Some ((n, e), z') \<and> md_valid mem_model z' \<and>
    sync_spec (r_ttls mem_client) ''t.x'' mem_want None (r53_zone mem_model mem_old) (e = None) (r53_zone mem_model z')"
  by (rule route53_sync_refines [OF mem_documented mem_timed mem_old_ok])

text \<open>C36: Changes are packed in order into batches within the limits of the service, where only a single
  change can exceed them, and no batch could have taken the first change of the next.\<close>

theorem batches_exact:
  "concat (splitChanges cs) = cs \<and> packed (splitChanges cs)"
  using splitChanges_packed by simp

text \<open>C37: Text is written as quoted strings of at most 253 bytes and reads back as it was, so an unchanged
  record is not written again.\<close>

theorem text_roundtrip:
  assumes "printable s"
  shows "normalizeTXT (splitTXT s) = s \<and> (\<exists>chunks. splitTXT s = concat (map strconv_Quote chunks) \<and> txt_chunks s chunks)"
  using assms splitTXT_chunks by simp

theorem text_roundtrip_witness:
  "normalizeTXT (splitTXT ''enr:-a \"b'') = ''enr:-a \"b''"
  using text_roundtrip [of "''enr:-a \"b''"] by (simp add: printable_def)

text \<open>A reconcile that repeats a successful one of records under the domain, with nothing to prune,
  changes nothing.\<close>

theorem resync_changes_nothing:
  assumes "r53_documented c md" and "md_valid md z" and "proper_records want"
    and "list_all (\<lambda>(name, _). under_domain domain (dnsKey name)) want"
    and "r53_Sync c domain want retain z = Some ((n, None), z1)"
    and "r53_Sync c domain want None z1 = Some ((m, e), z2)"
  shows "m = 0 \<and> r53_zone md z2 = r53_zone md z1"
proof -
  from r53_Sync_refines [OF assms(1,2,3,5)]
  have z1: "md_valid md z1" and "sync_spec (r_ttls c) domain want retain (r53_zone md z) True (r53_zone md z1)" by simp_all
  then have w: "settled (r_ttls c) domain want (r53_zone md z1)" by (rule_tac sync_spec_settled) (use assms(4) in simp_all)
  obtain l z' where l: "r53_existing c domain z1 = Some (l, z')"
    using assms(6) by (auto simp: r53_Sync_def split: option.splits)
  show ?thesis
  proof (cases l)
    case (Inl x)
    then show ?thesis using assms(6) l existing_loop_lists [OF assms(1) z1, of "(None, [], None)" 0 "[]" domain]
      by (auto simp: r53_Sync_def r53_existing_def starts_at_def r53_zone_def)
  next
    case (Inr existing)
    note ex = existing_plan [OF assms(1) z1 l [unfolded Inr]]
    have nil: "r53_submit c [] cm z' = (([], 0, None), z')" for cm by (simp add: r53_submit_def splitChanges_def)
    from assms(6) have "Some ((m, e), z2) = Some ((0, None), z')"
      unfolding r53_Sync_def l Inr option.case prod.case sum.case Let_def
      using plan_settled [OF ex(3) w] by (simp add: r53_push_def r53_finish_def waitForSync_def nil)
    then show ?thesis using ex(2) by (simp add: r53_zone_def)
  qed
qed

theorem resync_changes_nothing_witness:
  "\<exists>z1 m e z2. r53_Sync mem_client ''t.x'' mem_want None mem_old = Some ((2, None), z1) \<and>
     r53_Sync mem_client ''t.x'' mem_want None z1 = Some ((m, e), z2) \<and> m = 0 \<and> r53_zone mem_model z2 = r53_zone mem_model z1"
proof -
  have "map_option fst (r53_Sync mem_client ''t.x'' mem_want None mem_old) = Some (2, None)" by code_simp
  then obtain z1 where s1: "r53_Sync mem_client ''t.x'' mem_want None mem_old = Some ((2, None), z1)" by auto
  have u: "list_all (\<lambda>(name, _). under_domain ''t.x'' (dnsKey name)) mem_want" by code_simp
  have "md_valid mem_model z1" using r53_Sync_refines [OF mem_documented mem_old_ok s1] by simp
  then obtain m e z2 where s2: "r53_Sync mem_client ''t.x'' mem_want None z1 = Some ((m, e), z2)"
    using r53_Sync_returns [OF mem_documented mem_timed] by blast
  show ?thesis using s1 s2 resync_changes_nothing [OF mem_documented mem_old_ok u s1 s2] by blast
qed

end
