(* ===== verification/CloudflareProps.thy ===== *)
theory CloudflareProps
  imports Cloudflare
begin

text \<open>
  The Cloudflare publisher keeps the promise of a reconcile where each name of the domain has at most one
  TXT record. The witness runs on a zone in memory that applies batches as documented; on the same
  zone, a second record under a name of the domain is shown to outlast a successful reconcile.
\<close>

text \<open>C8: A reconcile returns, whatever fails, and leaves the zone as the specification allows, when the
  service behaves as documented, the records to publish are at or below the domain, and each name at or
  below it has at most one TXT record to begin with. Afterwards each still has at most one. Other names of
  the zone may have any number of records.\<close>

theorem cloudflare_sync_refines:
  assumes "cf_documented c md" and "cm_valid md z" and "proper_records want"
    and "list_all (\<lambda>(name, _). under_domain domain (dnsKey name)) want"
    and "one_per_name {name. under_domain domain name} (cm_records md z)"
  shows "\<exists>n e z'. cf_Sync c domain want retain z = Some ((n, e), z') \<and> cm_valid md z' \<and>
    one_per_name {name. under_domain domain name} (cm_records md z') \<and>
    sync_spec (c_ttls c) domain want retain (cf_zone md z) (e = None) (cf_zone md z')"
  using cf_Sync_returns [OF assms(1,2), of domain want retain] cf_Sync_refines [OF assms] assms(5) by blast

section \<open>A zone in memory\<close>

type_synonym cf_mem = "cfRecord list"

definition fresh_ids :: "cf_mem \<Rightarrow> nat \<Rightarrow> string list" where
  "fresh_ids z n = map (\<lambda>j. replicate (Suc (sum_list (map (length \<circ> cf_ID) z)) + j) CHR ''x'') [0..<n]"

definition cfm_valid :: "cf_mem \<Rightarrow> bool" where
  "cfm_valid z \<longleftrightarrow> distinct (map cf_ID z) \<and> length z \<le> 100"

definition cfm_answer :: "cf_mem \<Rightarrow> cf_mem cfEnvelope" where
  "cfm_answer rs = \<lparr>env_Success = True, env_Errors = [], env_Result = rs, env_TotalPages = 1\<rparr>"

definition cfm_batch :: "cfBatch \<Rightarrow> cf_mem \<Rightarrow> cf_mem" where
  "cfm_batch b z = cf_apply (fresh_ids z (length (cb_Posts b))) b z"

definition cfm_service :: "string \<Rightarrow> (cf_mem, cf_mem) cf_service" where
  "cfm_service first =
     \<lparr>cs_exchange = (\<lambda>verb path body z.
        case body of
          None \<Rightarrow> (Inr (if path = first then z else []), z)
        | Some b \<Rightarrow>
            if length (cfm_batch b z) \<le> 100 then (Inr [], cfm_batch b z) else (Inl (ApiError ''refused''), z)),
      cs_envelope = (\<lambda>rs. Some (cfm_answer rs)), cs_records = Some, cs_After = (\<lambda>d z. (False, z))\<rparr>"

definition cfm_client :: "(cf_mem, cf_mem) cloudflareDNS" where
  "cfm_client = newCloudflareDNS (cfm_service (''/zones/Z1/dns_records?type=TXT&per_page=100&page=1'')) ''Z1'' defaultTTLs"

definition cfm_model :: "cf_mem cf_model" where
  "cfm_model = \<lparr>cm_records = (\<lambda>z. z), cm_valid = cfm_valid\<rparr>"

lemma nat_dec_small: "nat_dec 1 = ''1''" "nat_dec 100 = ''100''"
  by (simp_all add: nat_dec.simps dec_digit_def)

lemma first_page: "cf_list_path cfm_client page = ''/zones/Z1/dns_records?type=TXT&per_page=100&page=1'' \<longleftrightarrow> page = 1"
proof -
  have "nat_dec page = ''1'' \<longleftrightarrow> page = 1" by (metis dec_value_nat_dec nat_dec_small(1) option.inject)
  then show ?thesis
    by (simp add: cf_list_path_def cfm_client_def newCloudflareDNS_def cloudflarePageSize_def nat_dec_small)
qed

lemma cf_apply_distinct:
  assumes "distinct (map cf_ID rs)" and "distinct ids" and "cf_ID ` set rs \<inter> set ids = {}" and "length ids = length (cb_Posts b)"
  shows "distinct (map cf_ID (cf_apply ids b rs))"
proof -
  have puts: "map cf_ID (fold (map \<circ> put_record) ps rs) = map cf_ID rs" for ps rs
  proof (induction ps arbitrary: rs)
    case (Cons p ps)
    from Cons [of "map (put_record p) rs"] put_ids [of p rs] show ?case by (simp add: comp_def)
  qed simp
  have posts: "map cf_ID (map2 (\<lambda>i p. p\<lparr>cf_ID := i\<rparr>) ids ps) = ids" if "length ids = length ps" for ids and ps :: "cfRecord list"
    using that by (induction ids ps rule: list_induct2) simp_all
  have "map cf_ID (cf_apply ids b rs) = map cf_ID (filter (\<lambda>r. cf_ID r \<notin> cf_ID ` set (cb_Deletes b)) rs) @ ids"
    unfolding cf_apply_def map_append puts posts [OF assms(4)] ..
  then show ?thesis using assms(1-3) by (auto simp: distinct_map_filter)
qed

lemma fresh_ids_ok:
  "distinct (fresh_ids z n)" "cf_ID ` set z \<inter> set (fresh_ids z n) = {}" "length (fresh_ids z n) = n"
proof -
  show "distinct (fresh_ids z n)" by (auto simp: fresh_ids_def distinct_map inj_on_def dest: arg_cong [where f = length])
  show "length (fresh_ids z n) = n" by (simp add: fresh_ids_def)
  have "length (cf_ID r) \<le> sum_list (map (length \<circ> cf_ID) z)" if "r \<in> set z" for r
    using member_le_sum_list [of "length (cf_ID r)" "map (length \<circ> cf_ID) z"] that by force
  then have "cf_ID r \<noteq> replicate (Suc (sum_list (map (length \<circ> cf_ID) z)) + j) CHR ''x''" if "r \<in> set z" for r j
    using that by (metis Suc_n_not_le_n add_Suc length_replicate le_add1 le_trans not_less_eq_eq)
  then show "cf_ID ` set z \<inter> set (fresh_ids z n) = {}" unfolding fresh_ids_def by auto
qed

lemma cfm_do:
  "cf_do cfm_client verb path body z =
     (case body of
        None \<Rightarrow> (Inr (cfm_answer (if path = ''/zones/Z1/dns_records?type=TXT&per_page=100&page=1'' then z else [])), z)
      | Some b \<Rightarrow>
          if length (cfm_batch b z) \<le> 100 then (Inr (cfm_answer []), cfm_batch b z) else (Inl (ApiError ''refused''), z))"
  by (simp add: cf_do_def cfm_client_def newCloudflareDNS_def cfm_service_def cfm_answer_def split: option.splits)

lemma cfm_records: "cs_records (c_http cfm_client) = Some"
  by (simp add: cfm_client_def newCloudflareDNS_def cfm_service_def)

lemma cfm_documented: "cf_documented cfm_client cfm_model"
  unfolding cf_documented_def
proof (intro conjI allI impI)
  fix z assume "cm_valid cfm_model z"
  then show "distinct (map cf_ID (cm_records cfm_model z))" by (simp add: cfm_model_def cfm_valid_def)
next
  fix z page r z'
  assume "cm_valid cfm_model z \<and> 0 < page \<and> cf_do cfm_client ''GET'' (cf_list_path cfm_client page) None z = (r, z')"
  then show "cm_valid cfm_model z'" "cm_records cfm_model z' = cm_records cfm_model z"
    by (auto simp: cfm_do cfm_model_def)
next
  fix z page r z' env
  assume "cm_valid cfm_model z \<and> 0 < page \<and> cf_do cfm_client ''GET'' (cf_list_path cfm_client page) None z = (r, z')"
    and "r = Inr env"
  then show "cs_records (c_http cfm_client) (env_Result env) =
      Some (take cloudflarePageSize (drop (cloudflarePageSize * (page - 1)) (cm_records cfm_model z)))"
    "env_TotalPages env \<le> int page \<longleftrightarrow> length (cm_records cfm_model z) \<le> cloudflarePageSize * page"
    by (auto simp: cfm_do first_page cfm_model_def cfm_valid_def cfm_answer_def cloudflarePageSize_def cfm_records)
next
  fix z b r z'
  assume a: "cm_valid cfm_model z \<and> cf_do cfm_client ''POST'' (cf_batch_path cfm_client) (Some b) z = (r, z')"
  then have v: "distinct (map cf_ID z)" "length z \<le> 100" by (simp_all add: cfm_model_def cfm_valid_def)
  have d: "distinct (map cf_ID (cfm_batch b z))"
    unfolding cfm_batch_def by (rule cf_apply_distinct [OF v(1) fresh_ids_ok(1,2,3)])
  have z': "z' = cfm_batch b z \<and> length z' \<le> 100 \<or> z' = z \<and> (\<exists>e. r = Inl e)"
    using a by (auto simp: cfm_do split: if_splits)
  then show "cm_valid cfm_model z'" using v d by (auto simp: cfm_model_def cfm_valid_def)
  from z' show "(\<exists>ids. length ids = length (cb_Posts b) \<and>
        mset (map cf_entry (cm_records cfm_model z')) = mset (map cf_entry (cf_apply ids b (cm_records cfm_model z)))) \<or>
      (\<exists>e. r = Inl e) \<and> mset (map cf_entry (cm_records cfm_model z')) = mset (map cf_entry (cm_records cfm_model z))"
  proof (elim disjE conjE)
    assume "z' = cfm_batch b z"
    then show ?thesis using fresh_ids_ok(3) [of z "length (cb_Posts b)"] by (auto simp: cfm_model_def cfm_batch_def)
  qed simp
next
  fix z d b z'
  assume "cm_valid cfm_model z \<and> cs_After (c_http cfm_client) d z = (b, z')"
  then show "cm_valid cfm_model z'" "cm_records cfm_model z' = cm_records cfm_model z"
    by (auto simp: cfm_client_def newCloudflareDNS_def cfm_service_def)
qed

lemma one_per_nameI:
  assumes "distinct (map (dnsKey \<circ> cf_Name) (filter (P \<circ> dnsKey \<circ> cf_Name) rs))"
  shows "one_per_name (Collect P) rs"
  unfolding one_per_name_def
proof
  fix n assume n: "n \<in> Collect P"
  show "size (at_name n rs) \<le> 1"
    using assms
  proof (induction rs)
    case (Cons r rs)
    have "at_name n rs = {#}" if "dnsKey (cf_Name r) = n"
    proof (rule ccontr)
      assume "at_name n rs \<noteq> {#}"
      then obtain e where "e \<in># at_name n rs" by (meson multiset_nonemptyE)
      then obtain s where "s \<in> set rs" "dnsKey (cf_Name s) = n" by (rule at_nameD)
      then show False using Cons.prems that n by (auto simp: image_iff)
    qed
    moreover have "size (at_name n rs) \<le> 1" using Cons by (simp split: if_splits)
    ultimately show ?case by simp
  qed simp
qed

text \<open>A zone with two records at its apex, an outdated root and an entry that is no longer wanted.\<close>

definition txt_record :: "string \<Rightarrow> string \<Rightarrow> string \<Rightarrow> cfRecord" where
  "txt_record i name content = \<lparr>cf_ID = i, cf_Type = ''TXT'', cf_Name = name, cf_Content = content, cf_TTL = 300\<rparr>"

definition cfm_zone :: cf_mem where
  "cfm_zone = [txt_record ''1'' ''x'' ''spf'', txt_record ''2'' ''X'' ''verify'', txt_record ''3'' ''t.x'' ''old'',
     txt_record ''4'' ''A.t.x'' ''enr:a'']"

definition cfm_want :: txt_records where
  "cfm_want = [(''T.x.'', ''root''), (''B.T.x'', ''enr:b'')]"

theorem cloudflare_sync_refines_witness:
  "\<exists>n z'. cf_Sync cfm_client ''t.x'' cfm_want (Some []) cfm_zone = Some ((n, None), z') \<and> cm_valid cfm_model z' \<and>
    sync_spec (c_ttls cfm_client) ''t.x'' cfm_want (Some []) (cf_zone cfm_model cfm_zone) True (cf_zone cfm_model z')"
proof -
  have "proper_records cfm_want" by code_simp
  moreover have "cm_valid cfm_model cfm_zone" by code_simp
  moreover have "list_all (\<lambda>(name, _). under_domain ''t.x'' (dnsKey name)) cfm_want" by code_simp
  moreover have "distinct (map (dnsKey \<circ> cf_Name) (filter (under_domain ''t.x'' \<circ> dnsKey \<circ> cf_Name) (cm_records cfm_model cfm_zone)))"
    by code_simp
  moreover have "map_option (snd \<circ> fst) (cf_Sync cfm_client ''t.x'' cfm_want (Some []) cfm_zone) = Some None" by code_simp
  ultimately show ?thesis
    using cloudflare_sync_refines [OF cfm_documented _ _ _ one_per_nameI, of cfm_zone cfm_want "''t.x''" "Some []"] by auto
qed

text \<open>What the condition on the names excludes: the listing keeps one record per name, so an older root
  beside the wanted one is not seen, and the reconcile reports success with nothing to change.\<close>

lemma duplicate_root_left:
  fixes z :: cf_mem
  defines "z \<equiv> [txt_record ''1'' ''t.x'' ''old'', txt_record ''2'' ''t.x'' ''root'']"
  shows "cf_Sync cfm_client ''t.x'' [(''t.x'', ''root'')] (Some []) z = Some ((0, None), z)"
  unfolding z_def by code_simp

end
