(* ===== verification/DnsProps.thy ===== *)
theory DnsProps
  imports DnsZone DnsCycle Route53Props CloudflareProps ManifestProps "HOL-Library.Countable"
begin

text \<open>
  The properties of the DNS publisher as a whole: its cycles return, the sequences of its artifacts grow
  and the zone keeps serving its trees, whatever fails along a run. The witnesses run a cycle of a
  publisher with one network on zones kept in memory.
\<close>

section \<open>A publisher of one network\<close>

definition demo_trees :: "u64 treelib" where
  "demo_trees = \<lparr>tl_MakeTree = (\<lambda>seq nodes. Some seq), tl_Sign = (\<lambda>t d. Some (''enrtree://K@'' @ d, t)),
     tl_ToTXT = (\<lambda>t d. [(d, ''enrtree-root:v1''), (''FDXN.'' @ d, ''enrtree-branch:'')]), tl_Signature = (\<lambda>_. ''S''),
     tl_ParseURL = (\<lambda>_. True), tl_ID = (\<lambda>n. hex_EncodeToString (en_ID n)), tl_String = en_URLv4\<rparr>"

definition demo_artifact :: artifact where
  "demo_artifact = \<lparr>out_SchemaVersion = 1, out_URL = ''enrtree://K@all.sample.x'', out_Domain = ''all.sample.x'', out_Network = ''sample'',
     out_Capability = ''all'', out_Nodes = 1, out_Seq = 1000, out_Records = tl_ToTXT demo_trees 1000 ''all.sample.x''\<rparr>"

text \<open>A codec of artifacts: the length of the text is the number of the artifact.\<close>

definition artifact_fields :: "artifact \<Rightarrow> int \<times> string \<times> string \<times> string \<times> string \<times> int \<times> int \<times> txt_records" where
  "artifact_fields a = (out_SchemaVersion a, out_URL a, out_Domain a, out_Network a, out_Capability a, out_Nodes a, uint (out_Seq a), out_Records a)"

definition fields_artifact :: "int \<times> string \<times> string \<times> string \<times> string \<times> int \<times> int \<times> txt_records \<Rightarrow> artifact" where
  "fields_artifact = (\<lambda>(v, u, d, n, c, k, s, r). \<lparr>out_SchemaVersion = v, out_URL = u, out_Domain = d, out_Network = n,
     out_Capability = c, out_Nodes = k, out_Seq = word_of_int s, out_Records = r\<rparr>)"

definition demo_codec :: artifact_codec where
  "demo_codec = \<lparr>ac_encode = (\<lambda>a. Some (replicate (to_nat (artifact_fields a)) 0)),
     ac_decode = (\<lambda>b. Some (fields_artifact (from_nat (length b))))\<rparr>"

lemma demo_codec_roundtrip: "codec_roundtrip demo_codec"
  by (auto simp: codec_roundtrip_def demo_codec_def fields_artifact_def artifact_fields_def)

definition demo_manifest :: Manifest where
  "demo_manifest = (sample_manifest (unix_time 1700000000))\<lparr>mf_Networks :=
     [(''sample'', \<lparr>ns_GenerationKey = GenerationKey sample_layout ''sample'' (unix_time 1700000000), ns_NodeCount = 1,
        ns_CurrentNodeCount = 1, ns_SHA256 = hex_EncodeToString (sha256_Sum256 [1]), ns_Bytes = 1\<rparr>)]\<rparr>"

definition demo_env :: "u64 dns_env" where
  "demo_env = \<lparr>de_snapshot = \<lparr>se_codec = \<lparr>mc_encode = (\<lambda>_. Some [1]), mc_decode = (\<lambda>_. Some demo_manifest)\<rparr>,
        se_url = (\<lambda>_. Some (''https'', ''h'')), se_layout = sample_layout, se_parquet = (\<lambda>_. Some [1]),
        se_rows = (\<lambda>_. Some [sample_row ''a'' ''Geth''])\<rparr>,
     de_lib = sample_lib\<lparr>lib_has := (\<lambda>_ _. True)\<rparr>, de_trees = demo_trees, de_codec = demo_codec, de_registry = [el_network]\<rparr>"

definition demo_cfg ::
  "(string \<Rightarrow> txt_records \<Rightarrow> txt_records option \<Rightarrow> 'z \<Rightarrow> ((nat \<times> syncError option) \<times> 'z) option) \<Rightarrow> 'z multiConfig"
where
  "demo_cfg sync = \<lparr>mt_networks = [''sample''], mt_baseDomain = ''x'', mt_outDir = ''out'', mt_sel = sample_opts, mt_publishEvery = hour,
     mt_maxSnapshotAge = 0, mt_minTreeNodes = 1, mt_maxDropPct = 50, mt_validate = True, mt_publisher = Some sync\<rparr>"

definition demo_state :: "'z \<Rightarrow> 'z dns_state" where
  "demo_state z = \<lparr>ds_issued = (\<lambda>_. 0),
     ds_artifacts = \<lparr>w_objects = map (\<lambda>name. (name, the (ac_encode demo_codec demo_artifact)))
        [''all.sample.x.json'', ''all.sample.x.published.json''], w_script = []\<rparr>,
     ds_snapshots = \<lparr>w_objects = [(ManifestKey sample_layout, [1]),
        (GenerationKey sample_layout ''sample'' (unix_time 1700000000), [1])], w_script = []\<rparr>,
     ds_zone = z\<rparr>"

lemma demo_domains: "tree_domains (demo_cfg sync) = {''all.sample.x'', ''snap.sample.x''}"
  by (auto simp: tree_domains_def demo_cfg_def tree_domain_def)

lemma demo_publishable: "publishable (demo_cfg sync)"
  by (simp add: publishable_def demo_cfg_def flat_name_def validateDomain_def has_suffix_def label_char_def)

lemma demo_eip1459: "eip1459 demo_trees (tree_domains (demo_cfg sync))"
  by (auto simp: eip1459_def demo_domains demo_trees_def has_root_def wanted_records_def proper_records_def dnsKey_def strings_ToLower_def
      lower_char_def strings_TrimSuffix_def has_suffix_def printable_def under_domain_def trees_agree_def)

lemma demo_stored:
  "stored demo_codec (ds_artifacts (demo_state z)) ''all.sample.x'' = Some demo_artifact"
  "stored demo_codec (ds_artifacts (demo_state z)) (''all.sample.x'' @ publishedSuffix) = Some demo_artifact"
  "stored demo_codec (ds_artifacts (demo_state z)) (''snap.sample.x'' @ publishedSuffix) = None"
proof -
  have "Option.bind (ac_encode demo_codec demo_artifact) (ac_decode demo_codec) = Some demo_artifact"
    using demo_codec_roundtrip by (simp add: codec_roundtrip_def demo_codec_def)
  then show "stored demo_codec (ds_artifacts (demo_state z)) ''all.sample.x'' = Some demo_artifact"
    "stored demo_codec (ds_artifacts (demo_state z)) (''all.sample.x'' @ publishedSuffix) = Some demo_artifact"
    "stored demo_codec (ds_artifacts (demo_state z)) (''snap.sample.x'' @ publishedSuffix) = None"
    by (simp_all add: stored_def demo_state_def object_def artifact_key_def publishedSuffix_def demo_codec_def)
qed

lemma demo_issued: "issued_ok ac ds (demo_state z)"
  by (simp add: issued_ok_def demo_state_def undisturbed_def)

lemma demo_env_simps [simp]:
  "de_codec demo_env = demo_codec" "de_trees demo_env = demo_trees" "mt_publisher (demo_cfg sync) = Some sync" "ds_zone (demo_state z) = z"
  by (simp_all add: demo_env_def demo_cfg_def demo_state_def)
lemma demo_served:
  assumes "v ''all.sample.x'' = Some (''enrtree-root:v1'', t1)" and "v ''fdxn.all.sample.x'' = Some (''enrtree-branch:'', t2)"
  shows "zone_ok demo_env (demo_cfg sync) (ds_artifacts (demo_state z)) v"
proof -
  have "wanted_records (tl_ToTXT demo_trees T ''all.sample.x'') = [(''all.sample.x'', ''enrtree-root:v1''), (''fdxn.all.sample.x'', ''enrtree-branch:'')]" for T
    by code_simp
  moreover have "dnsKey ''all.sample.x'' = ''all.sample.x''"
    by (simp add: dnsKey_def strings_ToLower_def lower_char_def strings_TrimSuffix_def has_suffix_def)
  ultimately have "serves_tree ''all.sample.x'' (tl_ToTXT demo_trees T ''all.sample.x'') v" for T
    using assms by (simp add: serves_tree_def holds_entries_def)
  moreover have "out_Records demo_artifact = tl_ToTXT demo_trees 1000 ''all.sample.x''" by (simp add: demo_artifact_def)
  ultimately have "domain_served demo_env ''all.sample.x'' (ds_artifacts (demo_state z)) v"
    unfolding domain_served_def demo_env_simps demo_stored(2) by (auto simp: serves_tree_def)
  moreover have "domain_served demo_env ''snap.sample.x'' (ds_artifacts (demo_state z)) v"
    unfolding domain_served_def demo_env_simps demo_stored(3) by simp
  ultimately show ?thesis by (simp add: zone_ok_def demo_domains)
qed

definition demo_zone :: mem_zone where
  "demo_zone = \<lparr>mz_records = [(''all.sample.x'', \<lparr>r53_values = [''enrtree-root:v1''], r53_ttl = 300\<rparr>),
     (''fdxn.all.sample.x'', \<lparr>r53_values = [''enrtree-branch:''], r53_ttl = 3600\<rparr>)], mz_clock = 0\<rparr>"

definition demo_records :: cf_mem where
  "demo_records = [txt_record ''1'' ''x'' ''spf'', txt_record ''2'' ''x'' ''verify'', txt_record ''3'' ''all.sample.x'' ''enrtree-root:v1'',
     txt_record ''4'' ''FDXN.all.sample.x'' ''enrtree-branch:'']"

lemma demo_zone_valid: "md_valid mem_model demo_zone"
  by (simp add: mem_model_def demo_zone_def dnsKey_def strings_ToLower_def lower_char_def strings_TrimSuffix_def has_suffix_def)

lemma demo_zone_ok: "zone_ok demo_env (demo_cfg sync) (ds_artifacts (demo_state z)) (r53_zone mem_model demo_zone)"
proof (rule demo_served)
  have "List.map_filter txt_set (md_sets mem_model demo_zone) = mz_records demo_zone"
    using demo_zone_valid mem_txt [of "mz_records demo_zone"] by (simp add: mem_model_def)
  then show "r53_zone mem_model demo_zone ''all.sample.x'' = Some (''enrtree-root:v1'', 300)"
    "r53_zone mem_model demo_zone ''fdxn.all.sample.x'' = Some (''enrtree-branch:'', 3600)"
    by (simp_all add: r53_zone_def reading_map_def txt_map_def demo_zone_def r53_reading_def normalizeTXT_def)
qed

lemma demo_records_valid: "cm_valid cfm_model demo_records"
  by code_simp

lemma demo_records_single: "one_per_name (managed (tree_domains (demo_cfg sync))) (cm_records cfm_model demo_records)"
proof -
  let ?P = "\<lambda>name. under_domain ''all.sample.x'' name \<or> under_domain ''snap.sample.x'' name"
  have "distinct (map (dnsKey \<circ> cf_Name) (filter (?P \<circ> dnsKey \<circ> cf_Name) (cm_records cfm_model demo_records)))" by code_simp
  then have "one_per_name (Collect ?P) (cm_records cfm_model demo_records)" by (rule one_per_nameI)
  moreover have "managed (tree_domains (demo_cfg sync)) = Collect ?P" unfolding managed_def demo_domains by blast
  ultimately show ?thesis by (simp only:)
qed

lemma demo_records_ok: "zone_ok demo_env (demo_cfg sync) (ds_artifacts (demo_state z)) (cf_zone cfm_model demo_records)"
  by (rule demo_served [of _ 300 300]; code_simp)

lemma r53_returns: "r53_documented c md \<Longrightarrow> r53_timed c md \<Longrightarrow> sync_returns (md_valid md) (r53_Sync c)"
  unfolding sync_returns_def using r53_Sync_returns r53_Sync_refines by metis

lemma cf_returns: "cf_documented c md \<Longrightarrow> sync_returns (cm_valid md) (cf_Sync c)"
  unfolding sync_returns_def by (intro allI impI, elim conjE) (use cf_Sync_returns [of c md] cf_Sync_valid [of c md] in blast)

lemma cycle_readyI:
  assumes "eip1459 (de_trees env) (tree_domains cfg)"
    and "\<forall>data rs. se_rows (de_snapshot env) data = Some rs \<longrightarrow> so_limit (mt_sel cfg) * int (length rs) < 2 ^ 53"
    and "mt_publisher cfg = Some sync" and "sync_returns V sync"
  shows "cycle_ready env cfg V"
  using assms eip1459D(2) [OF assms(1)] by (simp add: cycle_ready_def records_proper_def)

text \<open>A cycle of the demonstration is a run.\<close>

lemma demo_run:
  assumes "sync_returns V sync" and "V z"
  shows "\<exists>r s'. publish_cycle demo_env (demo_cfg sync) sample_time sample_time (demo_state z) = Some (r, s') \<and>
     dns_run demo_env (demo_cfg sync) (demo_state z) s'"
proof -
  have "cycle_ready demo_env (demo_cfg sync) V"
    by (rule cycle_readyI [where sync = sync])
      (simp_all add: demo_eip1459 assms(1), simp_all add: demo_cfg_def sample_opts_def demo_env_def)
  moreover have "V (ds_zone (demo_state z))" using assms(2) by simp
  ultimately show ?thesis using publish_cycle_returns a_cycle r_into_rtranclp by metis
qed

section \<open>Accepted options\<close>

lemma network_list_names:
  assumes "ParseNetworkList_loop reg raws out = Inr nets" and "distinct out" and "set out \<subseteq> set (Names reg)"
  shows "distinct nets \<and> set nets \<subseteq> set (Names reg)"
  using assms
proof (induction raws arbitrary: out)
  case (Cons raw raws)
  have "name \<in> set (Names reg)" if "Get reg name = Inr n" for name n
    using that by (auto simp: Get_def Names_def find_Some_iff split: option.splits)
  then show ?case using Cons
    by (cases "Get reg (strings_TrimSpace raw)") (auto simp: Let_def split: if_splits)
qed (simp split: if_splits)

lemma validateTTLs_range:
  assumes "validateTTLs entry rt cloudflare = Inr ttls"
  shows "1 \<le> ttl_entry ttls \<and> ttl_entry ttls \<le> 2147483647 \<and> 1 \<le> ttl_root ttls \<and> ttl_root ttls \<le> 2147483647 \<and>
    ttl_root ttls * second = rt"
proof -
  have one: "1 \<le> v \<and> v \<le> 2147483647 \<and> v * second = d" if "validate_ttl cloudflare name d = Inr v" for name d v
  proof -
    from that have v: "\<not> d < second" "d mod second = 0" "\<not> 2147483647 < d div second" "v = d div second"
      by (auto simp: validate_ttl_def split: if_splits)
    have "d = v * second" using v(2,4) by (metis div_mult_mod_eq add_0_right)
    moreover have "0 < second" by (simp add: second_def)
    ultimately show ?thesis using v by (auto simp: not_less)
  qed
  obtain e r where "validate_ttl cloudflare ''--entry-ttl'' entry = Inr e" "validate_ttl cloudflare ''--root-ttl'' rt = Inr r"
      "ttls = \<lparr>ttl_entry = e, ttl_root = r\<rparr>"
    using assms by (cases "validate_ttl cloudflare ''--entry-ttl'' entry"; cases "validate_ttl cloudflare ''--root-ttl'' rt")
      (auto simp: validateTTLs_def)
  then show ?thesis using one by fastforce
qed

lemma validate_flags_checks:
  assumes "validate_flags f = Inr ttls"
  shows "validateDomain (fg_baseDomain f) = None" and "0 < fg_publishEvery f \<Longrightarrow> fg_outDir f \<noteq> []"
    and "fg_cfZone f \<noteq> [] \<or> fg_r53Zone f \<noteq> [] \<Longrightarrow> 0 < fg_publishEvery f \<Longrightarrow>
      minPublishInterval \<le> fg_publishEvery f \<and> fg_rootTTL f \<le> fg_publishEvery f"
    and "validateTTLs (fg_entryTTL f) (fg_rootTTL f) (fg_cfZone f \<noteq> []) = Inr ttls"
  using assms by (auto simp: validate_flags_def Let_def not_less split: option.splits if_splits sum.splits)

section \<open>Properties\<close>

text \<open>C35: Options that are accepted for recurring publication, with a list of networks of a registry whose
  names are labels, give a configuration whose domains stay apart and whose artifacts are kept, with
  lifetimes in the range of DNS, and when a zone is published to, the interval outlasts the root.\<close>

theorem accepted_options_publishable:
  assumes "validate_flags f = Inr ttls" and "0 < fg_publishEvery f" and "ParseNetworkList reg csv = Inr nets"
    and "list_all flat_name (Names reg)" and "inj_on strings_ToLower (set (Names reg))"
  shows "publishable (multi_config f nets validate publisher) \<and>
    1 \<le> ttl_entry ttls \<and> ttl_entry ttls \<le> 2147483647 \<and> 1 \<le> ttl_root ttls \<and> ttl_root ttls \<le> 2147483647 \<and>
    (fg_cfZone f \<noteq> [] \<or> fg_r53Zone f \<noteq> [] \<longrightarrow> 30 * minute \<le> fg_publishEvery f \<and> ttl_root ttls * second \<le> fg_publishEvery f)"
proof -
  have nets: "distinct nets" "set nets \<subseteq> set (Names reg)"
    using network_list_names [of reg _ "[]"] assms(3) by (simp_all add: ParseNetworkList_def)
  have "inj_on strings_ToLower (set nets)" using assms(5) nets(2) by (rule inj_on_subset)
  then have "publishable (multi_config f nets validate publisher)"
    using nets assms(4) validate_flags_checks(1,2) [OF assms(1)] assms(2)
    by (auto simp: publishable_def multi_config_def distinct_map list_all_iff)
  then show ?thesis
    using validateTTLs_range [OF validate_flags_checks(4) [OF assms(1)]] validate_flags_checks(3) [OF assms(1) _ assms(2)]
    by (auto simp: minPublishInterval_def)
qed

definition demo_flags :: dns_flags where
  "demo_flags = \<lparr>fg_baseDomain = ''x'', fg_sel = sample_opts, fg_publishEvery = 6 * hour, fg_maxSnapAge = hour, fg_minTreeNodes = 50,
     fg_maxDropPct = 50, fg_outDir = ''out'', fg_cfZone = [], fg_cfTokenFile = [], fg_r53Zone = ''Z1'', fg_r53CredsFile = ''c'',
     fg_r53Region = ''us-east-1'', fg_entryTTL = 3600 * second, fg_rootTTL = 300 * second, fg_git = [[], [], [], []],
     fg_gitBranch = [], fg_gitName = [], fg_gitEmail = []\<rparr>"

theorem accepted_options_publishable_witness:
  "publishable (multi_config demo_flags [''sample''] True (Some (r53_Sync mem_client))) \<and> 30 * minute \<le> fg_publishEvery demo_flags"
proof -
  have "validate_flags demo_flags = Inr defaultTTLs" by code_simp
  moreover have "ParseNetworkList [el_network] '' sample'' = Inr [''sample'']" by code_simp
  ultimately show ?thesis
    using accepted_options_publishable [of demo_flags defaultTTLs "[el_network]" "'' sample''" "[''sample'']" True "Some (r53_Sync mem_client)"]
    by (auto simp: demo_flags_def hour_def minute_def second_def Names_def el_network_def sample_network_def flat_name_def)
qed

text \<open>C34: A cycle that publishes through Route53 returns, whatever fails along it, and leaves the service
  in a valid state. The products of the counts stay exact in a double.\<close>

theorem route53_cycle_returns:
  assumes "r53_documented c md" and "r53_timed c md" and "mt_publisher cfg = Some (r53_Sync c)"
    and "eip1459 (de_trees env) (tree_domains cfg)"
    and "\<forall>data rs. se_rows (de_snapshot env) data = Some rs \<longrightarrow> so_limit (mt_sel cfg) * int (length rs) < 2 ^ 53"
    and "md_valid md (ds_zone s)"
  shows "\<exists>r s'. publish_cycle env cfg now evaluatedAt s = Some (r, s') \<and> md_valid md (ds_zone s')"
  by (rule publish_cycle_returns [OF cycle_readyI [OF assms(4,5,3) r53_returns [OF assms(1,2)]] assms(6)])

theorem route53_cycle_returns_witness:
  "\<exists>r s'. publish_cycle demo_env (demo_cfg (r53_Sync mem_client)) sample_time sample_time (demo_state demo_zone) = Some (r, s') \<and>
     md_valid mem_model (ds_zone s')"
  by (rule route53_cycle_returns [OF mem_documented mem_timed])
    (simp_all add: demo_eip1459 demo_zone_valid, simp_all add: demo_cfg_def sample_opts_def demo_env_def)

text \<open>C9: Along any run of cycles, failures and restarts, the artifact of a domain is only ever replaced
  by one of a strictly higher sequence, so a resolver notices every replacement.\<close>

theorem artifact_sequence_grows:
  assumes "publishable cfg" and "codec_roundtrip (de_codec env)" and "issued_ok (de_codec env) (tree_domains cfg) s"
    and "dns_run env cfg s s'" and "d \<in> tree_domains cfg" and "stored (de_codec env) (ds_artifacts s) d = Some a"
  shows "\<exists>a'. stored (de_codec env) (ds_artifacts s') d = Some a' \<and> (a' = a \<or> out_Seq a < out_Seq a')"
proof -
  let ?I = "\<lambda>s'. issued_ok (de_codec env) (tree_domains cfg) s' \<and> grown (de_codec env) d (ds_artifacts s) (ds_artifacts s')"
  have "?I s'"
  proof (rule dns_run_keeps [where I = ?I, OF assms(1,2) _ _ _ assms(4)])
    fix s1 s2 assume "?I s1" "offline env cfg s1 s2"
    then show "?I s2" using grown_trans assms(5) by (auto simp: offline_def)
  next
    fix s1 ts sync r s2 assume a: "?I s1" "pushable env cfg ts (ds_artifacts s1)" "publish_trees env sync (mt_outDir cfg) ts s1 = Some (r, s2)"
    then have "(out_Domain \<circ> bt_output) ` set ts \<subseteq> tree_domains cfg" by (auto simp: pushable_def list_all_iff Let_def)
    note disk = publish_trees_disk [OF assms(1,2) a(3) _ this]
    have "stored (de_codec env) (ds_artifacts s2) d' = stored (de_codec env) (ds_artifacts s1) d'" if "d' \<in> tree_domains cfg" for d'
      using disk a(1) that by (intro stored_same) (simp add: issued_ok_def)
    then show "?I s2" using disk a(1) assms(5) by (simp add: issued_ok_def grown_def)
  qed (use assms(3) in simp_all)
  then show ?thesis using assms(6) by (simp add: grown_def)
qed

theorem artifact_sequence_grows_witness:
  "\<exists>r s' a'. publish_cycle demo_env (demo_cfg (r53_Sync mem_client)) sample_time sample_time (demo_state demo_zone) = Some (r, s') \<and>
     stored demo_codec (ds_artifacts s') ''all.sample.x'' = Some a' \<and> (a' = demo_artifact \<or> 1000 < out_Seq a')"
proof -
  obtain r s' where c: "publish_cycle demo_env (demo_cfg (r53_Sync mem_client)) sample_time sample_time (demo_state demo_zone) = Some (r, s')"
      "dns_run demo_env (demo_cfg (r53_Sync mem_client)) (demo_state demo_zone) s'"
    using demo_run [OF r53_returns [OF mem_documented mem_timed] demo_zone_valid] by blast
  have "\<exists>a'. stored (de_codec demo_env) (ds_artifacts s') ''all.sample.x'' = Some a' \<and>
      (a' = demo_artifact \<or> out_Seq demo_artifact < out_Seq a')"
    by (rule artifact_sequence_grows [OF demo_publishable _ demo_issued c(2)])
      (simp_all add: demo_codec_roundtrip demo_stored(1) demo_domains)
  moreover have "out_Seq demo_artifact = 1000" by (simp add: demo_artifact_def)
  ultimately show ?thesis using c(1) by auto
qed

text \<open>C6: Along any run of cycles through Route53, failures and restarts, the zone of a domain with a
  published artifact serves a tree in full and still holds every entry of the published one, which a
  client with a cached root may be reading.\<close>

theorem route53_zone_served:
  assumes "r53_documented c md" and "mt_publisher cfg = Some (r53_Sync c)" and "publishable cfg"
    and "codec_roundtrip (de_codec env)" and "eip1459 (de_trees env) (tree_domains cfg)"
    and "issued_ok (de_codec env) (tree_domains cfg) s" and "md_valid md (ds_zone s)"
    and "zone_ok env cfg (ds_artifacts s) (r53_zone md (ds_zone s))" and "dns_run env cfg s s'"
  shows "zone_ok env cfg (ds_artifacts s') (r53_zone md (ds_zone s'))"
  using r53.served_along_run [of cfg env "(c, md)" s s'] assms eip1459D(2) [OF assms(5)] by simp

theorem route53_zone_served_witness:
  "\<exists>r s'. publish_cycle demo_env (demo_cfg (r53_Sync mem_client)) sample_time sample_time (demo_state demo_zone) = Some (r, s') \<and>
     zone_ok demo_env (demo_cfg (r53_Sync mem_client)) (ds_artifacts s') (r53_zone mem_model (ds_zone s'))"
proof -
  obtain r s' where c: "publish_cycle demo_env (demo_cfg (r53_Sync mem_client)) sample_time sample_time (demo_state demo_zone) = Some (r, s')"
      "dns_run demo_env (demo_cfg (r53_Sync mem_client)) (demo_state demo_zone) s'"
    using demo_run [OF r53_returns [OF mem_documented mem_timed] demo_zone_valid] by blast
  have "zone_ok demo_env (demo_cfg (r53_Sync mem_client)) (ds_artifacts s') (r53_zone mem_model (ds_zone s'))"
    by (rule route53_zone_served [OF mem_documented _ demo_publishable _ _ demo_issued _ _ c(2)])
      (simp_all add: demo_codec_roundtrip demo_eip1459 demo_zone_valid demo_zone_ok)
  then show ?thesis using c(1) by blast
qed

text \<open>C33: The same holds along any run through Cloudflare on a zone that begins with at most one TXT record
  under each name at or below the domains of the trees, and it keeps at most one under each.\<close>

theorem cloudflare_zone_served:
  assumes "cf_documented c md" and "mt_publisher cfg = Some (cf_Sync c)" and "publishable cfg"
    and "codec_roundtrip (de_codec env)" and "eip1459 (de_trees env) (tree_domains cfg)"
    and "issued_ok (de_codec env) (tree_domains cfg) s" and "cm_valid md (ds_zone s)"
    and "one_per_name (managed (tree_domains cfg)) (cm_records md (ds_zone s))"
    and "zone_ok env cfg (ds_artifacts s) (cf_zone md (ds_zone s))" and "dns_run env cfg s s'"
  shows "zone_ok env cfg (ds_artifacts s') (cf_zone md (ds_zone s')) \<and>
    one_per_name (managed (tree_domains cfg)) (cm_records md (ds_zone s'))"
proof -
  have "\<forall>d\<in>tree_domains cfg. \<forall>T. cf_accepts (tree_domains cfg) d (tl_ToTXT (de_trees env) T d)"
    using eip1459D(2,3) [OF assms(5)] by (simp add: cf_accepts_def)
  then show ?thesis
    using cf.served_along_run [of cfg env "(c, md, tree_domains cfg)" s s'] assms by (simp add: cf_managed_def)
qed

theorem cloudflare_zone_served_witness:
  "\<exists>r s'. publish_cycle demo_env (demo_cfg (cf_Sync cfm_client)) sample_time sample_time (demo_state demo_records) = Some (r, s') \<and>
     zone_ok demo_env (demo_cfg (cf_Sync cfm_client)) (ds_artifacts s') (cf_zone cfm_model (ds_zone s'))"
proof -
  obtain r s' where c: "publish_cycle demo_env (demo_cfg (cf_Sync cfm_client)) sample_time sample_time (demo_state demo_records) = Some (r, s')"
      "dns_run demo_env (demo_cfg (cf_Sync cfm_client)) (demo_state demo_records) s'"
    using demo_run [OF cf_returns [OF cfm_documented] demo_records_valid] by blast
  have "zone_ok demo_env (demo_cfg (cf_Sync cfm_client)) (ds_artifacts s') (cf_zone cfm_model (ds_zone s'))"
    by (rule cloudflare_zone_served [OF cfm_documented _ demo_publishable _ _ demo_issued _ _ _ c(2), THEN conjunct1])
      (simp_all only: demo_env_simps demo_codec_roundtrip demo_eip1459 demo_records_valid demo_records_ok demo_records_single)
  then show ?thesis using c(1) by blast
qed

end
