(* ===== verification/Spec2Isabelle.thy ===== *)
theory Spec2Isabelle
  imports SnapshotProps ExpiringMap Releases DistinctProps SelectionProps PublishedRows HistoryProps ForkFile DnsProps
begin

text \<open>
  \<^bold>\<open>enrscout\<close> crawls the Ethereum discovery networks, keeps a set of the nodes it has seen, and publishes
  it. Its crawler (\<^verbatim>\<open>cmd/crawler\<close>) walks discv4 and discv5, classifies each record by the fork id or fork
  digest it advertises (\<^verbatim>\<open>internal/netconf\<close>), tracks the nodes (\<^verbatim>\<open>internal/nodeset\<close>), probes them for
  their client, and once a minute writes a snapshot: one Parquet object per network and a manifest that
  names them (\<^verbatim>\<open>internal/snapshot\<close>, \<^verbatim>\<open>internal/store\<close>). The query service and the publisher of DNS trees
  (\<^verbatim>\<open>cmd/dnspublisher\<close>) read the committed manifest. This development models that core: what is
  tracked, how it is classified, what is published, which records reach a tree, and how the trees get
  into a DNS zone.

  \<^bold>\<open>Conventions.\<close> Go structs are records and methods are functions from the state to the result and the new
  state; a mutex-protected method is one function, so an interleaving is a sequence of calls. Maps are
  association lists with distinct keys whose order is the order a \<^verbatim>\<open>range\<close> visits, left arbitrary in every
  theorem. Instants are integer nanoseconds, and widths are kept where the code depends on them
  (\<open>u64\<close> fork times and epochs, the saturating \<^verbatim>\<open>time.Sub\<close>, the wrapping products of the shrink guard, double
  precision in the tree balance). Errors are values. Code outside the repository is an argument of the
  definitions that use it: \<^verbatim>\<open>enode.Parse\<close> and the ENR entry loaders, the chain configurations of
  go-ethereum, its list of special networks, the Parquet and JSON codecs, gzip, \<^verbatim>\<open>url.Parse\<close>, the
  floating-point estimate of a sketch. Theorems that need a codec to read back what it wrote say so for
  the values concerned only. Clock readings and random numbers are arguments, too.

  \<^bold>\<open>The theories, in the order of the code.\<close>
  \<^item> \<open>Prelude\<close>: integers, instants, Go maps, hexadecimal text, byte order. \<open>GoHeap\<close>: \<^verbatim>\<open>container/heap\<close>.
    \<open>Hashes\<close>: CRC-32 and SHA-256. \<open>Memo\<close>: the locale of a time-keyed cache, interpreted for the fork id
    and the consensus state. \<open>Float64\<close>: the double precision product and rounding the selection uses,
    exact below \<open>2 ^ 53\<close>. \<open>TimeFormat\<close>: \<^verbatim>\<open>time.Format\<close> and \<^verbatim>\<open>time.Parse\<close> on the key layouts for the
    years 1 to 9999, and that parsing inverts formatting.
  \<^item> \<open>NetPolicy\<close> (\<^verbatim>\<open>internal/netpolicy\<close>) and \<open>ClientName\<close> (\<^verbatim>\<open>internal/clientname\<close>): usable addresses, canonical
    and recognised client names.
  \<^item> \<open>NodeModel\<close> and \<open>NodeSet\<close> (\<^verbatim>\<open>internal/nodeset/nodeset.go\<close>): the tracked node, its row, and every method
    of \<^verbatim>\<open>Set\<close>: admission, eviction, fingerprint claims, pruning, snapshots, restore. \<open>NodeSetInv\<close> and
    \<open>NodeSetSteps\<close> hold the invariant, the abstract effect of a critical section, and the step relation of
    all sections; \<open>NodeSetProps\<close> shows that every reachable set keeps the invariant, whose part on the nodes
    themselves needs restored rows to satisfy it, that each section refines the effect, the restore of a
    snapshot at startup included, and that runs after startup keep pinned nodes and never roll a record back. \<open>EvictionProps\<close>
    shows which nodes an eviction removes, whatever the map order; \<open>FingerprintProps\<close> that claims are
    exclusive and agree with the candidates, and exactly when a claim is granted again after a failure;
    \<open>SnapshotProps\<close> that a restart restores the published nodes when they fit the limit.
  \<^item> \<open>ExpiringMap\<close> (\<^verbatim>\<open>cmd/crawler/pending_fingerprints.go\<close>): the bounded map with an expiry heap.
  \<^item> \<open>ConsensusFork\<close>, \<open>ConsensusProps\<close> (\<^verbatim>\<open>netconf/consensus.go\<close>): epochs, fork digests with the blob mask, the
    state of an instant. \<open>NetworkForks\<close>, \<open>ForkIdProps\<close> (\<^verbatim>\<open>netconf/netconf.go\<close>, \<^verbatim>\<open>forkid.go\<close>): fork ids against
    EIP-2124, the classification window, the memo. \<open>ForkTargets\<close>, \<open>TargetProps\<close> (\<^verbatim>\<open>readiness.go\<close>,
    \<^verbatim>\<open>schedule.go\<close>, \<^verbatim>\<open>cancel.go\<close>): the tracked fork and the readiness of a row across its activation, with or without a later fork.
    \<open>Releases\<close> (\<^verbatim>\<open>releases.go\<close>, \<^verbatim>\<open>notices.go\<close>): version comparison, and the validation of releases and notices.
  \<^item> \<open>CancelForks\<close>, \<open>CancelProps\<close> (\<^verbatim>\<open>netconf/cancel.go\<close>): the entries of an operator's list applied to the
    networks, or to copies of them. The locale \<open>network_source\<close> is what the shared routine asks of
    where it gets a network, interpreted for both; so the check a running process makes of a new list
    accepts exactly what a restart would. \<open>ForkFile\<close> (\<^verbatim>\<open>internal/forkfile\<close>): the file that carries
    these lists, opened and reloaded; what a running process holds is always a file that restarts.
  \<^item> \<open>Distinct\<close>, \<open>DistinctProps\<close> (\<^verbatim>\<open>internal/distinct\<close>): the hourly sketches, their restore, and exactly which step
    back of the clock leaves a state that does not restore.
  \<^item> \<open>Selection\<close>, \<open>SelectionProps\<close> (\<^verbatim>\<open>cmd/dnspublisher/select.go\<close>): that the candidates are exactly the publishable
    rows, written down independently on the fields of row and record, that
    picking always ends with exactly the limit, and the floor of every identified client. The remainder
    loop is a \<^verbatim>\<open>partial_function\<close> and is shown to return.
  \<^item> \<open>ObjectStore\<close> (\<^verbatim>\<open>internal/store/store.go\<close>): the filesystem store. A world holds the objects and a
    script: before each call other processes may write or delete, and a call may fail before it takes
    effect or after. The locale \<open>conditional_store\<close> is the contract of \<^verbatim>\<open>ConditionalStore\<close>, interpreted
    for these definitions. \<open>Manifest\<close>, \<open>ManifestProps\<close> (\<^verbatim>\<open>internal/snapshot/snapshot.go\<close>, \<^verbatim>\<open>rows.go\<close>): keys,
    validation, the conditional commit, and the verified load; no update is lost under any script.
  \<^item> \<open>History\<close>, \<open>HistoryProps\<close> (\<^verbatim>\<open>snapshot/readiness.go\<close>, \<^verbatim>\<open>crawler/readiness.go\<close>, \<^verbatim>\<open>crawler/measurement.go\<close>): the
    side outputs of a publish, bounded and consistent with the manifest's counts.
  \<^item> \<open>Publisher\<close>, \<open>PublisherProps\<close>, \<open>PublishedRows\<close> (\<^verbatim>\<open>cmd/crawler/publisher.go\<close>): the whole of \<^verbatim>\<open>Publish\<close>. The
    override of the shrink guard is spent at most once in any run; retention keeps exactly the configured
    generations, the committed one among them; and a committed snapshot loads back as the
    publishable rows of the tracked set, across the store, the manifest and the reader.

  \<^item> \<open>DnsSync\<close> (\<^verbatim>\<open>cmd/dnspublisher/dns.go\<close>): the plan of a reconcile, and \<open>sync_spec\<close>, what a reconcile promises of
    the zone whatever call fails. The locale \<open>record_publisher\<close> is the interface \<^verbatim>\<open>recordPublisher\<close> with
    that promise; what a client concludes is proved in it once. \<open>Route53\<close>, \<open>Route53Props\<close> (\<^verbatim>\<open>route53.go\<close>) and
    \<open>Cloudflare\<close>, \<open>CloudflareProps\<close> (\<^verbatim>\<open>cloudflare.go\<close>) interpret it: both reconciles return and refine it. The
    services are arguments, and \<open>r53_documented\<close> and \<open>cf_documented\<close> say what is documented of them. A Cloudflare
    zone may hold several records under one name, which its listing collapses; its theorems are about
    zones with at most one under each name of the domains, a condition every reconcile keeps.
  \<^item> \<open>DnsPublisher\<close> (\<^verbatim>\<open>cmd/dnspublisher/main.go\<close>, \<^verbatim>\<open>artifact.go\<close>): options, artifacts, the trees of a network with
    their guards, and the cycle. \<open>DnsArtifacts\<close> shows what a cycle reads from and writes to disk, and that a
    run keeps every invariant that its quiet part and its pushes keep; \<open>DnsZone\<close> that domains share no name
    and stay served, in the context of \<open>record_publisher\<close>; \<open>DnsCycle\<close> that cycles return. \<open>DnsProps\<close> has the
    properties: sequences grow, and the zone serves a full tree and the published one along every run.

  \<^bold>\<open>Bounds.\<close> No definition takes fuel. Recursions are structural or have a measure; the loops that are
  not are \<^verbatim>\<open>partial_function\<close>s and proved to return: the remainder loop of the selection, the listings of
  both providers, which end with the pages of the service, and the wait for propagation, which ends with
  its deadline where time passes. Calendar years print in four digits,
  so instants of keys are assumed \<open>representable\<close>, the years 1 to 9999.

  \<^bold>\<open>Not modelled.\<close> Network I/O (discovery walks, RLPx and libp2p handshakes, GeoIP), goroutine wiring and
  worker pools, most flags, logs and Prometheus metrics; the SQL of the query engine, which DuckDB evaluates,
  and the HTTP layer on it; signing keys and the git copy of the trees; the S3 backend of the store, whose contract is
  the locale above; YAML and JSON decoding of operator files, an argument of what reads them; the registration
  of devnets from genesis files in go-ethereum's format.
\<close>

end
